(* ===== verification/Prelude.thy ===== *)
theory Prelude
  imports Main "HOL-Library.Word"
begin

text \<open>
  Shared vocabulary of the development: the machine types of the code, C memory operations on
  byte buffers, rotations, the byte order conversions, and the generic list lemmas that the
  component theories use.
\<close>

unbundle bit_operations_syntax

section \<open>Types\<close>

type_synonym byte = "8 word"
type_synonym uint32 = "32 word"
type_synonym uint64 = "64 word"

section \<open>Lists\<close>

text \<open>Intervals of numerals stay folded; the few lists of positions needed are given as rules.\<close>

declare upt_rec_numeral [simp del]

lemma take_drop_take: "take a xs @ take b (drop a xs) = take (a + b) xs"
  by (simp add: take_add)

lemma list_length_4:
  "length xs = 4 \<Longrightarrow> xs = [xs ! 0, xs ! 1, xs ! 2, xs ! 3]"
  by (rule nth_equalityI) (auto simp: less_Suc_eq numeral_eq_Suc)

lemma list_length_5:
  "length xs = 5 \<Longrightarrow> xs = [xs ! 0, xs ! 1, xs ! 2, xs ! 3, xs ! 4]"
  by (rule nth_equalityI) (auto simp: less_Suc_eq numeral_eq_Suc)

lemma list_length_8:
  "length xs = 8 \<Longrightarrow>
   xs = [xs ! 0, xs ! 1, xs ! 2, xs ! 3, xs ! 4, xs ! 5, xs ! 6, xs ! 7]"
  by (rule nth_equalityI) (auto simp: less_Suc_eq numeral_eq_Suc)

lemma list_length_16:
  "length xs = 16 \<Longrightarrow>
   xs = [xs ! 0, xs ! 1, xs ! 2, xs ! 3, xs ! 4, xs ! 5, xs ! 6, xs ! 7,
         xs ! 8, xs ! 9, xs ! 10, xs ! 11, xs ! 12, xs ! 13, xs ! 14, xs ! 15]"
  by (rule nth_equalityI) (auto simp: less_Suc_eq numeral_eq_Suc)

lemma rotate_Suc_update:
  assumes "i < length D"
  shows "rotate (Suc i) (D[i := x]) = tl (rotate i D) @ [x]"
proof -
  from assms have "D[i := x] = take i D @ x # drop (Suc i) D"
    by (rule upd_conv_take_nth_drop)
  moreover from assms have "D = take i D @ D ! i # drop (Suc i) D"
    by (rule id_take_nth_drop)
  ultimately show ?thesis
    using assms by (metis append_Cons length_take less_imp_le_nat list.sel(3) min.absorb2
        append.assoc rotate_append rotate1_rotate_swap rotate_Suc rotate1.simps(2))
qed

lemma upt_8: "[0..<8] = [0, 1, 2, 3, 4, 5, 6, 7 :: nat]"
  by code_simp

lemma upt_16: "[0..<16] = [0, 1, 2, 3, 4, 5, 6, 7, 8, 9, 10, 11, 12, 13, 14, 15 :: nat]"
  by code_simp

lemma fold_shift: "fold (\<lambda>t. g (t + d)) [0..<n] s = fold g [d..<n + d] s" for d :: nat
proof -
  have "fold (\<lambda>t. g (t + d)) [0..<n] s = fold g (map (\<lambda>t. t + d) [0..<n]) s"
    by (simp add: fold_map o_def)
  then show ?thesis by (simp add: map_add_upt)
qed

lemma fold_upt_split: "a \<le> b \<Longrightarrow> b \<le> c \<Longrightarrow> fold g [b..<c] (fold g [a..<b] s) = fold g [a..<c] s" for a :: nat
  by (metis comp_apply fold_append le_iff_add upt_add_eq_append)

section \<open>Sequences of statements\<close>

text \<open>A block of statements is the list of the state changes its lines make, in order.\<close>

primrec run_lines :: "('s \<Rightarrow> 's) list \<Rightarrow> 's \<Rightarrow> 's" where
  "run_lines [] s = s"
| "run_lines (f # fs) s = run_lines fs (f s)"

lemma run_lines_append [simp]: "run_lines (fs @ gs) s = run_lines gs (run_lines fs s)"
  by (induction fs arbitrary: s) simp_all

lemma run_lines_map: "run_lines (map g xs) s = fold g xs s"
  by (induction xs arbitrary: s) simp_all

text \<open>
  If line \<open>i\<close> acts as the reference step \<open>g i\<close> on the view of the state that fits line \<open>i\<close>, the
  whole block is the loop over the reference steps: how unrolled code with renamed registers is
  folded back into a loop.
\<close>

lemma run_lines_view:
  assumes "\<And>i q. i < length fs \<Longrightarrow> ok q \<Longrightarrow>
      ok ((fs ! i) q) \<and> view (Suc i) ((fs ! i) q) = g i (view i q)"
    and "ok p"
  shows "ok (run_lines fs p) \<and>
    view (length fs) (run_lines fs p) = fold g [0..<length fs] (view 0 p)"
  using assms(1)
proof (induction fs rule: rev_induct)
  case Nil
  then show ?case using assms(2) by simp
next
  case (snoc f fs)
  have IH: "ok (run_lines fs p) \<and>
      view (length fs) (run_lines fs p) = fold g [0..<length fs] (view 0 p)"
  proof (rule snoc.IH)
    fix i q assume "i < length fs" "ok q"
    then show "ok ((fs ! i) q) \<and> view (Suc i) ((fs ! i) q) = g i (view i q)"
      using snoc.prems [of i q] by (simp add: nth_append)
  qed
  then show ?case
    using snoc.prems [of "length fs" "run_lines fs p"] by simp
qed

section \<open>C memory\<close>

text \<open>\<open>memcpy(dst + off, src, n)\<close> where \<open>src\<close> is the list of the \<open>n\<close> bytes copied.\<close>

definition memcpy :: "'a list \<Rightarrow> nat \<Rightarrow> 'a list \<Rightarrow> 'a list" where
  "memcpy dst off src = take off dst @ src @ drop (off + length src) dst"

lemma length_memcpy [simp]:
  "off + length src \<le> length dst \<Longrightarrow> length (memcpy dst off src) = length dst"
  by (simp add: memcpy_def)

lemma take_memcpy [simp]:
  "off \<le> length dst \<Longrightarrow> n = off + length src \<Longrightarrow> take n (memcpy dst off src) = take off dst @ src"
  by (simp add: memcpy_def)

lemma memcpy_all: "length src = length dst \<Longrightarrow> memcpy dst 0 src = src"
  by (simp add: memcpy_def)

text \<open>\<open>memset(dst + off, v, n)\<close>.\<close>

definition memset :: "'a list \<Rightarrow> nat \<Rightarrow> 'a \<Rightarrow> nat \<Rightarrow> 'a list" where
  "memset dst off v n = memcpy dst off (replicate n v)"

section \<open>Rotations and byte order\<close>

definition rol32 :: "uint32 \<Rightarrow> nat \<Rightarrow> uint32" where
  "rol32 x n = push_bit n x OR drop_bit (32 - n) x"

definition ror32 :: "uint32 \<Rightarrow> nat \<Rightarrow> uint32" where
  "ror32 x n = drop_bit n x OR push_bit (32 - n) x"

definition ror64 :: "uint64 \<Rightarrow> nat \<Rightarrow> uint64" where
  "ror64 x n = drop_bit n x OR push_bit (64 - n) x"

lemma ror32_rotr: "n \<le> 32 \<Longrightarrow> ror32 x n = word_rotr n x"
proof (rule bit_word_eqI)
  fix m assume n: "n \<le> 32" and "m < LENGTH(32)"
  then have m: "m < 32" by simp
  show "bit (ror32 x n) m = bit (word_rotr n x) m"
  proof (cases "m + n < 32")
    case True
    with m show ?thesis
      by (auto simp: ror32_def bit_simps add.commute)
  next
    case False
    have "\<not> bit x (n + m)"
      using False bit_imp_le_length [of x "n + m"] by auto
    with False m n show ?thesis
      by (auto simp: ror32_def bit_simps le_mod_geq)
  qed
qed

lemma ror64_rotr: "n \<le> 64 \<Longrightarrow> ror64 x n = word_rotr n x"
proof (rule bit_word_eqI)
  fix m assume n: "n \<le> 64" and "m < LENGTH(64)"
  then have m: "m < 64" by simp
  show "bit (ror64 x n) m = bit (word_rotr n x) m"
  proof (cases "m + n < 64")
    case True
    with m show ?thesis
      by (auto simp: ror64_def bit_simps add.commute)
  next
    case False
    have "\<not> bit x (n + m)"
      using False bit_imp_le_length [of x "n + m"] by auto
    with False m n show ?thesis
      by (auto simp: ror64_def bit_simps le_mod_geq)
  qed
qed

lemma rol32_rotl: "0 < n \<Longrightarrow> n < 32 \<Longrightarrow> rol32 x n = word_rotl n x"
proof (rule bit_word_eqI)
  fix m assume n: "0 < n" "n < 32" and "m < LENGTH(32)"
  then have m: "m < 32" by simp
  show "bit (rol32 x n) m = bit (word_rotl n x) m"
  proof (cases "m < n")
    case True
    with n m have "(32 + m - n) mod 32 = 32 + m - n" by simp
    with True n m show ?thesis by (auto simp: rol32_def bit_simps add.commute [of m])
  next
    case False
    with n m have "32 + m - n = m - n + 32" by simp
    then have "(32 + m - n) mod 32 = m - n" using m by (simp only: mod_add_self2) simp
    moreover have "\<not> bit x (32 + m - n)"
      using bit_imp_le_length [of x "32 + m - n"] False by auto
    ultimately show ?thesis
      using False n m by (auto simp: rol32_def bit_simps add.commute [of m])
  qed
qed

text \<open>The four bytes of a 32-bit word, most significant first, and the word they spell.\<close>

definition be32 :: "uint32 \<Rightarrow> byte list" where
  "be32 w = map (\<lambda>k. ucast (drop_bit k w)) [24, 16, 8, 0]"

definition le32 :: "uint32 \<Rightarrow> byte list" where
  "le32 w = map (\<lambda>k. ucast (drop_bit k w)) [0, 8, 16, 24]"

definition be64 :: "uint64 \<Rightarrow> byte list" where
  "be64 w = map (\<lambda>k. ucast (drop_bit k w)) [56, 48, 40, 32, 24, 16, 8, 0]"

definition of_be32 :: "byte list \<Rightarrow> uint32" where
  "of_be32 b = push_bit 24 (ucast (b ! 0)) OR push_bit 16 (ucast (b ! 1)) OR
               push_bit 8 (ucast (b ! 2)) OR ucast (b ! 3)"

definition of_le32 :: "byte list \<Rightarrow> uint32" where
  "of_le32 b = ucast (b ! 0) OR push_bit 8 (ucast (b ! 1)) OR
               push_bit 16 (ucast (b ! 2)) OR push_bit 24 (ucast (b ! 3))"

definition of_be64 :: "byte list \<Rightarrow> uint64" where
  "of_be64 b = ucast (b ! 7) OR push_bit 8 (ucast (b ! 6)) OR push_bit 16 (ucast (b ! 5)) OR
     push_bit 24 (ucast (b ! 4)) OR push_bit 32 (ucast (b ! 3)) OR push_bit 40 (ucast (b ! 2)) OR
     push_bit 48 (ucast (b ! 1)) OR push_bit 56 (ucast (b ! 0))"

lemma length_be32 [simp]: "length (be32 w) = 4"
  by (simp add: be32_def)

lemma length_le32 [simp]: "length (le32 w) = 4"
  by (simp add: le32_def)

lemma length_be64 [simp]: "length (be64 w) = 8"
  by (simp add: be64_def)

lemma bit_octet:
  "bit (push_bit k (ucast (ucast (drop_bit k w) :: byte)) :: 'a::len word) n \<longleftrightarrow>
   k \<le> n \<and> n < k + 8 \<and> bit w n"
  for w :: "'a::len word"
  by (auto simp: bit_simps dest: bit_imp_le_length)

lemma bit_octet_0:
  "bit (ucast (ucast w :: byte) :: 'a::len word) n \<longleftrightarrow> n < 8 \<and> bit w n"
  for w :: "'a::len word"
  by (auto simp: bit_simps dest: bit_imp_le_length)

lemma of_be32_be32 [simp]: "of_be32 (be32 w) = w"
proof (rule bit_eqI)
  fix n
  have "bit w n \<Longrightarrow> n < 32"
    using bit_imp_le_length [of w n] by simp
  then show "bit (of_be32 (be32 w)) n = bit w n"
    by (simp add: of_be32_def be32_def bit_or_iff bit_octet bit_octet_0) arith
qed

lemma of_le32_le32 [simp]: "of_le32 (le32 w) = w"
proof (rule bit_eqI)
  fix n
  have "bit w n \<Longrightarrow> n < 32"
    using bit_imp_le_length [of w n] by simp
  then show "bit (of_le32 (le32 w)) n = bit w n"
    by (simp add: of_le32_def le32_def bit_or_iff bit_octet bit_octet_0) arith
qed

lemma of_be64_be64 [simp]: "of_be64 (be64 w) = w"
proof (rule bit_eqI)
  fix n
  have "bit w n \<Longrightarrow> n < 64"
    using bit_imp_le_length [of w n] by simp
  then show "bit (of_be64 (be64 w)) n = bit w n"
    by (simp add: of_be64_def be64_def bit_or_iff bit_octet bit_octet_0) arith
qed

lemma bit_byte_8: "bit b n \<Longrightarrow> n < 8" for b :: byte
  using bit_imp_le_length [of b n] by simp

lemma bit_of_le32: "bit (of_le32 b) n \<longleftrightarrow> n < 32 \<and> bit (b ! (n div 8)) (n mod 8)"
proof -
  have b: "bit (of_le32 b) n \<longleftrightarrow> n < 32 \<and> (n < 8 \<and> bit (b ! 0) n \<or> 8 \<le> n \<and> n - 8 < 8 \<and> bit (b ! 1) (n - 8) \<or>
      16 \<le> n \<and> n - 16 < 8 \<and> bit (b ! 2) (n - 16) \<or> 24 \<le> n \<and> n - 24 < 8 \<and> bit (b ! 3) (n - 24))"
    by (auto simp: of_le32_def bit_simps dest: bit_byte_8)
  consider "n < 8" | "8 \<le> n" "n < 16" | "16 \<le> n" "n < 24" | "24 \<le> n" "n < 32" | "32 \<le> n"
    by linarith
  then show ?thesis
  proof cases
    case 2 then have "n div 8 = 1" "n mod 8 = n - 8" by (simp_all add: div_nat_eqI le_mod_geq)
    with 2 show ?thesis by (auto simp: b dest: bit_byte_8)
  next
    case 3 then have "n div 8 = 2" "n mod 8 = n - 16" by (simp_all add: div_nat_eqI le_mod_geq)
    with 3 show ?thesis by (auto simp: b dest: bit_byte_8)
  next
    case 4 then have "n div 8 = 3" "n mod 8 = n - 24" by (simp_all add: div_nat_eqI le_mod_geq)
    with 4 show ?thesis by (auto simp: b dest: bit_byte_8)
  qed (simp_all add: b)
qed

lemma of_be32_rev: "length b = 4 \<Longrightarrow> of_be32 b = of_le32 (rev b)"
  by (simp add: of_be32_def of_le32_def rev_nth ac_simps or.assoc or.commute or.left_commute)

lemma bit_of_be32: "length b = 4 \<Longrightarrow> bit (of_be32 b) n \<longleftrightarrow> n < 32 \<and> bit (b ! (3 - n div 8)) (n mod 8)"
  by (auto simp: of_be32_rev bit_of_le32 rev_nth)

lemma be32_of_be32: "length b = 4 \<Longrightarrow> be32 (of_be32 b) = b"
proof -
  assume b: "length b = 4"
  have "ucast (drop_bit (8 * j) (of_be32 b)) = b ! (3 - j)" if "j < 4" for j
    by (rule bit_word_eqI) (use that b in \<open>simp add: bit_simps bit_of_be32\<close>)
  from this [of 3] this [of 2] this [of 1] this [of 0] show ?thesis
    by (subst (2) list_length_4 [OF b]) (simp add: be32_def)
qed

section \<open>Words from natural numbers\<close>

lemma of_nat_mod_word:
  assumes "LENGTH('a) \<le> m"
  shows "(of_nat (k mod 2 ^ m) :: 'a::len word) = of_nat k"
  by (rule bit_word_eqI) (use assms in \<open>simp add: bit_of_nat_iff bit_take_bit_iff flip: take_bit_eq_mod\<close>)

lemma be64_be32: "be64 w = be32 (ucast (drop_bit 32 w)) @ be32 (ucast w)"
proof -
  have *: "ucast (drop_bit k (ucast v :: uint32)) = (ucast (drop_bit k v) :: byte)"
    if "k \<le> 24" for k and v :: uint64
    by (rule bit_word_eqI) (use that in \<open>simp add: bit_simps\<close>)
  show ?thesis
    using * [of 0 w] * [of 0 "drop_bit 32 w"] by (simp add: be64_def be32_def * add.commute)
qed

lemma bit_of_nat_small:
  assumes "k < 2 ^ m" and "bit (of_nat k :: 'a::len word) n"
  shows "n < m"
proof (rule ccontr)
  assume "\<not> n < m"
  then have "(2 :: nat) ^ m \<le> 2 ^ n" by simp
  with assms(1) have "k div 2 ^ n = 0" by (intro div_less) linarith
  with assms(2) show False
    by (simp add: bit_of_nat_iff bit_iff_odd [of k])
qed

section \<open>Counters kept in two words\<close>

lemma unat32_less: "unat w < 4294967296" for w :: uint32
  using unsigned_less [of w, where ?'a = nat] by simp

definition pair64 :: "uint32 \<Rightarrow> uint32 \<Rightarrow> nat" where
  "pair64 high low = unat high * 2 ^ 32 + unat low"

lemma pair64_bound: "pair64 h l < 2 ^ 64"
proof -
  have "unat h \<le> 2 ^ 32 - 1" "unat l < 2 ^ 32"
    using unat32_less [of h] unat32_less [of l] by simp_all
  then show ?thesis by (simp add: pair64_def)
qed

lemma pair64_add:
  assumes "c \<longleftrightarrow> 2 ^ 32 \<le> unat l + unat d"
  shows "pair64 (if c then h + 1 else h) (l + d) = (pair64 h l + unat d) mod 2 ^ 64"
proof (cases c)
  case True
  have l: "unat l < 2 ^ 32" "unat d < 2 ^ 32"
    using unat32_less [of l] unat32_less [of d] by simp_all
  then have "unat l + unat d = 2 ^ 32 + unat (l + d)"
    using True assms by (simp add: unat_word_ariths le_mod_geq)
  then have "unat h * 2 ^ 32 + unat l + unat d = (unat h + 1) * 2 ^ 32 + unat (l + d)"
    by (simp add: algebra_simps)
  then have "(pair64 h l + unat d) mod 2 ^ 64 = ((unat h + 1) * 2 ^ 32 + unat (l + d)) mod 2 ^ 64"
    by (simp only: pair64_def)
  also have "\<dots> = ((unat h + 1) mod 2 ^ 32) * 2 ^ 32 + unat (l + d)"
  proof -
    have "(unat h + 1) * 2 ^ 32 mod 2 ^ 64 = ((unat h + 1) mod 2 ^ 32) * (2 ^ 32 :: nat)"
    proof -
      have "(2 :: nat) ^ 64 = 2 ^ 32 * 2 ^ 32" by simp
      then show ?thesis by (simp only: mult_mod_left)
    qed
    moreover have "((unat h + 1) mod 2 ^ 32) * 2 ^ 32 + unat (l + d) < 2 ^ 64"
      using pair64_bound [of "h + 1" "l + d"] by (simp add: pair64_def unat_word_ariths)
    ultimately have "((unat h + 1) * 2 ^ 32 mod 2 ^ 64 + unat (l + d)) mod 2 ^ 64 =
        ((unat h + 1) mod 2 ^ 32) * 2 ^ 32 + unat (l + d)"
      by (simp only: mod_less)
    then show ?thesis
      by (simp only: mod_add_left_eq)
  qed
  finally show ?thesis
    using True by (simp add: pair64_def unat_word_ariths)
next
  case False
  then have "unat (l + d) = unat l + unat d"
    using assms by (simp add: unat_word_ariths)
  then show ?thesis
    using False pair64_bound [of h "l + d"] by (simp add: pair64_def)
qed

lemma word_add_overflow: "l + d < d \<longleftrightarrow> 2 ^ 32 \<le> unat l + unat d" for l d :: uint32
proof -
  have "unat l < 2 ^ 32" "unat d < 2 ^ 32"
    using unat32_less [of l] unat32_less [of d] by simp_all
  then show ?thesis
    by (cases "2 ^ 32 \<le> unat l + unat d") (simp_all add: word_less_nat_alt unat_word_ariths le_mod_geq)
qed

lemma word_inc_overflow: "l + 1 = 0 \<longleftrightarrow> 2 ^ 32 \<le> unat l + unat (1 :: uint32)" for l :: uint32
proof -
  have "unat l < 2 ^ 32"
    using unat32_less [of l] by simp
  then show ?thesis
    by (cases "2 ^ 32 \<le> unat l + 1") (simp_all add: unat_eq_zero [symmetric] unat_word_ariths le_mod_geq)
qed

section \<open>Pieces of a buffer\<close>

text \<open>Splitting a buffer into pieces of a fixed size; the last piece may be shorter.\<close>

function pieces :: "nat \<Rightarrow> 'a list \<Rightarrow> 'a list list" where
  "pieces n xs = (if n = 0 \<or> xs = [] then [] else take n xs # pieces n (drop n xs))"
  by pat_completeness auto
termination
  by (relation "measure (\<lambda>(n, xs). length xs)") auto

declare pieces.simps [simp del]

lemma pieces_Nil [simp]: "pieces n [] = []"
  by (simp add: pieces.simps)

lemma pieces_append:
  "0 < n \<Longrightarrow> length xs = n \<Longrightarrow> pieces n (xs @ ys) = xs # pieces n ys"
  by (subst pieces.simps) auto

lemma concat_pieces: "0 < n \<Longrightarrow> concat (pieces n xs) = xs"
  by (induction n xs rule: pieces.induct) (simp add: pieces.simps)

lemma pieces_append_dvd:
  "0 < n \<Longrightarrow> n dvd length xs \<Longrightarrow> pieces n (xs @ ys) = pieces n xs @ pieces n ys"
proof (induction n xs rule: pieces.induct)
  case (1 n xs)
  show ?case
  proof (cases "xs = []")
    case False
    with "1.prems" have le: "n \<le> length xs" by (auto dest: dvd_imp_le)
    with "1.prems" False have "pieces n (drop n xs @ ys) = pieces n (drop n xs) @ pieces n ys"
      by (intro "1.IH") (auto simp: dvd_diff_nat)
    with "1.prems" False le show ?thesis
      by (simp add: pieces.simps [of n xs] pieces.simps [of n "xs @ ys"])
  qed simp
qed

lemma pieces_single: "0 < n \<Longrightarrow> length xs = n \<Longrightarrow> pieces n xs = [xs]"
  using pieces_append [of n xs "[]"] by simp

lemma pieces_two: "0 < n \<Longrightarrow> length xs = n \<Longrightarrow> length ys = n \<Longrightarrow> pieces n (xs @ ys) = [xs, ys]"
  by (simp add: pieces_append pieces_single)

lemma pieces_eq_map:
  "0 < n \<Longrightarrow> length xs = n * k \<Longrightarrow> pieces n xs = map (\<lambda>i. take n (drop (n * i) xs)) [0..<k]"
proof (induction k arbitrary: xs)
  case (Suc k)
  then have "xs = take n xs @ drop n xs" and "length (take n xs) = n" by simp_all
  then have "pieces n xs = take n xs # pieces n (drop n xs)"
    using Suc.prems by (metis pieces_append)
  also have "pieces n (drop n xs) = map (\<lambda>i. take n (drop (n * i) (drop n xs))) [0..<k]"
    using Suc by simp
  finally show ?case
    by (simp add: upt_conv_Cons map_Suc_upt [symmetric] add.commute del: upt_Suc)
qed simp

lemma pieces_replicate:
  "0 < n \<Longrightarrow> pieces n (replicate (n * k) a) = replicate k (replicate n a)"
  by (induction k) (simp_all add: replicate_add pieces_append)

text \<open>The text \<open>\<open>%02x\<close>\<close> gives for a byte.\<close>

definition hex_digits :: string where
  "hex_digits = ''0123456789abcdef''"

definition hex2 :: "byte \<Rightarrow> string" where
  "hex2 b = [hex_digits ! (unat b div 16), hex_digits ! (unat b mod 16)]"

end
