(* ===== verification/Stream_Digest.thy ===== *)
theory Stream_Digest
  imports Prelude
begin

text \<open>
  What MD5, SHA-1, SHA-256 and SHA-512 share: a chaining value, a block buffer that is filled by
  \<open>update\<close> calls of any size, and a final padding. The locales state the contract of an
  \<open>update\<close> operation and of a \<open>final\<close> operation; their lemmas show once that the digest only
  depends on the concatenation of the data fed, and that it is the Merkle-Damgard hash of it.
\<close>

section \<open>Reference: iterating a compression function over blocks\<close>

text \<open>\<open>absorb n f h xs\<close> compresses every complete \<open>n\<close>-byte block and returns the rest.\<close>

function absorb :: "nat \<Rightarrow> ('h \<Rightarrow> byte list \<Rightarrow> 'h) \<Rightarrow> 'h \<Rightarrow> byte list \<Rightarrow> 'h \<times> byte list" where
  "absorb n f h xs =
     (if n = 0 \<or> length xs < n then (h, xs) else absorb n f (f h (take n xs)) (drop n xs))"
  by pat_completeness auto
termination
  by (relation "measure (\<lambda>(n, f, h, xs). length xs)") auto

declare absorb.simps [simp del]

lemma absorb_short: "length xs < n \<Longrightarrow> absorb n f h xs = (h, xs)"
  by (simp add: absorb.simps)

lemma absorb_block:
  "0 < n \<Longrightarrow> length b = n \<Longrightarrow> absorb n f h (b @ xs) = absorb n f (f h b) xs"
  by (subst absorb.simps) simp

lemma absorb_append:
  "0 < n \<Longrightarrow> absorb n f h (xs @ ys) =
     (case absorb n f h xs of (h', r) \<Rightarrow> absorb n f h' (r @ ys))"
proof (induction n f h xs rule: absorb.induct)
  case (1 n f h xs)
  show ?case
  proof (cases "length xs < n")
    case True
    then show ?thesis by (simp add: absorb_short)
  next
    case False
    with "1.prems" have "absorb n f h (xs @ ys) = absorb n f (f h (take n xs)) (drop n xs @ ys)"
      by (subst absorb.simps) simp
    also have "\<dots> = (case absorb n f (f h (take n xs)) (drop n xs) of
        (h', r) \<Rightarrow> absorb n f h' (r @ ys))"
      using "1.IH" "1.prems" False by simp
    also have "absorb n f (f h (take n xs)) (drop n xs) = absorb n f h xs"
      using "1.prems" False by (subst (2) absorb.simps) simp
    finally show ?thesis .
  qed
qed

lemma absorb_cong:
  assumes step: "\<And>h b. P h \<Longrightarrow> length b = n \<Longrightarrow> f h b = g h b \<and> P (g h b)"
    and "P h" and n: "0 < n"
  shows "absorb n f h xs = absorb n g h xs \<and> P (fst (absorb n g h xs))"
  using assms(2)
proof (induction "length xs" arbitrary: h xs rule: less_induct)
  case less
  show ?case
  proof (cases "length xs < n")
    case True
    with less.prems show ?thesis by (simp add: absorb_short)
  next
    case False
    then have "f h (take n xs) = g h (take n xs)" "P (g h (take n xs))"
      using step [OF less.prems, of "take n xs"] by simp_all
    moreover have "length (drop n xs) < length xs" using False n by simp
    ultimately show ?thesis
      using less.hyps [of "drop n xs" "g h (take n xs)"] False n
      by (simp add: absorb.simps [of n f h xs] absorb.simps [of n g h xs])
  qed
qed

lemma length_snd_absorb:
  "0 < n \<Longrightarrow> length (snd (absorb n f h xs)) = length xs mod n"
proof (induction n f h xs rule: absorb.induct)
  case (1 n f h xs)
  then show ?case
    by (cases "length xs < n") (simp_all add: absorb.simps [of n f h xs] le_mod_geq)
qed

lemma absorb_pieces:
  "0 < n \<Longrightarrow> n dvd length xs \<Longrightarrow> absorb n f h xs = (foldl f h (pieces n xs), [])"
proof (induction n f h xs rule: absorb.induct)
  case (1 n f h xs)
  show ?case
  proof (cases "xs = []")
    case True
    with "1.prems" show ?thesis by (simp add: absorb_short)
  next
    case False
    with "1.prems" have n: "n \<le> length xs" by (auto dest: dvd_imp_le)
    with "1.prems" have "n dvd length (drop n xs)" by (simp add: dvd_diff_nat)
    with "1.IH" "1.prems" n have
      "absorb n f (f h (take n xs)) (drop n xs)
         = (foldl f (f h (take n xs)) (pieces n (drop n xs)), [])" by simp
    with "1.prems" n False show ?thesis
      by (simp add: absorb.simps [of n f h xs] pieces.simps [of n xs])
  qed
qed

text \<open>
  Merkle-Damgard padding for block size \<open>n\<close>: the byte \<open>0x80\<close>, the fewest zero bytes that leave
  room for the length field, and the length field \<open>enc\<close> of \<open>lf\<close> bytes.
\<close>

definition pad_tail :: "nat \<Rightarrow> nat \<Rightarrow> (nat \<Rightarrow> byte list) \<Rightarrow> nat \<Rightarrow> byte list" where
  "pad_tail n lf enc len =
     [0x80] @ replicate ((n - (len + 1 + lf) mod n) mod n) 0 @ enc len"

definition md_hash ::
  "nat \<Rightarrow> nat \<Rightarrow> (nat \<Rightarrow> byte list) \<Rightarrow> ('h \<Rightarrow> byte list \<Rightarrow> 'h) \<Rightarrow> 'h \<Rightarrow> byte list \<Rightarrow> 'h" where
  "md_hash n lf enc f h0 msg = foldl f h0 (pieces n (msg @ pad_tail n lf enc (length msg)))"

lemma pad_tail_dvd:
  assumes "0 < n" and "length (enc len) = lf"
  shows "n dvd (len + length (pad_tail n lf enc len))"
proof -
  define m where "m = (len + 1 + lf) mod n"
  have m: "m < n" using assms by (simp add: m_def)
  have "(len + 1 + lf + (n - m) mod n) mod n = (m + (n - m) mod n) mod n"
    unfolding m_def by (rule mod_add_left_eq [symmetric])
  also have "\<dots> = (m + (n - m)) mod n"
    by (simp add: mod_add_right_eq)
  also have "\<dots> = 0" using m by simp
  finally have "n dvd (len + 1 + lf + (n - m) mod n)"
    by (simp only: dvd_eq_mod_eq_0)
  moreover have "len + length (pad_tail n lf enc len) = len + 1 + lf + (n - m) mod n"
    using assms(2) by (simp add: pad_tail_def m_def)
  ultimately show ?thesis by metis
qed

section \<open>Message schedules\<close>

text \<open>A schedule starts with the sixteen words of the block and is extended word by word.\<close>

definition schedule :: "('a list \<Rightarrow> nat \<Rightarrow> 'a) \<Rightarrow> 'a list \<Rightarrow> nat \<Rightarrow> 'a list" where
  "schedule nxt block m = fold (\<lambda>t W. W @ [nxt W t]) [16..<m] block"

lemma schedule_16 [simp]: "schedule nxt block 16 = block"
  by (simp add: schedule_def)

lemma schedule_Suc:
  "16 \<le> m \<Longrightarrow> schedule nxt block (Suc m) = schedule nxt block m @ [nxt (schedule nxt block m) m]"
  by (simp add: schedule_def)

lemma length_schedule:
  assumes "length block = 16" and "16 \<le> m"
  shows "length (schedule nxt block m) = m"
  using assms(2)
  by (induction m rule: dec_induct) (simp_all add: assms schedule_Suc)

lemma nth_schedule:
  assumes "length block = 16" and "16 \<le> m" and "m \<le> n" and "t < m"
  shows "schedule nxt block n ! t = schedule nxt block m ! t"
  using assms(3)
  by (induction n rule: dec_induct)
    (use assms in \<open>simp_all add: schedule_Suc nth_append length_schedule\<close>)

section \<open>The length field of SHA-1 and SHA-256\<close>

text \<open>The code keeps the number of finished blocks in two words and shifts it into place.\<close>

lemma word_of_pair64: "(of_nat (pair64 h l) :: uint64) = push_bit 32 (ucast h) OR ucast l"
proof -
  have "push_bit 32 (ucast h :: uint64) AND ucast l = 0"
    by (rule bit_word_eqI) (auto simp: bit_simps dest: bit_imp_le_length)
  then show ?thesis
    by (simp add: pair64_def disjunctive_add_eq_or [symmetric] push_bit_eq_mult)
qed

lemma be64_pair64: "be64 (of_nat (pair64 h l)) = be32 h @ be32 l"
proof -
  let ?C = "push_bit 32 (ucast h) OR ucast l :: uint64"
  have "ucast (drop_bit 32 ?C) = h" "ucast ?C = l"
    by (rule bit_word_eqI, auto simp: bit_simps dest: bit_imp_le_length)+
  then show ?thesis by (simp add: word_of_pair64 be64_be32)
qed

lemma length_field:
  assumes "i < 64"
  shows "(ucast (drop_bit 32 (of_nat (8 * (64 * pair64 h l + i)) :: uint64)) :: uint32) =
      push_bit 9 h OR drop_bit 23 l"
    and "(ucast (of_nat (8 * (64 * pair64 h l + i)) :: uint64) :: uint32) =
      push_bit 9 l OR push_bit 3 (of_nat i)"
proof -
  let ?C = "push_bit 32 (ucast h) OR ucast l :: uint64"
  note C = word_of_pair64 [of h l]
  have "push_bit 9 ?C AND push_bit 3 (of_nat i) = 0"
    using assms bit_of_nat_small [of i 6, where ?'a = 64] 
    by (intro bit_word_eqI) (fastforce simp: bit_simps)
  then have disj: "push_bit 9 ?C + push_bit 3 (of_nat i) = push_bit 9 ?C OR push_bit 3 (of_nat i)"
    by (rule disjunctive_add_eq_or)
  have "(of_nat (8 * (64 * pair64 h l + i)) :: uint64) =
      push_bit 9 (of_nat (pair64 h l)) + push_bit 3 (of_nat i)"
    by (simp add: push_bit_eq_mult algebra_simps)
  then have W: "(of_nat (8 * (64 * pair64 h l + i)) :: uint64) = push_bit 9 ?C OR push_bit 3 (of_nat i)"
    by (simp only: C disj)
  show "(ucast (drop_bit 32 (of_nat (8 * (64 * pair64 h l + i)) :: uint64)) :: uint32) =
      push_bit 9 h OR drop_bit 23 l"
  proof (rule bit_word_eqI)
    fix n assume "n < LENGTH(32)"
    moreover have "\<not> bit (of_nat i :: uint64) (29 + n)"
      using assms bit_of_nat_small [of i 6 "29 + n", where ?'a = 64] by auto
    moreover have "23 + n - 32 = n - 9" by simp
    ultimately show "bit (ucast (drop_bit 32 (of_nat (8 * (64 * pair64 h l + i)) :: uint64)) :: uint32) n =
        bit (push_bit 9 h OR drop_bit 23 l) n"
      unfolding W using bit_imp_le_length [of l "23 + n"] by (auto simp: bit_simps)
  qed
  show "(ucast (of_nat (8 * (64 * pair64 h l + i)) :: uint64) :: uint32) =
      push_bit 9 l OR push_bit 3 (of_nat i)"
    unfolding W by (intro bit_word_eqI) (auto simp: bit_simps dest: bit_imp_le_length)
qed

definition sha_length_field :: "nat \<Rightarrow> byte list" where
  "sha_length_field k = be64 (of_nat (8 * k))"

lemma length_sha_length_field [simp]: "length (sha_length_field k) = 8"
  by (simp add: sha_length_field_def)

lemma sha_length_field_mod:
  assumes "64 \<le> m"
  shows "sha_length_field (k mod 2 ^ m) = sha_length_field k"
proof -
  have "(of_nat (8 * (k mod 2 ^ m)) :: uint64) = of_nat (8 * k)"
    using of_nat_mod_word [where 'a = 64, of m k] assms by (simp only: of_nat_mult) simp
  then show ?thesis by (simp only: sha_length_field_def)
qed

lemma pad_zeros_count:
  assumes "t mod 64 = (l :: nat)"
  shows "(64 - (t + 1 + 8) mod 64) mod 64 = (if l < 56 then 55 - l else 119 - l)"
proof -
  have l: "l < 64" using assms by auto
  have "(t + 1 + 8) mod 64 = (l + 9) mod 64"
    using mod_add_left_eq [of t 64 9] assms by (simp add: add.commute)
  moreover have "(l + 9) mod 64 = (if l < 55 then l + 9 else l - 55)"
    using l by (simp add: le_mod_geq)
  ultimately show ?thesis
    using l by (cases "l < 55"; cases "l = 55") simp_all
qed

lemma ints_append:
  "length x = 4 * n \<Longrightarrow> map of_be32 (pieces 4 (x @ y)) = map of_be32 (pieces 4 x) @ map of_be32 (pieces 4 y)"
  by (simp add: pieces_append_dvd)

lemma ints_zeros: "map of_be32 (pieces 4 (replicate (4 * n) 0)) = replicate n 0"
proof -
  have "of_be32 (replicate 4 0) = 0" by (simp add: of_be32_def numeral_eq_Suc)
  then show ?thesis by (simp add: pieces_replicate)
qed

lemma ints_length_field:
  "map of_be32 (pieces 4 (be64 w)) = [ucast (drop_bit 32 w), ucast w]"
  by (simp add: be64_be32 pieces_append_dvd pieces_single)

lemma length_foldl_state:
  "(\<And>h b. length h = k \<Longrightarrow> length (f h b) = k) \<Longrightarrow> length h = k \<Longrightarrow> length (foldl f h bs) = k"
  by (induction bs arbitrary: h) simp_all

section \<open>The chunk loop of \<open>GetData...\<close>\<close>

text \<open>
  \<^verbatim>\<open>
  while (offset < dataSize) {
      size_t needRead = 10240;
      if (offset + needRead > dataSize) needRead = dataSize - offset;
      ctx.update(data + offset, (uint32_t)needRead);
      offset += needRead;
  }
  \<close>
\<close>

function data_loop :: "('s \<Rightarrow> byte list \<Rightarrow> 's) \<Rightarrow> 's \<Rightarrow> byte list \<Rightarrow> nat \<Rightarrow> 's" where
  "data_loop upd s data offset =
     (if offset < length data
      then let needRead = (if offset + 10240 > length data then length data - offset else 10240)
           in data_loop upd (upd s (take needRead (drop offset data))) data (offset + needRead)
      else s)"
  by pat_completeness auto
termination
  by (relation "measure (\<lambda>(upd, s, data, offset). length data - offset)") auto

declare data_loop.simps [simp del]

lemma data_loop_pieces:
  "data_loop upd s data off = foldl upd s (pieces 10240 (drop off data))"
proof (induction upd s data off rule: data_loop.induct)
  case (1 upd s data off)
  show ?case
  proof (cases "off < length data")
    case True
    define need where "need = (if off + 10240 > length data then length data - off else 10240)"
    have need: "take need (drop off data) = take 10240 (drop off data)"
      "drop (off + need) data = drop 10240 (drop off data)"
      using True by (auto simp: need_def add.commute)
    have "data_loop upd s data off =
        data_loop upd (upd s (take need (drop off data))) data (off + need)"
      using True by (simp add: data_loop.simps [of upd s data off] need_def Let_def)
    also have "\<dots> = foldl upd (upd s (take need (drop off data))) (pieces 10240 (drop (off + need) data))"
      using "1.IH" [OF True need_def] .
    also have "\<dots> = foldl upd s (pieces 10240 (drop off data))"
      using True by (simp add: need pieces.simps [of 10240 "drop off data"])
    finally show ?thesis .
  next
    case False
    then show ?thesis by (simp add: data_loop.simps [of upd s data off])
  qed
qed

lemma pieces_bounded: "0 < n \<Longrightarrow> d \<in> set (pieces n xs) \<Longrightarrow> length d \<le> n"
proof (induction n xs rule: pieces.induct)
  case (1 n xs)
  then show ?case
    by (cases "n = 0 \<or> xs = []") (auto simp: pieces.simps [of n xs])
qed

section \<open>The contract of \<open>update\<close>\<close>

locale block_stream =
  fixes n :: nat
    and f :: "'h \<Rightarrow> byte list \<Rightarrow> 'h"
    and upd :: "'s \<Rightarrow> byte list \<Rightarrow> 's"
    and inv :: "'s \<Rightarrow> bool"
    and chain :: "'s \<Rightarrow> 'h"
    and pend :: "'s \<Rightarrow> byte list"
    and total :: "'s \<Rightarrow> nat"
    and M :: nat
    and lim :: nat
  assumes n_pos: "0 < n"
    and M_pos: "0 < M"
    and lim_big: "10240 < lim"
    and inv_upd: "inv s \<Longrightarrow> length d < lim \<Longrightarrow> inv (upd s d)"
    and upd_absorb: "inv s \<Longrightarrow> length d < lim \<Longrightarrow>
      (chain (upd s d), pend (upd s d)) = absorb n f (chain s) (pend s @ d)"
    and upd_total: "inv s \<Longrightarrow> length d < lim \<Longrightarrow> total (upd s d) = (total s + length d) mod M"
    and total_bound: "inv s \<Longrightarrow> total s < M"
    and pend_short: "inv s \<Longrightarrow> length (pend s) < n"
begin

lemma feed:
  assumes "inv s" and "\<forall>d \<in> set ds. length d < lim"
  shows "inv (foldl upd s ds) \<and>
    (chain (foldl upd s ds), pend (foldl upd s ds)) = absorb n f (chain s) (pend s @ concat ds) \<and>
    total (foldl upd s ds) = (total s + length (concat ds)) mod M"
  using assms
proof (induction ds arbitrary: s)
  case Nil
  then show ?case by (simp add: absorb_short pend_short total_bound)
next
  case (Cons d ds)
  then have d: "inv s" "length d < lim" and ds: "\<forall>d \<in> set ds. length d < lim"
    by simp_all
  note IH = Cons.IH [OF inv_upd [OF d] ds]
  have "absorb n f (chain s) (pend s @ d @ concat ds) =
      absorb n f (chain (upd s d)) (pend (upd s d) @ concat ds)"
    using absorb_append [OF n_pos, of f "chain s" "pend s @ d" "concat ds"]
    by (simp add: upd_absorb [OF d, symmetric])
  with IH show ?case
    by (simp add: upd_total [OF d] mod_add_left_eq add.assoc)
qed

text \<open>Only the concatenation of the data fed matters, not how it was cut.\<close>

lemma feed_chunking:
  assumes "inv s" and "\<forall>d \<in> set ds. length d < lim" and "\<forall>d \<in> set es. length d < lim"
    and "concat ds = concat es"
  shows "chain (foldl upd s ds) = chain (foldl upd s es) \<and>
    pend (foldl upd s ds) = pend (foldl upd s es) \<and>
    total (foldl upd s ds) = total (foldl upd s es)"
proof -
  have "(chain (foldl upd s ds), pend (foldl upd s ds)) = (chain (foldl upd s es), pend (foldl upd s es))"
    using feed [OF assms(1,2)] feed [OF assms(1,3)] assms(4) by argo
  moreover have "total (foldl upd s ds) = total (foldl upd s es)"
    using feed [OF assms(1,2)] feed [OF assms(1,3)] assms(4) by simp
  ultimately show ?thesis by simp
qed

end

section \<open>The contract of \<open>final\<close>\<close>

locale block_digest = block_stream +
  fixes lf :: nat
    and enc :: "nat \<Rightarrow> byte list"
    and fin :: "'b \<Rightarrow> 'c"
    and out :: "'a \<Rightarrow> 'c"
  assumes enc_len: "length (enc k) = lf"
    and enc_mod: "enc (k mod M) = enc k"
    and n_dvd_M: "n dvd M"
    and fin_pad: "inv s \<Longrightarrow>
      fin s = out (foldl f (chain s) (pieces n (pend s @ pad_tail n lf enc (total s))))"
begin

lemma pad_tail_mod: "pad_tail n lf enc (k mod M) = pad_tail n lf enc k"
proof -
  have "(k mod M + (1 + lf)) mod n = (k + (1 + lf)) mod n"
    by (metis mod_add_left_eq mod_mod_cancel n_dvd_M)
  then show ?thesis
    by (simp add: pad_tail_def enc_mod)
qed

lemma digest:
  assumes "inv s" and "pend s = []" and "total s = 0"
    and "\<forall>d \<in> set ds. length d < lim"
  shows "fin (foldl upd s ds) = out (md_hash n lf enc f (chain s) (concat ds))"
proof -
  let ?s = "foldl upd s ds" and ?msg = "concat ds"
  let ?tail = "pad_tail n lf enc (length ?msg)"
  from feed [OF assms(1,4)] assms(2,3)
  have inv: "inv ?s" and abs: "(chain ?s, pend ?s) = absorb n f (chain s) ?msg"
    and tot: "total ?s = length ?msg mod M" by simp_all
  have tail: "pad_tail n lf enc (total ?s) = ?tail"
    by (simp add: tot pad_tail_mod)
  have dvd: "n dvd length (?msg @ ?tail)"
    using pad_tail_dvd [OF n_pos enc_len] by simp
  have "length (pend ?s) = length ?msg mod n"
    using length_snd_absorb [OF n_pos, of f "chain s" ?msg] by (simp flip: abs)
  then have dvd': "n dvd length (pend ?s @ ?tail)"
    using dvd by (simp add: dvd_eq_mod_eq_0 mod_add_left_eq)
  have "absorb n f (chain s) (?msg @ ?tail) = absorb n f (chain ?s) (pend ?s @ ?tail)"
    using absorb_append [OF n_pos, of f "chain s" ?msg ?tail] by (simp flip: abs)
  then show ?thesis
    using absorb_pieces [OF n_pos dvd, of f "chain s"]
      absorb_pieces [OF n_pos dvd', of f "chain ?s"]
    by (simp add: md_hash_def fin_pad [OF inv] tail)
qed

lemma digest_data_loop:
  assumes "inv s" and "pend s = []" and "total s = 0"
  shows "fin (data_loop upd s data 0) = out (md_hash n lf enc f (chain s) data)"
proof -
  have "\<forall>d \<in> set (pieces 10240 data). length d < lim"
    using pieces_bounded [of 10240 _ data] lim_big by fastforce
  from digest [OF assms this] show ?thesis
    by (simp add: data_loop_pieces concat_pieces)
qed

end

end
