(* ===== verification/Sha256.thy ===== *)
theory Sha256
  imports Stream_Digest
begin

text \<open>
  Model of \<^verbatim>\<open>src/src/sha256.cpp\<close>: the context \<open>SHA256_CTX\<close>, the unrolled compression function
  \<open>sha256_transform\<close> with its register renaming and its circular message schedule, the buffering
  \<open>update\<close>, the padding \<open>final\<close> and \<open>GetDataSHA256\<close>. The reference is the FIPS 180-4 definition of
  SHA-256. The registers \<open>A .. H\<close> are the positions \<open>0 .. 7\<close> of a list.
\<close>

section \<open>Macros\<close>

definition Choice :: "uint32 \<Rightarrow> uint32 \<Rightarrow> uint32 \<Rightarrow> uint32" where
  "Choice x y z = z XOR (x AND (y XOR z))"

definition Majority :: "uint32 \<Rightarrow> uint32 \<Rightarrow> uint32 \<Rightarrow> uint32" where
  "Majority x y z = (x AND y) XOR (z AND (x XOR y))"

definition S0 :: "uint32 \<Rightarrow> uint32" where
  "S0 x = ror32 x 2 XOR ror32 x 13 XOR ror32 x 22"

definition S1 :: "uint32 \<Rightarrow> uint32" where
  "S1 x = ror32 x 6 XOR ror32 x 11 XOR ror32 x 25"

definition s0 :: "uint32 \<Rightarrow> uint32" where
  "s0 x = ror32 x 7 XOR ror32 x 18 XOR drop_bit 3 x"

definition s1 :: "uint32 \<Rightarrow> uint32" where
  "s1 x = ror32 x 17 XOR ror32 x 19 XOR drop_bit 10 x"

text \<open>\<open>EXPAND(W, i)\<close> updates \<open>W[i & 15]\<close>; \<open>& 15\<close> of a possibly negative index is \<open>mod 16\<close>.\<close>

definition EXPAND :: "uint32 list \<Rightarrow> nat \<Rightarrow> uint32 list" where
  "EXPAND W i = W[i mod 16 := W ! (i mod 16) +
     (s1 (W ! nat ((int i - 2) mod 16)) + W ! nat ((int i - 7) mod 16) +
      s0 (W ! nat ((int i - 15) mod 16)))]"

text \<open>\<open>ROUND\<close> on the registers whose positions are given.\<close>

definition ROUND ::
  "nat \<Rightarrow> nat \<Rightarrow> nat \<Rightarrow> nat \<Rightarrow> nat \<Rightarrow> nat \<Rightarrow> nat \<Rightarrow> nat \<Rightarrow> uint32 \<Rightarrow> uint32 \<Rightarrow>
   uint32 list \<Rightarrow> uint32 list" where
  "ROUND a b c d e f g h k data r =
     (let T1 = r ! h + S1 (r ! e) + Choice (r ! e) (r ! f) (r ! g) + k + data;
          T2 = S0 (r ! a) + Majority (r ! a) (r ! b) (r ! c);
          r' = r[d := r ! d + T1]
      in r'[h := T1 + T2])"

text \<open>\<open>ROUND(..., k, EXPAND(data, i))\<close>: the schedule word is updated, then used.\<close>

definition ROUNDX ::
  "nat \<Rightarrow> nat \<Rightarrow> nat \<Rightarrow> nat \<Rightarrow> nat \<Rightarrow> nat \<Rightarrow> nat \<Rightarrow> nat \<Rightarrow> uint32 \<Rightarrow> nat \<Rightarrow>
   uint32 list \<times> uint32 list \<Rightarrow> uint32 list \<times> uint32 list" where
  "ROUNDX a b c d e f g h k i p =
     (let W = EXPAND (snd p) i in (ROUND a b c d e f g h k (W ! (i mod 16)) (fst p), W))"

section \<open>\<open>sha256_transform\<close>\<close>

text \<open>The table \<open>K\<close> of the code, written in decimal.\<close>

definition sha256_K :: "uint32 list" where
  "sha256_K = [
     1116352408, 1899447441, 3049323471, 3921009573, 961987163, 1508970993,
     2453635748, 2870763221, 3624381080, 310598401, 607225278, 1426881987,
     1925078388, 2162078206, 2614888103, 3248222580, 3835390401, 4022224774,
     264347078, 604807628, 770255983, 1249150122, 1555081692, 1996064986,
     2554220882, 2821834349, 2952996808, 3210313671, 3336571891, 3584528711,
     113926993, 338241895, 666307205, 773529912, 1294757372, 1396182291,
     1695183700, 1986661051, 2177026350, 2456956037, 2730485921, 2820302411,
     3259730800, 3345764771, 3516065817, 3600352804, 4094571909, 275423344,
     430227734, 506948616, 659060556, 883997877, 958139571, 1322822218,
     1537002063, 1747873779, 1955562222, 2024104815, 2227730452, 2361852424,
     2428436474, 2756734187, 3204031479, 3329325298]"

text \<open>The body of the first loop: eight subrounds on the original data.\<close>

definition rounds_first :: "uint32 list \<Rightarrow> uint32 list \<Rightarrow> uint32 list \<Rightarrow> uint32 list" where
  "rounds_first k d = run_lines [
     ROUND 0 1 2 3 4 5 6 7 (k ! 0) (d ! 0),
     ROUND 7 0 1 2 3 4 5 6 (k ! 1) (d ! 1),
     ROUND 6 7 0 1 2 3 4 5 (k ! 2) (d ! 2),
     ROUND 5 6 7 0 1 2 3 4 (k ! 3) (d ! 3),
     ROUND 4 5 6 7 0 1 2 3 (k ! 4) (d ! 4),
     ROUND 3 4 5 6 7 0 1 2 (k ! 5) (d ! 5),
     ROUND 2 3 4 5 6 7 0 1 (k ! 6) (d ! 6),
     ROUND 1 2 3 4 5 6 7 0 (k ! 7) (d ! 7)]"

text \<open>The body of the second loop: sixteen subrounds on the expanded data.\<close>

definition rounds_expand ::
  "uint32 list \<Rightarrow> uint32 list \<times> uint32 list \<Rightarrow> uint32 list \<times> uint32 list" where
  "rounds_expand k = run_lines [
     ROUNDX 0 1 2 3 4 5 6 7 (k ! 0) 0,
     ROUNDX 7 0 1 2 3 4 5 6 (k ! 1) 1,
     ROUNDX 6 7 0 1 2 3 4 5 (k ! 2) 2,
     ROUNDX 5 6 7 0 1 2 3 4 (k ! 3) 3,
     ROUNDX 4 5 6 7 0 1 2 3 (k ! 4) 4,
     ROUNDX 3 4 5 6 7 0 1 2 (k ! 5) 5,
     ROUNDX 2 3 4 5 6 7 0 1 (k ! 6) 6,
     ROUNDX 1 2 3 4 5 6 7 0 (k ! 7) 7,
     ROUNDX 0 1 2 3 4 5 6 7 (k ! 8) 8,
     ROUNDX 7 0 1 2 3 4 5 6 (k ! 9) 9,
     ROUNDX 6 7 0 1 2 3 4 5 (k ! 10) 10,
     ROUNDX 5 6 7 0 1 2 3 4 (k ! 11) 11,
     ROUNDX 4 5 6 7 0 1 2 3 (k ! 12) 12,
     ROUNDX 3 4 5 6 7 0 1 2 (k ! 13) 13,
     ROUNDX 2 3 4 5 6 7 0 1 (k ! 14) 14,
     ROUNDX 1 2 3 4 5 6 7 0 (k ! 15) 15]"

definition sha256_transform :: "uint32 list \<Rightarrow> uint32 list \<Rightarrow> uint32 list" where
  "sha256_transform state data =
     (let regs = fold (\<lambda>i. rounds_first (drop i sha256_K) (drop i data)) [0, 8] state;
          (regs, data) = fold (\<lambda>i. rounds_expand (drop i sha256_K)) [16, 32, 48] (regs, data)
      in map2 (+) state regs)"

section \<open>The context and its operations\<close>

record sha256_ctx =
  ctx_state :: "uint32 list"
  ctx_count_low :: uint32
  ctx_count_high :: uint32
  ctx_block :: "byte list"
  ctx_index :: nat

definition sha256_H0 :: "uint32 list" where
  "sha256_H0 = [0x6a09e667, 0xbb67ae85, 0x3c6ef372, 0xa54ff53a,
                0x510e527f, 0x9b05688c, 0x1f83d9ab, 0x5be0cd19]"

definition sha256_init :: "sha256_ctx \<Rightarrow> sha256_ctx" where
  "sha256_init ctx = ctx\<lparr>ctx_state := sha256_H0, ctx_count_low := 0, ctx_count_high := 0,
     ctx_index := 0\<rparr>"

text \<open>\<open>STRING2INT\<close> at the word positions \<open>0 .. n - 1\<close> of a buffer.\<close>

definition string2ints :: "byte list \<Rightarrow> nat \<Rightarrow> uint32 list" where
  "string2ints block n = map (\<lambda>i. of_be32 (take 4 (drop (4 * i) block))) [0..<n]"

definition sha256_block :: "sha256_ctx \<Rightarrow> byte list \<Rightarrow> sha256_ctx" where
  "sha256_block ctx block =
     (let low = ctx_count_low ctx + 1;
          high = (if low = 0 then ctx_count_high ctx + 1 else ctx_count_high ctx)
      in ctx\<lparr>ctx_count_low := low, ctx_count_high := high,
             ctx_state := sha256_transform (ctx_state ctx) (string2ints block 16)\<rparr>)"

text \<open>The loop \<open>while (length >= SHA256_DATA_SIZE)\<close>.\<close>

function sha256_blocks :: "sha256_ctx \<Rightarrow> byte list \<Rightarrow> sha256_ctx \<times> byte list" where
  "sha256_blocks ctx buffer =
     (if 64 \<le> length buffer
      then sha256_blocks (sha256_block ctx (take 64 buffer)) (drop 64 buffer)
      else (ctx, buffer))"
  by pat_completeness auto
termination
  by (relation "measure (\<lambda>(ctx, buffer). length buffer)") auto

declare sha256_blocks.simps [simp del]

definition sha256_update_rest :: "sha256_ctx \<Rightarrow> byte list \<Rightarrow> sha256_ctx" where
  "sha256_update_rest ctx buffer =
     (let (ctx, rest) = sha256_blocks ctx buffer
      in ctx\<lparr>ctx_block := memcpy (ctx_block ctx) 0 rest, ctx_index := length rest\<rparr>)"

definition sha256_update :: "sha256_ctx \<Rightarrow> byte list \<Rightarrow> sha256_ctx" where
  "sha256_update ctx buffer =
     (if ctx_index ctx \<noteq> 0
      then let left = 64 - ctx_index ctx
           in if length buffer < left
              then ctx\<lparr>ctx_block := memcpy (ctx_block ctx) (ctx_index ctx) buffer,
                       ctx_index := ctx_index ctx + length buffer\<rparr>
              else let ctx = ctx\<lparr>ctx_block := memcpy (ctx_block ctx) (ctx_index ctx) (take left buffer)\<rparr>;
                       ctx = sha256_block ctx (ctx_block ctx)
                   in sha256_update_rest ctx (drop left buffer)
      else sha256_update_rest ctx buffer)"

lemma fill_word_measure:
  "i mod 4 \<noteq> (0::nat) \<Longrightarrow> (4 - (i + 1) mod 4) mod 4 < (4 - i mod 4) mod 4"
proof -
  assume "i mod 4 \<noteq> 0"
  then have "i mod 4 = 1 \<or> i mod 4 = 2 \<or> i mod 4 = 3" by presburger
  then show ?thesis by (elim disjE) (simp_all add: mod_Suc)
qed

text \<open>The loop \<open>for (; i & 3; i++) block[i] = 0\<close>.\<close>

function fill_word :: "byte list \<Rightarrow> nat \<Rightarrow> byte list \<times> nat" where
  "fill_word block i = (if i mod 4 \<noteq> 0 then fill_word (block[i := 0]) (i + 1) else (block, i))"
  by pat_completeness auto
termination
  by (relation "measure (\<lambda>(block, i). (4 - i mod 4) mod 4)") (use fill_word_measure in auto)

declare fill_word.simps [simp del]

definition sha256_final :: "sha256_ctx \<Rightarrow> sha256_ctx" where
  "sha256_final ctx =
     (let i = ctx_index ctx;
          (block, i) = fill_word ((ctx_block ctx)[i := 0x80]) (i + 1);
          words = i div 4;
          data = string2ints block words;
          (state, data) =
            (if words > 14
             then (sha256_transform (ctx_state ctx) (data @ replicate (16 - words) 0), replicate 14 0)
             else (ctx_state ctx, data @ replicate (14 - words) 0));
          data = data @ [push_bit 9 (ctx_count_high ctx) OR drop_bit 23 (ctx_count_low ctx),
                         push_bit 9 (ctx_count_low ctx) OR push_bit 3 (of_nat (ctx_index ctx))]
      in ctx\<lparr>ctx_block := block, ctx_state := sha256_transform state data\<rparr>)"

text \<open>\<open>digest(unsigned char* s)\<close> with a pointer that is not null: the bytes it stores.\<close>

definition sha256_digest_bytes :: "sha256_ctx \<Rightarrow> byte list" where
  "sha256_digest_bytes ctx = concat (map be32 (take 8 (ctx_state ctx)))"

text \<open>\<open>std::string digest()\<close>: the same bytes, each printed with \<open>%02x\<close>.\<close>

definition sha256_digest :: "sha256_ctx \<Rightarrow> string" where
  "sha256_digest ctx = concat (map hex2 (sha256_digest_bytes ctx))"

text \<open>\<open>GetDataSHA256\<close>, on the context that \<open>new Private()\<close> makes.\<close>

definition sha256_new :: sha256_ctx where
  "sha256_new = \<lparr>ctx_state = replicate 8 0, ctx_count_low = 0, ctx_count_high = 0,
     ctx_block = replicate 64 0, ctx_index = 0\<rparr>"

definition GetDataSHA256 :: "byte list \<Rightarrow> string" where
  "GetDataSHA256 data =
     sha256_digest (sha256_final (data_loop sha256_update (sha256_init sha256_new) data 0))"

text \<open>
  \<open>GetFileSHA256\<close>: \<open>reads\<close> are the successive non-empty results of
  \<open>file.readFrom(szData, 1024, -1)\<close> (at most 1024 bytes each),
  \<open>None\<close> a file that cannot be opened.
\<close>

definition GetFileSHA256 :: "byte list list option \<Rightarrow> string" where
  "GetFileSHA256 file = (case file of
     None \<Rightarrow> []
   | Some reads \<Rightarrow> sha256_digest (sha256_final (foldl sha256_update (sha256_init sha256_new) reads)))"

section \<open>Reference: FIPS 180-4\<close>

definition fips_Ch :: "uint32 \<Rightarrow> uint32 \<Rightarrow> uint32 \<Rightarrow> uint32" where
  "fips_Ch x y z = (x AND y) XOR (NOT x AND z)"

definition fips_Maj :: "uint32 \<Rightarrow> uint32 \<Rightarrow> uint32 \<Rightarrow> uint32" where
  "fips_Maj x y z = (x AND y) XOR (x AND z) XOR (y AND z)"

lemma Choice_fips: "Choice x y z = fips_Ch x y z"
  by (rule bit_word_eqI) (auto simp: Choice_def fips_Ch_def bit_simps)

lemma Majority_fips: "Majority x y z = fips_Maj x y z"
  by (rule bit_word_eqI) (auto simp: Majority_def fips_Maj_def bit_simps)

text \<open>One round of section 6.2.2 step 3 on the working variables \<open>[a, .., h]\<close>.\<close>

definition fips_round :: "uint32 \<Rightarrow> uint32 \<Rightarrow> uint32 list \<Rightarrow> uint32 list" where
  "fips_round k w r =
     (let T1 = r ! 7 + (word_rotr 6 (r ! 4) XOR word_rotr 11 (r ! 4) XOR word_rotr 25 (r ! 4)) +
               fips_Ch (r ! 4) (r ! 5) (r ! 6) + k + w;
          T2 = (word_rotr 2 (r ! 0) XOR word_rotr 13 (r ! 0) XOR word_rotr 22 (r ! 0)) +
               fips_Maj (r ! 0) (r ! 1) (r ! 2)
      in [T1 + T2, r ! 0, r ! 1, r ! 2, r ! 3 + T1, r ! 4, r ! 5, r ! 6])"

text \<open>The message schedule \<open>W\<close> of section 6.2.2 step 1, built up to \<open>m\<close> words.\<close>

definition fips_next :: "uint32 list \<Rightarrow> nat \<Rightarrow> uint32" where
  "fips_next W t = 
     (word_rotr 17 (W ! (t - 2)) XOR word_rotr 19 (W ! (t - 2)) XOR drop_bit 10 (W ! (t - 2))) +
     W ! (t - 7) +
     (word_rotr 7 (W ! (t - 15)) XOR word_rotr 18 (W ! (t - 15)) XOR drop_bit 3 (W ! (t - 15))) +
     W ! (t - 16)"

abbreviation fips_schedule :: "uint32 list \<Rightarrow> nat \<Rightarrow> uint32 list" where
  "fips_schedule \<equiv> schedule fips_next"

definition fips_sha256_compress :: "uint32 list \<Rightarrow> uint32 list \<Rightarrow> uint32 list" where
  "fips_sha256_compress H block =
     (let W = fips_schedule block 64
      in map2 (+) H (fold (\<lambda>t. fips_round (sha256_K ! t) (W ! t)) [0..<64] H))"

lemma ROUND_rotate:
  assumes "length r = 8"
  shows "ROUND 1 2 3 4 5 6 7 0 k w r = fips_round k w (rotate 1 r)"
    and "rotate 1 (ROUND 2 3 4 5 6 7 0 1 k w r) = fips_round k w (rotate 2 r)"
    and "rotate 2 (ROUND 3 4 5 6 7 0 1 2 k w r) = fips_round k w (rotate 3 r)"
    and "rotate 3 (ROUND 4 5 6 7 0 1 2 3 k w r) = fips_round k w (rotate 4 r)"
    and "rotate 4 (ROUND 5 6 7 0 1 2 3 4 k w r) = fips_round k w (rotate 5 r)"
    and "rotate 5 (ROUND 6 7 0 1 2 3 4 5 k w r) = fips_round k w (rotate 6 r)"
    and "rotate 6 (ROUND 7 0 1 2 3 4 5 6 k w r) = fips_round k w (rotate 7 r)"
    and "rotate 7 (ROUND 0 1 2 3 4 5 6 7 k w r) = fips_round k w r"
proof -
  obtain a b c d e f g h where r: "r = [a, b, c, d, e, f, g, h]"
    using list_length_8 [OF assms] by blast
  show "ROUND 1 2 3 4 5 6 7 0 k w r = fips_round k w (rotate 1 r)"
    and "rotate 1 (ROUND 2 3 4 5 6 7 0 1 k w r) = fips_round k w (rotate 2 r)"
    and "rotate 2 (ROUND 3 4 5 6 7 0 1 2 k w r) = fips_round k w (rotate 3 r)"
    and "rotate 3 (ROUND 4 5 6 7 0 1 2 3 k w r) = fips_round k w (rotate 4 r)"
    and "rotate 4 (ROUND 5 6 7 0 1 2 3 4 k w r) = fips_round k w (rotate 5 r)"
    and "rotate 5 (ROUND 6 7 0 1 2 3 4 5 k w r) = fips_round k w (rotate 6 r)"
    and "rotate 6 (ROUND 7 0 1 2 3 4 5 6 k w r) = fips_round k w (rotate 7 r)"
    and "rotate 7 (ROUND 0 1 2 3 4 5 6 7 k w r) = fips_round k w r"
    by (simp_all add: r ROUND_def fips_round_def rotate_drop_take Let_def Choice_fips
        Majority_fips S0_def S1_def ror32_rotr)
qed

lemma length_ROUND [simp]: "length (ROUND a b c d e f g h k w r) = length r"
  by (simp add: ROUND_def Let_def)

lemma length_fips_round [simp]: "length (fips_round k w r) = 8"
  by (simp add: fips_round_def Let_def)

lemma length_rounds_first [simp]: "length (rounds_first k d r) = length r"
  by (simp add: rounds_first_def)

lemma rounds_first_fips:
  assumes "length r = 8"
  shows "rounds_first k w r = fold (\<lambda>t. fips_round (k ! t) (w ! t)) [0..<8] r"
  using assms
  by (simp add: rounds_first_def ROUND_rotate upt_8 del: One_nat_def)

text \<open>
  The circular schedule array as a sliding window: at line \<open>i\<close> the next word is computed from the
  array rotated by \<open>i\<close>, whose first element it replaces.
\<close>

definition window_step :: "uint32 \<Rightarrow> uint32 list \<times> uint32 list \<Rightarrow> uint32 list \<times> uint32 list" where
  "window_step k p =
     (let x = snd p ! 0 + (s1 (snd p ! 14) + snd p ! 9 + s0 (snd p ! 1))
      in (fips_round k x (fst p), tl (snd p) @ [x]))"

definition window_view :: "nat \<Rightarrow> uint32 list \<times> uint32 list \<Rightarrow> uint32 list \<times> uint32 list" where
  "window_view i p = (rotate (8 - i mod 8) (fst p), rotate i (snd p))"

lemma EXPAND_rotate:
  assumes "i < 16" and "length W = 16"
  shows "EXPAND W i ! (i mod 16) =
      rotate i W ! 0 + (s1 (rotate i W ! 14) + rotate i W ! 9 + s0 (rotate i W ! 1))"
    and "rotate (Suc i) (EXPAND W i) = tl (rotate i W) @ [EXPAND W i ! (i mod 16)]"
proof -
  have shift: "nat ((int i - int k) mod 16) = (16 - k + i) mod 16" if "k \<le> 16" for k
  proof -
    have "int (16 - k + i) = (int i - int k) + 16"
      using that by (simp add: of_nat_diff)
    then have "(int i - int k) mod 16 = int ((16 - k + i) mod 16)"
      by (metis mod_add_self2 of_nat_mod of_nat_numeral)
    then show ?thesis by simp
  qed
  have idx: "nat ((int i - 2) mod 16) = (14 + i) mod 16" "nat ((int i - 7) mod 16) = (9 + i) mod 16"
    "nat ((int i - 15) mod 16) = (1 + i) mod 16"
    using shift [of 2] shift [of 7] shift [of 15] by simp_all
  show "EXPAND W i ! (i mod 16) =
      rotate i W ! 0 + (s1 (rotate i W ! 14) + rotate i W ! 9 + s0 (rotate i W ! 1))"
    using assms by (simp add: EXPAND_def idx nth_rotate add.commute)
  show "rotate (Suc i) (EXPAND W i) = tl (rotate i W) @ [EXPAND W i ! (i mod 16)]"
    using assms by (simp add: EXPAND_def rotate_Suc_update del: rotate_Suc)
qed

lemma length_EXPAND [simp]: "length (EXPAND W i) = length W"
  by (simp add: EXPAND_def)

lemma ROUNDX_view:
  assumes "length (fst p) = 8" and "length (snd p) = 16" and "i < 16" and "j = Suc i"
    and "\<And>k w r. length r = 8 \<Longrightarrow>
      rotate (8 - Suc i mod 8) (ROUND a b c d e f g h k w r) = fips_round k w (rotate (8 - i mod 8) r)"
  shows "window_view j (ROUNDX a b c d e f g h k i p) = window_step k (window_view i p)"
  using assms EXPAND_rotate [OF assms(3,2)]
  by (simp add: window_view_def window_step_def ROUNDX_def Let_def)

lemma length_ROUNDX [simp]:
  "length (fst (ROUNDX a b c d e f g h k i p)) = length (fst p)"
  "length (snd (ROUNDX a b c d e f g h k i p)) = length (snd p)"
  by (simp_all add: ROUNDX_def Let_def)


lemma rotate_8: "length r = 8 \<Longrightarrow> rotate 8 r = r"
  by (simp add: rotate_id)

lemma rounds_expand_window:
  assumes "length (fst p) = 8" and "length (snd p) = 16"
  shows "rounds_expand k p = fold (\<lambda>t. window_step (k ! t)) [0..<16] p"
    and "length (fst (rounds_expand k p)) = 8" and "length (snd (rounds_expand k p)) = 16"
proof -
  let ?ok = "\<lambda>q. length (fst q) = 8 \<and> length (snd q) = 16"
  define fs where "fs = [
     ROUNDX 0 1 2 3 4 5 6 7 (k ! 0) 0, ROUNDX 7 0 1 2 3 4 5 6 (k ! 1) 1,
     ROUNDX 6 7 0 1 2 3 4 5 (k ! 2) 2, ROUNDX 5 6 7 0 1 2 3 4 (k ! 3) 3,
     ROUNDX 4 5 6 7 0 1 2 3 (k ! 4) 4, ROUNDX 3 4 5 6 7 0 1 2 (k ! 5) 5,
     ROUNDX 2 3 4 5 6 7 0 1 (k ! 6) 6, ROUNDX 1 2 3 4 5 6 7 0 (k ! 7) 7,
     ROUNDX 0 1 2 3 4 5 6 7 (k ! 8) 8, ROUNDX 7 0 1 2 3 4 5 6 (k ! 9) 9,
     ROUNDX 6 7 0 1 2 3 4 5 (k ! 10) 10, ROUNDX 5 6 7 0 1 2 3 4 (k ! 11) 11,
     ROUNDX 4 5 6 7 0 1 2 3 (k ! 12) 12, ROUNDX 3 4 5 6 7 0 1 2 (k ! 13) 13,
     ROUNDX 2 3 4 5 6 7 0 1 (k ! 14) 14, ROUNDX 1 2 3 4 5 6 7 0 (k ! 15) 15]"
  have len: "length fs = 16" by (simp add: fs_def)
  have "\<forall>i \<in> set [0..<16]. \<forall>q. ?ok q \<longrightarrow>
     window_view (Suc i) ((fs ! i) q) = window_step (k ! i) (window_view i q)"
    unfolding upt_16 fs_def
    by (simp add: ROUNDX_view ROUND_rotate rotate_8 One_nat_def [symmetric]
        del: One_nat_def rotate_Suc)
  moreover have "\<forall>i \<in> set [0..<16]. \<forall>q. ?ok q \<longrightarrow> ?ok ((fs ! i) q)"
    unfolding upt_16 fs_def by simp
  ultimately have "i < length fs \<Longrightarrow> ?ok q \<Longrightarrow> ?ok ((fs ! i) q) \<and>
      window_view (Suc i) ((fs ! i) q) = window_step (k ! i) (window_view i q)" for i q
    using len by (cases q) auto
  from run_lines_view [where ok = ?ok and view = window_view and g = "\<lambda>i. window_step (k ! i)", OF this, of p]
  have "?ok (run_lines fs p) \<and>
      window_view 16 (run_lines fs p) = fold (\<lambda>i. window_step (k ! i)) [0..<16] (window_view 0 p)"
    unfolding len using assms by blast
  moreover have "window_view 16 q = q" "window_view 0 q = q" if "?ok q" for q
    using that by (simp_all add: window_view_def rotate_id)
  moreover have "rounds_expand k p = run_lines fs p"
    by (simp only: rounds_expand_def fs_def)
  ultimately show "rounds_expand k p = fold (\<lambda>t. window_step (k ! t)) [0..<16] p"
    and "length (fst (rounds_expand k p)) = 8" and "length (snd (rounds_expand k p)) = 16"
    using assms by metis+
qed

lemma sha256_transform_window:
  assumes "length H = 8" and "length block = 16"
  shows "sha256_transform H block = map2 (+) H (fst
    (fold (\<lambda>t. window_step (sha256_K ! t)) [16..<64]
      (fold (\<lambda>t. fips_round (sha256_K ! t) (block ! t)) [0..<16] H, block)))"
proof -
  have K: "length sha256_K = 64" by (simp add: sha256_K_def)
  have first: "rounds_first (drop i sha256_K) (drop i block) r =
      fold (\<lambda>t. fips_round (sha256_K ! t) (block ! t)) [i..<8 + i] r"
    if "length r = 8" and "i + 8 \<le> 16" for i r
  proof -
    have "rounds_first (drop i sha256_K) (drop i block) r =
        fold (\<lambda>t. fips_round (sha256_K ! (t + i)) (block ! (t + i))) [0..<8] r"
      using assms that K by (auto simp: rounds_first_fips add.commute intro!: fold_cong)
    then show ?thesis
      using fold_shift [of "\<lambda>t. fips_round (sha256_K ! t) (block ! t)" i 8 r] by simp
  qed
  have second: "rounds_expand (drop i sha256_K) p =
      fold (\<lambda>t. window_step (sha256_K ! t)) [i..<16 + i] p"
    if "length (fst p) = 8" and "length (snd p) = 16" and "i + 16 \<le> 64" for i p
  proof -
    have "rounds_expand (drop i sha256_K) p =
        fold (\<lambda>t. window_step (sha256_K ! (t + i))) [0..<16] p"
      using assms that K by (auto simp: rounds_expand_window add.commute intro!: fold_cong)
    then show ?thesis
      using fold_shift [of "\<lambda>t. window_step (sha256_K ! t)" i 16 p] by simp
  qed
  let ?F = "\<lambda>a b. fold (\<lambda>t. fips_round (sha256_K ! t) (block ! t)) [a..<b]"
  define r where "r = ?F 0 16 H"
  have "rounds_first (drop 0 sha256_K) (drop 0 block) H = ?F 0 (8 + 0) H"
    by (rule first) (use assms in simp_all)
  then have r1: "rounds_first (drop 0 sha256_K) (drop 0 block) H = ?F 0 8 H"
    by (simp only: add_0_right)
  then have l1: "length (?F 0 8 H) = 8"
    using assms(1) by (metis length_rounds_first)
  have e16: "8 + 8 = (16 :: nat)" by simp
  have r2: "rounds_first (drop 8 sha256_K) (drop 8 block) (?F 0 8 H) = ?F 8 (8 + 8) (?F 0 8 H)"
    by (rule first) (use l1 in simp_all)
  also have "?F 8 (8 + 8) (?F 0 8 H) = ?F 0 (8 + 8) H"
    by (rule fold_upt_split) simp_all
  also have "\<dots> = r" by (simp only: r_def e16)
  finally have r2': "rounds_first (drop 8 sha256_K) (drop 8 block) (?F 0 8 H) = r" .
  have lr: "length r = 8"
    unfolding r2' [symmetric] length_rounds_first by (rule l1)
  have r: "fold (\<lambda>i. rounds_first (drop i sha256_K) (drop i block)) [0, 8] H = r"
    using r1 r2' by (simp only: fold_simps)
  let ?w = "\<lambda>i. rounds_expand (drop i sha256_K)"
  let ?G = "\<lambda>a b. fold (\<lambda>t. window_step (sha256_K ! t)) [a..<b]"
  have w: "?w i q = ?G i (16 + i) q \<and> length (fst (?w i q)) = 8 \<and> length (snd (?w i q)) = 16"
    if "length (fst q) = 8" "length (snd q) = 16" "i + 16 \<le> 64" for i q
    using second [OF that] rounds_expand_window(2,3) [OF that(1,2)] by blast
  define q1 where "q1 = ?w 16 (r, block)"
  define q2 where "q2 = ?w 32 q1"
  define q3 where "q3 = ?w 48 q2"
  have q1: "q1 = ?G 16 (16 + 16) (r, block) \<and> length (fst q1) = 8 \<and> length (snd q1) = 16"
    unfolding q1_def by (rule w) (use lr assms in simp_all)
  have q2: "q2 = ?G 32 (16 + 32) q1 \<and> length (fst q2) = 8 \<and> length (snd q2) = 16"
    unfolding q2_def by (rule w) (use q1 in metis, use q1 in metis, simp)
  have q3: "q3 = ?G 48 (16 + 48) q2"
    unfolding q3_def by (rule w [THEN conjunct1]) (use q2 in metis, use q2 in metis, simp)
  have "q3 = ?G 48 64 (?G 32 48 (?G 16 32 (r, block)))"
    using q1 q2 q3 by (simp only: semiring_norm arith_simps)
  also have "?G 32 48 (?G 16 32 (r, block)) = ?G 16 48 (r, block)"
    by (rule fold_upt_split) simp_all
  also have "?G 48 64 (?G 16 48 (r, block)) = ?G 16 64 (r, block)"
    by (rule fold_upt_split) simp_all
  finally have "fold ?w [16, 32, 48] (r, block) = ?G 16 64 (r, block)"
    by (simp only: fold_simps q1_def [symmetric] q2_def [symmetric] q3_def [symmetric])
  then show ?thesis
    unfolding sha256_transform_def Let_def r case_prod_beta unfolding r_def by (simp only:)
qed

text \<open>The window holds the last sixteen words of the schedule.\<close>

lemma window_schedule:
  assumes "length block = 16" and "16 \<le> m" and "m \<le> 64"
  shows "fold (\<lambda>t. window_step (K ! t)) [16..<m] (r, block) =
    (fold (\<lambda>t. fips_round (K ! t) (fips_schedule block 64 ! t)) [16..<m] r,
     drop (m - 16) (fips_schedule block m))"
  using assms(2,3)
proof (induction m rule: dec_induct)
  case base
  then show ?case by (simp add: schedule_def)
next
  case (step m)
  let ?S = "fips_schedule block m"
  have len: "length ?S = m" using length_schedule assms(1) step by simp
  have nth: "drop (m - 16) ?S ! j = ?S ! (m - 16 + j)" if "j < 16" for j
    using len step that by simp
  have x: "drop (m - 16) ?S ! 0 + (s1 (drop (m - 16) ?S ! 14) + drop (m - 16) ?S ! 9 +
      s0 (drop (m - 16) ?S ! 1)) = fips_next ?S m"
  proof -
    have "m - 16 + 14 = m - 2" "m - 16 + 9 = m - 7" "m - 16 + 1 = m - 15"
      using step(1) by simp_all
    then show ?thesis
      by (simp add: nth fips_next_def s1_def s0_def ror32_rotr add.commute add.left_commute
          del: One_nat_def diff_diff_left)
  qed
  have "fips_schedule block 64 ! m = fips_next ?S m"
    using nth_schedule [of block "Suc m" 64 m] assms(1) step len
    by (simp add: schedule_Suc nth_append)
  moreover have "drop (Suc m - 16) (fips_schedule block (Suc m)) =
      tl (drop (m - 16) ?S) @ [fips_next ?S m]"
  proof -
    have "Suc m - 16 = Suc (m - 16)" using step(1) by simp
    moreover have "drop (Suc k) ?S = tl (drop k ?S)" for k
      by (simp add: drop_Suc tl_drop)
    ultimately show ?thesis
      using step len by (simp only: schedule_Suc drop_append) simp
  qed
  ultimately show ?case
    using step x by (simp add: window_step_def Let_def)
qed

theorem sha256_transform_fips:
  assumes "length H = 8" and "length block = 16"
  shows "sha256_transform H block = fips_sha256_compress H block"
proof -
  let ?F = "\<lambda>a b. fold (\<lambda>t. fips_round (sha256_K ! t) (fips_schedule block 64 ! t)) [a..<b]"
  have "fold (\<lambda>t. fips_round (sha256_K ! t) (block ! t)) [0..<16] H = ?F 0 16 H"
    using nth_schedule [of block 16 64] assms(2)
    by (intro fold_cong) (auto simp: schedule_def)
  moreover have "?F 16 64 (?F 0 16 H) = ?F 0 64 H"
    by (rule fold_upt_split) simp_all
  ultimately show ?thesis
    using assms by (simp add: sha256_transform_window window_schedule fips_sha256_compress_def Let_def)
qed

section \<open>The context as a stream of blocks\<close>

definition sha256_compress :: "uint32 list \<Rightarrow> byte list \<Rightarrow> uint32 list" where
  "sha256_compress H b = fips_sha256_compress H (map of_be32 (pieces 4 b))"

definition sha256_inv :: "sha256_ctx \<Rightarrow> bool" where
  "sha256_inv c \<longleftrightarrow> length (ctx_state c) = 8 \<and> length (ctx_block c) = 64 \<and> ctx_index c < 64"

definition sha256_blocks_done :: "sha256_ctx \<Rightarrow> nat" where
  "sha256_blocks_done c = pair64 (ctx_count_high c) (ctx_count_low c)"

definition sha256_total :: "sha256_ctx \<Rightarrow> nat" where
  "sha256_total c = 64 * sha256_blocks_done c + ctx_index c"

definition sha256_pend :: "sha256_ctx \<Rightarrow> byte list" where
  "sha256_pend c = take (ctx_index c) (ctx_block c)"

lemma length_sha256_compress [simp]: "length H = 8 \<Longrightarrow> length (fips_sha256_compress H b) = 8"
proof -
  assume H: "length H = 8"
  have "length (fold (\<lambda>t. fips_round (sha256_K ! t) (fips_schedule b 64 ! t)) ts H) = 8" for ts
    using H by (induction ts rule: rev_induct) simp_all
  with H show ?thesis by (simp add: fips_sha256_compress_def Let_def)
qed

lemma string2ints_pieces:
  "length b = 4 * n \<Longrightarrow> string2ints b n = map of_be32 (pieces 4 b)"
  by (simp add: string2ints_def pieces_eq_map)

lemma sha256_block_state:
  assumes "length (ctx_state c) = 8" and "length b = 64"
  shows "ctx_state (sha256_block c b) = sha256_compress (ctx_state c) b"
  using assms
  by (simp add: sha256_block_def Let_def sha256_compress_def string2ints_pieces sha256_transform_fips
      pieces_eq_map [of 4 b 16])

lemma sha256_block_frame [simp]:
  "ctx_block (sha256_block c b) = ctx_block c" "ctx_index (sha256_block c b) = ctx_index c"
  by (simp_all add: sha256_block_def Let_def)

lemma sha256_block_count:
  "sha256_blocks_done (sha256_block c b) = (sha256_blocks_done c + 1) mod 2 ^ 64"
  using pair64_add [OF word_inc_overflow, of "ctx_count_low c" "ctx_count_high c"]
  by (simp add: sha256_blocks_done_def sha256_block_def Let_def)

lemma sha256_blocks_absorb:
  assumes "length (ctx_state c) = 8"
  shows "(ctx_state (fst (sha256_blocks c buf)), snd (sha256_blocks c buf)) =
      absorb 64 sha256_compress (ctx_state c) buf \<and>
    sha256_blocks_done (fst (sha256_blocks c buf)) =
      (sha256_blocks_done c + length buf div 64) mod 2 ^ 64 \<and>
    ctx_block (fst (sha256_blocks c buf)) = ctx_block c \<and>
    ctx_index (fst (sha256_blocks c buf)) = ctx_index c \<and>
    length (ctx_state (fst (sha256_blocks c buf))) = 8"
  using assms
proof (induction c buf rule: sha256_blocks.induct)
  case (1 c buf)
  show ?case
  proof (cases "64 \<le> length buf")
    case True
    let ?c = "sha256_block c (take 64 buf)"
    have st: "ctx_state ?c = sha256_compress (ctx_state c) (take 64 buf)"
      using "1.prems" True by (simp add: sha256_block_state)
    have len: "length (ctx_state ?c) = 8"
      using "1.prems" by (simp add: st sha256_compress_def)
    have "(sha256_blocks_done c + 1 + (length buf - 64) div 64) = sha256_blocks_done c + length buf div 64"
      using True by (simp add: le_div_geq)
    then have cnt: "((sha256_blocks_done c + 1) mod 2 ^ 64 + (length buf - 64) div 64) mod 2 ^ 64 =
        (sha256_blocks_done c + length buf div 64) mod 2 ^ 64"
      by (simp only: mod_add_left_eq)
    have eqs: "sha256_blocks c buf = sha256_blocks ?c (drop 64 buf)"
      "absorb 64 sha256_compress (ctx_state c) buf =
       absorb 64 sha256_compress (ctx_state ?c) (drop 64 buf)"
      using True by (simp_all add: st sha256_blocks.simps [of c buf]
          absorb.simps [of 64 _ "ctx_state c" buf])
    show ?thesis
      using "1.IH" [OF True len] unfolding eqs
      by (simp only: sha256_block_frame sha256_block_count cnt length_drop)
  next
    case False
    then show ?thesis
      using "1.prems" pair64_bound
      by (simp add: sha256_blocks.simps [of c buf] absorb_short sha256_blocks_done_def)
  qed
qed

lemma sha256_update_rest_laws:
  assumes "length (ctx_state c) = 8" and "length (ctx_block c) = 64"
  shows "sha256_inv (sha256_update_rest c d) \<and>
    (ctx_state (sha256_update_rest c d), sha256_pend (sha256_update_rest c d)) =
      absorb 64 sha256_compress (ctx_state c) d \<and>
    sha256_total (sha256_update_rest c d) = (64 * sha256_blocks_done c + length d) mod 2 ^ 70"
proof -
  obtain c' r where cr: "sha256_blocks c d = (c', r)" by (cases "sha256_blocks c d")
  note b = sha256_blocks_absorb [OF assms(1), of d, unfolded cr fst_conv snd_conv]
  have r: "length r = length d mod 64"
    using length_snd_absorb [of 64 sha256_compress "ctx_state c" d] b by (metis snd_conv zero_less_numeral)
  then have short: "length r < 64" by simp
  have upd: "sha256_update_rest c d =
      c'\<lparr>ctx_block := memcpy (ctx_block c) 0 r, ctx_index := length r\<rparr>"
    using b by (simp add: sha256_update_rest_def cr)
  have "64 * ((sha256_blocks_done c + length d div 64) mod 2 ^ 64) + length d mod 64 =
      (64 * sha256_blocks_done c + length d) mod 2 ^ 70"
  proof -
    have "(64 * sha256_blocks_done c + length d) mod (64 * 2 ^ 64) =
        64 * ((64 * sha256_blocks_done c + length d) div 64 mod 2 ^ 64) +
        (64 * sha256_blocks_done c + length d) mod 64"
      by (rule mod_mult2_eq)
    then show ?thesis by simp
  qed
  then show ?thesis
    using assms b r short
    by (simp add: upd sha256_inv_def sha256_pend_def sha256_total_def sha256_blocks_done_def memcpy_def)
qed

lemma sha256_total_bound: "sha256_inv c \<Longrightarrow> sha256_total c < 2 ^ 70"
  using pair64_bound [of "ctx_count_high c" "ctx_count_low c"]
  by (simp add: sha256_inv_def sha256_total_def sha256_blocks_done_def)

lemma sha256_update_laws:
  assumes "sha256_inv c"
  shows "sha256_inv (sha256_update c d) \<and>
    (ctx_state (sha256_update c d), sha256_pend (sha256_update c d)) =
      absorb 64 sha256_compress (ctx_state c) (sha256_pend c @ d) \<and>
    sha256_total (sha256_update c d) = (sha256_total c + length d) mod 2 ^ 70"
proof -
  let ?i = "ctx_index c"
  have c: "length (ctx_state c) = 8" "length (ctx_block c) = 64" "?i < 64"
    using assms by (simp_all add: sha256_inv_def)
  consider (empty) "?i = 0" | (short) "?i \<noteq> 0" "length d < 64 - ?i" | (full) "?i \<noteq> 0" "64 - ?i \<le> length d"
    by linarith
  then show ?thesis
  proof cases
    case empty
    then show ?thesis
      using sha256_update_rest_laws [OF c(1,2), of d]
      by (simp add: sha256_update_def sha256_pend_def sha256_total_def)
  next
    case short
    have upd: "sha256_update c d = c\<lparr>ctx_block := memcpy (ctx_block c) ?i d, ctx_index := ?i + length d\<rparr>"
      using short by (simp add: sha256_update_def Let_def)
    have inv: "sha256_inv (sha256_update c d)"
      using short c by (simp add: upd sha256_inv_def)
    have "sha256_total (sha256_update c d) = sha256_total c + length d"
      by (simp add: upd sha256_total_def sha256_blocks_done_def)
    with sha256_total_bound [OF inv] inv show ?thesis
      using short c by (simp add: upd sha256_pend_def absorb_short)
  next
    case full
    let ?l = "64 - ?i"
    let ?b = "sha256_pend c @ take ?l d"
    let ?c1 = "c\<lparr>ctx_block := memcpy (ctx_block c) ?i (take ?l d)\<rparr>"
    let ?c2 = "sha256_block ?c1 ?b"
    have b: "memcpy (ctx_block c) ?i (take ?l d) = ?b" and lb: "length ?b = 64"
      using full c by (simp_all add: memcpy_def sha256_pend_def)
    have upd: "sha256_update c d = sha256_update_rest ?c2 (drop ?l d)"
      using full by (simp add: sha256_update_def Let_def b)
    have st: "ctx_state ?c2 = sha256_compress (ctx_state c) ?b"
      using sha256_block_state [of ?c1 ?b] c lb by simp
    have "length (ctx_state ?c2) = 8"
      unfolding st sha256_compress_def using c by simp
    moreover have "length (ctx_block ?c2) = 64"
      using c full by simp
    ultimately have rest: "sha256_inv (sha256_update c d) \<and>
        (ctx_state (sha256_update c d), sha256_pend (sha256_update c d)) =
          absorb 64 sha256_compress (ctx_state ?c2) (drop ?l d) \<and>
        sha256_total (sha256_update c d) = (64 * sha256_blocks_done ?c2 + length (drop ?l d)) mod 2 ^ 70"
      unfolding upd by (rule sha256_update_rest_laws)
    have "absorb 64 sha256_compress (ctx_state c) (sha256_pend c @ d) =
        absorb 64 sha256_compress (ctx_state c) (?b @ drop ?l d)" by simp
    also have "\<dots> = absorb 64 sha256_compress (ctx_state ?c2) (drop ?l d)"
      unfolding st by (rule absorb_block) (use lb in simp_all)
    finally have abs: "absorb 64 sha256_compress (ctx_state c) (sha256_pend c @ d) =
        absorb 64 sha256_compress (ctx_state ?c2) (drop ?l d)" .
    have bd: "sha256_blocks_done ?c2 = (sha256_blocks_done c + 1) mod 2 ^ 64"
      using sha256_block_count [of ?c1 ?b] by (simp add: sha256_blocks_done_def)
    have "64 * ((sha256_blocks_done c + 1) mod 2 ^ 64) = (64 * (sha256_blocks_done c + 1)) mod (64 * 2 ^ 64)"
      by (rule mult_mod_right)
    then have "64 * sha256_blocks_done ?c2 = (64 * (sha256_blocks_done c + 1)) mod 2 ^ 70"
      unfolding bd by simp
    then have "(64 * sha256_blocks_done ?c2 + length (drop ?l d)) mod 2 ^ 70 =
        (64 * (sha256_blocks_done c + 1) + length (drop ?l d)) mod 2 ^ 70"
      by (simp only: mod_add_left_eq)
    also have "64 * (sha256_blocks_done c + 1) + length (drop ?l d) = sha256_total c + length d"
      using full c by (simp add: sha256_total_def)
    finally show ?thesis
      using rest unfolding abs by metis
  qed
qed

interpretation sha256: block_stream 64 sha256_compress sha256_update sha256_inv ctx_state
  sha256_pend sha256_total "2 ^ 70" "2 ^ 32"
proof unfold_locales
  fix s :: sha256_ctx assume "sha256_inv s"
  then show "length (sha256_pend s) < 64"
    by (simp add: sha256_inv_def sha256_pend_def)
qed (use sha256_update_laws sha256_total_bound in auto)

section \<open>Padding\<close>

lemma fill_word_spec:
  assumes "i \<le> length b" and "4 dvd length b"
  shows "\<exists>w b'. fill_word b i = (b', w) \<and> 4 dvd w \<and> i \<le> w \<and> w < i + 4 \<and> w \<le> length b \<and>
    length b' = length b \<and> take w b' = take i b @ replicate (w - i) 0"
  using assms
proof (induction b i rule: fill_word.induct)
  case (1 b i)
  show ?case
  proof (cases "i mod 4 = 0")
    case True
    then show ?thesis
      using "1.prems" by (auto simp: fill_word.simps [of b i])
  next
    case False
    with "1.prems" have lt: "i < length b" by (metis dvd_eq_mod_eq_0 le_neq_implies_less)
    with "1.IH" False "1.prems" obtain w b' where w:
      "fill_word (b[i := 0]) (i + 1) = (b', w)" "4 dvd w" "i + 1 \<le> w" "w < i + 1 + 4" "w \<le> length b"
      "length b' = length b" "take w b' = take (i + 1) (b[i := 0]) @ replicate (w - (i + 1)) 0"
      by force
    have "w \<noteq> i + 4" using False w(2) by presburger
    moreover have "take (i + 1) (b[i := 0]) = take i b @ [0]"
      using lt by (simp add: take_Suc_conv_app_nth)
    moreover have "0 # replicate (w - (i + 1)) 0 = replicate (w - i) (0 :: byte)"
      using w(3) by (simp add: Suc_diff_Suc flip: replicate_Suc)
    ultimately show ?thesis
      using False w by (simp add: fill_word.simps [of b i])
  qed
qed

lemma sha256_final_state:
  assumes "sha256_inv c"
  shows "ctx_state (sha256_final c) = foldl sha256_compress (ctx_state c)
    (pieces 64 (sha256_pend c @ pad_tail 64 8 sha_length_field (sha256_total c)))"
proof -
  let ?l = "ctx_index c" and ?st = "ctx_state c"
  have c: "length ?st = 8" "length (ctx_block c) = 64" "?l < 64"
    using assms by (simp_all add: sha256_inv_def)
  let ?b0 = "(ctx_block c)[?l := 0x80]"
  let ?m = "sha256_pend c @ [0x80]"
  have m: "take (?l + 1) ?b0 = ?m"
    using c by (simp add: sha256_pend_def take_Suc_conv_app_nth)
  obtain w b where w: "fill_word ?b0 (?l + 1) = (b, w)" "4 dvd w" "?l + 1 \<le> w" "w < ?l + 5" "w \<le> 64"
    and len: "length b = 64" and b: "take w b = ?m @ replicate (w - (?l + 1)) 0"
    using fill_word_spec [of "?l + 1" ?b0] c unfolding m by force
  obtain n where n: "w = 4 * n" using w(2) by (elim dvdE)
  let ?F = "be64 (of_nat (8 * sha256_total c))"
  let ?len = "[push_bit 9 (ctx_count_high c) OR drop_bit 23 (ctx_count_low c),
               push_bit 9 (ctx_count_low c) OR push_bit 3 (of_nat ?l)]"
  have F: "map of_be32 (pieces 4 ?F) = ?len"
    using length_field [OF c(3)]
    by (simp only: ints_length_field sha256_total_def sha256_blocks_done_def)
  have data: "string2ints b n = map of_be32 (pieces 4 (take w b))"
    using n w(5) len by (simp add: string2ints_def pieces_eq_map [of 4 _ n] take_drop min_def
        cong: map_cong)
  have comp: "sha256_transform H (map of_be32 (pieces 4 x)) = sha256_compress H x"
    if "length H = 8" "length x = 64" for H x
    using that by (simp add: sha256_compress_def sha256_transform_fips pieces_eq_map [of 4 x 16])
  have fin: "ctx_state (sha256_final c) =
      (if 14 < n
       then sha256_transform (sha256_transform ?st (string2ints b n @ replicate (16 - n) 0))
              (replicate 14 0 @ ?len)
       else sha256_transform ?st (string2ints b n @ replicate (14 - n) 0 @ ?len))"
    using w(1) n by (simp add: sha256_final_def Let_def)
  have zeros: "(64 - (sha256_total c + 1 + 8) mod 64) mod 64 = (if ?l < 56 then 55 - ?l else 119 - ?l)"
    by (rule pad_zeros_count) (use c in \<open>simp add: sha256_total_def\<close>)
  have tail: "pad_tail 64 8 sha_length_field (sha256_total c) =
      [0x80] @ replicate (if ?l < 56 then 55 - ?l else 119 - ?l) 0 @ ?F"
    by (simp only: pad_tail_def zeros sha_length_field_def)
  have lw: "length (take w b) = 4 * n" using n w(5) len by simp
  show ?thesis
  proof (cases "14 < n")
    case True
    let ?B1 = "take w b @ replicate (4 * (16 - n)) 0"
    let ?B2 = "replicate (4 * 14) 0 @ ?F"
    have l: "56 \<le> ?l" using True n w by simp
    have n16: "n \<le> 16" using w(5) n by simp
    have "replicate (w - (?l + 1)) 0 @ replicate (4 * (16 - n)) 0 @ replicate (4 * 14) (0 :: byte) =
        replicate (119 - ?l) 0"
      using n n16 w l c by (simp add: replicate_add [symmetric])
    then have pad: "sha256_pend c @ pad_tail 64 8 sha_length_field (sha256_total c) = ?B1 @ ?B2"
      using l by (simp add: tail b)
    have "length ?B1 = 64" "length ?B2 = 64" using lw n16 by simp_all
    then have "foldl sha256_compress ?st (pieces 64 (?B1 @ ?B2)) =
        sha256_compress (sha256_compress ?st ?B1) ?B2"
      by (simp only: pieces_two foldl.simps zero_less_numeral)
    also have "\<dots> = sha256_transform (sha256_transform ?st (map of_be32 (pieces 4 ?B1)))
        (map of_be32 (pieces 4 ?B2))"
      using c lw n16 comp [of ?st ?B1] comp [of "sha256_compress ?st ?B1" ?B2]
      by (simp add: sha256_compress_def del: append_assoc)
    also have "map of_be32 (pieces 4 ?B1) = string2ints b n @ replicate (16 - n) 0"
      by (simp only: ints_append [OF lw] ints_zeros data)
    also have "map of_be32 (pieces 4 ?B2) = replicate 14 0 @ ?len"
      by (simp only: ints_append [OF length_replicate] ints_zeros F)
    finally show ?thesis
      using True by (simp add: fin pad)
  next
    case False
    let ?B = "take w b @ replicate (4 * (14 - n)) 0 @ ?F"
    have l: "?l < 56" using False n w by simp
    have "replicate (w - (?l + 1)) 0 @ replicate (4 * (14 - n)) 0 = replicate (55 - ?l) (0 :: byte)"
      using False n w by (simp add: replicate_add [symmetric])
    then have pad: "sha256_pend c @ pad_tail 64 8 sha_length_field (sha256_total c) = ?B"
      using l by (simp add: tail b)
    have len: "length ?B = 64" using lw False by simp
    then have "foldl sha256_compress ?st (pieces 64 ?B) = sha256_compress ?st ?B"
      by (simp add: pieces_single)
    also have "\<dots> = sha256_transform ?st (map of_be32 (pieces 4 ?B))"
      using comp [OF c(1) len] by simp
    also have "map of_be32 (pieces 4 ?B) = string2ints b n @ replicate (14 - n) 0 @ ?len"
      by (simp only: ints_append [OF lw] ints_append [OF length_replicate] ints_zeros F data)
    finally show ?thesis
      using False by (simp add: fin pad)
  qed
qed

definition sha256_hex :: "uint32 list \<Rightarrow> string" where
  "sha256_hex H = concat (map hex2 (concat (map be32 H)))"

lemma sha256_final_digest:
  assumes "sha256_inv c"
  shows "sha256_digest (sha256_final c) = sha256_hex (foldl sha256_compress (ctx_state c)
    (pieces 64 (sha256_pend c @ pad_tail 64 8 sha_length_field (sha256_total c))))"
proof -
  have "length (ctx_state (sha256_final c)) = 8"
    using assms unfolding sha256_final_state [OF assms]
    by (intro length_foldl_state) (simp_all add: sha256_compress_def sha256_inv_def)
  then show ?thesis
    by (simp add: sha256_digest_def sha256_digest_bytes_def sha256_hex_def sha256_final_state [OF assms])
qed

interpretation sha256d: block_digest 64 sha256_compress sha256_update sha256_inv ctx_state
  sha256_pend sha256_total "2 ^ 70" "2 ^ 32" 8 sha_length_field
  "\<lambda>s. sha256_digest (sha256_final s)" sha256_hex
proof unfold_locales
  show "sha_length_field (k mod 2 ^ 70) = sha_length_field k" for k
    by (rule sha_length_field_mod) simp
qed (simp_all add: sha256_final_digest)

lemma sha256_init_laws:
  "sha256_inv (sha256_init sha256_new)" "sha256_pend (sha256_init sha256_new) = []"
  "sha256_total (sha256_init sha256_new) = 0" "ctx_state (sha256_init sha256_new) = sha256_H0"
  by (simp_all add: sha256_inv_def sha256_init_def sha256_new_def sha256_pend_def sha256_total_def
      sha256_blocks_done_def pair64_def sha256_H0_def)

definition fips_sha256 :: "byte list \<Rightarrow> string" where
  "fips_sha256 msg = sha256_hex (md_hash 64 8 sha_length_field sha256_compress sha256_H0 msg)"

lemma sha256_data_digest: "GetDataSHA256 data = fips_sha256 data"
  using sha256d.digest_data_loop [OF sha256_init_laws(1-3)]
  by (simp add: GetDataSHA256_def fips_sha256_def sha256_init_laws)

lemma sha256_file_digest:
  assumes "\<forall>d \<in> set reads. length d \<le> 1024"
  shows "GetFileSHA256 (Some reads) = fips_sha256 (concat reads)"
proof -
  have "\<forall>d \<in> set reads. length d < 2 ^ 32"
    using assms by fastforce
  from sha256d.digest [OF sha256_init_laws(1-3) this] show ?thesis
    by (simp add: GetFileSHA256_def fips_sha256_def sha256_init_laws)
qed

section \<open>Properties\<close>

text \<open>Property C1: \<open>GetDataSHA256\<close> is the SHA-256 of FIPS 180-4, in lower case hexadecimal, for
  every input.\<close>

theorem GetDataSHA256_fips: "GetDataSHA256 data = fips_sha256 data"
  by (rule sha256_data_digest)

text \<open>\<open>GetFileSHA256\<close> gives the digest of the contents of the file, however its
  contents are cut by the reads.\<close>

theorem GetFileSHA256_fips:
  assumes "\<forall>d \<in> set reads. length d \<le> 1024"
  shows "GetFileSHA256 (Some reads) = fips_sha256 (concat reads)"
  using assms by (rule sha256_file_digest)

lemma GetFileSHA256_fips_witness:
  "GetFileSHA256 (Some [[97, 98], [99]]) = fips_sha256 [97, 98, 99]"
  using GetFileSHA256_fips [of "[[97, 98], [99]]"] by simp

end
