(* ===== verification/Sha1.thy ===== *)
theory Sha1
  imports Stream_Digest
begin

text \<open>
  Model of \<^verbatim>\<open>src/src/sha1.cpp\<close>: the class \<open>SHA1\<close> with its bit counter in two words, the unrolled
  \<open>transform\<close> (five registers, circular message schedule), the buffering \<open>update\<close>, the byte-wise
  padding of \<open>final\<close>, and \<open>GetDataSHA1\<close> / \<open>GetFileSHA1\<close>, on a little-endian build. The reference
  is SHA-1 of FIPS 180-4. The working variables \<open>a .. e\<close> are the positions \<open>0 .. 4\<close> of a list, the
  workspace is the list of the sixteen words \<open>block->l\<close>.
\<close>

section \<open>\<open>transform\<close>\<close>

definition SHABLK0 :: "uint32 list \<Rightarrow> nat \<Rightarrow> uint32 list" where
  "SHABLK0 l i = l[i := (rol32 (l ! i) 24 AND 0xFF00FF00) OR (rol32 (l ! i) 8 AND 0x00FF00FF)]"

definition SHABLK :: "uint32 list \<Rightarrow> nat \<Rightarrow> uint32 list" where
  "SHABLK l i = l[i mod 16 := rol32 (l ! ((i + 13) mod 16) XOR l ! ((i + 8) mod 16) XOR
     l ! ((i + 2) mod 16) XOR l ! (i mod 16)) 1]"

text \<open>
  The macros \<open>R0 .. R4\<close> differ in the mixing function \<open>f\<close>, the constant \<open>k\<close> and the way the block
  word is produced; the block is updated first, then \<open>z\<close>, then \<open>w\<close>.
\<close>

definition R_step ::
  "(uint32 \<Rightarrow> uint32 \<Rightarrow> uint32 \<Rightarrow> uint32) \<Rightarrow> uint32 \<Rightarrow> (uint32 list \<Rightarrow> nat \<Rightarrow> uint32 list) \<Rightarrow>
   nat \<Rightarrow> nat \<Rightarrow> nat \<Rightarrow> nat \<Rightarrow> nat \<Rightarrow> nat \<Rightarrow>
   uint32 list \<times> uint32 list \<Rightarrow> uint32 list \<times> uint32 list" where
  "R_step f k blk v w x y z i p =
     (let r = fst p;
          l = blk (snd p) i;
          r' = r[z := r ! z + (f (r ! w) (r ! x) (r ! y) + l ! (i mod 16) + k + rol32 (r ! v) 5)]
      in (r'[w := rol32 (r' ! w) 30], l))"

definition R0 where
  "R0 = R_step (\<lambda>w x y. (w AND (x XOR y)) XOR y) 0x5A827999 SHABLK0"

definition R1 where
  "R1 = R_step (\<lambda>w x y. (w AND (x XOR y)) XOR y) 0x5A827999 SHABLK"

definition R2 where
  "R2 = R_step (\<lambda>w x y. w XOR x XOR y) 0x6ED9EBA1 SHABLK"

definition R3 where
  "R3 = R_step (\<lambda>w x y. ((w OR x) AND y) OR (w AND x)) 0x8F1BBCDC SHABLK"

definition R4 where
  "R4 = R_step (\<lambda>w x y. w XOR x XOR y) 0xCA62C1D6 SHABLK"

definition sha1_lines ::
  "(uint32 list \<times> uint32 list \<Rightarrow> uint32 list \<times> uint32 list) list" where
  "sha1_lines = [
     R0 0 1 2 3 4 0, R0 4 0 1 2 3 1, R0 3 4 0 1 2 2, R0 2 3 4 0 1 3, R0 1 2 3 4 0 4,
     R0 0 1 2 3 4 5, R0 4 0 1 2 3 6, R0 3 4 0 1 2 7, R0 2 3 4 0 1 8, R0 1 2 3 4 0 9,
     R0 0 1 2 3 4 10, R0 4 0 1 2 3 11, R0 3 4 0 1 2 12, R0 2 3 4 0 1 13, R0 1 2 3 4 0 14,
     R0 0 1 2 3 4 15, R1 4 0 1 2 3 16, R1 3 4 0 1 2 17, R1 2 3 4 0 1 18, R1 1 2 3 4 0 19,
     R2 0 1 2 3 4 20, R2 4 0 1 2 3 21, R2 3 4 0 1 2 22, R2 2 3 4 0 1 23, R2 1 2 3 4 0 24,
     R2 0 1 2 3 4 25, R2 4 0 1 2 3 26, R2 3 4 0 1 2 27, R2 2 3 4 0 1 28, R2 1 2 3 4 0 29,
     R2 0 1 2 3 4 30, R2 4 0 1 2 3 31, R2 3 4 0 1 2 32, R2 2 3 4 0 1 33, R2 1 2 3 4 0 34,
     R2 0 1 2 3 4 35, R2 4 0 1 2 3 36, R2 3 4 0 1 2 37, R2 2 3 4 0 1 38, R2 1 2 3 4 0 39,
     R3 0 1 2 3 4 40, R3 4 0 1 2 3 41, R3 3 4 0 1 2 42, R3 2 3 4 0 1 43, R3 1 2 3 4 0 44,
     R3 0 1 2 3 4 45, R3 4 0 1 2 3 46, R3 3 4 0 1 2 47, R3 2 3 4 0 1 48, R3 1 2 3 4 0 49,
     R3 0 1 2 3 4 50, R3 4 0 1 2 3 51, R3 3 4 0 1 2 52, R3 2 3 4 0 1 53, R3 1 2 3 4 0 54,
     R3 0 1 2 3 4 55, R3 4 0 1 2 3 56, R3 3 4 0 1 2 57, R3 2 3 4 0 1 58, R3 1 2 3 4 0 59,
     R4 0 1 2 3 4 60, R4 4 0 1 2 3 61, R4 3 4 0 1 2 62, R4 2 3 4 0 1 63, R4 1 2 3 4 0 64,
     R4 0 1 2 3 4 65, R4 4 0 1 2 3 66, R4 3 4 0 1 2 67, R4 2 3 4 0 1 68, R4 1 2 3 4 0 69,
     R4 0 1 2 3 4 70, R4 4 0 1 2 3 71, R4 3 4 0 1 2 72, R4 2 3 4 0 1 73, R4 1 2 3 4 0 74,
     R4 0 1 2 3 4 75, R4 4 0 1 2 3 76, R4 3 4 0 1 2 77, R4 2 3 4 0 1 78, R4 1 2 3 4 0 79]"

definition SHA1_transform :: "uint32 list \<Rightarrow> byte list \<Rightarrow> uint32 list" where
  "SHA1_transform state buffer =
     (let block = map of_le32 (pieces 4 buffer);
          (r, block) = run_lines sha1_lines (take 5 state, block)
      in map2 (+) state r)"

section \<open>The class and its operations\<close>

record sha1_ctx =
  m_state :: "uint32 list"
  m_count0 :: uint32
  m_count1 :: uint32
  m_buffer :: "byte list"
  m_digest :: "byte list"

definition SHA1_reset :: "sha1_ctx \<Rightarrow> sha1_ctx" where
  "SHA1_reset s = s\<lparr>m_state := [0x67452301, 0xEFCDAB89, 0x98BADCFE, 0x10325476, 0xC3D2E1F0],
     m_count0 := 0, m_count1 := 0\<rparr>"

text \<open>The loop \<open>for (; i + 63 < len; i += 64) transform(m_state, &data[i])\<close>.\<close>

function SHA1_blocks :: "uint32 list \<Rightarrow> byte list \<Rightarrow> nat \<Rightarrow> uint32 list \<times> nat" where
  "SHA1_blocks st data i =
     (if i + 63 < length data
      then SHA1_blocks (SHA1_transform st (take 64 (drop i data))) data (i + 64)
      else (st, i))"
  by pat_completeness auto
termination
  by (relation "measure (\<lambda>(st, data, i). length data - i)") auto

declare SHA1_blocks.simps [simp del]

text \<open>\<open>len\<close> is the 32-bit length of the data; the sums of positions are taken in \<open>nat\<close>.\<close>

definition SHA1_update :: "sha1_ctx \<Rightarrow> byte list \<Rightarrow> sha1_ctx" where
  "SHA1_update s data =
     (let len = of_nat (length data) :: uint32;
          j = unat (drop_bit 3 (m_count0 s) AND 63);
          c0 = m_count0 s + push_bit 3 len;
          c1 = (if c0 < push_bit 3 len then m_count1 s + 1 else m_count1 s) + drop_bit 29 len;
          s = s\<lparr>m_count0 := c0, m_count1 := c1\<rparr>
      in if j + length data > 63
         then let i = 64 - j;
                  buf = memcpy (m_buffer s) j (take i data);
                  (st, i) = SHA1_blocks (SHA1_transform (m_state s) buf) data i
              in s\<lparr>m_state := st, m_buffer := memcpy buf 0 (drop i data)\<rparr>
         else s\<lparr>m_buffer := memcpy (m_buffer s) j data\<rparr>)"

text \<open>The bit counter in bytes; its value modulo 64 is the fill of the buffer.\<close>

lemma and_504: "unat (c AND 504) = 8 * (unat c div 8 mod 64)" for c :: uint32
proof -
  have "c AND 504 = c AND push_bit 3 (mask 6)"
    by (simp add: mask_eq_exp_minus_1 push_bit_eq_mult)
  also have "\<dots> = push_bit 3 (take_bit 6 (drop_bit 3 c))"
    by (rule bit_word_eqI) (auto simp: bit_simps)
  finally have "c AND 504 = push_bit 3 (take_bit 6 (drop_bit 3 c))" .
  moreover have "unat (take_bit 6 (drop_bit 3 c)) = unat c div 8 mod 64"
    by (simp add: unsigned_take_bit_eq unsigned_drop_bit_eq take_bit_eq_mod drop_bit_eq_div unat_div unat_mod)
  moreover have "unat (push_bit 3 v) = 8 * unat v" if "unat v < 64" for v :: uint32
    using that by (simp add: push_bit_eq_mult unat_word_ariths)
  ultimately show ?thesis by simp
qed

lemma and_63: "unat (drop_bit 3 c AND 63) = unat c div 8 mod 64" for c :: uint32
proof -
  have "drop_bit 3 c AND 63 = take_bit 6 (drop_bit 3 c)"
  proof -
    have "(63 :: uint32) = mask 6" by (simp add: mask_eq_exp_minus_1)
    then show ?thesis by (simp only: take_bit_eq_mask)
  qed
  moreover have "unat (take_bit 6 (drop_bit 3 c)) = unat c div 8 mod 64"
    by (simp add: unsigned_take_bit_eq unsigned_drop_bit_eq take_bit_eq_mod drop_bit_eq_div unat_div unat_mod)
  ultimately show ?thesis by simp
qed

lemma add_8_div: "unat (c + 8) div 8 mod 64 = (unat c div 8 mod 64 + 1) mod 64" for c :: uint32
proof -
  have "unat (c + 8) div 8 mod 64 = (unat c + 8) mod 2 ^ 32 div 8 mod 64"
    by (simp add: unat_word_ariths)
  also have "\<dots> = (unat c + 8) div 8 mod 64"
  proof -
    have "x mod 4294967296 div 8 mod 64 = x div 8 mod (64 :: nat)" for x
    proof -
      have "x mod (8 * 536870912) = 8 * (x div 8 mod 536870912) + x mod 8"
        by (rule mod_mult2_eq)
      then have "x mod 4294967296 div 8 = x div 8 mod 536870912" by simp
      moreover have "x div 8 mod (64 * 8388608) mod 64 = x div 8 mod 64"
        by (rule mod_mod_cancel) simp
      ultimately show ?thesis by simp
    qed
    then show ?thesis by simp
  qed
  also have "\<dots> = (unat c div 8 mod 64 + 1) mod 64"
  proof -
    have "(unat c + 8) div 8 = unat c div 8 + 1" by simp
    then show ?thesis by (simp only: mod_add_left_eq)
  qed
  finally show ?thesis .
qed

lemma SHA1_pad_measure:
  fixes c :: uint32
  assumes "c AND 504 \<noteq> 448"
  shows "(120 - unat ((c + 8) AND 504) div 8) mod 64 < (120 - unat (c AND 504) div 8) mod 64"
proof -
  define k where "k = unat c div 8 mod 64"
  have k: "k < 64" by (simp add: k_def)
  have "unat (c AND 504) \<noteq> 448"
  proof
    assume "unat (c AND 504) = 448"
    then have "unat (c AND 504) = unat (448 :: uint32)" by simp
    then have "c AND 504 = 448" by (simp only: unsigned_word_eqI)
    with assms show False by simp
  qed
  then have n: "k \<noteq> 56" by (simp add: and_504 k_def)
  have "(120 - unat ((c + 8) AND 504) div 8) mod 64 = (120 - (k + 1) mod 64) mod 64"
    by (simp add: and_504 add_8_div k_def)
  moreover have "(120 - unat (c AND 504) div 8) mod 64 = (120 - k) mod 64"
    by (simp add: and_504 k_def)
  moreover have "(120 - (k + 1) mod 64) mod 64 < (120 - k) mod 64"
  proof (cases "k = 63")
    case False
    then have "(k + 1) mod 64 = k + 1" using k by simp
    moreover have "120 - k = (120 - (k + 1)) + 1" using k by simp
    moreover have "(120 - (k + 1)) mod 64 \<noteq> 63"
    proof -
      have "k + 1 \<le> 63" using k False by simp
      then have "120 - (k + 1) < 128" "56 \<le> 120 - (k + 1)" "120 - (k + 1) \<noteq> 63"
        "120 - (k + 1) \<noteq> 127"
        using n by auto
      then show ?thesis
        by (cases "120 - (k + 1) < 64") (simp_all add: le_mod_geq)
    qed
    ultimately show ?thesis by (simp add: mod_Suc)
  qed simp
  ultimately show ?thesis by simp
qed

lemma SHA1_update_count0:
  "m_count0 (SHA1_update s d) = m_count0 s + push_bit 3 (of_nat (length d))"
  by (simp add: SHA1_update_def Let_def split: prod.split)

text \<open>The loop \<open>while ((m_count[0] & 504) != 448) update("\\0", 1)\<close>.\<close>

function SHA1_pad :: "sha1_ctx \<Rightarrow> sha1_ctx" where
  "SHA1_pad s = (if m_count0 s AND 504 \<noteq> 448 then SHA1_pad (SHA1_update s [0]) else s)"
  by pat_completeness auto
termination
  by (relation "measure (\<lambda>s. (120 - unat (m_count0 s AND 504) div 8) mod 64)")
    (use SHA1_pad_measure in \<open>simp_all add: SHA1_update_count0 push_bit_eq_mult\<close>)

declare SHA1_pad.simps [simp del]

definition SHA1_final :: "sha1_ctx \<Rightarrow> sha1_ctx" where
  "SHA1_final s =
     (let finalcount = map (\<lambda>i. ucast (drop_bit ((3 - i mod 4) * 8)
            (if i \<ge> 4 then m_count0 s else m_count1 s) AND 255)) [0..<8];
          s = SHA1_update s [0x80];
          s = SHA1_pad s;
          s = SHA1_update s finalcount;
          s = s\<lparr>m_digest := map (\<lambda>i. ucast (drop_bit ((3 - i mod 4) * 8)
            (m_state s ! (i div 4)) AND 255)) [0..<20]\<rparr>;
          s = s\<lparr>m_buffer := memset (m_buffer s) 0 0 64, m_state := replicate 5 0,
                m_count0 := 0, m_count1 := 0\<rparr>
      in s\<lparr>m_state := SHA1_transform (m_state s) (m_buffer s)\<rparr>)"

text \<open>
  \<open>reportHash\<close>: each \<open>snprintf\<close> writes at most \<open>bufSize - 1\<close> characters of the two digits, and
  \<open>bufSize\<close> shrinks by two (for a \<open>bufSize\<close> of at least 40, so that it does not wrap).
\<close>

definition SHA1_reportHash :: "sha1_ctx \<Rightarrow> nat \<Rightarrow> string" where
  "SHA1_reportHash s bufSize =
     concat (map (\<lambda>i. take (bufSize - 2 * i - 1) (hex2 (m_digest s ! i))) [0..<20])"

definition SHA1_getHash :: "sha1_ctx \<Rightarrow> byte list" where
  "SHA1_getHash s = map (\<lambda>i. m_digest s ! i) [0..<20]"

text \<open>A fresh object, as the constructor leaves it (the arrays it does not set are taken as zero).\<close>

definition SHA1_new :: sha1_ctx where
  "SHA1_new = SHA1_reset \<lparr>m_state = replicate 5 0, m_count0 = 0, m_count1 = 0,
     m_buffer = replicate 64 0, m_digest = replicate 20 0\<rparr>"

definition GetDataSHA1 :: "byte list \<Rightarrow> string" where
  "GetDataSHA1 data =
     SHA1_reportHash (SHA1_final (data_loop SHA1_update (SHA1_reset SHA1_new) data 0)) 255"

text \<open>\<open>reads\<close> are the successive non-empty results of \<open>file.readFrom(szData, 1024, -1)\<close>.\<close>

definition GetFileSHA1 :: "byte list list option \<Rightarrow> string" where
  "GetFileSHA1 file = (case file of
     None \<Rightarrow> []
   | Some reads \<Rightarrow>
       SHA1_reportHash (SHA1_final (foldl SHA1_update (SHA1_reset SHA1_new) reads)) 255)"

section \<open>Reference: FIPS 180-4\<close>

definition fips1_f :: "nat \<Rightarrow> uint32 \<Rightarrow> uint32 \<Rightarrow> uint32 \<Rightarrow> uint32" where
  "fips1_f t x y z =
     (if t < 20 then (x AND y) XOR (NOT x AND z)
      else if t < 40 then x XOR y XOR z
      else if t < 60 then (x AND y) XOR (x AND z) XOR (y AND z)
      else x XOR y XOR z)"

definition fips1_K :: "nat \<Rightarrow> uint32" where
  "fips1_K t = (if t < 20 then 0x5A827999 else if t < 40 then 0x6ED9EBA1
     else if t < 60 then 0x8F1BBCDC else 0xCA62C1D6)"

definition fips1_round :: "nat \<Rightarrow> uint32 \<Rightarrow> uint32 list \<Rightarrow> uint32 list" where
  "fips1_round t w r =
     [word_rotl 5 (r ! 0) + fips1_f t (r ! 1) (r ! 2) (r ! 3) + r ! 4 + fips1_K t + w,
      r ! 0, word_rotl 30 (r ! 1), r ! 2, r ! 3]"

definition fips1_next :: "uint32 list \<Rightarrow> nat \<Rightarrow> uint32" where
  "fips1_next W t = word_rotl 1 (W ! (t - 3) XOR W ! (t - 8) XOR W ! (t - 14) XOR W ! (t - 16))"

definition fips_sha1_compress :: "uint32 list \<Rightarrow> uint32 list \<Rightarrow> uint32 list" where
  "fips_sha1_compress H block =
     (let W = schedule fips1_next block 80
      in map2 (+) H (fold (\<lambda>t. fips1_round t (W ! t)) [0..<80] H))"

section \<open>The unrolled rounds are the FIPS loop\<close>

text \<open>Line \<open>t\<close> of the unrolled code, with the positions of its registers computed.\<close>

definition sha1_line :: "nat \<Rightarrow> uint32 list \<times> uint32 list \<Rightarrow> uint32 list \<times> uint32 list" where
  "sha1_line t =
     (case [(0, 1, 2, 3, 4), (4, 0, 1, 2, 3), (3, 4, 0, 1, 2), (2, 3, 4, 0, 1), (1, 2, 3, 4, 0)]
        ! (t mod 5) of (v, w, x, y, z) \<Rightarrow>
      (if t < 16 then R0 else if t < 20 then R1 else if t < 40 then R2 else if t < 60 then R3 else R4)
        v w x y z t)"

lemma upt_80: "[0..<80] = [0,1,2,3,4,5,6,7,8,9,10,11,12,13,14,15,16,17,18,19,20,21,22,23,24,25,26,
  27,28,29,30,31,32,33,34,35,36,37,38,39,40,41,42,43,44,45,46,47,48,49,50,51,52,53,54,55,56,57,58,
  59,60,61,62,63,64,65,66,67,68,69,70,71,72,73,74,75,76,77,78,79 :: nat]"
  by code_simp

lemma sha1_lines_upt: "sha1_lines = map sha1_line [0..<80]"
  by (simp add: upt_80 sha1_lines_def sha1_line_def)

lemma upt_32: "[0..<32] = [0,1,2,3,4,5,6,7,8,9,10,11,12,13,14,15,16,17,18,19,20,21,22,23,24,25,26,
  27,28,29,30,31 :: nat]"
  by code_simp

lemma SHABLK0_be:
  assumes "length b = 4"
  shows "(rol32 (of_le32 b) 24 AND 0xFF00FF00) OR (rol32 (of_le32 b) 8 AND 0x00FF00FF) = of_be32 b"
proof (rule bit_word_eqI)
  fix n assume "n < LENGTH(32)"
  then have "n \<in> set [0..<32]" by simp
  moreover have "\<forall>n \<in> set [0..<32]. bit ((rol32 (of_le32 b) 24 AND 0xFF00FF00) OR (rol32 (of_le32 b) 8 AND 0x00FF00FF)) n =
      bit (of_be32 b) n"
    unfolding upt_32
    by (simp add: rol32_def bit_of_le32 bit_of_be32 assms bit_or_iff bit_and_iff bit_push_bit_iff bit_drop_bit_eq)
  ultimately show "bit ((rol32 (of_le32 b) 24 AND 0xFF00FF00) OR (rol32 (of_le32 b) 8 AND 0x00FF00FF)) n =
      bit (of_be32 b) n" by blast
qed
text \<open>
  The state before line \<open>t\<close>: the registers are the working variables rotated, and the circular
  block holds the last sixteen schedule words (and the words of the buffer not read yet).
\<close>

definition sha1_view :: "nat \<Rightarrow> uint32 list \<Rightarrow> uint32 list" where
  "sha1_view t r = rotate ((5 - t mod 5) mod 5) r"

definition sha1_window :: "uint32 list \<Rightarrow> uint32 list \<Rightarrow> nat \<Rightarrow> uint32 list \<Rightarrow> bool" where
  "sha1_window raw W t l \<longleftrightarrow> length l = 16 \<and>
     (\<forall>s < t. t \<le> s + 16 \<longrightarrow> l ! (s mod 16) = W ! s) \<and> (\<forall>s < 16. t \<le> s \<longrightarrow> l ! s = raw ! s)"

lemma sha1_window_0: "length raw = 16 \<Longrightarrow> sha1_window raw W 0 raw"
  by (simp add: sha1_window_def)

lemma sha1_window_SHABLK0:
  assumes "sha1_window raw W t l" and "t < 16"
    and "(rol32 (raw ! t) 24 AND 0xFF00FF00) OR (rol32 (raw ! t) 8 AND 0x00FF00FF) = W ! t"
  shows "sha1_window raw W (Suc t) (SHABLK0 l t)"
  using assms by (auto simp: sha1_window_def SHABLK0_def less_Suc_eq nth_list_update)

lemma sha1_window_SHABLK:
  assumes "sha1_window raw W t l" and "16 \<le> t" and "fips1_next W t = W ! t"
  shows "sha1_window raw W (Suc t) (SHABLK l t)"
proof -
  have len: "length l = 16" using assms(1) by (simp add: sha1_window_def)
  have old: "l ! (s mod 16) = W ! s" if "s < t" "t \<le> s + 16" for s
    using assms(1) that by (auto simp: sha1_window_def)
  have idx: "(t + k) mod 16 = (t - (16 - k)) mod 16" if "k \<le> 16" for k
  proof -
    have "t + k = t - (16 - k) + 16" using that assms(2) by simp
    then show ?thesis by (simp only: mod_add_self2)
  qed
  have at: "l ! ((t + k) mod 16) = W ! (t - (16 - k))" if "k < 16" for k
    unfolding idx [OF less_imp_le [OF that]] by (rule old) (use that assms(2) in linarith)+
  have "l ! ((t + 13) mod 16) = W ! (t - 3)" "l ! ((t + 8) mod 16) = W ! (t - 8)"
    "l ! ((t + 2) mod 16) = W ! (t - 14)" "l ! (t mod 16) = W ! (t - 16)"
    using at [of 13] at [of 8] at [of 2] at [of 0] by simp_all
  then have upd: "SHABLK l t = l[t mod 16 := W ! t]"
    using assms(3) by (simp add: SHABLK_def fips1_next_def rol32_rotl)
  have ne: "s mod 16 \<noteq> t mod 16" if "s < t" "Suc t \<le> s + 16" for s
  proof
    assume "s mod 16 = t mod 16"
    then have "16 dvd t - s" using that mod_eq_dvd_iff_nat [of s t 16] by simp
    with that show False by (auto dest: dvd_imp_le)
  qed
  have "SHABLK l t ! (s mod 16) = W ! s" if "s < Suc t" "Suc t \<le> s + 16" for s
    using that len old [of s] ne [of s] by (cases "s = t") (simp_all add: upd nth_list_update)
  then show ?thesis
    using assms(2) len by (auto simp: sha1_window_def SHABLK_def)
qed

lemma R_step_round:
  assumes "length (fst p) = 5"
    and "\<And>w x y. f w x y = fips1_f t w x y" and "k = fips1_K t"
    and "blk (snd p) t ! (t mod 16) = W"
    and "(v :: nat, w :: nat, x :: nat, y :: nat, z :: nat) = [(0, 1, 2, 3, 4), (4, 0, 1, 2, 3), (3, 4, 0, 1, 2), (2, 3, 4, 0, 1),
      (1, 2, 3, 4, 0)] ! (t mod 5)"
  shows "sha1_view (Suc t) (fst (R_step f k blk v w x y z t p)) = fips1_round t W (sha1_view t (fst p))"
proof -
  obtain a b c d e where r: "fst p = [a, b, c, d, e]"
    using list_length_5 [OF assms(1)] by blast
  have "t mod 5 < 5" by simp
  then consider "t mod 5 = 0" | "t mod 5 = 1" | "t mod 5 = 2" | "t mod 5 = 3" | "t mod 5 = 4"
    by linarith
  then show ?thesis
    by cases (use assms in \<open>simp_all add: r sha1_view_def R_step_def fips1_round_def Let_def
      rotate_drop_take rol32_rotl mod_Suc ac_simps\<close>)
qed

lemma length_R_step [simp]:
  "length (fst (R_step f k blk v w x y z t p)) = length (fst p)"
  "snd (R_step f k blk v w x y z t p) = blk (snd p) t"
  by (simp_all add: R_step_def Let_def)

lemma sha1_line_step:
  assumes len: "length (fst p) = 5" and win: "sha1_window raw W t (snd p)" and "t < 80"
    and W: "\<And>s. s < 16 \<Longrightarrow>
      (rol32 (raw ! s) 24 AND 0xFF00FF00) OR (rol32 (raw ! s) 8 AND 0x00FF00FF) = W ! s"
    "\<And>s. 16 \<le> s \<Longrightarrow> s < 80 \<Longrightarrow> fips1_next W s = W ! s"
  shows "length (fst (sha1_line t p)) = 5" and "sha1_window raw W (Suc t) (snd (sha1_line t p))"
    and "sha1_view (Suc t) (fst (sha1_line t p)) = fips1_round t (W ! t) (sha1_view t (fst p))"
proof -
  obtain v w x y z :: nat where pos: "(v, w, x, y, z) =
      [(0, 1, 2, 3, 4), (4, 0, 1, 2, 3), (3, 4, 0, 1, 2), (2, 3, 4, 0, 1), (1, 2, 3, 4, 0)] ! (t mod 5)"
    by (metis prod_cases5)
  define f where "f = (if t < 20 then (\<lambda>w x y. (w AND (x XOR y)) XOR y) else if t < 40 then (\<lambda>w x y. w XOR x XOR y)
    else if t < 60 then (\<lambda>w x y. ((w OR x) AND y) OR (w AND x)) else (\<lambda>w x y :: uint32. w XOR x XOR y))"
  define blk where "blk = (if t < 16 then SHABLK0 else SHABLK)"
  have line: "sha1_line t = R_step f (fips1_K t) blk v w x y z t"
    unfolding sha1_line_def pos [symmetric]
    by (simp add: R0_def R1_def R2_def R3_def R4_def f_def blk_def fips1_K_def)
  have f: "f w x y = fips1_f t w x y" for w x y
    by (rule bit_word_eqI) (auto simp: f_def fips1_f_def bit_simps)
  show win': "sha1_window raw W (Suc t) (snd (sha1_line t p))"
    unfolding line length_R_step(2) blk_def
    using sha1_window_SHABLK0 [OF win _ W(1)] sha1_window_SHABLK [OF win _ W(2)] assms(3) by simp
  then have "blk (snd p) t ! (t mod 16) = W ! t"
    unfolding line length_R_step(2) by (simp add: sha1_window_def)
  then show "sha1_view (Suc t) (fst (sha1_line t p)) = fips1_round t (W ! t) (sha1_view t (fst p))"
    unfolding line by (intro R_step_round [OF len f refl _ pos])
  show "length (fst (sha1_line t p)) = 5"
    by (simp add: line len)
qed

theorem SHA1_transform_fips:
  assumes "length H = 5" and "length b = 64"
  shows "SHA1_transform H b = fips_sha1_compress H (map of_be32 (pieces 4 b))"
proof -
  define raw where "raw = map of_le32 (pieces 4 b)"
  define block where "block = map of_be32 (pieces 4 b)"
  define W where "W = schedule fips1_next block 80"
  have pieces: "pieces 4 b = map (\<lambda>i. take 4 (drop (4 * i) b)) [0..<16]"
    using assms(2) by (simp add: pieces_eq_map)
  have len: "length raw = 16" "length block = 16"
    by (simp_all add: raw_def block_def pieces)
  have W1: "(rol32 (raw ! s) 24 AND 0xFF00FF00) OR (rol32 (raw ! s) 8 AND 0x00FF00FF) = W ! s"
    if "s < 16" for s
  proof -
    have "W ! s = block ! s"
      using nth_schedule [of block 16 80 s fips1_next] len that by (simp add: W_def)
    moreover have "length (take 4 (drop (4 * s) b)) = 4" using that assms(2) by simp
    ultimately show ?thesis
      using that by (simp add: raw_def block_def pieces SHABLK0_be)
  qed
  have W2: "fips1_next W s = W ! s" if "16 \<le> s" "s < 80" for s
  proof -
    let ?S = "schedule fips1_next block s"
    have "W ! s = schedule fips1_next block (Suc s) ! s"
      using nth_schedule [of block "Suc s" 80 s fips1_next] len that by (simp add: W_def)
    also have "\<dots> = fips1_next ?S s"
      using that len by (simp add: schedule_Suc nth_append length_schedule)
    also have "\<dots> = fips1_next W s"
      using nth_schedule [of block s 80 _ fips1_next] len that by (simp add: W_def fips1_next_def)
    finally show ?thesis ..
  qed
  have "length (fst (fold sha1_line [0..<t] (H, raw))) = 5 \<and>
      sha1_window raw W t (snd (fold sha1_line [0..<t] (H, raw))) \<and>
      sha1_view t (fst (fold sha1_line [0..<t] (H, raw))) =
        fold (\<lambda>t. fips1_round t (W ! t)) [0..<t] H" if "t \<le> 80" for t
    using that
  proof (induction t)
    case 0
    then show ?case using assms len by (simp add: sha1_window_0 sha1_view_def)
  next
    case (Suc t)
    then show ?case using sha1_line_step [OF _ _ _ W1 W2, of "fold sha1_line [0..<t] (H, raw)" t]
      by simp
  qed
  from this [of 80] have "fst (fold sha1_line [0..<80] (H, raw)) = fold (\<lambda>t. fips1_round t (W ! t)) [0..<80] H"
    by (simp add: sha1_view_def)
  then show ?thesis
    using assms by (simp add: SHA1_transform_def fips_sha1_compress_def sha1_lines_upt run_lines_map
        Let_def case_prod_beta W_def [symmetric] raw_def [symmetric] block_def [symmetric])
qed

section \<open>The object as a stream of blocks\<close>

definition sha1_compress :: "uint32 list \<Rightarrow> byte list \<Rightarrow> uint32 list" where
  "sha1_compress H b = fips_sha1_compress H (map of_be32 (pieces 4 b))"

definition sha1_inv :: "sha1_ctx \<Rightarrow> bool" where
  "sha1_inv s \<longleftrightarrow> length (m_state s) = 5 \<and> length (m_buffer s) = 64 \<and> 8 dvd unat (m_count0 s)"

definition sha1_total :: "sha1_ctx \<Rightarrow> nat" where
  "sha1_total s = pair64 (m_count1 s) (m_count0 s) div 8"

definition sha1_pend :: "sha1_ctx \<Rightarrow> byte list" where
  "sha1_pend s = take (sha1_total s mod 64) (m_buffer s)"

lemma length_sha1_compress [simp]: "length H = 5 \<Longrightarrow> length (sha1_compress H b) = 5"
proof -
  assume H: "length H = 5"
  have "length (fold (\<lambda>t. fips1_round t (W t)) ts H) = 5" for ts W
    using H by (induction ts rule: rev_induct) (simp_all add: fips1_round_def)
  with H show ?thesis by (simp add: sha1_compress_def fips_sha1_compress_def Let_def)
qed

lemma SHA1_transform_compress:
  "length H = 5 \<Longrightarrow> length b = 64 \<Longrightarrow> SHA1_transform H b = sha1_compress H b"
  by (simp add: SHA1_transform_fips sha1_compress_def)

lemma SHA1_blocks_absorb:
  assumes "length st = 5"
  shows "(fst (SHA1_blocks st data i), drop (snd (SHA1_blocks st data i)) data) =
      absorb 64 sha1_compress st (drop i data) \<and> length (fst (SHA1_blocks st data i)) = 5"
  using assms
proof (induction st data i rule: SHA1_blocks.induct)
  case (1 st data i)
  show ?case
  proof (cases "i + 63 < length data")
    case True
    let ?st = "sha1_compress st (take 64 (drop i data))"
    have len: "length (take 64 (drop i data)) = 64" using True by simp
    have "SHA1_blocks st data i = SHA1_blocks ?st data (i + 64)"
      using True "1.prems" len by (simp add: SHA1_blocks.simps [of st data i] SHA1_transform_compress)
    moreover have "absorb 64 sha1_compress st (drop i data) = absorb 64 sha1_compress ?st (drop (i + 64) data)"
    proof -
      have "\<not> length data - i < 64" using True by simp
      then show ?thesis by (simp add: absorb.simps [of 64 _ st "drop i data"] add.commute)
    qed
    moreover have "SHA1_transform st (take 64 (drop i data)) = ?st"
      using "1.prems" len by (simp add: SHA1_transform_compress)
    ultimately show ?thesis
      using "1.IH" [OF True] "1.prems" by simp
  next
    case False
    then show ?thesis
      using "1.prems" by (simp add: SHA1_blocks.simps [of st data i] absorb_short)
  qed
qed

lemma pair64_add_high: "pair64 (h + x) l = (pair64 h l + unat x * 2 ^ 32) mod 2 ^ 64"
proof -
  have "(unat h + unat x) mod 2 ^ 32 * 2 ^ 32 = ((unat h + unat x) * 2 ^ 32) mod (2 ^ 32 * 2 ^ 32)"
    by (rule mult_mod_left)
  then have "pair64 (h + x) l = ((unat h + unat x) * 2 ^ 32) mod 2 ^ 64 + unat l"
    by (simp add: pair64_def unat_word_ariths)
  also have "\<dots> = (((unat h + unat x) * 2 ^ 32) mod 2 ^ 64 + unat l) mod 2 ^ 64"
  proof -
    have "((unat h + unat x) * 2 ^ 32) mod 2 ^ 64 + unat l < 2 ^ 64"
      using calculation pair64_bound [of "h + x" l] by simp
    then show ?thesis by simp
  qed
  also have "\<dots> = ((unat h + unat x) * 2 ^ 32 + unat l) mod 2 ^ 64"
    by (rule mod_add_left_eq)
  also have "(unat h + unat x) * 2 ^ 32 + unat l = pair64 h l + unat x * 2 ^ 32"
    by (simp add: pair64_def algebra_simps)
  finally show ?thesis .
qed

lemma sha1_count:
  fixes l h :: uint32
  assumes "n < 2 ^ 32"
  shows "pair64 ((if l + push_bit 3 (of_nat n) < push_bit 3 (of_nat n) then h + 1 else h) + drop_bit 29 (of_nat n))
      (l + push_bit 3 (of_nat n)) = (pair64 h l + 8 * n) mod 2 ^ 64"
proof -
  let ?d = "push_bit 3 (of_nat n) :: uint32"
  have d: "unat ?d = 8 * n mod 2 ^ 32"
    by (simp add: push_bit_eq_mult unat_word_ariths unsigned_of_nat take_bit_eq_mod mod_mult_right_eq mult.commute)
  have u: "unat (drop_bit 29 (of_nat n) :: uint32) = 8 * n div 2 ^ 32"
  proof -
    have "unat (drop_bit 29 (of_nat n) :: uint32) = n div 2 ^ 29"
      using assms by (simp add: unsigned_drop_bit_eq unsigned_of_nat take_bit_eq_mod drop_bit_eq_div unat_div)
    also have "\<dots> = 8 * n div (8 * 2 ^ 29)"
      by (rule div_mult_mult1 [symmetric]) simp
    finally show ?thesis by simp
  qed
  have "pair64 ((if l + ?d < ?d then h + 1 else h) + drop_bit 29 (of_nat n)) (l + ?d) =
      ((pair64 h l + unat ?d) mod 2 ^ 64 + unat (drop_bit 29 (of_nat n) :: uint32) * 2 ^ 32) mod 2 ^ 64"
    by (simp only: pair64_add_high pair64_add [OF word_add_overflow])
  also have "\<dots> = (pair64 h l + unat ?d + unat (drop_bit 29 (of_nat n) :: uint32) * 2 ^ 32) mod 2 ^ 64"
    by (rule mod_add_left_eq)
  also have "pair64 h l + unat ?d + unat (drop_bit 29 (of_nat n) :: uint32) * 2 ^ 32 = pair64 h l + 8 * n"
    by (simp only: d u add.assoc mod_div_mult_eq)
  finally show ?thesis .
qed

lemma sha1_inv_bits:
  assumes "sha1_inv s"
  shows "pair64 (m_count1 s) (m_count0 s) = 8 * sha1_total s"
    and "unat (drop_bit 3 (m_count0 s) AND 63) = sha1_total s mod 64"
    and "sha1_total s < 2 ^ 61"
proof -
  have dvd: "8 dvd unat (m_count0 s)" using assms by (simp add: sha1_inv_def)
  have p: "pair64 (m_count1 s) (m_count0 s) = 8 * (unat (m_count1 s) * 2 ^ 29) + unat (m_count0 s)"
    by (simp add: pair64_def)
  show 1: "pair64 (m_count1 s) (m_count0 s) = 8 * sha1_total s"
    unfolding sha1_total_def using dvd by (simp only: p) auto
  have "sha1_total s = unat (m_count1 s) * 2 ^ 29 + unat (m_count0 s) div 8"
    unfolding sha1_total_def p by simp
  moreover have "(64 * (unat (m_count1 s) * 2 ^ 23) + unat (m_count0 s) div 8) mod 64 = unat (m_count0 s) div 8 mod 64"
    by (rule mod_mult_self4)
  ultimately show "unat (drop_bit 3 (m_count0 s) AND 63) = sha1_total s mod 64"
    by (simp add: and_63 mult.commute)
  show "sha1_total s < 2 ^ 61"
    using pair64_bound [of "m_count1 s" "m_count0 s"] 1 by simp
qed

lemma SHA1_update_count1:
  "m_count1 (SHA1_update s d) =
     (if m_count0 s + push_bit 3 (of_nat (length d)) < push_bit 3 (of_nat (length d))
      then m_count1 s + 1 else m_count1 s) + drop_bit 29 (of_nat (length d))"
  by (simp add: SHA1_update_def Let_def split: prod.split)

lemma SHA1_update_count:
  assumes "sha1_inv s" and "length d < 2 ^ 32"
  shows "sha1_total (SHA1_update s d) = (sha1_total s + length d) mod 2 ^ 61"
    and "8 dvd unat (m_count0 (SHA1_update s d))"
proof -
  let ?s = "SHA1_update s d"
  have "pair64 (m_count1 ?s) (m_count0 ?s) = (8 * sha1_total s + 8 * length d) mod 2 ^ 64"
    using sha1_count [OF assms(2), of "m_count0 s" "m_count1 s"]
    by (simp only: SHA1_update_count0 SHA1_update_count1 sha1_inv_bits(1) [OF assms(1)])
  also have "\<dots> = (8 * (sha1_total s + length d)) mod (8 * 2 ^ 61)" by simp
  also have "\<dots> = 8 * ((sha1_total s + length d) mod 2 ^ 61)"
    by (rule mult_mod_right [symmetric])
  finally have p: "pair64 (m_count1 ?s) (m_count0 ?s) = 8 * ((sha1_total s + length d) mod 2 ^ 61)" .
  then show "sha1_total (SHA1_update s d) = (sha1_total s + length d) mod 2 ^ 61"
    by (simp add: sha1_total_def)
  have "8 dvd 8 * (unat (m_count1 ?s) * 2 ^ 29) + unat (m_count0 ?s)"
    using p by (simp add: pair64_def mult.commute)
  then show "8 dvd unat (m_count0 (SHA1_update s d))"
    by (simp only: dvd_add_right_iff dvd_triv_left)
qed

lemma SHA1_update_laws:
  assumes "sha1_inv s" and "length d < 2 ^ 32"
  shows "sha1_inv (SHA1_update s d) \<and>
    (m_state (SHA1_update s d), sha1_pend (SHA1_update s d)) =
      absorb 64 sha1_compress (m_state s) (sha1_pend s @ d)"
proof -
  define j where "j = sha1_total s mod 64"
  have j: "j < 64" by (simp add: j_def)
  have s: "length (m_state s) = 5" "length (m_buffer s) = 64"
    using assms by (simp_all add: sha1_inv_def)
  note bits = sha1_inv_bits(2) [OF assms(1), folded j_def]
  have tot: "sha1_total (SHA1_update s d) mod 64 = (j + length d) mod 64"
  proof -
    have "(sha1_total s + length d) mod (64 * 36028797018963968) mod 64 = (sha1_total s + length d) mod 64"
      by (rule mod_mod_cancel) simp
    then show ?thesis
      by (simp add: SHA1_update_count(1) [OF assms] j_def mod_add_left_eq)
  qed
  have pend: "sha1_pend s = take j (m_buffer s)" by (simp add: sha1_pend_def j_def)
  show ?thesis
  proof (cases "j + length d > 63")
    case False
    let ?buf = "memcpy (m_buffer s) j d"
    have buf: "m_buffer (SHA1_update s d) = ?buf" "m_state (SHA1_update s d) = m_state s"
      using False bits by (simp_all add: SHA1_update_def Let_def)
    have "sha1_inv (SHA1_update s d)"
      using False s SHA1_update_count(2) [OF assms] by (simp add: sha1_inv_def buf)
    moreover have "sha1_pend (SHA1_update s d) = take j (m_buffer s) @ d"
      using False s by (simp add: sha1_pend_def buf tot)
    ultimately show ?thesis
      using False s by (simp add: buf absorb_short pend)
  next
    case True
    let ?i = "64 - j"
    let ?buf = "take j (m_buffer s) @ take ?i d"
    have b: "memcpy (m_buffer s) j (take ?i d) = ?buf" "length ?buf = 64"
      using True s j by (simp_all add: memcpy_def)
    define st where "st = sha1_compress (m_state s) ?buf"
    have st: "SHA1_transform (m_state s) ?buf = st" "length st = 5"
      using s b by (simp_all add: st_def SHA1_transform_compress)
    obtain st' i where blk: "SHA1_blocks st d ?i = (st', i)" by (cases "SHA1_blocks st d ?i")
    note ab = SHA1_blocks_absorb [OF st(2), of d ?i, unfolded blk fst_conv snd_conv]
    have upd: "m_state (SHA1_update s d) = st'" "m_buffer (SHA1_update s d) = memcpy ?buf 0 (drop i d)"
      using True bits b st blk by (simp_all add: SHA1_update_def Let_def)
    have rest: "length (drop i d) = length (drop ?i d) mod 64"
      using length_snd_absorb [of 64 sha1_compress st "drop ?i d"] ab by (metis snd_conv zero_less_numeral)
    also have "length (drop ?i d) mod 64 = (j + length d) mod 64"
    proof -
      have "j + length d = length (drop ?i d) + 64" using True j by simp
      then show ?thesis by (simp only: mod_add_self2)
    qed
    finally have rest: "length (drop i d) = (j + length d) mod 64" .
    then have short: "length (drop i d) < 64" by simp
    have "sha1_inv (SHA1_update s d)"
      using short b ab SHA1_update_count(2) [OF assms] by (simp add: sha1_inv_def upd)
    moreover have "sha1_pend (SHA1_update s d) = drop i d"
      unfolding sha1_pend_def upd tot rest [symmetric] by (simp add: memcpy_def)
    moreover have "absorb 64 sha1_compress (m_state s) (sha1_pend s @ d) = (st', drop i d)"
    proof -
      have "sha1_pend s @ d = ?buf @ drop ?i d" by (simp add: pend)
      then have "absorb 64 sha1_compress (m_state s) (sha1_pend s @ d) = absorb 64 sha1_compress st (drop ?i d)"
        unfolding st_def using absorb_block [of 64 ?buf sha1_compress "m_state s" "drop ?i d"] b(2) by simp
      then show ?thesis using ab by simp
    qed
    ultimately show ?thesis by (simp add: upd)
  qed
qed

interpretation sha1: block_stream 64 sha1_compress SHA1_update sha1_inv m_state sha1_pend
  sha1_total "2 ^ 61" "2 ^ 32"
  by unfold_locales
    (use SHA1_update_laws SHA1_update_count sha1_inv_bits(3) in \<open>auto simp: sha1_pend_def sha1_inv_def\<close>)

section \<open>Padding\<close>

lemma ucast_and_255: "(ucast (x AND 255) :: byte) = ucast x" for x :: uint32
proof -
  have "x AND 255 = take_bit 8 x"
    by (simp add: take_bit_eq_mask mask_eq_exp_minus_1)
  then show ?thesis
    by (simp add: bit_eq_iff bit_simps)
qed

lemma sha1_finalcount:
  "map (\<lambda>i. ucast (drop_bit ((3 - i mod 4) * 8) (if i \<ge> 4 then c0 else c1 :: uint32) AND 255) :: byte) [0..<8] =
   be32 c1 @ be32 c0"
  by (simp add: upt_8 ucast_and_255 be32_def)

lemma sha1_digest_bytes:
  assumes "length H = 5"
  shows "map (\<lambda>i. ucast (drop_bit ((3 - i mod 4) * 8) (H ! (i div 4)) AND 255) :: byte) [0..<20] = concat (map be32 H)"
proof -
  have "[0..<20] = [0,1,2,3,4,5,6,7,8,9,10,11,12,13,14,15,16,17,18,19 :: nat]" by code_simp
  then show ?thesis
    by (subst (2) list_length_5 [OF assms]) (simp add: ucast_and_255 be32_def)
qed

lemma SHA1_pad_feed:
  "SHA1_pad s = foldl SHA1_update s (replicate ((120 - unat (m_count0 s AND 504) div 8) mod 64) [0])"
proof (induction s rule: SHA1_pad.induct)
  case (1 s)
  define k where "k = unat (m_count0 s) div 8 mod 64"
  have k: "unat (m_count0 s AND 504) div 8 = k" "k < 64" by (simp_all add: and_504 k_def)
  show ?case
  proof (cases "m_count0 s AND 504 = 448")
    case True
    then show ?thesis by (simp add: SHA1_pad.simps [of s])
  next
    case False
    let ?s = "SHA1_update s [0]"
    have c: "m_count0 ?s = m_count0 s + 8" by (simp add: SHA1_update_count0 push_bit_eq_mult)
    have lt: "(120 - unat (m_count0 ?s AND 504) div 8) mod 64 < (120 - k) mod 64"
      using SHA1_pad_measure [OF False] k by (simp add: c)
    have "(120 - unat (m_count0 ?s AND 504) div 8) mod 64 + 1 = (120 - k) mod 64"
    proof -
      have "unat (m_count0 ?s AND 504) div 8 = (k + 1) mod 64"
        by (simp add: c and_504 add_8_div k_def)
      moreover have "((120 - (k + 1) mod 64) + 1) mod 64 = (120 - k) mod 64"
      proof (cases "k = 63")
        case False
        then have "(k + 1) mod 64 = k + 1" "120 - (k + 1) + 1 = 120 - k" using k by simp_all
        then show ?thesis by simp
      qed simp
      ultimately show ?thesis
        using lt by (simp add: mod_Suc split: if_splits)
    qed
    then have "replicate ((120 - k) mod 64) [0 :: byte] =
        [0] # replicate ((120 - unat (m_count0 ?s AND 504) div 8) mod 64) [0]"
      by (simp flip: replicate_Suc)
    then show ?thesis
      using "1.IH" [OF False] False by (simp add: SHA1_pad.simps [of s] k)
  qed
qed

definition sha1_hex :: "uint32 list \<Rightarrow> string" where
  "sha1_hex H = concat (map hex2 (concat (map be32 H)))"

lemma SHA1_reportHash_full:
  assumes "length (m_digest s) = 20" and "40 < bufSize"
  shows "SHA1_reportHash s bufSize = concat (map hex2 (m_digest s))"
proof -
  have "take (bufSize - 2 * i - 1) (hex2 b) = hex2 b" if "i < 20" for i b
    using that assms(2) by (simp add: hex2_def)
  then have "map (\<lambda>i. take (bufSize - 2 * i - 1) (hex2 (m_digest s ! i))) [0..<20] =
      map (\<lambda>i. hex2 (m_digest s ! i)) [0..<20]" by simp
  also have "\<dots> = map hex2 (m_digest s)"
    using assms(1) by (metis map_map map_nth comp_def map_cong)
  finally show ?thesis by (simp only: SHA1_reportHash_def)
qed

lemma sha1_final_digest:
  assumes "sha1_inv s"
  shows "SHA1_reportHash (SHA1_final s) 255 = sha1_hex (foldl sha1_compress (m_state s)
    (pieces 64 (sha1_pend s @ pad_tail 64 8 sha_length_field (sha1_total s))))"
proof -
  define z where "z = (64 - (sha1_total s + 1 + 8) mod 64) mod 64"
  let ?fc = "be32 (m_count1 s) @ be32 (m_count0 s)"
  let ?ds = "[0x80] # replicate z [0] @ [?fc]"
  let ?s1 = "SHA1_update s [0x80]"
  have s1: "sha1_inv ?s1" using SHA1_update_laws [OF assms, of "[0x80]"] by simp
  have k: "unat (m_count0 ?s1 AND 504) div 8 = (sha1_total s + 1) mod 64"
  proof -
    have "unat (m_count0 ?s1 AND 504) div 8 = sha1_total ?s1 mod 64"
      using sha1_inv_bits(2) [OF s1] by (simp add: and_504 and_63)
    also have "\<dots> = (sha1_total s + 1) mod 64"
    proof -
      have "(sha1_total s + 1) mod (64 * 36028797018963968) mod 64 = (sha1_total s + 1) mod 64"
        by (rule mod_mod_cancel) simp
      then show ?thesis using SHA1_update_count(1) [OF assms, of "[0x80]"] by simp
    qed
    finally show ?thesis .
  qed
  have z: "(120 - (sha1_total s + 1) mod 64) mod 64 = z"
  proof -
    define a where "a = (sha1_total s + 1) mod 64"
    have a: "a < 64" by (simp add: a_def)
    have "(sha1_total s + 1 + 8) mod 64 = (a + 8) mod 64"
      unfolding a_def by (rule mod_add_left_eq [symmetric])
    moreover have "(120 - a) mod 64 = (64 - (a + 8) mod 64) mod 64"
      using a by (cases "a < 56"; cases "a = 56") (simp_all add: le_mod_geq)
    ultimately show ?thesis by (simp add: z_def a_def)
  qed
  let ?f = "foldl SHA1_update s ?ds"
  have fin: "SHA1_update (SHA1_pad ?s1) ?fc = ?f"
    unfolding SHA1_pad_feed [of ?s1] k z by simp
  have tail: "concat ?ds = pad_tail 64 8 sha_length_field (sha1_total s)"
  proof -
    have "?fc = sha_length_field (sha1_total s)"
      by (simp only: sha_length_field_def sha1_inv_bits(1) [OF assms, symmetric] be64_pair64)
    moreover have "concat (replicate z [0 :: byte]) = replicate z 0" by (induction z) simp_all
    ultimately show ?thesis by (simp add: pad_tail_def z_def)
  qed
  have "\<forall>d \<in> set ?ds. length d < 2 ^ 32" by auto
  from sha1.feed [OF assms this] have f: "sha1_inv ?f"
    and "(m_state ?f, sha1_pend ?f) =
      absorb 64 sha1_compress (m_state s) (sha1_pend s @ pad_tail 64 8 sha_length_field (sha1_total s))"
    unfolding tail by blast+
  moreover have "64 dvd length (sha1_pend s @ pad_tail 64 8 sha_length_field (sha1_total s))"
  proof -
    have "64 dvd sha1_total s + length (pad_tail 64 8 sha_length_field (sha1_total s))"
      by (rule pad_tail_dvd) simp_all
    moreover have "length (sha1_pend s) = sha1_total s mod 64"
      using assms by (simp add: sha1_pend_def sha1_inv_def)
    ultimately show ?thesis by (simp add: dvd_eq_mod_eq_0 mod_add_left_eq)
  qed
  ultimately have st: "m_state ?f = foldl sha1_compress (m_state s)
    (pieces 64 (sha1_pend s @ pad_tail 64 8 sha_length_field (sha1_total s)))"
    by (simp add: absorb_pieces)
  have len: "length (m_state ?f) = 5" using f by (simp add: sha1_inv_def)
  have "m_digest (SHA1_final s) = concat (map be32 (m_state ?f))"
    unfolding SHA1_final_def sha1_finalcount Let_def fin
    using sha1_digest_bytes [OF len] by simp
  moreover have "length (concat (map be32 (m_state ?f))) = 20"
    using len by (simp add: length_concat o_def sum_list_triv)
  ultimately show ?thesis
    using SHA1_reportHash_full [of "SHA1_final s" 255] unfolding sha1_hex_def st [symmetric] by simp
qed

interpretation sha1d: block_digest 64 sha1_compress SHA1_update sha1_inv m_state sha1_pend
  sha1_total "2 ^ 61" "2 ^ 32" 8 sha_length_field "\<lambda>s. SHA1_reportHash (SHA1_final s) 255" sha1_hex
proof unfold_locales
  show "sha_length_field (k mod 2 ^ 61) = sha_length_field k" for k
  proof -
    have "(8 * k) mod (8 * 2 ^ 61) = 8 * (k mod 2 ^ 61)" by (rule mult_mod_right [symmetric])
    then have "8 * (k mod 2 ^ 61) = 8 * k mod 2 ^ 64" by simp
    then show ?thesis
      using of_nat_mod_word [where 'a = 64, of 64 "8 * k"] by (simp only: sha_length_field_def) simp
  qed
qed (simp_all add: sha1_final_digest)

definition sha1_H0 :: "uint32 list" where
  "sha1_H0 = [0x67452301, 0xEFCDAB89, 0x98BADCFE, 0x10325476, 0xC3D2E1F0]"

definition fips_sha1 :: "byte list \<Rightarrow> string" where
  "fips_sha1 msg = sha1_hex (md_hash 64 8 sha_length_field sha1_compress sha1_H0 msg)"

lemma sha1_init_laws:
  "sha1_inv (SHA1_reset SHA1_new)" "sha1_pend (SHA1_reset SHA1_new) = []"
  "sha1_total (SHA1_reset SHA1_new) = 0" "m_state (SHA1_reset SHA1_new) = sha1_H0"
  by (simp_all add: sha1_inv_def SHA1_reset_def SHA1_new_def sha1_pend_def sha1_total_def
      pair64_def sha1_H0_def)

lemma sha1_data_digest: "GetDataSHA1 data = fips_sha1 data"
  using sha1d.digest_data_loop [OF sha1_init_laws(1-3)]
  by (simp add: GetDataSHA1_def fips_sha1_def sha1_init_laws)

lemma sha1_file_digest:
  assumes "\<forall>d \<in> set reads. length d \<le> 1024"
  shows "GetFileSHA1 (Some reads) = fips_sha1 (concat reads)"
proof -
  have "\<forall>d \<in> set reads. length d < 2 ^ 32"
    using assms by fastforce
  from sha1d.digest [OF sha1_init_laws(1-3) this] show ?thesis
    by (simp add: GetFileSHA1_def fips_sha1_def sha1_init_laws)
qed

section \<open>Properties\<close>

text \<open>Property C2: \<open>GetDataSHA1\<close> is the SHA-1 of FIPS 180-4, in lower case hexadecimal, for every
  input.\<close>

theorem GetDataSHA1_fips: "GetDataSHA1 data = fips_sha1 data"
  by (rule sha1_data_digest)

text \<open>\<open>GetFileSHA1\<close> gives the digest of the contents of the file, however its
  contents are cut by the reads.\<close>

theorem GetFileSHA1_fips:
  assumes "\<forall>d \<in> set reads. length d \<le> 1024"
  shows "GetFileSHA1 (Some reads) = fips_sha1 (concat reads)"
  using assms by (rule sha1_file_digest)

lemma GetFileSHA1_fips_witness:
  "GetFileSHA1 (Some [[97], [98, 99]]) = fips_sha1 [97, 98, 99]"
  using GetFileSHA1_fips [of "[[97], [98, 99]]"] by simp

end
