(* ===== verification/Md5.thy ===== *)
theory Md5
  imports Stream_Digest
begin

text \<open>
  Model of \<^verbatim>\<open>src/src/md5.cpp\<close>: the class \<open>MD5\<close> with its byte counter in two words, the unrolled
  \<open>MD5Transform\<close>, the buffering \<open>MD5Update\<close>, the padding of \<open>MD5Final\<close>, and
  \<open>GetDataMD5\<close> / \<open>GetFileMD5\<close>. The buffer \<open>in\<close> is memory: a list of 64 bytes, whose 32-bit words
  depend on the byte order of the host, which is the parameter \<open>big\<close> (the member \<open>bigEndian_\<close>,
  set from \<open>ByteOrder::IsHostBigEndian\<close>). The reference is RFC 1321, and the digest is the same on
  both kinds of host. The registers \<open>a .. d\<close> are the positions \<open>0 .. 3\<close> of a list.
\<close>

section \<open>\<open>MD5Transform\<close>\<close>

definition F1 :: "uint32 \<Rightarrow> uint32 \<Rightarrow> uint32 \<Rightarrow> uint32" where
  "F1 x y z = z XOR (x AND (y XOR z))"

definition F2 :: "uint32 \<Rightarrow> uint32 \<Rightarrow> uint32 \<Rightarrow> uint32" where
  "F2 x y z = F1 z x y"

definition F3 :: "uint32 \<Rightarrow> uint32 \<Rightarrow> uint32 \<Rightarrow> uint32" where
  "F3 x y z = x XOR y XOR z"

definition F4 :: "uint32 \<Rightarrow> uint32 \<Rightarrow> uint32 \<Rightarrow> uint32" where
  "F4 x y z = y XOR (x OR NOT z)"

definition MD5STEP ::
  "(uint32 \<Rightarrow> uint32 \<Rightarrow> uint32 \<Rightarrow> uint32) \<Rightarrow> nat \<Rightarrow> nat \<Rightarrow> nat \<Rightarrow> nat \<Rightarrow> uint32 \<Rightarrow> nat \<Rightarrow>
   uint32 list \<Rightarrow> uint32 list" where
  "MD5STEP f w x y z input s r =
     (let r' = r[w := r ! w + (f (r ! x) (r ! y) (r ! z) + input)]
      in r'[w := rol32 (r' ! w) s + r' ! x])"

definition md5_lines :: "uint32 list \<Rightarrow> (uint32 list \<Rightarrow> uint32 list) list" where
  "md5_lines m = [
     MD5STEP F1 0 1 2 3 (m ! 0 + 0xd76aa478) 7, MD5STEP F1 3 0 1 2 (m ! 1 + 0xe8c7b756) 12,
     MD5STEP F1 2 3 0 1 (m ! 2 + 0x242070db) 17, MD5STEP F1 1 2 3 0 (m ! 3 + 0xc1bdceee) 22,
     MD5STEP F1 0 1 2 3 (m ! 4 + 0xf57c0faf) 7, MD5STEP F1 3 0 1 2 (m ! 5 + 0x4787c62a) 12,
     MD5STEP F1 2 3 0 1 (m ! 6 + 0xa8304613) 17, MD5STEP F1 1 2 3 0 (m ! 7 + 0xfd469501) 22,
     MD5STEP F1 0 1 2 3 (m ! 8 + 0x698098d8) 7, MD5STEP F1 3 0 1 2 (m ! 9 + 0x8b44f7af) 12,
     MD5STEP F1 2 3 0 1 (m ! 10 + 0xffff5bb1) 17, MD5STEP F1 1 2 3 0 (m ! 11 + 0x895cd7be) 22,
     MD5STEP F1 0 1 2 3 (m ! 12 + 0x6b901122) 7, MD5STEP F1 3 0 1 2 (m ! 13 + 0xfd987193) 12,
     MD5STEP F1 2 3 0 1 (m ! 14 + 0xa679438e) 17, MD5STEP F1 1 2 3 0 (m ! 15 + 0x49b40821) 22,
     MD5STEP F2 0 1 2 3 (m ! 1 + 0xf61e2562) 5, MD5STEP F2 3 0 1 2 (m ! 6 + 0xc040b340) 9,
     MD5STEP F2 2 3 0 1 (m ! 11 + 0x265e5a51) 14, MD5STEP F2 1 2 3 0 (m ! 0 + 0xe9b6c7aa) 20,
     MD5STEP F2 0 1 2 3 (m ! 5 + 0xd62f105d) 5, MD5STEP F2 3 0 1 2 (m ! 10 + 0x2441453) 9,
     MD5STEP F2 2 3 0 1 (m ! 15 + 0xd8a1e681) 14, MD5STEP F2 1 2 3 0 (m ! 4 + 0xe7d3fbc8) 20,
     MD5STEP F2 0 1 2 3 (m ! 9 + 0x21e1cde6) 5, MD5STEP F2 3 0 1 2 (m ! 14 + 0xc33707d6) 9,
     MD5STEP F2 2 3 0 1 (m ! 3 + 0xf4d50d87) 14, MD5STEP F2 1 2 3 0 (m ! 8 + 0x455a14ed) 20,
     MD5STEP F2 0 1 2 3 (m ! 13 + 0xa9e3e905) 5, MD5STEP F2 3 0 1 2 (m ! 2 + 0xfcefa3f8) 9,
     MD5STEP F2 2 3 0 1 (m ! 7 + 0x676f02d9) 14, MD5STEP F2 1 2 3 0 (m ! 12 + 0x8d2a4c8a) 20,
     MD5STEP F3 0 1 2 3 (m ! 5 + 0xfffa3942) 4, MD5STEP F3 3 0 1 2 (m ! 8 + 0x8771f681) 11,
     MD5STEP F3 2 3 0 1 (m ! 11 + 0x6d9d6122) 16, MD5STEP F3 1 2 3 0 (m ! 14 + 0xfde5380c) 23,
     MD5STEP F3 0 1 2 3 (m ! 1 + 0xa4beea44) 4, MD5STEP F3 3 0 1 2 (m ! 4 + 0x4bdecfa9) 11,
     MD5STEP F3 2 3 0 1 (m ! 7 + 0xf6bb4b60) 16, MD5STEP F3 1 2 3 0 (m ! 10 + 0xbebfbc70) 23,
     MD5STEP F3 0 1 2 3 (m ! 13 + 0x289b7ec6) 4, MD5STEP F3 3 0 1 2 (m ! 0 + 0xeaa127fa) 11,
     MD5STEP F3 2 3 0 1 (m ! 3 + 0xd4ef3085) 16, MD5STEP F3 1 2 3 0 (m ! 6 + 0x4881d05) 23,
     MD5STEP F3 0 1 2 3 (m ! 9 + 0xd9d4d039) 4, MD5STEP F3 3 0 1 2 (m ! 12 + 0xe6db99e5) 11,
     MD5STEP F3 2 3 0 1 (m ! 15 + 0x1fa27cf8) 16, MD5STEP F3 1 2 3 0 (m ! 2 + 0xc4ac5665) 23,
     MD5STEP F4 0 1 2 3 (m ! 0 + 0xf4292244) 6, MD5STEP F4 3 0 1 2 (m ! 7 + 0x432aff97) 10,
     MD5STEP F4 2 3 0 1 (m ! 14 + 0xab9423a7) 15, MD5STEP F4 1 2 3 0 (m ! 5 + 0xfc93a039) 21,
     MD5STEP F4 0 1 2 3 (m ! 12 + 0x655b59c3) 6, MD5STEP F4 3 0 1 2 (m ! 3 + 0x8f0ccc92) 10,
     MD5STEP F4 2 3 0 1 (m ! 10 + 0xffeff47d) 15, MD5STEP F4 1 2 3 0 (m ! 1 + 0x85845dd1) 21,
     MD5STEP F4 0 1 2 3 (m ! 8 + 0x6fa87e4f) 6, MD5STEP F4 3 0 1 2 (m ! 15 + 0xfe2ce6e0) 10,
     MD5STEP F4 2 3 0 1 (m ! 6 + 0xa3014314) 15, MD5STEP F4 1 2 3 0 (m ! 13 + 0x4e0811a1) 21,
     MD5STEP F4 0 1 2 3 (m ! 4 + 0xf7537e82) 6, MD5STEP F4 3 0 1 2 (m ! 11 + 0xbd3af235) 10,
     MD5STEP F4 2 3 0 1 (m ! 2 + 0x2ad7d2bb) 15, MD5STEP F4 1 2 3 0 (m ! 9 + 0xeb86d391) 21]"

definition MD5Transform :: "uint32 list \<Rightarrow> uint32 list \<Rightarrow> uint32 list" where
  "MD5Transform buf m = map2 (+) buf (run_lines (md5_lines m) (take 4 buf))"

section \<open>The context and its operations\<close>

record md5_ctx =
  md5_buf :: "uint32 list"
  md5_bytes0 :: uint32
  md5_bytes1 :: uint32
  md5_in :: "byte list"

definition host_word :: "bool \<Rightarrow> byte list \<Rightarrow> uint32" where
  "host_word big b = (if big then of_be32 b else of_le32 b)"

definition host_bytes :: "bool \<Rightarrow> uint32 \<Rightarrow> byte list" where
  "host_bytes big w = (if big then be32 w else le32 w)"

definition words_of :: "bool \<Rightarrow> byte list \<Rightarrow> uint32 list" where
  "words_of big mem = map (host_word big) (pieces 4 mem)"

definition byteSwap :: "bool \<Rightarrow> uint32 list \<Rightarrow> nat \<Rightarrow> uint32 list" where
  "byteSwap big buf words =
     (if \<not> big then buf
      else map (\<lambda>w. of_le32 (host_bytes big w)) (take words buf) @ drop words buf)"

definition MD5Init :: "md5_ctx \<Rightarrow> md5_ctx" where
  "MD5Init ctx = ctx\<lparr>md5_buf := [0x67452301, 0xefcdab89, 0x98badcfe, 0x10325476],
     md5_bytes0 := 0, md5_bytes1 := 0\<rparr>"

text \<open>The two calls \<open>byteSwap(ctx->in, 16); MD5Transform(ctx->buf, ctx->in);\<close>.\<close>

definition MD5_swap_transform :: "bool \<Rightarrow> md5_ctx \<Rightarrow> md5_ctx" where
  "MD5_swap_transform big ctx =
     (let w = byteSwap big (words_of big (md5_in ctx)) 16
      in ctx\<lparr>md5_in := concat (map (host_bytes big) w), md5_buf := MD5Transform (md5_buf ctx) w\<rparr>)"

text \<open>The loop \<open>while (len >= 64)\<close> and the \<open>memcpy\<close> of the remaining bytes.\<close>

function MD5_blocks :: "bool \<Rightarrow> md5_ctx \<Rightarrow> byte list \<Rightarrow> md5_ctx" where
  "MD5_blocks big ctx buf =
     (if 64 \<le> length buf
      then MD5_blocks big
        (MD5_swap_transform big (ctx\<lparr>md5_in := memcpy (md5_in ctx) 0 (take 64 buf)\<rparr>)) (drop 64 buf)
      else ctx\<lparr>md5_in := memcpy (md5_in ctx) 0 buf\<rparr>)"
  by pat_completeness auto
termination
  by (relation "measure (\<lambda>(big, ctx, buf). length buf)") auto

declare MD5_blocks.simps [simp del]

definition MD5Update :: "bool \<Rightarrow> md5_ctx \<Rightarrow> byte list \<Rightarrow> md5_ctx" where
  "MD5Update big ctx buf =
     (let t = md5_bytes0 ctx;
          b0 = t + of_nat (length buf);
          ctx = ctx\<lparr>md5_bytes0 := b0,
                    md5_bytes1 := (if b0 < t then md5_bytes1 ctx + 1 else md5_bytes1 ctx)\<rparr>;
          t = 64 - unat (t AND 0x3f)
      in if t > length buf
         then ctx\<lparr>md5_in := memcpy (md5_in ctx) (64 - t) buf\<rparr>
         else MD5_blocks big
           (MD5_swap_transform big (ctx\<lparr>md5_in := memcpy (md5_in ctx) (64 - t) (take t buf)\<rparr>))
           (drop t buf))"

definition MD5Final :: "bool \<Rightarrow> md5_ctx \<Rightarrow> byte list \<times> md5_ctx" where
  "MD5Final big ctx =
     (let count = unat (md5_bytes0 ctx AND 0x3f);
          ctx = ctx\<lparr>md5_in := (md5_in ctx)[count := 0x80]\<rparr>;
          p = count + 1;
          count = 56 - 1 - int count;
          (ctx, p, count) =
            (if count < 0
             then (MD5_swap_transform big (ctx\<lparr>md5_in := memset (md5_in ctx) p 0 (nat (count + 8))\<rparr>), 0, 56)
             else (ctx, p, count));
          ctx = ctx\<lparr>md5_in := memset (md5_in ctx) p 0 (nat count)\<rparr>;
          w = byteSwap big (words_of big (md5_in ctx)) 14;
          w = w[14 := push_bit 3 (md5_bytes0 ctx)];
          w = w[15 := push_bit 3 (md5_bytes1 ctx) OR drop_bit 29 (md5_bytes0 ctx)];
          buf = byteSwap big (MD5Transform (md5_buf ctx) w) 4
      in (concat (map (host_bytes big) buf),
          \<lparr>md5_buf = replicate 4 0, md5_bytes0 = 0, md5_bytes1 = 0, md5_in = replicate 64 0\<rparr>))"

text \<open>\<open>MD5SigToString\<close>: two digits per byte while there is room for them in \<open>len\<close> characters.\<close>

fun MD5SigToString :: "byte list \<Rightarrow> nat \<Rightarrow> nat \<Rightarrow> string" where
  "MD5SigToString [] str_p len = []"
| "MD5SigToString (sig # sigs) str_p len =
     (if str_p + 1 \<ge> len then []
      else hex_digits ! (unat sig div 16) # hex_digits ! (unat sig mod 16) #
           MD5SigToString sigs (str_p + 2) len)"

definition md5_new :: md5_ctx where
  "md5_new = \<lparr>md5_buf = replicate 4 0, md5_bytes0 = 0, md5_bytes1 = 0, md5_in = replicate 64 0\<rparr>"

definition MD5Buffer :: "bool \<Rightarrow> byte list \<Rightarrow> byte list" where
  "MD5Buffer big buf = fst (MD5Final big (MD5Update big (MD5Init md5_new) buf))"

definition GetDataMD5 :: "bool \<Rightarrow> byte list \<Rightarrow> string" where
  "GetDataMD5 big data =
     MD5SigToString (fst (MD5Final big (data_loop (MD5Update big) (MD5Init md5_new) data 0))) 0 33"

text \<open>\<open>reads\<close> are the successive non-empty results of \<open>fread(szData, 1, 1024, f)\<close>.\<close>

definition GetFileMD5 :: "bool \<Rightarrow> byte list list option \<Rightarrow> string" where
  "GetFileMD5 big file = (case file of
     None \<Rightarrow> []
   | Some reads \<Rightarrow>
       MD5SigToString (fst (MD5Final big (foldl (MD5Update big) (MD5Init md5_new) reads))) 0 33)"

section \<open>Reference: RFC 1321\<close>

definition rfc_T :: "uint32 list" where
  "rfc_T = [
     0xd76aa478, 0xe8c7b756, 0x242070db, 0xc1bdceee, 0xf57c0faf, 0x4787c62a,
     0xa8304613, 0xfd469501, 0x698098d8, 0x8b44f7af, 0xffff5bb1, 0x895cd7be,
     0x6b901122, 0xfd987193, 0xa679438e, 0x49b40821, 0xf61e2562, 0xc040b340,
     0x265e5a51, 0xe9b6c7aa, 0xd62f105d, 0x2441453, 0xd8a1e681, 0xe7d3fbc8,
     0x21e1cde6, 0xc33707d6, 0xf4d50d87, 0x455a14ed, 0xa9e3e905, 0xfcefa3f8,
     0x676f02d9, 0x8d2a4c8a, 0xfffa3942, 0x8771f681, 0x6d9d6122, 0xfde5380c,
     0xa4beea44, 0x4bdecfa9, 0xf6bb4b60, 0xbebfbc70, 0x289b7ec6, 0xeaa127fa,
     0xd4ef3085, 0x4881d05, 0xd9d4d039, 0xe6db99e5, 0x1fa27cf8, 0xc4ac5665,
     0xf4292244, 0x432aff97, 0xab9423a7, 0xfc93a039, 0x655b59c3, 0x8f0ccc92,
     0xffeff47d, 0x85845dd1, 0x6fa87e4f, 0xfe2ce6e0, 0xa3014314, 0x4e0811a1,
     0xf7537e82, 0xbd3af235, 0x2ad7d2bb, 0xeb86d391]"

definition rfc_f :: "nat \<Rightarrow> uint32 \<Rightarrow> uint32 \<Rightarrow> uint32 \<Rightarrow> uint32" where
  "rfc_f t x y z =
     (if t < 16 then (x AND y) OR (NOT x AND z)
      else if t < 32 then (x AND z) OR (y AND NOT z)
      else if t < 48 then x XOR y XOR z
      else y XOR (x OR NOT z))"

text \<open>The word of the block used in step \<open>t\<close> and the amount of the rotation.\<close>

definition rfc_k :: "nat \<Rightarrow> nat" where
  "rfc_k t = (if t < 16 then t else if t < 32 then (5 * t + 1) mod 16
     else if t < 48 then (3 * t + 5) mod 16 else 7 * t mod 16)"

definition rfc_s :: "nat \<Rightarrow> nat" where
  "rfc_s t = (if t < 16 then [7, 12, 17, 22] else if t < 32 then [5, 9, 14, 20]
     else if t < 48 then [4, 11, 16, 23] else [6, 10, 15, 21]) ! (t mod 4)"

definition rfc_step :: "uint32 list \<Rightarrow> nat \<Rightarrow> uint32 list \<Rightarrow> uint32 list" where
  "rfc_step X t r =
     [r ! 3,
      r ! 1 + word_rotl (rfc_s t)
        (r ! 0 + rfc_f t (r ! 1) (r ! 2) (r ! 3) + X ! rfc_k t + rfc_T ! t),
      r ! 1, r ! 2]"

definition rfc_md5_compress :: "uint32 list \<Rightarrow> uint32 list \<Rightarrow> uint32 list" where
  "rfc_md5_compress H X = map2 (+) H (fold (rfc_step X) [0..<64] H)"

section \<open>The unrolled steps are the RFC loop\<close>

definition md5_line :: "uint32 list \<Rightarrow> nat \<Rightarrow> uint32 list \<Rightarrow> uint32 list" where
  "md5_line m t =
     (case [(0, 1, 2, 3), (3, 0, 1, 2), (2, 3, 0, 1), (1, 2, 3, 0)] ! (t mod 4) of (w, x, y, z) \<Rightarrow>
      MD5STEP (if t < 16 then F1 else if t < 32 then F2 else if t < 48 then F3 else F4)
        w x y z (m ! rfc_k t + rfc_T ! t) (rfc_s t))"

lemma upt_64: "[0..<64] = [0,1,2,3,4,5,6,7,8,9,10,11,12,13,14,15,16,17,18,19,20,21,22,23,24,25,26,
  27,28,29,30,31,32,33,34,35,36,37,38,39,40,41,42,43,44,45,46,47,48,49,50,51,52,53,54,55,56,57,58,
  59,60,61,62,63 :: nat]"
  by code_simp

lemma md5_lines_upt: "md5_lines m = map (md5_line m) [0..<64]"
  unfolding upt_64 list.map md5_lines_def
  by (intro arg_cong2 [where f = Cons] refl;
      simp add: md5_line_def rfc_k_def rfc_s_def rfc_T_def)

lemma rfc_s_range: "0 < rfc_s t \<and> rfc_s t < 32"
proof -
  have "t mod 4 < 4" by simp
  then have "t mod 4 = 0 \<or> t mod 4 = 1 \<or> t mod 4 = 2 \<or> t mod 4 = 3" by linarith
  then show ?thesis by (elim disjE) (simp_all add: rfc_s_def)
qed

definition md5_view :: "nat \<Rightarrow> uint32 list \<Rightarrow> uint32 list" where
  "md5_view t r = rotate ((4 - t mod 4) mod 4) r"

lemma md5_line_step:
  assumes "length r = 4"
  shows "length (md5_line m t r) = 4"
    and "md5_view (Suc t) (md5_line m t r) = rfc_step m t (md5_view t r)"
proof -
  obtain a b c d where r: "r = [a, b, c, d]"
    using list_length_4 [OF assms] by blast
  have f: "(if t < 16 then F1 else if t < 32 then F2 else if t < 48 then F3 else F4) = rfc_f t"
    by (intro ext bit_word_eqI) (auto simp: F1_def F2_def F3_def F4_def rfc_f_def bit_simps)
  have "t mod 4 < 4" by simp
  then consider "t mod 4 = 0" | "t mod 4 = 1" | "t mod 4 = 2" | "t mod 4 = 3"
    by linarith
  then show "md5_view (Suc t) (md5_line m t r) = rfc_step m t (md5_view t r)"
    unfolding md5_line_def f
    by cases (simp_all add: r md5_view_def MD5STEP_def rfc_step_def Let_def
      rotate_drop_take rol32_rotl rfc_s_range mod_Suc ac_simps)
  show "length (md5_line m t r) = 4"
    by (simp add: md5_line_def MD5STEP_def Let_def assms split: prod.split)
qed

lemma MD5Transform_rfc:
  assumes "length H = 4"
  shows "MD5Transform H m = rfc_md5_compress H m"
proof -
  have "length (fold (md5_line m) [0..<t] H) = 4 \<and>
      md5_view t (fold (md5_line m) [0..<t] H) = fold (rfc_step m) [0..<t] H" for t
    by (induction t) (simp_all add: assms md5_line_step, simp add: md5_view_def)
  from this [of 64] show ?thesis
    using assms by (simp add: MD5Transform_def rfc_md5_compress_def md5_lines_upt run_lines_map md5_view_def)
qed

section \<open>The context as a stream of blocks\<close>

definition md5_compress :: "uint32 list \<Rightarrow> byte list \<Rightarrow> uint32 list" where
  "md5_compress H b = rfc_md5_compress H (map of_le32 (pieces 4 b))"

definition md5_inv :: "md5_ctx \<Rightarrow> bool" where
  "md5_inv c \<longleftrightarrow> length (md5_buf c) = 4 \<and> length (md5_in c) = 64"

definition md5_total :: "md5_ctx \<Rightarrow> nat" where
  "md5_total c = pair64 (md5_bytes1 c) (md5_bytes0 c)"

definition md5_pend :: "md5_ctx \<Rightarrow> byte list" where
  "md5_pend c = take (md5_total c mod 64) (md5_in c)"

lemma length_rfc_md5_compress: "length H = 4 \<Longrightarrow> length (rfc_md5_compress H X) = 4"
proof -
  assume H: "length H = 4"
  have "length (fold (rfc_step X) ts H) = 4" for ts
    using H by (induction ts rule: rev_induct) (simp_all add: rfc_step_def)
  with H show ?thesis by (simp add: rfc_md5_compress_def)
qed

lemma length_md5_compress [simp]: "length H = 4 \<Longrightarrow> length (md5_compress H b) = 4"
  by (simp add: md5_compress_def length_rfc_md5_compress)

lemma and_3f: "unat (t AND 0x3f) = unat t mod 64" for t :: uint32
proof -
  have "t AND 0x3f = take_bit 6 t" by (simp add: take_bit_eq_mask mask_eq_exp_minus_1)
  then show ?thesis by (simp only: unsigned_take_bit_eq) (simp add: take_bit_eq_mod)
qed

lemma md5_fill: "unat (md5_bytes0 c AND 0x3f) = md5_total c mod 64"
proof -
  have "md5_total c = 64 * (unat (md5_bytes1 c) * 2 ^ 26) + unat (md5_bytes0 c)"
    by (simp add: md5_total_def pair64_def)
  then show ?thesis by (simp only: and_3f mod_mult_self4)
qed

lemma length_words_of: "length mem = 4 * n \<Longrightarrow> length (words_of big mem) = n"
  by (simp add: words_of_def pieces_eq_map)

text \<open>After \<open>byteSwap\<close> the words are the little-endian words of the memory, on every host.\<close>

lemma le_of_host: "length b = 4 \<Longrightarrow> of_le32 (host_bytes big (host_word big b)) = of_le32 b"
proof -
  assume b: "length b = 4"
  have "of_le32 (be32 (of_be32 b)) = of_le32 b"
    using b by (simp add: be32_of_be32)
  then show ?thesis by (simp add: host_bytes_def host_word_def)
qed

lemma byteSwap_words:
  assumes "length mem = 64"
  shows "byteSwap big (words_of big mem) 16 = map of_le32 (pieces 4 mem)"
    and "take 14 (byteSwap big (words_of big mem) 14) = take 14 (map of_le32 (pieces 4 mem))"
    and "length (byteSwap big (words_of big mem) n) = 16"
proof -
  have p: "\<forall>b \<in> set (pieces 4 mem). length b = 4" and l: "length (pieces 4 mem) = 16"
    using assms by (auto simp: pieces_eq_map [of 4 mem 16])
  have "map (of_le32 \<circ> host_bytes big \<circ> host_word big) (pieces 4 mem) = map of_le32 (pieces 4 mem)"
    using p by (auto simp: le_of_host)
  then have "map (\<lambda>w. of_le32 (host_bytes big w)) (words_of big mem) = map of_le32 (pieces 4 mem)"
    by (simp add: words_of_def o_def)
  moreover have "words_of False mem = map of_le32 (pieces 4 mem)"
    by (simp add: words_of_def host_word_def)
  ultimately show "byteSwap big (words_of big mem) 16 = map of_le32 (pieces 4 mem)"
    and "take 14 (byteSwap big (words_of big mem) 14) = take 14 (map of_le32 (pieces 4 mem))"
    using l by (cases big; simp add: byteSwap_def length_words_of assms; simp flip: take_map)+
  show "length (byteSwap big (words_of big mem) n) = 16"
    by (simp add: byteSwap_def length_words_of assms min_def)
qed

lemma swap_transform:
  assumes "length (md5_in c) = 64" and "length (md5_buf c) = 4"
  shows "md5_buf (MD5_swap_transform big c) = md5_compress (md5_buf c) (md5_in c)"
    and "length (md5_in (MD5_swap_transform big c)) = 64"
    and "md5_bytes0 (MD5_swap_transform big c) = md5_bytes0 c"
    and "md5_bytes1 (MD5_swap_transform big c) = md5_bytes1 c"
proof -
  show "md5_buf (MD5_swap_transform big c) = md5_compress (md5_buf c) (md5_in c)"
    using assms by (simp add: MD5_swap_transform_def byteSwap_words MD5Transform_rfc md5_compress_def Let_def)
  have "length (concat (map (host_bytes big) ws)) = 4 * length ws" for ws
    by (induction ws) (simp_all add: host_bytes_def)
  then show "length (md5_in (MD5_swap_transform big c)) = 64"
    using assms by (simp add: MD5_swap_transform_def byteSwap_words(3) Let_def)
qed (simp_all add: MD5_swap_transform_def Let_def)

lemma MD5_blocks_absorb:
  assumes "md5_inv c"
  shows "md5_inv (MD5_blocks big c buf) \<and>
    (md5_buf (MD5_blocks big c buf), take (length buf mod 64) (md5_in (MD5_blocks big c buf))) =
      absorb 64 md5_compress (md5_buf c) buf \<and>
    md5_total (MD5_blocks big c buf) = md5_total c"
  using assms
proof (induction big c buf rule: MD5_blocks.induct)
  case (1 big c buf)
  show ?case
  proof (cases "64 \<le> length buf")
    case True
    let ?c = "MD5_swap_transform big (c\<lparr>md5_in := memcpy (md5_in c) 0 (take 64 buf)\<rparr>)"
    have "memcpy (md5_in c) 0 (take 64 buf) = take 64 buf"
      using "1.prems" True by (simp add: memcpy_all md5_inv_def)
    then have c: "md5_buf ?c = md5_compress (md5_buf c) (take 64 buf)" "md5_inv ?c"
      "md5_total ?c = md5_total c"
      using "1.prems" True swap_transform [of "c\<lparr>md5_in := take 64 buf\<rparr>"]
      by (simp_all add: md5_inv_def md5_total_def)
    have "MD5_blocks big c buf = MD5_blocks big ?c (drop 64 buf)"
      "absorb 64 md5_compress (md5_buf c) buf = absorb 64 md5_compress (md5_buf ?c) (drop 64 buf)"
      "length buf mod 64 = length (drop 64 buf) mod 64"
      using True by (simp_all add: MD5_blocks.simps [of big c buf] absorb.simps [of 64 _ "md5_buf c" buf]
          c le_mod_geq)
    then show ?thesis
      using "1.IH" [OF True c(2)] by (simp only: c(3))
  next
    case False
    then show ?thesis
      using "1.prems" by (simp add: MD5_blocks.simps [of big c buf] absorb_short md5_inv_def md5_total_def)
  qed
qed

lemma MD5_blocks_count:
  "md5_bytes0 (MD5_blocks big c b) = md5_bytes0 c" "md5_bytes1 (MD5_blocks big c b) = md5_bytes1 c"
proof (induction big c b rule: MD5_blocks.induct)
  case (1 big c b)
  { case 1 show ?case using "1.IH"(1) by (simp add: MD5_blocks.simps [of big c b] MD5_swap_transform_def Let_def)
  next
    case 2 show ?case using "1.IH"(2) by (simp add: MD5_blocks.simps [of big c b] MD5_swap_transform_def Let_def) }
qed

lemma MD5Update_total:
  assumes "length d < 2 ^ 32"
  shows "md5_total (MD5Update big c d) = (md5_total c + length d) mod 2 ^ 64"
proof -
  let ?l = "md5_bytes0 c" and ?d = "of_nat (length d) :: uint32"
  have "md5_total (MD5Update big c d) =
      pair64 (if ?d + ?l < ?l then md5_bytes1 c + 1 else md5_bytes1 c) (?d + ?l)"
    by (simp add: MD5Update_def Let_def md5_total_def MD5_swap_transform_def MD5_blocks_count add.commute)
  also have "\<dots> = pair64 (if ?d + ?l < ?l then md5_bytes1 c + 1 else md5_bytes1 c) (?l + ?d)"
    by (simp only: add.commute)
  also have "\<dots> = (md5_total c + unat ?d) mod 2 ^ 64"
    unfolding md5_total_def by (rule pair64_add) (metis add.commute word_add_overflow)
  also have "unat ?d = length d"
    using assms by (simp add: unsigned_of_nat take_bit_eq_mod)
  finally show ?thesis .
qed

lemma MD5Update_laws:
  assumes "md5_inv c" and "length d < 2 ^ 32"
  shows "md5_inv (MD5Update big c d) \<and>
    (md5_buf (MD5Update big c d), md5_pend (MD5Update big c d)) =
      absorb 64 md5_compress (md5_buf c) (md5_pend c @ d)"
proof -
  define j where "j = md5_total c mod 64"
  have j: "j < 64" by (simp add: j_def)
  have c: "length (md5_buf c) = 4" "length (md5_in c) = 64"
    using assms by (simp_all add: md5_inv_def)
  note fill = md5_fill [of c, folded j_def]
  have tot: "md5_total (MD5Update big c d) mod 64 = (j + length d) mod 64"
  proof -
    have "(md5_total c + length d) mod (64 * 288230376151711744) mod 64 = (md5_total c + length d) mod 64"
      by (rule mod_mod_cancel) simp
    then show ?thesis
      by (simp add: MD5Update_total [OF assms(2)] j_def mod_add_left_eq)
  qed
  have pend: "md5_pend c = take j (md5_in c)" by (simp add: md5_pend_def j_def)
  show ?thesis
  proof (cases "64 - j > length d")
    case True
    then have buf: "md5_in (MD5Update big c d) = memcpy (md5_in c) j d" "md5_buf (MD5Update big c d) = md5_buf c"
      using fill j by (simp_all add: MD5Update_def Let_def)
    have "md5_inv (MD5Update big c d)"
      using True c by (simp add: md5_inv_def buf)
    moreover have "md5_pend (MD5Update big c d) = take j (md5_in c) @ d"
      using True c by (simp add: md5_pend_def buf tot)
    ultimately show ?thesis
      using True c by (simp add: buf absorb_short pend)
  next
    case False
    let ?t = "64 - j"
    let ?b = "take j (md5_in c) @ take ?t d"
    define c0 where "c0 = c\<lparr>md5_bytes0 := md5_bytes0 c + of_nat (length d),
      md5_bytes1 := (if md5_bytes0 c + of_nat (length d) < md5_bytes0 c then md5_bytes1 c + 1 else md5_bytes1 c)\<rparr>"
    define c1 where "c1 = MD5_swap_transform big (c0\<lparr>md5_in := ?b\<rparr>)"
    have b: "memcpy (md5_in c) j (take ?t d) = ?b" "length ?b = 64"
      using False c j by (simp_all add: memcpy_def)
    have upd: "MD5Update big c d = MD5_blocks big c1 (drop ?t d)"
      using False fill j b by (simp add: MD5Update_def Let_def c1_def c0_def)
    have c1: "md5_inv c1" "md5_buf c1 = md5_compress (md5_buf c) ?b"
      using swap_transform [of "c0\<lparr>md5_in := ?b\<rparr>" big] b c
      by (simp_all add: md5_inv_def c1_def c0_def)
    note ab = MD5_blocks_absorb [OF c1(1), of big "drop ?t d", folded upd]
    have "length (drop ?t d) mod 64 = (j + length d) mod 64"
    proof -
      have "j + length d = length (drop ?t d) + 64" using False j by simp
      then show ?thesis by (simp only: mod_add_self2)
    qed
    then have "md5_pend (MD5Update big c d) = take (length (drop ?t d) mod 64) (md5_in (MD5Update big c d))"
      by (simp only: md5_pend_def tot)
    moreover have "absorb 64 md5_compress (md5_buf c) (md5_pend c @ d) =
        absorb 64 md5_compress (md5_buf c1) (drop ?t d)"
    proof -
      have "md5_pend c @ d = ?b @ drop ?t d" by (simp add: pend)
      then show ?thesis
        unfolding c1(2) using absorb_block [of 64 ?b md5_compress "md5_buf c" "drop ?t d"] b(2) by simp
    qed
    ultimately show ?thesis using ab by simp
  qed
qed

lemma md5_total_bound: "md5_total c < 2 ^ 64"
  unfolding md5_total_def by (rule pair64_bound)

interpretation md5: block_stream 64 md5_compress "MD5Update big" md5_inv md5_buf md5_pend
  md5_total "2 ^ 64" "2 ^ 32" for big
  by unfold_locales
    (use MD5Update_laws MD5Update_total md5_total_bound in \<open>auto simp: md5_pend_def md5_inv_def\<close>)

section \<open>Padding\<close>

definition md5_length_field :: "nat \<Rightarrow> byte list" where
  "md5_length_field k = rev (be64 (of_nat (8 * k)))"

lemma md5_field_words:
  "md5_length_field (pair64 h l) = le32 (push_bit 3 l) @ le32 (push_bit 3 h OR drop_bit 29 l)"
proof -
  let ?C = "push_bit 32 (ucast h) OR ucast l :: uint64"
  have "(of_nat (8 * pair64 h l) :: uint64) = push_bit 3 ?C"
    using word_of_pair64 [of h l] by (simp add: push_bit_eq_mult)
  moreover have "ucast (push_bit 3 ?C) = push_bit 3 l"
    by (rule bit_word_eqI) (auto simp: bit_simps dest: bit_imp_le_length)
  moreover have "ucast (drop_bit 32 (push_bit 3 ?C)) = push_bit 3 h OR drop_bit 29 l"
  proof (rule bit_word_eqI)
    fix n assume "n < LENGTH(32)"
    moreover have "32 + n - 3 = 29 + n" by simp
    moreover have "29 + n - 32 = n - 3" by simp
    ultimately show "bit (ucast (drop_bit 32 (push_bit 3 ?C)) :: uint32) n = bit (push_bit 3 h OR drop_bit 29 l) n"
      using bit_imp_le_length [of l "29 + n"] by (auto simp: bit_simps)
  qed
  ultimately show ?thesis
    by (simp add: md5_length_field_def be64_be32 be32_def le32_def)
qed

lemma list_16_tail: "length ws = 16 \<Longrightarrow> ws[14 := a, 15 := b] = take 14 ws @ [a, b]"
  by (rule nth_equalityI) (auto simp: nth_append nth_list_update less_Suc_eq numeral_eq_Suc)

lemma md5_final_words:
  assumes "length mem = 64"
  shows "(byteSwap big (words_of big mem) 14)[14 := a, 15 := b] =
    map of_le32 (pieces 4 (take 56 mem @ le32 a @ le32 b))"
proof -
  have "pieces 4 (take 56 mem @ drop 56 mem) = pieces 4 (take 56 mem) @ pieces 4 (drop 56 mem)"
    by (rule pieces_append_dvd) (use assms in simp_all)
  then have "take 14 (pieces 4 mem) = pieces 4 (take 56 mem)"
    using assms by (simp add: pieces_eq_map [of 4 "take 56 mem" 14])
  then show ?thesis
    using assms
    by (simp add: list_16_tail byteSwap_words(3) byteSwap_words(2) take_map pieces_append_dvd pieces_single)
qed

lemma md5_final_digest:
  assumes "md5_inv c"
  shows "fst (MD5Final big c) = concat (map le32 (foldl md5_compress (md5_buf c)
    (pieces 64 (md5_pend c @ pad_tail 64 8 md5_length_field (md5_total c)))))"
proof -
  define j where "j = md5_total c mod 64"
  have j: "j < 64" by (simp add: j_def)
  have c: "length (md5_buf c) = 4" "length (md5_in c) = 64"
    using assms by (simp_all add: md5_inv_def)
  note fill = md5_fill [of c, folded j_def]
  let ?m = "md5_pend c @ [0x80]"
  let ?mem0 = "(md5_in c)[j := 0x80]"
  have m: "take (j + 1) ?mem0 = ?m" "length ?m = j + 1"
    using c j by (simp_all add: md5_pend_def take_Suc_conv_app_nth flip: j_def)
  define lo where "lo = push_bit 3 (md5_bytes0 c)"
  define hi where "hi = push_bit 3 (md5_bytes1 c) OR drop_bit 29 (md5_bytes0 c)"
  have F: "md5_length_field (md5_total c) = le32 lo @ le32 hi"
    by (simp add: md5_total_def md5_field_words lo_def hi_def)
  define out where "out H = concat (map (host_bytes big) (byteSwap big H 4))" for H
  have out: "out H = concat (map le32 H)" if "length H = 4" for H
  proof -
    have "host_bytes big (of_le32 (host_bytes big w)) = le32 w" if big for w
    proof -
      have "length (host_bytes big w) = 4" by (simp add: host_bytes_def)
      moreover have "be32 (of_le32 b) = rev b" if "length b = 4" for b
        using be32_of_be32 [of "rev b"] that by (simp add: of_be32_rev)
      ultimately show ?thesis
        using that by (simp add: host_bytes_def be32_def le32_def)
    qed
    then show ?thesis
      using that by (simp add: out_def byteSwap_def host_bytes_def [abs_def] o_def)
  qed
  define fin where "fin H mem = out (md5_compress H (take 56 mem @ le32 lo @ le32 hi))" for H mem
  have tailF: "fst (MD5Final big c) = fin H mem" if "length H = 4" "length mem = 64"
    "fst (MD5Final big c) = out (MD5Transform H ((byteSwap big (words_of big mem) 14)[14 := lo, 15 := hi]))" for H mem
    using that md5_final_words [OF that(2), of big lo hi]
    by (simp add: fin_def MD5Transform_rfc md5_compress_def)
  have zeros: "(64 - (md5_total c + 1 + 8) mod 64) mod 64 = (if j < 56 then 55 - j else 119 - j)"
    by (rule pad_zeros_count) (simp add: j_def)
  have tail: "pad_tail 64 8 md5_length_field (md5_total c) =
      [0x80] @ replicate (if j < 56 then 55 - j else 119 - j) 0 @ le32 lo @ le32 hi"
    by (simp only: pad_tail_def zeros F)
  show ?thesis
  proof (cases "j < 56")
    case True
    let ?mem = "memset ?mem0 (j + 1) 0 (55 - j)"
    have len: "length ?mem = 64" using True c by (simp add: memset_def)
    have cnt: "nat (55 - int j) = 55 - j" by simp
    have "fst (MD5Final big c) = out (MD5Transform (md5_buf c)
        ((byteSwap big (words_of big ?mem) 14)[14 := lo, 15 := hi]))"
      using True fill by (simp add: MD5Final_def Let_def out_def lo_def hi_def cnt)
    then have "fst (MD5Final big c) = fin (md5_buf c) ?mem"
      by (rule tailF [OF c(1) len])
    moreover have "take 56 ?mem = ?m @ replicate (55 - j) 0"
      using True c m by (simp add: memset_def)
    ultimately have "fst (MD5Final big c) = out (md5_compress (md5_buf c) (md5_pend c @ pad_tail 64 8 md5_length_field (md5_total c)))"
      using True by (simp add: fin_def tail)
    moreover have "length (md5_pend c @ pad_tail 64 8 md5_length_field (md5_total c)) = 64"
      using True m by (simp add: tail)
    ultimately show ?thesis
      using c by (simp add: pieces_single out)
  next
    case False
    let ?mem1 = "memset ?mem0 (j + 1) 0 (63 - j)"
    let ?B1 = "?m @ replicate (63 - j) 0"
    let ?B2 = "replicate 56 0 @ le32 lo @ le32 hi"
    have B1: "?mem1 = ?B1" "length ?B1 = 64" "length ?mem1 = 64"
      using False j c m by (simp_all add: memset_def memcpy_def)
    define c1 where "c1 = MD5_swap_transform big (c\<lparr>md5_in := ?mem1\<rparr>)"
    have c1: "md5_buf c1 = md5_compress (md5_buf c) ?B1" "length (md5_in c1) = 64"
      "md5_bytes0 c1 = md5_bytes0 c" "md5_bytes1 c1 = md5_bytes1 c"
      using swap_transform [of "c\<lparr>md5_in := ?mem1\<rparr>" big] B1 c by (simp_all add: c1_def)
    have l1: "length (md5_buf c1) = 4" using c by (simp add: c1)
    let ?mem = "memset (md5_in c1) 0 0 56"
    have len: "length ?mem = 64" using c1 by (simp add: memset_def)
    have cnt: "nat (63 - int j) = 63 - j" using j by simp
    have "fst (MD5Final big c) = out (MD5Transform (md5_buf c1)
        ((byteSwap big (words_of big ?mem) 14)[14 := lo, 15 := hi]))"
      using False fill c1(3,4) by (simp add: MD5Final_def Let_def out_def lo_def hi_def c1_def cnt)
    then have "fst (MD5Final big c) = fin (md5_buf c1) ?mem"
      by (rule tailF [OF l1 len])
    moreover have "take 56 ?mem = replicate 56 0"
      using c1 by (simp add: memset_def)
    ultimately have fin: "fst (MD5Final big c) = out (md5_compress (md5_compress (md5_buf c) ?B1) ?B2)"
      by (simp add: fin_def c1)
    have "replicate (63 - j) 0 @ replicate 56 0 = replicate (119 - j) (0 :: byte)"
      using False j by (simp add: replicate_add [symmetric])
    then have pad: "md5_pend c @ pad_tail 64 8 md5_length_field (md5_total c) = ?B1 @ ?B2"
      using False by (simp add: tail)
    have "foldl md5_compress (md5_buf c) (pieces 64 (?B1 @ ?B2)) = md5_compress (md5_compress (md5_buf c) ?B1) ?B2"
      using B1(2) by (subst pieces_two) (simp_all del: append_assoc)
    then show ?thesis
      using c by (simp only: fin pad out length_md5_compress)
  qed
qed

lemma MD5SigToString_full:
  "length sig * 2 + p < len \<Longrightarrow> MD5SigToString sig p len = concat (map hex2 sig)"
  by (induction sig p len rule: MD5SigToString.induct) (simp_all add: hex2_def)

definition md5_hex :: "uint32 list \<Rightarrow> string" where
  "md5_hex H = concat (map hex2 (concat (map le32 H)))"

lemma md5_final_string:
  assumes "md5_inv c"
  shows "MD5SigToString (fst (MD5Final big c)) 0 33 = md5_hex (foldl md5_compress (md5_buf c)
    (pieces 64 (md5_pend c @ pad_tail 64 8 md5_length_field (md5_total c))))"
proof -
  have "length (foldl md5_compress (md5_buf c) bs) = 4" for bs
    using assms by (intro length_foldl_state) (simp_all add: md5_inv_def)
  then have "length (fst (MD5Final big c)) = 16"
    by (simp add: md5_final_digest [OF assms] length_concat o_def sum_list_triv)
  then show ?thesis
    using md5_final_digest [OF assms] by (simp add: MD5SigToString_full md5_hex_def)
qed

interpretation md5d: block_digest 64 md5_compress "MD5Update big" md5_inv md5_buf md5_pend
  md5_total "2 ^ 64" "2 ^ 32" 8 md5_length_field
  "\<lambda>c. MD5SigToString (fst (MD5Final big c)) 0 33" md5_hex for big
proof unfold_locales
  show "md5_length_field (k mod 2 ^ 64) = md5_length_field k" for k
    using sha_length_field_mod [of 64 k] by (simp add: md5_length_field_def sha_length_field_def)
qed (simp_all add: md5_final_string, simp add: md5_length_field_def)

definition md5_H0 :: "uint32 list" where
  "md5_H0 = [0x67452301, 0xefcdab89, 0x98badcfe, 0x10325476]"

definition rfc_md5 :: "byte list \<Rightarrow> string" where
  "rfc_md5 msg = md5_hex (md_hash 64 8 md5_length_field md5_compress md5_H0 msg)"

lemma md5_init_laws:
  "md5_inv (MD5Init md5_new)" "md5_pend (MD5Init md5_new) = []"
  "md5_total (MD5Init md5_new) = 0" "md5_buf (MD5Init md5_new) = md5_H0"
  by (simp_all add: md5_inv_def MD5Init_def md5_new_def md5_pend_def md5_total_def pair64_def md5_H0_def)

lemma md5_data_digest: "GetDataMD5 big data = rfc_md5 data"
  using md5d.digest_data_loop [OF md5_init_laws(1-3)]
  by (simp add: GetDataMD5_def rfc_md5_def md5_init_laws)

lemma md5_file_digest:
  assumes "\<forall>d \<in> set reads. length d \<le> 1024"
  shows "GetFileMD5 big (Some reads) = rfc_md5 (concat reads)"
proof -
  have "\<forall>d \<in> set reads. length d < 2 ^ 32"
    using assms by fastforce
  from md5d.digest [OF md5_init_laws(1-3) this] show ?thesis
    by (simp add: GetFileMD5_def rfc_md5_def md5_init_laws)
qed

section \<open>Properties\<close>

text \<open>Property C3: on little-endian and on big-endian hosts \<open>GetDataMD5\<close> is the MD5 of RFC 1321, in
  lower case hexadecimal, for every input.\<close>

theorem GetDataMD5_rfc: "GetDataMD5 big data = rfc_md5 data"
  by (rule md5_data_digest)

text \<open>\<open>GetFileMD5\<close> gives the digest of the contents of the file, however its contents
  are cut by the reads, on both kinds of host.\<close>

theorem GetFileMD5_rfc:
  assumes "\<forall>d \<in> set reads. length d \<le> 1024"
  shows "GetFileMD5 big (Some reads) = rfc_md5 (concat reads)"
  using assms by (rule md5_file_digest)

lemma GetFileMD5_rfc_witness:
  "GetFileMD5 True (Some [[97, 98, 99], [100]]) = rfc_md5 [97, 98, 99, 100]"
  using GetFileMD5_rfc [of "[[97, 98, 99], [100]]" True] by simp

end
