(* ===== verification/Sha512.thy ===== *)
theory Sha512
  imports Stream_Digest
begin

text \<open>
  Model of \<^verbatim>\<open>src/src/sha512.cpp\<close>: the class \<open>SHA512\<close> with its 256-byte block buffer and its 32-bit
  length counter, \<open>transform\<close> over several blocks, \<open>update\<close>, \<open>final\<close>, and \<open>GetDataSHA512\<close> /
  \<open>GetFileSHA512\<close>. The reference is FIPS 180-4. The code writes only the low 32 bits of the
  length in bits, so it is SHA-512 for messages shorter than \<open>2 ^ 29\<close> bytes.
\<close>

section \<open>Macros and \<open>transform\<close>\<close>

text \<open>The table \<open>K\<close> of the code, written in decimal.\<close>

definition sha512_K :: "uint64 list" where
  "sha512_K = [
     4794697086780616226, 8158064640168781261, 13096744586834688815,
     16840607885511220156, 4131703408338449720, 6480981068601479193,
     10538285296894168987, 12329834152419229976, 15566598209576043074,
     1334009975649890238, 2608012711638119052, 6128411473006802146,
     8268148722764581231, 9286055187155687089, 11230858885718282805,
     13951009754708518548, 16472876342353939154, 17275323862435702243,
     1135362057144423861, 2597628984639134821, 3308224258029322869,
     5365058923640841347, 6679025012923562964, 8573033837759648693,
     10970295158949994411, 12119686244451234320, 12683024718118986047,
     13788192230050041572, 14330467153632333762, 15395433587784984357,
     489312712824947311, 1452737877330783856, 2861767655752347644,
     3322285676063803686, 5560940570517711597, 5996557281743188959,
     7280758554555802590, 8532644243296465576, 9350256976987008742,
     10552545826968843579, 11727347734174303076, 12113106623233404929,
     14000437183269869457, 14369950271660146224, 15101387698204529176,
     15463397548674623760, 17586052441742319658, 1182934255886127544,
     1847814050463011016, 2177327727835720531, 2830643537854262169,
     3796741975233480872, 4115178125766777443, 5681478168544905931,
     6601373596472566643, 7507060721942968483, 8399075790359081724,
     8693463985226723168, 9568029438360202098, 10144078919501101548,
     10430055236837252648, 11840083180663258601, 13761210420658862357,
     14299343276471374635, 14566680578165727644, 15097957966210449927,
     16922976911328602910, 17689382322260857208, 500013540394364858,
     748580250866718886, 1242879168328830382, 1977374033974150939,
     2944078676154940804, 3659926193048069267, 4368137639120453308,
     4836135668995329356, 5532061633213252278, 6448918945643986474,
     6902733635092675308, 7801388544844847127]"

definition SHA2_CH :: "uint64 \<Rightarrow> uint64 \<Rightarrow> uint64 \<Rightarrow> uint64" where
  "SHA2_CH x y z = (x AND y) XOR (NOT x AND z)"

definition SHA2_MAJ :: "uint64 \<Rightarrow> uint64 \<Rightarrow> uint64 \<Rightarrow> uint64" where
  "SHA2_MAJ x y z = (x AND y) XOR (x AND z) XOR (y AND z)"

definition SHA512_F1 :: "uint64 \<Rightarrow> uint64" where
  "SHA512_F1 x = ror64 x 28 XOR ror64 x 34 XOR ror64 x 39"

definition SHA512_F2 :: "uint64 \<Rightarrow> uint64" where
  "SHA512_F2 x = ror64 x 14 XOR ror64 x 18 XOR ror64 x 41"

definition SHA512_F3 :: "uint64 \<Rightarrow> uint64" where
  "SHA512_F3 x = ror64 x 1 XOR ror64 x 8 XOR drop_bit 7 x"

definition SHA512_F4 :: "uint64 \<Rightarrow> uint64" where
  "SHA512_F4 x = ror64 x 19 XOR ror64 x 61 XOR drop_bit 6 x"

text \<open>\<open>SHA2_PACK64\<close> is \<open>of_be64\<close>; \<open>SHA2_UNPACK32\<close> and \<open>SHA2_UNPACK64\<close> are \<open>be32\<close> and \<open>be64\<close>.\<close>

definition sha512_expand :: "uint64 list \<Rightarrow> uint64 list" where
  "sha512_expand w = fold (\<lambda>j w. w @ [SHA512_F4 (w ! (j - 2)) + w ! (j - 7) +
     SHA512_F3 (w ! (j - 15)) + w ! (j - 16)]) [16..<80] w"

text \<open>The body of the second loop: the assignments to \<open>wv[7] .. wv[0]\<close> in order.\<close>

definition sha512_round :: "uint64 list \<Rightarrow> nat \<Rightarrow> uint64 list \<Rightarrow> uint64 list" where
  "sha512_round w j wv =
     (let t1 = wv ! 7 + SHA512_F2 (wv ! 4) + SHA2_CH (wv ! 4) (wv ! 5) (wv ! 6) + sha512_K ! j + w ! j;
          t2 = SHA512_F1 (wv ! 0) + SHA2_MAJ (wv ! 0) (wv ! 1) (wv ! 2);
          wv = wv[7 := wv ! 6];
          wv = wv[6 := wv ! 5];
          wv = wv[5 := wv ! 4];
          wv = wv[4 := wv ! 3 + t1];
          wv = wv[3 := wv ! 2];
          wv = wv[2 := wv ! 1];
          wv = wv[1 := wv ! 0]
      in wv[0 := t1 + t2])"

definition sha512_block :: "uint64 list \<Rightarrow> byte list \<Rightarrow> uint64 list" where
  "sha512_block m_h sub_block =
     (let w = sha512_expand (map (\<lambda>j. of_be64 (take 8 (drop (8 * j) sub_block))) [0..<16])
      in map2 (+) m_h (fold (sha512_round w) [0..<80] m_h))"

definition SHA512_transform :: "uint64 list \<Rightarrow> byte list \<Rightarrow> nat \<Rightarrow> uint64 list" where
  "SHA512_transform m_h message block_nb =
     fold (\<lambda>i h. sha512_block h (take 128 (drop (128 * i) message))) [0..<block_nb] m_h"

section \<open>The class and its operations\<close>

record sha512_ctx =
  m_tot_len :: uint32
  m_len :: nat
  m_block :: "byte list"
  m_h :: "uint64 list"

definition SHA512_init :: "sha512_ctx \<Rightarrow> sha512_ctx" where
  "SHA512_init s = s\<lparr>m_h := [
     0x6a09e667f3bcc908, 0xbb67ae8584caa73b, 0x3c6ef372fe94f82b, 0xa54ff53a5f1d36f1,
     0x510e527fade682d1, 0x9b05688c2b3e6c1f, 0x1f83d9abfb41bd6b, 0x5be0cd19137e2179],
     m_len := 0, m_tot_len := 0\<rparr>"

text \<open>The sum \<open>m_len + len\<close> is taken in 32 bits.\<close>

definition SHA512_update :: "sha512_ctx \<Rightarrow> byte list \<Rightarrow> sha512_ctx" where
  "SHA512_update s message =
     (let len = length message;
          tmp_len = 128 - m_len s;
          rem_len = (if len < tmp_len then len else tmp_len);
          s = s\<lparr>m_block := memcpy (m_block s) (m_len s) (take rem_len message)\<rparr>
      in if (m_len s + len) mod 2 ^ 32 < 128
         then s\<lparr>m_len := (m_len s + len) mod 2 ^ 32\<rparr>
         else let new_len = len - rem_len;
                  block_nb = new_len div 128;
                  shifted_message = drop rem_len message;
                  h = SHA512_transform (m_h s) (m_block s) 1;
                  h = SHA512_transform h shifted_message block_nb;
                  rem_len = new_len mod 128
              in s\<lparr>m_h := h,
                   m_block := memcpy (m_block s) 0 (take rem_len (drop (128 * block_nb) shifted_message)),
                   m_len := rem_len,
                   m_tot_len := m_tot_len s + push_bit 7 (of_nat (block_nb + 1))\<rparr>)"

definition SHA512_final :: "sha512_ctx \<Rightarrow> byte list \<times> sha512_ctx" where
  "SHA512_final s =
     (let block_nb = 1 + (if 128 - 17 < m_len s mod 128 then 1 else 0);
          len_b = push_bit 3 (m_tot_len s + of_nat (m_len s));
          pm_len = 128 * block_nb;
          block = memset (m_block s) (m_len s) 0 (pm_len - m_len s);
          block = block[m_len s := 0x80];
          block = memcpy block (pm_len - 4) (be32 len_b);
          h = SHA512_transform (m_h s) block block_nb
      in (concat (map (\<lambda>i. be64 (h ! i)) [0..<8]), s\<lparr>m_block := block, m_h := h\<rparr>))"

definition sha512_new :: sha512_ctx where
  "sha512_new = \<lparr>m_tot_len = 0, m_len = 0, m_block = replicate 256 0, m_h = replicate 8 0\<rparr>"

text \<open>\<open>GetDataSHA512\<close> casts the size to \<open>unsigned int\<close> and makes one \<open>update\<close> call.\<close>

definition GetDataSHA512 :: "byte list \<Rightarrow> string" where
  "GetDataSHA512 data =
     concat (map hex2 (fst (SHA512_final
       (SHA512_update (SHA512_init sha512_new) (take (length data mod 2 ^ 32) data)))))"

text \<open>\<open>reads\<close> are the successive non-empty results of \<open>file.readFrom(szData, 1024, -1)\<close>.\<close>

definition GetFileSHA512 :: "byte list list option \<Rightarrow> string" where
  "GetFileSHA512 file = (case file of
     None \<Rightarrow> []
   | Some reads \<Rightarrow> concat (map hex2 (fst (SHA512_final
       (foldl SHA512_update (SHA512_init sha512_new) reads)))))"

section \<open>Reference: FIPS 180-4\<close>

definition fips512_next :: "uint64 list \<Rightarrow> nat \<Rightarrow> uint64" where
  "fips512_next W t =
     (word_rotr 19 (W ! (t - 2)) XOR word_rotr 61 (W ! (t - 2)) XOR drop_bit 6 (W ! (t - 2))) +
     W ! (t - 7) +
     (word_rotr 1 (W ! (t - 15)) XOR word_rotr 8 (W ! (t - 15)) XOR drop_bit 7 (W ! (t - 15))) +
     W ! (t - 16)"

definition fips512_round :: "uint64 \<Rightarrow> uint64 \<Rightarrow> uint64 list \<Rightarrow> uint64 list" where
  "fips512_round k w r =
     (let T1 = r ! 7 + (word_rotr 14 (r ! 4) XOR word_rotr 18 (r ! 4) XOR word_rotr 41 (r ! 4)) +
               ((r ! 4 AND r ! 5) XOR (NOT (r ! 4) AND r ! 6)) + k + w;
          T2 = (word_rotr 28 (r ! 0) XOR word_rotr 34 (r ! 0) XOR word_rotr 39 (r ! 0)) +
               ((r ! 0 AND r ! 1) XOR (r ! 0 AND r ! 2) XOR (r ! 1 AND r ! 2))
      in [T1 + T2, r ! 0, r ! 1, r ! 2, r ! 3 + T1, r ! 4, r ! 5, r ! 6])"

definition fips_sha512_compress :: "uint64 list \<Rightarrow> byte list \<Rightarrow> uint64 list" where
  "fips_sha512_compress H b =
     (let W = schedule fips512_next (map of_be64 (pieces 8 b)) 80
      in map2 (+) H (fold (\<lambda>t. fips512_round (sha512_K ! t) (W ! t)) [0..<80] H))"

lemma sha512_expand_schedule: "sha512_expand w = schedule fips512_next w 80"
  unfolding sha512_expand_def schedule_def
  by (simp add: SHA512_F3_def SHA512_F4_def fips512_next_def ror64_rotr)

lemma sha512_round_fips:
  assumes "length r = 8"
  shows "sha512_round w j r = fips512_round (sha512_K ! j) (w ! j) r"
  by (subst (1 2) list_length_8 [OF assms])
    (simp add: sha512_round_def fips512_round_def Let_def SHA512_F1_def SHA512_F2_def SHA2_CH_def
      SHA2_MAJ_def ror64_rotr)

lemma length_fips512_round [simp]: "length (fips512_round k w r) = 8"
  by (simp add: fips512_round_def Let_def)

lemma sha512_block_fips:
  assumes "length H = 8" and "length b = 128"
  shows "sha512_block H b = fips_sha512_compress H b"
proof -
  let ?w = "schedule fips512_next (map of_be64 (pieces 8 b)) 80"
  have "length (fold (\<lambda>t. fips512_round (sha512_K ! t) (?w ! t)) ts H) = 8 \<and>
      fold (sha512_round ?w) ts H = fold (\<lambda>t. fips512_round (sha512_K ! t) (?w ! t)) ts H" for ts
    by (induction ts rule: rev_induct) (simp_all add: assms sha512_round_fips)
  moreover have "map (\<lambda>j. of_be64 (take 8 (drop (8 * j) b))) [0..<16] = map of_be64 (pieces 8 b)"
    using assms(2) by (simp add: pieces_eq_map [of 8 b 16])
  ultimately show ?thesis
    by (simp add: sha512_block_def fips_sha512_compress_def Let_def sha512_expand_schedule)
qed

lemma length_sha512_compress [simp]: "length H = 8 \<Longrightarrow> length (fips_sha512_compress H b) = 8"
proof -
  assume H: "length H = 8"
  have "length (fold (\<lambda>t. fips512_round (sha512_K ! t) (W t)) ts H) = 8" for ts W
    using H by (induction ts rule: rev_induct) simp_all
  with H show ?thesis by (simp add: fips_sha512_compress_def Let_def)
qed

lemma SHA512_transform_pieces:
  assumes "length H = 8" and "128 * nb \<le> length m"
  shows "SHA512_transform H m nb = foldl fips_sha512_compress H (pieces 128 (take (128 * nb) m)) \<and>
    length (SHA512_transform H m nb) = 8"
  using assms(2)
proof (induction nb)
  case 0
  then show ?case by (simp add: SHA512_transform_def assms)
next
  case (Suc nb)
  let ?b = "take 128 (drop (128 * nb) m)"
  have "take (128 * Suc nb) m = take (128 * nb) m @ ?b"
    using Suc.prems by (simp add: take_drop_take add.commute)
  then have p: "pieces 128 (take (128 * Suc nb) m) = pieces 128 (take (128 * nb) m) @ [?b]"
    using Suc.prems by (simp add: pieces_append_dvd pieces_single)
  have b: "length ?b = 128" and le: "128 * nb \<le> length m" using Suc.prems by simp_all
  note IH = Suc.IH [OF le, THEN conjunct1] Suc.IH [OF le, THEN conjunct2]
  have "SHA512_transform H m (Suc nb) = sha512_block (SHA512_transform H m nb) ?b"
    by (simp add: SHA512_transform_def)
  then have "SHA512_transform H m (Suc nb) = fips_sha512_compress (SHA512_transform H m nb) ?b"
    unfolding sha512_block_fips [OF IH(2) b] .
  moreover have "foldl fips_sha512_compress H (pieces 128 (take (128 * Suc nb) m)) =
     fips_sha512_compress (foldl fips_sha512_compress H (pieces 128 (take (128 * nb) m))) ?b"
    by (simp only: p foldl_append foldl.simps)
  ultimately show ?case
    using length_sha512_compress [OF IH(2), of ?b] IH(1) by metis
qed

section \<open>The object as a stream of blocks\<close>

definition sha512_inv :: "sha512_ctx \<Rightarrow> bool" where
  "sha512_inv s \<longleftrightarrow> length (m_h s) = 8 \<and> length (m_block s) = 256 \<and> m_len s < 128 \<and>
     128 dvd unat (m_tot_len s)"

definition sha512_total :: "sha512_ctx \<Rightarrow> nat" where
  "sha512_total s = unat (m_tot_len s) + m_len s"

definition sha512_pend :: "sha512_ctx \<Rightarrow> byte list" where
  "sha512_pend s = take (m_len s) (m_block s)"

lemma sha512_total_bound: "sha512_inv s \<Longrightarrow> sha512_total s < 2 ^ 32"
proof -
  assume s: "sha512_inv s"
  then obtain k where k: "unat (m_tot_len s) = 128 * k" by (auto simp: sha512_inv_def elim: dvdE)
  then have "k < 2 ^ 25" using unat32_less [of "m_tot_len s"] by simp
  with k s show ?thesis by (simp add: sha512_total_def sha512_inv_def)
qed

lemma tot_len_add:
  fixes t :: uint32
  assumes "128 dvd unat t"
  shows "unat (t + push_bit 7 (of_nat n)) = (unat t + 128 * n) mod 2 ^ 32"
    and "128 dvd unat (t + push_bit 7 (of_nat n))"
proof -
  have "push_bit 7 (of_nat n) = (of_nat (128 * n) :: uint32)" by (simp add: push_bit_eq_mult)
  then have "t + push_bit 7 (of_nat n) = of_nat (unat t + 128 * n)" by simp
  then show *: "unat (t + push_bit 7 (of_nat n)) = (unat t + 128 * n) mod 2 ^ 32"
    by (simp only: unsigned_of_nat take_bit_eq_mod) simp
  have "128 dvd (unat t + 128 * n) mod 2 ^ 32"
    by (rule dvd_mod) (use assms in simp_all)
  then show "128 dvd unat (t + push_bit 7 (of_nat n))" by (simp only: *)
qed

lemma SHA512_update_laws:
  assumes "sha512_inv s" and "length d < 2 ^ 32 - 128"
  shows "sha512_inv (SHA512_update s d) \<and>
    (m_h (SHA512_update s d), sha512_pend (SHA512_update s d)) =
      absorb 128 fips_sha512_compress (m_h s) (sha512_pend s @ d) \<and>
    sha512_total (SHA512_update s d) = (sha512_total s + length d) mod 2 ^ 32"
proof -
  let ?i = "m_len s"
  have s: "length (m_h s) = 8" "length (m_block s) = 256" "?i < 128" "128 dvd unat (m_tot_len s)"
    using assms by (simp_all add: sha512_inv_def)
  have sum: "(?i + length d) mod 2 ^ 32 = ?i + length d"
    using s assms(2) by simp
  show ?thesis
  proof (cases "?i + length d < 128")
    case True
    have upd: "SHA512_update s d = s\<lparr>m_block := memcpy (m_block s) ?i d, m_len := ?i + length d\<rparr>"
      using True sum by (simp add: SHA512_update_def Let_def)
    have inv: "sha512_inv (SHA512_update s d)"
      using True s by (simp add: upd sha512_inv_def)
    have "sha512_total (SHA512_update s d) = sha512_total s + length d"
      by (simp add: upd sha512_total_def)
    with sha512_total_bound [OF inv] inv show ?thesis
      using True s by (simp add: upd sha512_pend_def absorb_short)
  next
    case False
    let ?l = "128 - ?i"
    let ?b = "sha512_pend s @ take ?l d"
    let ?sh = "drop ?l d"
    define nb where "nb = (length d - ?l) div 128"
    define r where "r = (length d - ?l) mod 128"
    have l: "\<not> length d < ?l" using False by simp
    have lb: "length ?b = 128" using False s l by (simp add: sha512_pend_def)
    have b: "take 128 (memcpy (m_block s) ?i (take ?l d)) = ?b"
      using False s by (simp add: memcpy_def sha512_pend_def)
    let ?h1 = "fips_sha512_compress (m_h s) ?b"
    have h1: "SHA512_transform (m_h s) (memcpy (m_block s) ?i (take ?l d)) 1 = ?h1"
      using s lb by (simp add: SHA512_transform_def b sha512_block_fips)
    have nb: "128 * nb \<le> length ?sh" "128 * nb + r = length ?sh" "r < 128"
      by (simp_all add: nb_def r_def)
    have lh1: "length ?h1 = 8" using s by simp
    note tr = SHA512_transform_pieces [OF lh1 nb(1)]
    let ?h2 = "SHA512_transform ?h1 ?sh nb"
    let ?rest = "drop (128 * nb) ?sh"
    have rest: "length ?rest = r" unfolding length_drop [of "128 * nb"] nb(2) [symmetric] by simp
    have upd: "m_h (SHA512_update s d) = ?h2" "m_len (SHA512_update s d) = r"
      "m_tot_len (SHA512_update s d) = m_tot_len s + push_bit 7 (of_nat (nb + 1))"
      "m_block (SHA512_update s d) = memcpy (memcpy (m_block s) ?i (take ?l d)) 0 (take r ?rest)"
      using l sum False
      by (simp_all add: SHA512_update_def Let_def h1 nb_def [symmetric] r_def [symmetric] del: One_nat_def)
    have "length (m_block (SHA512_update s d)) = 256"
      using rest nb l s by (simp add: upd memcpy_def)
    then have inv: "sha512_inv (SHA512_update s d)"
      using nb(3) tr [THEN conjunct2] tot_len_add(2) [OF s(4)] unfolding sha512_inv_def upd by blast
    have pend: "sha512_pend (SHA512_update s d) = ?rest"
      using rest by (simp add: sha512_pend_def upd memcpy_def)
    have "absorb 128 fips_sha512_compress (m_h s) (sha512_pend s @ d) =
        absorb 128 fips_sha512_compress (m_h s) (?b @ ?sh)" by simp
    also have "\<dots> = absorb 128 fips_sha512_compress ?h1 ?sh"
      by (rule absorb_block) (use lb in simp_all)
    also have "\<dots> = absorb 128 fips_sha512_compress ?h1 (take (128 * nb) ?sh @ ?rest)"
      by (simp only: append_take_drop_id)
    also have "\<dots> = absorb 128 fips_sha512_compress ?h2 ?rest"
    proof -
      have "128 dvd length (take (128 * nb) ?sh)" using nb(1) by simp
      then have "absorb 128 fips_sha512_compress ?h1 (take (128 * nb) ?sh) = (?h2, [])"
        using tr absorb_pieces [of 128 "take (128 * nb) ?sh"] by (metis zero_less_numeral)
      then show ?thesis
        using absorb_append [of 128 fips_sha512_compress ?h1 "take (128 * nb) ?sh" ?rest]
        by (simp only: append_take_drop_id split_conv append_Nil zero_less_numeral simp_thms)
    qed
    also have "\<dots> = (?h2, ?rest)"
      using rest nb by (simp add: absorb_short)
    finally have abs: "absorb 128 fips_sha512_compress (m_h s) (sha512_pend s @ d) = (?h2, ?rest)" .
    have "unat (m_tot_len s) + 128 * (nb + 1) + r = sha512_total s + length d"
      using nb l s by (simp add: sha512_total_def)
    moreover have "sha512_total (SHA512_update s d) = ((unat (m_tot_len s) + 128 * (nb + 1)) mod 2 ^ 32 + r) mod 2 ^ 32"
      using sha512_total_bound [OF inv] unfolding sha512_total_def upd tot_len_add(1) [OF s(4)]
      by (simp only: mod_less)
    ultimately have "sha512_total (SHA512_update s d) = (sha512_total s + length d) mod 2 ^ 32"
      by (simp only: mod_add_left_eq)
    then show ?thesis
      using inv by (simp add: abs upd pend)
  qed
qed

interpretation sha512: block_stream 128 fips_sha512_compress SHA512_update sha512_inv m_h
  sha512_pend sha512_total "2 ^ 32" "2 ^ 32 - 128"
proof unfold_locales
  fix s assume "sha512_inv s"
  then show "length (sha512_pend s) < 128"
    by (simp add: sha512_inv_def sha512_pend_def)
qed (use SHA512_update_laws sha512_total_bound in auto)

section \<open>Padding\<close>

text \<open>The length field the code writes: twelve zero bytes and the low word of the length in bits.\<close>

definition sha512_length_field :: "nat \<Rightarrow> byte list" where
  "sha512_length_field k = replicate 12 0 @ be32 (of_nat (8 * k))"

text \<open>The 128-bit length field of FIPS 180-4, for lengths below \<open>2 ^ 61\<close> bytes.\<close>

definition fips512_length_field :: "nat \<Rightarrow> byte list" where
  "fips512_length_field k = replicate 8 0 @ be64 (of_nat (8 * k))"

lemma be32_0: "be32 0 = replicate 4 0"
  by (simp add: be32_def numeral_eq_Suc)

lemma ucast_of_nat_small:
  assumes "LENGTH('b) \<le> LENGTH('a)"
  shows "(ucast (of_nat n :: 'a::len word) :: 'b::len word) = of_nat n"
  by (rule bit_word_eqI) (use assms in \<open>simp add: bit_simps bit_of_nat_iff\<close>)

lemma sha512_length_field_small:
  assumes "k < 2 ^ 29"
  shows "sha512_length_field k = fips512_length_field k"
proof -
  have "(ucast (drop_bit 32 (of_nat (8 * k)) :: uint64) :: uint32) = 0"
  proof -
    have "unat (of_nat (8 * k) :: uint64) = 8 * k"
      using assms by (simp only: unsigned_of_nat take_bit_eq_mod) simp
    moreover have "unat (drop_bit 32 w) = unat w div 2 ^ 32" for w :: uint64
      by (simp add: unsigned_drop_bit_eq drop_bit_eq_div unat_div)
    ultimately have "unat (drop_bit 32 (of_nat (8 * k) :: uint64)) = 8 * k div 2 ^ 32" by metis
    then have "drop_bit 32 (of_nat (8 * k) :: uint64) = 0"
      using assms by (simp add: unsigned_eq_0_iff)
    then show ?thesis by simp
  qed
  moreover have "(ucast (of_nat (8 * k) :: uint64) :: uint32) = of_nat (8 * k)"
    by (rule ucast_of_nat_small) simp
  moreover have "replicate 12 (0 :: byte) = replicate 8 0 @ replicate 4 0"
    by (simp flip: replicate_add)
  ultimately show ?thesis
    by (simp add: sha512_length_field_def fips512_length_field_def be64_be32 be32_0)
qed

lemma pad_zeros_count_128:
  assumes "t mod 128 = (l :: nat)"
  shows "(128 - (t + 1 + 16) mod 128) mod 128 = (if l < 112 then 111 - l else 239 - l)"
proof -
  have l: "l < 128" using assms by auto
  have "(t + 1 + 16) mod 128 = (l + 17) mod 128"
    using mod_add_left_eq [of t 128 17] assms by (simp add: add.commute)
  moreover have "(l + 17) mod 128 = (if l < 111 then l + 17 else l - 111)"
    using l by (simp add: le_mod_geq)
  ultimately show ?thesis
    using l by (cases "l < 111"; cases "l = 111") simp_all
qed

lemma sha512_final_digest:
  assumes "sha512_inv s"
  shows "fst (SHA512_final s) = concat (map be64 (foldl fips_sha512_compress (m_h s)
    (pieces 128 (sha512_pend s @ pad_tail 128 16 sha512_length_field (sha512_total s)))))"
proof -
  let ?l = "m_len s"
  define nb where "nb = 1 + (if 128 - 17 < ?l mod 128 then 1 else 0 :: nat)"
  let ?lb = "push_bit 3 (m_tot_len s + of_nat ?l) :: uint32"
  have s: "length (m_h s) = 8" "length (m_block s) = 256" "?l < 128" "128 dvd unat (m_tot_len s)"
    using assms by (simp_all add: sha512_inv_def)
  define z where "z = (if ?l < 112 then 111 - ?l else 239 - ?l)"
  have nb: "128 * nb = ?l + 1 + z + 16"
    using s(3) by (auto simp: nb_def z_def)
  define b1 where "b1 = memset (m_block s) ?l 0 (128 * nb - ?l)"
  define b2 where "b2 = b1[?l := 0x80]"
  define b3 where "b3 = memcpy b2 (128 * nb - 4) (be32 ?lb)"
  have nb2: "128 * nb \<le> 256" by (simp add: nb_def)
  have lb1: "length b1 = 256"
    using s nb nb2 by (simp add: b1_def memset_def)
  have t1: "take (128 * nb) b1 = sha512_pend s @ 0 # replicate (z + 12 + 4) 0"
    using s nb by (simp add: b1_def memset_def sha512_pend_def flip: replicate_Suc)
  have "take (128 * nb) b2 = (take (128 * nb) b1)[?l := 0x80]"
    by (simp add: b2_def take_update_swap)
  also have "\<dots> = sha512_pend s @ [0x80] @ replicate (z + 12 + 4) 0"
    using s unfolding t1 by (simp add: list_update_append sha512_pend_def)
  finally have t2: "take (128 * nb) b2 = (sha512_pend s @ [0x80] @ replicate (z + 12) 0) @ replicate 4 0"
    by (simp only: replicate_add append_assoc)
  have lp: "length (sha512_pend s @ [0x80] @ replicate (z + 12) 0) = 128 * nb - 4"
    using s nb by (simp add: sha512_pend_def)
  have "take (128 * nb - 4) b2 = take (128 * nb - 4) (take (128 * nb) b2)"
    by (simp add: min_def)
  also have "\<dots> = sha512_pend s @ [0x80] @ replicate (z + 12) 0"
    unfolding t2 by (metis append_eq_conv_conj lp)
  finally have "take (128 * nb) b3 = (sha512_pend s @ [0x80] @ replicate (z + 12) 0) @ be32 ?lb"
    using nb nb2 lb1 by (simp add: b3_def b2_def)
  then have t3: "take (128 * nb) b3 = sha512_pend s @ [0x80] @ replicate z 0 @ replicate 12 0 @ be32 ?lb"
    by (simp add: replicate_add)
  have "?lb = of_nat (8 * sha512_total s)"
    by (simp add: sha512_total_def push_bit_eq_mult)
  moreover have "(128 - (sha512_total s + 1 + 16) mod 128) mod 128 = z"
    unfolding z_def by (rule pad_zeros_count_128) (use s in \<open>auto simp: sha512_total_def mod_add_eq elim: dvdE\<close>)
  ultimately have t4: "take (128 * nb) b3 = sha512_pend s @ pad_tail 128 16 sha512_length_field (sha512_total s)"
    using t3 by (simp only: pad_tail_def sha512_length_field_def)
  have lb3: "length b3 = 256" using lb1 nb nb2 by (simp add: b3_def b2_def)
  have le: "128 * nb \<le> length b3" using nb2 lb3 by simp
  note tr = SHA512_transform_pieces [OF s(1) le]
  have "fst (SHA512_final s) = concat (map (\<lambda>i. be64 (SHA512_transform (m_h s) b3 nb ! i)) [0..<8])"
    by (simp add: SHA512_final_def Let_def b1_def b2_def b3_def nb_def)
  also have "map (\<lambda>i. be64 (SHA512_transform (m_h s) b3 nb ! i)) [0..<8] = map be64 (SHA512_transform (m_h s) b3 nb)"
    using tr by (metis map_map map_nth comp_def map_cong)
  also have "SHA512_transform (m_h s) b3 nb = foldl fips_sha512_compress (m_h s)
    (pieces 128 (sha512_pend s @ pad_tail 128 16 sha512_length_field (sha512_total s)))"
    using tr unfolding t4 by blast
  finally show ?thesis .
qed

definition sha512_hex :: "uint64 list \<Rightarrow> string" where
  "sha512_hex H = concat (map hex2 (concat (map be64 H)))"

interpretation sha512d: block_digest 128 fips_sha512_compress SHA512_update sha512_inv m_h
  sha512_pend sha512_total "2 ^ 32" "2 ^ 32 - 128" 16 sha512_length_field
  "\<lambda>s. concat (map hex2 (fst (SHA512_final s)))" sha512_hex
proof unfold_locales
  show "sha512_length_field (k mod 2 ^ 32) = sha512_length_field k" for k
    using of_nat_mod_word [where 'a = 32, of 32 k] by (simp add: sha512_length_field_def)
qed (simp_all add: sha512_length_field_def sha512_final_digest sha512_hex_def)

text \<open>The initial hash value of FIPS 180-4, section 5.3.5.\<close>

definition sha512_H0 :: "uint64 list" where
  "sha512_H0 = [0x6a09e667f3bcc908, 0xbb67ae8584caa73b, 0x3c6ef372fe94f82b, 0xa54ff53a5f1d36f1,
                0x510e527fade682d1, 0x9b05688c2b3e6c1f, 0x1f83d9abfb41bd6b, 0x5be0cd19137e2179]"

definition fips_sha512 :: "byte list \<Rightarrow> string" where
  "fips_sha512 msg = sha512_hex (md_hash 128 16 fips512_length_field fips_sha512_compress sha512_H0 msg)"

lemma sha512_init_laws:
  "sha512_inv (SHA512_init sha512_new)" "sha512_pend (SHA512_init sha512_new) = []"
  "sha512_total (SHA512_init sha512_new) = 0" "m_h (SHA512_init sha512_new) = sha512_H0"
  by (simp_all add: sha512_inv_def SHA512_init_def sha512_new_def sha512_pend_def sha512_total_def
      sha512_H0_def)

lemma md_hash_length_field:
  "enc (length msg) = enc' (length msg) \<Longrightarrow> md_hash n lf enc f h msg = md_hash n lf enc' f h msg"
  by (simp add: md_hash_def pad_tail_def)

lemma sha512_data_digest:
  assumes "length data < 2 ^ 29"
  shows "GetDataSHA512 data = fips_sha512 data"
proof -
  have "take (length data mod 2 ^ 32) data = concat [data]" "\<forall>d \<in> set [data]. length d < 2 ^ 32 - 128"
    using assms by simp_all
  moreover have "md_hash 128 16 sha512_length_field fips_sha512_compress sha512_H0 data =
      md_hash 128 16 fips512_length_field fips_sha512_compress sha512_H0 data"
    by (rule md_hash_length_field) (rule sha512_length_field_small [OF assms])
  ultimately show ?thesis
    using sha512d.digest [OF sha512_init_laws(1-3), of "[data]"]
    by (simp add: GetDataSHA512_def fips_sha512_def sha512_init_laws)
qed

lemma sha512_file_digest:
  assumes "\<forall>d \<in> set reads. length d \<le> 1024" and "length (concat reads) < 2 ^ 29"
  shows "GetFileSHA512 (Some reads) = fips_sha512 (concat reads)"
proof -
  have "\<forall>d \<in> set reads. length d < 2 ^ 32 - 128"
    using assms by fastforce
  moreover have "md_hash 128 16 sha512_length_field fips_sha512_compress sha512_H0 (concat reads) =
      md_hash 128 16 fips512_length_field fips_sha512_compress sha512_H0 (concat reads)"
    by (rule md_hash_length_field) (rule sha512_length_field_small [OF assms(2)])
  ultimately show ?thesis
    using sha512d.digest [OF sha512_init_laws(1-3), of reads]
    by (simp add: GetFileSHA512_def fips_sha512_def sha512_init_laws)
qed

text \<open>For a longer message the length field the code writes is not the one of the standard.\<close>

lemma sha512_length_field_large:
  assumes "2 ^ 29 \<le> k" and "k < 2 ^ 61"
  shows "sha512_length_field k \<noteq> fips512_length_field k"
proof
  assume "sha512_length_field k = fips512_length_field k"
  then have "drop 8 (sha512_length_field k) = drop 8 (fips512_length_field k)" by simp
  moreover have "replicate 12 (0 :: byte) = replicate 8 0 @ replicate 4 0"
    by (simp flip: replicate_add)
  ultimately have "be64 (of_nat (8 * k)) = be32 0 @ be32 (of_nat (8 * k))"
    by (simp add: sha512_length_field_def fips512_length_field_def be32_0)
  then have "be32 (ucast (drop_bit 32 (of_nat (8 * k) :: uint64))) = be32 0"
    unfolding be64_be32 by simp
  then have *: "(ucast (drop_bit 32 (of_nat (8 * k) :: uint64)) :: uint32) = 0"
    by (metis of_be32_be32)
  have "unat (of_nat (8 * k) :: uint64) = 8 * k"
    using assms by (simp only: unsigned_of_nat take_bit_eq_mod) simp
  moreover have "unat (drop_bit 32 w) = unat w div 2 ^ 32" for w :: uint64
    by (simp add: unsigned_drop_bit_eq drop_bit_eq_div unat_div)
  ultimately have h: "unat (drop_bit 32 (of_nat (8 * k) :: uint64)) = 8 * k div 2 ^ 32" by metis
  have "unat (ucast (drop_bit 32 (of_nat (8 * k) :: uint64)) :: uint32) = (8 * k div 2 ^ 32) mod 2 ^ 32"
    by (simp only: unsigned_ucast_eq h take_bit_eq_mod) simp
  moreover have "8 * k div 2 ^ 32 < 2 ^ 32" "0 < 8 * k div 2 ^ 32"
    using assms by simp_all
  ultimately show False using * by simp
qed

section \<open>Properties\<close>

text \<open>Property C4: for data of less than \<open>2 ^ 29\<close> bytes \<open>GetDataSHA512\<close> is the SHA-512 of
  FIPS 180-4, in lower case hexadecimal.\<close>

theorem GetDataSHA512_fips:
  assumes "length data < 2 ^ 29"
  shows "GetDataSHA512 data = fips_sha512 data"
  using assms by (rule sha512_data_digest)

lemma GetDataSHA512_fips_witness: "GetDataSHA512 [97, 98, 99] = fips_sha512 [97, 98, 99]"
  using GetDataSHA512_fips [of "[97, 98, 99]"] by simp

text \<open>For a file of less than \<open>2 ^ 29\<close> bytes \<open>GetFileSHA512\<close> gives the digest of its
  contents, however they are cut by the reads.\<close>

theorem GetFileSHA512_fips:
  assumes "\<forall>d \<in> set reads. length d \<le> 1024" and "length (concat reads) < 2 ^ 29"
  shows "GetFileSHA512 (Some reads) = fips_sha512 (concat reads)"
  using assms by (rule sha512_file_digest)

lemma GetFileSHA512_fips_witness:
  "GetFileSHA512 (Some [[97], [], [98, 99]]) = fips_sha512 [97, 98, 99]"
  using GetFileSHA512_fips [of "[[97], [], [98, 99]]"] by simp

end
