(* ===== verification/Crc32.thy ===== *)
theory Crc32
  imports Stream_Digest
begin

text \<open>
  Model of \<^verbatim>\<open>src/src/crc32.cpp\<close>: the class \<open>CRC32\<close> with its table, and \<open>GetDataCRC32\<close> /
  \<open>GetFileCRC32\<close>. The reference is the bit-serial (reflected) CRC for the polynomial the comment
  of the code names, \<open>0xEDB88320\<close> in reflected form.
\<close>

section \<open>The code\<close>

definition crc32tab :: "uint32 list" where
  "crc32tab = [
     0x0, 0x77073096, 0xee0e612c, 0x990951ba, 0x76dc419, 0x706af48f, 0xe963a535,
     0x9e6495a3, 0xedb8832, 0x79dcb8a4, 0xe0d5e91e, 0x97d2d988, 0x9b64c2b, 0x7eb17cbd,
     0xe7b82d07, 0x90bf1d91, 0x1db71064, 0x6ab020f2, 0xf3b97148, 0x84be41de, 0x1adad47d,
     0x6ddde4eb, 0xf4d4b551, 0x83d385c7, 0x136c9856, 0x646ba8c0, 0xfd62f97a, 0x8a65c9ec,
     0x14015c4f, 0x63066cd9, 0xfa0f3d63, 0x8d080df5, 0x3b6e20c8, 0x4c69105e, 0xd56041e4,
     0xa2677172, 0x3c03e4d1, 0x4b04d447, 0xd20d85fd, 0xa50ab56b, 0x35b5a8fa, 0x42b2986c,
     0xdbbbc9d6, 0xacbcf940, 0x32d86ce3, 0x45df5c75, 0xdcd60dcf, 0xabd13d59, 0x26d930ac,
     0x51de003a, 0xc8d75180, 0xbfd06116, 0x21b4f4b5, 0x56b3c423, 0xcfba9599, 0xb8bda50f,
     0x2802b89e, 0x5f058808, 0xc60cd9b2, 0xb10be924, 0x2f6f7c87, 0x58684c11, 0xc1611dab,
     0xb6662d3d, 0x76dc4190, 0x1db7106, 0x98d220bc, 0xefd5102a, 0x71b18589, 0x6b6b51f,
     0x9fbfe4a5, 0xe8b8d433, 0x7807c9a2, 0xf00f934, 0x9609a88e, 0xe10e9818, 0x7f6a0dbb,
     0x86d3d2d, 0x91646c97, 0xe6635c01, 0x6b6b51f4, 0x1c6c6162, 0x856530d8, 0xf262004e,
     0x6c0695ed, 0x1b01a57b, 0x8208f4c1, 0xf50fc457, 0x65b0d9c6, 0x12b7e950, 0x8bbeb8ea,
     0xfcb9887c, 0x62dd1ddf, 0x15da2d49, 0x8cd37cf3, 0xfbd44c65, 0x4db26158, 0x3ab551ce,
     0xa3bc0074, 0xd4bb30e2, 0x4adfa541, 0x3dd895d7, 0xa4d1c46d, 0xd3d6f4fb, 0x4369e96a,
     0x346ed9fc, 0xad678846, 0xda60b8d0, 0x44042d73, 0x33031de5, 0xaa0a4c5f, 0xdd0d7cc9,
     0x5005713c, 0x270241aa, 0xbe0b1010, 0xc90c2086, 0x5768b525, 0x206f85b3, 0xb966d409,
     0xce61e49f, 0x5edef90e, 0x29d9c998, 0xb0d09822, 0xc7d7a8b4, 0x59b33d17, 0x2eb40d81,
     0xb7bd5c3b, 0xc0ba6cad, 0xedb88320, 0x9abfb3b6, 0x3b6e20c, 0x74b1d29a, 0xead54739,
     0x9dd277af, 0x4db2615, 0x73dc1683, 0xe3630b12, 0x94643b84, 0xd6d6a3e, 0x7a6a5aa8,
     0xe40ecf0b, 0x9309ff9d, 0xa00ae27, 0x7d079eb1, 0xf00f9344, 0x8708a3d2, 0x1e01f268,
     0x6906c2fe, 0xf762575d, 0x806567cb, 0x196c3671, 0x6e6b06e7, 0xfed41b76, 0x89d32be0,
     0x10da7a5a, 0x67dd4acc, 0xf9b9df6f, 0x8ebeeff9, 0x17b7be43, 0x60b08ed5, 0xd6d6a3e8,
     0xa1d1937e, 0x38d8c2c4, 0x4fdff252, 0xd1bb67f1, 0xa6bc5767, 0x3fb506dd, 0x48b2364b,
     0xd80d2bda, 0xaf0a1b4c, 0x36034af6, 0x41047a60, 0xdf60efc3, 0xa867df55, 0x316e8eef,
     0x4669be79, 0xcb61b38c, 0xbc66831a, 0x256fd2a0, 0x5268e236, 0xcc0c7795, 0xbb0b4703,
     0x220216b9, 0x5505262f, 0xc5ba3bbe, 0xb2bd0b28, 0x2bb45a92, 0x5cb36a04, 0xc2d7ffa7,
     0xb5d0cf31, 0x2cd99e8b, 0x5bdeae1d, 0x9b64c2b0, 0xec63f226, 0x756aa39c, 0x26d930a,
     0x9c0906a9, 0xeb0e363f, 0x72076785, 0x5005713, 0x95bf4a82, 0xe2b87a14, 0x7bb12bae,
     0xcb61b38, 0x92d28e9b, 0xe5d5be0d, 0x7cdcefb7, 0xbdbdf21, 0x86d3d2d4, 0xf1d4e242,
     0x68ddb3f8, 0x1fda836e, 0x81be16cd, 0xf6b9265b, 0x6fb077e1, 0x18b74777, 0x88085ae6,
     0xff0f6a70, 0x66063bca, 0x11010b5c, 0x8f659eff, 0xf862ae69, 0x616bffd3, 0x166ccf45,
     0xa00ae278, 0xd70dd2ee, 0x4e048354, 0x3903b3c2, 0xa7672661, 0xd06016f7, 0x4969474d,
     0x3e6e77db, 0xaed16a4a, 0xd9d65adc, 0x40df0b66, 0x37d83bf0, 0xa9bcae53, 0xdebb9ec5,
     0x47b2cf7f, 0x30b5ffe9, 0xbdbdf21c, 0xcabac28a, 0x53b39330, 0x24b4a3a6, 0xbad03605,
     0xcdd70693, 0x54de5729, 0x23d967bf, 0xb3667a2e, 0xc4614ab8, 0x5d681b02, 0x2a6f2b94,
     0xb40bbe37, 0xc30c8ea1, 0x5a05df1b, 0x2d02ef8d]"

record crc32_ctx =
  ulCRC32 :: uint32

definition CRC32_init :: "crc32_ctx \<Rightarrow> crc32_ctx" where
  "CRC32_init c = c\<lparr>ulCRC32 := 0xFFFFFFFF\<rparr>"

definition CRC32_byte :: "uint32 \<Rightarrow> byte \<Rightarrow> uint32" where
  "CRC32_byte crc b = drop_bit 8 crc XOR crc32tab ! unat (ucast b XOR (crc AND 0x000000FF))"

definition CRC32_update :: "crc32_ctx \<Rightarrow> byte list \<Rightarrow> crc32_ctx" where
  "CRC32_update c data = c\<lparr>ulCRC32 := foldl CRC32_byte (ulCRC32 c) data\<rparr>"

definition CRC32_finish :: "crc32_ctx \<Rightarrow> crc32_ctx" where
  "CRC32_finish c = c\<lparr>ulCRC32 := NOT (ulCRC32 c)\<rparr>"

text \<open>\<open>snprintf(szCRC, sizeof(szCRC), "%08x", ulCRC32_)\<close>.\<close>

definition CRC32_digest :: "crc32_ctx \<Rightarrow> string" where
  "CRC32_digest c = concat (map hex2 (be32 (ulCRC32 c)))"

definition CRC32_new :: crc32_ctx where
  "CRC32_new = \<lparr>ulCRC32 = 0\<rparr>"

definition GetDataCRC32 :: "byte list \<Rightarrow> string" where
  "GetDataCRC32 data =
     CRC32_digest (CRC32_finish (data_loop CRC32_update (CRC32_init CRC32_new) data 0))"

text \<open>\<open>reads\<close> are the successive non-empty results of \<open>file.readFrom(szData, 1024, -1)\<close>.\<close>

definition GetFileCRC32 :: "byte list list option \<Rightarrow> string" where
  "GetFileCRC32 file = (case file of
     None \<Rightarrow> []
   | Some reads \<Rightarrow>
       CRC32_digest (CRC32_finish (foldl CRC32_update (CRC32_init CRC32_new) reads)))"

section \<open>Reference: the bit-serial division\<close>

definition crc_poly :: uint32 where
  "crc_poly = 0xEDB88320"

definition crc_bit :: "uint32 \<Rightarrow> uint32" where
  "crc_bit c = drop_bit 1 c XOR (if bit c 0 then crc_poly else 0)"

primrec crc_bits :: "nat \<Rightarrow> uint32 \<Rightarrow> uint32" where
  "crc_bits 0 c = c"
| "crc_bits (Suc n) c = crc_bits n (crc_bit c)"

definition crc32_spec :: "byte list \<Rightarrow> uint32" where
  "crc32_spec data = NOT (foldl (\<lambda>c b. crc_bits 8 (c XOR ucast b)) 0xFFFFFFFF data)"

section \<open>The table is right\<close>

lemma crc_bit_xor: "crc_bit (x XOR y) = crc_bit x XOR crc_bit y"
  by (auto simp: crc_bit_def bit_xor_iff xor.assoc xor.left_commute xor.commute)

lemma crc_bits_xor: "crc_bits n (x XOR y) = crc_bits n x XOR crc_bits n y"
  by (induction n arbitrary: x y) (simp_all add: crc_bit_xor)

lemma crc_bits_high:
  assumes "\<And>k. k < n \<Longrightarrow> \<not> bit x k"
  shows "crc_bits n x = drop_bit n x"
  using assms
proof (induction n arbitrary: x)
  case (Suc n)
  have "crc_bit x = drop_bit 1 x" using Suc.prems [of 0] by (simp add: crc_bit_def)
  moreover have "\<not> bit (drop_bit 1 x) k" if "k < n" for k
    using Suc.prems [of "Suc k"] that by (simp add: bit_drop_bit_eq)
  ultimately show ?case using Suc.IH [of "drop_bit 1 x"] by simp
qed simp

text \<open>
  The table is linear: row \<open>j\<close> (the entries \<open>2 ^ j .. 2 ^ (j + 1) - 1\<close>) is the row below it with
  the entry at \<open>2 ^ j\<close> added. So it is enough to compute the eight entries at powers of two.
\<close>

definition crc_row_ok :: "nat \<Rightarrow> bool" where
  "crc_row_ok j \<longleftrightarrow> take (2 ^ j) (drop (2 ^ j) crc32tab) =
     map (\<lambda>t. crc32tab ! (2 ^ j) XOR t) (take (2 ^ j) crc32tab)"

lemma crc_rows: "j < 8 \<Longrightarrow> crc_row_ok j"
proof -
  have "crc_row_ok 0" "crc_row_ok 1" "crc_row_ok 2" "crc_row_ok 3" "crc_row_ok 4" "crc_row_ok 5"
    "crc_row_ok 6" "crc_row_ok 7"
    by (simp_all add: crc_row_ok_def crc32tab_def)
  moreover assume "j < 8"
  then have "j = 0 \<or> j = 1 \<or> j = 2 \<or> j = 3 \<or> j = 4 \<or> j = 5 \<or> j = 6 \<or> j = 7" by linarith
  ultimately show ?thesis by blast
qed

lemma crc_powers_list:
  "map (\<lambda>j. crc32tab ! (2 ^ j)) [0, 1, 2, 3, 4, 5, 6, 7] = map (\<lambda>j. crc_bits 8 (2 ^ j)) [0, 1, 2, 3, 4, 5, 6, 7]"
  by code_simp

lemma crc_powers: "j < 8 \<Longrightarrow> crc32tab ! (2 ^ j) = crc_bits 8 (2 ^ j)"
proof -
  assume "j < 8"
  then have "j \<in> set [0, 1, 2, 3, 4, 5, 6, 7]" by auto
  then show ?thesis using crc_powers_list by (simp only: map_eq_conv)
qed

lemma crc_bits_0: "crc_bits n 0 = 0"
  by (induction n) (simp_all add: crc_bit_def)

text \<open>Every entry is the reminder of its index.\<close>

lemma crc32tab_spec: "n \<le> 8 \<Longrightarrow> k < 2 ^ n \<Longrightarrow> crc32tab ! k = crc_bits 8 (of_nat k)"
proof (induction n arbitrary: k)
  case 0
  then show ?case by (simp add: crc_bits_0 crc32tab_def)
next
  case (Suc n)
  show ?case
  proof (cases "k < 2 ^ n")
    case True
    then show ?thesis using Suc by simp
  next
    case False
    define m where "m = k - 2 ^ n"
    have m: "k = 2 ^ n + m" "m < 2 ^ n" using False Suc.prems by (simp_all add: m_def)
    have len: "length crc32tab = 256" by (simp add: crc32tab_def)
    have "(2 :: nat) ^ Suc n \<le> 2 ^ 8" using Suc.prems by (intro power_increasing) simp_all
    then have le: "2 ^ n + (2 :: nat) ^ n \<le> 256" by simp
    have "crc32tab ! k = take (2 ^ n) (drop (2 ^ n) crc32tab) ! m"
      using m le len by simp
    also have "\<dots> = crc32tab ! (2 ^ n) XOR crc32tab ! m"
      using crc_rows [of n] Suc.prems m le len by (simp add: crc_row_ok_def)
    also have "\<dots> = crc_bits 8 (2 ^ n) XOR crc_bits 8 (of_nat m)"
      using crc_powers [of n] Suc.IH [of m] Suc.prems m by simp
    also have "\<dots> = crc_bits 8 (2 ^ n XOR of_nat m)"
      by (simp only: crc_bits_xor)
    also have "(2 ^ n XOR of_nat m :: uint32) = of_nat k"
    proof -
      have "\<not> bit (of_nat m :: uint32) n"
        using bit_of_nat_small [OF m(2), of n] by auto
      then have "(2 ^ n :: uint32) AND of_nat m = 0"
        by (intro bit_word_eqI) (auto simp: bit_simps)
      then have "(2 ^ n :: uint32) + of_nat m = 2 ^ n XOR of_nat m"
        by (simp add: disjunctive_add_eq_xor)
      then show ?thesis by (simp add: m(1))
    qed
    finally show ?thesis .
  qed
qed

lemma CRC32_byte_spec: "CRC32_byte c b = crc_bits 8 (c XOR ucast b)"
proof -
  define low where "low = ucast b XOR (c AND 0xFF)"
  have ff: "c AND 0xFF = take_bit 8 c" by (simp add: take_bit_eq_mask mask_eq_exp_minus_1)
  have "low = take_bit 8 low"
    unfolding low_def ff by (rule bit_word_eqI) (auto simp: bit_simps dest: bit_byte_8)
  then have "unat low < 2 ^ 8"
    by (metis take_bit_eq_mod unsigned_take_bit_eq mod_less_divisor zero_less_power zero_less_numeral)
  then have "crc32tab ! unat low = crc_bits 8 low"
    using crc32tab_spec [of 8 "unat low"] by simp
  moreover have "crc_bits 8 (push_bit 8 (drop_bit 8 c)) = drop_bit 8 c"
  proof (subst crc_bits_high)
    show "drop_bit 8 (push_bit 8 (drop_bit 8 c)) = drop_bit 8 c"
    proof (rule bit_word_eqI)
      fix n assume "n < LENGTH(32)"
      then show "bit (drop_bit 8 (push_bit 8 (drop_bit 8 c))) n = bit (drop_bit 8 c) n"
        using bit_imp_le_length [of c "8 + n"] by (auto simp: bit_simps)
    qed
  qed (simp add: bit_simps)
  moreover have "c XOR ucast b = push_bit 8 (drop_bit 8 c) XOR low"
    unfolding low_def ff by (rule bit_word_eqI) (auto simp: bit_simps dest: bit_byte_8)
  ultimately show ?thesis
    by (simp only: CRC32_byte_def crc_bits_xor low_def)
qed

lemma CRC32_update_foldl: "ulCRC32 (foldl CRC32_update c ds) = foldl CRC32_byte (ulCRC32 c) (concat ds)"
  by (induction ds arbitrary: c) (simp_all add: CRC32_update_def)

lemma crc32_reads:
  "CRC32_digest (CRC32_finish (foldl CRC32_update (CRC32_init CRC32_new) ds)) =
   concat (map hex2 (be32 (crc32_spec (concat ds))))"
  by (simp add: CRC32_digest_def CRC32_finish_def CRC32_update_foldl CRC32_init_def crc32_spec_def
      CRC32_byte_spec [abs_def])

lemma crc32_data_digest: "GetDataCRC32 data = concat (map hex2 (be32 (crc32_spec data)))"
  by (simp add: GetDataCRC32_def data_loop_pieces crc32_reads concat_pieces)

lemma crc32_file_digest: "GetFileCRC32 (Some reads) = concat (map hex2 (be32 (crc32_spec (concat reads))))"
  by (simp add: GetFileCRC32_def crc32_reads)

text \<open>The checksum is affine: a change of the data is detected through the CRC of the difference.\<close>

lemma crc32_spec_affine:
  assumes "length a = length b"
  shows "foldl CRC32_byte (x XOR y) (map2 (XOR) a b) = foldl CRC32_byte x a XOR foldl CRC32_byte y b"
  using assms
proof (induction a b arbitrary: x y rule: list_induct2)
  case (Cons u us v vs)
  have "(x XOR y) XOR ucast (u XOR v) = (x XOR ucast u) XOR (y XOR (ucast v :: uint32))"
    by (rule bit_word_eqI) (auto simp: bit_simps)
  then have "CRC32_byte (x XOR y) (u XOR v) = CRC32_byte x u XOR CRC32_byte y v"
    by (simp only: CRC32_byte_spec crc_bits_xor)
  with Cons.IH show ?case by simp
qed simp

section \<open>Properties\<close>

text \<open>Property C5: the table-driven \<open>GetDataCRC32\<close> is the bit-serial CRC-32 with the polynomial of
  the comment, printed with eight hexadecimal digits.\<close>

theorem GetDataCRC32_spec: "GetDataCRC32 data = concat (map hex2 (be32 (crc32_spec data)))"
  by (rule crc32_data_digest)

text \<open>\<open>GetFileCRC32\<close> is the checksum of the contents of the file, however its contents
  are cut by the reads.\<close>

theorem GetFileCRC32_spec:
  "GetFileCRC32 (Some reads) = concat (map hex2 (be32 (crc32_spec (concat reads))))"
  by (rule crc32_file_digest)

end
