(* ===== verification/Aes.thy ===== *)
theory Aes
  imports Prelude
begin

text \<open>
  Model of \<^verbatim>\<open>src/src/aes.cpp\<close>: AES-128 (\<open>Nk = 4\<close>, \<open>Nr = 10\<close>) with its tables, key expansion, round
  functions and their inverses, and the enciphering of one block. A \<open>state_t\<close> is a list of 16 bytes in which
  \<open>state[i][j]\<close> is the position \<open>4 * i + j\<close>. Deciphering inverts enciphering for every key. The
  modes and the interface functions are in the theory \<open>Aes_Modes\<close>.
\<close>

section \<open>Tables\<close>

text \<open>The tables \<open>sbox\<close> and \<open>rsbox\<close> of the code, written in decimal, and \<open>Rcon\<close>.\<close>

definition sbox :: "byte list" where
  "sbox = [
     99, 124, 119, 123, 242, 107, 111, 197, 48, 1, 103, 43, 254, 215, 171, 118,
     202, 130, 201, 125, 250, 89, 71, 240, 173, 212, 162, 175, 156, 164, 114, 192,
     183, 253, 147, 38, 54, 63, 247, 204, 52, 165, 229, 241, 113, 216, 49, 21,
     4, 199, 35, 195, 24, 150, 5, 154, 7, 18, 128, 226, 235, 39, 178, 117,
     9, 131, 44, 26, 27, 110, 90, 160, 82, 59, 214, 179, 41, 227, 47, 132,
     83, 209, 0, 237, 32, 252, 177, 91, 106, 203, 190, 57, 74, 76, 88, 207,
     208, 239, 170, 251, 67, 77, 51, 133, 69, 249, 2, 127, 80, 60, 159, 168,
     81, 163, 64, 143, 146, 157, 56, 245, 188, 182, 218, 33, 16, 255, 243, 210,
     205, 12, 19, 236, 95, 151, 68, 23, 196, 167, 126, 61, 100, 93, 25, 115,
     96, 129, 79, 220, 34, 42, 144, 136, 70, 238, 184, 20, 222, 94, 11, 219,
     224, 50, 58, 10, 73, 6, 36, 92, 194, 211, 172, 98, 145, 149, 228, 121,
     231, 200, 55, 109, 141, 213, 78, 169, 108, 86, 244, 234, 101, 122, 174, 8,
     186, 120, 37, 46, 28, 166, 180, 198, 232, 221, 116, 31, 75, 189, 139, 138,
     112, 62, 181, 102, 72, 3, 246, 14, 97, 53, 87, 185, 134, 193, 29, 158,
     225, 248, 152, 17, 105, 217, 142, 148, 155, 30, 135, 233, 206, 85, 40, 223,
     140, 161, 137, 13, 191, 230, 66, 104, 65, 153, 45, 15, 176, 84, 187, 22]"

definition rsbox :: "byte list" where
  "rsbox = [
     82, 9, 106, 213, 48, 54, 165, 56, 191, 64, 163, 158, 129, 243, 215, 251,
     124, 227, 57, 130, 155, 47, 255, 135, 52, 142, 67, 68, 196, 222, 233, 203,
     84, 123, 148, 50, 166, 194, 35, 61, 238, 76, 149, 11, 66, 250, 195, 78,
     8, 46, 161, 102, 40, 217, 36, 178, 118, 91, 162, 73, 109, 139, 209, 37,
     114, 248, 246, 100, 134, 104, 152, 22, 212, 164, 92, 204, 93, 101, 182, 146,
     108, 112, 72, 80, 253, 237, 185, 218, 94, 21, 70, 87, 167, 141, 157, 132,
     144, 216, 171, 0, 140, 188, 211, 10, 247, 228, 88, 5, 184, 179, 69, 6,
     208, 44, 30, 143, 202, 63, 15, 2, 193, 175, 189, 3, 1, 19, 138, 107,
     58, 145, 17, 65, 79, 103, 220, 234, 151, 242, 207, 206, 240, 180, 230, 115,
     150, 172, 116, 34, 231, 173, 53, 133, 226, 249, 55, 232, 28, 117, 223, 110,
     71, 241, 26, 113, 29, 41, 197, 137, 111, 183, 98, 14, 170, 24, 190, 27,
     252, 86, 62, 75, 198, 210, 121, 32, 154, 219, 192, 254, 120, 205, 90, 244,
     31, 221, 168, 51, 136, 7, 199, 49, 177, 18, 16, 89, 39, 128, 236, 95,
     96, 81, 127, 169, 25, 181, 74, 13, 45, 229, 122, 159, 147, 201, 156, 239,
     160, 224, 59, 77, 174, 42, 245, 176, 200, 235, 187, 60, 131, 83, 153, 97,
     23, 43, 4, 126, 186, 119, 214, 38, 225, 105, 20, 99, 85, 33, 12, 125]"

definition Rcon :: "byte list" where
  "Rcon = [0x8d, 0x01, 0x02, 0x04, 0x08, 0x10, 0x20, 0x40, 0x80, 0x1b, 0x36]"

definition getSBoxValue :: "byte \<Rightarrow> byte" where
  "getSBoxValue num = sbox ! unat num"

definition getSBoxInvert :: "byte \<Rightarrow> byte" where
  "getSBoxInvert num = rsbox ! unat num"

section \<open>Key expansion\<close>

text \<open>The words \<open>RoundKey[4 * i .. 4 * i + 3]\<close> are appended in the order in which they are set.\<close>

definition KeyExpansion_word :: "nat \<Rightarrow> byte list \<Rightarrow> byte list" where
  "KeyExpansion_word i RoundKey =
     (let k = (i - 1) * 4;
          tempa = [RoundKey ! (k + 0), RoundKey ! (k + 1), RoundKey ! (k + 2), RoundKey ! (k + 3)];
          tempa =
            (if i mod 4 = 0
             then let tempa = [tempa ! 1, tempa ! 2, tempa ! 3, tempa ! 0];
                      tempa = map getSBoxValue tempa
                  in tempa[0 := tempa ! 0 XOR Rcon ! (i div 4)]
             else tempa);
          k = (i - 4) * 4
      in RoundKey @ [RoundKey ! (k + 0) XOR tempa ! 0, RoundKey ! (k + 1) XOR tempa ! 1,
                     RoundKey ! (k + 2) XOR tempa ! 2, RoundKey ! (k + 3) XOR tempa ! 3])"

definition KeyExpansion :: "byte list \<Rightarrow> byte list" where
  "KeyExpansion Key =
     fold KeyExpansion_word [4..<4 * (10 + 1)]
       (concat (map (\<lambda>i. [Key ! (i * 4 + 0), Key ! (i * 4 + 1), Key ! (i * 4 + 2), Key ! (i * 4 + 3)])
         [0..<4]))"

section \<open>The round functions\<close>

definition AddRoundKey :: "nat \<Rightarrow> byte list \<Rightarrow> byte list \<Rightarrow> byte list" where
  "AddRoundKey round s RoundKey =
     fold (\<lambda>i s. fold (\<lambda>j s. s[4 * i + j := s ! (4 * i + j) XOR RoundKey ! (round * 4 * 4 + (i * 4) + j)])
       [0, 1, 2, 3] s) [0, 1, 2, 3] s"

definition SubBytes :: "byte list \<Rightarrow> byte list" where
  "SubBytes s =
     fold (\<lambda>i s. fold (\<lambda>j s. s[4 * j + i := getSBoxValue (s ! (4 * j + i))])
       [0, 1, 2, 3] s) [0, 1, 2, 3] s"

definition ShiftRows :: "byte list \<Rightarrow> byte list" where
  "ShiftRows s =
     (let temp = s ! (4 * 0 + 1);
          s = s[4 * 0 + 1 := s ! (4 * 1 + 1)];
          s = s[4 * 1 + 1 := s ! (4 * 2 + 1)];
          s = s[4 * 2 + 1 := s ! (4 * 3 + 1)];
          s = s[4 * 3 + 1 := temp];
          temp = s ! (4 * 0 + 2);
          s = s[4 * 0 + 2 := s ! (4 * 2 + 2)];
          s = s[4 * 2 + 2 := temp];
          temp = s ! (4 * 1 + 2);
          s = s[4 * 1 + 2 := s ! (4 * 3 + 2)];
          s = s[4 * 3 + 2 := temp];
          temp = s ! (4 * 0 + 3);
          s = s[4 * 0 + 3 := s ! (4 * 3 + 3)];
          s = s[4 * 3 + 3 := s ! (4 * 2 + 3)];
          s = s[4 * 2 + 3 := s ! (4 * 1 + 3)]
      in s[4 * 1 + 3 := temp])"

definition xtime :: "byte \<Rightarrow> byte" where
  "xtime x = push_bit 1 x XOR ((drop_bit 7 x AND 1) * 0x1b)"

definition MixColumns_column :: "nat \<Rightarrow> byte list \<Rightarrow> byte list" where
  "MixColumns_column i s =
     (let t = s ! (4 * i + 0);
          Tmp = s ! (4 * i + 0) XOR s ! (4 * i + 1) XOR s ! (4 * i + 2) XOR s ! (4 * i + 3);
          Tm = s ! (4 * i + 0) XOR s ! (4 * i + 1);
          Tm = xtime Tm;
          s = s[4 * i + 0 := s ! (4 * i + 0) XOR (Tm XOR Tmp)];
          Tm = s ! (4 * i + 1) XOR s ! (4 * i + 2);
          Tm = xtime Tm;
          s = s[4 * i + 1 := s ! (4 * i + 1) XOR (Tm XOR Tmp)];
          Tm = s ! (4 * i + 2) XOR s ! (4 * i + 3);
          Tm = xtime Tm;
          s = s[4 * i + 2 := s ! (4 * i + 2) XOR (Tm XOR Tmp)];
          Tm = s ! (4 * i + 3) XOR t;
          Tm = xtime Tm
      in s[4 * i + 3 := s ! (4 * i + 3) XOR (Tm XOR Tmp)])"

definition MixColumns :: "byte list \<Rightarrow> byte list" where
  "MixColumns s = fold MixColumns_column [0, 1, 2, 3] s"

definition Multiply :: "byte \<Rightarrow> byte \<Rightarrow> byte" where
  "Multiply x y =
     ((y AND 1) * x) XOR
     ((drop_bit 1 y AND 1) * xtime x) XOR
     ((drop_bit 2 y AND 1) * xtime (xtime x)) XOR
     ((drop_bit 3 y AND 1) * xtime (xtime (xtime x))) XOR
     ((drop_bit 4 y AND 1) * xtime (xtime (xtime (xtime x))))"

definition InvMixColumns_column :: "nat \<Rightarrow> byte list \<Rightarrow> byte list" where
  "InvMixColumns_column i s =
     (let a = s ! (4 * i + 0);
          b = s ! (4 * i + 1);
          c = s ! (4 * i + 2);
          d = s ! (4 * i + 3);
          s = s[4 * i + 0 := Multiply a 0x0e XOR Multiply b 0x0b XOR Multiply c 0x0d XOR Multiply d 0x09];
          s = s[4 * i + 1 := Multiply a 0x09 XOR Multiply b 0x0e XOR Multiply c 0x0b XOR Multiply d 0x0d];
          s = s[4 * i + 2 := Multiply a 0x0d XOR Multiply b 0x09 XOR Multiply c 0x0e XOR Multiply d 0x0b]
      in s[4 * i + 3 := Multiply a 0x0b XOR Multiply b 0x0d XOR Multiply c 0x09 XOR Multiply d 0x0e])"

definition InvMixColumns :: "byte list \<Rightarrow> byte list" where
  "InvMixColumns s = fold InvMixColumns_column [0, 1, 2, 3] s"

definition InvSubBytes :: "byte list \<Rightarrow> byte list" where
  "InvSubBytes s =
     fold (\<lambda>i s. fold (\<lambda>j s. s[4 * j + i := getSBoxInvert (s ! (4 * j + i))])
       [0, 1, 2, 3] s) [0, 1, 2, 3] s"

definition InvShiftRows :: "byte list \<Rightarrow> byte list" where
  "InvShiftRows s =
     (let temp = s ! (4 * 3 + 1);
          s = s[4 * 3 + 1 := s ! (4 * 2 + 1)];
          s = s[4 * 2 + 1 := s ! (4 * 1 + 1)];
          s = s[4 * 1 + 1 := s ! (4 * 0 + 1)];
          s = s[4 * 0 + 1 := temp];
          temp = s ! (4 * 0 + 2);
          s = s[4 * 0 + 2 := s ! (4 * 2 + 2)];
          s = s[4 * 2 + 2 := temp];
          temp = s ! (4 * 1 + 2);
          s = s[4 * 1 + 2 := s ! (4 * 3 + 2)];
          s = s[4 * 3 + 2 := temp];
          temp = s ! (4 * 0 + 3);
          s = s[4 * 0 + 3 := s ! (4 * 1 + 3)];
          s = s[4 * 1 + 3 := s ! (4 * 2 + 3)];
          s = s[4 * 2 + 3 := s ! (4 * 3 + 3)]
      in s[4 * 3 + 3 := temp])"

text \<open>The body of the loop of \<open>Cipher\<close> and of \<open>InvCipher\<close>.\<close>

definition Cipher_round :: "byte list \<Rightarrow> nat \<Rightarrow> byte list \<Rightarrow> byte list" where
  "Cipher_round RoundKey round s = AddRoundKey round (MixColumns (ShiftRows (SubBytes s))) RoundKey"

definition Cipher :: "byte list \<Rightarrow> byte list \<Rightarrow> byte list" where
  "Cipher s RoundKey =
     (let s = AddRoundKey 0 s RoundKey;
          s = fold (Cipher_round RoundKey) [1..<10] s;
          s = SubBytes s;
          s = ShiftRows s
      in AddRoundKey 10 s RoundKey)"

definition InvCipher_round :: "byte list \<Rightarrow> nat \<Rightarrow> byte list \<Rightarrow> byte list" where
  "InvCipher_round RoundKey round s =
     InvMixColumns (AddRoundKey round (InvSubBytes (InvShiftRows s)) RoundKey)"

definition InvCipher :: "byte list \<Rightarrow> byte list \<Rightarrow> byte list" where
  "InvCipher s RoundKey =
     (let s = AddRoundKey 10 s RoundKey;
          s = fold (InvCipher_round RoundKey) (rev [1..<10]) s;
          s = InvShiftRows s;
          s = InvSubBytes s
      in AddRoundKey 0 s RoundKey)"

section \<open>Deciphering inverts enciphering\<close>

lemma sbox_inverse_table: "map (\<lambda>b. rsbox ! unat b) sbox = map of_nat [0..<256]"
  by code_simp

lemma getSBoxInvert_Value: "getSBoxInvert (getSBoxValue b) = b"
proof -
  have "unat b < 256" using unsigned_less [of b, where ?'a = nat] by simp
  moreover have "length sbox = 256" by (simp add: sbox_def)
  ultimately have "rsbox ! unat (sbox ! unat b) = map (\<lambda>b. rsbox ! unat b) sbox ! unat b" by simp
  also have "\<dots> = b" using \<open>unat b < 256\<close> by (simp add: sbox_inverse_table)
  finally show ?thesis by (simp add: getSBoxInvert_def getSBoxValue_def)
qed

lemma SubBytes_map: "length s = 16 \<Longrightarrow> SubBytes s = map getSBoxValue s"
  by (subst (1 2) list_length_16) (simp_all add: SubBytes_def)

lemma InvSubBytes_map: "length s = 16 \<Longrightarrow> InvSubBytes s = map getSBoxInvert s"
  by (subst (1 2) list_length_16) (simp_all add: InvSubBytes_def)

lemma AddRoundKey_map:
  assumes "length s = 16"
  shows "AddRoundKey r s rk = map (\<lambda>n. s ! n XOR rk ! (16 * r + n)) [0..<16]"
  using assms by (subst list_length_16 [OF assms]) (simp add: AddRoundKey_def upt_16 add.commute)

lemma xtime_xor: "xtime (x XOR y) = xtime x XOR xtime y"
proof -
  have "(drop_bit 7 (x XOR y) AND 1 :: byte) = (drop_bit 7 x AND 1) XOR (drop_bit 7 y AND 1)"
    by (rule bit_word_eqI) (auto simp: bit_simps)
  moreover have "(drop_bit 7 z AND 1 :: byte) = 0 \<or> (drop_bit 7 z AND 1 :: byte) = 1" for z
    by (auto simp: and_one_eq odd_iff_mod_2_eq_one)
  ultimately have "(drop_bit 7 (x XOR y) AND 1) * 0x1b = ((drop_bit 7 x AND 1) * 0x1b) XOR ((drop_bit 7 y AND 1) * (0x1b :: byte))"
    by (metis (no_types) xor_self_eq mult_zero_left xor.left_neutral xor.right_neutral)
  then show ?thesis
    by (simp add: xtime_def push_bit_xor ac_simps)
qed

lemma Multiply_consts:
  "Multiply x 0x0e = xtime x XOR xtime (xtime x) XOR xtime (xtime (xtime x))"
  "Multiply x 0x0b = x XOR xtime x XOR xtime (xtime (xtime x))"
  "Multiply x 0x0d = x XOR xtime (xtime x) XOR xtime (xtime (xtime x))"
  "Multiply x 0x09 = x XOR xtime (xtime (xtime x))"
  by (simp_all add: Multiply_def)

text \<open>One column as FIPS 197 has it: the matrix of the coefficients 2, 3, 1, 1.\<close>

definition fips_mix_column :: "byte list \<Rightarrow> byte list" where
  "fips_mix_column c =
     [xtime (c ! 0) XOR (xtime (c ! 1) XOR c ! 1) XOR c ! 2 XOR c ! 3,
      c ! 0 XOR xtime (c ! 1) XOR (xtime (c ! 2) XOR c ! 2) XOR c ! 3,
      c ! 0 XOR c ! 1 XOR xtime (c ! 2) XOR (xtime (c ! 3) XOR c ! 3),
      (xtime (c ! 0) XOR c ! 0) XOR c ! 1 XOR c ! 2 XOR xtime (c ! 3)]"

definition fips_inv_mix_column :: "byte list \<Rightarrow> byte list" where
  "fips_inv_mix_column c =
     (let a = c ! 0; b = c ! 1; e = c ! 2; d = c ! 3
      in [Multiply a 0x0e XOR Multiply b 0x0b XOR Multiply e 0x0d XOR Multiply d 0x09,
          Multiply a 0x09 XOR Multiply b 0x0e XOR Multiply e 0x0b XOR Multiply d 0x0d,
          Multiply a 0x0d XOR Multiply b 0x09 XOR Multiply e 0x0e XOR Multiply d 0x0b,
          Multiply a 0x0b XOR Multiply b 0x0d XOR Multiply e 0x09 XOR Multiply d 0x0e])"

lemma fips_inv_mix: "fips_inv_mix_column (fips_mix_column [a, b, c, d]) = [a, b, c, d]"
  by (simp add: fips_mix_column_def fips_inv_mix_column_def Let_def Multiply_consts xtime_xor ac_simps)

text \<open>The column operations in place are the operations on the columns.\<close>

lemma column_ops:
  assumes "length p = 4 * i"
  shows "MixColumns_column i (p @ [a, b, c, d] @ r) = p @ fips_mix_column [a, b, c, d] @ r"
    and "InvMixColumns_column i (p @ [a, b, c, d] @ r) = p @ fips_inv_mix_column [a, b, c, d] @ r"
proof -
  have [simp]: "(p @ xs) ! (4 * i + k) = xs ! k" "(p @ xs)[4 * i + k := v] = p @ xs[k := v]"
    "(p @ xs) ! (4 * i) = xs ! 0" "(p @ xs)[4 * i := v] = p @ xs[0 := v]"
    for xs :: "byte list" and k v
    using assms by (simp_all add: nth_append list_update_append)
  have [simp]: "(p @ xs) ! Suc (4 * i) = xs ! 1" "(p @ xs)[Suc (4 * i) := v] = p @ xs[1 := v]"
    "(p @ xs) ! Suc (Suc (4 * i)) = xs ! 2" "(p @ xs)[Suc (Suc (4 * i)) := v] = p @ xs[2 := v]"
    for xs :: "byte list" and v
    using assms by (simp_all add: nth_append list_update_append)
  show "MixColumns_column i (p @ [a, b, c, d] @ r) = p @ fips_mix_column [a, b, c, d] @ r"
    by (simp add: MixColumns_column_def fips_mix_column_def Let_def xtime_xor xor.assoc xor.commute xor.left_commute)
  show "InvMixColumns_column i (p @ [a, b, c, d] @ r) = p @ fips_inv_mix_column [a, b, c, d] @ r"
    by (simp add: InvMixColumns_column_def fips_inv_mix_column_def Let_def)
qed

lemma length_fips_mix [simp]:
  "length (fips_mix_column c) = 4" "length (fips_inv_mix_column c) = 4"
  by (simp_all add: fips_mix_column_def fips_inv_mix_column_def Let_def)

text \<open>A state is the four columns one after the other.\<close>

lemma state_columns:
  assumes "length s = 16"
  obtains c0 c1 c2 c3 where "s = c0 @ c1 @ c2 @ c3" "length c0 = 4" "length c1 = 4" "length c2 = 4" "length c3 = 4"
proof
  show "s = [s ! 0, s ! 1, s ! 2, s ! 3] @ [s ! 4, s ! 5, s ! 6, s ! 7] @
      [s ! 8, s ! 9, s ! 10, s ! 11] @ [s ! 12, s ! 13, s ! 14, s ! 15]"
    using list_length_16 [OF assms] by simp
qed simp_all

lemma MixColumns_columns:
  assumes "length c0 = 4" "length c1 = 4" "length c2 = 4" "length c3 = 4"
  shows "MixColumns (c0 @ c1 @ c2 @ c3) =
      fips_mix_column c0 @ fips_mix_column c1 @ fips_mix_column c2 @ fips_mix_column c3"
    and "InvMixColumns (c0 @ c1 @ c2 @ c3) =
      fips_inv_mix_column c0 @ fips_inv_mix_column c1 @ fips_inv_mix_column c2 @ fips_inv_mix_column c3"
proof -
  have op: "MixColumns_column i (p @ c @ r) = p @ fips_mix_column c @ r"
    "InvMixColumns_column i (p @ c @ r) = p @ fips_inv_mix_column c @ r"
    if "length p = 4 * i" "length c = 4" for i p c r
    using column_ops [OF that(1)] list_length_4 [OF that(2)] by metis+
  have "MixColumns_column 0 (c0 @ c1 @ c2 @ c3) = fips_mix_column c0 @ c1 @ c2 @ c3"
    "MixColumns_column 1 (fips_mix_column c0 @ c1 @ c2 @ c3) = fips_mix_column c0 @ fips_mix_column c1 @ c2 @ c3"
    "MixColumns_column 2 (fips_mix_column c0 @ fips_mix_column c1 @ c2 @ c3) =
      fips_mix_column c0 @ fips_mix_column c1 @ fips_mix_column c2 @ c3"
    "MixColumns_column 3 (fips_mix_column c0 @ fips_mix_column c1 @ fips_mix_column c2 @ c3) =
      fips_mix_column c0 @ fips_mix_column c1 @ fips_mix_column c2 @ fips_mix_column c3"
    using op(1) [of "[]" 0 c0] op(1) [of "fips_mix_column c0" 1 c1]
      op(1) [of "fips_mix_column c0 @ fips_mix_column c1" 2 c2]
      op(1) [of "fips_mix_column c0 @ fips_mix_column c1 @ fips_mix_column c2" 3 c3 "[]"] assms by simp_all
  then show "MixColumns (c0 @ c1 @ c2 @ c3) =
      fips_mix_column c0 @ fips_mix_column c1 @ fips_mix_column c2 @ fips_mix_column c3"
    by (simp add: MixColumns_def)
  let ?f = fips_inv_mix_column
  have "InvMixColumns_column 0 (c0 @ c1 @ c2 @ c3) = ?f c0 @ c1 @ c2 @ c3"
    "InvMixColumns_column 1 (?f c0 @ c1 @ c2 @ c3) = ?f c0 @ ?f c1 @ c2 @ c3"
    "InvMixColumns_column 2 (?f c0 @ ?f c1 @ c2 @ c3) = ?f c0 @ ?f c1 @ ?f c2 @ c3"
    "InvMixColumns_column 3 (?f c0 @ ?f c1 @ ?f c2 @ c3) = ?f c0 @ ?f c1 @ ?f c2 @ ?f c3"
    using op(2) [of "[]" 0 c0] op(2) [of "?f c0" 1 c1] op(2) [of "?f c0 @ ?f c1" 2 c2]
      op(2) [of "?f c0 @ ?f c1 @ ?f c2" 3 c3 "[]"] assms by simp_all
  then show "InvMixColumns (c0 @ c1 @ c2 @ c3) = ?f c0 @ ?f c1 @ ?f c2 @ ?f c3"
    by (simp add: InvMixColumns_def)
qed

lemma InvMixColumns_MixColumns:
  assumes "length s = 16"
  shows "InvMixColumns (MixColumns s) = s" and "length (MixColumns s) = 16"
proof -
  obtain c0 c1 c2 c3 where s: "s = c0 @ c1 @ c2 @ c3"
    and len: "length c0 = 4" "length c1 = 4" "length c2 = 4" "length c3 = 4"
    using state_columns [OF assms] .
  have inv: "fips_inv_mix_column (fips_mix_column c) = c" if "length c = 4" for c
    using fips_inv_mix list_length_4 [OF that] by metis
  show "InvMixColumns (MixColumns s) = s"
    by (simp add: s MixColumns_columns len inv)
  show "length (MixColumns s) = 16"
    by (simp add: s MixColumns_columns len)
qed

text \<open>\<open>ShiftRows\<close> moves row \<open>j\<close> by \<open>j\<close> columns.\<close>

lemma ShiftRows_perm:
  assumes "length s = 16"
  shows "ShiftRows s = [s ! 0, s ! 5, s ! 10, s ! 15, s ! 4, s ! 9, s ! 14, s ! 3,
    s ! 8, s ! 13, s ! 2, s ! 7, s ! 12, s ! 1, s ! 6, s ! 11]"
  by (subst list_length_16 [OF assms]) (simp add: ShiftRows_def Let_def)

lemma InvShiftRows_ShiftRows:
  assumes "length s = 16"
  shows "InvShiftRows (ShiftRows s) = s"
  by (subst (1 2) list_length_16 [OF assms]) (simp add: ShiftRows_def InvShiftRows_def Let_def)

lemma length_round_ops [simp]:
  "length (ShiftRows s) = length s" "length (AddRoundKey r s rk) = length s" "length (SubBytes s) = length s"
  by (simp_all add: ShiftRows_def Let_def AddRoundKey_def SubBytes_def)

lemma InvSubBytes_SubBytes: "length s = 16 \<Longrightarrow> InvSubBytes (SubBytes s) = s"
  by (simp add: InvSubBytes_map SubBytes_map o_def getSBoxInvert_Value)

lemma AddRoundKey_self: "length s = 16 \<Longrightarrow> AddRoundKey r (AddRoundKey r s rk) rk = s"
  by (rule nth_equalityI) (simp_all add: AddRoundKey_map xor.assoc)

lemma length_Cipher_round: "length s = 16 \<Longrightarrow> length (Cipher_round rk r s) = 16"
  by (simp add: Cipher_round_def InvMixColumns_MixColumns)

lemma length_Cipher_rounds: "length s = 16 \<Longrightarrow> length (fold (Cipher_round rk) rs s) = 16"
  by (induction rs arbitrary: s) (simp_all add: length_Cipher_round)

text \<open>The inverse rounds undo the rounds, shifted by the half round at the end of \<open>Cipher\<close>.\<close>

lemma InvCipher_rounds:
  assumes "length s = 16"
  shows "fold (InvCipher_round rk) (rev [1..<Suc n]) (ShiftRows (SubBytes (fold (Cipher_round rk) [1..<Suc n] s))) =
    ShiftRows (SubBytes s)"
proof (induction n)
  case (Suc n)
  define u where "u = fold (Cipher_round rk) [1..<Suc n] s"
  have len: "length u = 16" unfolding u_def using assms by (rule length_Cipher_rounds)
  have "InvCipher_round rk (Suc n) (ShiftRows (SubBytes (Cipher_round rk (Suc n) u))) = ShiftRows (SubBytes u)"
    by (simp add: InvCipher_round_def Cipher_round_def InvShiftRows_ShiftRows InvSubBytes_SubBytes
        AddRoundKey_self InvMixColumns_MixColumns len)
  moreover have "[1..<Suc (Suc n)] = [1..<Suc n] @ [Suc n]" by simp
  ultimately show ?case
    using Suc by (simp only: u_def fold_append rev_append rev.simps append_Nil fold_simps comp_apply append_Cons)
qed simp

lemma InvCipher_Cipher:
  assumes "length s = 16"
  shows "InvCipher (Cipher s rk) rk = s" and "length (Cipher s rk) = 16"
proof -
  have ten: "Suc 9 = (10 :: nat)" by simp
  let ?s = "AddRoundKey 0 s rk"
  define u where "u = fold (Cipher_round rk) [1..<10] ?s"
  have len: "length ?s = 16" "length u = 16"
    using assms by (simp_all add: u_def length_Cipher_rounds)
  have c: "Cipher s rk = AddRoundKey 10 (ShiftRows (SubBytes u)) rk"
    by (simp add: Cipher_def u_def Let_def)
  have "fold (InvCipher_round rk) (rev [1..<10]) (ShiftRows (SubBytes u)) = ShiftRows (SubBytes ?s)"
    unfolding u_def using InvCipher_rounds [OF len(1), of rk 9] unfolding ten .
  then have "fold (InvCipher_round rk) (rev [1..<10]) (AddRoundKey 10 (Cipher s rk) rk) = ShiftRows (SubBytes ?s)"
    by (simp only: c AddRoundKey_self length_round_ops len)
  then show "InvCipher (Cipher s rk) rk = s"
    using assms by (simp only: InvCipher_def Let_def AddRoundKey_self InvShiftRows_ShiftRows
        InvSubBytes_SubBytes length_round_ops)
  show "length (Cipher s rk) = 16"
    by (simp add: c len)
qed

end
