(* ===== verification/Aes_Modes.thy ===== *)
theory Aes_Modes
  imports Aes
begin

text \<open>
  Model of the second half of \<^verbatim>\<open>src/src/aes.cpp\<close>: the context \<open>AES_ctx\<close>, ECB, CBC and CTR over a
  buffer, the PKCS#7 helpers, and \<open>AES128CBCEncrypt\<close> / \<open>AES128CBCDecrypt\<close>. The locale
  \<open>block_cipher\<close> states what a mode needs of the cipher; the interpretation is AES itself. With
  PKCS#7 the plain text comes back when its length is not a multiple of 16; without padding it
  comes back followed by the zero bytes that complete the last block.
\<close>

section \<open>Block ciphers and their modes\<close>

primrec cbc_encrypt :: "(byte list \<Rightarrow> byte list) \<Rightarrow> byte list \<Rightarrow> byte list list \<Rightarrow> byte list list" where
  "cbc_encrypt E iv [] = []"
| "cbc_encrypt E iv (b # bs) = (let c = E (map2 (XOR) b iv) in c # cbc_encrypt E c bs)"

primrec cbc_decrypt :: "(byte list \<Rightarrow> byte list) \<Rightarrow> byte list \<Rightarrow> byte list list \<Rightarrow> byte list list" where
  "cbc_decrypt D iv [] = []"
| "cbc_decrypt D iv (c # cs) = map2 (XOR) (D c) iv # cbc_decrypt D c cs"

locale block_cipher =
  fixes n :: nat
    and E :: "byte list \<Rightarrow> byte list"
    and D :: "byte list \<Rightarrow> byte list"
  assumes E_length: "length b = n \<Longrightarrow> length (E b) = n"
    and D_E: "length b = n \<Longrightarrow> D (E b) = b"
begin

lemma xor_self: "length b = length iv \<Longrightarrow> map2 (XOR) (map2 (XOR) b iv) iv = (b :: byte list)"
  by (induction b iv rule: list_induct2) (simp_all add: xor.assoc)

lemma cbc_blocks:
  "length iv = n \<Longrightarrow> \<forall>b \<in> set bs. length b = n \<Longrightarrow>
   (\<forall>c \<in> set (cbc_encrypt E iv bs). length c = n) \<and> length (cbc_encrypt E iv bs) = length bs"
proof (induction bs arbitrary: iv)
  case (Cons b bs)
  then have "length (E (map2 (XOR) b iv)) = n" by (simp add: E_length)
  with Cons.IH [of "E (map2 (XOR) b iv)"] Cons.prems show ?case by (simp add: Let_def)
qed simp

lemma cbc_decrypt_encrypt:
  "length iv = n \<Longrightarrow> \<forall>b \<in> set bs. length b = n \<Longrightarrow> cbc_decrypt D iv (cbc_encrypt E iv bs) = bs"
  by (induction bs arbitrary: iv) (simp_all add: Let_def E_length D_E xor_self)

text \<open>Distinct plain texts give distinct cipher texts.\<close>

lemma cbc_encrypt_inj:
  assumes "length iv = n" and "\<forall>b \<in> set bs. length b = n" and "\<forall>b \<in> set bs'. length b = n"
    and "cbc_encrypt E iv bs = cbc_encrypt E iv bs'"
  shows "bs = bs'"
  using cbc_decrypt_encrypt assms by metis

end

interpretation aes: block_cipher 16 "\<lambda>b. Cipher b rk" "\<lambda>c. InvCipher c rk" for rk
  by unfold_locales (simp_all add: InvCipher_Cipher)

section \<open>The context and the modes of the code\<close>

record AES_ctx =
  RoundKey :: "byte list"
  Iv :: "byte list"

definition AES_init_ctx :: "AES_ctx \<Rightarrow> byte list \<Rightarrow> AES_ctx" where
  "AES_init_ctx ctx key = ctx\<lparr>RoundKey := KeyExpansion key\<rparr>"

definition AES_init_ctx_iv :: "AES_ctx \<Rightarrow> byte list \<Rightarrow> byte list \<Rightarrow> AES_ctx" where
  "AES_init_ctx_iv ctx key iv = ctx\<lparr>RoundKey := KeyExpansion key, Iv := take 16 iv\<rparr>"

definition AES_ctx_set_iv :: "AES_ctx \<Rightarrow> byte list \<Rightarrow> AES_ctx" where
  "AES_ctx_set_iv ctx iv = ctx\<lparr>Iv := take 16 iv\<rparr>"

definition AES_ECB_encrypt :: "AES_ctx \<Rightarrow> byte list \<Rightarrow> byte list" where
  "AES_ECB_encrypt ctx buf = Cipher buf (RoundKey ctx)"

definition AES_ECB_decrypt :: "AES_ctx \<Rightarrow> byte list \<Rightarrow> byte list" where
  "AES_ECB_decrypt ctx buf = InvCipher buf (RoundKey ctx)"

text \<open>\<open>XorWithIv\<close> on the sixteen bytes at the start of the block.\<close>

definition XorWithIv :: "byte list \<Rightarrow> byte list \<Rightarrow> byte list" where
  "XorWithIv buf iv = fold (\<lambda>i buf. buf[i := buf ! i XOR iv ! i]) [0..<16] buf"

text \<open>
  The loop of \<open>AES_CBC_encrypt_buffer\<close> at the position \<open>i\<close> of the buffer; \<open>iv\<close> is the block the
  pointer \<open>Iv\<close> points at.
\<close>

function CBC_encrypt_loop :: "byte list \<Rightarrow> byte list \<Rightarrow> byte list \<Rightarrow> nat \<Rightarrow> nat \<Rightarrow> byte list \<times> byte list" where
  "CBC_encrypt_loop rk iv buf i len =
     (if i < len
      then let block = Cipher (XorWithIv (take 16 (drop i buf)) iv) rk
           in CBC_encrypt_loop rk block (memcpy buf i block) (i + 16) len
      else (buf, iv))"
  by pat_completeness auto
termination
  by (relation "measure (\<lambda>(rk, iv, buf, i, len). len - i)") auto

declare CBC_encrypt_loop.simps [simp del]

definition AES_CBC_encrypt_buffer :: "AES_ctx \<Rightarrow> byte list \<Rightarrow> nat \<Rightarrow> AES_ctx \<times> byte list" where
  "AES_CBC_encrypt_buffer ctx buf len =
     (let (buf, iv) = CBC_encrypt_loop (RoundKey ctx) (Iv ctx) buf 0 len
      in (ctx\<lparr>Iv := iv\<rparr>, buf))"

function CBC_decrypt_loop :: "AES_ctx \<Rightarrow> byte list \<Rightarrow> nat \<Rightarrow> nat \<Rightarrow> AES_ctx \<times> byte list" where
  "CBC_decrypt_loop ctx buf i len =
     (if i < len
      then let storeNextIv = take 16 (drop i buf);
               block = XorWithIv (InvCipher (take 16 (drop i buf)) (RoundKey ctx)) (Iv ctx)
           in CBC_decrypt_loop (ctx\<lparr>Iv := storeNextIv\<rparr>) (memcpy buf i block) (i + 16) len
      else (ctx, buf))"
  by pat_completeness auto
termination
  by (relation "measure (\<lambda>(ctx, buf, i, len). len - i)") auto

declare CBC_decrypt_loop.simps [simp del]

definition AES_CBC_decrypt_buffer :: "AES_ctx \<Rightarrow> byte list \<Rightarrow> nat \<Rightarrow> AES_ctx \<times> byte list" where
  "AES_CBC_decrypt_buffer ctx buf len = CBC_decrypt_loop ctx buf 0 len"

text \<open>The increment of the counter block in CTR mode, from \<open>bi\<close> downwards.\<close>

primrec CTR_increment :: "nat \<Rightarrow> byte list \<Rightarrow> byte list" where
  "CTR_increment 0 iv = iv"
| "CTR_increment (Suc bi) iv =
     (if iv ! bi = 255 then CTR_increment bi (iv[bi := 0]) else iv[bi := iv ! bi + 1])"

text \<open>One iteration of the loop of \<open>AES_CTR_xcrypt_buffer\<close> on \<open>(ctx, buf, buffer, bi)\<close>.\<close>

definition CTR_step ::
  "nat \<Rightarrow> AES_ctx \<times> byte list \<times> byte list \<times> nat \<Rightarrow> AES_ctx \<times> byte list \<times> byte list \<times> nat" where
  "CTR_step i st =
     (case st of (ctx, buf, buffer, bi) \<Rightarrow>
        let (ctx, buffer, bi) =
              (if bi = 16
               then (ctx\<lparr>Iv := CTR_increment 16 (Iv ctx)\<rparr>, Cipher (Iv ctx) (RoundKey ctx), 0)
               else (ctx, buffer, bi))
        in (ctx, buf[i := buf ! i XOR buffer ! bi], buffer, bi + 1))"

definition AES_CTR_xcrypt_buffer :: "AES_ctx \<Rightarrow> byte list \<Rightarrow> nat \<Rightarrow> AES_ctx \<times> byte list" where
  "AES_CTR_xcrypt_buffer ctx buf len =
     (case fold CTR_step [0..<len] (ctx, buf, replicate 16 0, 16) of (ctx, buf, _) \<Rightarrow> (ctx, buf))"

section \<open>PKCS#7\<close>

text \<open>\<open>None\<close> of the returned buffer means that it is not changed.\<close>

definition pkcs7_padding_pad_buffer :: "byte list \<Rightarrow> nat \<Rightarrow> nat \<Rightarrow> nat \<Rightarrow> byte list \<times> int" where
  "pkcs7_padding_pad_buffer buffer data_length buffer_size modulus =
     (let pad_byte = modulus - data_length mod modulus
      in if data_length + pad_byte > buffer_size then (buffer, - int pad_byte)
         else (memset buffer data_length (of_nat pad_byte) pad_byte, int pad_byte))"

definition pkcs7_padding_valid :: "byte list \<Rightarrow> nat \<Rightarrow> nat \<Rightarrow> nat \<Rightarrow> bool" where
  "pkcs7_padding_valid buffer data_length buffer_size modulus =
     (let expected_pad_byte = modulus - data_length mod modulus
      in if data_length + expected_pad_byte > buffer_size then False
         else list_all (\<lambda>i. buffer ! (data_length + i) = of_nat expected_pad_byte) [0..<expected_pad_byte])"

text \<open>The loop of \<open>pkcs7_padding_data_length\<close>, with \<open>k\<close> iterations left.\<close>

primrec pkcs7_scan :: "byte list \<Rightarrow> byte \<Rightarrow> nat \<Rightarrow> nat \<Rightarrow> nat" where
  "pkcs7_scan buffer v 0 sz = sz"
| "pkcs7_scan buffer v (Suc k) sz =
     (let sz = sz - 1 in if buffer ! sz \<noteq> v then 0 else pkcs7_scan buffer v k sz)"

definition pkcs7_padding_data_length :: "byte list \<Rightarrow> nat \<Rightarrow> nat \<Rightarrow> nat" where
  "pkcs7_padding_data_length buffer buffer_size modulus =
     (if buffer_size mod modulus \<noteq> 0 \<or> buffer_size < modulus then 0
      else let padding_value = buffer ! (buffer_size - 1)
           in if unat padding_value < 1 \<or> unat padding_value > modulus then 0
              else if buffer_size < unat padding_value + 1 then 0
              else pkcs7_scan buffer padding_value (unat padding_value - 1) (buffer_size - 1))"

section \<open>The interface functions\<close>

datatype AESPaddingMode = PKCS7 | NoPadding

text \<open>
  \<open>None\<close> is the result false. The length passed to the mode is a \<open>uint32_t\<close>; \<open>ctx\<close> is the
  uninitialised local, whose contents do not matter.
\<close>

definition AES_new :: AES_ctx where
  "AES_new = \<lparr>RoundKey = replicate 176 0, Iv = replicate 16 0\<rparr>"

definition AES128CBCEncrypt ::
  "byte list \<Rightarrow> byte list \<Rightarrow> AESPaddingMode \<Rightarrow> byte list \<Rightarrow> byte list option" where
  "AES128CBCEncrypt key iv paddingMode plain =
     (if length key \<noteq> 16 \<or> length iv \<noteq> 16 \<or> plain = [] then None
      else let ctx = AES_init_ctx_iv AES_new key iv;
               bufSize = length plain;
               bufSize = (if bufSize mod 16 \<noteq> 0 then bufSize + (16 - bufSize mod 16) else bufSize);
               buffer = memcpy (replicate bufSize 0) 0 plain;
               buffer = (if paddingMode = PKCS7
                         then fst (pkcs7_padding_pad_buffer buffer (length plain) bufSize 16)
                         else buffer)
           in Some (snd (AES_CBC_encrypt_buffer ctx buffer (length plain mod 2 ^ 32))))"

definition AES128CBCDecrypt ::
  "byte list \<Rightarrow> byte list \<Rightarrow> AESPaddingMode \<Rightarrow> byte list \<Rightarrow> byte list option" where
  "AES128CBCDecrypt key iv paddingMode cipher =
     (if length key \<noteq> 16 \<or> length iv \<noteq> 16 \<or> cipher = [] then None
      else let ctx = AES_init_ctx_iv AES_new key iv;
               bufSize = length cipher;
               buffer = memcpy (replicate bufSize 0) 0 cipher;
               buffer = snd (AES_CBC_decrypt_buffer ctx buffer (length cipher mod 2 ^ 32));
               actualDataLength =
                 (case paddingMode of
                    PKCS7 \<Rightarrow> pkcs7_padding_data_length buffer (length cipher) 16
                  | NoPadding \<Rightarrow> bufSize)
           in Some (take actualDataLength buffer))"

text \<open>The overloads for \<^verbatim>\<open>std::string\<close> copy every argument into a vector of its size.\<close>

definition vector_of :: "byte list \<Rightarrow> byte list" where
  "vector_of s = memcpy (replicate (length s) 0) 0 s"

lemma vector_of_id [simp]: "vector_of s = s"
  by (simp add: vector_of_def memcpy_all)

definition AES128CBCEncrypt_string ::
  "byte list \<Rightarrow> byte list \<Rightarrow> AESPaddingMode \<Rightarrow> byte list \<Rightarrow> byte list option" where
  "AES128CBCEncrypt_string key iv paddingMode plain =
     (let vKey = vector_of key; vIV = vector_of iv; vPlain = vector_of plain
      in AES128CBCEncrypt vKey vIV paddingMode vPlain)"

definition AES128CBCDecrypt_string ::
  "byte list \<Rightarrow> byte list \<Rightarrow> AESPaddingMode \<Rightarrow> byte list \<Rightarrow> byte list option" where
  "AES128CBCDecrypt_string key iv paddingMode cipher =
     (let vKey = vector_of key; vIV = vector_of iv; vCipher = vector_of cipher
      in AES128CBCDecrypt vKey vIV paddingMode vCipher)"

section \<open>The modes are the abstract modes\<close>

lemma XorWithIv_map2:
  assumes "length b = 16" and "length iv = 16"
  shows "XorWithIv b iv = map2 (XOR) b iv"
proof -
  have "fold (\<lambda>i buf. buf[i := buf ! i XOR iv ! i]) [0..<k] b = map2 (XOR) (take k b) (take k iv) @ drop k b"
    if "k \<le> 16" for k
    using that
  proof (induction k)
    case (Suc k)
    then have k: "k < length b" "k < length iv" using assms by simp_all
    then show ?case
      using Suc by (simp add: take_Suc_conv_app_nth list_update_append nth_append Cons_nth_drop_Suc [symmetric] min_def)
  qed simp
  from this [of 16] assms show ?thesis by (simp add: XorWithIv_def)
qed

lemma pieces_concat: "0 < n \<Longrightarrow> \<forall>b \<in> set bs. length b = n \<Longrightarrow> pieces n (concat bs) = bs"
  by (induction bs) (simp_all add: pieces_append)

lemma pieces_length: "0 < n \<Longrightarrow> n dvd length xs \<Longrightarrow> b \<in> set (pieces n xs) \<Longrightarrow> length b = n"
proof (induction n xs rule: pieces.induct)
  case (1 n xs)
  then show ?case
    by (cases "xs = []") (auto simp: pieces.simps [of n xs] dvd_diff_nat dest: dvd_imp_le)
qed

lemma last_block:
  assumes "16 dvd length buf" and "16 dvd i" and "len \<le> length buf" and "length buf < len + 16"
    and "\<not> i < len" and "i \<le> length buf"
  shows "i = length buf"
proof -
  have "16 dvd length buf - i" using assms(1,2,6) by (simp add: dvd_diff_nat)
  moreover have "length buf - i < 16" using assms(4,5) by simp
  ultimately have "length buf - i = 0" by (auto dest: dvd_imp_le)
  then show ?thesis using assms(6) by simp
qed

lemma block_at:
  assumes "16 dvd length buf" and "16 dvd i" and "i < length buf"
  shows "i + 16 \<le> length buf"
proof -
  have "16 dvd length buf - i" using assms by (simp add: dvd_diff_nat)
  then show ?thesis using assms(3) by (auto dest: dvd_imp_le)
qed

lemma drop_block:
  "i + 16 \<le> length buf \<Longrightarrow> pieces 16 (drop i buf) = take 16 (drop i buf) # pieces 16 (drop (i + 16) buf)"
  by (subst pieces.simps) (auto simp: add.commute)

lemma CBC_encrypt_loop_pieces:
  assumes "16 dvd length buf" and "16 dvd i" and "len \<le> length buf" and "length buf < len + 16"
    and "i \<le> length buf" and "length iv = 16"
  shows "fst (CBC_encrypt_loop rk iv buf i len) =
    take i buf @ concat (cbc_encrypt (\<lambda>b. Cipher b rk) iv (pieces 16 (drop i buf)))"
  using assms
proof (induction rk iv buf i len rule: CBC_encrypt_loop.induct)
  case (1 rk iv buf i len)
  show ?case
  proof (cases "i < len")
    case False
    then have "i = length buf" using "1.prems" by (intro last_block)
    then show ?thesis using False by (simp add: CBC_encrypt_loop.simps [of rk iv buf "length buf" len])
  next
    case True
    let ?b = "take 16 (drop i buf)"
    let ?c = "Cipher (map2 (XOR) ?b iv) rk"
    have i: "i + 16 \<le> length buf" using True "1.prems" by (intro block_at) simp_all
    then have x: "XorWithIv ?b iv = map2 (XOR) ?b iv" and c: "length ?c = 16"
      using "1.prems"(6) by (simp_all add: XorWithIv_map2 InvCipher_Cipher)
    have "CBC_encrypt_loop rk iv buf i len = CBC_encrypt_loop rk ?c (memcpy buf i ?c) (i + 16) len"
      using True by (simp add: CBC_encrypt_loop.simps [of rk iv buf i len] x Let_def)
    moreover have "fst (CBC_encrypt_loop rk ?c (memcpy buf i ?c) (i + 16) len) =
        take (i + 16) (memcpy buf i ?c) @
        concat (cbc_encrypt (\<lambda>b. Cipher b rk) ?c (pieces 16 (drop (i + 16) (memcpy buf i ?c))))"
      using "1.IH" [OF True refl] "1.prems" i c by (simp add: x)
    moreover have "take (i + 16) (memcpy buf i ?c) = take i buf @ ?c" "drop (i + 16) (memcpy buf i ?c) = drop (i + 16) buf"
      using i c by (simp_all add: memcpy_def)
    ultimately show ?thesis
      using i by (simp add: drop_block Let_def)
  qed
qed

lemma CBC_decrypt_loop_pieces:
  assumes "16 dvd length buf" and "16 dvd i" and "len \<le> length buf" and "length buf < len + 16"
    and "i \<le> length buf" and "length (Iv ctx) = 16"
    and "\<And>b. length b = 16 \<Longrightarrow> length (InvCipher b (RoundKey ctx)) = 16"
  shows "snd (CBC_decrypt_loop ctx buf i len) =
    take i buf @ concat (cbc_decrypt (\<lambda>b. InvCipher b (RoundKey ctx)) (Iv ctx) (pieces 16 (drop i buf)))"
  using assms
proof (induction ctx buf i len rule: CBC_decrypt_loop.induct)
  case (1 ctx buf i len)
  show ?case
  proof (cases "i < len")
    case False
    then have "i = length buf" using "1.prems" by (intro last_block)
    then show ?thesis using False by (simp add: CBC_decrypt_loop.simps [of ctx buf "length buf" len])
  next
    case True
    let ?b = "take 16 (drop i buf)"
    let ?c = "map2 (XOR) (InvCipher ?b (RoundKey ctx)) (Iv ctx)"
    have i: "i + 16 \<le> length buf" using True "1.prems" by (intro block_at) simp_all
    then have x: "XorWithIv (InvCipher ?b (RoundKey ctx)) (Iv ctx) = ?c" and c: "length ?c = 16"
      using "1.prems"(6,7) by (simp_all add: XorWithIv_map2)
    let ?ctx = "ctx\<lparr>Iv := ?b\<rparr>"
    have "CBC_decrypt_loop ctx buf i len = CBC_decrypt_loop ?ctx (memcpy buf i ?c) (i + 16) len"
      using True by (simp add: CBC_decrypt_loop.simps [of ctx buf i len] x Let_def)
    moreover have "snd (CBC_decrypt_loop ?ctx (memcpy buf i ?c) (i + 16) len) =
        take (i + 16) (memcpy buf i ?c) @
        concat (cbc_decrypt (\<lambda>b. InvCipher b (RoundKey ctx)) ?b (pieces 16 (drop (i + 16) (memcpy buf i ?c))))"
      using "1.IH" [OF True refl refl] "1.prems" i c by (simp add: x)
    moreover have "take (i + 16) (memcpy buf i ?c) = take i buf @ ?c" "drop (i + 16) (memcpy buf i ?c) = drop (i + 16) buf"
      using i c by (simp_all add: memcpy_def)
    ultimately show ?thesis
      using i by (simp add: drop_block Let_def)
  qed
qed

lemma length_InvCipher:
  assumes "length b = 16"
  shows "length (InvCipher b rk) = 16"
proof -
  have len: "length (InvShiftRows s) = length s" "length (InvSubBytes s) = length s" for s
    by (simp_all add: InvShiftRows_def InvSubBytes_def Let_def)
  have mix: "length (InvMixColumns s) = length s" for s
    by (simp add: InvMixColumns_def InvMixColumns_column_def Let_def)
  have "length (fold (InvCipher_round rk) rs s) = length s" for rs s
    by (induction rs arbitrary: s) (simp_all add: InvCipher_round_def len mix)
  then show ?thesis using assms by (simp add: InvCipher_def Let_def len)
qed

text \<open>What \<open>AES128CBCEncrypt\<close> encrypts: the plain text with its padding.\<close>

definition aes_padded :: "AESPaddingMode \<Rightarrow> byte list \<Rightarrow> byte list" where
  "aes_padded mode plain =
     (if length plain mod 16 = 0 then plain
      else let p = 16 - length plain mod 16
           in plain @ replicate p (if mode = PKCS7 then of_nat p else 0))"

lemma length_aes_padded: "16 dvd length (aes_padded mode plain)" "length plain \<le> length (aes_padded mode plain)"
  "length (aes_padded mode plain) < length plain + 16"
proof -
  have "16 dvd length plain + (16 - length plain mod 16)" if "length plain mod 16 \<noteq> 0"
  proof -
    have "length plain + (16 - length plain mod 16) = 16 * (length plain div 16 + 1)"
    proof -
      have "length plain mod 16 \<le> 16" "length plain mod 16 \<le> length plain" by simp_all
      then have "length plain + (16 - length plain mod 16) = (length plain - length plain mod 16) + 16" by simp
      then show ?thesis by (simp only: minus_mod_eq_mult_div) simp
    qed
    then show ?thesis by (metis dvd_triv_left)
  qed
  then show "16 dvd length (aes_padded mode plain)"
    by (auto simp: aes_padded_def Let_def)
  show "length plain \<le> length (aes_padded mode plain)"
    "length (aes_padded mode plain) < length plain + 16"
    by (auto simp: aes_padded_def Let_def)
qed

lemma AES128CBCEncrypt_cbc:
  assumes "length key = 16" "length iv = 16" "plain \<noteq> []" "length plain < 2 ^ 32"
  shows "AES128CBCEncrypt key iv mode plain =
    Some (concat (cbc_encrypt (\<lambda>b. Cipher b (KeyExpansion key)) iv (pieces 16 (aes_padded mode plain))))"
proof -
  let ?n = "length plain"
  let ?size = "if ?n mod 16 \<noteq> 0 then ?n + (16 - ?n mod 16) else ?n"
  let ?mem = "memcpy (replicate ?size 0) 0 plain"
  have pad: "(if mode = PKCS7 then fst (pkcs7_padding_pad_buffer ?mem ?n ?size 16) else ?mem) = aes_padded mode plain"
    by (cases mode) (auto simp: pkcs7_padding_pad_buffer_def aes_padded_def memset_def memcpy_def Let_def)
  have "fst (CBC_encrypt_loop (KeyExpansion key) iv (aes_padded mode plain) 0 ?n) =
      concat (cbc_encrypt (\<lambda>b. Cipher b (KeyExpansion key)) iv (pieces 16 (aes_padded mode plain)))"
    using CBC_encrypt_loop_pieces [OF length_aes_padded(1), of 0 ?n _ _ iv] length_aes_padded assms(2) by simp
  moreover have "AES128CBCEncrypt key iv mode plain =
      Some (snd (AES_CBC_encrypt_buffer (AES_init_ctx_iv AES_new key iv) (aes_padded mode plain) (?n mod 2 ^ 32)))"
    unfolding AES128CBCEncrypt_def Let_def pad using assms by simp
  ultimately show ?thesis
    using assms by (simp add: AES_CBC_encrypt_buffer_def AES_init_ctx_iv_def AES_new_def case_prod_beta)
qed

lemma AES128CBCDecrypt_cbc:
  assumes "length key = 16" "length iv = 16" "c \<noteq> []" "length c < 2 ^ 32" "16 dvd length c"
  shows "AES128CBCDecrypt key iv mode c =
    (let plain = concat (cbc_decrypt (\<lambda>b. InvCipher b (KeyExpansion key)) iv (pieces 16 c))
     in Some (take (case mode of PKCS7 \<Rightarrow> pkcs7_padding_data_length plain (length c) 16
                    | NoPadding \<Rightarrow> length c) plain))"
proof -
  have "snd (CBC_decrypt_loop \<lparr>RoundKey = KeyExpansion key, Iv = iv\<rparr> c 0 (length c)) =
      concat (cbc_decrypt (\<lambda>b. InvCipher b (KeyExpansion key)) iv (pieces 16 c))"
    using CBC_decrypt_loop_pieces [OF assms(5), of 0 "length c" "\<lparr>RoundKey = KeyExpansion key, Iv = iv\<rparr>"]
      length_InvCipher assms(2) by simp
  moreover have "memcpy (replicate (length c) 0) 0 c = c" by (simp add: memcpy_all)
  ultimately show ?thesis
    using assms by (simp add: AES128CBCDecrypt_def AES_CBC_decrypt_buffer_def AES_init_ctx_iv_def AES_new_def Let_def
        split: AESPaddingMode.split)
qed

lemma cbc_encrypt_length:
  assumes "length iv = 16" "16 dvd length plain"
  shows "length (concat (cbc_encrypt (\<lambda>b. Cipher b rk) iv (pieces 16 plain))) = length plain"
proof -
  have bs: "\<forall>b \<in> set (pieces 16 plain). length b = 16" using pieces_length [of 16 plain] assms(2) by simp
  have lens: "length (concat xs) = 16 * length xs" if "\<forall>x \<in> set xs. length x = 16" for xs :: "byte list list"
    using that by (induction xs) simp_all
  show ?thesis
    using lens [OF bs] lens aes.cbc_blocks [OF assms(1) bs] concat_pieces [of 16 plain] by fastforce
qed

lemma AES128CBC_roundtrip_padded:
  assumes "length key = 16" "length iv = 16" "plain \<noteq> []" "length plain + 16 < 2 ^ 32"
  shows "Option.bind (AES128CBCEncrypt key iv mode plain) (AES128CBCDecrypt key iv mode) =
    Some (take (case mode of
        PKCS7 \<Rightarrow> pkcs7_padding_data_length (aes_padded mode plain) (length (aes_padded mode plain)) 16
      | NoPadding \<Rightarrow> length (aes_padded mode plain)) (aes_padded mode plain))"
proof -
  let ?p = "aes_padded mode plain" and ?rk = "KeyExpansion key"
  let ?cs = "cbc_encrypt (\<lambda>b. Cipher b ?rk) iv (pieces 16 ?p)"
  have bs: "\<forall>b \<in> set (pieces 16 ?p). length b = 16"
    using pieces_length [of 16 ?p] length_aes_padded(1) [of mode plain] by simp
  have cs: "\<forall>c \<in> set ?cs. length c = 16" "length ?cs = length (pieces 16 ?p)"
    using aes.cbc_blocks [OF assms(2) bs] by blast+
  have lens: "length (concat xs) = 16 * length xs" if "\<forall>x \<in> set xs. length x = 16" for xs :: "byte list list"
    using that by (induction xs) simp_all
  have lc: "length (concat ?cs) = length ?p"
    using lens [OF cs(1)] lens [OF bs] cs(2) concat_pieces [of 16 ?p] by simp
  have ne: "concat ?cs \<noteq> []"
    using lc length_aes_padded(2) [of plain mode] assms(3) by (metis le_zero_eq length_0_conv)
  have small: "length (concat ?cs) < 2 ^ 32"
    using lc length_aes_padded(3) [of mode plain] assms(4) by linarith
  have dvd: "16 dvd length (concat ?cs)" unfolding lc by (rule length_aes_padded)
  have "concat (cbc_decrypt (\<lambda>b. InvCipher b ?rk) iv (pieces 16 (concat ?cs))) = ?p"
    using aes.cbc_decrypt_encrypt [OF assms(2) bs] cs(1) by (simp add: pieces_concat concat_pieces)
  then show ?thesis
    using AES128CBCEncrypt_cbc [OF assms(1-3), of mode] AES128CBCDecrypt_cbc [OF assms(1,2) ne small dvd, of mode]
      assms(4) lc by (cases mode) (simp_all add: Let_def)
qed

section \<open>PKCS#7 on the padded buffer\<close>

lemma pkcs7_scan_run:
  "k < sz \<Longrightarrow> sz \<le> length buffer \<Longrightarrow> \<forall>i. sz - k \<le> i \<and> i < sz \<longrightarrow> buffer ! i = v \<Longrightarrow>
   pkcs7_scan buffer v k sz = sz - k"
proof (induction k arbitrary: sz)
  case (Suc k)
  have "buffer ! (sz - 1) = v" using Suc.prems by simp
  moreover have "pkcs7_scan buffer v k (sz - 1) = sz - 1 - k"
    by (rule Suc.IH) (use Suc.prems in auto)
  ultimately show ?case by (simp add: Let_def)
qed simp

lemma pkcs7_data_length_padded:
  assumes "0 < p" and "p < 16" and "16 dvd length plain + p" and "plain \<noteq> []"
  shows "pkcs7_padding_data_length (plain @ replicate p (of_nat p)) (length plain + p) 16 = length plain"
proof -
  let ?b = "plain @ replicate p (of_nat p :: byte)"
  have u: "unat (of_nat p :: byte) = p"
    using assms(2) by (simp add: unsigned_of_nat take_bit_eq_mod)
  have last: "?b ! (length plain + p - 1) = of_nat p"
  proof -
    have "?b ! (length plain + (p - 1)) = replicate p (of_nat p) ! (p - 1)"
      by (rule nth_append_length_plus)
    then show ?thesis using assms(1) by simp
  qed
  have scan: "pkcs7_scan ?b (of_nat p) (p - 1) (length plain + p - 1) = length plain + p - 1 - (p - 1)"
  proof (rule pkcs7_scan_run)
    have "0 < length plain" using assms(4) by simp
    then show "p - 1 < length plain + p - 1" using assms(1) by linarith
  qed (use assms(1) in \<open>auto simp: nth_append\<close>)
  have "16 \<le> length plain + p" using assms by (auto dest: dvd_imp_le)
  moreover have "0 < length plain" using assms(4) by simp
  ultimately show ?thesis
    using assms last scan u by (simp add: pkcs7_padding_data_length_def Let_def)
qed

text \<open>What the scan finds in a buffer of whole blocks.\<close>

lemma pkcs7_scan_iff:
  "k < sz \<Longrightarrow> sz \<le> length buffer \<Longrightarrow>
   pkcs7_scan buffer v k sz = (if \<forall>i. sz - k \<le> i \<and> i < sz \<longrightarrow> buffer ! i = v then sz - k else 0)"
proof (induction k arbitrary: sz)
  case (Suc k)
  have "pkcs7_scan buffer v k (sz - 1) =
      (if \<forall>i. sz - 1 - k \<le> i \<and> i < sz - 1 \<longrightarrow> buffer ! i = v then sz - 1 - k else 0)"
    by (rule Suc.IH) (use Suc.prems in auto)
  moreover have "(\<forall>i. sz - Suc k \<le> i \<and> i < sz \<longrightarrow> buffer ! i = v) \<longleftrightarrow>
      buffer ! (sz - 1) = v \<and> (\<forall>i. sz - 1 - k \<le> i \<and> i < sz - 1 \<longrightarrow> buffer ! i = v)" (is "?l \<longleftrightarrow> ?r")
  proof
    assume ?l
    then show ?r using Suc.prems(1) by auto
  next
    assume r: ?r
    show ?l
    proof (intro allI impI)
      fix i assume i: "sz - Suc k \<le> i \<and> i < sz"
      show "buffer ! i = v" by (cases "i = sz - 1") (use r i Suc.prems(1) in auto)
    qed
  qed
  moreover have "sz - 1 - k = sz - Suc k" by simp
  ultimately show ?case by (simp only: pkcs7_scan.simps Let_def if_not_P if_P split: if_split) blast
qed simp

lemma pkcs7_data_length_blocks:
  assumes "plain \<noteq> []" and "16 dvd length plain"
  shows "pkcs7_padding_data_length plain (length plain) 16 =
    (let v = unat (last plain)
     in if 1 \<le> v \<and> v \<le> 16 \<and> drop (length plain - v) plain = replicate v (last plain) then length plain - v else 0)"
proof -
  let ?n = "length plain" and ?v = "unat (last plain)"
  have n: "16 \<le> ?n" "?n mod 16 = 0" using assms by (auto dest: dvd_imp_le)
  have l: "plain ! (?n - 1) = last plain" using assms(1) by (simp add: last_conv_nth)
  show ?thesis
  proof (cases "1 \<le> ?v \<and> ?v \<le> 16")
    case True
    have "drop (?n - ?v) plain = replicate ?v (last plain) \<longleftrightarrow> (\<forall>i < ?v. plain ! (?n - ?v + i) = last plain)"
      using True n(1) by (auto simp: list_eq_iff_nth_eq)
    also have "\<dots> \<longleftrightarrow> (\<forall>i. ?n - 1 - (?v - 1) \<le> i \<and> i < ?n - 1 \<longrightarrow> plain ! i = last plain)" (is "?l \<longleftrightarrow> ?r")
    proof
      assume a: ?l
      show ?r
      proof (intro allI impI)
        fix i assume "?n - 1 - (?v - 1) \<le> i \<and> i < ?n - 1"
        then show "plain ! i = last plain" using a [rule_format, of "i - (?n - ?v)"] True n(1) by auto
      qed
    next
      assume a: ?r
      show ?l
      proof (intro allI impI)
        fix i assume "i < ?v"
        then show "plain ! (?n - ?v + i) = last plain"
        proof (cases "?n - ?v + i = ?n - 1")
          case True
          show ?thesis unfolding True by (rule l)
        next
          case False
          show ?thesis by (rule a [rule_format]) (use False \<open>i < ?v\<close> True n(1) in linarith)
        qed
      qed
    qed
    finally have d: "drop (?n - ?v) plain = replicate ?v (last plain) \<longleftrightarrow>
        (\<forall>i. ?n - 1 - (?v - 1) \<le> i \<and> i < ?n - 1 \<longrightarrow> plain ! i = last plain)" .
    show ?thesis
    proof (cases "?n < ?v + 1")
      case True
      then show ?thesis using n l \<open>1 \<le> ?v \<and> ?v \<le> 16\<close> by (simp add: pkcs7_padding_data_length_def Let_def)
    next
      case False
      then have "pkcs7_padding_data_length plain ?n 16 = pkcs7_scan plain (last plain) (?v - 1) (?n - 1)"
        using n l True by (simp add: pkcs7_padding_data_length_def Let_def)
      also have "\<dots> = (if drop (?n - ?v) plain = replicate ?v (last plain) then ?n - 1 - (?v - 1) else 0)"
        unfolding d by (rule pkcs7_scan_iff) (use True False in auto)
      finally show ?thesis using True by (simp add: Let_def)
    qed
  next
    case False
    then show ?thesis using n l by (auto simp: pkcs7_padding_data_length_def Let_def)
  qed
qed

lemma AES128CBC_roundtrip_pkcs7_aux:
  assumes "length key = 16" "length iv = 16" "length plain mod 16 \<noteq> 0" "length plain + 16 < 2 ^ 32"
  shows "Option.bind (AES128CBCEncrypt key iv PKCS7 plain) (AES128CBCDecrypt key iv PKCS7) = Some plain"
proof -
  define p where "p = 16 - length plain mod 16"
  have p: "0 < p" "p < 16" using assms(3) by (simp_all add: p_def)
  have pad: "aes_padded PKCS7 plain = plain @ replicate p (of_nat p)"
    using assms(3) by (simp add: aes_padded_def p_def)
  have ne: "plain \<noteq> []" using assms(3) by auto
  have "16 dvd length plain + p" using length_aes_padded(1) [of PKCS7 plain] by (simp add: pad)
  with p ne have "pkcs7_padding_data_length (aes_padded PKCS7 plain) (length (aes_padded PKCS7 plain)) 16 = length plain"
    by (simp add: pad pkcs7_data_length_padded)
  then show ?thesis
    using AES128CBC_roundtrip_padded [OF assms(1,2) ne assms(4), of PKCS7] by (simp add: pad)
qed

section \<open>CTR\<close>

definition be_value :: "byte list \<Rightarrow> nat" where
  "be_value bs = foldl (\<lambda>a b. 256 * a + unat b) 0 bs"

lemma be_value_append1 [simp]: "be_value (bs @ [b]) = 256 * be_value bs + unat b"
  by (simp add: be_value_def)

lemma be_value_bound: "be_value bs < 256 ^ length bs"
proof (induction bs rule: rev_induct)
  case (snoc b bs)
  have "unat b < 256" using unsigned_less [of b, where ?'a = nat] by simp
  moreover have "be_value bs + 1 \<le> 256 ^ length bs" using snoc by simp
  then have "256 * (be_value bs + 1) \<le> 256 * 256 ^ length bs" by (rule mult_le_mono2)
  ultimately show ?case by simp
qed (simp add: be_value_def)

lemma length_CTR_increment [simp]: "length (CTR_increment n iv) = length iv"
  by (induction n arbitrary: iv) simp_all

lemma take_CTR_increment:
  "n \<le> m \<Longrightarrow> drop m (CTR_increment n iv) = drop m iv"
  by (induction n arbitrary: iv) simp_all

text \<open>The counter block is incremented as a big-endian number, modulo \<open>256 ^ n\<close>.\<close>

lemma CTR_increment_value:
  "n \<le> length iv \<Longrightarrow> be_value (take n (CTR_increment n iv)) = (be_value (take n iv) + 1) mod 256 ^ n"
proof (induction n arbitrary: iv)
  case 0
  then show ?case by (simp add: be_value_def)
next
  case (Suc n)
  let ?b = "iv ! n"
  have split: "take (Suc n) iv = take n iv @ [?b]"
    using Suc.prems by (simp add: take_Suc_conv_app_nth)
  show ?case
  proof (cases "?b = 255")
    case True
    let ?iv = "iv[n := 0]"
    have "CTR_increment n ?iv ! n = 0"
    proof -
      have "drop n (CTR_increment n ?iv) ! 0 = drop n ?iv ! 0"
        by (simp only: take_CTR_increment [OF order_refl])
      then show ?thesis using Suc.prems by simp
    qed
    then have "take (Suc n) (CTR_increment n ?iv) = take n (CTR_increment n ?iv) @ [0]"
      using Suc.prems by (simp add: take_Suc_conv_app_nth)
    then have "be_value (take (Suc n) (CTR_increment n ?iv)) = 256 * ((be_value (take n iv) + 1) mod 256 ^ n)"
      using Suc.IH [of ?iv] Suc.prems by simp
    also have "\<dots> = (256 * (be_value (take n iv) + 1)) mod 256 ^ Suc n"
      by (simp only: mult_mod_right power_Suc)
    also have "256 * (be_value (take n iv) + 1) = be_value (take (Suc n) iv) + 1"
      unfolding split by (simp add: True)
    finally show ?thesis using True by simp
  next
    case False
    have "unat ?b < 256" using unsigned_less [of ?b, where ?'a = nat] by simp
    moreover have "unat ?b \<noteq> 255"
    proof
      assume "unat ?b = 255"
      then have "unat ?b = unat (255 :: byte)" by simp
      then have "?b = 255" by (rule unsigned_word_eqI)
      with False show False by simp
    qed
    ultimately have b: "unat (?b + 1) = unat ?b + 1" by (simp add: unat_word_ariths)
    have "be_value (take (Suc n) iv) + 1 = be_value (take (Suc n) (iv[n := ?b + 1]))"
      using Suc.prems unfolding split by (simp add: take_Suc_conv_app_nth b)
    also have "\<dots> < 256 ^ Suc n"
      using be_value_bound [of "take (Suc n) (iv[n := ?b + 1])"] Suc.prems by simp
    finally show ?thesis
      using False Suc.prems unfolding split by (simp add: take_Suc_conv_app_nth b)
  qed
qed

text \<open>The key stream does not depend on the data.\<close>

lemma CTR_keystream:
  "\<exists>ks ctx' b n. \<forall>buf. len \<le> length buf \<longrightarrow>
     fold CTR_step [0..<len] (ctx, buf, b0, n0) =
       (ctx', map2 (XOR) (take len buf) ks @ drop len buf, b, n) \<and> length ks = len"
proof (induction len)
  case 0
  show ?case by auto
next
  case (Suc len)
  then obtain ks ctx' b n where IH: "\<And>buf. len \<le> length buf \<Longrightarrow>
     fold CTR_step [0..<len] (ctx, buf, b0, n0) =
       (ctx', map2 (XOR) (take len buf) ks @ drop len buf, b, n) \<and> length ks = len"
    by blast
  define r where "r = (if n = 16
               then (ctx'\<lparr>Iv := CTR_increment 16 (Iv ctx')\<rparr>, Cipher (Iv ctx') (RoundKey ctx'), 0)
               else (ctx', b, n))"
  obtain c2 b2 n2 where r2: "r = (c2, b2, n2)" by (cases r)
  have "fold CTR_step [0..<Suc len] (ctx, buf, b0, n0) =
       (c2, map2 (XOR) (take (Suc len) buf) (ks @ [b2 ! n2]) @ drop (Suc len) buf, b2, n2 + 1) \<and>
       length (ks @ [b2 ! n2]) = Suc len"
    if "Suc len \<le> length buf" for buf
  proof -
    from that have le: "len \<le> length buf" and lt: "len < length buf" by simp_all
    note F = IH [OF le]
    let ?m = "map2 (XOR) (take len buf) ks"
    have lm: "length ?m = len" using F le by simp
    have "CTR_step len (ctx', ?m @ drop len buf, b, n) =
        (c2, (?m @ drop len buf)[len := (?m @ drop len buf) ! len XOR b2 ! n2], b2, n2 + 1)"
      using r2 by (simp add: CTR_step_def r_def Let_def split: if_splits)
    moreover have "(?m @ drop len buf) ! len = buf ! len" using lm lt by (simp add: nth_append)
    moreover have "(?m @ drop len buf)[len := x] = ?m @ x # drop (Suc len) buf" for x
      using lm lt by (simp add: list_update_append Cons_nth_drop_Suc [symmetric])
    moreover have "map2 (XOR) (take (Suc len) buf) (ks @ [b2 ! n2]) = ?m @ [buf ! len XOR b2 ! n2]"
      using lt F by (simp add: take_Suc_conv_app_nth)
    ultimately show ?thesis using F by simp
  qed
  then show ?case by blast
qed

lemma map2_xor_twice:
  "length ks = length xs \<Longrightarrow> map2 (XOR) (map2 (XOR) xs ks) ks = (xs :: byte list)"
  by (induction ks xs rule: list_induct2) (simp_all add: xor.assoc)

lemma AES_CTR_involution_aux:
  assumes "len \<le> length buf"
  shows "snd (AES_CTR_xcrypt_buffer ctx (snd (AES_CTR_xcrypt_buffer ctx buf len)) len) = buf"
proof -
  obtain ks ctx' b n where F: "\<And>buf. len \<le> length buf \<Longrightarrow>
     fold CTR_step [0..<len] (ctx, buf, replicate 16 0, 16) =
       (ctx', map2 (XOR) (take len buf) ks @ drop len buf, b, n) \<and> length ks = len"
    using CTR_keystream [of len ctx "replicate 16 0" 16] by blast
  have x: "snd (AES_CTR_xcrypt_buffer ctx buf len) = map2 (XOR) (take len buf) ks @ drop len buf"
    if "len \<le> length buf" for buf
    using F [OF that] by (simp add: AES_CTR_xcrypt_buffer_def)
  show ?thesis
    using F [OF assms] assms by (simp add: x map2_xor_twice)
qed

section \<open>Properties\<close>

text \<open>Property C7: for every key schedule, deciphering a block with \<open>InvCipher\<close> gives back the
  block that \<open>Cipher\<close> enciphered.\<close>

theorem AES_ECB_roundtrip:
  assumes "length buf = 16"
  shows "AES_ECB_decrypt ctx (AES_ECB_encrypt ctx buf) = buf \<and> length (AES_ECB_encrypt ctx buf) = 16"
  using assms by (simp add: AES_ECB_decrypt_def AES_ECB_encrypt_def InvCipher_Cipher)

lemma AES_ECB_roundtrip_witness:
  "AES_ECB_decrypt AES_new (AES_ECB_encrypt AES_new (replicate 16 7)) = replicate 16 7"
  using AES_ECB_roundtrip [of "replicate 16 7" AES_new] by simp

text \<open>Property C6: with PKCS#7 padding, decrypting what was encrypted under the same key and
  initialisation vector gives back the plain text, when its length is not a multiple of 16.\<close>

theorem AES128CBC_roundtrip_pkcs7:
  assumes "length key = 16" and "length iv = 16" and "length plain mod 16 \<noteq> 0"
    and "length plain + 16 < 2 ^ 32"
  shows "Option.bind (AES128CBCEncrypt key iv PKCS7 plain) (AES128CBCDecrypt key iv PKCS7) = Some plain"
  using assms by (rule AES128CBC_roundtrip_pkcs7_aux)

lemma AES128CBC_roundtrip_pkcs7_witness:
  "Option.bind (AES128CBCEncrypt (replicate 16 1) (replicate 16 2) PKCS7 [104, 105])
     (AES128CBCDecrypt (replicate 16 1) (replicate 16 2) PKCS7) = Some [104, 105]"
  by (rule AES128CBC_roundtrip_pkcs7) simp_all

text \<open>Without padding, decrypting gives back the plain text followed by the zero bytes
  that complete its last block.\<close>

theorem AES128CBC_roundtrip_zeros:
  assumes "length key = 16" and "length iv = 16" and "plain \<noteq> []" and "length plain + 16 < 2 ^ 32"
  shows "Option.bind (AES128CBCEncrypt key iv NoPadding plain) (AES128CBCDecrypt key iv NoPadding) =
    Some (plain @ replicate ((16 - length plain mod 16) mod 16) 0)"
  using AES128CBC_roundtrip_padded [OF assms, of NoPadding] by (simp add: aes_padded_def Let_def)

lemma AES128CBC_roundtrip_zeros_witness:
  "Option.bind (AES128CBCEncrypt (replicate 16 1) (replicate 16 2) NoPadding [104, 105])
     (AES128CBCDecrypt (replicate 16 1) (replicate 16 2) NoPadding) = Some ([104, 105] @ replicate 14 0)"
  using AES128CBC_roundtrip_zeros [of "replicate 16 1" "replicate 16 2" "[104, 105]"] by simp

text \<open>Property C8: with PKCS#7 padding a plain text of whole blocks is encrypted as without padding, to a cipher text of
  the same length. Decryption takes the end of the plain text for the padding: when the last byte is a number from 1 to 16 and
  that many last bytes are equal to it, they are cut off, and otherwise the result is empty, with the result true. So every
  plain text of whole blocks comes back shorter.\<close>

theorem AES128CBC_pkcs7_whole_blocks:
  assumes "length key = 16" and "length iv = 16" and "plain \<noteq> []" and "16 dvd length plain"
    and "length plain + 16 < 2 ^ 32"
  shows "AES128CBCEncrypt key iv PKCS7 plain = AES128CBCEncrypt key iv NoPadding plain \<and>
    (\<exists>cipher. AES128CBCEncrypt key iv PKCS7 plain = Some cipher \<and> length cipher = length plain) \<and>
    (\<exists>result. Option.bind (AES128CBCEncrypt key iv PKCS7 plain) (AES128CBCDecrypt key iv PKCS7) = Some result \<and>
      length result < length plain \<and>
      result = (let v = unat (last plain)
                in if 1 \<le> v \<and> v \<le> 16 \<and> drop (length plain - v) plain = replicate v (last plain)
                   then take (length plain - v) plain else []))"
proof -
  have p: "aes_padded mode plain = plain" for mode
    using assms(4) by (simp add: aes_padded_def dvd_eq_mod_eq_0)
  have small: "length plain < 2 ^ 32" using assms(5) by linarith
  note enc = AES128CBCEncrypt_cbc [OF assms(1-3) small, unfolded p]
  have len: "length (concat (cbc_encrypt (\<lambda>b. Cipher b (KeyExpansion key)) iv (pieces 16 plain))) = length plain"
    using cbc_encrypt_length [OF assms(2,4)] .
  let ?v = "unat (last plain)"
  have "Option.bind (AES128CBCEncrypt key iv PKCS7 plain) (AES128CBCDecrypt key iv PKCS7) =
      Some (take (pkcs7_padding_data_length plain (length plain) 16) plain)"
    using AES128CBC_roundtrip_padded [OF assms(1-3,5), of PKCS7] by (simp add: p)
  moreover have "pkcs7_padding_data_length plain (length plain) 16 < length plain"
    using assms(3) by (auto simp: pkcs7_data_length_blocks [OF assms(3,4)] Let_def)
  then have "length (take (pkcs7_padding_data_length plain (length plain) 16) plain) < length plain" by simp
  moreover have "take (pkcs7_padding_data_length plain (length plain) 16) plain =
      (let v = ?v in if 1 \<le> v \<and> v \<le> 16 \<and> drop (length plain - v) plain = replicate v (last plain)
                     then take (length plain - v) plain else [])"
    by (simp add: pkcs7_data_length_blocks [OF assms(3,4)] Let_def)
  moreover have "AES128CBCEncrypt key iv PKCS7 plain = AES128CBCEncrypt key iv NoPadding plain"
    by (simp only: enc)
  ultimately show ?thesis using enc [of PKCS7] len by blast
qed

lemma AES128CBC_pkcs7_whole_blocks_witness:
  "Option.bind (AES128CBCEncrypt (replicate 16 1) (replicate 16 2) PKCS7 (replicate 15 65 @ [0]))
     (AES128CBCDecrypt (replicate 16 1) (replicate 16 2) PKCS7) = Some [] \<and>
   Option.bind (AES128CBCEncrypt (replicate 16 1) (replicate 16 2) PKCS7 (replicate 15 65 @ [1]))
     (AES128CBCDecrypt (replicate 16 1) (replicate 16 2) PKCS7) = Some (replicate 15 65)"
proof -
  have *: "length (replicate 16 (x :: byte)) = 16" "replicate 15 65 @ [x] \<noteq> []" "16 dvd length (replicate 15 65 @ [x])"
    "length (replicate 15 65 @ [x]) + 16 < 2 ^ 32" for x by simp_all
  note w = AES128CBC_pkcs7_whole_blocks [OF *(1,1-4), THEN conjunct2, THEN conjunct2]
  from w [of 1 2 0] w [of 1 2 1] show ?thesis by (elim exE conjE) (simp add: Let_def)
qed

text \<open>\<open>AES_CTR_xcrypt_buffer\<close> from the same context undoes itself, for any number of
  bytes.\<close>

theorem AES_CTR_involution:
  assumes "len \<le> length buf"
  shows "snd (AES_CTR_xcrypt_buffer ctx (snd (AES_CTR_xcrypt_buffer ctx buf len)) len) = buf"
  using assms by (rule AES_CTR_involution_aux)

lemma AES_CTR_involution_witness:
  "snd (AES_CTR_xcrypt_buffer AES_new (snd (AES_CTR_xcrypt_buffer AES_new (replicate 20 9) 20)) 20) = replicate 20 9"
  using AES_CTR_involution [of 20 "replicate 20 9" AES_new] by simp

text \<open>The counter block is incremented as a 128-bit big-endian number that wraps
  around.\<close>

theorem CTR_counter_wraps:
  assumes "length iv = 16"
  shows "be_value (CTR_increment 16 iv) = (be_value iv + 1) mod 2 ^ 128"
  using CTR_increment_value [of 16 iv] assms by simp

lemma CTR_counter_wraps_witness:
  "be_value (CTR_increment 16 [0, 0, 0, 0, 0, 0, 0, 0, 0, 0, 0, 0, 0, 0, 0, 255]) = 256"
  by (subst CTR_counter_wraps) (simp_all add: be_value_def)

end
