(* ===== verification/Little_Fermat.thy ===== *)
theory Little_Fermat
  imports Prelude
begin

text \<open>
  The number theory behind the key pairs: Fermat's little theorem for natural numbers and the decryption
  exponent. Primality is stated so that it can be evaluated.
\<close>

definition is_prime :: "nat \<Rightarrow> bool" where
  "is_prime p \<longleftrightarrow> 1 < p \<and> list_all (\<lambda>d. p mod d \<noteq> 0) [2..<p]"

lemma is_prime_dvd: "is_prime p \<Longrightarrow> d dvd p \<Longrightarrow> d = 1 \<or> d = p"
proof -
  assume p: "is_prime p" and d: "d dvd p"
  have p0: "0 < p" using p by (simp add: is_prime_def)
  have "d \<noteq> 0" "d \<le> p" using p0 d by (auto dest: dvd_imp_le)
  moreover have "d \<notin> set [2..<p]" using p d by (auto simp: is_prime_def list_all_iff mod_eq_0_iff_dvd)
  ultimately show ?thesis by auto
qed

text \<open>It is enough to try the divisors up to the square root.\<close>

lemma is_primeI:
  assumes "1 < p" "p < b * b" "list_all (\<lambda>d. p mod d \<noteq> 0) [2..<b]"
  shows "is_prime p"
proof -
  have "p mod d \<noteq> 0" if d: "2 \<le> d" "d < p" for d
  proof
    assume "p mod d = 0"
    then obtain k where k: "p = d * k" by auto
    have small: "x \<noteq> 0 \<Longrightarrow> x \<noteq> 1 \<Longrightarrow> x dvd p \<Longrightarrow> b \<le> x" for x
      using assms(3) by (force simp: list_all_iff mod_eq_0_iff_dvd)
    have "b \<le> d" "b \<le> k" using small [of d] small [of k] d k assms(1) by auto
    then have "b * b \<le> p" unfolding k by (rule mult_le_mono)
    with assms(2) show False by simp
  qed
  with assms(1) show ?thesis by (simp add: is_prime_def list_all_iff)
qed

lemma coprime_less_prime:
  assumes "is_prime p" "0 < k" "k < p"
  shows "coprime p k"
proof -
  have "gcd p k = 1 \<or> gcd p k = p" using is_prime_dvd [OF assms(1)] by simp
  moreover have "gcd p k \<le> k" using assms(2) by (simp add: dvd_imp_le)
  ultimately show ?thesis using assms(3) by (auto simp: coprime_iff_gcd_eq_1)
qed

lemma coprime_primes: "is_prime p \<Longrightarrow> is_prime q \<Longrightarrow> p \<noteq> q \<Longrightarrow> coprime p q"
  using coprime_less_prime [of p q] coprime_less_prime [of q p]
  by (cases p q rule: linorder_cases) (auto simp: is_prime_def coprime_commute)

lemma prime_dvd_choose:
  assumes "is_prime p" "0 < k" "k < p"
  shows "p dvd (p choose k)"
proof -
  obtain k' p' where s: "k = Suc k'" "p = Suc p'" using assms by (cases k; cases p) auto
  have "k * (p choose k) = p * (p' choose k')" unfolding s by (rule Suc_times_binomial)
  then have "p dvd k * (p choose k)" by simp
  then show ?thesis using coprime_less_prime [OF assms] by (simp add: coprime_dvd_mult_right_iff)
qed

lemma fermat_power:
  assumes p: "is_prime p"
  shows "a ^ p mod p = a mod p"
proof (induction a)
  case 0
  then show ?case using p by (simp add: is_prime_def power_0_left)
next
  case (Suc a)
  have p1: "1 < p" using p by (simp add: is_prime_def)
  let ?f = "\<lambda>k. (p choose k) * a ^ k"
  have split: "{..p} = insert 0 (insert p {0<..<p})" using p1 by auto
  have dvd: "p dvd (\<Sum>k\<in>{0<..<p}. ?f k)" using prime_dvd_choose [OF p] by (auto intro!: dvd_sum)
  have "Suc a ^ p = (\<Sum>k\<le>p. ?f k)" using binomial_ring [of a 1 p] by simp
  also have "\<dots> = 1 + (a ^ p + (\<Sum>k\<in>{0<..<p}. ?f k))" unfolding split using p1 by simp
  finally have "Suc a ^ p mod p = (1 + (a ^ p + (\<Sum>k\<in>{0<..<p}. ?f k)) mod p) mod p" by (simp add: mod_simps)
  also have "\<dots> = (1 + a ^ p mod p) mod p" using dvd by (metis add.right_neutral dvd_eq_mod_eq_0 mod_add_right_eq)
  finally show ?case unfolding Suc.IH by (simp add: mod_simps)
qed

lemma fermat_power_times:
  assumes "is_prime p"
  shows "a ^ (1 + k * (p - 1)) mod p = a mod p"
proof (induction k)
  case (Suc k)
  have p1: "Suc (p - 1) = p" using assms by (simp add: is_prime_def)
  have "1 + Suc k * (p - 1) = (1 + k * (p - 1)) + (p - 1)" by simp
  then have "a ^ (1 + Suc k * (p - 1)) = a ^ (1 + k * (p - 1)) * a ^ (p - 1)" by (simp only: power_add)
  then have "a ^ (1 + Suc k * (p - 1)) mod p = a ^ (1 + k * (p - 1)) mod p * a ^ (p - 1) mod p"
    by (simp only: mod_mult_left_eq)
  also have "\<dots> = a * a ^ (p - 1) mod p" unfolding Suc.IH by (simp add: mod_mult_left_eq)
  also have "\<dots> = a ^ p mod p" using p1 by (metis power_Suc)
  finally show ?case using fermat_power [OF assms] by simp
qed simp

text \<open>Raising to the product of both exponents of a key pair is the identity below the modulus.\<close>

lemma rsa_power:
  assumes p: "is_prime p" and q: "is_prime q" and ne: "p \<noteq> q"
    and x: "x mod ((p - 1) * (q - 1)) = 1" and a: "a < p * q"
  shows "a ^ x mod (p * q) = a"
proof -
  obtain k where k: "x = 1 + k * ((p - 1) * (q - 1))"
    using x by (metis add.commute mod_div_mult_eq mult.commute)
  have "a ^ x mod p = a mod p" "a ^ x mod q = a mod q"
    using fermat_power_times [OF p, of a "k * (q - 1)"] fermat_power_times [OF q, of a "k * (p - 1)"]
    unfolding k by (simp_all add: ac_simps)
  then have "int p dvd int (a ^ x) - int a" "int q dvd int (a ^ x) - int a"
    by (metis mod_eq_dvd_iff of_nat_mod)+
  moreover have "coprime (int p) (int q)" using coprime_primes [OF p q ne] by simp
  ultimately have "int p * int q dvd int (a ^ x) - int a" by (rule divides_mult)
  then have "int (a ^ x) mod int (p * q) = int a mod int (p * q)" by (simp add: mod_eq_dvd_iff)
  then have "a ^ x mod (p * q) = a mod (p * q)" by (metis of_nat_eq_iff of_nat_mod)
  then show ?thesis using a by simp
qed

end
