(* ===== verification/Std_String.thy ===== *)
theory Std_String
  imports Prelude
begin

text \<open>
  The operations of \<^verbatim>\<open>std::string\<close> and of string lists that the text components share. Strings are
  lists of bytes. The locale \<open>codec\<close> states what the user of an encoding relies on.
\<close>

section \<open>What an encoding promises\<close>

locale codec =
  fixes enc :: "'a \<Rightarrow> 'b"
    and dec :: "'b \<Rightarrow> 'a"
    and ok :: "'a \<Rightarrow> bool"
  assumes dec_enc: "ok x \<Longrightarrow> dec (enc x) = x"
begin

lemma enc_inj: "ok x \<Longrightarrow> ok y \<Longrightarrow> enc x = enc y \<longleftrightarrow> x = y"
  using dec_enc by metis

lemma dec_all: "\<forall>x \<in> set xs. ok x \<Longrightarrow> map dec (map enc xs) = xs"
  by (induction xs) (simp_all add: dec_enc)

end

section \<open>Strings\<close>

type_synonym str = "byte list"

text \<open>\<open>operator[]\<close> of a constant string: the terminating zero stands just behind the end.\<close>

definition str_at :: "str \<Rightarrow> nat \<Rightarrow> byte" where
  "str_at s k = (if k < length s then s ! k else 0)"

lemma str_at_append [simp]:
  "str_at (p @ x # s) (length p) = x"
  "str_at (p @ x # y # s) (Suc (length p)) = y"
  by (simp_all add: str_at_def nth_append)

text \<open>Strings with a separator between them.\<close>

fun join_with :: "'a list \<Rightarrow> 'a list list \<Rightarrow> 'a list" where
  "join_with sep [] = []"
| "join_with sep [x] = x"
| "join_with sep (x # y # xs) = x @ sep @ join_with sep (y # xs)"

lemma join_with_Cons: "xs \<noteq> [] \<Longrightarrow> join_with sep (x # xs) = x @ sep @ join_with sep xs"
  by (cases xs) simp_all

lemma filter_join_with:
  "\<forall>x \<in> set sep. \<not> P x \<Longrightarrow> filter P (join_with sep xs) = filter P (concat xs)"
  by (induction sep xs rule: join_with.induct) (auto simp: filter_empty_conv)

lemma pieces_Cons: "0 < n \<Longrightarrow> xs \<noteq> [] \<Longrightarrow> pieces n xs = take n xs # pieces n (drop n xs)"
  by (subst pieces.simps) simp

lemma pieces_neq_Nil: "0 < n \<Longrightarrow> pieces n xs = [] \<longleftrightarrow> xs = []"
  by (subst pieces.simps) simp

lemma length_pieces_le: "x \<in> set (pieces n xs) \<Longrightarrow> length x \<le> n"
  by (induction n xs rule: pieces.induct) (subst (asm) (2) pieces.simps, auto split: if_splits)

text \<open>A store to a buffer; \<open>None\<close> is a store outside of it.\<close>

definition put :: "'a list \<Rightarrow> nat \<Rightarrow> 'a \<Rightarrow> 'a list option" where
  "put buf i v = (if i < length buf then Some (buf[i := v]) else None)"

lemma put_append: "length p = i \<Longrightarrow> put (p @ x # s) i v = Some ((p @ [v]) @ s)"
  by (auto simp: put_def list_update_append)

end
