(* ===== verification/Base64.thy ===== *)
theory Base64
  imports Std_String
begin

text \<open>
  Model of \<^verbatim>\<open>src/src/base64.cpp\<close> and the templates of \<^verbatim>\<open>src/include/ashe/base64.h\<close>. Strings are lists of
  bytes. Base64 in both alphabets, and with line breaks, is an instance of the locale \<open>codec\<close>.
\<close>

section \<open>The code\<close>

definition base64Chars :: "bool \<Rightarrow> byte list" where
  "base64Chars url = map of_char
     (''ABCDEFGHIJKLMNOPQRSTUVWXYZabcdefghijklmnopqrstuvwxyz0123456789'' @
      (if url then ''-_'' else ''+/''))"

text \<open>The character codes are those of \<open>'A'\<close>, \<open>'Z'\<close>, \<open>'a'\<close>, \<open>'z'\<close>, \<open>'0'\<close>, \<open>'9'\<close>, \<open>'+'\<close>, \<open>'-'\<close>, \<open>'/'\<close>, \<open>'_'\<close>.\<close>

definition getPosOfChar :: "byte \<Rightarrow> int" where
  "getPosOfChar chr =
     (if chr \<ge> 65 \<and> chr \<le> 90 then uint chr - 65
      else if chr \<ge> 97 \<and> chr \<le> 122 then uint chr - 97 + (90 - 65) + 1
      else if chr \<ge> 48 \<and> chr \<le> 57 then uint chr - 48 + (90 - 65) + (122 - 97) + 2
      else if chr = 43 \<or> chr = 45 then 62
      else if chr = 47 \<or> chr = 95 then 63
      else - 1)"

text \<open>
  The loop of \<open>Encode\<close>: the string \<open>ret\<close> grows by four characters for every three bytes. The position
  is a 32-bit integer that wraps, so the loop need not end and the result is an option.
\<close>

partial_function (option) Encode_loop ::
  "byte list \<Rightarrow> byte \<Rightarrow> byte list \<Rightarrow> byte list \<Rightarrow> uint32 \<Rightarrow> byte list option" where
  "Encode_loop chars trailing bytes ret pos =
     (if unat pos < length bytes
      then Encode_loop chars trailing bytes
        (ret @ [chars ! unat (drop_bit 2 (bytes ! unat (pos + 0) AND 0xfc))] @
           (if unat (pos + 1) < length bytes
            then [chars ! (unat (push_bit 4 (bytes ! unat (pos + 0) AND 0x03)) +
                           unat (drop_bit 4 (bytes ! unat (pos + 1) AND 0xf0)))] @
                 (if unat (pos + 2) < length bytes
                  then [chars ! (unat (push_bit 2 (bytes ! unat (pos + 1) AND 0x0f)) +
                                 unat (drop_bit 6 (bytes ! unat (pos + 2) AND 0xc0))),
                        chars ! unat (bytes ! unat (pos + 2) AND 0x3f)]
                  else [chars ! unat (push_bit 2 (bytes ! unat (pos + 1) AND 0x0f)), trailing])
            else [chars ! unat (push_bit 4 (bytes ! unat (pos + 0) AND 0x03)), trailing, trailing]))
        (pos + 3)
      else Some ret)"

declare Encode_loop.simps [code]

definition Base64_Encode :: "byte list \<Rightarrow> bool \<Rightarrow> byte list option" where
  "Base64_Encode bytes url = Encode_loop (base64Chars url) (if url then 46 else 61) bytes [] 0"

text \<open>The loop of \<open>_Decode\<close>; \<open>None\<close> is the result false.\<close>

function Decode_loop :: "byte list \<Rightarrow> byte list \<Rightarrow> nat \<Rightarrow> byte list option" where
  "Decode_loop s ret pos =
     (if pos < length s
      then let p1 = getPosOfChar (str_at s (pos + 1))
           in if p1 < 0 then None
              else let p0 = getPosOfChar (str_at s (pos + 0))
                   in if p0 < 0 then None
                      else let ret = ret @ [word_of_int (push_bit 2 p0 + drop_bit 4 (p1 AND 0x30))]
                           in if pos + 2 < length s \<and> str_at s (pos + 2) \<noteq> 61 \<and> str_at s (pos + 2) \<noteq> 46
                              then let p2 = getPosOfChar (str_at s (pos + 2))
                                   in if p2 < 0 then None
                                      else let ret = ret @ [word_of_int (push_bit 4 (p1 AND 0x0f) + drop_bit 2 (p2 AND 0x3c))]
                                           in if pos + 3 < length s \<and> str_at s (pos + 3) \<noteq> 61 \<and> str_at s (pos + 3) \<noteq> 46
                                              then let p3 = getPosOfChar (str_at s (pos + 3))
                                                   in if p3 < 0 then None
                                                      else Decode_loop s (ret @ [word_of_int (push_bit 6 (p2 AND 0x03) + p3)]) (pos + 4)
                                              else Decode_loop s ret (pos + 4)
                              else Decode_loop s ret (pos + 4)
      else Some ret)"
  by pat_completeness auto
termination
  by (relation "measure (\<lambda>(s, ret, pos). length s - pos)") auto

declare Decode_loop.simps [simp del]

definition Decode_plain :: "byte list \<Rightarrow> byte list option" where
  "Decode_plain s = (if s = [] then None else Decode_loop s [] 0)"

text \<open>\<open>_Decode\<close>: with \<open>remove_linebreaks\<close> it calls \<open>Decode\<close> on a copy without \<open>'\n'\<close>.\<close>

definition Decode_impl :: "byte list \<Rightarrow> bool \<Rightarrow> byte list option" where
  "Decode_impl s remove_linebreaks =
     (if s = [] then None
      else if remove_linebreaks
      then let copy = filter (\<lambda>c. c \<noteq> 10) s;
               ret = (case Decode_plain copy of None \<Rightarrow> [] | Some ret \<Rightarrow> ret)
           in if length ret > 0 then Some ret else None
      else Decode_plain s)"

definition Base64_Decode :: "byte list \<Rightarrow> bool \<Rightarrow> byte list" where
  "Base64_Decode s removeLinebreaks =
     (case Decode_impl s removeLinebreaks of Some ret \<Rightarrow> ret | None \<Rightarrow> [])"

text \<open>
  The loop of \<open>insertLineBreaks\<close>. It does not end for the distance zero, so its result is an
  option; the callers pass 64 and 76.
\<close>

partial_function (option) insert_loop :: "byte list \<Rightarrow> nat \<Rightarrow> nat \<Rightarrow> byte list option" where
  "insert_loop str pos distance =
     (if pos < length str
      then insert_loop (take pos str @ [10] @ drop pos str) (pos + (distance + 1)) distance
      else Some str)"

declare insert_loop.simps [code]

definition insertLineBreaks :: "byte list \<Rightarrow> nat \<Rightarrow> byte list option" where
  "insertLineBreaks str distance = (if length str = 0 then Some [] else insert_loop str distance distance)"

definition EncodeWithPEM :: "byte list \<Rightarrow> byte list option" where
  "EncodeWithPEM s = Option.bind (Base64_Encode s False) (\<lambda>e. insertLineBreaks e 64)"

definition EncodeWithMIME :: "byte list \<Rightarrow> byte list option" where
  "EncodeWithMIME s = Option.bind (Base64_Encode s False) (\<lambda>e. insertLineBreaks e 76)"

section \<open>The alphabet\<close>

lemma base64_pos: "k < 64 \<Longrightarrow> getPosOfChar (base64Chars url ! k) = int k"
proof -
  have "map getPosOfChar (base64Chars True) = map int [0..<64]"
    "map getPosOfChar (base64Chars False) = map int [0..<64]"
    by code_simp+
  then have "map getPosOfChar (base64Chars url) = map int [0..<64]" for url
    by (cases url) simp_all
  moreover have "length (base64Chars url) = 64" for url
    by (cases url) (simp_all add: base64Chars_def)
  moreover assume "k < 64"
  ultimately show ?thesis
    by (metis (no_types, lifting) add_0 diff_zero length_upt nth_map nth_upt)
qed

lemma base64_not_special:
  assumes "k < 64"
  shows "base64Chars url ! k \<noteq> 61" "base64Chars url ! k \<noteq> 46" "base64Chars url ! k \<noteq> 10"
proof -
  have "getPosOfChar 61 = - 1" "getPosOfChar 46 = - 1" "getPosOfChar 10 = - 1"
    by (simp_all add: getPosOfChar_def)
  then show "base64Chars url ! k \<noteq> 61" "base64Chars url ! k \<noteq> 46" "base64Chars url ! k \<noteq> 10"
    using base64_pos [OF assms, of url] by auto
qed

section \<open>The bit arithmetic as arithmetic\<close>

lemma b64_enc_bits:
  fixes a :: byte
  shows "unat (drop_bit 2 (a AND 0xfc)) = unat a div 4"
    and "unat (push_bit 4 (a AND 0x03)) = 16 * (unat a mod 4)"
    and "unat (drop_bit 4 (a AND 0xf0)) = unat a div 16"
    and "unat (push_bit 2 (a AND 0x0f)) = 4 * (unat a mod 16)"
    and "unat (drop_bit 6 (a AND 0xc0)) = unat a div 64"
    and "unat (a AND 0x3f) = unat a mod 64"
proof -
  have m: "x AND 0x03 = take_bit 2 x" "x AND 0x0f = take_bit 4 x" "x AND 0x3f = take_bit 6 x" for x :: byte
    by (simp_all add: take_bit_eq_mask mask_eq_exp_minus_1)
  have n: "0xfc = (NOT (mask 2) :: byte)" "0xf0 = (NOT (mask 4) :: byte)" "0xc0 = (NOT (mask 6) :: byte)"
    by (simp_all add: mask_eq_exp_minus_1)
  have d: "drop_bit k (a AND NOT (mask k)) = drop_bit k a" for k
    by (rule bit_word_eqI) (auto simp: bit_simps dest: bit_byte_8)
  have "drop_bit 2 (a AND 0xfc) = drop_bit 2 a" "drop_bit 4 (a AND 0xf0) = drop_bit 4 a"
    "drop_bit 6 (a AND 0xc0) = drop_bit 6 a"
    unfolding n by (rule d)+
  then show "unat (drop_bit 2 (a AND 0xfc)) = unat a div 4" "unat (drop_bit 4 (a AND 0xf0)) = unat a div 16"
    "unat (drop_bit 6 (a AND 0xc0)) = unat a div 64"
    by (simp_all add: unsigned_drop_bit_eq drop_bit_eq_div unat_div)
  have mod: "unat (take_bit n a) = unat a mod 2 ^ n" for n
    unfolding unsigned_take_bit_eq by (rule take_bit_eq_mod)
  show "unat (a AND 0x3f) = unat a mod 64"
    unfolding m using mod [of 6] by simp
  show "unat (push_bit 4 (a AND 0x03)) = 16 * (unat a mod 4)" "unat (push_bit 2 (a AND 0x0f)) = 4 * (unat a mod 16)"
    unfolding m using mod [of 2] mod [of 4] by (simp_all add: push_bit_eq_mult unat_word_ariths)
qed

lemma b64_dec_bits:
  fixes p :: int
  shows "drop_bit 4 (p AND 0x30) = p div 16 mod 4" and "push_bit 4 (p AND 0x0f) = 16 * (p mod 16)"
    and "drop_bit 2 (p AND 0x3c) = p div 4 mod 16" and "push_bit 6 (p AND 0x03) = 64 * (p mod 4)"
    and "push_bit 2 p = 4 * p"
proof -
  have m: "x AND 0x03 = x mod 4" "x AND 0x0f = x mod 16" for x :: int
    using take_bit_eq_mask [of 2 x] take_bit_eq_mask [of 4 x]
    by (simp_all add: mask_eq_exp_minus_1 take_bit_eq_mod)
  have "drop_bit 4 (p AND 0x30) = drop_bit 4 p AND 0x03" "drop_bit 2 (p AND 0x3c) = drop_bit 2 p AND 0x0f"
    by simp_all
  then show "drop_bit 4 (p AND 0x30) = p div 16 mod 4" "drop_bit 2 (p AND 0x3c) = p div 4 mod 16"
    by (simp_all add: m drop_bit_eq_div)
  show "push_bit 4 (p AND 0x0f) = 16 * (p mod 16)" "push_bit 6 (p AND 0x03) = 64 * (p mod 4)" "push_bit 2 p = 4 * p"
    by (simp_all add: m push_bit_eq_mult)
qed

section \<open>The reference encoding\<close>

text \<open>The alphabets of RFC 4648, tables 1 and 2, by their ASCII codes: \<open>A\<close> to \<open>Z\<close>, \<open>a\<close> to \<open>z\<close>, \<open>0\<close> to \<open>9\<close>, and
  \<open>+\<close> and \<open>/\<close>, or \<open>-\<close> and \<open>_\<close>.\<close>

definition rfc4648_alphabet :: "bool \<Rightarrow> byte list" where
  "rfc4648_alphabet url =
     map of_nat ([65..<91] @ [97..<123] @ [48..<58] @ (if url then [45, 95] else [43, 47]))"

lemma base64Chars_rfc: "base64Chars url = rfc4648_alphabet url"
proof -
  have "base64Chars True = rfc4648_alphabet True" "base64Chars False = rfc4648_alphabet False" by code_simp+
  then show ?thesis by (cases url) simp_all
qed

text \<open>
  RFC 4648, section 4: three octets are one number of 24 bits, written as four digits of base 64;
  an incomplete group is filled with zero bits and padded.
\<close>

definition b64_digit :: "byte list \<Rightarrow> nat \<Rightarrow> nat \<Rightarrow> byte" where
  "b64_digit chars n k = chars ! (n div 64 ^ k mod 64)"

fun rfc4648 :: "byte list \<Rightarrow> byte \<Rightarrow> byte list \<Rightarrow> byte list" where
  "rfc4648 chars pad [] = []"
| "rfc4648 chars pad [a] =
     (let n = 65536 * unat a in [b64_digit chars n 3, b64_digit chars n 2, pad, pad])"
| "rfc4648 chars pad [a, b] =
     (let n = 65536 * unat a + 256 * unat b
      in [b64_digit chars n 3, b64_digit chars n 2, b64_digit chars n 1, pad])"
| "rfc4648 chars pad (a # b # c # rest) =
     (let n = 65536 * unat a + 256 * unat b + unat c
      in [b64_digit chars n 3, b64_digit chars n 2, b64_digit chars n 1, b64_digit chars n 0] @
         rfc4648 chars pad rest)"

lemma b64_digit_div:
  "b64_digit chars n 3 = chars ! (n div 64 div 64 div 64 mod 64)"
  "b64_digit chars n 2 = chars ! (n div 64 div 64 mod 64)"
  "b64_digit chars n 1 = chars ! (n div 64 mod 64)"
  "b64_digit chars n 0 = chars ! (n mod 64)"
  by (simp_all add: b64_digit_def div_mult2_eq [symmetric])

lemma b64_digits:
  fixes a b c :: nat
  assumes "a < 256" "b < 256" "c < 256"
  shows "b64_digit chars (65536 * a + 256 * b + c) 3 = chars ! (a div 4)"
    and "b64_digit chars (65536 * a + 256 * b + c) 2 = chars ! (16 * (a mod 4) + b div 16)"
    and "b64_digit chars (65536 * a + 256 * b + c) 1 = chars ! (4 * (b mod 16) + c div 64)"
    and "b64_digit chars (65536 * a + 256 * b + c) 0 = chars ! (c mod 64)"
proof -
  define p where "p = 16 * (a mod 4) + b div 16"
  define q where "q = 4 * (b mod 16) + c div 64"
  have n: "65536 * a + 256 * b + c = 64 * (64 * (64 * (a div 4) + p) + q) + c mod 64"
  proof -
    have "65536 * (4 * a1 + a0) + 256 * (16 * b1 + b0) + (64 * c1 + c0) =
      64 * (64 * (64 * a1 + (16 * a0 + b1)) + (4 * b0 + c1)) + c0" for a1 a0 b1 b0 c1 c0 :: nat
      by (simp add: distrib_left)
    from this [of "a div 4" "a mod 4" "b div 16" "b mod 16" "c div 64" "c mod 64"]
    show ?thesis unfolding p_def q_def by (simp only: mult_div_mod_eq)
  qed
  have "a mod 4 \<le> 3" "b mod 16 \<le> 15" "a div 4 \<le> 63" "b div 16 \<le> 15" "c div 64 \<le> 3"
    using assms less_mult_imp_div_less [of a 64 4] less_mult_imp_div_less [of b 16 16]
      less_mult_imp_div_less [of c 4 64] pos_mod_bound
    by (simp_all add: less_Suc_eq_le [symmetric])
  then have lt: "a div 4 < 64" "p < 64" "q < 64" "c mod 64 < 64"
    unfolding p_def q_def by simp_all
  have dm: "(64 * x + y) div 64 = x" "(64 * x + y) mod 64 = y" if "y < 64" for x y :: nat
    using that by simp_all
  show "b64_digit chars (65536 * a + 256 * b + c) 3 = chars ! (a div 4)"
    unfolding n b64_digit_div by (simp only: dm lt mod_less)
  show "b64_digit chars (65536 * a + 256 * b + c) 2 = chars ! (16 * (a mod 4) + b div 16)"
    unfolding n b64_digit_div by (simp only: dm lt p_def [symmetric])
  show "b64_digit chars (65536 * a + 256 * b + c) 1 = chars ! (4 * (b mod 16) + c div 64)"
    unfolding n b64_digit_div by (simp only: dm lt q_def [symmetric])
  show "b64_digit chars (65536 * a + 256 * b + c) 0 = chars ! (c mod 64)"
    unfolding n b64_digit_div by (simp only: dm lt)
qed

lemma unat8_less: "unat x < 256" for x :: byte
  using unsigned_less [of x] by simp

lemma rfc4648_group:
  "rfc4648 chars pad [a] = [chars ! (unat a div 4), chars ! (16 * (unat a mod 4)), pad, pad]"
  "rfc4648 chars pad [a, b] =
     [chars ! (unat a div 4), chars ! (16 * (unat a mod 4) + unat b div 16), chars ! (4 * (unat b mod 16)), pad]"
  "rfc4648 chars pad (a # b # c # rest) =
     [chars ! (unat a div 4), chars ! (16 * (unat a mod 4) + unat b div 16),
      chars ! (4 * (unat b mod 16) + unat c div 64), chars ! (unat c mod 64)] @ rfc4648 chars pad rest"
proof -
  show "rfc4648 chars pad [a] = [chars ! (unat a div 4), chars ! (16 * (unat a mod 4)), pad, pad]"
    using b64_digits [of "unat a" 0 0] unat8_less by (simp add: Let_def)
  show "rfc4648 chars pad [a, b] =
     [chars ! (unat a div 4), chars ! (16 * (unat a mod 4) + unat b div 16), chars ! (4 * (unat b mod 16)), pad]"
    using b64_digits [of "unat a" "unat b" 0] unat8_less by (simp add: Let_def)
  show "rfc4648 chars pad (a # b # c # rest) =
     [chars ! (unat a div 4), chars ! (16 * (unat a mod 4) + unat b div 16),
      chars ! (4 * (unat b mod 16) + unat c div 64), chars ! (unat c mod 64)] @ rfc4648 chars pad rest"
    using b64_digits [of "unat a" "unat b" "unat c"] unat8_less by (simp add: Let_def)
qed

lemma unat32_add: "unat pos + k < 2 ^ 32 \<Longrightarrow> unat (pos + of_nat k) = unat pos + k" for pos :: uint32
  by (simp add: unat_word_ariths unat_of_nat)

lemmas Encode_loop_unfold = Encode_loop.simps [unfolded b64_enc_bits]

lemma Encode_loop_rfc:
  assumes "length bytes < 2 ^ 32" "3 dvd unat pos"
  shows "Encode_loop chars pad bytes ret pos = Some (ret @ rfc4648 chars pad (drop (unat pos) bytes))"
  using assms(2)
proof (induction "length bytes - unat pos" arbitrary: ret pos rule: less_induct)
  case less
  show ?case
  proof (cases "unat pos < length bytes")
    case False
    then show ?thesis by (subst Encode_loop.simps) simp
  next
    case True
    from less.prems obtain k where "unat pos = 3 * k" ..
    with True assms(1) have "3 * k < 4294967295" by simp
    then have "3 * k + 3 < 4294967296" by presburger
    with \<open>unat pos = 3 * k\<close> have "unat pos + 3 < 2 ^ 32" by simp
    then have p: "unat (pos + 1) = unat pos + 1" "unat (pos + 2) = unat pos + 2" "unat (pos + 3) = unat pos + 3"
      using unat32_add [of pos 1] unat32_add [of pos 2] unat32_add [of pos 3] by simp_all
    have IH: "Encode_loop chars pad bytes ret' (pos + 3) = Some (ret' @ rfc4648 chars pad (drop (unat pos + 3) bytes))"
      for ret'
      using less.hyps [of "pos + 3" ret'] less.prems True p by simp
    have d: "drop n bytes = bytes ! n # drop (Suc n) bytes" if "n < length bytes" for n
      using that by (rule Cons_nth_drop_Suc [symmetric])
    consider "length bytes = unat pos + 1" | "length bytes = unat pos + 2" | "unat pos + 2 < length bytes"
      using True by linarith
    then show ?thesis
    proof cases
      case 1
      then have "drop (unat pos) bytes = [bytes ! unat pos]"
        using d [of "unat pos"] by simp
      with 1 show ?thesis
        by (subst Encode_loop_unfold) (simp add: p IH rfc4648_group del: rfc4648.simps(2-4))
    next
      case 2
      then have "drop (unat pos) bytes = [bytes ! unat pos, bytes ! (unat pos + 1)]"
        using d [of "unat pos"] d [of "unat pos + 1"] by simp
      with 2 show ?thesis
        by (subst Encode_loop_unfold) (simp add: p IH rfc4648_group del: rfc4648.simps(2-4))
    next
      case 3
      then have "drop (unat pos) bytes =
          bytes ! unat pos # bytes ! (unat pos + 1) # bytes ! (unat pos + 2) # drop (unat pos + 3) bytes"
        using d [of "unat pos"] d [of "unat pos + 1"] d [of "unat pos + 2"] by (simp add: numeral_eq_Suc)
      with 3 show ?thesis
        by (subst Encode_loop_unfold) (simp add: p IH rfc4648_group del: rfc4648.simps(2-4))
    qed
  qed
qed

text \<open>A longer input is never left: the position is always below its length.\<close>

lemma Encode_loop_returns: "Encode_loop chars pad bytes ret pos = Some r \<Longrightarrow> length bytes < 2 ^ 32"
proof (erule Encode_loop.raw_induct [rotated, where P = "\<lambda>chars pad bytes ret pos r. length bytes < 2 ^ 32"],
    goal_cases)
  case (1 f chars pad bytes ret pos r)
  show ?case
  proof (cases "unat pos < length bytes")
    case True
    show ?thesis by (rule 1(1)) (rule 1(2) [unfolded if_P [OF True]])
  next
    case False
    then show ?thesis using unat32_less [of pos] by simp
  qed
qed

section \<open>Decoding\<close>

lemma b64_positions:
  fixes a b c :: nat
  assumes "a < 256" "b < 256" "c < 256"
  shows "a div 4 < 64" "16 * (a mod 4) + b div 16 < 64" "4 * (b mod 16) + c div 64 < 64" "c mod 64 < 64"
proof -
  have "a mod 4 < 4" "b mod 16 < 16" "a div 4 < 64" "b div 16 < 16" "c div 64 < 4"
    using assms by (simp_all add: less_mult_imp_div_less)
  then show "a div 4 < 64" "16 * (a mod 4) + b div 16 < 64" "4 * (b mod 16) + c div 64 < 64" "c mod 64 < 64"
    by simp_all
qed

lemma b64_group_back:
  fixes a b c :: byte
  shows "word_of_int (4 * int (unat a div 4) + int (16 * (unat a mod 4) + unat b div 16) div 16 mod 4) = a"
    and "word_of_int (16 * (int (16 * (unat a mod 4) + unat b div 16) mod 16) +
           int (4 * (unat b mod 16) + unat c div 64) div 4 mod 16) = b"
    and "word_of_int (64 * (int (4 * (unat b mod 16) + unat c div 64) mod 4) + int (unat c mod 64)) = c"
proof -
  have lt: "unat b div 16 < 16" "unat c div 64 < 4"
    using unat8_less [of b] unat8_less [of c] by (simp_all add: less_mult_imp_div_less)
  have w: "word_of_int (int (unat x)) = x" for x :: byte by simp
  have "(16 * (unat a mod 4) + unat b div 16) div 16 = unat a mod 4"
    using lt by simp
  then have "4 * (unat a div 4) + (16 * (unat a mod 4) + unat b div 16) div 16 mod 4 = unat a"
    by (simp only: mod_mod_trivial mult_div_mod_eq)
  from this [THEN arg_cong [of _ _ "\<lambda>n. word_of_int (int n) :: byte"]] show "word_of_int (4 * int (unat a div 4) + int (16 * (unat a mod 4) + unat b div 16) div 16 mod 4) = a"
    by (simp only: of_nat_add of_nat_mult of_nat_numeral zdiv_int zmod_int w)
  have "(16 * (unat a mod 4) + unat b div 16) mod 16 = unat b div 16"
    "(4 * (unat b mod 16) + unat c div 64) div 4 = unat b mod 16"
    using lt by simp_all
  then have "16 * ((16 * (unat a mod 4) + unat b div 16) mod 16) + (4 * (unat b mod 16) + unat c div 64) div 4 mod 16 = unat b"
    by (simp only: mod_mod_trivial mult_div_mod_eq)
  from this [THEN arg_cong [of _ _ "\<lambda>n. word_of_int (int n) :: byte"]] show "word_of_int (16 * (int (16 * (unat a mod 4) + unat b div 16) mod 16) +
           int (4 * (unat b mod 16) + unat c div 64) div 4 mod 16) = b"
    by (simp only: of_nat_add of_nat_mult of_nat_numeral zdiv_int zmod_int w)
  have "(4 * (unat b mod 16) + unat c div 64) mod 4 = unat c div 64"
    using lt by simp
  then have "64 * ((4 * (unat b mod 16) + unat c div 64) mod 4) + unat c mod 64 = unat c"
    by (simp only: mult_div_mod_eq)
  from this [THEN arg_cong [of _ _ "\<lambda>n. word_of_int (int n) :: byte"]] show "word_of_int (64 * (int (4 * (unat b mod 16) + unat c div 64) mod 4) + int (unat c mod 64)) = c"
    by (simp only: of_nat_add of_nat_mult of_nat_numeral zdiv_int zmod_int w)
qed

lemmas Decode_loop_unfold = Decode_loop.simps [unfolded b64_dec_bits]

lemma Decode_group:
  fixes url
  defines "ch \<equiv> (\<lambda>p. base64Chars url ! p)"
  assumes "p0 < 64" "p1 < 64" "p2 < 64" "p3 < 64" and "pad = 61 \<or> pad = 46"
  shows "Decode_loop (pre @ [ch p0, ch p1, ch p2, ch p3] @ rest) ret (length pre) =
      Decode_loop (pre @ [ch p0, ch p1, ch p2, ch p3] @ rest)
        (ret @ [word_of_int (4 * int p0 + int p1 div 16 mod 4), word_of_int (16 * (int p1 mod 16) + int p2 div 4 mod 16),
                word_of_int (64 * (int p2 mod 4) + int p3)]) (length pre + 4)"
    and "Decode_loop (pre @ [ch p0, ch p1, ch p2, pad]) ret (length pre) =
      Some (ret @ [word_of_int (4 * int p0 + int p1 div 16 mod 4), word_of_int (16 * (int p1 mod 16) + int p2 div 4 mod 16)])"
    and "Decode_loop (pre @ [ch p0, ch p1, pad, pad]) ret (length pre) =
      Some (ret @ [word_of_int (4 * int p0 + int p1 div 16 mod 4)])"
proof -
  have pos: "getPosOfChar (ch k) = int k" "\<not> getPosOfChar (ch k) < 0" if "k < 64" for k
    using base64_pos [OF that, of url] by (simp_all add: ch_def)
  have nsp: "ch k \<noteq> 61" "ch k \<noteq> 46" if "k < 64" for k
    using base64_not_special [OF that, of url] by (simp_all add: ch_def)
  show "Decode_loop (pre @ [ch p0, ch p1, ch p2, ch p3] @ rest) ret (length pre) =
      Decode_loop (pre @ [ch p0, ch p1, ch p2, ch p3] @ rest)
        (ret @ [word_of_int (4 * int p0 + int p1 div 16 mod 4), word_of_int (16 * (int p1 mod 16) + int p2 div 4 mod 16),
                word_of_int (64 * (int p2 mod 4) + int p3)]) (length pre + 4)"
    by (subst Decode_loop_unfold) (simp add: Let_def str_at_def nth_append assms(2-5) pos nsp)
  show "Decode_loop (pre @ [ch p0, ch p1, ch p2, pad]) ret (length pre) =
      Some (ret @ [word_of_int (4 * int p0 + int p1 div 16 mod 4), word_of_int (16 * (int p1 mod 16) + int p2 div 4 mod 16)])"
    using assms(6)
    by (subst Decode_loop_unfold) (auto simp: Let_def str_at_def nth_append assms(2-5) pos nsp Decode_loop.simps)
  show "Decode_loop (pre @ [ch p0, ch p1, pad, pad]) ret (length pre) =
      Some (ret @ [word_of_int (4 * int p0 + int p1 div 16 mod 4)])"
    using assms(6)
    by (subst Decode_loop_unfold) (auto simp: Let_def str_at_def nth_append assms(2-5) pos nsp Decode_loop.simps)
qed

lemma Decode_loop_rfc:
  assumes "pad = 61 \<or> pad = 46"
  shows "Decode_loop (pre @ rfc4648 (base64Chars url) pad bytes) ret (length pre) = Some (ret @ bytes)"
proof -
  have z: "unat (0 :: byte) div 16 = 0" "unat (0 :: byte) div 64 = 0" "0 div 16 = (0 :: nat)" "0 div 64 = (0 :: nat)"
    by simp_all
  show ?thesis
    using assms
  proof (induction "base64Chars url" pad bytes arbitrary: pre ret rule: rfc4648.induct)
    case (1 pad)
    then show ?case by (subst Decode_loop.simps) simp
  next
    case (2 pad a)
    show ?case
      unfolding rfc4648_group using b64_group_back(1) [of a 0, unfolded z add_0_right]
        Decode_group(3) [OF _ _ _ _ 2] b64_positions [of "unat a" 0 0, unfolded z add_0_right] unat8_less
      by simp
  next
    case (3 pad a b)
    show ?case
      unfolding rfc4648_group
      using b64_group_back(1) [of a b] b64_group_back(2) [of a b 0, unfolded z add_0_right]
        Decode_group(2) [OF _ _ _ _ 3] b64_positions [of "unat a" "unat b" 0, unfolded z add_0_right] unat8_less
      by simp
  next
    case (4 pad a b c rest)
    let ?g = "[base64Chars url ! (unat a div 4), base64Chars url ! (16 * (unat a mod 4) + unat b div 16),
      base64Chars url ! (4 * (unat b mod 16) + unat c div 64), base64Chars url ! (unat c mod 64)]"
    have "Decode_loop (pre @ rfc4648 (base64Chars url) pad (a # b # c # rest)) ret (length pre) =
      Decode_loop (pre @ ?g @ rfc4648 (base64Chars url) pad rest) (ret @ [a, b, c]) (length pre + 4)"
      unfolding rfc4648_group
      using Decode_group(1) [OF b64_positions [of "unat a" "unat b" "unat c"] 4(2), where url = url and pre = pre] unat8_less
      by (simp only: b64_group_back)
    also have "\<dots> = Some (ret @ a # b # c # rest)"
    proof -
      have "length (pre @ ?g) = length pre + 4" by simp
      then show ?thesis using 4(1) [OF refl 4(2), of "pre @ ?g" "ret @ [a, b, c]"]
        by (simp only: append_assoc append.simps)
    qed
    finally show ?case .
  qed
qed

lemma no_newline_rfc4648: "pad \<noteq> 10 \<Longrightarrow> 10 \<notin> set (rfc4648 (base64Chars url) pad bytes)"
proof (induction "base64Chars url" pad bytes rule: rfc4648.induct)
  case (2 pad a)
  then show ?case
    unfolding rfc4648_group using base64_not_special(3) [of _ url] b64_positions [of "unat a" 0 0] unat8_less
    by (simp add: eq_commute [of 10])
next
  case (3 pad a b)
  then show ?case
    unfolding rfc4648_group using base64_not_special(3) [of _ url] b64_positions [of "unat a" "unat b" 0] unat8_less
    by (simp add: eq_commute [of 10])
next
  case (4 pad a b c rest)
  then show ?case
    unfolding rfc4648_group
    using base64_not_special(3) [of _ url] b64_positions [of "unat a" "unat b" "unat c"] unat8_less
    by (simp add: eq_commute [of 10])
qed simp

lemma rfc4648_Nil_iff: "rfc4648 chars pad bytes = [] \<longleftrightarrow> bytes = []"
  by (cases "(chars, pad, bytes)" rule: rfc4648.cases) (simp_all add: Let_def)

section \<open>Line breaks\<close>

lemma insert_loop_pieces:
  assumes "0 < distance" "s \<noteq> []"
  shows "insert_loop (pre @ s) (length pre + distance) distance =
    Some (pre @ join_with [10] (pieces distance s))"
  using assms(2)
proof (induction "length s" arbitrary: s pre rule: less_induct)
  case less
  show ?case
  proof (cases "distance < length s")
    case False
    with less.prems assms(1) show ?thesis
      by (subst insert_loop.simps) (simp add: pieces_Cons)
  next
    case True
    let ?pre = "pre @ take distance s @ [10]"
    have "insert_loop (pre @ s) (length pre + distance) distance =
      insert_loop (?pre @ drop distance s) (length ?pre + distance) distance"
      using True by (subst insert_loop.simps) (simp add: add.commute)
    also have "\<dots> = Some (?pre @ join_with [10] (pieces distance (drop distance s)))"
      using True assms(1) by (intro less.hyps) auto
    also have "\<dots> = Some (pre @ join_with [10] (pieces distance s))"
      using True assms(1) less.prems by (simp add: pieces_Cons [of distance s] join_with_Cons pieces_neq_Nil)
    finally show ?thesis .
  qed
qed

lemma insertLineBreaks_pieces:
  "0 < distance \<Longrightarrow> insertLineBreaks s distance = Some (join_with [10] (pieces distance s))"
  using insert_loop_pieces [of distance s "[]"] by (simp add: insertLineBreaks_def)

lemma filter_line_breaks:
  "0 < distance \<Longrightarrow> 10 \<notin> set s \<Longrightarrow> filter (\<lambda>c. c \<noteq> 10) (join_with [10] (pieces distance s)) = s"
  by (simp add: filter_join_with concat_pieces filter_id_conv) (metis)

section \<open>Theorems\<close>

lemma Base64_Encode_rfc_aux:
  "length bytes < 2 ^ 32 \<Longrightarrow>
   Base64_Encode bytes url = Some (rfc4648 (base64Chars url) (if url then 46 else 61) bytes)"
  by (simp add: Base64_Encode_def Encode_loop_rfc)

lemma Decode_plain_rfc:
  "pad = 61 \<or> pad = 46 \<Longrightarrow>
   Decode_plain (rfc4648 (base64Chars url) pad bytes) = (if bytes = [] then None else Some bytes)"
  using Decode_loop_rfc [of pad "[]" url bytes "[]"] rfc4648_Nil_iff [of "base64Chars url" pad bytes]
  by (auto simp: Decode_plain_def)

lemma Base64_Decode_rfc:
  "pad = 61 \<or> pad = 46 \<Longrightarrow> Base64_Decode (rfc4648 (base64Chars url) pad bytes) False = bytes"
  by (simp add: Base64_Decode_def Decode_impl_def Decode_plain_rfc rfc4648_Nil_iff)

lemma Base64_Decode_lines:
  assumes "pad = 61 \<or> pad = 46" "0 < distance"
  shows "Base64_Decode (join_with [10] (pieces distance (rfc4648 (base64Chars url) pad bytes))) True = bytes"
proof -
  have f: "filter (\<lambda>c. c \<noteq> 10) (join_with [10] (pieces distance (rfc4648 (base64Chars url) pad bytes))) =
      rfc4648 (base64Chars url) pad bytes"
    using assms no_newline_rfc4648 [of pad url bytes] by (intro filter_line_breaks) auto
  then have "join_with [10] (pieces distance (rfc4648 (base64Chars url) pad bytes)) = [] \<Longrightarrow> bytes = []"
    by (metis filter.simps(1) rfc4648_Nil_iff)
  then show ?thesis
    using assms(1) by (auto simp: Base64_Decode_def Decode_impl_def Decode_plain_rfc f)
qed

interpretation b64: codec "\<lambda>d. the (Base64_Encode d url)" "\<lambda>s. Base64_Decode s False" "\<lambda>d. length d < 2 ^ 32" for url
  by unfold_locales (simp add: Base64_Encode_rfc_aux Base64_Decode_rfc)

interpretation b64_pem: codec "\<lambda>d. the (EncodeWithPEM d)" "\<lambda>s. Base64_Decode s True" "\<lambda>d. length d < 2 ^ 32"
  by unfold_locales (simp add: EncodeWithPEM_def Base64_Encode_rfc_aux insertLineBreaks_pieces Base64_Decode_lines)

interpretation b64_mime: codec "\<lambda>d. the (EncodeWithMIME d)" "\<lambda>s. Base64_Decode s True" "\<lambda>d. length d < 2 ^ 32"
  by unfold_locales (simp add: EncodeWithMIME_def Base64_Encode_rfc_aux insertLineBreaks_pieces Base64_Decode_lines)

text \<open>Property C12: below 4 GiB \<open>Base64::Encode\<close> computes the encoding of RFC 4648: in the standard alphabet
  with its padding \<open>'='\<close>, and in the URL alphabet with \<open>'.'\<close> in the places where the RFC has \<open>'='\<close>.\<close>

theorem Base64_Encode_rfc4648:
  assumes "length bytes < 2 ^ 32"
  shows "Base64_Encode bytes False = Some (rfc4648 (rfc4648_alphabet False) 61 bytes) \<and>
    Base64_Encode bytes True = Some (rfc4648 (rfc4648_alphabet True) 46 bytes)"
  using Base64_Encode_rfc_aux [OF assms] by (simp add: base64Chars_rfc)

lemma Base64_Encode_rfc4648_witness:
  "Base64_Encode [77, 97] False = Some (map of_char ''TWE='') \<and> Base64_Encode [255] True = Some (map of_char ''_w..'')"
proof -
  have e: "rfc4648 (rfc4648_alphabet False) 61 [77, 97] = map of_char ''TWE=''"
    "rfc4648 (rfc4648_alphabet True) 46 [255] = map of_char ''_w..''" unfolding rfc4648_group by code_simp+
  have "length [77, 97 :: byte] < 2 ^ 32" "length [255 :: byte] < 2 ^ 32" by simp_all
  from Base64_Encode_rfc4648 [OF this(1)] Base64_Encode_rfc4648 [OF this(2)] show ?thesis unfolding e by blast
qed

text \<open>\<open>Base64::Encode\<close> returns exactly on inputs of less than 4 GiB: its 32-bit position wraps
  around on a longer input and the loop never ends.\<close>

theorem Base64_Encode_terminates: "(\<exists>e. Base64_Encode bytes url = Some e) \<longleftrightarrow> length bytes < 2 ^ 32"
  using Base64_Encode_rfc_aux [of bytes url] Encode_loop_returns
  unfolding Base64_Encode_def by (metis option.exhaust)

text \<open>Property C13: \<open>Base64::Decode\<close> gives back what \<open>Base64::Encode\<close> was given, in both alphabets, for the
  empty input and for every number of padding characters.\<close>

theorem Base64_roundtrip:
  assumes "Base64_Encode bytes url = Some e"
  shows "Base64_Decode e False = bytes"
proof -
  have "length bytes < 2 ^ 32" using assms Encode_loop_returns unfolding Base64_Encode_def by metis
  then show ?thesis using b64.dec_enc [of bytes url] assms by simp
qed

lemma Base64_roundtrip_witness:
  "Base64_Decode (map of_char ''_w..'') False = [255]"
proof -
  have e: "rfc4648 (base64Chars True) 46 [255] = map of_char ''_w..''" unfolding rfc4648_group by code_simp
  have "length [255 :: byte] < 2 ^ 32" by simp
  from Base64_Encode_rfc_aux [OF this, of True]
  have "Base64_Encode [255] True = Some (map of_char ''_w..'')" unfolding if_True e .
  then show ?thesis by (rule Base64_roundtrip)
qed

text \<open>The PEM and MIME forms return, put no more than 64 and 76 characters between two
  line feeds, and are decoded to the data when line feeds are removed.\<close>

theorem Base64_line_breaks_roundtrip:
  assumes "length bytes < 2 ^ 32"
  shows "(\<exists>ls. EncodeWithPEM bytes = Some (join_with [10] ls) \<and> (\<forall>l \<in> set ls. length l \<le> 64) \<and>
             Base64_Decode (join_with [10] ls) True = bytes) \<and>
         (\<exists>ls. EncodeWithMIME bytes = Some (join_with [10] ls) \<and> (\<forall>l \<in> set ls. length l \<le> 76) \<and>
             Base64_Decode (join_with [10] ls) True = bytes)"
proof -
  let ?ls = "\<lambda>d. pieces d (rfc4648 (base64Chars False) 61 bytes)"
  have "EncodeWithPEM bytes = Some (join_with [10] (?ls 64))" "EncodeWithMIME bytes = Some (join_with [10] (?ls 76))"
    by (simp_all add: EncodeWithPEM_def EncodeWithMIME_def Base64_Encode_rfc_aux [OF assms] insertLineBreaks_pieces)
  moreover have "Base64_Decode (join_with [10] (?ls 64)) True = bytes" "Base64_Decode (join_with [10] (?ls 76)) True = bytes"
    by (simp_all only: Base64_Decode_lines zero_less_numeral simp_thms)
  ultimately show ?thesis using length_pieces_le by blast
qed

lemma Base64_line_breaks_roundtrip_witness:
  "\<exists>ls. EncodeWithPEM (replicate 50 7) = Some (join_with [10] ls) \<and> (\<forall>l \<in> set ls. length l \<le> 64) \<and>
     Base64_Decode (join_with [10] ls) True = replicate 50 7"
  by (rule Base64_line_breaks_roundtrip [THEN conjunct1]) simp

lemma Decode_loop_reject:
  assumes "pos < length s" "getPosOfChar (str_at s pos) < 0 \<or> getPosOfChar (str_at s (pos + 1)) < 0"
    and "q \<le> pos" "4 dvd pos - q"
  shows "Decode_loop s ret q = None"
  using assms(3,4)
proof (induction "pos - q" arbitrary: q ret rule: less_induct)
  case less
  show ?case
  proof (cases "q = pos")
    case True
    then show ?thesis using assms(1,2) by (subst Decode_loop.simps) (auto simp: Let_def)
  next
    case False
    then obtain k where k: "pos - q = 4 * k" "k \<noteq> 0" using less.prems by (auto elim!: dvdE)
    then have "pos - (q + 4) = 4 * (k - 1)" "q + 4 \<le> pos" by (cases k; simp)+
    then have "Decode_loop s r (q + 4) = None" for r
      using less.hyps [of "q + 4" r] k by simp
    then show ?thesis using assms(1) less.prems(1) by (subst Decode_loop.simps) (simp add: Let_def)
  qed
qed

text \<open>A group whose first or second character is outside both alphabets, or whose second
  character is missing, makes the whole decoding empty, whatever was decoded before it.\<close>

theorem Base64_Decode_reject:
  assumes "pos < length s" "getPosOfChar (str_at s pos) < 0 \<or> getPosOfChar (str_at s (pos + 1)) < 0"
    and "4 dvd pos"
  shows "Base64_Decode s False = []"
  using Decode_loop_reject [OF assms(1,2), of 0 "[]"] assms(3)
  by (simp add: Base64_Decode_def Decode_impl_def Decode_plain_def)

lemma Base64_Decode_reject_witness: "Base64_Decode (map of_char ''QUJDR'') False = []"
  by (rule Base64_Decode_reject [of 4]) (simp_all add: str_at_def getPosOfChar_def)

end
