(* ===== verification/Str_Util.thy ===== *)
theory Str_Util
  imports Std_String
begin

text \<open>
  Model of the portable part of \<^verbatim>\<open>src/src/string_util.cpp\<close>. Every function has the same body for
  \<^verbatim>\<open>std::string\<close> and \<^verbatim>\<open>std::wstring\<close>; a character is a word of any width, so that a definition models
  both. \<open>None\<close> as a position is \<open>npos\<close>.
\<close>

section \<open>The operations of \<open>std::basic_string\<close> that the code uses\<close>

definition matches_at :: "('a \<Rightarrow> 'b \<Rightarrow> bool) \<Rightarrow> 'a list \<Rightarrow> 'b list \<Rightarrow> nat \<Rightarrow> bool" where
  "matches_at eq s sub p \<longleftrightarrow> p + length sub \<le> length s \<and> list_all2 eq (take (length sub) (drop p s)) sub"

definition str_find :: "'a list \<Rightarrow> 'a list \<Rightarrow> nat \<Rightarrow> nat option" where
  "str_find s sub off = List.find (matches_at (=) s sub) [off..<Suc (length s)]"

definition str_rfind :: "'a list \<Rightarrow> 'a list \<Rightarrow> nat option" where
  "str_rfind s sub = List.find (matches_at (=) s sub) (rev [0..<Suc (length s)])"

definition str_search :: "('a \<Rightarrow> 'a \<Rightarrow> bool) \<Rightarrow> 'a list \<Rightarrow> 'a list \<Rightarrow> nat \<Rightarrow> nat option" where
  "str_search eq s sub off = List.find (matches_at eq s sub) [off..<Suc (length s)]"

definition find_first_not_of :: "'a list \<Rightarrow> 'a list \<Rightarrow> nat option" where
  "find_first_not_of s cs = List.find (\<lambda>i. s ! i \<notin> set cs) [0..<length s]"

definition find_last_not_of :: "'a list \<Rightarrow> 'a list \<Rightarrow> nat option" where
  "find_last_not_of s cs = List.find (\<lambda>i. s ! i \<notin> set cs) (rev [0..<length s])"

definition substr :: "'a list \<Rightarrow> nat \<Rightarrow> nat \<Rightarrow> 'a list" where
  "substr s pos n = take n (drop pos s)"

definition str_replace_at :: "'a list \<Rightarrow> nat \<Rightarrow> nat \<Rightarrow> 'a list \<Rightarrow> 'a list" where
  "str_replace_at s pos n to = take pos s @ to @ drop (pos + n) s"

section \<open>The code\<close>

definition StrToLower_char :: "'a::len word \<Rightarrow> 'a word" where
  "StrToLower_char c = (if c \<le> 90 \<and> c \<ge> 65 then c - (90 - 122) else c)"

definition StrToUpper_char :: "'a::len word \<Rightarrow> 'a word" where
  "StrToUpper_char c = (if c \<le> 122 \<and> c \<ge> 97 then c + (90 - 122) else c)"

definition Equal :: "bool \<Rightarrow> 'a::len word \<Rightarrow> 'a word \<Rightarrow> bool" where
  "Equal caseInsensitive ch1 ch2 =
     (if caseInsensitive then StrToUpper_char ch1 = StrToUpper_char ch2 else ch1 = ch2)"

definition StrToLower :: "'a::len word list \<Rightarrow> 'a word list" where
  "StrToLower s = map StrToLower_char s"

definition StrToUpper :: "'a::len word list \<Rightarrow> 'a word list" where
  "StrToUpper s = map StrToUpper_char s"

definition StrIsDigit :: "'a::len word list \<Rightarrow> bool" where
  "StrIsDigit s \<longleftrightarrow> s \<noteq> [] \<and> List.find (\<lambda>c. \<not> (c \<ge> 48 \<and> c \<le> 57)) s = None"

definition StrIsLetterOrDigit_char :: "'a::len word \<Rightarrow> bool" where
  "StrIsLetterOrDigit_char c \<longleftrightarrow> (c \<ge> 48 \<and> c \<le> 57) \<or> (c \<ge> 97 \<and> c \<le> 122) \<or> (c \<ge> 65 \<and> c \<le> 90)"

definition StrIsLetterOrDigit :: "'a::len word list \<Rightarrow> bool" where
  "StrIsLetterOrDigit s \<longleftrightarrow> s \<noteq> [] \<and> List.find (\<lambda>c. \<not> StrIsLetterOrDigit_char c) s = None"

definition StrTrim :: "'a list \<Rightarrow> 'a list \<Rightarrow> 'a list" where
  "StrTrim s whitespaces =
     (case find_first_not_of s whitespaces of
        None \<Rightarrow> []
      | Some pos \<Rightarrow>
          (let n = the (find_last_not_of s whitespaces) - pos + 1 in substr s pos n))"

definition StrTrimLeft :: "'a list \<Rightarrow> 'a list \<Rightarrow> 'a list" where
  "StrTrimLeft s whitespaces =
     (case find_first_not_of s whitespaces of None \<Rightarrow> [] | Some pos \<Rightarrow> drop pos s)"

definition StrTrimRight :: "'a list \<Rightarrow> 'a list \<Rightarrow> 'a list" where
  "StrTrimRight s whitespaces =
     (case find_last_not_of s whitespaces of None \<Rightarrow> [] | Some pos \<Rightarrow> substr s 0 (pos + 1))"

definition StrIsStartsWith :: "'a list \<Rightarrow> 'a list \<Rightarrow> bool" where
  "StrIsStartsWith s prefix \<longleftrightarrow> substr s 0 (length prefix) = prefix"

definition StrIsEndsWith :: "'a list \<Rightarrow> 'a list \<Rightarrow> bool" where
  "StrIsEndsWith s suffix =
     (if length suffix \<le> length s
      then substr s (length s - length suffix) (length suffix) = suffix
      else False)"

definition StrIsContains :: "'a list \<Rightarrow> 'a list \<Rightarrow> bool" where
  "StrIsContains str substring \<longleftrightarrow> str_find str substring 0 \<noteq> None"

partial_function (option) ContainTimes_loop :: "'a list \<Rightarrow> 'a list \<Rightarrow> nat \<Rightarrow> nat \<Rightarrow> nat option" where
  "ContainTimes_loop str substring offset cnt =
     (case str_find str substring offset of
        None \<Rightarrow> Some cnt
      | Some pos \<Rightarrow> ContainTimes_loop str substring (pos + length substring) (cnt + 1))"

declare ContainTimes_loop.simps [code]

definition StrContainTimes :: "'a list \<Rightarrow> 'a list \<Rightarrow> nat option" where
  "StrContainTimes str substring =
     (if length substring = 0 then Some 0 else ContainTimes_loop str substring 0 0)"

definition StrFind :: "'a::len word list \<Rightarrow> 'a word list \<Rightarrow> nat \<Rightarrow> bool \<Rightarrow> nat option" where
  "StrFind str substring offset caseInsensitive =
     (if offset \<ge> length str then None else str_search (Equal caseInsensitive) str substring offset)"

definition StrReplaceFirst :: "'a list \<Rightarrow> 'a list \<Rightarrow> 'a list \<Rightarrow> 'a list" where
  "StrReplaceFirst s from to =
     (case str_find s from 0 of None \<Rightarrow> s | Some start_pos \<Rightarrow> str_replace_at s start_pos (length from) to)"

definition StrReplaceLast :: "'a list \<Rightarrow> 'a list \<Rightarrow> 'a list \<Rightarrow> 'a list" where
  "StrReplaceLast s from to =
     (case str_rfind s from of None \<Rightarrow> s | Some start_pos \<Rightarrow> str_replace_at s start_pos (length from) to)"

partial_function (option) StrReplace_loop ::
  "'a::len word list \<Rightarrow> 'a word list \<Rightarrow> bool \<Rightarrow> 'a word list \<Rightarrow> nat \<Rightarrow> 'a word list option" where
  "StrReplace_loop from to caseInsensitive ret start_pos =
     (case StrFind ret from start_pos caseInsensitive of
        None \<Rightarrow> Some ret
      | Some start_pos \<Rightarrow>
          StrReplace_loop from to caseInsensitive (str_replace_at ret start_pos (length from) to) (start_pos + length to))"

declare StrReplace_loop.simps [code]

definition StrReplace ::
  "'a::len word list \<Rightarrow> 'a word list \<Rightarrow> 'a word list \<Rightarrow> nat \<Rightarrow> bool \<Rightarrow> 'a word list option" where
  "StrReplace s from to offset caseInsensitive =
     (if from = [] then Some s
      else if StrFind s from offset caseInsensitive = None then Some s
      else StrReplace_loop from to caseInsensitive s 0)"

partial_function (option) StrSplit_loop ::
  "'a list \<Rightarrow> 'a list \<Rightarrow> bool \<Rightarrow> 'a list list \<Rightarrow> nat \<Rightarrow> nat option \<Rightarrow> 'a list list option" where
  "StrSplit_loop src delimiter includeEmptyStr fields offset pos =
     (case pos of
        Some pos \<Rightarrow>
          (let t = substr src offset (pos - offset);
               fields = (if length t > 0 \<or> (length t = 0 \<and> includeEmptyStr) then fields @ [t] else fields);
               offset = pos + length delimiter
           in StrSplit_loop src delimiter includeEmptyStr fields offset (str_find src delimiter offset))
      | None \<Rightarrow>
          (let t = drop offset src
           in Some (if length t > 0 \<or> (length t = 0 \<and> includeEmptyStr) then fields @ [t] else fields)))"

declare StrSplit_loop.simps [code]

definition StrSplit :: "'a list \<Rightarrow> 'a list \<Rightarrow> bool \<Rightarrow> 'a list list option" where
  "StrSplit src delimiter includeEmptyStr =
     StrSplit_loop src delimiter includeEmptyStr [] 0 (str_find src delimiter 0)"

text \<open>The loop of \<open>StrJoin\<close> over the strings from the iterator on; \<open>ss\<close> is the text so far.\<close>

fun StrJoin_loop :: "'a list \<Rightarrow> bool \<Rightarrow> 'a list list \<Rightarrow> 'a list \<Rightarrow> 'a list" where
  "StrJoin_loop delimiter includeEmptyStr [] ss = ss"
| "StrJoin_loop delimiter includeEmptyStr (it # rest) ss =
     (let ss = (if length it > 0 then ss @ it else if includeEmptyStr then ss @ it else ss);
          ss = (if rest \<noteq> [] then ss @ delimiter else ss)
      in StrJoin_loop delimiter includeEmptyStr rest ss)"

definition StrJoin :: "'a list list \<Rightarrow> 'a list \<Rightarrow> bool \<Rightarrow> 'a list" where
  "StrJoin src delimiter includeEmptyStr = StrJoin_loop delimiter includeEmptyStr src []"

definition StrIsEqual :: "'a::len word list \<Rightarrow> 'a word list \<Rightarrow> bool \<Rightarrow> bool" where
  "StrIsEqual s1 s2 ignoreCase =
     (if length s1 \<noteq> length s2 then False
      else list_all (\<lambda>i. if ignoreCase then StrToLower_char (s1 ! i) = StrToLower_char (s2 ! i) else s1 ! i = s2 ! i)
             [0..<length s1])"

section \<open>Finding\<close>

lemma find_upt_Some:
  assumes "List.find P [a..<b] = Some p"
  shows "a \<le> p \<and> p < b \<and> P p \<and> (\<forall>j. a \<le> j \<and> j < p \<longrightarrow> \<not> P j)"
proof -
  obtain i where i: "i < b - a" "P (a + i)" "p = a + i" "\<forall>j < i. \<not> P (a + j)"
    using assms by (auto simp: find_Some_iff)
  have "\<not> P j" if "a \<le> j" "j < p" for j
    using i(3,4) that by (metis add_diff_inverse_nat add_less_cancel_left not_le)
  with i show ?thesis by auto
qed

lemma find_map_option: "List.find P (map f xs) = map_option f (List.find (P \<circ> f) xs)"
  by (induction xs) auto

lemma find_append: "List.find P (xs @ ys) = (case List.find P xs of None \<Rightarrow> List.find P ys | Some x \<Rightarrow> Some x)"
  by (induction xs) auto

lemma find_upt_shift: "List.find P [a..<b] = map_option ((+) a) (List.find (\<lambda>i. P (a + i)) [0..<b - a])"
proof (cases "a \<le> b")
  case True
  have "(\<lambda>i. i + a) = (+) a" by (simp add: fun_eq_iff)
  with True have "[a..<b] = map ((+) a) [0..<b - a]" using map_add_upt [of a "b - a"] by simp
  then show ?thesis by (simp add: find_map_option o_def)
qed simp

lemma str_find_Some:
  assumes "str_find s sub off = Some p"
  shows "off \<le> p" "p + length sub \<le> length s" "s = take p s @ sub @ drop (p + length sub) s"
proof -
  have m: "off \<le> p \<and> matches_at (=) s sub p"
    using find_upt_Some [OF assms [unfolded str_find_def]] by blast
  then show "off \<le> p" "p + length sub \<le> length s" by (auto simp: matches_at_def)
  from m have "take (length sub) (drop p s) = sub" by (simp add: matches_at_def list.rel_eq)
  then show "s = take p s @ sub @ drop (p + length sub) s"
    by (metis append_take_drop_id drop_drop add.commute)
qed

lemma matches_at_drop: "off \<le> length s \<Longrightarrow> matches_at eq s sub (off + i) = matches_at eq (drop off s) sub i"
  by (auto simp: matches_at_def add.commute)

lemma str_find_drop: "off \<le> length s \<Longrightarrow> str_find s sub off = map_option ((+) off) (str_find (drop off s) sub 0)"
  unfolding str_find_def by (subst find_upt_shift) (simp add: matches_at_drop Suc_diff_le)

section \<open>Splitting, joining, replacing\<close>

text \<open>The fields of a string, cut at the first delimiter.\<close>

function split_fields :: "'a list \<Rightarrow> 'a list \<Rightarrow> 'a list list" where
  "split_fields d s =
     (case str_find s d 0 of
        None \<Rightarrow> [s]
      | Some p \<Rightarrow> if d = [] then [s] else take p s # split_fields d (drop (p + length d) s))"
  by pat_completeness auto
termination
proof (relation "measure (\<lambda>(d, s). length s)", simp, goal_cases)
  case (1 d s p)
  then have "0 < length d" "p + length d \<le> length s" using str_find_Some(2) [of s d 0 p] by auto
  then have "length s - (p + length d) < length s" by linarith
  then show ?case by simp
qed

declare split_fields.simps [simp del]

lemma split_fields_neq_Nil: "split_fields d s \<noteq> []"
  by (subst split_fields.simps) (auto split: option.splits)

lemma StrSplit_loop_fields:
  assumes "d \<noteq> []" "off \<le> length src"
  shows "StrSplit_loop src d inc fs off (str_find src d off) =
    Some (fs @ filter (\<lambda>t. t \<noteq> [] \<or> inc) (split_fields d (drop off src)))"
  using assms(2)
proof (induction "length src - off" arbitrary: off fs rule: less_induct)
  case less
  show ?case
  proof (cases "str_find (drop off src) d 0")
    case None
    then have "str_find src d off = None" using str_find_drop [OF less.prems] by simp
    moreover have "split_fields d (drop off src) = [drop off src]"
      using None by (subst split_fields.simps) simp
    ultimately show ?thesis by (subst StrSplit_loop.simps) (simp add: Let_def)
  next
    case (Some p)
    then have f: "str_find src d off = Some (off + p)" using str_find_drop [OF less.prems] by simp
    have le: "p + length d \<le> length src - off" using str_find_Some(2) [OF Some] by simp
    have sf: "split_fields d (drop off src) = take p (drop off src) # split_fields d (drop (p + length d) (drop off src))"
      using Some assms(1) by (subst split_fields.simps) simp
    let ?t = "take p (drop off src)"
    let ?fs = "if length ?t > 0 \<or> (length ?t = 0 \<and> inc) then fs @ [?t] else fs"
    have "StrSplit_loop src d inc fs off (str_find src d off) =
        StrSplit_loop src d inc ?fs (off + p + length d) (str_find src d (off + p + length d))"
    proof -
      have t: "substr src off (off + p - off) = ?t" by (simp add: substr_def)
      show ?thesis unfolding f by (subst StrSplit_loop.simps) (simp only: Let_def option.case t)
    qed
    also have "\<dots> = Some (?fs @ filter (\<lambda>t. t \<noteq> [] \<or> inc) (split_fields d (drop (off + p + length d) src)))"
    proof (rule less.hyps)
      have "0 < length d" using assms(1) by simp
      then show "length src - (off + p + length d) < length src - off" using le by linarith
      show "off + p + length d \<le> length src" using le less.prems by linarith
    qed
    also have "drop (off + p + length d) src = drop (p + length d) (drop off src)" by (simp add: add.commute add.left_commute)
    finally show ?thesis unfolding sf by auto
  qed
qed

lemma join_split_fields: "d \<noteq> [] \<Longrightarrow> join_with d (split_fields d s) = s"
proof (induction d s rule: split_fields.induct)
  case (1 d s)
  show ?case
  proof (cases "str_find s d 0")
    case None
    then show ?thesis by (subst split_fields.simps) simp
  next
    case (Some p)
    have "join_with d (split_fields d s) = take p s @ d @ drop (p + length d) s"
      using Some 1(2) 1(1) [OF Some 1(2) 1(2)]
      by (subst split_fields.simps) (simp add: join_with_Cons split_fields_neq_Nil)
    then show ?thesis using str_find_Some(3) [OF Some] by simp
  qed
qed

lemma StrJoin_join: "StrJoin src d inc = join_with d src"
proof -
  have "StrJoin_loop d inc src ss = ss @ join_with d src" for ss
    by (induction d inc src ss rule: StrJoin_loop.induct) (auto simp: Let_def join_with_Cons)
  then show ?thesis by (simp add: StrJoin_def)
qed

lemma Equal_False [simp]: "Equal False = (=)"
  by (simp add: Equal_def fun_eq_iff)

lemma StrFind_append:
  assumes "from \<noteq> []"
  shows "StrFind (p @ r) from (length p) False = map_option ((+) (length p)) (str_find r from 0)"
proof (cases "r = []")
  case True
  have "str_find [] from 0 = None" using assms by (simp add: str_find_def matches_at_def)
  then show ?thesis using True by (simp add: StrFind_def)
next
  case False
  then show ?thesis
    using str_find_drop [of "length p" "p @ r" "from"] by (simp add: StrFind_def str_search_def str_find_def)
qed

lemma StrReplace_loop_fields:
  assumes "from \<noteq> []"
  shows "StrReplace_loop from to False (p @ r) (length p) = Some (p @ join_with to (split_fields from r))"
proof (induction "length r" arbitrary: p r rule: less_induct)
  case less
  show ?case
  proof (cases "str_find r from 0")
    case None
    then have "split_fields from r = [r]" by (subst split_fields.simps) simp
    then show ?thesis using None assms by (subst StrReplace_loop.simps) (simp add: StrFind_append)
  next
    case (Some q)
    let ?p = "p @ take q r @ to" and ?r = "drop (q + length from) r"
    have le: "q + length from \<le> length r" using str_find_Some(2) [OF Some] by simp
    have lt: "length ?r < length r" using le assms by (cases "from") auto
    have "str_replace_at (p @ r) (length p + q) (length from) to = ?p @ ?r"
      by (simp add: str_replace_at_def)
    moreover have "length p + q + length to = length ?p" using le by simp
    moreover have "StrReplace_loop from to False (p @ r) (length p) =
        StrReplace_loop from to False (str_replace_at (p @ r) (length p + q) (length from) to) (length p + q + length to)"
      using Some assms by (subst StrReplace_loop.simps) (simp add: StrFind_append)
    ultimately have "StrReplace_loop from to False (p @ r) (length p) = StrReplace_loop from to False (?p @ ?r) (length ?p)"
      by (simp only:)
    also have "\<dots> = Some (?p @ join_with to (split_fields from ?r))" using lt by (rule less.hyps)
    also have "\<dots> = Some (p @ join_with to (split_fields from r))"
      using Some assms by (subst (2) split_fields.simps) (simp add: join_with_Cons split_fields_neq_Nil)
    finally show ?thesis .
  qed
qed

lemma ContainTimes_loop_fields:
  assumes "d \<noteq> []" "off \<le> length s"
  shows "ContainTimes_loop s d off cnt = Some (cnt + (length (split_fields d (drop off s)) - 1))"
  using assms(2)
proof (induction "length s - off" arbitrary: off cnt rule: less_induct)
  case less
  show ?case
  proof (cases "str_find (drop off s) d 0")
    case None
    then have "str_find s d off = None" using str_find_drop [OF less.prems] by simp
    moreover have "split_fields d (drop off s) = [drop off s]" using None by (subst split_fields.simps) simp
    ultimately show ?thesis by (subst ContainTimes_loop.simps) simp
  next
    case (Some p)
    then have f: "str_find s d off = Some (off + p)" using str_find_drop [OF less.prems] by simp
    have le: "p + length d \<le> length s - off" using str_find_Some(2) [OF Some] by simp
    have "ContainTimes_loop s d off cnt = ContainTimes_loop s d (off + p + length d) (cnt + 1)"
      using f by (subst ContainTimes_loop.simps) simp
    also have "\<dots> = Some (cnt + 1 + (length (split_fields d (drop (off + p + length d) s)) - 1))"
    proof (rule less.hyps)
      have "0 < length d" using assms(1) by simp
      then show "length s - (off + p + length d) < length s - off" using le by linarith
      show "off + p + length d \<le> length s" using le less.prems by linarith
    qed
    also have "drop (off + p + length d) s = drop (p + length d) (drop off s)" by (simp add: add.commute add.left_commute)
    also have "cnt + 1 + (length (split_fields d (drop (p + length d) (drop off s))) - 1) =
        cnt + (length (split_fields d (drop off s)) - 1)"
      using Some assms(1) split_fields_neq_Nil [of d "drop (p + length d) (drop off s)"]
      by (subst (2) split_fields.simps) simp
    finally show ?thesis .
  qed
qed

section \<open>Trimming\<close>

lemma find_first_not_of_Cons:
  "find_first_not_of (x # s) cs = (if x \<notin> set cs then Some 0 else map_option Suc (find_first_not_of s cs))"
proof -
  have "[0..<length (x # s)] = 0 # map Suc [0..<length s]" by (simp add: upt_conv_Cons map_Suc_upt del: upt_Suc)
  then show ?thesis by (simp add: find_first_not_of_def find_map_option o_def del: upt_Suc)
qed

lemma find_last_not_of_Cons:
  "find_last_not_of (x # s) cs =
     (case find_last_not_of s cs of Some l \<Rightarrow> Some (Suc l) | None \<Rightarrow> if x \<notin> set cs then Some 0 else None)"
proof -
  have "[0..<length (x # s)] = 0 # map Suc [0..<length s]" by (simp add: upt_conv_Cons map_Suc_upt del: upt_Suc)
  then have "rev [0..<length (x # s)] = map Suc (rev [0..<length s]) @ [0]" by (simp add: rev_map)
  then show ?thesis
    by (simp add: find_last_not_of_def find_append find_map_option o_def del: upt_Suc split: option.splits)
qed

lemma StrTrimLeft_dropWhile: "StrTrimLeft s cs = dropWhile (\<lambda>c. c \<in> set cs) s"
proof (induction s)
  case (Cons x s)
  then show ?case by (auto simp: StrTrimLeft_def find_first_not_of_Cons split: option.splits)
qed (simp add: StrTrimLeft_def find_first_not_of_def)

lemma find_last_None: "find_last_not_of s cs = None \<longleftrightarrow> set s \<subseteq> set cs"
proof (induction s)
  case Nil
  then show ?case by (simp add: find_last_not_of_def)
next
  case (Cons x s)
  then show ?case by (auto simp: find_last_not_of_Cons split: option.splits)
qed

lemma StrTrimRight_rev: "StrTrimRight s cs = rev (dropWhile (\<lambda>c. c \<in> set cs) (rev s))"
proof (induction s)
  case (Cons x s)
  show ?case
  proof (cases "find_last_not_of s cs")
    case None
    then have "dropWhile (\<lambda>c. c \<in> set cs) (rev s) = []" using find_last_None [of s cs] by (auto simp: dropWhile_eq_Nil_conv)
    then show ?thesis
      using None find_last_None [of s cs]
      by (auto simp: StrTrimRight_def find_last_not_of_Cons substr_def dropWhile_append)
  next
    case (Some l)
    then have "\<not> set (rev s) \<subseteq> set cs" using find_last_None [of s cs] by auto
    then have "dropWhile (\<lambda>c. c \<in> set cs) (rev s @ [x]) = dropWhile (\<lambda>c. c \<in> set cs) (rev s) @ [x]"
      by (auto simp: dropWhile_append)
    then show ?thesis
      using Cons Some by (simp add: StrTrimRight_def find_last_not_of_Cons substr_def)
  qed
qed (simp add: StrTrimRight_def find_last_not_of_def)

lemma find_first_None: "find_first_not_of s cs = None \<longleftrightarrow> set s \<subseteq> set cs"
proof (induction s)
  case Nil
  then show ?case by (simp add: find_first_not_of_def)
next
  case (Cons x s)
  then show ?case by (auto simp: find_first_not_of_Cons)
qed

lemma StrTrim_both: "StrTrim s cs = StrTrimRight (StrTrimLeft s cs) cs"
proof (induction s)
  case (Cons x s)
  show ?case
  proof (cases "x \<in> set cs")
    case True
    have "StrTrim (x # s) cs = StrTrim s cs"
    proof (cases "find_first_not_of s cs")
      case None
      then show ?thesis using True by (simp add: StrTrim_def find_first_not_of_Cons)
    next
      case (Some p)
      then have "\<not> set s \<subseteq> set cs" using find_first_None [of s cs] by auto
      then obtain l where "find_last_not_of s cs = Some l" using find_last_None [of s cs] by auto
      then show ?thesis
        using True Some by (simp add: StrTrim_def find_first_not_of_Cons find_last_not_of_Cons substr_def)
    qed
    then show ?thesis using Cons True by (simp add: StrTrimLeft_dropWhile)
  next
    case False
    then show ?thesis
      by (auto simp: StrTrim_def StrTrimRight_def StrTrimLeft_dropWhile find_first_not_of_Cons find_last_not_of_Cons
          substr_def split: option.splits)
  qed
qed (simp add: StrTrim_def StrTrimLeft_def StrTrimRight_def find_first_not_of_def find_last_not_of_def)

lemma StrTrim_dropWhile:
  "StrTrim s cs = rev (dropWhile (\<lambda>c. c \<in> set cs) (rev (dropWhile (\<lambda>c. c \<in> set cs) s)))"
  by (simp add: StrTrim_both StrTrimRight_rev StrTrimLeft_dropWhile)

lemma dropWhile_hd: "dropWhile P xs \<noteq> [] \<Longrightarrow> \<not> P (hd (dropWhile P xs))"
  by (rule hd_dropWhile) (auto simp: dropWhile_eq_Nil_conv)

section \<open>Properties\<close>

text \<open>Property C24: for a delimiter that is not empty \<open>StrSplit\<close> returns; with the empty fields kept, joining
  the fields with the delimiter gives the string back, and without them it returns the other fields.\<close>

theorem StrSplit_StrJoin:
  assumes "delimiter \<noteq> []"
  shows "\<exists>fs. StrSplit s delimiter True = Some fs \<and> StrJoin fs delimiter b = s \<and>
    StrSplit s delimiter False = Some (filter (\<lambda>t. t \<noteq> []) fs)"
  using StrSplit_loop_fields [OF assms, of 0 s] join_split_fields [OF assms, of s]
  by (simp add: StrSplit_def StrJoin_join)

lemma StrSplit_StrJoin_witness:
  "\<exists>fs. StrSplit [97, 44, 44, 98 :: byte] [44] True = Some fs \<and> StrJoin fs [44] False = [97, 44, 44, 98]"
  using StrSplit_StrJoin [of "[44]" "[97, 44, 44, 98]" False] by auto

lemma StrFind_occurs:
  assumes "from \<noteq> []"
  shows "StrFind s from offset False \<noteq> None \<longleftrightarrow>
    (\<exists>p \<ge> offset. p + length from \<le> length s \<and> take (length from) (drop p s) = from)"
proof -
  have m: "matches_at (=) s from p \<longleftrightarrow> p + length from \<le> length s \<and> take (length from) (drop p s) = from" for p
    by (simp add: matches_at_def list.rel_eq)
  have l: "0 < length from" using assms by simp
  show ?thesis
  proof (cases "offset \<ge> length s")
    case True
    then have "\<not> p + length from \<le> length s" if "offset \<le> p" for p using that l by linarith
    then show ?thesis using True by (auto simp: StrFind_def)
  next
    case False
    have "set [offset..<Suc (length s)] = {offset..length s}" by auto
    moreover have "StrFind s from offset False = List.find (matches_at (=) s from) [offset..<Suc (length s)]"
      using False by (simp add: StrFind_def str_search_def del: upt_Suc)
    ultimately show ?thesis by (auto simp: find_None_iff m simp del: upt_Suc)
  qed
qed

text \<open>Property C25: \<open>StrReplace\<close> that matches case leaves the string as it is when the text does not occur at the
  offset or after it (in particular with an offset at or behind the end of the string). Otherwise it replaces every occurrence of
  the text, those before the offset too: the result is the fields between the occurrences, joined with the replacement.
  \<open>StrContainTimes\<close> is the number of the occurrences.\<close>

theorem StrReplace_join_split:
  assumes "from \<noteq> []"
  shows "StrReplace s from to offset False =
      Some (if \<exists>p \<ge> offset. p + length from \<le> length s \<and> take (length from) (drop p s) = from
            then join_with to (split_fields from s) else s) \<and>
    StrContainTimes s from = Some (length (split_fields from s) - 1)"
  using StrReplace_loop_fields [OF assms, of to "[]" s] ContainTimes_loop_fields [OF assms, of 0 s 0] StrFind_occurs [OF assms, of s offset] assms
  by (auto simp: StrReplace_def StrContainTimes_def)

lemma StrReplace_join_split_witness:
  "StrReplace [97, 98, 97 :: byte] [97] [99] 1 False = Some [99, 98, 99] \<and>
   StrReplace [97, 98, 97 :: byte] [97] [99] 200 False = Some [97, 98, 97]"
proof -
  have "split_fields [97] [97, 98, 97 :: byte] = [[], [98], []]" by code_simp
  moreover have "\<exists>p \<ge> 1. p + 1 \<le> 3 \<and> take 1 (drop p [97, 98, 97 :: byte]) = [97]"
    by (intro exI [of _ 2]) (simp add: numeral_2_eq_2)
  ultimately show ?thesis
    using StrReplace_join_split [of "[97]" "[97, 98, 97 :: byte]" "[99]" 1]
      StrReplace_join_split [of "[97]" "[97, 98, 97 :: byte]" "[99]" 200] by (auto split: if_splits)
qed

lemma str_find_empty: "off \<le> length s \<Longrightarrow> str_find s [] off = Some off"
  by (simp add: str_find_def upt_conv_Cons matches_at_def del: upt_Suc)

lemma StrSplit_loop_empty:
  "StrSplit_loop src d inc fs off pos = Some r \<Longrightarrow> \<not> (d = [] \<and> pos = Some off \<and> off \<le> length src)"
proof (erule StrSplit_loop.raw_induct [rotated,
      where P = "\<lambda>src d inc fs off pos r. \<not> (d = [] \<and> pos = Some off \<and> off \<le> length src)"], goal_cases)
  case (1 f src d inc fs off pos r)
  show ?case
  proof
    assume a: "d = [] \<and> pos = Some off \<and> off \<le> length src"
    then have e: "d = []" "pos = Some off" "off + 0 = off" "str_find src [] off = Some off" "off \<le> length src"
      by (simp_all add: str_find_empty)
    show False
      using 1(2) [unfolded e option.case Let_def list.size e] 1(1) e by blast
  qed
qed

text \<open>\<open>StrSplit\<close> with an empty delimiter never returns: it finds the empty string at the same
  place again and again.\<close>

theorem StrSplit_empty_diverges: "StrSplit src [] includeEmptyStr = None"
  using StrSplit_loop_empty [of src "[]" includeEmptyStr "[]" 0 "Some 0"]
  by (cases "StrSplit src [] includeEmptyStr") (auto simp: StrSplit_def str_find_empty)

text \<open>\<open>StrTrim\<close> takes away the longest prefix and the longest suffix of characters of the set, and
  nothing else: it is \<open>StrTrimLeft\<close> and then \<open>StrTrimRight\<close>.\<close>

theorem StrTrim_spec:
  "StrTrim s cs = StrTrimRight (StrTrimLeft s cs) cs \<and>
   (\<exists>l r. s = l @ StrTrim s cs @ r \<and> set l \<union> set r \<subseteq> set cs) \<and>
   (StrTrim s cs = [] \<or> hd (StrTrim s cs) \<notin> set cs \<and> last (StrTrim s cs) \<notin> set cs)"
proof (intro conjI)
  let ?P = "\<lambda>c. c \<in> set cs"
  let ?m = "dropWhile ?P s"
  show "StrTrim s cs = StrTrimRight (StrTrimLeft s cs) cs"
    by (simp add: StrTrim_dropWhile StrTrimRight_rev StrTrimLeft_dropWhile)
  have m: "?m = StrTrim s cs @ rev (takeWhile ?P (rev ?m))"
    unfolding StrTrim_dropWhile by (metis rev_append rev_rev_ident takeWhile_dropWhile_id)
  have "s = takeWhile ?P s @ StrTrim s cs @ rev (takeWhile ?P (rev ?m))"
    using m takeWhile_dropWhile_id [of ?P s] by simp
  moreover have "set (takeWhile ?P xs) \<subseteq> set cs" for xs by (auto dest: set_takeWhileD)
  ultimately show "\<exists>l r. s = l @ StrTrim s cs @ r \<and> set l \<union> set r \<subseteq> set cs"
    by (metis set_rev Un_least)
  show "StrTrim s cs = [] \<or> hd (StrTrim s cs) \<notin> set cs \<and> last (StrTrim s cs) \<notin> set cs"
  proof (cases "StrTrim s cs = []")
    case False
    then have n: "dropWhile ?P (rev ?m) \<noteq> []" unfolding StrTrim_dropWhile by simp
    have n2: "?m \<noteq> []" using False m by (metis append_is_Nil_conv)
    have "last (StrTrim s cs) \<notin> set cs"
      using dropWhile_hd [OF n] n by (simp add: StrTrim_dropWhile last_rev)
    moreover have "hd (StrTrim s cs) = hd ?m" using False m by (metis hd_append2)
    ultimately show ?thesis using dropWhile_hd [OF n2] by simp
  qed simp
qed

end
