(* ===== verification/Decimal.thy ===== *)
theory Decimal
  imports Str_Util
begin

text \<open>
  Numbers as decimal text: \<^verbatim>\<open>std::to_string\<close> and the functions of the C library that read a number back,
  with the facts on them and on the split of joined texts. Used by the RSA keys, the version numbers and
  the configuration file.
\<close>

section \<open>Writing and reading numbers\<close>

fun dec_digits :: "nat \<Rightarrow> str" where
  "dec_digits n = (if n < 10 then [48 + of_nat n] else dec_digits (n div 10) @ [48 + of_nat (n mod 10)])"

declare dec_digits.simps [simp del]

definition to_string :: "int \<Rightarrow> str" where
  "to_string i = (if i < 0 then 45 # dec_digits (nat (- i)) else dec_digits (nat i))"

definition digit :: "'a::len word \<Rightarrow> bool" where
  "digit c \<longleftrightarrow> 48 \<le> c \<and> c \<le> 57"

fun digits_value :: "'a::len word list \<Rightarrow> nat \<Rightarrow> nat" where
  "digits_value [] acc = acc"
| "digits_value (c # s) acc = (if 48 \<le> c \<and> c \<le> 57 then digits_value s (10 * acc + unat (c - 48)) else acc)"

text \<open>
  \<^verbatim>\<open>strtol\<close>, \<^verbatim>\<open>wcstol\<close> and \<^verbatim>\<open>strtoll\<close> with base 10: white space, a sign, digits, and the nearest number of
  the type when the text is out of its range. The number of bits of the type is an argument, as \<^verbatim>\<open>long\<close>
  has 64 or 32 of them.
\<close>

definition strtol :: "nat \<Rightarrow> 'a::len word list \<Rightarrow> int" where
  "strtol bits s =
     (let s = dropWhile (\<lambda>c. c \<in> {32, 9, 10, 11, 12, 13}) s;
          v = (case s of
                 [] \<Rightarrow> 0
               | c # t \<Rightarrow>
                   if c = 45 then - int (digits_value t 0)
                   else if c = 43 then int (digits_value t 0) else int (digits_value s 0))
      in max (- (2 ^ (bits - 1))) (min (2 ^ (bits - 1) - 1) v))"

text \<open>\<^verbatim>\<open>atoll\<close>, with the saturation of the GNU C library.\<close>

definition atoll :: "str \<Rightarrow> int" where
  "atoll s = strtol 64 s"

section \<open>Splitting joined strings\<close>

lemma matches_at_single: "matches_at (=) s [c] p \<longleftrightarrow> p < length s \<and> s ! p = c"
  by (cases "p < length s") (auto simp: matches_at_def take_Suc_conv_app_nth simp flip: Cons_nth_drop_Suc)

lemma str_find_single_None: "c \<notin> set s \<Longrightarrow> str_find s [c] 0 = None"
  unfolding str_find_def find_None_iff by (auto simp: matches_at_single)

lemma str_find_single: "c \<notin> set x \<Longrightarrow> str_find (x @ c # r) [c] 0 = Some (length x)"
  unfolding str_find_def find_Some_iff
  by (rule exI [of _ "length x"]) (auto simp: matches_at_single nth_append simp del: upt_Suc)

lemma split_fields_join:
  "xs \<noteq> [] \<Longrightarrow> \<forall>x \<in> set xs. c \<notin> set x \<Longrightarrow> split_fields [c] (join_with [c] xs) = xs"
proof (induction xs)
  case (Cons x xs)
  show ?case
  proof (cases "xs = []")
    case True
    then show ?thesis using Cons by (subst split_fields.simps) (simp add: str_find_single_None)
  next
    case False
    with Cons show ?thesis by (subst split_fields.simps) (simp add: join_with_Cons str_find_single)
  qed
qed simp

lemma StrSplit_join:
  "xs \<noteq> [] \<Longrightarrow> \<forall>x \<in> set xs. c \<notin> set x \<Longrightarrow> StrSplit (join_with [c] xs) [c] True = Some xs"
  using StrSplit_loop_fields [of "[c]" 0 "join_with [c] xs" True "[]"] by (simp add: StrSplit_def split_fields_join)

section \<open>Decimal numbers\<close>

lemma digit_char:
  assumes "k < 10"
  shows "unat (of_nat k :: byte) = k" "48 \<le> 48 + (of_nat k :: byte)" "48 + (of_nat k :: byte) \<le> 57"
    "of_nat k = (0 :: byte) \<longleftrightarrow> k = 0"
proof -
  show u: "unat (of_nat k :: byte) = k" using assms by (simp add: unat_of_nat)
  have "unat (48 + (of_nat k :: byte)) = 48 + k" using assms by (simp add: unat_word_ariths u)
  then show "48 \<le> 48 + (of_nat k :: byte)" "48 + (of_nat k :: byte) \<le> 57"
    using assms by (simp_all add: word_le_nat_alt)
  show "of_nat k = (0 :: byte) \<longleftrightarrow> k = 0" using u by (cases "k = 0") auto
qed

lemma digits_value_append: "\<forall>c \<in> set s. digit c \<Longrightarrow> digits_value (s @ t) acc = digits_value t (digits_value s acc)"
  by (induction s acc rule: digits_value.induct) (auto simp: digit_def)

lemma dec_digits_digit: "\<forall>c \<in> set (dec_digits n). digit c"
  by (induction n rule: dec_digits.induct) (subst dec_digits.simps, auto simp: digit_def digit_char)

lemma dec_digits_value: "digits_value (dec_digits n) 0 = n"
proof (induction n rule: dec_digits.induct)
  case (1 n)
  show ?case
    using 1 by (subst dec_digits.simps) (auto simp: digits_value_append dec_digits_digit digit_char)
qed

lemma dec_digits_neq_Nil [simp]: "dec_digits n \<noteq> []"
  by (subst dec_digits.simps) simp

lemma dec_digits_hd: "0 < n \<Longrightarrow> hd (dec_digits n) \<noteq> 48"
proof (induction n rule: dec_digits.induct)
  case (1 n)
  then show ?case by (subst dec_digits.simps) (auto simp: digit_char hd_append)
qed

lemma dec_digits_length: "n < 10 ^ Suc k \<Longrightarrow> length (dec_digits n) \<le> Suc k"
proof (induction k arbitrary: n)
  case (Suc k)
  then have "n div 10 < 10 ^ Suc k" by (simp add: less_mult_imp_div_less mult.commute)
  with Suc.IH show ?case by (subst dec_digits.simps) auto
qed (subst dec_digits.simps, simp)

lemma digit_no_space:
  fixes c :: byte
  assumes "digit c"
  shows "c \<notin> {32, 9, 10, 11, 12, 13}" "c \<noteq> 45" "c \<noteq> 43" "c \<noteq> 46" "c \<noteq> 44"
  using assms by (auto simp: digit_def)

text \<open>Digits are read as their number, or as the largest number of the type when it does not hold it.\<close>

lemma strtol_dec_digits: "strtol bits (dec_digits n) = min (2 ^ (bits - 1) - 1) (int n)"
proof -
  obtain c t where s: "dec_digits n = c # t" by (cases "dec_digits n") auto
  then have "digit c" using dec_digits_digit [of n] by auto
  note c = digit_no_space [OF this]
  have "digits_value (c # t) 0 = n" using dec_digits_value [of n] unfolding s .
  then have "strtol bits (dec_digits n) = max (- (2 ^ (bits - 1))) (min (2 ^ (bits - 1) - 1) (int n))"
    unfolding s using c by (simp add: strtol_def del: digits_value.simps)
  moreover have "- (2 ^ (bits - 1)) \<le> min (2 ^ (bits - 1) - 1) (int n)"
    by (simp add: order_trans [of _ 0])
  ultimately show ?thesis by simp
qed

lemma atoll_to_string: "0 \<le> i \<Longrightarrow> i < 2 ^ 63 \<Longrightarrow> atoll (to_string i) = i"
  by (simp add: atoll_def to_string_def strtol_dec_digits)

end
