(* ===== verification/Rsa.thy ===== *)
theory Rsa
  imports Rsa_Primes Little_Fermat Base64 Decimal "HOL-Library.Signed_Division"
begin

text \<open>
  Model of \<^verbatim>\<open>src/src/rsa.cpp\<close>: arithmetic on \<^verbatim>\<open>long long\<close>, key generation, encryption and decryption of
  byte vectors, and the text formats of keys and ciphers. The results of \<^verbatim>\<open>rand()\<close> are an argument. The
  arithmetic wraps around at 64 bits (\<open>ll\<close>), which is what the overflow test of \<open>modmult\<close> relies on.
\<close>

section \<open>Arithmetic on \<open>long long\<close>\<close>

definition ll :: "int \<Rightarrow> int" where
  "ll x = (x + 2 ^ 63) mod 2 ^ 64 - 2 ^ 63"

record rsa_key =
  modulus :: int
  exponent :: int

function gcd_ll :: "int \<Rightarrow> int \<Rightarrow> int" where
  "gcd_ll a b = (if a \<noteq> 0 then gcd_ll (b smod a) a else b)"
  by pat_completeness auto

lemma smod_less: "(a :: int) \<noteq> 0 \<Longrightarrow> nat \<bar>b smod a\<bar> < nat \<bar>a\<bar>"
  using smod_int_range [of a b] by auto

termination gcd_ll
  by (relation "measure (\<lambda>(a, b). nat \<bar>a\<bar>)") (use smod_less in auto)

declare gcd_ll.simps [simp del]

text \<open>The loop of \<open>ExtEuclid\<close>; \<open>g\<close> is the variable \<open>gcd\<close>.\<close>

function ExtEuclid_loop :: "int \<Rightarrow> int \<Rightarrow> int \<Rightarrow> int \<Rightarrow> int \<Rightarrow> int \<Rightarrow> int" where
  "ExtEuclid_loop a g x y u v =
     (if a \<noteq> 0
      then let q = g sdiv a;
               r = g smod a;
               m = ll (x - ll (u * q));
               n = ll (y - ll (v * q))
           in ExtEuclid_loop r a u v m n
      else y)"
  by pat_completeness auto

termination ExtEuclid_loop
  by (relation "measure (\<lambda>(a, g, x, y, u, v). nat \<bar>a\<bar>)") (use smod_less in auto)

declare ExtEuclid_loop.simps [simp del]

definition ExtEuclid :: "int \<Rightarrow> int \<Rightarrow> int" where
  "ExtEuclid a b = ExtEuclid_loop a b 0 1 1 0"

text \<open>The loop at the end of \<open>modmult\<close>.\<close>

function modmult_sum :: "int \<Rightarrow> int \<Rightarrow> int \<Rightarrow> int \<Rightarrow> int" where
  "modmult_sum a b md sm =
     (if b > 0
      then modmult_sum (ll (2 * a) smod md) (b div 2) md (if odd b then ll (sm + a) smod md else sm)
      else sm)"
  by pat_completeness auto

termination modmult_sum
  by (relation "measure (\<lambda>(a, b, md, sm). nat b)") auto

declare modmult_sum.simps [simp del]

definition modmult_even :: "int \<Rightarrow> int \<Rightarrow> int \<Rightarrow> int \<Rightarrow> int" where
  "modmult_even product a b md =
     (if ll (product * 2) > product then ll (product * 2) smod md else modmult_sum a b md 0)"

partial_function (option) modmult :: "int \<Rightarrow> int \<Rightarrow> int \<Rightarrow> int option" where
  "modmult a b md =
     (if a = 0 then Some 0
      else if ll (a * b) sdiv a = b then Some (ll (a * b) smod md)
      else if odd a
      then Option.bind (modmult (a div 2) b md) (\<lambda>product.
        if ll (product * 2) > product then Some (ll (ll (product * 2) smod md + b) smod md)
        else Option.bind (modmult (a div 2) b md) (\<lambda>product. Some (modmult_even product a b md)))
      else Option.bind (modmult (a div 2) b md) (\<lambda>product. Some (modmult_even product a b md)))"

declare modmult.simps [code]

partial_function (option) modExp_loop :: "int \<Rightarrow> int \<Rightarrow> int \<Rightarrow> int \<Rightarrow> int option" where
  "modExp_loop b e m product =
     (if e > 0
      then Option.bind (if odd e then modmult product b m else Some product) (\<lambda>product.
           Option.bind (modmult b b m) (\<lambda>b. modExp_loop b (e div 2) m product))
      else Some product)"

declare modExp_loop.simps [code]

definition rsa_modExp :: "int \<Rightarrow> int \<Rightarrow> int \<Rightarrow> int option" where
  "rsa_modExp b e m =
     (if b < 0 \<or> e < 0 \<or> m \<le> 0 then Some (- 1) else modExp_loop (b smod m) e m 1)"

section \<open>Key generation\<close>

text \<open>\<open>Out_of_bounds\<close> is a read behind the table, \<open>More_random\<close> the end of the given random numbers.\<close>

datatype rsa_error = Out_of_bounds | More_random | No_return

definition rsa_e :: int where
  "rsa_e = push_bit 16 2 + 1"

text \<open>\<^verbatim>\<open>(double)rand() * (prime_count + 1) / (RAND_MAX + 1.0)\<close>, which is exact when \<^verbatim>\<open>RAND_MAX + 1\<close> is a power
  of two below \<open>2 ^ 32\<close>.\<close>

definition pick_index :: "nat \<Rightarrow> nat \<Rightarrow> nat" where
  "pick_index rand_max r = r * (length primes + 1) div (rand_max + 1)"

definition prime_at :: "nat \<Rightarrow> int option" where
  "prime_at i = (if i < length primes then Some (primes ! i) else None)"

fun choose_primes :: "nat \<Rightarrow> nat list \<Rightarrow> rsa_error + int \<times> int" where
  "choose_primes rand_max (r1 # r2 # rs) =
     (case prime_at (pick_index rand_max r1) of
        None \<Rightarrow> Inl Out_of_bounds
      | Some p \<Rightarrow>
          (case prime_at (pick_index rand_max r2) of
             None \<Rightarrow> Inl Out_of_bounds
           | Some q \<Rightarrow>
               (let phi_max = ll ((p - 1) * (q - 1))
                in if \<not> (p \<noteq> 0 \<and> q \<noteq> 0) \<or> p = q \<or> gcd_ll phi_max rsa_e \<noteq> 1
                   then choose_primes rand_max rs else Inr (p, q))))"
| "choose_primes rand_max _ = Inl More_random"

partial_function (option) make_positive :: "int \<Rightarrow> int \<Rightarrow> int option" where
  "make_positive d phi_max = (if d < 0 then make_positive (ll (d + phi_max)) phi_max else Some d)"

declare make_positive.simps [code]

definition RSAGenKeys_cls :: "nat \<Rightarrow> nat list \<Rightarrow> rsa_error + rsa_key \<times> rsa_key" where
  "RSAGenKeys_cls rand_max rs =
     (case choose_primes rand_max rs of
        Inl e \<Rightarrow> Inl e
      | Inr (p, q) \<Rightarrow>
          (let max = ll (p * q);
               phi_max = ll ((p - 1) * (q - 1))
           in case make_positive (ExtEuclid phi_max rsa_e) phi_max of
                None \<Rightarrow> Inl No_return
              | Some d \<Rightarrow> Inr (\<lparr>modulus = max, exponent = rsa_e\<rparr>, \<lparr>modulus = max, exponent = d\<rparr>)))"

section \<open>Encryption and decryption of bytes\<close>

text \<open>The result \<open>Some None\<close> stands for a null pointer.\<close>

fun RSAEncrypt_cls :: "byte list \<Rightarrow> rsa_key \<Rightarrow> int list option option" where
  "RSAEncrypt_cls [] pub = Some (Some [])"
| "RSAEncrypt_cls (c # message) pub =
     Option.bind (rsa_modExp (uint c) (exponent pub) (modulus pub)) (\<lambda>x.
       if x = - 1 then Some None
       else Option.bind (RSAEncrypt_cls message pub) (\<lambda>r. Some (map_option ((#) x) r)))"

text \<open>The comparison of the byte with \<open>-1\<close> is one of the promoted value.\<close>

fun RSADecrypt_cls :: "int list \<Rightarrow> rsa_key \<Rightarrow> byte list option option" where
  "RSADecrypt_cls [] priv = Some (Some [])"
| "RSADecrypt_cls (c # message) priv =
     Option.bind (rsa_modExp c (exponent priv) (modulus priv)) (\<lambda>x.
       let temp = (word_of_int x :: byte) in
       if uint temp = - 1 then Some None
       else Option.bind (RSADecrypt_cls message priv) (\<lambda>r. Some (map_option ((#) temp) r)))"

section \<open>Text\<close>

definition AddZeroToFront :: "str \<Rightarrow> nat \<Rightarrow> str" where
  "AddZeroToFront src fixedLen =
     (if length src > fixedLen then [] else replicate (fixedLen - length src) 48 @ src)"

fun RemoveFrontZero_loop :: "str \<Rightarrow> bool \<Rightarrow> str \<Rightarrow> str" where
  "RemoveFrontZero_loop [] findNoZero ret = ret"
| "RemoveFrontZero_loop (c # src) findNoZero ret =
     (if findNoZero then RemoveFrontZero_loop src findNoZero (ret @ [c])
      else if c \<noteq> 48 then RemoveFrontZero_loop src True (ret @ [c])
      else RemoveFrontZero_loop src findNoZero ret)"

definition RemoveFrontZero :: "str \<Rightarrow> str" where
  "RemoveFrontZero src = (if length src = 1 then src else RemoveFrontZero_loop src False [])"

definition RSAGenKeys :: "nat \<Rightarrow> nat list \<Rightarrow> rsa_error + str \<times> str" where
  "RSAGenKeys rand_max rs =
     (case RSAGenKeys_cls rand_max rs of
        Inl e \<Rightarrow> Inl e
      | Inr (pub_cls, priv_cls) \<Rightarrow>
          (let pub1 = AddZeroToFront (to_string (modulus pub_cls)) 20;
               pub2 = AddZeroToFront (to_string (exponent pub_cls)) 20;
               priv1 = AddZeroToFront (to_string (modulus priv_cls)) 20;
               priv2 = AddZeroToFront (to_string (exponent priv_cls)) 20
           in case (Base64_Encode (pub1 @ pub2) False, Base64_Encode (priv1 @ priv2) False) of
                (Some pub, Some priv) \<Rightarrow> Inr (pub, priv)
              | _ \<Rightarrow> Inl No_return))"

text \<open>The key that the text of a key stands for; \<open>None\<close> when the length is wrong.\<close>

definition read_key :: "str \<Rightarrow> rsa_key option" where
  "read_key key =
     (let un64 = Base64_Decode key False
      in if length un64 \<noteq> 40 then None
         else Some \<lparr>modulus = atoll (RemoveFrontZero (substr un64 0 20)), exponent = atoll (RemoveFrontZero (drop 20 un64))\<rparr>)"

text \<open>\<open>Some None\<close> is the result false.\<close>

definition RSAEncrypt :: "byte list \<Rightarrow> str \<Rightarrow> str option option" where
  "RSAEncrypt plain pub =
     (if plain = [] \<or> pub = [] then Some None
      else case read_key pub of
             None \<Rightarrow> Some None
           | Some pub_cls \<Rightarrow>
               Option.bind (RSAEncrypt_cls plain pub_cls) (\<lambda>numberBuffer.
                 case numberBuffer of
                   None \<Rightarrow> Some None
                 | Some ns \<Rightarrow> map_option Some (Base64_Encode (join_with [44] (map to_string ns)) False)))"

definition RSADecrypt :: "str \<Rightarrow> str \<Rightarrow> byte list \<Rightarrow> byte list option option" where
  "RSADecrypt cipher priv plain =
     (if cipher = [] \<or> priv = [] then Some None
      else case read_key priv of
             None \<Rightarrow> Some None
           | Some priv_cls \<Rightarrow>
               (let str_cipher = Base64_Decode cipher False
                in if str_cipher = [] then Some None
                   else Option.bind (StrSplit str_cipher [44] True) (\<lambda>numberStrList.
                          if [] \<in> set numberStrList then Some None
                          else map_option (map_option ((@) plain)) (RSADecrypt_cls (map atoll numberStrList) priv_cls))))"

definition RSAEncrypt_string :: "str \<Rightarrow> str \<Rightarrow> str option option" where
  "RSAEncrypt_string plain pub = RSAEncrypt plain pub"

definition RSADecrypt_string :: "str \<Rightarrow> str \<Rightarrow> str option option" where
  "RSADecrypt_string cipher priv = RSADecrypt cipher priv []"

section \<open>The arithmetic is right\<close>

lemma ll_id: "- (2 ^ 63) \<le> x \<Longrightarrow> x < 2 ^ 63 \<Longrightarrow> ll x = x"
  by (simp add: ll_def)

lemma ll_nonneg: "0 \<le> x \<Longrightarrow> x < 2 ^ 63 \<Longrightarrow> ll x = x"
  by (rule ll_id) simp_all

lemma ll_range: "- (2 ^ 63) \<le> ll x" "ll x < 2 ^ 63"
  using pos_mod_sign [of "2 ^ 64" "x + 2 ^ 63"] pos_mod_bound [of "2 ^ 64" "x + 2 ^ 63"] by (simp_all add: ll_def)

lemma gcd_ll_gcd: "0 \<le> a \<Longrightarrow> 0 \<le> b \<Longrightarrow> gcd_ll a b = gcd a b"
proof (induction a b rule: gcd_ll.induct)
  case (1 a b)
  show ?case
  proof (cases "a = 0")
    case False
    with 1 have "b smod a = b mod a" "0 \<le> b mod a" by (simp_all add: smod_mod_positive)
    then have "gcd_ll a b = gcd (b mod a) a" using 1 False by (subst gcd_ll.simps) simp
    then show ?thesis by (metis gcd.commute gcd_red_int)
  qed (use 1 in \<open>simp add: gcd_ll.simps\<close>)
qed

lemma fits_twice:
  "(m :: int) \<le> 2 ^ 62 \<Longrightarrow> x < m \<Longrightarrow> y < m \<Longrightarrow> x + y < 2 ^ 63"
  "(m :: int) \<le> 2 ^ 62 \<Longrightarrow> x < m \<Longrightarrow> 2 * x < 2 ^ 63"
  by simp_all

lemma modmult_sum_mult:
  "1 < m \<Longrightarrow> m \<le> 2 ^ 62 \<Longrightarrow> 0 \<le> a \<Longrightarrow> a < m \<Longrightarrow> 0 \<le> b \<Longrightarrow> 0 \<le> sm \<Longrightarrow> sm < m \<Longrightarrow>
   modmult_sum a b m sm = (sm + a * b) mod m"
proof (induction a b m sm rule: modmult_sum.induct)
  case (1 a b m sm)
  show ?case
  proof (cases "b > 0")
    case True
    let ?s = "if odd b then ll (sm + a) smod m else sm"
    have fit: "2 * a < 2 ^ 63" "sm + a < 2 ^ 63" "0 \<le> 2 * a" "0 \<le> sm + a" "0 \<le> m" "0 < m"
      using 1(2-) fits_twice [OF 1(3)] by simp_all
    have a2: "ll (2 * a) smod m = 2 * a mod m"
      using fit by (simp only: ll_nonneg smod_mod_positive)
    have s: "?s = (sm + a * (b mod 2)) mod m"
      using fit 1(2-) by (simp add: ll_nonneg smod_mod_positive odd_iff_mod_2_eq_one)
    have "modmult_sum a b m sm = modmult_sum (2 * a mod m) (b div 2) m ?s"
      using True a2 by (subst modmult_sum.simps) simp
    also have "\<dots> = (?s + 2 * a mod m * (b div 2)) mod m"
      using 1(1) [OF True, unfolded a2] True fit(6) 1(2,3) unfolding s by simp
    also have "\<dots> = (sm + a * (b mod 2) + 2 * a * (b div 2)) mod m"
      unfolding s by (rule mod_add_cong) (simp_all only: mod_mod_trivial mod_mult_left_eq)
    also have "sm + a * (b mod 2) + 2 * a * (b div 2) = sm + a * (2 * (b div 2) + b mod 2)" by (simp only: distrib_left ac_simps)
    finally show ?thesis by simp
  qed (use 1(2-) in \<open>simp add: modmult_sum.simps\<close>)
qed

text \<open>When the product does not fit, the test by division notices.\<close>

lemma overflow_test:
  assumes "0 < a" "0 \<le> b" "ll (a * b) sdiv a = b"
  shows "ll (a * b) = a * b"
proof (cases "a * b < 2 ^ 63")
  case True
  moreover have "0 \<le> a * b" using assms by simp
  ultimately show ?thesis by (intro ll_id) simp_all
next
  case False
  let ?P = "ll (a * b)"
  have P: "?P < a * b" using ll_range(2) [of "a * b"] False by linarith
  have "b \<noteq> 0" using False by auto
  have "?P sdiv a < b"
  proof (cases "0 \<le> ?P")
    case True
    then have "?P sdiv a = ?P div a" using assms(1) by (simp add: signed_divide_int_def sgn_if)
    moreover have "?P div a < b"
    proof (rule ccontr)
      assume "\<not> ?P div a < b"
      then have "a * b \<le> a * (?P div a)" using assms(1) by (intro mult_left_mono) simp_all
      also have "\<dots> \<le> ?P" using mult_div_mod_eq [of a ?P] pos_mod_sign [of a ?P] assms(1) by linarith
      finally show False using P by simp
    qed
    ultimately show ?thesis by simp
  next
    case neg: False
    then have "?P sdiv a = - (\<bar>?P\<bar> div a)" using assms(1) by (simp add: signed_divide_int_def sgn_if)
    moreover have "0 \<le> \<bar>?P\<bar> div a" using assms(1) by (simp add: pos_imp_zdiv_nonneg_iff)
    ultimately show ?thesis using \<open>b \<noteq> 0\<close> assms(2) by linarith
  qed
  with assms(3) show ?thesis by simp
qed

lemma modmult_mult:
  assumes m: "1 < m" "m \<le> 2 ^ 62" and b: "0 \<le> b" "b < m"
  shows "0 \<le> a \<Longrightarrow> a < m \<Longrightarrow> modmult a b m = Some (a * b mod m)"
proof (induction "nat a" arbitrary: a rule: less_induct)
  case less
  consider "a = 0" | "0 < a" "ll (a * b) sdiv a = b" | "0 < a" "ll (a * b) sdiv a \<noteq> b"
    using less.prems by linarith
  then show ?case
  proof cases
    case 2
    then have "ll (a * b) = a * b" using b by (intro overflow_test) simp_all
    moreover have "0 \<le> a * b" using less.prems b by simp
    ultimately show ?thesis using 2 m by (subst modmult.simps) (simp add: smod_mod_positive)
  next
    case 3
    let ?p = "a div 2 * b mod m"
    have IH: "modmult (a div 2) b m = Some ?p"
      using less.hyps [of "a div 2"] 3(1) less.prems by simp
    have p: "0 \<le> ?p" "?p < m" using m by simp_all
    have pb: "2 * ?p mod m < m" using m by simp
    have fit: "ll (?p * 2) = 2 * ?p" "ll (2 * ?p mod m + b) = 2 * ?p mod m + b"
      using p fits_twice(2) [OF m(2) p(2)] fits_twice(1) [OF m(2) pb b(2)] m b
      by (simp_all only: mult.commute ll_nonneg) (simp_all add: ll_nonneg)
    have sm: "(2 * ?p) smod m = 2 * ?p mod m" "(2 * ?p mod m + b) smod m = (2 * ?p mod m + b) mod m"
      using p m b by (simp_all add: smod_mod_positive)
    have sum: "modmult_sum a b m 0 = a * b mod m"
      using modmult_sum_mult [OF m, of a b 0] less.prems b m by simp
    have odd: "(2 * ?p mod m + b) mod m = a * b mod m" if "odd a"
    proof -
      have "(2 * ?p mod m + b) mod m = ((2 * (a div 2) + 1) * b) mod m" by (simp add: mod_simps algebra_simps)
      then show ?thesis using that by simp
    qed
    have even: "2 * ?p mod m = a * b mod m" if "even a"
    proof -
      have "2 * ?p mod m = (2 * (a div 2) * b) mod m" by (simp add: mod_simps algebra_simps)
      then show ?thesis using that by simp
    qed
    have "modmult_even ?p a b m = a * b mod m" if "even a \<or> \<not> 2 * ?p > ?p"
    proof (cases "2 * ?p > ?p")
      case True
      then show ?thesis using that unfolding modmult_even_def fit sm by (simp only: if_True even simp_thms)
    next
      case False
      then show ?thesis unfolding modmult_even_def fit sum by (simp only: if_False)
    qed
    note even_case = this
    from 3 have ne: "(a = 0) = False" "(ll (a * b) sdiv a = b) = False" by simp_all
    show ?thesis
      by (subst modmult.simps, cases "odd a"; cases "2 * ?p > ?p")
        (simp_all only: ne IH fit sm odd even_case bind.bind_lunit if_True if_False not_True_eq_False not_False_eq_True simp_thms)
  qed (simp add: modmult.simps)
qed

lemma modExp_loop_power:
  assumes m: "1 < m" "m \<le> 2 ^ 62"
  shows "0 \<le> b \<Longrightarrow> b < m \<Longrightarrow> 0 \<le> product \<Longrightarrow> product < m \<Longrightarrow>
    modExp_loop b e m product = Some (product * b ^ nat e mod m)"
proof (induction "nat e" arbitrary: b e product rule: less_induct)
  case less
  show ?case
  proof (cases "e > 0")
    case True
    let ?p = "if odd e then product * b mod m else product"
    have p: "0 \<le> ?p" "?p < m" and bb: "0 \<le> b * b mod m" "b * b mod m < m" using less.prems m by simp_all
    have step: "(if odd e then modmult product b m else Some product) = Some ?p" "modmult b b m = Some (b * b mod m)"
      using less.prems by (simp_all add: modmult_mult [OF m])
    have "modExp_loop b e m product = modExp_loop (b * b mod m) (e div 2) m ?p"
      using True step by (subst modExp_loop.simps) simp
    also have "\<dots> = Some (?p * (b * b mod m) ^ nat (e div 2) mod m)"
      using True by (intro less.hyps p bb) simp
    also have "?p * (b * b mod m) ^ nat (e div 2) mod m = product * b ^ nat e mod m"
    proof -
      have e: "nat e = nat (e mod 2) + 2 * nat (e div 2)" using True by (simp add: nat_div_distrib nat_mod_distrib)
      have q: "?p mod m = product * b ^ nat (e mod 2) mod m" by (simp add: odd_iff_mod_2_eq_one)
      have "b ^ nat e = b ^ nat (e mod 2) * (b * b) ^ nat (e div 2)"
        unfolding e power_add power_mult by (simp only: power2_eq_square)
      moreover have "(b * b mod m) ^ nat (e div 2) mod m = (b * b) ^ nat (e div 2) mod m" by (rule power_mod)
      ultimately show ?thesis using mod_mult_cong [OF q] by (metis mult.assoc)
    qed
    finally show ?thesis .
  qed (use less.prems in \<open>simp add: modExp_loop.simps\<close>)
qed

lemma rsa_modExp_power:
  assumes "1 < m" "m \<le> 2 ^ 62" "0 \<le> b" "0 \<le> e"
  shows "rsa_modExp b e m = Some (b ^ nat e mod m)"
  using assms by (simp add: rsa_modExp_def smod_mod_positive modExp_loop_power power_mod)

text \<open>The invariant of the extended Euclidean algorithm also bounds its variables: \<open>g\<close> and \<open>a\<close> are combinations
  of the start values, and the coefficients weighed with the other remainder add up to the start values.\<close>

lemma summand_le: "(1 :: int) \<le> a \<Longrightarrow> 0 \<le> x \<Longrightarrow> 0 \<le> y \<Longrightarrow> a * x + y = B \<Longrightarrow> x \<le> B"
  using mult_right_mono [of 1 a x] by simp

lemma euclid_coefficient:
  fixes x u q :: int
  assumes "x * u \<le> 0" "0 \<le> q" "0 < a" "0 \<le> r" "a * q + r = g" "g * \<bar>u\<bar> + a * \<bar>x\<bar> = B" "B < 2 ^ 63"
  shows "ll (x - ll (u * q)) = x - u * q" "u * (x - u * q) \<le> 0"
    "a * \<bar>x - u * q\<bar> + r * \<bar>u\<bar> = B" "\<bar>x - u * q\<bar> \<le> B"
proof -
  have abs: "\<bar>x - u * q\<bar> = \<bar>x\<bar> + q * \<bar>u\<bar>"
  proof (cases "0 \<le> u")
    case True
    then have "x \<le> 0 \<or> u = 0" using assms(1) by (metis mult_pos_pos linorder_not_le order_le_less)
    moreover have "0 \<le> u * q" using True assms(2) by simp
    moreover have "q * \<bar>u\<bar> = u * q" using True by (simp add: mult.commute)
    moreover have "u = 0 \<Longrightarrow> \<bar>x - u * q\<bar> = \<bar>x\<bar> + q * \<bar>u\<bar>" by simp
    ultimately show ?thesis by linarith
  next
    case False
    then have "0 \<le> x" using assms(1) by (metis linorder_not_le mult_neg_neg)
    moreover have "u * q \<le> 0" using False assms(2) by (simp add: mult_nonpos_nonneg)
    ultimately show ?thesis using False by (simp add: abs_if mult.commute)
  qed
  have sum: "a * \<bar>x - u * q\<bar> + r * \<bar>u\<bar> = B"
    unfolding abs assms(6) [symmetric] assms(5) [symmetric] by (simp add: algebra_simps)
  then show "a * \<bar>x - u * q\<bar> + r * \<bar>u\<bar> = B" .
  show le: "\<bar>x - u * q\<bar> \<le> B" using assms(3,4) by (intro summand_le [OF _ _ _ sum]) simp_all
  have "\<bar>u * q\<bar> = q * \<bar>u\<bar>" using assms(2) by (simp add: abs_mult mult.commute)
  then have "\<bar>u * q\<bar> \<le> B" using le abs by linarith
  then have "ll (u * q) = u * q" using assms(7) by (intro ll_id) linarith+
  moreover have "ll (x - u * q) = x - u * q" using le assms(7) by (intro ll_id) linarith+
  ultimately show "ll (x - ll (u * q)) = x - u * q" by simp
  have "0 \<le> u * u * q" using assms(2) by simp
  then show "u * (x - u * q) \<le> 0" using assms(1) by (simp add: algebra_simps)
qed

lemma ExtEuclid_loop_bezout:
  "0 \<le> a \<Longrightarrow> 0 < g \<Longrightarrow> B < 2 ^ 63 \<Longrightarrow> A < 2 ^ 63 \<Longrightarrow> x * A + y * B = g \<Longrightarrow> u * A + v * B = a \<Longrightarrow>
   x * u \<le> 0 \<Longrightarrow> y * v \<le> 0 \<Longrightarrow> g * \<bar>u\<bar> + a * \<bar>x\<bar> = B \<Longrightarrow> g * \<bar>v\<bar> + a * \<bar>y\<bar> = A \<Longrightarrow> \<bar>y\<bar> \<le> A \<Longrightarrow>
   \<exists>x'. x' * A + ExtEuclid_loop a g x y u v * B = gcd a g \<and> \<bar>ExtEuclid_loop a g x y u v\<bar> \<le> A"
proof (induction "nat a" arbitrary: a g x y u v rule: less_induct)
  case less
  note h = less.prems
  show ?case
  proof (cases "a = 0")
    case True
    have "ExtEuclid_loop a g x y u v = y" "gcd a g = g" using True h(2) by (simp_all add: ExtEuclid_loop.simps)
    with h show ?thesis by metis
  next
    case False
    with h(1) have a: "0 < a" by simp
    let ?q = "g div a" and ?r = "g mod a"
    have q: "0 \<le> ?q" "0 \<le> ?r" "a * ?q + ?r = g" using a h(2) by (simp_all add: pos_imp_zdiv_nonneg_iff)
    note U = euclid_coefficient [OF h(7) q(1) a q(2,3) h(9,3)]
    note V = euclid_coefficient [OF h(8) q(1) a q(2,3) h(10,4)]
    have qr: "g sdiv a = ?q" "g smod a = ?r"
      using a h(2) by (simp_all add: smod_mod_positive signed_divide_int_def sgn_if)
    have step: "ExtEuclid_loop a g x y u v = ExtEuclid_loop ?r a u v (x - u * ?q) (y - v * ?q)"
      using False by (subst ExtEuclid_loop.simps) (simp only: Let_def qr U(1) V(1) if_True not_False_eq_True)
    have r: "(x - u * ?q) * A + (y - v * ?q) * B = ?r"
    proof -
      have "(x - u * ?q) * A + (y - v * ?q) * B = (x * A + y * B) - (u * A + v * B) * ?q" by (simp add: algebra_simps)
      then show ?thesis unfolding h(5,6) using q(3) by linarith
    qed
    have v: "\<bar>v\<bar> \<le> A" using h(2) a by (intro summand_le [OF _ _ _ h(10)]) simp_all
    have "nat ?r < nat a" using a by simp
    from less.hyps [OF this q(2) a h(3,4,6) r U(2) V(2) U(3) V(3) v]
    show ?thesis unfolding step by (metis gcd.commute gcd_red_int)
  qed
qed

lemma ExtEuclid_bezout:
  assumes "1 \<le> a" "0 < b" "a < 2 ^ 63" "b < 2 ^ 63"
  shows "ExtEuclid a b * b mod a = gcd a b mod a" "\<bar>ExtEuclid a b\<bar> \<le> a"
proof -
  obtain x where x: "x * a + ExtEuclid a b * b = gcd a b" and le: "\<bar>ExtEuclid a b\<bar> \<le> a"
    unfolding ExtEuclid_def using ExtEuclid_loop_bezout [of a b b a 0 1 1 0] assms by auto
  then show "\<bar>ExtEuclid a b\<bar> \<le> a" by simp
  have "(x * a + ExtEuclid a b * b) mod a = ExtEuclid a b * b mod a" by simp
  then show "ExtEuclid a b * b mod a = gcd a b mod a" unfolding x ..
qed

end
