(* ===== verification/Rsa_Text.thy ===== *)
theory Rsa_Text
  imports Rsa
begin

text \<open>
  The text formats of \<^verbatim>\<open>src/src/rsa.cpp\<close> can be read back: decimal numbers, numbers filled up with zeros,
  and lists of numbers with commas.
\<close>

section \<open>Numbers filled up with zeros\<close>

lemma RemoveFrontZero_dropWhile: "length s \<noteq> 1 \<Longrightarrow> RemoveFrontZero s = dropWhile (\<lambda>c. c = 48) s"
proof -
  have T: "RemoveFrontZero_loop s True ret = ret @ s" for ret by (induction s arbitrary: ret) simp_all
  have "RemoveFrontZero_loop s False ret = ret @ dropWhile (\<lambda>c. c = 48) s" for ret
  proof (induction s arbitrary: ret)
    case (Cons c s)
    have "RemoveFrontZero_loop s True ret = ret @ s" for ret by (induction s arbitrary: ret) simp_all
    with Cons show ?case by simp
  qed simp
  then show "length s \<noteq> 1 \<Longrightarrow> RemoveFrontZero s = dropWhile (\<lambda>c. c = 48) s" by (simp add: RemoveFrontZero_def)
qed

lemma dropWhile_zeros: "dropWhile (\<lambda>c. c = 48) (replicate k 48 @ s) = dropWhile (\<lambda>c. c = (48 :: byte)) s"
  by (induction k) simp_all

lemma key_number:
  assumes "0 \<le> i" "i < 2 ^ 63"
  shows "length (AddZeroToFront (to_string i) 20) = 20"
    "atoll (RemoveFrontZero (AddZeroToFront (to_string i) 20)) = i"
proof -
  have "nat i < 10 ^ Suc 19" using assms by simp
  then have len: "length (to_string i) \<le> 20" using dec_digits_length [of "nat i" 19] assms(1) by (simp add: to_string_def)
  then show l: "length (AddZeroToFront (to_string i) 20) = 20" by (simp add: AddZeroToFront_def)
  have z: "RemoveFrontZero (AddZeroToFront (to_string i) 20) = dropWhile (\<lambda>c. c = 48) (to_string i)"
    using l len by (simp add: RemoveFrontZero_dropWhile AddZeroToFront_def dropWhile_zeros)
  show "atoll (RemoveFrontZero (AddZeroToFront (to_string i) 20)) = i"
  proof (cases "i = 0")
    case True
    then have "to_string i = [48]" by (simp add: to_string_def dec_digits.simps)
    then show ?thesis using True z by (simp add: atoll_def strtol_def)
  next
    case False
    then have "hd (to_string i) \<noteq> 48" "to_string i \<noteq> []" using assms(1) dec_digits_hd [of "nat i"] by (simp_all add: to_string_def)
    then have "dropWhile (\<lambda>c. c = 48) (to_string i) = to_string i" by (cases "to_string i") simp_all
    then show ?thesis using z atoll_to_string [OF assms] by simp
  qed
qed

end
