(* ===== verification/Rsa_Roundtrip.thy ===== *)
theory Rsa_Roundtrip
  imports Rsa_Text
begin

text \<open>
  Key generation and the round trip of encryption and decryption (\<^verbatim>\<open>src/src/rsa.cpp\<close>), from the random
  numbers to the texts of keys and ciphers.
\<close>

interpretation rsa_number: codec to_string atoll "\<lambda>i. 0 \<le> i \<and> i < 2 ^ 63"
  by unfold_locales (simp add: atoll_to_string)

interpretation rsa_key_number: codec "\<lambda>i. AddZeroToFront (to_string i) 20" "\<lambda>s. atoll (RemoveFrontZero s)"
    "\<lambda>i. 0 \<le> i \<and> i < 2 ^ 63"
  by unfold_locales (simp add: key_number)

section \<open>Key generation\<close>

lemma choose_primes_Inr:
  "choose_primes rand_max rs = Inr (p, q) \<Longrightarrow>
   p \<in> set primes \<and> q \<in> set primes \<and> p \<noteq> q \<and> gcd_ll (ll ((p - 1) * (q - 1))) rsa_e = 1"
  by (induction rand_max rs rule: choose_primes.induct)
    (auto simp: prime_at_def Let_def split: option.splits if_splits)

lemma primes_products:
  assumes "p \<in> set primes" "q \<in> set primes"
  shows "256 < p * q" "p * q < 2 ^ 34" "1 < (p - 1) * (q - 1)" "(p - 1) * (q - 1) < 2 ^ 34"
proof -
  note p = primes_range [OF assms(1)] and q = primes_range [OF assms(2)]
  have lo: "10000 * 10000 \<le> x * y" if "10000 \<le> x" "10000 \<le> y" for x y :: int using that by (intro mult_mono) simp_all
  have hi: "x * y \<le> 105000 * 105000" if "0 \<le> x" "x \<le> 105000" "0 \<le> y" "y \<le> 105000" for x y :: int
    using that by (intro mult_mono) simp_all
  show "256 < p * q" "1 < (p - 1) * (q - 1)" using lo [of p q] lo [of "p - 1" "q - 1"] p q by simp_all
  show "p * q < 2 ^ 34" "(p - 1) * (q - 1) < 2 ^ 34" using hi [of p q] hi [of "p - 1" "q - 1"] p q by simp_all
qed

lemma make_positive_mod:
  assumes "0 < m" "m < 2 ^ 62" "\<bar>d\<bar> \<le> m"
  shows "\<exists>d'. make_positive d m = Some d' \<and> 0 \<le> d' \<and> d' \<le> m \<and> d' mod m = d mod m"
proof (cases "d < 0")
  case True
  have "ll (d + m) = d + m" using assms True by (intro ll_nonneg) simp_all
  then have "make_positive d m = Some (d + m)"
    using True assms(3) by (subst make_positive.simps, simp, subst make_positive.simps, simp)
  then show ?thesis using True assms by (intro exI [of _ "d + m"]) simp
qed (use assms in \<open>simp add: make_positive.simps\<close>)

lemma rsa_e_value: "rsa_e = 131073"
  by (simp add: rsa_e_def push_bit_eq_mult)

lemma RSAGenKeys_inverse_aux:
  assumes "choose_primes rand_max rs = Inr (p, q)"
  shows "\<exists>d. RSAGenKeys_cls rand_max rs = Inr (\<lparr>modulus = p * q, exponent = rsa_e\<rparr>, \<lparr>modulus = p * q, exponent = d\<rparr>) \<and>
    0 \<le> d \<and> d < 2 ^ 63 \<and> d * rsa_e mod ((p - 1) * (q - 1)) = 1"
proof -
  let ?phi = "(p - 1) * (q - 1)"
  note c = choose_primes_Inr [OF assms]
  note b = primes_products [of p q]
  have phi: "1 < ?phi" "?phi < 2 ^ 34" and n: "256 < p * q" "p * q < 2 ^ 34" using b c by blast+
  have l: "ll ?phi = ?phi" "ll (p * q) = p * q" using phi n by (simp_all add: ll_nonneg)
  have g: "gcd ?phi rsa_e = 1" using c l(1) phi(1) gcd_ll_gcd [of ?phi rsa_e] by (simp add: rsa_e_value)
  have E: "ExtEuclid ?phi rsa_e * rsa_e mod ?phi = 1" "\<bar>ExtEuclid ?phi rsa_e\<bar> \<le> ?phi"
    using ExtEuclid_bezout [of ?phi rsa_e] phi g by (simp_all add: rsa_e_value)
  obtain d where d: "make_positive (ExtEuclid ?phi rsa_e) ?phi = Some d" "0 \<le> d" "d \<le> ?phi"
      "d mod ?phi = ExtEuclid ?phi rsa_e mod ?phi"
    using make_positive_mod [of ?phi "ExtEuclid ?phi rsa_e"] phi E(2) by auto
  have "d * rsa_e mod ?phi = 1" using E(1) mod_mult_cong [OF d(4) refl] by metis
  moreover have "d < 2 ^ 63" using d(3) phi(2) by simp
  ultimately show ?thesis using d(1,2) by (simp add: RSAGenKeys_cls_def assms l Let_def)
qed

section \<open>Bytes\<close>

lemma rsa_power_int:
  assumes "is_prime (nat p)" "is_prime (nat q)" "p \<noteq> q" "0 \<le> d" "0 \<le> e" "d * e mod ((p - 1) * (q - 1)) = 1"
    and a: "0 \<le> a" "a < p * q"
  shows "(a ^ nat e mod (p * q)) ^ nat d mod (p * q) = a"
proof -
  have pq: "1 < p" "1 < q" using assms(1,2) by (auto simp: is_prime_def)
  have ne: "nat p \<noteq> nat q" using assms(3) pq by simp
  have "int (nat e * nat d) mod int ((nat p - 1) * (nat q - 1)) = 1"
    using assms(4-6) pq by (simp add: of_nat_diff mult.commute)
  then have "nat e * nat d mod ((nat p - 1) * (nat q - 1)) = 1" by (metis of_nat_1 of_nat_eq_iff of_nat_mod)
  moreover have "nat a < nat p * nat q" using a pq by (simp add: nat_mult_distrib [symmetric] nat_less_eq_zless)
  ultimately have "nat a ^ (nat e * nat d) mod (nat p * nat q) = nat a" by (rule rsa_power [OF assms(1,2) ne])
  then have "int (nat a ^ (nat e * nat d) mod (nat p * nat q)) = int (nat a)" by simp
  then have "a ^ (nat e * nat d) mod (p * q) = a" using a(1) pq by (simp add: of_nat_mod)
  then show ?thesis by (simp add: power_mult power_mod)
qed

lemma RSAEncrypt_cls_map:
  assumes "1 < modulus k" "modulus k \<le> 2 ^ 62" "0 \<le> exponent k"
  shows "RSAEncrypt_cls plain k = Some (Some (map (\<lambda>c. uint c ^ nat (exponent k) mod modulus k) plain))"
proof (induction plain)
  case (Cons c plain)
  have "0 \<le> uint c ^ nat (exponent k) mod modulus k" using assms(1) by simp
  then have "uint c ^ nat (exponent k) mod modulus k \<noteq> - 1" by linarith
  then show ?case using Cons rsa_modExp_power [OF assms(1,2) _ assms(3), of "uint c"] by simp
qed simp

lemma RSADecrypt_cls_map:
  assumes "1 < modulus k" "modulus k \<le> 2 ^ 62" "0 \<le> exponent k"
  shows "\<forall>c \<in> set cs. 0 \<le> c \<Longrightarrow>
    RSADecrypt_cls cs k = Some (Some (map (\<lambda>c. word_of_int (c ^ nat (exponent k) mod modulus k)) cs))"
proof (induction cs)
  case (Cons c cs)
  have "uint (word_of_int (c ^ nat (exponent k) mod modulus k) :: byte) \<noteq> - 1" by (metis uint_ge_0 not_one_le_zero neg_0_le_iff_le)
  then show ?case using Cons rsa_modExp_power [OF assms(1,2) _ assms(3), of c] by (simp add: Let_def)
qed simp

lemma RSA_cls_roundtrip:
  assumes key: "RSAGenKeys_cls rand_max rs = Inr (pub, priv)" "choose_primes rand_max rs = Inr (p, q)"
    and prime: "is_prime (nat p)" "is_prime (nat q)"
  shows "\<exists>ns. RSAEncrypt_cls plain pub = Some (Some ns) \<and> RSADecrypt_cls ns priv = Some (Some plain) \<and>
    length ns = length plain \<and> (\<forall>i \<in> set ns. 0 \<le> i \<and> i < 2 ^ 34)"
proof -
  obtain d where d: "pub = \<lparr>modulus = p * q, exponent = rsa_e\<rparr>" "priv = \<lparr>modulus = p * q, exponent = d\<rparr>"
      "0 \<le> d" "d * rsa_e mod ((p - 1) * (q - 1)) = 1"
    using RSAGenKeys_inverse_aux [OF key(2)] key(1) by auto
  note c = choose_primes_Inr [OF key(2)]
  have n: "256 < p * q" "p * q < 2 ^ 34" using primes_products c by blast+
  let ?f = "\<lambda>c :: byte. uint c ^ nat rsa_e mod (p * q)"
  have m: "1 < p * q" "p * q \<le> 2 ^ 62" using n by simp_all
  have r: "0 \<le> ?f c" "?f c < p * q" for c using m by simp_all
  have inverse: "word_of_int (?f c ^ nat d mod (p * q)) = c" for c
  proof -
    have "uint c < 256" using uint_lt2p [of c] by simp
    then have "?f c ^ nat d mod (p * q) = uint c"
      using n d c by (intro rsa_power_int [OF prime]) (simp_all add: rsa_e_value)
    then show ?thesis by simp
  qed
  have "RSAEncrypt_cls plain pub = Some (Some (map ?f plain))"
    using RSAEncrypt_cls_map [of pub plain] m d(1) by (simp add: rsa_e_value)
  moreover have "RSADecrypt_cls (map ?f plain) priv = Some (Some plain)"
    using RSADecrypt_cls_map [of priv "map ?f plain"] m d(2,3) r(1) by (simp add: o_def inverse)
  moreover have "\<forall>i \<in> set (map ?f plain). 0 \<le> i \<and> i < 2 ^ 34" using r n(2) by (auto intro: less_trans)
  ultimately show ?thesis by (metis length_map)
qed

section \<open>Texts\<close>

lemma b64_decode: "length d < 2 ^ 32 \<Longrightarrow> \<exists>e. Base64_Encode d False = Some e \<and> Base64_Decode e False = d"
  using Base64_Encode_rfc_aux [of d False] b64.dec_enc [of d False] by simp

lemma key_text:
  assumes "0 \<le> modulus k" "modulus k < 2 ^ 63" "0 \<le> exponent k" "exponent k < 2 ^ 63"
  shows "\<exists>t. Base64_Encode (AddZeroToFront (to_string (modulus k)) 20 @ AddZeroToFront (to_string (exponent k)) 20) False = Some t \<and>
    t \<noteq> [] \<and> read_key t = Some k"
proof -
  let ?m = "AddZeroToFront (to_string (modulus k)) 20" and ?e = "AddZeroToFront (to_string (exponent k)) 20"
  have l: "length ?m = 20" "length ?e = 20" using key_number(1) assms by simp_all
  have len: "length (?m @ ?e) < 2 ^ 32" by (simp add: l)
  obtain t where t: "Base64_Encode (?m @ ?e) False = Some t" "Base64_Decode t False = ?m @ ?e"
    using b64_decode [OF len] by blast
  have "Base64_Decode [] False = []" by (simp add: Base64_Decode_def Decode_impl_def)
  then have "t \<noteq> []" using t(2) l(1) by (metis append_is_Nil_conv length_greater_0_conv zero_less_numeral)
  moreover have "read_key t = Some k"
  proof -
    have "length (?m @ ?e) = 40" using l by simp
    moreover have "substr (?m @ ?e) 0 20 = ?m" "drop 20 (?m @ ?e) = ?e" using l by (simp_all add: substr_def)
    ultimately show ?thesis
      using assms unfolding read_key_def t(2) by (simp add: rsa_key_number.dec_enc Let_def)
  qed
  ultimately show ?thesis using t(1) by blast
qed

lemma dec_digits_no_comma: "44 \<notin> set (dec_digits n)"
  using dec_digits_digit [of n] by (auto simp: digit_def)

lemma length_join_with: "\<forall>x \<in> set xs. length x \<le> n \<Longrightarrow> length (join_with [c] xs) \<le> length xs * Suc n"
  by (induction "[c]" xs rule: join_with.induct) auto

lemma cipher_text:
  assumes ns: "ns \<noteq> []" "\<forall>i \<in> set ns. 0 \<le> i \<and> i < 2 ^ 34" and len: "length ns < 2 ^ 28"
  shows "\<exists>c. Base64_Encode (join_with [44] (map to_string ns)) False = Some c \<and> c \<noteq> [] \<and>
    Base64_Decode c False \<noteq> [] \<and> StrSplit (Base64_Decode c False) [44] True = Some (map to_string ns) \<and>
    [] \<notin> set (map to_string ns) \<and> map atoll (map to_string ns) = ns"
proof -
  let ?ts = "map to_string ns"
  have short: "\<forall>t \<in> set ?ts. length t \<le> 11 \<and> 44 \<notin> set t \<and> t \<noteq> []"
  proof
    fix t assume "t \<in> set ?ts"
    then obtain i where i: "t = to_string i" "0 \<le> i" "i < 2 ^ 34" using ns(2) by auto
    then have "nat i < 10 ^ Suc 10" by simp
    then show "length t \<le> 11 \<and> 44 \<notin> set t \<and> t \<noteq> []"
      using i dec_digits_length [of "nat i" 10] by (simp add: to_string_def dec_digits_no_comma)
  qed
  then have "length (join_with [44] ?ts) \<le> length ns * 12" using length_join_with [of ?ts 11 44] by simp
  then have "length (join_with [44] ?ts) < 2 ^ 32" using len by simp
  then obtain c where c: "Base64_Encode (join_with [44] ?ts) False = Some c" "Base64_Decode c False = join_with [44] ?ts"
    using b64_decode by blast
  have ne: "join_with [44] ?ts \<noteq> []"
  proof (cases ?ts)
    case (Cons t ts)
    with short show ?thesis by (cases ts) simp_all
  qed (use ns(1) in simp)
  moreover have "c \<noteq> []" using ne c(2) by (auto simp: Base64_Decode_def Decode_impl_def)
  moreover have "StrSplit (join_with [44] ?ts) [44] True = Some ?ts" using short ns(1) by (intro StrSplit_join) simp_all
  moreover have "map atoll ?ts = ns" using ns(2) by (intro rsa_number.dec_all) (auto intro: less_trans)
  ultimately show ?thesis using c short by auto
qed

section \<open>Properties\<close>

text \<open>Property C10: from every sequence of random numbers for which the choice of the factors \<open>p\<close> and \<open>q\<close> ends, the
  key generator makes two keys with the modulus \<open>p * q\<close> whose exponents are inverse to each other modulo
  \<open>(p - 1) * (q - 1)\<close>; nothing overflows, the private exponent is not negative and the loop that makes it
  so ends.\<close>

theorem RSAGenKeys_inverse:
  assumes "choose_primes rand_max rs = Inr (p, q)"
  shows "\<exists>d. RSAGenKeys_cls rand_max rs = Inr (\<lparr>modulus = p * q, exponent = rsa_e\<rparr>, \<lparr>modulus = p * q, exponent = d\<rparr>) \<and>
    0 \<le> d \<and> d < 2 ^ 63 \<and> d * rsa_e mod ((p - 1) * (q - 1)) = 1"
  using RSAGenKeys_inverse_aux [OF assms] .

text \<open>Property C9: what \<open>RSAEncrypt\<close> makes of a text that is not empty with a generated public key,
  \<open>RSADecrypt\<close> appends to its output with the private key: the arithmetic on \<open>long long\<close>, the decimal numbers, the
  split at commas and Base64 fit together. The two chosen table entries have to be primes.\<close>

theorem RSA_roundtrip:
  assumes "choose_primes rand_max rs = Inr (p, q)" "is_prime (nat p)" "is_prime (nat q)"
    and "plain \<noteq> []" "length plain < 2 ^ 28"
  shows "\<exists>pub priv cipher. RSAGenKeys rand_max rs = Inr (pub, priv) \<and>
    RSAEncrypt plain pub = Some (Some cipher) \<and> RSADecrypt cipher priv out = Some (Some (out @ plain))"
proof -
  obtain kp kq where k: "RSAGenKeys_cls rand_max rs = Inr (kp, kq)"
      "modulus kp = p * q" "modulus kq = p * q" "exponent kp = rsa_e" "0 \<le> exponent kq" "exponent kq < 2 ^ 63"
  proof -
    obtain d where d: "RSAGenKeys_cls rand_max rs = Inr (\<lparr>modulus = p * q, exponent = rsa_e\<rparr>, \<lparr>modulus = p * q, exponent = d\<rparr>)"
        "0 \<le> d" "d < 2 ^ 63"
      using RSAGenKeys_inverse_aux [OF assms(1)] by blast
    show ?thesis by (rule that [OF d(1)]) (use d(2,3) in simp_all)
  qed
  have n: "256 < p * q" "p * q < 2 ^ 34" using primes_products choose_primes_Inr [OF assms(1)] by blast+
  obtain pub where pub: "Base64_Encode (AddZeroToFront (to_string (modulus kp)) 20 @ AddZeroToFront (to_string (exponent kp)) 20) False = Some pub"
      "pub \<noteq> []" "read_key pub = Some kp"
    using key_text [of kp] k n by (auto simp: rsa_e_value)
  obtain priv where priv: "Base64_Encode (AddZeroToFront (to_string (modulus kq)) 20 @ AddZeroToFront (to_string (exponent kq)) 20) False = Some priv"
      "priv \<noteq> []" "read_key priv = Some kq"
    using key_text [of kq] k n by auto
  obtain ns where ns: "RSAEncrypt_cls plain kp = Some (Some ns)" "RSADecrypt_cls ns kq = Some (Some plain)"
      "length ns = length plain" "\<forall>i \<in> set ns. 0 \<le> i \<and> i < 2 ^ 34"
    using RSA_cls_roundtrip [OF k(1) assms(1-3)] by blast
  obtain c where c: "Base64_Encode (join_with [44] (map to_string ns)) False = Some c" "c \<noteq> []" "Base64_Decode c False \<noteq> []"
      "StrSplit (Base64_Decode c False) [44] True = Some (map to_string ns)" "[] \<notin> set (map to_string ns)"
      "map atoll (map to_string ns) = ns"
    using cipher_text [of ns] ns(3,4) assms(4,5) by (metis length_0_conv)
  have "RSAGenKeys rand_max rs = Inr (pub, priv)" by (simp add: RSAGenKeys_def k(1) Let_def pub(1) priv(1))
  moreover have "RSAEncrypt plain pub = Some (Some c)" using assms(4) pub(2,3) ns(1) c(1) by (simp add: RSAEncrypt_def)
  moreover have "RSADecrypt c priv out = Some (Some (out @ plain))"
    using priv(2,3) c(2-5) ns(2) c(6) by (simp add: RSADecrypt_def Let_def del: map_map)
  ultimately show ?thesis by blast
qed

lemma choose_10007_10037: "choose_primes 2147483647 [0, 489625] = Inr (10007, 10037)"
proof -
  have "prime_at 0 = Some 10007" "prime_at 2 = Some 10037"
    by (simp_all add: prime_at_def length_primes primes_def primes_1_def nth_append)
  moreover have "pick_index 2147483647 0 = 0" "pick_index 2147483647 489625 = 2"
    by (simp_all add: pick_index_def length_primes)
  moreover have "gcd_ll (ll ((10007 - 1) * (10037 - 1))) rsa_e = 1"
    by (simp add: ll_def rsa_e_value gcd_ll.simps smod_mod_positive)
  ultimately show ?thesis by (simp add: Let_def)
qed

lemma is_prime_10007: "is_prime 10007"
  by (rule is_primeI [of _ 101]) (simp_all add: upt_rec)

lemma is_prime_10037: "is_prime 10037"
  by (rule is_primeI [of _ 101]) (simp_all add: upt_rec)

lemma RSAGenKeys_inverse_witness:
  "\<exists>d. RSAGenKeys_cls 2147483647 [0, 489625] =
     Inr (\<lparr>modulus = 10007 * 10037, exponent = rsa_e\<rparr>, \<lparr>modulus = 10007 * 10037, exponent = d\<rparr>) \<and>
     0 \<le> d \<and> d < 2 ^ 63 \<and> d * rsa_e mod ((10007 - 1) * (10037 - 1)) = 1"
  by (rule RSAGenKeys_inverse [OF choose_10007_10037])

lemma RSA_roundtrip_witness:
  "\<exists>pub priv cipher. RSAGenKeys 2147483647 [0, 489625] = Inr (pub, priv) \<and>
    RSAEncrypt [72, 105] pub = Some (Some cipher) \<and> RSADecrypt cipher priv [33] = Some (Some ([33] @ [72, 105]))"
  by (rule RSA_roundtrip [OF choose_10007_10037]) (simp_all add: is_prime_10007 is_prime_10037)

text \<open>Property C11: \<open>rsa_modExp\<close> computes the power modulo \<open>m\<close> for every modulus up to \<open>2 ^ 62\<close>, where the
  products of two remainders do not fit into 64 bits: the overflow test and the two slower ways of
  \<open>modmult\<close> are right, and all of it ends.\<close>

theorem rsa_modExp_correct:
  assumes "1 < m" "m \<le> 2 ^ 62" "0 \<le> b" "0 \<le> e"
  shows "rsa_modExp b e m = Some (b ^ nat e mod m) \<and> (b < m \<longrightarrow> modmult b b m = Some (b * b mod m))"
  using rsa_modExp_power [OF assms] modmult_mult [OF assms(1,2,3)] assms(3) by blast

lemma rsa_modExp_correct_witness:
  "modmult (2 ^ 61) (2 ^ 61) (2 ^ 62 - 1) = Some (2 ^ 61 * 2 ^ 61 mod (2 ^ 62 - 1))"
  using rsa_modExp_correct [of "2 ^ 62 - 1" "2 ^ 61" 3] by simp

text \<open>When \<open>rand()\<close> returns \<open>RAND_MAX\<close> the generator reads one entry behind the table of primes;
  the index is inside for every result in the lower 8771 of 8772 parts of the range.\<close>

theorem rand_max_out_of_bounds:
  assumes "8771 \<le> rand_max"
  shows "choose_primes rand_max (rand_max # r # rs) = Inl Out_of_bounds \<and>
    (\<forall>r'. r' * 8772 < 8771 * (rand_max + 1) \<longrightarrow> prime_at (pick_index rand_max r') \<noteq> None)"
proof -
  have "rand_max * 8772 div (rand_max + 1) = 8771"
  proof (rule div_nat_eqI)
    show "(rand_max + 1) * 8771 \<le> rand_max * 8772" using assms by simp
    show "rand_max * 8772 < (rand_max + 1) * Suc 8771" by simp
  qed
  then have "prime_at (pick_index rand_max rand_max) = None" by (simp add: pick_index_def prime_at_def length_primes)
  moreover have "prime_at (pick_index rand_max r') \<noteq> None" if "r' * 8772 < 8771 * (rand_max + 1)" for r'
    using that by (simp add: prime_at_def pick_index_def length_primes div_less_iff_less_mult)
  ultimately show ?thesis by simp
qed

lemma rand_max_out_of_bounds_witness:
  "choose_primes 2147483647 (2147483647 # 0 # []) = Inl Out_of_bounds"
  using rand_max_out_of_bounds [of 2147483647 0 "[]"] by simp

end
