(* ===== verification/Byte_Order.thy ===== *)
theory Byte_Order
  imports Prelude
begin

text \<open>
  Model of \<^verbatim>\<open>src/src/byteorder.cpp\<close> with the conversion macros of \<^verbatim>\<open>src/include/ashe/byteorder.h\<close>.
  The byte order of the host is the parameter \<open>big\<close>; memory is a list of bytes. Words of 16, 32 and 64
  bits share the two conversions \<open>le_bytes\<close> and \<open>of_le_bytes\<close>.
\<close>

section \<open>Words as bytes\<close>

definition le_bytes :: "nat \<Rightarrow> 'a::len word \<Rightarrow> byte list" where
  "le_bytes n w = map (\<lambda>i. ucast (drop_bit (8 * i) w)) [0..<n]"

primrec of_le_bytes :: "byte list \<Rightarrow> 'a::len word" where
  "of_le_bytes [] = 0"
| "of_le_bytes (b # bs) = ucast b OR push_bit 8 (of_le_bytes bs)"

definition be_bytes :: "nat \<Rightarrow> 'a::len word \<Rightarrow> byte list" where
  "be_bytes n w = rev (le_bytes n w)"

definition of_be_bytes :: "byte list \<Rightarrow> 'a::len word" where
  "of_be_bytes bs = of_le_bytes (rev bs)"

lemma length_le_bytes [simp]: "length (le_bytes n w) = n"
  by (simp add: le_bytes_def)

lemma length_be_bytes [simp]: "length (be_bytes n w) = n"
  by (simp add: be_bytes_def)

lemma bit_of_le_bytes:
  "bit (of_le_bytes bs :: 'a::len word) k \<longleftrightarrow> k < LENGTH('a) \<and> k div 8 < length bs \<and> bit (bs ! (k div 8)) (k mod 8)"
proof (induction bs arbitrary: k)
  case (Cons b bs)
  show ?case
  proof (cases "k < 8")
    case True
    then show ?thesis by (auto simp: bit_simps)
  next
    case False
    then have "k div 8 = Suc ((k - 8) div 8)" "k mod 8 = (k - 8) mod 8"
      by (simp_all add: le_div_geq le_mod_geq)
    with False show ?thesis
      by (auto simp: bit_simps Cons.IH dest: bit_byte_8)
  qed
qed simp

lemma bit_nth_le_bytes:
  "i < n \<Longrightarrow> bit (le_bytes n w ! i) k \<longleftrightarrow> k < 8 \<and> bit w (8 * i + k)" for w :: "'a::len word"
  by (auto simp: le_bytes_def bit_simps)

lemma of_le_le_bytes: "LENGTH('a) = 8 * n \<Longrightarrow> of_le_bytes (le_bytes n w) = w" for w :: "'a::len word"
  by (rule bit_word_eqI) (simp add: bit_of_le_bytes bit_nth_le_bytes less_mult_imp_div_less mult.commute)

lemma le_of_le_bytes:
  assumes "8 * length bs \<le> LENGTH('a)"
  shows "le_bytes (length bs) (of_le_bytes bs :: 'a::len word) = bs"
proof (rule nth_equalityI)
  fix i assume i: "i < length (le_bytes (length bs) (of_le_bytes bs :: 'a word))"
  show "le_bytes (length bs) (of_le_bytes bs :: 'a word) ! i = bs ! i"
  proof (rule bit_word_eqI)
    fix k assume "k < LENGTH(8)"
    then have "k < 8" by simp
    moreover have "8 * i + k < LENGTH('a)" using i assms \<open>k < 8\<close> by simp
    ultimately show "bit (le_bytes (length bs) (of_le_bytes bs :: 'a word) ! i) k = bit (bs ! i) k"
      using i by (simp add: bit_nth_le_bytes bit_of_le_bytes)
  qed
qed simp

lemma of_be_be_bytes: "LENGTH('a) = 8 * n \<Longrightarrow> of_be_bytes (be_bytes n w) = w" for w :: "'a::len word"
  by (simp add: of_be_bytes_def be_bytes_def of_le_le_bytes)

lemma be_of_be_bytes:
  "8 * length bs \<le> LENGTH('a) \<Longrightarrow> be_bytes (length bs) (of_be_bytes bs :: 'a::len word) = bs"
  using le_of_le_bytes [of "rev bs", where 'a = 'a] by (simp add: of_be_bytes_def be_bytes_def)

section \<open>The code\<close>

text \<open>A typed load or store of \<open>n\<close> bytes, in the order of the host.\<close>

definition host_store :: "bool \<Rightarrow> nat \<Rightarrow> 'a::len word \<Rightarrow> byte list" where
  "host_store big n w = (if big then be_bytes n w else le_bytes n w)"

definition host_load :: "bool \<Rightarrow> byte list \<Rightarrow> 'a::len word" where
  "host_load big bs = (if big then of_be_bytes bs else of_le_bytes bs)"

text \<open>The bytes of \<open>nl\<close> and \<open>ns\<close> as the host stores them.\<close>

definition IsHostBigEndian :: "byte list \<Rightarrow> byte list \<Rightarrow> bool" where
  "IsHostBigEndian p sp =
     (if p ! 0 = 0x12 \<and> p ! 1 = 0x34 \<and> p ! 2 = 0x56 \<and> p ! 3 = 0x78 then True
      else if p ! 0 = 0x78 \<and> p ! 1 = 0x56 \<and> p ! 2 = 0x34 \<and> p ! 3 = 0x12 then False
      else sp ! 0 \<noteq> 0x12)"

text \<open>Reversal of the bytes of a word of \<open>n\<close> bytes, as \<^verbatim>\<open>__builtin_bswap\<close> does it.\<close>

definition bswap :: "nat \<Rightarrow> 'a::len word \<Rightarrow> 'a word" where
  "bswap n w = of_be_bytes (le_bytes n w)"

definition htobe :: "bool \<Rightarrow> nat \<Rightarrow> 'a::len word \<Rightarrow> 'a word" where
  "htobe big n w = (if big then w else bswap n w)"

definition htole :: "bool \<Rightarrow> nat \<Rightarrow> 'a::len word \<Rightarrow> 'a word" where
  "htole big n w = (if big then bswap n w else w)"

definition Set8 :: "byte list \<Rightarrow> nat \<Rightarrow> byte \<Rightarrow> byte list" where
  "Set8 memory offset v = memory[offset := v]"

definition Get8 :: "byte list \<Rightarrow> nat \<Rightarrow> byte" where
  "Get8 memory offset = memory ! offset"

definition SetBE16 :: "bool \<Rightarrow> byte list \<Rightarrow> 16 word \<Rightarrow> byte list" where
  "SetBE16 big memory v = memcpy memory 0 (host_store big 2 (htobe big 2 v))"

definition SetBE32 :: "bool \<Rightarrow> byte list \<Rightarrow> uint32 \<Rightarrow> byte list" where
  "SetBE32 big memory v = memcpy memory 0 (host_store big 4 (htobe big 4 v))"

definition SetBE64 :: "bool \<Rightarrow> byte list \<Rightarrow> uint64 \<Rightarrow> byte list" where
  "SetBE64 big memory v = memcpy memory 0 (host_store big 8 (htobe big 8 v))"

definition GetBE16 :: "bool \<Rightarrow> byte list \<Rightarrow> 16 word" where
  "GetBE16 big memory = htobe big 2 (host_load big (take 2 memory))"

definition GetBE32 :: "bool \<Rightarrow> byte list \<Rightarrow> uint32" where
  "GetBE32 big memory = htobe big 4 (host_load big (take 4 memory))"

definition GetBE64 :: "bool \<Rightarrow> byte list \<Rightarrow> uint64" where
  "GetBE64 big memory = htobe big 8 (host_load big (take 8 memory))"

definition SetLE16 :: "bool \<Rightarrow> byte list \<Rightarrow> 16 word \<Rightarrow> byte list" where
  "SetLE16 big memory v = memcpy memory 0 (host_store big 2 (htole big 2 v))"

definition SetLE32 :: "bool \<Rightarrow> byte list \<Rightarrow> uint32 \<Rightarrow> byte list" where
  "SetLE32 big memory v = memcpy memory 0 (host_store big 4 (htole big 4 v))"

definition SetLE64 :: "bool \<Rightarrow> byte list \<Rightarrow> uint64 \<Rightarrow> byte list" where
  "SetLE64 big memory v = memcpy memory 0 (host_store big 8 (htole big 8 v))"

definition GetLE16 :: "bool \<Rightarrow> byte list \<Rightarrow> 16 word" where
  "GetLE16 big memory = htole big 2 (host_load big (take 2 memory))"

definition GetLE32 :: "bool \<Rightarrow> byte list \<Rightarrow> uint32" where
  "GetLE32 big memory = htole big 4 (host_load big (take 4 memory))"

definition GetLE64 :: "bool \<Rightarrow> byte list \<Rightarrow> uint64" where
  "GetLE64 big memory = htole big 8 (host_load big (take 8 memory))"

definition HostToNetwork16 :: "bool \<Rightarrow> 16 word \<Rightarrow> 16 word" where
  "HostToNetwork16 big n = htobe big 2 n"

definition HostToNetwork32 :: "bool \<Rightarrow> uint32 \<Rightarrow> uint32" where
  "HostToNetwork32 big n = htobe big 4 n"

definition HostToNetwork64 :: "bool \<Rightarrow> uint64 \<Rightarrow> uint64" where
  "HostToNetwork64 big n = htobe big 8 n"

definition NetworkToHost16 :: "bool \<Rightarrow> 16 word \<Rightarrow> 16 word" where
  "NetworkToHost16 big n = htobe big 2 n"

definition NetworkToHost32 :: "bool \<Rightarrow> uint32 \<Rightarrow> uint32" where
  "NetworkToHost32 big n = htobe big 4 n"

definition NetworkToHost64 :: "bool \<Rightarrow> uint64 \<Rightarrow> uint64" where
  "NetworkToHost64 big n = htobe big 8 n"

definition ByteSwap_step :: "nat \<Rightarrow> nat \<Rightarrow> byte list \<Rightarrow> byte list" where
  "ByteSwap_step sz i inp =
     (let t = inp ! (sz - 1 - i); inp = inp[sz - 1 - i := inp ! i] in inp[i := t])"

definition ByteSwap :: "byte list \<Rightarrow> nat \<Rightarrow> byte list" where
  "ByteSwap inp sz = fold (ByteSwap_step sz) [0..<sz div 2] inp"

section \<open>Lemmas\<close>

lemma bswap_bswap: "LENGTH('a) = 8 * n \<Longrightarrow> bswap n (bswap n w) = w" for w :: "'a::len word"
  using le_of_le_bytes [of "rev (le_bytes n w)", where 'a = 'a]
  by (simp add: bswap_def of_be_bytes_def of_le_le_bytes)

lemma le_bytes_bswap: "LENGTH('a) = 8 * n \<Longrightarrow> le_bytes n (bswap n w) = be_bytes n w" for w :: "'a::len word"
  using le_of_le_bytes [of "rev (le_bytes n w)", where 'a = 'a] by (simp add: bswap_def of_be_bytes_def be_bytes_def)

lemma be_bytes_bswap: "LENGTH('a) = 8 * n \<Longrightarrow> be_bytes n (bswap n w) = le_bytes n w" for w :: "'a::len word"
  by (simp add: be_bytes_def le_bytes_bswap)

lemma bswap_of_le: "LENGTH('a) = 8 * length bs \<Longrightarrow> bswap (length bs) (of_le_bytes bs :: 'a::len word) = of_be_bytes bs"
  by (simp add: bswap_def le_of_le_bytes)

lemma bswap_of_be: "LENGTH('a) = 8 * length bs \<Longrightarrow> bswap (length bs) (of_be_bytes bs :: 'a::len word) = of_le_bytes bs"
  using bswap_of_le [of "rev bs", where 'a = 'a] by (simp add: of_be_bytes_def)

text \<open>Whatever the host, the stores write and the loads read the order their name says.\<close>

lemma host_store_htobe: "LENGTH('a) = 8 * n \<Longrightarrow> host_store big n (htobe big n w) = be_bytes n w" for w :: "'a::len word"
  by (simp add: host_store_def htobe_def le_bytes_bswap)

lemma host_store_htole: "LENGTH('a) = 8 * n \<Longrightarrow> host_store big n (htole big n w) = le_bytes n w" for w :: "'a::len word"
  by (simp add: host_store_def htole_def be_bytes_bswap)

lemma htobe_host_load:
  "LENGTH('a) = 8 * n \<Longrightarrow> length bs = n \<Longrightarrow> htobe big n (host_load big bs :: 'a::len word) = of_be_bytes bs"
  using bswap_of_le [of bs, where 'a = 'a] by (simp add: htobe_def host_load_def)

lemma htole_host_load:
  "LENGTH('a) = 8 * n \<Longrightarrow> length bs = n \<Longrightarrow> htole big n (host_load big bs :: 'a::len word) = of_le_bytes bs"
  using bswap_of_be [of bs, where 'a = 'a] by (simp add: htole_def host_load_def)

lemma htobe_htobe: "LENGTH('a) = 8 * n \<Longrightarrow> htobe big n (htobe big n w) = w" for w :: "'a::len word"
  by (simp add: htobe_def bswap_bswap)

lemma ByteSwap_prefix:
  assumes "k \<le> sz div 2" "sz \<le> length inp"
  shows "length (fold (ByteSwap_step sz) [0..<k] inp) = length inp \<and>
    (\<forall>j < length inp. fold (ByteSwap_step sz) [0..<k] inp ! j =
       (if j < k \<or> sz - k \<le> j \<and> j < sz then inp ! (sz - 1 - j) else inp ! j))"
  using assms(1)
proof (induction k)
  case (Suc k)
  define r where "r = fold (ByteSwap_step sz) [0..<k] inp"
  from Suc have IH: "length r = length inp"
    "\<And>j. j < length inp \<Longrightarrow> r ! j = (if j < k \<or> sz - k \<le> j \<and> j < sz then inp ! (sz - 1 - j) else inp ! j)"
    by (auto simp: r_def)
  have k: "k < sz - 1 - k" "sz - 1 - k < length inp" "k < length inp" "Suc k \<le> sz"
    using Suc.prems assms(2) by linarith+
  have "fold (ByteSwap_step sz) [0..<Suc k] inp = r[sz - 1 - k := r ! k, k := r ! (sz - 1 - k)]"
    by (simp add: r_def ByteSwap_step_def Let_def)
  moreover have "r ! k = inp ! k" "r ! (sz - 1 - k) = inp ! (sz - 1 - k)"
    using IH(2) [of k] IH(2) [of "sz - 1 - k"] k by auto
  moreover have "r[sz - 1 - k := inp ! k, k := inp ! (sz - 1 - k)] ! j =
      (if j < Suc k \<or> sz - Suc k \<le> j \<and> j < sz then inp ! (sz - 1 - j) else inp ! j)" if "j < length inp" for j
  proof -
    consider "j = k" | "j = sz - 1 - k" | "j \<noteq> k" "j \<noteq> sz - 1 - k" by blast
    then show ?thesis
    proof cases
      case 3
      then have "(j < Suc k \<or> sz - Suc k \<le> j \<and> j < sz) = (j < k \<or> sz - k \<le> j \<and> j < sz)"
        using k by linarith
      then show ?thesis using 3 IH that by simp
    next
      case 2
      then have "sz - 1 - j = k" "sz - Suc k \<le> j \<and> j < sz" using k by linarith+
      then show ?thesis using 2 k IH(1) by simp
    next
      case 1
      then show ?thesis using k IH(1) by simp
    qed
  qed
  ultimately show ?case using IH(1) by simp
qed auto

lemma ByteSwap_rev:
  assumes "sz \<le> length inp"
  shows "ByteSwap inp sz = rev (take sz inp) @ drop sz inp"
proof (rule nth_equalityI)
  note P = ByteSwap_prefix [OF order_refl assms, folded ByteSwap_def]
  show "length (ByteSwap inp sz) = length (rev (take sz inp) @ drop sz inp)" using P assms by simp
  fix j assume "j < length (ByteSwap inp sz)"
  with P have j: "j < length inp" by simp
  show "ByteSwap inp sz ! j = (rev (take sz inp) @ drop sz inp) ! j"
  proof (cases "j < sz")
    case True
    have "sz - 1 - j = j" if "\<not> (j < sz div 2 \<or> sz - sz div 2 \<le> j \<and> j < sz)"
      using that True by linarith
    then show ?thesis using P j True assms by (auto simp: nth_append rev_nth)
  next
    case False
    then have "\<not> (j < sz div 2 \<or> sz - sz div 2 \<le> j \<and> j < sz)" by linarith
    with P j have "ByteSwap inp sz ! j = inp ! j" by presburger
    then show ?thesis using False j assms by (simp add: nth_append)
  qed
qed

text \<open>On either kind of host, the big-endian and little-endian accessors write the bytes of
  their order at the start of the memory, leave the rest of it alone, and read back what was written.\<close>

theorem byteorder_set_get:
  assumes "8 \<le> length memory"
  shows "GetBE16 big (SetBE16 big memory a) = a \<and> SetBE16 big memory a = be_bytes 2 a @ drop 2 memory \<and>
    GetBE32 big (SetBE32 big memory b) = b \<and> SetBE32 big memory b = be_bytes 4 b @ drop 4 memory \<and>
    GetBE64 big (SetBE64 big memory c) = c \<and> SetBE64 big memory c = be_bytes 8 c @ drop 8 memory \<and>
    GetLE16 big (SetLE16 big memory a) = a \<and> SetLE16 big memory a = le_bytes 2 a @ drop 2 memory \<and>
    GetLE32 big (SetLE32 big memory b) = b \<and> SetLE32 big memory b = le_bytes 4 b @ drop 4 memory \<and>
    GetLE64 big (SetLE64 big memory c) = c \<and> SetLE64 big memory c = le_bytes 8 c @ drop 8 memory"
  using assms
  by (simp add: GetBE16_def SetBE16_def GetBE32_def SetBE32_def GetBE64_def SetBE64_def GetLE16_def SetLE16_def
      GetLE32_def SetLE32_def GetLE64_def SetLE64_def host_store_htobe host_store_htole htobe_host_load
      htole_host_load of_be_be_bytes of_le_le_bytes memcpy_def flip: numeral_2_eq_2)

lemma byteorder_set_get_witness:
  "GetBE32 True (SetBE32 True (replicate 8 0) 0x12345678) = 0x12345678"
  by (rule byteorder_set_get [THEN conjunct2, THEN conjunct2, THEN conjunct1]) simp

text \<open>\<open>ByteSwap\<close> reverses the first \<open>sz\<close> bytes, for odd and even sizes.\<close>

theorem ByteSwap_reverses:
  assumes "sz \<le> length inp"
  shows "ByteSwap inp sz = rev (take sz inp) @ drop sz inp"
  using assms by (rule ByteSwap_rev)

lemma ByteSwap_reverses_witness: "ByteSwap [1, 2, 3, 4] 3 = [3, 2, 1, 4]"
  by (subst ByteSwap_reverses) simp_all

lemma IsHostBigEndian_host:
  "IsHostBigEndian (host_store big 4 (0x12345678 :: uint32)) (host_store big 2 (0x1234 :: 16 word)) = big"
proof -
  have "IsHostBigEndian (host_store True 4 (0x12345678 :: uint32)) (host_store True 2 (0x1234 :: 16 word))"
    "\<not> IsHostBigEndian (host_store False 4 (0x12345678 :: uint32)) (host_store False 2 (0x1234 :: 16 word))"
    by code_simp+
  then show ?thesis by (cases big) simp_all
qed

end
