(* ===== verification/Ip_Address.thy ===== *)
theory Ip_Address
  imports Byte_Order Std_String "HOL-Library.List_Lexorder" "HOL-Library.Product_Lexorder"
begin

text \<open>
  Model of \<^verbatim>\<open>src/src/ipaddress.cpp\<close> and \<^verbatim>\<open>src/include/ashe/ipaddress.h\<close>. The union of the two kinds
  of address is its sixteen bytes; an IPv4 address is the first four of them. \<open>big\<close> is the byte order of
  the host. The functions \<^verbatim>\<open>inet_pton\<close> and \<^verbatim>\<open>inet_ntop\<close> of the C library are parameters.
\<close>

section \<open>The class\<close>

datatype AF = AF_UNSPEC | AF_INET | AF_INET6 | AF_OTHER

record IPAddress =
  family :: AF
  u :: "byte list"

definition IP_default :: IPAddress where
  "IP_default = \<lparr>family = AF_UNSPEC, u = replicate 16 0\<rparr>"

definition IP_of_in_addr :: "byte list \<Rightarrow> IPAddress" where
  "IP_of_in_addr ip4 = \<lparr>family = AF_INET, u = memcpy (replicate 16 0) 0 ip4\<rparr>"

definition IP_of_in6_addr :: "byte list \<Rightarrow> IPAddress" where
  "IP_of_in6_addr ip6 = \<lparr>family = AF_INET6, u = ip6\<rparr>"

definition IP_of_host :: "bool \<Rightarrow> uint32 \<Rightarrow> IPAddress" where
  "IP_of_host big ip = \<lparr>family = AF_INET,
     u = memcpy (replicate 16 0) 0 (host_store big 4 (HostToNetwork32 big ip))\<rparr>"

definition IP_of_string ::
  "(str \<Rightarrow> byte list option) \<Rightarrow> (str \<Rightarrow> byte list option) \<Rightarrow> str \<Rightarrow> IPAddress" where
  "IP_of_string pton4 pton6 s =
     (let ip = \<lparr>family = AF_INET, u = replicate 16 0\<rparr>
      in if s \<noteq> []
         then (case pton4 s of
             Some addr \<Rightarrow> ip\<lparr>family := AF_INET, u := memcpy (replicate 16 0) 0 addr\<rparr>
           | None \<Rightarrow> (case pton6 s of
               Some addr6 \<Rightarrow> ip\<lparr>family := AF_INET6, u := addr6\<rparr>
             | None \<Rightarrow> ip))
         else ip)"

definition kV4MappedPrefix :: "byte list" where
  "kV4MappedPrefix = [0, 0, 0, 0, 0, 0, 0, 0, 0, 0, 255, 255, 0, 0, 0, 0]"

definition k6To4Prefix :: "byte list" where "k6To4Prefix = [32, 2] @ replicate 14 0"

definition kTeredoPrefix :: "byte list" where "kTeredoPrefix = [32, 1, 0, 0] @ replicate 12 0"

definition kV4CompatibilityPrefix :: "byte list" where "kV4CompatibilityPrefix = replicate 16 0"

definition k6BonePrefix :: "byte list" where "k6BonePrefix = [63, 254] @ replicate 14 0"

definition getIPv4Address :: "IPAddress \<Rightarrow> byte list" where
  "getIPv4Address ip = take 4 (u ip)"

definition getIPv6Address :: "IPAddress \<Rightarrow> byte list" where
  "getIPv6Address ip = u ip"

text \<open>The value of \<open>NetworkToHost32\<close> on the \<open>i\<close>-th word of an address.\<close>

definition ntoh_word :: "bool \<Rightarrow> nat \<Rightarrow> byte list \<Rightarrow> uint32" where
  "ntoh_word big i a = NetworkToHost32 big (host_load big (take 4 (drop (4 * i) a)))"

definition v4AddressAsHostOrderInteger :: "bool \<Rightarrow> IPAddress \<Rightarrow> uint32" where
  "v4AddressAsHostOrderInteger big ip = (if family ip = AF_INET then ntoh_word big 0 (u ip) else 0)"

definition ip_size :: "IPAddress \<Rightarrow> nat" where
  "ip_size ip = (case family ip of AF_INET \<Rightarrow> 4 | AF_INET6 \<Rightarrow> 16 | _ \<Rightarrow> 0)"

fun memcmp :: "byte list \<Rightarrow> byte list \<Rightarrow> nat \<Rightarrow> int" where
  "memcmp (x # xs) (y # ys) (Suc n) = (if x = y then memcmp xs ys n else if x < y then - 1 else 1)"
| "memcmp _ _ _ = 0"

definition ip_eq :: "IPAddress \<Rightarrow> IPAddress \<Rightarrow> bool" where
  "ip_eq a b =
     (if family a \<noteq> family b then False
      else if family a = AF_INET then memcmp (u a) (u b) 4 = 0
      else if family a = AF_INET6 then memcmp (u a) (u b) 16 = 0
      else family a = AF_UNSPEC)"

definition ip_less :: "bool \<Rightarrow> IPAddress \<Rightarrow> IPAddress \<Rightarrow> bool" where
  "ip_less big a b =
     (if family a \<noteq> family b
      then if family a = AF_UNSPEC then True
           else if family a = AF_INET \<and> family b = AF_INET6 then True
           else False
      else case family a of
          AF_INET \<Rightarrow> ntoh_word big 0 (u a) < ntoh_word big 0 (u b)
        | AF_INET6 \<Rightarrow> memcmp (u a) (u b) 16 < 0
        | _ \<Rightarrow> False)"

definition ip_greater :: "bool \<Rightarrow> IPAddress \<Rightarrow> IPAddress \<Rightarrow> bool" where
  "ip_greater big a b = (\<not> ip_eq a b \<and> \<not> ip_less big a b)"

definition toString :: "(AF \<Rightarrow> byte list \<Rightarrow> str option) \<Rightarrow> IPAddress \<Rightarrow> str" where
  "toString ntop ip =
     (if family ip \<noteq> AF_INET \<and> family ip \<noteq> AF_INET6 then []
      else let src = (if family ip = AF_INET6 then getIPv6Address ip else getIPv4Address ip)
           in case ntop (family ip) src of None \<Rightarrow> [] | Some buf \<Rightarrow> buf)"

text \<open>The conversion \<^verbatim>\<open>%x\<close>.\<close>

fun hex_x :: "nat \<Rightarrow> str" where
  "hex_x n = (if n < 16 then [of_char (hex_digits ! n)] else hex_x (n div 16) @ [of_char (hex_digits ! (n mod 16))])"

declare hex_x.simps [simp del]

definition toSensitiveString :: "bool \<Rightarrow> (AF \<Rightarrow> byte list \<Rightarrow> str option) \<Rightarrow> IPAddress \<Rightarrow> str" where
  "toSensitiveString ndebug ntop ip =
     (if \<not> ndebug then toString ntop ip
      else case family ip of
          AF_INET \<Rightarrow>
            (let address = toString ntop ip
             in if 46 \<notin> set address then []
                else rev (dropWhile (\<lambda>c. c \<noteq> 46) (rev address)) @ [120])
        | AF_INET6 \<Rightarrow>
            (let addr = getIPv6Address ip
             in hex_x (256 * unat (addr ! 0) + unat (addr ! 1)) @ [58] @
                hex_x (256 * unat (addr ! 2) + unat (addr ! 3)) @ [58] @
                hex_x (256 * unat (addr ! 4) + unat (addr ! 5)) @ map of_char '':x:x:x:x:x'')
        | _ \<Rightarrow> [])"

definition IPIsHelper :: "IPAddress \<Rightarrow> byte list \<Rightarrow> nat \<Rightarrow> bool" where
  "IPIsHelper ip tomatch len = (memcmp (getIPv6Address ip) tomatch (drop_bit 3 len) = 0)"

definition IPIsV4Mapped :: "IPAddress \<Rightarrow> bool" where "IPIsV4Mapped ip = IPIsHelper ip kV4MappedPrefix 96"

definition IPIs6Bone :: "IPAddress \<Rightarrow> bool" where "IPIs6Bone ip = IPIsHelper ip k6BonePrefix 16"

definition IPIs6To4 :: "IPAddress \<Rightarrow> bool" where "IPIs6To4 ip = IPIsHelper ip k6To4Prefix 16"

definition IPIsTeredo :: "IPAddress \<Rightarrow> bool" where "IPIsTeredo ip = IPIsHelper ip kTeredoPrefix 32"

definition IPIsV4Compatibility :: "IPAddress \<Rightarrow> bool" where
  "IPIsV4Compatibility ip = IPIsHelper ip kV4CompatibilityPrefix 96"

definition ExtractMappedAddress :: "byte list \<Rightarrow> byte list" where
  "ExtractMappedAddress in6 = take 4 (drop 12 in6)"

definition normalized :: "IPAddress \<Rightarrow> IPAddress" where
  "normalized ip =
     (if family ip \<noteq> AF_INET6 then ip
      else if \<not> IPIsV4Mapped ip then ip
      else IP_of_in_addr (ExtractMappedAddress (u ip)))"

definition asIPv6Address :: "IPAddress \<Rightarrow> IPAddress" where
  "asIPv6Address ip =
     (if family ip \<noteq> AF_INET then ip
      else IP_of_in6_addr (memcpy kV4MappedPrefix 12 (getIPv4Address ip)))"

definition IsPrivateV4 :: "uint32 \<Rightarrow> bool" where
  "IsPrivateV4 ip \<longleftrightarrow>
     drop_bit 24 ip = 127 \<or> drop_bit 24 ip = 10 \<or>
     drop_bit 20 ip = push_bit 4 172 OR 1 \<or>
     drop_bit 16 ip = push_bit 8 192 OR 168 \<or>
     drop_bit 16 ip = push_bit 8 169 OR 254"

datatype sockaddr = sockaddr_in "byte list" | sockaddr_in6 "byte list" | sockaddr_other

text \<open>\<open>None\<close> is a null \<open>info\<close>, \<open>Some None\<close> one with a null address.\<close>

definition IPFromAddrInfo :: "sockaddr option option \<Rightarrow> IPAddress \<Rightarrow> bool \<times> IPAddress" where
  "IPFromAddrInfo info out =
     (case info of
        None \<Rightarrow> (False, out)
      | Some None \<Rightarrow> (False, out)
      | Some (Some (sockaddr_in a)) \<Rightarrow> (True, IP_of_in_addr a)
      | Some (Some (sockaddr_in6 a)) \<Rightarrow> (True, IP_of_in6_addr a)
      | Some (Some sockaddr_other) \<Rightarrow> (False, out))"

text \<open>A null \<open>out\<close> is \<open>None\<close>.\<close>

definition IPFromString ::
  "(str \<Rightarrow> byte list option) \<Rightarrow> (str \<Rightarrow> byte list option) \<Rightarrow> str \<Rightarrow> IPAddress option \<Rightarrow> bool \<times> IPAddress option" where
  "IPFromString pton4 pton6 s out =
     (if out = None then (False, out)
      else case pton4 s of
          None \<Rightarrow> (case pton6 s of
              None \<Rightarrow> (False, Some IP_default)
            | Some addr6 \<Rightarrow> (True, Some (IP_of_in6_addr addr6)))
        | Some addr \<Rightarrow> (True, Some (IP_of_in_addr addr)))"

definition in6addr_any :: "byte list" where "in6addr_any = replicate 16 0"

definition in6addr_loopback :: "byte list" where "in6addr_loopback = replicate 15 0 @ [1]"

definition IPIsAny :: "bool \<Rightarrow> IPAddress \<Rightarrow> bool" where
  "IPIsAny big ip =
     (case family ip of
        AF_INET \<Rightarrow> ip_eq ip (IP_of_host big 0)
      | AF_INET6 \<Rightarrow> ip_eq ip (IP_of_in6_addr in6addr_any) \<or> ip_eq ip (IP_of_in6_addr kV4MappedPrefix)
      | _ \<Rightarrow> False)"

definition IPIsLoopback :: "bool \<Rightarrow> IPAddress \<Rightarrow> bool" where
  "IPIsLoopback big ip =
     (case family ip of
        AF_INET \<Rightarrow> drop_bit 24 (v4AddressAsHostOrderInteger big ip) = 127
      | AF_INET6 \<Rightarrow> ip_eq ip (IP_of_in6_addr in6addr_loopback)
      | _ \<Rightarrow> False)"

definition IPIsLinkLocal :: "IPAddress \<Rightarrow> bool" where
  "IPIsLinkLocal ip \<longleftrightarrow> getIPv6Address ip ! 0 = 0xFE \<and> getIPv6Address ip ! 1 = 0x80"

definition IPIsPrivate :: "bool \<Rightarrow> IPAddress \<Rightarrow> bool" where
  "IPIsPrivate big ip =
     (case family ip of
        AF_INET \<Rightarrow> IsPrivateV4 (v4AddressAsHostOrderInteger big ip)
      | AF_INET6 \<Rightarrow> IPIsLinkLocal ip \<or> IPIsLoopback big ip
      | _ \<Rightarrow> False)"

definition IPIsUnspec :: "IPAddress \<Rightarrow> bool" where "IPIsUnspec ip \<longleftrightarrow> family ip = AF_UNSPEC"

definition isUnspecifiedIP :: "IPAddress \<Rightarrow> bool" where "isUnspecifiedIP ip = IPIsUnspec ip"

definition HashIP :: "bool \<Rightarrow> IPAddress \<Rightarrow> uint64" where
  "HashIP big ip =
     (case family ip of
        AF_INET \<Rightarrow> ucast (host_load big (getIPv4Address ip) :: uint32)
      | AF_INET6 \<Rightarrow>
          (let v6_as_ints = map (\<lambda>i. host_load big (take 4 (drop (4 * i) (getIPv6Address ip))) :: uint32) [0..<4]
           in ucast (v6_as_ints ! 0 XOR v6_as_ints ! 1 XOR v6_as_ints ! 2 XOR v6_as_ints ! 3))
      | _ \<Rightarrow> 0)"

text \<open>One iteration of the loop of \<open>TruncateIP\<close> over the four words of an IPv6 address.\<close>

definition Truncate_word :: "bool \<Rightarrow> nat \<Rightarrow> uint32 \<Rightarrow> nat \<Rightarrow> byte list \<Rightarrow> byte list" where
  "Truncate_word big position inner_mask i a =
     (if i = position
      then memcpy a (4 * i) (host_store big 4 (HostToNetwork32 big (ntoh_word big i a AND inner_mask)))
      else if i > position then memcpy a (4 * i) (host_store big 4 (0 :: uint32))
      else a)"

definition TruncateIP :: "bool \<Rightarrow> IPAddress \<Rightarrow> int \<Rightarrow> IPAddress" where
  "TruncateIP big ip len =
     (if len < 0 then IP_default
      else if family ip = AF_INET
      then if len > 31 then ip
           else if len = 0 then IP_of_host big 0
           else let m = push_bit (nat (32 - len)) (0xFFFFFFFF :: uint32);
                    host_order_ip = ntoh_word big 0 (getIPv4Address ip)
                in IP_of_in_addr (host_store big 4 (HostToNetwork32 big (host_order_ip AND m)))
      else if family ip = AF_INET6
      then if len > 127 then ip
           else if len = 0 then IP_of_in6_addr in6addr_any
           else let position = nat (len div 32);
                    inner_length = 32 - (nat len - position * 32);
                    inner_mask = ucast (push_bit inner_length (0xFFFFFFFF :: uint64)) :: uint32
                in IP_of_in6_addr (fold (Truncate_word big position inner_mask) [0..<4] (getIPv6Address ip))
      else IP_default)"

text \<open>The bit count of \<open>CountIPMaskBits\<close>: the number of trailing zeros of a word that is not zero.\<close>

definition trailing_zeroes :: "uint32 \<Rightarrow> int" where
  "trailing_zeroes w =
     (let w = w AND (NOT w + 1);
          zeroes = 32;
          zeroes = (if w \<noteq> 0 then zeroes - 1 else zeroes);
          zeroes = (if w AND 0x0000FFFF \<noteq> 0 then zeroes - 16 else zeroes);
          zeroes = (if w AND 0x00FF00FF \<noteq> 0 then zeroes - 8 else zeroes);
          zeroes = (if w AND 0x0F0F0F0F \<noteq> 0 then zeroes - 4 else zeroes);
          zeroes = (if w AND 0x33333333 \<noteq> 0 then zeroes - 2 else zeroes);
          zeroes = (if w AND 0x55555555 \<noteq> 0 then zeroes - 1 else zeroes)
      in zeroes)"

primrec first_partial_word :: "bool \<Rightarrow> byte list \<Rightarrow> nat \<Rightarrow> nat \<Rightarrow> nat" where
  "first_partial_word big a i 0 = i"
| "first_partial_word big a i (Suc k) =
     (if (host_load big (take 4 (drop (4 * i) a)) :: uint32) \<noteq> 0xFFFFFFFF then i else first_partial_word big a (Suc i) k)"

definition CountIPMaskBits :: "bool \<Rightarrow> IPAddress \<Rightarrow> int" where
  "CountIPMaskBits big ip =
     (let finish = (\<lambda>word_to_count bits. if word_to_count = 0 then bits else bits + (32 - trailing_zeroes word_to_count))
      in case family ip of
          AF_INET \<Rightarrow> finish (ntoh_word big 0 (getIPv4Address ip)) 0
        | AF_INET6 \<Rightarrow>
            (let a = getIPv6Address ip;
                 i = first_partial_word big a 0 4
             in finish (if i < 4 then ntoh_word big i a else 0) (int (i * 32)))
        | _ \<Rightarrow> 0)"

definition IPIsMacBased :: "IPAddress \<Rightarrow> bool" where
  "IPIsMacBased ip \<longleftrightarrow>
     getIPv6Address ip ! 8 AND 0x02 \<noteq> 0 \<and> getIPv6Address ip ! 11 = 0xFF \<and> getIPv6Address ip ! 12 = 0xFE"

definition IPIsSiteLocal :: "IPAddress \<Rightarrow> bool" where
  "IPIsSiteLocal ip \<longleftrightarrow> getIPv6Address ip ! 0 = 0xFE \<and> getIPv6Address ip ! 1 AND 0xC0 = 0xC0"

definition IPIsULA :: "IPAddress \<Rightarrow> bool" where
  "IPIsULA ip \<longleftrightarrow> getIPv6Address ip ! 0 AND 0xFE = 0xFC"

definition IPAddressPrecedence :: "bool \<Rightarrow> IPAddress \<Rightarrow> int" where
  "IPAddressPrecedence big ip =
     (if family ip = AF_INET then 30
      else if family ip = AF_INET6
      then if IPIsLoopback big ip then 60
           else if IPIsULA ip then 50
           else if IPIsV4Mapped ip then 30
           else if IPIs6To4 ip then 20
           else if IPIsTeredo ip then 10
           else if IPIsV4Compatibility ip \<or> IPIsSiteLocal ip \<or> IPIs6Bone ip then 1
           else 40
      else 0)"

definition GetLoopbackIP :: "bool \<Rightarrow> AF \<Rightarrow> IPAddress" where
  "GetLoopbackIP big fam =
     (if fam = AF_INET then IP_of_host big 0x7F000001
      else if fam = AF_INET6 then IP_of_in6_addr in6addr_loopback
      else IP_default)"

definition GetAnyIP :: "bool \<Rightarrow> AF \<Rightarrow> IPAddress" where
  "GetAnyIP big fam =
     (if fam = AF_INET then IP_of_host big 0
      else if fam = AF_INET6 then IP_of_in6_addr in6addr_any
      else IP_default)"

record InterfaceAddress =
  base :: IPAddress
  ipv6_flags :: int

definition InterfaceAddress_eq :: "InterfaceAddress \<Rightarrow> InterfaceAddress \<Rightarrow> bool" where
  "InterfaceAddress_eq a b \<longleftrightarrow> ipv6_flags a = ipv6_flags b \<and> ip_eq (base a) (base b)"

definition InterfaceAddress_FromString ::
  "(str \<Rightarrow> byte list option) \<Rightarrow> (str \<Rightarrow> byte list option) \<Rightarrow> str \<Rightarrow> int \<Rightarrow> InterfaceAddress \<Rightarrow>
   bool \<times> InterfaceAddress" where
  "InterfaceAddress_FromString pton4 pton6 s flags out =
     (case IPFromString pton4 pton6 s (Some IP_default) of
        (True, Some ip) \<Rightarrow> (True, \<lparr>base = ip, ipv6_flags = flags\<rparr>)
      | _ \<Rightarrow> (False, out))"

section \<open>The invariant\<close>

text \<open>What every constructor establishes: sixteen bytes, those that the family does not use being zero.\<close>

definition ip_wf :: "IPAddress \<Rightarrow> bool" where
  "ip_wf ip \<longleftrightarrow> length (u ip) = 16 \<and>
     (case family ip of
        AF_UNSPEC \<Rightarrow> u ip = replicate 16 0
      | AF_INET \<Rightarrow> drop 4 (u ip) = replicate 12 0
      | AF_INET6 \<Rightarrow> True
      | AF_OTHER \<Rightarrow> False)"

lemma ip_wf_default [simp]: "ip_wf IP_default"
  by (simp add: ip_wf_def IP_default_def)

lemma ip_wf_in_addr [simp]: "length a = 4 \<Longrightarrow> ip_wf (IP_of_in_addr a)"
  by (simp add: ip_wf_def IP_of_in_addr_def memcpy_def)

lemma ip_wf_in6_addr [simp]: "length a = 16 \<Longrightarrow> ip_wf (IP_of_in6_addr a)"
  by (simp add: ip_wf_def IP_of_in6_addr_def)

lemma length_host_store [simp]: "length (host_store big n w) = n"
  by (simp add: host_store_def)

lemma IP_of_host_in_addr: "IP_of_host big ip = IP_of_in_addr (be_bytes 4 ip)"
  by (simp add: IP_of_host_def IP_of_in_addr_def HostToNetwork32_def host_store_htobe)

lemma ntoh_word_be: "4 * i + 4 \<le> length a \<Longrightarrow> ntoh_word big i a = of_be_bytes (take 4 (drop (4 * i) a))"
  by (simp add: ntoh_word_def NetworkToHost32_def htobe_host_load)

section \<open>The order\<close>

lemma memcmp_0: "length xs = n \<Longrightarrow> length ys = n \<Longrightarrow> memcmp xs ys n = 0 \<longleftrightarrow> xs = ys"
  by (induction xs ys n rule: memcmp.induct) auto

lemma memcmp_less: "length xs = n \<Longrightarrow> length ys = n \<Longrightarrow> memcmp xs ys n < 0 \<longleftrightarrow> xs < ys"
  by (induction xs ys n rule: memcmp.induct) auto

lemma memcmp_take_0: "n \<le> length xs \<Longrightarrow> n \<le> length ys \<Longrightarrow> memcmp xs ys n = 0 \<longleftrightarrow> take n xs = take n ys"
  by (induction xs ys n rule: memcmp.induct) auto

definition ip_key :: "IPAddress \<Rightarrow> nat \<times> uint32 \<times> byte list" where
  "ip_key ip =
     (case family ip of
        AF_UNSPEC \<Rightarrow> (0, 0, [])
      | AF_INET \<Rightarrow> (1, of_be_bytes (take 4 (u ip)), [])
      | AF_INET6 \<Rightarrow> (2, 0, u ip)
      | AF_OTHER \<Rightarrow> (3, 0, []))"

lemma ip_less_key: "ip_wf a \<Longrightarrow> ip_wf b \<Longrightarrow> ip_less big a b \<longleftrightarrow> ip_key a < ip_key b"
  by (cases "family a"; cases "family b")
    (simp_all add: ip_less_def ip_key_def ip_wf_def ntoh_word_be memcmp_less)

lemma ip_key_inj:
  assumes "ip_wf a" "ip_wf b" "ip_key a = ip_key b"
  shows "a = b"
proof -
  have "u a = u b" if "family a = AF_INET" "family b = AF_INET"
  proof -
    have "length (take 4 (u a)) = 4" "length (take 4 (u b)) = 4"
      using assms(1,2) by (simp_all add: ip_wf_def)
    moreover have "of_be_bytes (take 4 (u a)) = (of_be_bytes (take 4 (u b)) :: uint32)"
      using assms(3) that by (simp add: ip_key_def)
    ultimately have "take 4 (u a) = take 4 (u b)"
      using be_of_be_bytes [of "take 4 (u a)", where 'a = 32] be_of_be_bytes [of "take 4 (u b)", where 'a = 32] by simp
    moreover have "drop 4 (u a) = drop 4 (u b)" using assms(1,2) that by (simp add: ip_wf_def)
    ultimately show ?thesis by (metis append_take_drop_id)
  qed
  moreover have "family a = family b"
    using assms by (cases "family a"; cases "family b") (simp_all add: ip_key_def ip_wf_def)
  ultimately have "u a = u b"
    using assms by (cases "family a"; cases "family b") (simp_all add: ip_key_def ip_wf_def)
  with \<open>family a = family b\<close> show ?thesis by simp
qed

lemma ip_eq_wf:
  assumes "ip_wf a" "ip_wf b"
  shows "ip_eq a b \<longleftrightarrow> a = b"
proof
  have "ip_eq a a"
    using assms(1) by (cases "family a") (simp_all add: ip_eq_def ip_wf_def memcmp_take_0)
  then show "a = b \<Longrightarrow> ip_eq a b" by simp
  assume "ip_eq a b"
  with assms have "ip_key a = ip_key b"
    by (cases "family a"; cases "family b")
      (simp_all add: ip_eq_def ip_key_def ip_wf_def memcmp_take_0)
  then show "a = b" using ip_key_inj assms by blast
qed

text \<open>The addresses that the constructors make are a linear order under the operators.\<close>

typedef ip_addr = "{ip. ip_wf ip}"
  by (rule exI [of _ IP_default]) simp

setup_lifting type_definition_ip_addr

instantiation ip_addr :: linorder
begin

lift_definition less_ip_addr :: "ip_addr \<Rightarrow> ip_addr \<Rightarrow> bool" is "ip_less False" .

lift_definition less_eq_ip_addr :: "ip_addr \<Rightarrow> ip_addr \<Rightarrow> bool" is "\<lambda>a b. ip_less False a b \<or> ip_eq a b" .

instance
proof
  fix x y z :: ip_addr
  show "(x < y) = (x \<le> y \<and> \<not> y \<le> x)"
    by transfer (auto simp: ip_less_key ip_eq_wf)
  show "x \<le> x" by transfer (simp add: ip_eq_wf)
  show "x \<le> y \<Longrightarrow> y \<le> z \<Longrightarrow> x \<le> z"
    by transfer (auto simp: ip_less_key ip_eq_wf)
  show "x \<le> y \<Longrightarrow> y \<le> x \<Longrightarrow> x = y"
    by transfer (auto simp: ip_less_key ip_eq_wf)
  show "x \<le> y \<or> y \<le> x"
    by transfer (use ip_key_inj in \<open>auto simp: ip_less_key ip_eq_wf not_less order.order_iff_strict\<close>)
qed

end

section \<open>Bits of an address\<close>

text \<open>The bits of an address are numbered from the most significant one, as in a prefix length.\<close>

definition addr_bit :: "byte list \<Rightarrow> nat \<Rightarrow> bool" where
  "addr_bit a k = bit (a ! (k div 8)) (7 - k mod 8)"

lemma bit_of_be_bytes:
  "bit (of_be_bytes bs :: 'a::len word) k \<longleftrightarrow>
     k < LENGTH('a) \<and> k div 8 < length bs \<and> bit (bs ! (length bs - 1 - k div 8)) (k mod 8)"
  by (auto simp: of_be_bytes_def bit_of_le_bytes rev_nth)

lemma addr_bit_word:
  assumes "4 * i + 4 \<le> length a" "k div 32 = i"
  shows "addr_bit a k = bit (of_be_bytes (take 4 (drop (4 * i) a)) :: uint32) (31 - k mod 32)"
proof -
  define q r where "q = k mod 32 div 8" and "r = k mod 8"
  have k: "k = 32 * i + 8 * q + r" "q < 4" "r < 8" "k mod 32 = 8 * q + r"
  proof -
    have "k mod 32 = 8 * q + k mod 32 mod 8" unfolding q_def by simp
    also have "k mod 32 mod 8 = r" unfolding r_def by (rule mod_mod_cancel) simp
    finally show "k mod 32 = 8 * q + r" .
    then show "k = 32 * i + 8 * q + r" using mult_div_mod_eq [of 32 k] assms(2) by linarith
    show "q < 4" unfolding q_def by (rule less_mult_imp_div_less) simp
    show "r < 8" unfolding r_def by simp
  qed
  then have e: "31 - k mod 32 = 8 * (3 - q) + (7 - r)" by linarith
  have dm: "(8 * x + y) div 8 = x" "(8 * x + y) mod 8 = y" if "y < 8" for x y :: nat
    using that by simp_all
  have r7: "7 - r < 8" by simp
  have J: "(31 - k mod 32) div 8 = 3 - q" "(31 - k mod 32) mod 8 = 7 - r"
    unfolding e by (rule dm(1) [OF r7], rule dm(2) [OF r7])
  have kq: "k div 8 = 4 * i + q" "k mod 8 = r"
  proof -
    have e2: "k = 8 * (4 * i + q) + r" using k(1) by simp
    show "k div 8 = 4 * i + q" by (subst e2) (rule dm(1) [OF k(3)])
    show "k mod 8 = r" by (rule r_def [symmetric])
  qed
  define bs where "bs = take 4 (drop (4 * i) a)"
  have bs: "length bs = 4" "bs ! q = a ! (4 * i + q)"
    using assms(1) k(2) by (simp_all add: bs_def)
  have "31 - k mod 32 < 32" "3 - q < 4" by (rule le_less_trans [OF diff_le_self], simp)+
  then have "bit (of_be_bytes bs :: uint32) (31 - k mod 32) = bit (bs ! q) (7 - r)"
    unfolding bit_of_be_bytes J bs(1) using k(2) by (simp add: less_Suc_eq_le)
  then show ?thesis unfolding addr_bit_def kq bs_def [symmetric] bs(2) [symmetric] by simp
qed

lemma word_of_be_at: "LENGTH('a) = 32 \<Longrightarrow> of_be_bytes (be_bytes 4 w) = (w :: 'a::len word)"
  by (simp add: of_be_be_bytes)

lemma take_drop_memcpy:
  assumes "length s = 4" "4 * i + 4 \<le> length a" "4 * j + 4 \<le> length a"
  shows "take 4 (drop (4 * j) (memcpy a (4 * i) s)) = (if i = j then s else take 4 (drop (4 * j) a))"
proof (rule nth_equalityI)
  have l: "length (memcpy a (4 * i) s) = length a" using assms by simp
  show "length (take 4 (drop (4 * j) (memcpy a (4 * i) s))) =
      length (if i = j then s else take 4 (drop (4 * j) a))"
    using assms by (simp add: l)
  fix k assume "k < length (take 4 (drop (4 * j) (memcpy a (4 * i) s)))"
  then have k: "k < 4" by simp
  consider "i = j" | "i < j" | "j < i" by linarith
  then show "take 4 (drop (4 * j) (memcpy a (4 * i) s)) ! k = (if i = j then s else take 4 (drop (4 * j) a)) ! k"
  proof cases
    case 2
    then have "4 * j + k \<ge> 4 * i + 4" by simp
    then show ?thesis using 2 k assms by (simp add: memcpy_def nth_append)
  next
    case 3
    then have "4 * j + k < 4 * i" using k by simp
    then show ?thesis using 3 k assms by (simp add: memcpy_def nth_append)
  qed (use k assms in \<open>simp add: memcpy_def nth_append\<close>)
qed

lemma addr_bit_store:
  assumes "length a = 16" "i < 4" "k < 128"
  shows "addr_bit (memcpy a (4 * i) (be_bytes 4 (w :: uint32))) k =
    (if k div 32 = i then bit w (31 - k mod 32) else addr_bit a k)"
proof -
  define j where "j = k div 32"
  have j: "4 * j + 4 \<le> 16" using assms(3) less_mult_imp_div_less [of k 4 32] by (simp add: j_def)
  have i: "4 * i + 4 \<le> 16" using assms(2) by simp
  have l: "length (memcpy a (4 * i) (be_bytes 4 w)) = 16" using assms(1) i by simp
  have t: "take 4 (drop (4 * j) (memcpy a (4 * i) (be_bytes 4 w))) =
      (if i = j then be_bytes 4 w else take 4 (drop (4 * j) a))"
    by (rule take_drop_memcpy) (use assms(1) i j in simp_all)
  have "addr_bit (memcpy a (4 * i) (be_bytes 4 w)) k =
      bit (of_be_bytes (take 4 (drop (4 * j) (memcpy a (4 * i) (be_bytes 4 w)))) :: uint32) (31 - k mod 32)"
    by (rule addr_bit_word) (use j in \<open>simp_all only: l j_def\<close>)
  moreover have "addr_bit a k = bit (of_be_bytes (take 4 (drop (4 * j) a)) :: uint32) (31 - k mod 32)"
    by (rule addr_bit_word) (use assms(1) j in \<open>simp_all only: j_def\<close>)
  moreover have "of_be_bytes (be_bytes 4 w) = w" by (rule word_of_be_at) simp
  ultimately show ?thesis
    unfolding t j_def [symmetric] by (cases "i = j") simp_all
qed

lemma host_store_0: "host_store big 4 (0 :: uint32) = be_bytes 4 (0 :: uint32)"
  by (simp add: host_store_def be_bytes_def le_bytes_def map_replicate_const)

lemma Truncate_word_bits:
  assumes "length a = 16" "i < 4" "k < 128"
  shows "length (Truncate_word big p m i a) = 16"
    and "addr_bit (Truncate_word big p m i a) k =
      (if k div 32 = i then (if i < p then addr_bit a k else i = p \<and> addr_bit a k \<and> bit m (31 - k mod 32))
       else addr_bit a k)"
proof -
  have i: "4 * i + 4 \<le> length a" using assms by simp
  show "length (Truncate_word big p m i a) = 16"
    using assms by (simp add: Truncate_word_def)
  consider "i = p" | "p < i" | "i < p" by linarith
  then show "addr_bit (Truncate_word big p m i a) k =
      (if k div 32 = i then (if i < p then addr_bit a k else i = p \<and> addr_bit a k \<and> bit m (31 - k mod 32))
       else addr_bit a k)"
  proof cases
    case 1
    then have t: "Truncate_word big p m i a = memcpy a (4 * i) (be_bytes 4 (of_be_bytes (take 4 (drop (4 * i) a)) AND m))"
      using ntoh_word_be [OF i] by (simp add: Truncate_word_def HostToNetwork32_def host_store_htobe)
    show ?thesis
      unfolding t addr_bit_store [OF assms] using 1 addr_bit_word [OF i, of k] by (auto simp: bit_and_iff)
  next
    case 2
    then have t: "Truncate_word big p m i a = memcpy a (4 * i) (be_bytes 4 (0 :: uint32))"
      using host_store_0 [of big] by (simp add: Truncate_word_def)
    show ?thesis unfolding t addr_bit_store [OF assms] using 2 by simp
  next
    case 3
    then show ?thesis by (simp add: Truncate_word_def)
  qed
qed

lemma Truncate_fold_bits:
  assumes "length a = 16" "n \<le> 4" "k < 128"
  shows "length (fold (Truncate_word big p m) [0..<n] a) = 16 \<and>
    addr_bit (fold (Truncate_word big p m) [0..<n] a) k =
      (if k div 32 < n then (if k div 32 < p then addr_bit a k else k div 32 = p \<and> addr_bit a k \<and> bit m (31 - k mod 32))
       else addr_bit a k)"
  using assms(2)
proof (induction n)
  case 0
  then show ?case using assms(1) by simp
next
  case (Suc n)
  then show ?case
    using Truncate_word_bits [of "fold (Truncate_word big p m) [0..<n] a" n k big p m] assms(3)
    by (auto simp: less_Suc_eq)
qed

section \<open>Truncation\<close>

lemma bit_inner_mask:
  "j < 32 \<Longrightarrow> bit (ucast (push_bit n (0xFFFFFFFF :: uint64)) :: uint32) j \<longleftrightarrow> n \<le> j"
proof -
  assume j: "j < 32"
  have m: "(0xFFFFFFFF :: uint64) = mask 32" by (simp add: mask_eq_exp_minus_1)
  show ?thesis unfolding m using j by (auto simp: bit_simps)
qed

lemma bit_mask32: "j < 32 \<Longrightarrow> bit (push_bit n (0xFFFFFFFF :: uint32)) j \<longleftrightarrow> n \<le> j"
proof -
  assume j: "j < 32"
  have m: "(0xFFFFFFFF :: uint32) = mask 32" by (simp add: mask_eq_exp_minus_1)
  show ?thesis unfolding m using j by (auto simp: bit_simps)
qed

lemma u_of_in_addr: "length a = 4 \<Longrightarrow> u (IP_of_in_addr a) = a @ replicate 12 0"
  by (simp add: IP_of_in_addr_def memcpy_def)

lemma addr_bit_append: "k < 8 * length a \<Longrightarrow> addr_bit (a @ b) k = addr_bit a k"
  by (simp add: addr_bit_def nth_append less_mult_imp_div_less mult.commute)

lemma addr_bit_be_bytes: "k < 32 \<Longrightarrow> addr_bit (be_bytes 4 (w :: uint32)) k = bit w (31 - k)"
  using addr_bit_word [of 0 "be_bytes 4 w" k] by (simp add: of_be_be_bytes)

lemma TruncateIP_v4:
  assumes "ip_wf ip" "family ip = AF_INET" "0 \<le> len"
  shows "\<exists>w :: uint32. TruncateIP big ip len = IP_of_in_addr (be_bytes 4 w) \<and>
    (\<forall>k < 32. bit w (31 - k) \<longleftrightarrow> int k < len \<and> addr_bit (u ip) k)"
proof -
  define w :: uint32 where "w = of_be_bytes (take 4 (u ip))"
  have l: "length (u ip) = 16" using assms(1) by (simp add: ip_wf_def)
  have wb: "bit w (31 - k) \<longleftrightarrow> addr_bit (u ip) k" if "k < 32" for k
    using addr_bit_word [of 0 "u ip" k] that l by (simp add: w_def)
  have ip: "ip = IP_of_in_addr (be_bytes 4 w)"
  proof -
    have "be_bytes 4 w = take 4 (u ip)"
      using be_of_be_bytes [of "take 4 (u ip)", where 'a = 32] l by (simp add: w_def)
    then have "u (IP_of_in_addr (be_bytes 4 w)) = take 4 (u ip) @ drop 4 (u ip)"
      using assms(1,2) by (simp add: u_of_in_addr ip_wf_def del: append_take_drop_id)
    then show ?thesis using assms(2) by (simp add: IP_of_in_addr_def)
  qed
  consider "len > 31" | "len = 0" | "0 < len" "len \<le> 31" using assms(3) by linarith
  then show ?thesis
  proof cases
    case 1
    then have "TruncateIP big ip len = IP_of_in_addr (be_bytes 4 w)"
      using ip assms(2) by (simp add: TruncateIP_def)
    moreover have "\<forall>k < 32. bit w (31 - k) \<longleftrightarrow> int k < len \<and> addr_bit (u ip) k" using 1 wb by simp
    ultimately show ?thesis by blast
  next
    case 2
    then have "TruncateIP big ip len = IP_of_in_addr (be_bytes 4 (0 :: uint32))"
      using assms(2) by (simp add: TruncateIP_def IP_of_host_in_addr)
    then show ?thesis using 2 by (auto intro!: exI [of _ 0])
  next
    case 3
    define m where "m = push_bit (nat (32 - len)) (0xFFFFFFFF :: uint32)"
    have "ntoh_word big 0 (getIPv4Address ip) = w"
      using l by (simp add: ntoh_word_be getIPv4Address_def w_def)
    then have "TruncateIP big ip len = IP_of_in_addr (be_bytes 4 (w AND m))"
      using 3 assms(2) by (simp add: TruncateIP_def m_def Let_def HostToNetwork32_def host_store_htobe)
    moreover have "bit (w AND m) (31 - k) \<longleftrightarrow> int k < len \<and> addr_bit (u ip) k" if "k < 32" for k
    proof -
      have "nat (32 - len) \<le> 31 - k \<longleftrightarrow> int k < len" using 3 that by linarith
      then show ?thesis using that by (auto simp: bit_and_iff wb m_def bit_mask32)
    qed
    ultimately show ?thesis by blast
  qed
qed

lemma TruncateIP_v6:
  assumes "ip_wf ip" "family ip = AF_INET6" "0 \<le> len"
  shows "\<exists>a. TruncateIP big ip len = IP_of_in6_addr a \<and> length a = 16 \<and>
    (\<forall>k < 128. addr_bit a k \<longleftrightarrow> int k < len \<and> addr_bit (u ip) k)"
proof -
  have l: "length (u ip) = 16" using assms(1) by (simp add: ip_wf_def)
  consider "len > 127" | "len = 0" | "0 < len" "len \<le> 127" using assms(3) by linarith
  then show ?thesis
  proof cases
    case 1
    then have "TruncateIP big ip len = IP_of_in6_addr (u ip)"
      using assms(2) by (simp add: TruncateIP_def IP_of_in6_addr_def)
    then show ?thesis using 1 l by (auto intro!: exI [of _ "u ip"])
  next
    case 2
    then have "TruncateIP big ip len = IP_of_in6_addr (replicate 16 0)"
      using assms(2) by (simp add: TruncateIP_def in6addr_any_def)
    moreover have "\<not> addr_bit (replicate 16 0) k" if "k < 128" for k
      using that less_mult_imp_div_less [of k 16 8] by (simp add: addr_bit_def)
    ultimately show ?thesis using 2 by (auto intro!: exI [of _ "replicate 16 0"])
  next
    case 3
    define n where "n = nat len"
    define m where "m = (ucast (push_bit (32 - (n - n div 32 * 32)) (0xFFFFFFFF :: uint64)) :: uint32)"
    define a where "a = fold (Truncate_word big (n div 32) m) [0..<4] (u ip)"
    have n: "len = int n" "0 < n" "n \<le> 127" using 3 by (simp_all add: n_def)
    have "nat (len div 32) = n div 32" using n(1) by (simp add: nat_div_distrib)
    then have "TruncateIP big ip len = IP_of_in6_addr a"
      using 3 assms(2) n(1) by (simp add: TruncateIP_def Let_def a_def m_def getIPv6Address_def)
    moreover have "length a = 16"
      using Truncate_fold_bits [OF l order_refl, of 0] by (simp add: a_def)
    moreover have "addr_bit a k \<longleftrightarrow> int k < len \<and> addr_bit (u ip) k" if "k < 128" for k
    proof -
      have k4: "k div 32 < 4" using that by (simp add: less_mult_imp_div_less)
      have nm: "n - n div 32 * 32 = n mod 32" by (simp add: minus_div_mult_eq_mod)
      have "bit m (31 - k mod 32) \<longleftrightarrow> 32 - n mod 32 \<le> 31 - k mod 32"
        unfolding m_def nm by (rule bit_inner_mask) simp
      also have "\<dots> \<longleftrightarrow> k mod 32 < n mod 32"
        using mod_less_divisor [of 32 k] mod_less_divisor [of 32 n] by linarith
      finally have mb: "bit m (31 - k mod 32) \<longleftrightarrow> k mod 32 < n mod 32" .
      have "k < n \<longleftrightarrow> k div 32 < n div 32 \<or> k div 32 = n div 32 \<and> k mod 32 < n mod 32"
      proof -
        have "k = 32 * (k div 32) + k mod 32" "n = 32 * (n div 32) + n mod 32" by simp_all
        moreover have "k mod 32 < 32" "n mod 32 < 32" by simp_all
        ultimately show ?thesis by linarith
      qed
      then show ?thesis
        using Truncate_fold_bits [OF l order_refl that, of big "n div 32" m] k4 n(1) by (auto simp: a_def mb)
    qed
    ultimately show ?thesis by blast
  qed
qed

section \<open>Mask bits\<close>

lemma bit_minus_1:
  fixes w :: uint32
  assumes "bit w t" "\<And>j. j < t \<Longrightarrow> \<not> bit w j" "j < 32"
  shows "bit (w - 1) j \<longleftrightarrow> (if j < t then True else j \<noteq> t \<and> bit w j)"
proof -
  have t: "t < 32" using assms(1) bit_imp_le_length [of w t] by simp
  define h where "h = (w AND NOT (mask (Suc t)))"
  have le: "t \<le> j" if "bit w j" for j using assms(2) that not_le by blast
  have w: "w = h OR push_bit t 1"
    by (rule bit_word_eqI) (use assms(1,2) in \<open>auto simp: h_def bit_simps less_Suc_eq not_less dest: le\<close>)
  have "h AND push_bit t 1 = 0"
    by (rule bit_word_eqI) (auto simp: h_def bit_simps)
  then have "w = h + push_bit t 1" using w by (simp add: disjunctive_add_eq_or)
  moreover have "push_bit t 1 = (mask t :: uint32) + 1" by (simp add: mask_eq_exp_minus_1 push_bit_eq_mult)
  ultimately have "w - 1 = h + mask t" by simp
  moreover have "h AND mask t = 0"
    by (rule bit_word_eqI) (auto simp: h_def bit_simps)
  ultimately have "w - 1 = h OR mask t" by (simp add: disjunctive_add_eq_or)
  then show ?thesis using assms t by (auto simp: h_def bit_simps)
qed

lemma isolate_lowest_bit:
  fixes w :: uint32
  assumes "bit w t" "\<And>j. j < t \<Longrightarrow> \<not> bit w j"
  shows "w AND (NOT w + 1) = push_bit t 1"
proof -
  have m: "NOT w + 1 = NOT (w - 1)" by (simp add: not_eq_complement)
  show ?thesis
    unfolding m
    by (rule bit_word_eqI) (use assms bit_minus_1 [OF assms] in \<open>auto simp: bit_simps split: if_splits\<close>)
qed

lemma trailing_zeroes_bit:
  fixes w :: uint32
  assumes "bit w t" "\<And>j. j < t \<Longrightarrow> \<not> bit w j"
  shows "trailing_zeroes w = int t"
proof -
  have t: "t < 32" using assms(1) bit_imp_le_length [of w t] by simp
  define z where "z = (\<lambda>w :: uint32.
     let zeroes = 32 :: int;
         zeroes = (if w \<noteq> 0 then zeroes - 1 else zeroes);
         zeroes = (if w AND 0x0000FFFF \<noteq> 0 then zeroes - 16 else zeroes);
         zeroes = (if w AND 0x00FF00FF \<noteq> 0 then zeroes - 8 else zeroes);
         zeroes = (if w AND 0x0F0F0F0F \<noteq> 0 then zeroes - 4 else zeroes);
         zeroes = (if w AND 0x33333333 \<noteq> 0 then zeroes - 2 else zeroes);
         zeroes = (if w AND 0x55555555 \<noteq> 0 then zeroes - 1 else zeroes)
     in zeroes)"
  have z: "trailing_zeroes w = z (w AND (NOT w + 1))" for w
    by (simp only: trailing_zeroes_def z_def Let_def)
  have "list_all (\<lambda>t. z (push_bit t 1) = int t) [0..<32]"
    unfolding z_def by code_simp
  then have "z (push_bit t 1) = int t" using t by (simp add: list_all_iff)
  moreover have "w AND (NOT w + 1) = push_bit t 1"
    by (rule isolate_lowest_bit) (use assms in blast)+
  ultimately show ?thesis by (simp only: z)
qed

lemma htobe_ones: "htobe big 4 (0xFFFFFFFF :: uint32) = 0xFFFFFFFF"
proof -
  have "bswap 4 (0xFFFFFFFF :: uint32) = 0xFFFFFFFF" by code_simp
  then show ?thesis by (simp add: htobe_def)
qed

lemma host_load_ones:
  "length bs = 4 \<Longrightarrow> (host_load big bs :: uint32) = 0xFFFFFFFF \<longleftrightarrow> (of_be_bytes bs :: uint32) = 0xFFFFFFFF"
  using htobe_host_load [of 4 bs big, where 'a = 32] htobe_htobe [of 4 big "host_load big bs :: uint32"] htobe_ones [of big]
  by auto

lemma first_partial_word_eq:
  assumes "i \<le> p" "p \<le> i + k" "\<And>j. i \<le> j \<Longrightarrow> j < p \<Longrightarrow> (host_load big (take 4 (drop (4 * j) a)) :: uint32) = 0xFFFFFFFF"
    and "p < i + k \<Longrightarrow> (host_load big (take 4 (drop (4 * p) a)) :: uint32) \<noteq> 0xFFFFFFFF"
  shows "first_partial_word big a i k = p"
  using assms
proof (induction k arbitrary: i)
  case (Suc k)
  show ?case
  proof (cases "i = p")
    case True
    then show ?thesis using Suc.prems(4) by simp
  next
    case False
    then have "first_partial_word big a (Suc i) k = p"
      using Suc.prems by (intro Suc.IH) auto
    then show ?thesis using Suc.prems(1) Suc.prems(3) [of i] False by simp
  qed
qed simp

text \<open>The word that is counted, when its bits are the first \<open>n\<close>.\<close>

lemma trailing_zeroes_prefix:
  fixes w :: uint32
  assumes "n \<le> 32" "\<And>k. k < 32 \<Longrightarrow> bit w (31 - k) \<longleftrightarrow> k < n"
  shows "(if w = 0 then b else b + (32 - trailing_zeroes w)) = b + int n"
proof -
  have b: "bit w j \<longleftrightarrow> 32 - n \<le> j" if "j < 32" for j
  proof -
    have "31 - (31 - j) = j" "31 - j < 32" using that by simp_all
    then show ?thesis using assms(2) [of "31 - j"] assms(1) that by auto
  qed
  show ?thesis
  proof (cases "n = 0")
    case True
    have "w = 0" by (rule bit_word_eqI) (use b True in simp)
    then show ?thesis using True by simp
  next
    case False
    then have "bit w (32 - n)" using b [of "32 - n"] assms(1) by simp
    moreover have "\<not> bit w j" if "j < 32 - n" for j using b [of j] that by simp
    ultimately have "trailing_zeroes w = int (32 - n)" "w \<noteq> 0"
      using trailing_zeroes_bit [of w "32 - n"] by auto
    then show ?thesis using assms(1) by (simp add: of_nat_diff)
  qed
qed

lemma all_ones_iff: "w = 0xFFFFFFFF \<longleftrightarrow> (\<forall>k < 32. bit w (31 - k))" for w :: uint32
proof
  have m: "(0xFFFFFFFF :: uint32) = mask 32" by (simp add: mask_eq_exp_minus_1)
  show "w = 0xFFFFFFFF \<Longrightarrow> \<forall>k < 32. bit w (31 - k)" unfolding m by (auto simp: bit_simps)
  assume a: "\<forall>k < 32. bit w (31 - k)"
  show "w = 0xFFFFFFFF"
    unfolding m
  proof (rule bit_word_eqI)
    fix j assume "j < LENGTH(32)"
    then have "31 - (31 - j) = j" "31 - j < 32" "j < 32" by simp_all
    then have "bit w j" "bit (mask 32 :: uint32) j" using a by (metis, simp add: bit_simps)
    then show "bit w j = bit (mask 32 :: uint32) j" by simp
  qed
qed

lemma addr_word_bits:
  assumes "4 * i + 4 \<le> length a" "k < 32"
  shows "bit (of_be_bytes (take 4 (drop (4 * i) a)) :: uint32) (31 - k) \<longleftrightarrow> addr_bit a (32 * i + k)"
  using addr_bit_word [OF assms(1), of "32 * i + k"] assms(2) by simp

lemma CountIPMaskBits_prefix_aux:
  assumes wf: "ip_wf ip" and n: "n \<le> 8 * ip_size ip"
    and bits: "\<And>k. k < 8 * ip_size ip \<Longrightarrow> addr_bit (u ip) k \<longleftrightarrow> k < n"
  shows "CountIPMaskBits big ip = int n"
proof -
  have l: "length (u ip) = 16" using wf by (simp add: ip_wf_def)
  define W where "W i = (of_be_bytes (take 4 (drop (4 * i) (u ip))) :: uint32)" for i
  consider "family ip = AF_INET" | "family ip = AF_INET6" | "family ip = AF_UNSPEC"
    using wf by (cases "family ip") (simp_all add: ip_wf_def)
  then show ?thesis
  proof cases
    case 1
    then have n32: "n \<le> 32" "\<And>k. k < 32 \<Longrightarrow> bit (W 0) (31 - k) \<longleftrightarrow> k < n"
      using n bits addr_word_bits [of 0 "u ip"] l by (simp_all add: ip_size_def W_def)
    have "ntoh_word big 0 (getIPv4Address ip) = W 0"
      using l by (simp add: ntoh_word_be getIPv4Address_def W_def)
    then show ?thesis
      using 1 trailing_zeroes_prefix [OF n32, of 0] by (simp add: CountIPMaskBits_def Let_def)
  next
    case 2
    then have n128: "n \<le> 128" and b128: "\<And>k. k < 128 \<Longrightarrow> addr_bit (u ip) k \<longleftrightarrow> k < n"
      using n bits by (simp_all add: ip_size_def)
    have Wb: "bit (W i) (31 - k) \<longleftrightarrow> 32 * i + k < n" if "i < 4" "k < 32" for i k
      using addr_word_bits [of i "u ip" k] b128 [of "32 * i + k"] l that by (simp add: W_def)
    define p where "p = n div 32"
    have p: "n = 32 * p + n mod 32" "n mod 32 < 32" "p \<le> 4"
      using n128 div_le_mono [of n 128 32] by (simp_all add: p_def)
    have ones: "(host_load big (take 4 (drop (4 * i) (u ip))) :: uint32) = 0xFFFFFFFF \<longleftrightarrow> 32 * i + 32 \<le> n"
      if "i < 4" for i
    proof -
      have "(host_load big (take 4 (drop (4 * i) (u ip))) :: uint32) = 0xFFFFFFFF \<longleftrightarrow> W i = 0xFFFFFFFF"
        unfolding W_def by (rule host_load_ones) (use that l in simp)
      also have "\<dots> \<longleftrightarrow> (\<forall>k < 32. bit (W i) (31 - k))" by (rule all_ones_iff)
      also have "\<dots> \<longleftrightarrow> (\<forall>k < 32. 32 * i + k < n)" using Wb that by simp
      also have "\<dots> \<longleftrightarrow> 32 * i + 32 \<le> n" by presburger
      finally show ?thesis .
    qed
    have f: "first_partial_word big (u ip) 0 4 = p"
    proof (rule first_partial_word_eq)
      show "(host_load big (take 4 (drop (4 * j) (u ip))) :: uint32) = 0xFFFFFFFF" if "0 \<le> j" "j < p" for j
        using ones [of j] that p by linarith
      show "(host_load big (take 4 (drop (4 * p) (u ip))) :: uint32) \<noteq> 0xFFFFFFFF" if "p < 0 + 4"
        using ones [of p] that p by linarith
    qed (use p in simp_all)
    show ?thesis
    proof (cases "p < 4")
      case True
      have "bit (W p) (31 - k) \<longleftrightarrow> k < n mod 32" if "k < 32" for k
        using Wb [OF True that] p by linarith
      from trailing_zeroes_prefix [OF less_imp_le [OF p(2)] this, of "int (p * 32)"]
      have "(if W p = 0 then int (p * 32) else int (p * 32) + (32 - trailing_zeroes (W p))) = int n"
        using p(1) by simp
      moreover have "ntoh_word big p (u ip) = W p"
        using True l by (simp add: ntoh_word_be W_def)
      ultimately show ?thesis
        using 2 True by (simp only: CountIPMaskBits_def Let_def getIPv6Address_def f AF.case if_True)
    next
      case False
      then show ?thesis
        using 2 f p n128 by (simp add: CountIPMaskBits_def Let_def getIPv6Address_def)
    qed
  next
    case 3
    then show ?thesis using n by (simp add: CountIPMaskBits_def ip_size_def)
  qed
qed

section \<open>Properties\<close>

text \<open>Property C15: the operators are a strict linear order on the addresses that the constructors make,
  \<open>operator==\<close> is equality on them, and \<open>operator>\<close> is the converse of \<open>operator<\<close>, on either kind of host.\<close>

theorem ip_operators_order:
  assumes "ip_wf a" "ip_wf b" "ip_wf c"
  shows "(ip_eq a b \<longleftrightarrow> a = b) \<and> \<not> ip_less big a a \<and>
    (ip_less big a b \<or> a = b \<or> ip_less big b a) \<and> (ip_less big a b \<longrightarrow> \<not> ip_less big b a) \<and>
    (ip_less big a b \<longrightarrow> ip_less big b c \<longrightarrow> ip_less big a c) \<and>
    (ip_greater big a b \<longleftrightarrow> ip_less big b a)"
proof -
  have "ip_key a = ip_key b \<longleftrightarrow> a = b" using ip_key_inj assms by blast
  then show ?thesis
    using assms linorder_less_linear [of "ip_key a" "ip_key b"]
    by (auto simp: ip_eq_wf ip_less_key ip_greater_def dest: order.strict_trans)
qed

lemma ip_operators_order_witness:
  "ip_less True IP_default (IP_of_in_addr [10, 0, 0, 1])"
  using ip_operators_order [of IP_default "IP_of_in_addr [10, 0, 0, 1]" IP_default True]
  by (simp add: ip_less_def IP_default_def IP_of_in_addr_def)

text \<open>Property C14: truncating an address to a prefix length keeps the bits of the prefix, clears all the
  others, keeps the family, and gives a well-formed address; a negative length gives the unspecified one.\<close>

theorem TruncateIP_prefix:
  assumes "ip_wf ip" "family ip \<noteq> AF_UNSPEC"
  shows "ip_wf (TruncateIP big ip len) \<and>
    (if len < 0 then TruncateIP big ip len = IP_default
     else family (TruncateIP big ip len) = family ip \<and>
          (\<forall>k < 8 * ip_size ip.
             addr_bit (u (TruncateIP big ip len)) k \<longleftrightarrow> int k < len \<and> addr_bit (u ip) k))"
proof (cases "len < 0")
  case True
  then show ?thesis by (simp add: TruncateIP_def)
next
  case False
  then have len: "0 \<le> len" by simp
  consider "family ip = AF_INET" | "family ip = AF_INET6"
    using assms by (cases "family ip") (simp_all add: ip_wf_def)
  then show ?thesis
  proof cases
    case 1
    from TruncateIP_v4 [OF assms(1) 1 len, of big] obtain w :: uint32 where
      w: "TruncateIP big ip len = IP_of_in_addr (be_bytes 4 w)"
        "\<forall>k < 32. bit w (31 - k) \<longleftrightarrow> int k < len \<and> addr_bit (u ip) k" by blast
    have "family (IP_of_in_addr (be_bytes 4 w)) = AF_INET" by (simp add: IP_of_in_addr_def)
    then show ?thesis
      using w 1 len by (simp add: ip_size_def u_of_in_addr addr_bit_append addr_bit_be_bytes)
  next
    case 2
    from TruncateIP_v6 [OF assms(1) 2 len, of big] obtain a where
      a: "TruncateIP big ip len = IP_of_in6_addr a" "length a = 16"
        "\<forall>k < 128. addr_bit a k \<longleftrightarrow> int k < len \<and> addr_bit (u ip) k" by blast
    have "family (IP_of_in6_addr a) = AF_INET6" "u (IP_of_in6_addr a) = a"
      by (simp_all add: IP_of_in6_addr_def)
    then show ?thesis using a 2 len by (simp add: ip_size_def)
  qed
qed

lemma TruncateIP_prefix_witness:
  "addr_bit (u (TruncateIP False (IP_of_in_addr [255, 255, 255, 255]) 9)) 8 \<and>
   \<not> addr_bit (u (TruncateIP False (IP_of_in_addr [255, 255, 255, 255]) 9)) 9"
proof -
  have "ip_wf (IP_of_in_addr [255, 255, 255, 255])" "family (IP_of_in_addr [255, 255, 255, 255]) \<noteq> AF_UNSPEC"
    by (simp, simp add: IP_of_in_addr_def)
  note T = TruncateIP_prefix [OF this, of False 9]
  have s: "ip_size (IP_of_in_addr [255, 255, 255, 255]) = 4"
    by (simp add: ip_size_def IP_of_in_addr_def)
  have "addr_bit (u (IP_of_in_addr [255, 255, 255, 255])) 8" by code_simp
  then show ?thesis using T by (simp add: s)
qed

text \<open>The number of mask bits of an address whose one bits are exactly the first \<open>n\<close> is \<open>n\<close>,
  for the four bytes of IPv4 and the four words of IPv6.\<close>

theorem CountIPMaskBits_prefix:
  assumes "ip_wf ip" "n \<le> 8 * ip_size ip" "\<forall>k < 8 * ip_size ip. addr_bit (u ip) k \<longleftrightarrow> k < n"
  shows "CountIPMaskBits big ip = int n"
  by (rule CountIPMaskBits_prefix_aux) (use assms in blast)+

lemma CountIPMaskBits_prefix_witness:
  "CountIPMaskBits True (IP_of_in_addr [255, 240, 0, 0]) = 12"
proof -
  have "CountIPMaskBits True (IP_of_in_addr [255, 240, 0, 0]) = int 12"
  proof (rule CountIPMaskBits_prefix)
    show "\<forall>k < 8 * ip_size (IP_of_in_addr [255, 240, 0, 0]).
        addr_bit (u (IP_of_in_addr [255, 240, 0, 0])) k \<longleftrightarrow> k < 12"
      by code_simp
  qed (simp_all add: ip_size_def IP_of_in_addr_def ip_wf_def memcpy_def)
  then show ?thesis by simp
qed

text \<open>An IPv4 address survives the way through the IPv6 form: the mapped address is recognised
  by its prefix, and \<open>normalized\<close> gives back the address.\<close>

theorem normalized_asIPv6:
  assumes "ip_wf ip" "family ip = AF_INET"
  shows "normalized (asIPv6Address ip) = ip \<and> IPIsV4Mapped (asIPv6Address ip) \<and> ip_wf (asIPv6Address ip)"
proof -
  have l: "length (u ip) = 16" and d: "drop 4 (u ip) = replicate 12 0"
    using assms by (simp_all add: ip_wf_def)
  have m: "memcpy kV4MappedPrefix 12 (getIPv4Address ip) = take 12 kV4MappedPrefix @ take 4 (u ip)"
    using l by (simp add: memcpy_def kV4MappedPrefix_def getIPv4Address_def)
  have len: "length (take 12 kV4MappedPrefix @ take 4 (u ip)) = 16"
    using l by (simp add: kV4MappedPrefix_def)
  have "take 12 (take 12 kV4MappedPrefix @ take 4 (u ip)) = take 12 kV4MappedPrefix"
    by (simp add: kV4MappedPrefix_def)
  moreover have "length kV4MappedPrefix = 16" by (simp add: kV4MappedPrefix_def)
  ultimately have "memcmp (take 12 kV4MappedPrefix @ take 4 (u ip)) kV4MappedPrefix 12 = 0"
    using l by (simp add: memcmp_take_0)
  then have M: "IPIsV4Mapped (asIPv6Address ip)"
    using assms(2) m
    by (simp add: IPIsV4Mapped_def IPIsHelper_def asIPv6Address_def getIPv6Address_def IP_of_in6_addr_def drop_bit_eq_div)
  have "ip = IP_of_in_addr (take 4 (u ip))"
  proof -
    have "u (IP_of_in_addr (take 4 (u ip))) = take 4 (u ip) @ drop 4 (u ip)"
      using l d by (simp add: u_of_in_addr del: append_take_drop_id)
    then show ?thesis using assms(2) by (simp add: IP_of_in_addr_def)
  qed
  moreover have "ExtractMappedAddress (u (asIPv6Address ip)) = take 4 (u ip)"
  proof -
    have "length (take 12 kV4MappedPrefix) = 12" by (simp add: kV4MappedPrefix_def)
    then show ?thesis
      using assms(2) l m by (simp add: ExtractMappedAddress_def asIPv6Address_def IP_of_in6_addr_def)
  qed
  moreover have "family (asIPv6Address ip) = AF_INET6"
    using assms(2) by (simp add: asIPv6Address_def IP_of_in6_addr_def)
  ultimately have "normalized (asIPv6Address ip) = ip" using M by (simp add: normalized_def)
  moreover have "ip_wf (asIPv6Address ip)"
    using assms(2) len by (simp add: asIPv6Address_def m)
  ultimately show ?thesis using M by simp
qed

lemma normalized_asIPv6_witness:
  "normalized (asIPv6Address (IP_of_in_addr [192, 168, 0, 7])) = IP_of_in_addr [192, 168, 0, 7]"
  using normalized_asIPv6 [of "IP_of_in_addr [192, 168, 0, 7]"] by (simp add: IP_of_in_addr_def ip_wf_def memcpy_def)

text \<open>For an IPv4 mask the count is the position of its last one bit, whatever comes before it:
  the zeros inside a mask with gaps are counted too.\<close>

theorem CountIPMaskBits_last_one:
  assumes "bit w t" "\<forall>j < t. \<not> bit w j"
  shows "CountIPMaskBits big (IP_of_host big w) = 32 - int t"
proof -
  have t: "trailing_zeroes w = int t" by (rule trailing_zeroes_bit) (use assms in blast)+
  moreover have "w \<noteq> 0" using assms(1) by auto
  moreover have "ntoh_word big 0 (getIPv4Address (IP_of_host big w)) = w"
    by (simp add: ntoh_word_be getIPv4Address_def IP_of_host_in_addr u_of_in_addr of_be_be_bytes)
  moreover have "family (IP_of_host big w) = AF_INET" by (simp add: IP_of_host_def)
  ultimately show ?thesis by (simp add: CountIPMaskBits_def Let_def)
qed

lemma CountIPMaskBits_last_one_witness:
  "CountIPMaskBits False (IP_of_host False 0xFF00FF00) = 24"
proof -
  have "bit (0xFF00FF00 :: uint32) 8" "\<forall>j < 8. \<not> bit (0xFF00FF00 :: uint32) j" by code_simp+
  then show ?thesis using CountIPMaskBits_last_one [of "0xFF00FF00" 8 False] by simp
qed

end
