(* ===== verification/Hex_Url.thy ===== *)
theory Hex_Url
  imports Std_String
begin

text \<open>
  Model of \<^verbatim>\<open>src/src/hex_encode.cpp\<close> and \<^verbatim>\<open>src/src/url_encode.cpp\<close>. The functions write to a buffer of
  the caller; a store outside of the buffer is the result \<open>None\<close>. What a function returns is the
  buffer and the number of bytes. The loops run over the rest of the source.
\<close>

section \<open>Hexadecimal text\<close>

definition HexEncode_char :: "byte \<Rightarrow> byte" where
  "HexEncode_char val = (if val < 16 then of_char (hex_digits ! unat val) else 33)"

text \<open>The character codes are those of \<open>'0'\<close>, \<open>'9'\<close>, \<open>'A'\<close>, \<open>'Z'\<close>, \<open>'a'\<close>, \<open>'z'\<close>; \<open>None\<close> is the result false.\<close>

definition HexDecode_char :: "byte \<Rightarrow> byte option" where
  "HexDecode_char ch =
     (if ch \<ge> 48 \<and> ch \<le> 57 then Some (ch - 48)
      else if ch \<ge> 65 \<and> ch \<le> 90 then Some (ch - 65 + 10)
      else if ch \<ge> 97 \<and> ch \<le> 122 then Some (ch - 97 + 10)
      else None)"

fun HexEncode_loop :: "byte \<Rightarrow> byte list \<Rightarrow> byte list \<Rightarrow> nat \<Rightarrow> (byte list \<times> nat) option" where
  "HexEncode_loop delimiter [] buffer bufpos = Some (buffer, bufpos)"
| "HexEncode_loop delimiter (ch # rest) buffer bufpos =
     Option.bind (put buffer bufpos (HexEncode_char (drop_bit 4 ch AND 0xF))) (\<lambda>buffer.
     Option.bind (put buffer (bufpos + 1) (HexEncode_char (ch AND 0xF))) (\<lambda>buffer.
       if delimiter \<noteq> 0 \<and> rest \<noteq> []
       then Option.bind (put buffer (bufpos + 2) delimiter) (\<lambda>buffer.
              HexEncode_loop delimiter rest buffer (bufpos + 2 + 1))
       else HexEncode_loop delimiter rest buffer (bufpos + 2)))"

definition HexEncodeWithDelimiter_buffer ::
  "byte list \<Rightarrow> nat \<Rightarrow> byte list \<Rightarrow> byte \<Rightarrow> (byte list \<times> nat) option" where
  "HexEncodeWithDelimiter_buffer buffer buflen source delimiter =
     (if buflen = 0 then Some (buffer, 0)
      else let needed = (if delimiter \<noteq> 0 then length source * 3 else length source * 2 + 1)
           in if buflen < needed then Some (buffer, 0)
              else Option.bind (HexEncode_loop delimiter source buffer 0) (\<lambda>(buffer, bufpos).
                   Option.bind (put buffer bufpos 0) (\<lambda>buffer. Some (buffer, bufpos))))"

text \<open>The functions that return a string; what \<^verbatim>\<open>malloc\<close> left in the buffer is \<open>junk\<close>.\<close>

definition HexEncodeWithDelimiter :: "(nat \<Rightarrow> byte list) \<Rightarrow> byte list \<Rightarrow> byte \<Rightarrow> byte list option" where
  "HexEncodeWithDelimiter junk source delimiter =
     (let kBufferSize = length source * 3
      in Option.bind (HexEncodeWithDelimiter_buffer (junk kBufferSize) kBufferSize source delimiter)
           (\<lambda>(buffer, len). Some (take len buffer)))"

definition HexEncode :: "(nat \<Rightarrow> byte list) \<Rightarrow> byte list \<Rightarrow> byte list option" where
  "HexEncode junk str = HexEncodeWithDelimiter junk str 0"

fun HexDecode_loop :: "byte \<Rightarrow> byte list \<Rightarrow> byte list \<Rightarrow> nat \<Rightarrow> (byte list \<times> nat) option" where
  "HexDecode_loop delimiter [] buffer bufpos = Some (buffer, bufpos)"
| "HexDecode_loop delimiter [c] buffer bufpos = Some (buffer, 0)"
| "HexDecode_loop delimiter (c1 # c2 # rest) buffer bufpos =
     (case (HexDecode_char c1, HexDecode_char c2) of
        (Some h1, Some h2) \<Rightarrow>
          Option.bind (put buffer bufpos (push_bit 4 h1 OR h2)) (\<lambda>buffer.
            if delimiter \<noteq> 0 \<and> length rest > 1
            then if hd rest \<noteq> delimiter then Some (buffer, 0)
                 else HexDecode_loop delimiter (tl rest) buffer (bufpos + 1)
            else HexDecode_loop delimiter rest buffer (bufpos + 1))
      | _ \<Rightarrow> Some (buffer, 0))"

definition HexDecodeWithDelimiter_buffer ::
  "byte list \<Rightarrow> nat \<Rightarrow> byte list \<Rightarrow> byte \<Rightarrow> (byte list \<times> nat) option" where
  "HexDecodeWithDelimiter_buffer buffer buflen source delimiter =
     (if buflen = 0 then Some (buffer, 0)
      else let needed = (if delimiter \<noteq> 0 then (length source + 1) div 3 else length source div 2)
           in if buflen < needed then Some (buffer, 0)
              else HexDecode_loop delimiter source buffer 0)"

definition HexDecode :: "(nat \<Rightarrow> byte list) \<Rightarrow> byte list \<Rightarrow> byte list option" where
  "HexDecode junk str =
     (if length str = 0 then Some []
      else let kBufferSize = length str
           in Option.bind (HexDecodeWithDelimiter_buffer (junk kBufferSize) kBufferSize str 0)
                (\<lambda>(buffer, dstSize). Some (take dstSize buffer)))"

section \<open>URLs\<close>

definition unreserved :: "byte \<Rightarrow> bool" where
  "unreserved cc \<longleftrightarrow>
     cc \<ge> 65 \<and> cc \<le> 90 \<or> cc \<ge> 97 \<and> cc \<le> 122 \<or> cc \<ge> 48 \<and> cc \<le> 57 \<or> cc = 46 \<or>
     cc = 95 \<or> cc = 45 \<or> cc = 42 \<or> cc = 126"

definition url_hex :: "byte list" where
  "url_hex = map of_char ''0123456789ABCDEF''"

definition UrlEncode :: "byte list \<Rightarrow> byte list" where
  "UrlEncode str =
     fold (\<lambda>c dst. if unreserved c then dst @ [c]
                   else dst @ [37] @ [url_hex ! unat (c div 16)] @ [url_hex ! unat (c mod 16)]) str []"

fun UrlDecode_loop :: "nat \<Rightarrow> byte list \<Rightarrow> byte list \<Rightarrow> nat \<Rightarrow> (byte list \<times> nat) option" where
  "UrlDecode_loop buflen [] buffer bufpos = Some (buffer, bufpos)"
| "UrlDecode_loop buflen (ch # rest) buffer bufpos =
     (if bufpos + 1 < buflen
      then if ch = 43 then Option.bind (put buffer bufpos 32) (\<lambda>buffer. UrlDecode_loop buflen rest buffer (bufpos + 1))
           else case rest of
               c1 # c2 # rest' \<Rightarrow>
                 (case (HexDecode_char c1, HexDecode_char c2) of
                    (Some h1, Some h2) \<Rightarrow>
                      if ch = 37
                      then Option.bind (put buffer bufpos (push_bit 4 h1 OR h2)) (\<lambda>buffer.
                             UrlDecode_loop buflen rest' buffer (bufpos + 1))
                      else Option.bind (put buffer bufpos ch) (\<lambda>buffer. UrlDecode_loop buflen rest buffer (bufpos + 1))
                  | _ \<Rightarrow> Option.bind (put buffer bufpos ch) (\<lambda>buffer. UrlDecode_loop buflen rest buffer (bufpos + 1)))
             | _ \<Rightarrow> Option.bind (put buffer bufpos ch) (\<lambda>buffer. UrlDecode_loop buflen rest buffer (bufpos + 1))
      else Some (buffer, bufpos))"

text \<open>A null buffer is \<open>None\<close>: then only the number of bytes is returned.\<close>

definition UrlDecode_buffer ::
  "byte list option \<Rightarrow> nat \<Rightarrow> byte list \<Rightarrow> (byte list \<times> nat) option" where
  "UrlDecode_buffer buffer buflen source =
     (case buffer of
        None \<Rightarrow> Some ([], length source + 1)
      | Some buffer \<Rightarrow>
          if buflen \<le> 0 then Some (buffer, 0)
          else Option.bind (UrlDecode_loop buflen source buffer 0) (\<lambda>(buffer, bufpos).
               Option.bind (put buffer bufpos 0) (\<lambda>buffer. Some (buffer, bufpos))))"

definition s_transform ::
  "(nat \<Rightarrow> byte list) \<Rightarrow> byte list \<Rightarrow> (byte list option \<Rightarrow> nat \<Rightarrow> byte list \<Rightarrow> (byte list \<times> nat) option) \<Rightarrow>
   byte list option" where
  "s_transform junk source t =
     Option.bind (t None 0 source) (\<lambda>(_, maxlen).
     Option.bind (t (Some (junk maxlen)) maxlen source) (\<lambda>(buffer, len). Some (take len buffer)))"

definition UrlDecode :: "(nat \<Rightarrow> byte list) \<Rightarrow> byte list \<Rightarrow> byte list option" where
  "UrlDecode junk source = s_transform junk source UrlDecode_buffer"

section \<open>Digits\<close>

definition hex_pair :: "byte \<Rightarrow> byte list" where
  "hex_pair b = [HexEncode_char (drop_bit 4 b AND 0xF), HexEncode_char (b AND 0xF)]"

lemma nibbles: "push_bit 4 (drop_bit 4 b AND 0xF) OR (b AND 0xF) = b" "b AND 0xF < 16" "drop_bit 4 b AND 0xF < 16"
  "b div 16 = drop_bit 4 b AND 0xF" "b mod 16 = b AND 0xF"
  for b :: byte
proof -
  have m: "(0xF :: byte) = mask 4" by (simp add: mask_eq_exp_minus_1)
  show "push_bit 4 (drop_bit 4 b AND 0xF) OR (b AND 0xF) = b"
    unfolding m by (rule bit_word_eqI) (auto simp: bit_simps)
  show "b AND 0xF < 16" "drop_bit 4 b AND 0xF < 16"
    using and_mask_less' [of 4 b] and_mask_less' [of 4 "drop_bit 4 b"] by (simp_all add: m)
  show "b mod 16 = b AND 0xF"
    unfolding m using take_bit_eq_mod [of 4 b] by (simp add: take_bit_eq_mask)
  have "drop_bit 4 b AND mask 4 = drop_bit 4 b" by (rule bit_word_eqI) (auto simp: bit_simps dest: bit_byte_8)
  then show "b div 16 = drop_bit 4 b AND 0xF"
    unfolding m using drop_bit_eq_div [of 4 b] by simp
qed

lemma digit_back:
  assumes "h < 16"
  shows "HexDecode_char (HexEncode_char h) = Some h" "HexDecode_char (url_hex ! unat h) = Some h"
proof -
  have "list_all (\<lambda>n. HexDecode_char (HexEncode_char (of_nat n)) = Some (of_nat n)) [0..<16]"
    "list_all (\<lambda>n. HexDecode_char (url_hex ! n) = Some (of_nat n)) [0..<16]"
    by code_simp+
  moreover have "unat h < 16" using assms by (simp add: word_less_nat_alt)
  ultimately have "HexDecode_char (HexEncode_char (of_nat (unat h))) = Some (of_nat (unat h))"
    "HexDecode_char (url_hex ! unat h) = Some (of_nat (unat h))"
    by (simp_all add: list_all_iff del: of_nat_unat)
  then show "HexDecode_char (HexEncode_char h) = Some h" "HexDecode_char (url_hex ! unat h) = Some h"
    by simp_all
qed

section \<open>Encoding\<close>

definition hex_text :: "byte \<Rightarrow> byte list \<Rightarrow> byte list" where
  "hex_text delimiter bytes = join_with (if delimiter \<noteq> 0 then [delimiter] else []) (map hex_pair bytes)"

lemma hex_text_simps:
  "hex_text d [] = []"
  "hex_text d (b # bs) = hex_pair b @ (if d \<noteq> 0 \<and> bs \<noteq> [] then [d] else []) @ hex_text d bs"
  by (cases bs; simp add: hex_text_def)+

lemma length_hex_pair [simp]: "length (hex_pair b) = 2"
  by (simp add: hex_pair_def)

lemma length_hex_text:
  "length (hex_text d bs) = (if d \<noteq> 0 then 3 * length bs - (if bs = [] then 0 else 1) else 2 * length bs)"
  by (induction bs) (auto simp: hex_text_simps)

lemma HexEncode_loop_text:
  assumes "length (hex_text d bs) \<le> length s"
  shows "HexEncode_loop d bs (p @ s) (length p) =
    Some (p @ hex_text d bs @ drop (length (hex_text d bs)) s, length p + length (hex_text d bs))"
  using assms
proof (induction bs arbitrary: p s)
  case Nil
  then show ?case by (simp add: hex_text_simps)
next
  case (Cons b bs)
  obtain x y where xy: "hex_pair b = [x, y]" "HexEncode_char (drop_bit 4 b AND 0xF) = x" "HexEncode_char (b AND 0xF) = y"
    by (simp add: hex_pair_def)
  from Cons.prems obtain s1 s2 s3 where s: "s = s1 # s2 # s3"
    by (auto simp: hex_text_simps xy Suc_le_length_iff)
  have p1: "put (p @ s1 # s2 # s3) (length p) x = Some ((p @ [x]) @ s2 # s3)"
    by (rule put_append) simp
  have p2: "put ((p @ [x]) @ s2 # s3) (length p + 1) y = Some ((p @ [x, y]) @ s3)"
    using put_append [of "p @ [x]" "length p + 1" s2 s3 y] by simp
  show ?case
  proof (cases "d \<noteq> 0 \<and> bs \<noteq> []")
    case False
    then have e: "hex_text d (b # bs) = [x, y] @ hex_text d bs" by (auto simp: hex_text_simps xy)
    have "HexEncode_loop d (b # bs) (p @ s) (length p) = HexEncode_loop d bs ((p @ [x, y]) @ s3) (length (p @ [x, y]))"
      using False by (auto simp: s xy(2,3) p1 [simplified] p2 [simplified])
    also have "\<dots> = Some ((p @ [x, y]) @ hex_text d bs @ drop (length (hex_text d bs)) s3,
        length (p @ [x, y]) + length (hex_text d bs))"
      using Cons.prems e s by (intro Cons.IH) simp
    finally show ?thesis using e s by simp
  next
    case True
    then have e: "hex_text d (b # bs) = [x, y, d] @ hex_text d bs" by (auto simp: hex_text_simps xy)
    from Cons.prems e s obtain s4 s5 where s3: "s3 = s4 # s5" by (cases s3) auto
    have p3: "put ((p @ [x, y]) @ s4 # s5) (length p + 2) d = Some ((p @ [x, y, d]) @ s5)"
      using put_append [of "p @ [x, y]" "length p + 2" s4 s5 d] by simp
    have "HexEncode_loop d (b # bs) (p @ s) (length p) = HexEncode_loop d bs ((p @ [x, y, d]) @ s5) (length (p @ [x, y, d]))"
      using True by (simp add: s s3 xy(2,3) p1 [unfolded s3, simplified] p2 [unfolded s3, simplified] p3 [simplified])
    also have "\<dots> = Some ((p @ [x, y, d]) @ hex_text d bs @ drop (length (hex_text d bs)) s5,
        length (p @ [x, y, d]) + length (hex_text d bs))"
      using Cons.prems e s s3 by (intro Cons.IH) simp
    finally show ?thesis using e s s3 by simp
  qed
qed

lemma HexEncodeWithDelimiter_buffer_text:
  assumes "length buffer = buflen" "buflen \<noteq> 0" "(if d \<noteq> 0 then 3 * length bs else 2 * length bs + 1) \<le> buflen"
  shows "\<exists>rest. HexEncodeWithDelimiter_buffer buffer buflen bs d =
    Some (hex_text d bs @ 0 # rest, length (hex_text d bs)) \<and> Suc (length (hex_text d bs) + length rest) = buflen"
proof -
  let ?t = "hex_text d bs"
  have l: "length ?t < buflen"
    using assms(2,3) by (cases bs) (auto simp: length_hex_text split: if_splits)
  then obtain x rest where x: "drop (length ?t) buffer = x # rest"
    using assms(1) by (metis Cons_nth_drop_Suc)
  have "length (x # rest) = buflen - length ?t" unfolding x [symmetric] using assms(1) by simp
  then have lr: "Suc (length ?t + length rest) = buflen" using l by simp
  have "HexEncode_loop d bs buffer 0 = Some (?t @ x # rest, length ?t)"
    using HexEncode_loop_text [of d bs buffer "[]"] l assms(1) x by simp
  then have "HexEncodeWithDelimiter_buffer buffer buflen bs d = Some (?t @ 0 # rest, length ?t)"
    using assms(2,3) put_append [of ?t "length ?t" x rest 0]
    by (auto simp: HexEncodeWithDelimiter_buffer_def Let_def mult.commute)
  with lr show ?thesis by blast
qed

lemma HexEncodeWithDelimiter_text:
  assumes "\<And>n. length (junk n) = n"
  shows "HexEncodeWithDelimiter junk bs d = Some (hex_text d bs)"
proof (cases "bs = []")
  case True
  then show ?thesis
    by (simp add: HexEncodeWithDelimiter_def HexEncodeWithDelimiter_buffer_def hex_text_simps)
next
  case False
  have "(if d \<noteq> 0 then 3 * length bs else 2 * length bs + 1) \<le> length bs * 3" "length bs * 3 \<noteq> 0"
    using False by (cases bs; simp)+
  with HexEncodeWithDelimiter_buffer_text [of "junk (length bs * 3)" "length bs * 3" d bs] assms
  show ?thesis by (auto simp: HexEncodeWithDelimiter_def Let_def)
qed

section \<open>Decoding\<close>

lemma HexDecode_loop_text:
  assumes "length bs \<le> length s"
  shows "HexDecode_loop d (hex_text d bs) (p @ s) (length p) = Some (p @ bs @ drop (length bs) s, length p + length bs)"
  using assms
proof (induction bs arbitrary: p s)
  case Nil
  then show ?case by (simp add: hex_text_simps)
next
  case (Cons b bs)
  from Cons.prems obtain x s' where s: "s = x # s'" by (cases s) auto
  define h1 h2 where "h1 = HexEncode_char (drop_bit 4 b AND 0xF)" and "h2 = HexEncode_char (b AND 0xF)"
  have h: "HexDecode_char h1 = Some (drop_bit 4 b AND 0xF)" "HexDecode_char h2 = Some (b AND 0xF)" "hex_pair b = [h1, h2]"
    by (simp_all add: h1_def h2_def digit_back(1) [OF nibbles(2)] digit_back(1) [OF nibbles(3)] hex_pair_def)
  have pt: "put (p @ s) (length p) (push_bit 4 (drop_bit 4 b AND 0xF) OR (b AND 0xF)) = Some ((p @ [b]) @ s')"
    unfolding nibbles(1) s by (rule put_append) simp
  have IH: "HexDecode_loop d (hex_text d bs) ((p @ [b]) @ s') (length (p @ [b])) =
      Some ((p @ [b]) @ bs @ drop (length bs) s', length (p @ [b]) + length bs)"
    using Cons.prems s by (intro Cons.IH) simp
  have gt: "bs \<noteq> [] \<Longrightarrow> length (hex_text d bs) > 1" by (cases bs) (auto simp: length_hex_text)
  show ?case
  proof (cases "d \<noteq> 0 \<and> bs \<noteq> []")
    case True
    then have "hex_text d (b # bs) = h1 # h2 # d # hex_text d bs" by (simp add: hex_text_simps h)
    moreover have "1 < length (d # hex_text d bs)" using gt True by (cases "hex_text d bs") auto
    ultimately show ?thesis using True h(1,2) pt IH s by (cases "hex_text d bs") auto
  next
    case False
    then have e: "hex_text d (b # bs) = h1 # h2 # hex_text d bs" by (auto simp: hex_text_simps h)
    have "\<not> (d \<noteq> 0 \<and> length (hex_text d bs) > 1)" using False by (auto simp: hex_text_simps)
    then show ?thesis using e h(1,2) pt IH s by auto
  qed
qed

lemma HexDecode_loop_total:
  "bufpos + (if d \<noteq> 0 then (length src + 1) div 3 else length src div 2) \<le> length buffer \<Longrightarrow>
   \<exists>buffer' n. HexDecode_loop d src buffer bufpos = Some (buffer', n) \<and> length buffer' = length buffer \<and> n \<le> length buffer"
proof (induction d src buffer bufpos rule: HexDecode_loop.induct)
  case (3 d c1 c2 rest buffer bufpos)
  show ?case
  proof (cases "HexDecode_char c1 = None \<or> HexDecode_char c2 = None")
    case True
    then show ?thesis by (auto split: option.splits)
  next
    case False
    then obtain h1 h2 where h: "HexDecode_char c1 = Some h1" "HexDecode_char c2 = Some h2" by auto
    have b: "bufpos < length buffer" using "3.prems" by (auto split: if_splits)
    then have p: "put buffer bufpos (push_bit 4 h1 OR h2) = Some (buffer[bufpos := push_bit 4 h1 OR h2])"
      by (simp add: put_def)
    show ?thesis
    proof (cases "d \<noteq> 0 \<and> length rest > 1")
      case True
      then show ?thesis
        using "3.IH"(1) [OF _ h(1,2) p True] "3.prems" b p h by (cases rest) auto
    next
      case False
      have "d = 0 \<or> length rest \<le> 1" using False by auto
      then have "bufpos + 1 + (if d \<noteq> 0 then (length rest + 1) div 3 else length rest div 2) \<le> length buffer"
        using "3.prems" b by (auto split: if_splits)
      then show ?thesis
        using "3.IH"(2) [OF _ h(1,2) p False] False p h by auto
    qed
  qed
qed simp_all

text \<open>Decoding never stores outside of the buffer, whatever the source.\<close>

lemma HexDecodeWithDelimiter_buffer_safe:
  assumes "length buffer = buflen"
  shows "\<exists>buffer' n. HexDecodeWithDelimiter_buffer buffer buflen src d = Some (buffer', n) \<and>
    length buffer' = buflen \<and> n \<le> buflen"
proof (cases "buflen = 0 \<or> buflen < (if d \<noteq> 0 then (length src + 1) div 3 else length src div 2)")
  case True
  then show ?thesis using assms by (auto simp: HexDecodeWithDelimiter_buffer_def Let_def)
next
  case False
  then have "0 + (if d \<noteq> 0 then (length src + 1) div 3 else length src div 2) \<le> length buffer"
    using assms by (auto simp: not_less)
  from HexDecode_loop_total [OF this] show ?thesis
    using False assms by (auto simp: HexDecodeWithDelimiter_buffer_def Let_def)
qed

lemma HexEncodeWithDelimiter_buffer_safe:
  assumes "length buffer = buflen"
  shows "\<exists>buffer' n. HexEncodeWithDelimiter_buffer buffer buflen src d = Some (buffer', n) \<and>
    length buffer' = buflen \<and> n \<le> buflen"
proof (cases "buflen = 0 \<or> buflen < (if d \<noteq> 0 then length src * 3 else length src * 2 + 1)")
  case True
  then show ?thesis using assms by (auto simp: HexEncodeWithDelimiter_buffer_def Let_def)
next
  case False
  then have "buflen \<noteq> 0" "(if d \<noteq> 0 then 3 * length src else 2 * length src + 1) \<le> buflen"
    by (auto simp: mult.commute)
  from HexEncodeWithDelimiter_buffer_text [OF assms this] show ?thesis by auto
qed

lemma HexDecodeWithDelimiter_text:
  assumes "length buffer = buflen" "buflen \<noteq> 0" "length bs \<le> buflen"
  shows "HexDecodeWithDelimiter_buffer buffer buflen (hex_text d bs) d = Some (bs @ drop (length bs) buffer, length bs)"
proof -
  have "(if d \<noteq> 0 then (length (hex_text d bs) + 1) div 3 else length (hex_text d bs) div 2) \<le> length bs"
    by (auto simp: length_hex_text)
  then show ?thesis
    using assms HexDecode_loop_text [of bs buffer d "[]"]
    by (auto simp: HexDecodeWithDelimiter_buffer_def Let_def)
qed

lemma HexDecode_text:
  assumes "\<And>n. length (junk n) = n"
  shows "HexDecode junk (hex_text 0 bs) = Some bs"
proof (cases "bs = []")
  case True
  then show ?thesis by (simp add: HexDecode_def hex_text_simps)
next
  case False
  then show ?thesis
    using HexDecodeWithDelimiter_text [of "junk (length (hex_text 0 bs))" "length (hex_text 0 bs)" bs 0] assms
    by (simp add: HexDecode_def length_hex_text Let_def)
qed

interpretation hex: codec "\<lambda>s. the (HexEncode (\<lambda>n. replicate n 0) s)" "\<lambda>s. the (HexDecode (\<lambda>n. replicate n 0) s)" "\<lambda>_. True"
  by unfold_locales (simp add: HexEncode_def HexEncodeWithDelimiter_text HexDecode_text)

section \<open>URL encoding\<close>

definition url_char :: "byte \<Rightarrow> byte list" where
  "url_char c = (if unreserved c then [c] else [37, url_hex ! unat (c div 16), url_hex ! unat (c mod 16)])"

lemma UrlEncode_concat: "UrlEncode s = concat (map url_char s)"
proof -
  have "fold (\<lambda>c dst. if unreserved c then dst @ [c]
      else dst @ [37] @ [url_hex ! unat (c div 16)] @ [url_hex ! unat (c mod 16)]) s d = d @ concat (map url_char s)" for d
    by (induction s arbitrary: d) (simp_all add: url_char_def)
  then show ?thesis by (simp add: UrlEncode_def)
qed

lemma UrlDecode_loop_encoded:
  assumes "length bs < length s" "buflen = length p + length s"
  shows "UrlDecode_loop buflen (concat (map url_char bs)) (p @ s) (length p) =
    Some (p @ bs @ drop (length bs) s, length p + length bs)"
  using assms
proof (induction bs arbitrary: p s)
  case (Cons b bs)
  from Cons.prems obtain x s' where s: "s = x # s'" by (cases s) auto
  have pt: "put (p @ s) (length p) b = Some ((p @ [b]) @ s')"
    unfolding s by (rule put_append) simp
  have IH: "UrlDecode_loop buflen (concat (map url_char bs)) ((p @ [b]) @ s') (length (p @ [b])) =
      Some ((p @ [b]) @ bs @ drop (length bs) s', length (p @ [b]) + length bs)"
    using Cons.prems s by (intro Cons.IH) simp_all
  have lt: "length p + 1 < buflen" using Cons.prems by simp
  show ?case
  proof (cases "unreserved b")
    case True
    then have "url_char b = [b]" "b \<noteq> 43" "b \<noteq> 37" by (auto simp: url_char_def unreserved_def)
    then show ?thesis using lt pt IH s by (auto split: list.splits option.splits)
  next
    case False
    obtain h1 h2 where "HexDecode_char (url_hex ! unat (b div 16)) = Some h1"
      "HexDecode_char (url_hex ! unat (b mod 16)) = Some h2" "push_bit 4 h1 OR h2 = b"
    proof
      show "HexDecode_char (url_hex ! unat (b div 16)) = Some (drop_bit 4 b AND 0xF)"
        unfolding nibbles(4) by (rule digit_back(2) [OF nibbles(3)])
      show "HexDecode_char (url_hex ! unat (b mod 16)) = Some (b AND 0xF)"
        unfolding nibbles(5) by (rule digit_back(2) [OF nibbles(2)])
    qed (rule nibbles(1))
    moreover have "url_char b = [37, url_hex ! unat (b div 16), url_hex ! unat (b mod 16)]"
      using False by (simp add: url_char_def)
    ultimately show ?thesis using lt pt IH s by simp
  qed
qed simp

lemma UrlDecode_encoded:
  assumes "\<And>n. length (junk n) = n"
  shows "UrlDecode junk (UrlEncode s) = Some s"
proof -
  define e where "e = concat (map url_char s)"
  have l: "length s \<le> length e"
    unfolding e_def by (induction s) (auto simp: url_char_def)
  have b: "length (junk (length e + 1)) = length e + 1" by (rule assms)
  then have d: "UrlDecode_loop (length e + 1) e (junk (length e + 1)) 0 =
      Some (s @ drop (length s) (junk (length e + 1)), length s)"
    using UrlDecode_loop_encoded [of s "junk (length e + 1)" "length e + 1" "[]"] l by (simp add: e_def)
  have "length s < length (s @ drop (length s) (junk (length e + 1)))" using l b by simp
  then show ?thesis
    using d by (simp add: UrlDecode_def s_transform_def UrlDecode_buffer_def UrlEncode_concat e_def [symmetric] put_def)
qed

interpretation url: codec UrlEncode "\<lambda>s. the (UrlDecode (\<lambda>n. replicate n 0) s)" "\<lambda>_. True"
  by unfold_locales (simp add: UrlDecode_encoded)

lemma UrlDecode_loop_total:
  "length buffer = buflen \<Longrightarrow> bufpos < buflen \<Longrightarrow>
   \<exists>buffer' n. UrlDecode_loop buflen src buffer bufpos = Some (buffer', n) \<and> length buffer' = buflen \<and> n < buflen"
proof (induction buflen src buffer bufpos rule: UrlDecode_loop.induct)
  case (2 buflen ch rest buffer bufpos)
  have p: "put buffer bufpos v = Some (buffer[bufpos := v])" for v using "2.prems" by (simp add: put_def)
  show ?case
    using 2 p by (auto split: list.splits option.splits)
qed auto

section \<open>Properties\<close>

text \<open>What \<open>HexEncodeWithDelimiter\<close> makes of a string, with any delimiter or none, is decoded
  with the same delimiter to the string.\<close>

theorem hex_roundtrip:
  assumes "\<forall>n. length (junk n) = n" "length buffer = buflen" "length s \<le> buflen" "0 < buflen"
  shows "\<exists>e. HexEncodeWithDelimiter junk s d = Some e \<and>
    (\<exists>rest. HexDecodeWithDelimiter_buffer buffer buflen e d = Some (s @ rest, length s))"
  using assms HexEncodeWithDelimiter_text [of junk s d] HexDecodeWithDelimiter_text [of buffer buflen s d] by auto

lemma hex_roundtrip_witness:
  "\<exists>e. HexEncodeWithDelimiter (\<lambda>n. replicate n 0) [171, 205] 58 = Some e \<and>
    (\<exists>rest. HexDecodeWithDelimiter_buffer (replicate 4 0) 4 e 58 = Some ([171, 205] @ rest, length [171, 205 :: byte]))"
  by (rule hex_roundtrip) simp_all

text \<open>Given the true size of the buffer, neither direction stores a byte outside of it, for any
  source and any delimiter, and the number of bytes reported is inside of it.\<close>

theorem hex_stays_in_buffer:
  assumes "length buffer = buflen"
  shows "(\<exists>b n. HexEncodeWithDelimiter_buffer buffer buflen src d = Some (b, n) \<and> length b = buflen \<and> n \<le> buflen) \<and>
    (\<exists>b n. HexDecodeWithDelimiter_buffer buffer buflen src d = Some (b, n) \<and> length b = buflen \<and> n \<le> buflen) \<and>
    (\<exists>b n. UrlDecode_buffer (Some buffer) buflen src = Some (b, n) \<and> length b = buflen \<and> n \<le> buflen)"
proof (intro conjI)
  show "\<exists>b n. UrlDecode_buffer (Some buffer) buflen src = Some (b, n) \<and> length b = buflen \<and> n \<le> buflen"
    using UrlDecode_loop_total [OF assms, of 0 src] assms
    by (cases "buflen = 0") (auto simp: UrlDecode_buffer_def put_def)
qed (rule HexEncodeWithDelimiter_buffer_safe [OF assms] HexDecodeWithDelimiter_buffer_safe [OF assms])+

lemma hex_stays_in_buffer_witness:
  "\<exists>b n. HexDecodeWithDelimiter_buffer [0, 0] 2 (map of_char ''41-4Z-4'') 45 = Some (b, n) \<and> length b = 2 \<and> n \<le> 2"
  by (rule hex_stays_in_buffer [THEN conjunct2, THEN conjunct1]) simp

text \<open>\<open>UrlDecode\<close> gives back every string from its \<open>UrlEncode\<close> form.\<close>

theorem url_roundtrip:
  assumes "\<forall>n. length (junk n) = n"
  shows "UrlDecode junk (UrlEncode s) = Some s"
  by (rule UrlDecode_encoded) (use assms in blast)

lemma url_roundtrip_witness: "UrlDecode (\<lambda>n. replicate n 7) (UrlEncode [32, 43, 0, 65]) = Some [32, 43, 0, 65]"
  by (rule url_roundtrip) simp

end
