(* ===== verification/Buffer_Queue.thy ===== *)
theory Buffer_Queue
  imports Prelude "HOL-Library.Monad_Syntax"
begin

text \<open>
  Model of \<^verbatim>\<open>src/src/buffer_queue.cpp\<close>: a queue of byte buffers as a doubly linked list on an explicit
  heap. An address that is null or not allocated, and a copy that leaves its buffer, make an operation
  \<open>None\<close>. The mutex makes every operation atomic, so operations are functions of the state. What
  \<^verbatim>\<open>malloc\<close> returns is an argument. The locale \<open>byte_fifo\<close> states what a reader and a writer of the
  queue rely on; the queue is an instance.
\<close>

section \<open>What a byte queue promises\<close>

text \<open>A sequence of writes, one after the other.\<close>

inductive write_seq :: "('q \<Rightarrow> byte list \<Rightarrow> 'q \<Rightarrow> bool) \<Rightarrow> 'q \<Rightarrow> byte list list \<Rightarrow> 'q \<Rightarrow> bool"
  for pushes :: "'q \<Rightarrow> byte list \<Rightarrow> 'q \<Rightarrow> bool" where
  write_seq_Nil: "write_seq pushes q [] q"
| write_seq_Cons: "pushes q d q' \<Longrightarrow> write_seq pushes q' ds q'' \<Longrightarrow> write_seq pushes q (d # ds) q''"

locale byte_fifo =
  fixes inv :: "'q \<Rightarrow> bool"
    and content :: "'q \<Rightarrow> byte list"
    and pushes :: "'q \<Rightarrow> byte list \<Rightarrow> 'q \<Rightarrow> bool"
    and pops :: "nat \<Rightarrow> 'q \<Rightarrow> (byte list \<times> 'q) option"
  assumes push: "inv q \<Longrightarrow> pushes q d q' \<Longrightarrow> inv q' \<and> content q' = content q @ d"
    and pop: "inv q \<Longrightarrow> \<exists>q'. pops n q = Some (take n (content q), q') \<and> inv q' \<and> content q' = drop n (content q)"
begin

lemma writes_content: "write_seq pushes q ds q' \<Longrightarrow> inv q \<Longrightarrow> inv q' \<and> content q' = content q @ concat ds"
  by (induction rule: write_seq.induct) (use push in auto)

lemma read_back:
  assumes "inv q" "content q = []" "write_seq pushes q ds q'"
  shows "\<exists>q''. pops (length (concat ds)) q' = Some (concat ds, q'') \<and> content q'' = []"
proof -
  have "inv q'" "content q' = concat ds" using writes_content [OF assms(3,1)] assms(2) by auto
  then show ?thesis using pop [of q' "length (concat ds)"] by auto
qed

text \<open>Two reads get what one read of the sum gets.\<close>

lemma read_split:
  assumes "inv q" "pops m q = Some (a, q1)" "pops n q1 = Some (b, q2)"
  shows "\<exists>q'. pops (m + n) q = Some (a @ b, q') \<and> content q' = content q2"
proof -
  from pop [OF assms(1), of m] assms(2) have 1: "a = take m (content q)" "inv q1" "content q1 = drop m (content q)" by auto
  from pop [OF 1(2), of n] assms(3) have 2: "b = take n (content q1)" "content q2 = drop n (content q1)" by auto
  show ?thesis using pop [OF assms(1), of "m + n"] 1 2 by (auto simp: take_add add.commute)
qed

end

section \<open>The code\<close>

record QUEUE_ELEMENT =
  e_data :: "byte list"
  e_read :: nat
  e_size :: nat
  e_prev :: "nat option"
  e_next :: "nat option"

record BufferQueue =
  heap :: "nat \<rightharpoonup> QUEUE_ELEMENT"
  first_element :: "nat option"
  last_element :: "nat option"
  element_num :: nat
  total_data_size :: nat

definition BufferQueue_new :: BufferQueue where
  "BufferQueue_new = \<lparr>heap = Map.empty, first_element = None, last_element = None, element_num = 0, total_data_size = 0\<rparr>"

text \<open>\<^verbatim>\<open>memcpy\<close> out of a buffer, and out of the readable part of an element.\<close>

definition copy_from :: "byte list \<Rightarrow> nat \<Rightarrow> byte list option" where
  "copy_from src n = (if n \<le> length src then Some (take n src) else None)"

definition read_elem :: "QUEUE_ELEMENT \<Rightarrow> nat \<Rightarrow> byte list option" where
  "read_elem e n = copy_from (drop (e_read e) (e_data e)) n"

text \<open>
  Null pointers are \<open>None\<close>. \<open>elem\<close> is the address that \<^verbatim>\<open>malloc\<close> returns for the element, \<open>data_ok\<close>
  whether the second \<^verbatim>\<open>malloc\<close> succeeds.
\<close>

definition pushElementToFront ::
  "nat option \<Rightarrow> bool \<Rightarrow> byte list option \<Rightarrow> nat \<Rightarrow> BufferQueue \<Rightarrow> (bool \<times> BufferQueue) option" where
  "pushElementToFront elem data_ok pData nDataSize q =
     (case (pData, elem) of
        (Some src, Some a) \<Rightarrow>
          if nDataSize = 0 \<or> \<not> data_ok then Some (False, q)
          else do {
            data \<leftarrow> copy_from src nDataSize;
            let e = \<lparr>e_data = data, e_read = 0, e_size = nDataSize, e_prev = None, e_next = None\<rparr>;
            let q = q\<lparr>total_data_size := total_data_size q + nDataSize, element_num := element_num q + 1\<rparr>;
            (case first_element q of
               None \<Rightarrow> Some (True, q\<lparr>heap := (heap q)(a \<mapsto> e), first_element := Some a, last_element := Some a\<rparr>)
             | Some f \<Rightarrow> do {
                 fe \<leftarrow> heap q f;
                 Some (True, q\<lparr>heap := (heap q)(a \<mapsto> e\<lparr>e_next := Some f\<rparr>, f \<mapsto> fe\<lparr>e_prev := Some a\<rparr>),
                               first_element := Some a\<rparr>)
               })
          }
      | _ \<Rightarrow> Some (False, q))"

definition pushElementToLast ::
  "nat option \<Rightarrow> bool \<Rightarrow> byte list option \<Rightarrow> nat \<Rightarrow> BufferQueue \<Rightarrow> (bool \<times> BufferQueue) option" where
  "pushElementToLast elem data_ok pData nDataSize q =
     (case (pData, elem) of
        (Some src, Some a) \<Rightarrow>
          if nDataSize = 0 \<or> \<not> data_ok then Some (False, q)
          else do {
            data \<leftarrow> copy_from src nDataSize;
            let e = \<lparr>e_data = data, e_read = 0, e_size = nDataSize, e_prev = None, e_next = None\<rparr>;
            let q = q\<lparr>total_data_size := total_data_size q + nDataSize, element_num := element_num q + 1\<rparr>;
            (case last_element q of
               None \<Rightarrow> Some (True, q\<lparr>heap := (heap q)(a \<mapsto> e), first_element := Some a, last_element := Some a\<rparr>)
             | Some l \<Rightarrow> do {
                 le \<leftarrow> heap q l;
                 Some (True, q\<lparr>heap := (heap q)(a \<mapsto> e\<lparr>e_prev := Some l\<rparr>, l \<mapsto> le\<lparr>e_next := Some a\<rparr>),
                               last_element := Some a\<rparr>)
               })
          }
      | _ \<Rightarrow> Some (False, q))"

text \<open>The result is what was copied to the buffer of the caller; \<open>pBuffer\<close> is false for a null pointer.\<close>

definition popElementFromFront :: "bool \<Rightarrow> nat \<Rightarrow> BufferQueue \<Rightarrow> (byte list \<times> BufferQueue) option" where
  "popElementFromFront pBuffer nBufferSize q =
     (if element_num q > 0
      then do {
        fa \<leftarrow> first_element q;
        fe \<leftarrow> heap q fa;
        out \<leftarrow> (if pBuffer \<and> nBufferSize > 0
               then read_elem fe (if e_size fe > nBufferSize then nBufferSize else e_size fe) else Some []);
        let q = q\<lparr>element_num := element_num q - 1, total_data_size := total_data_size q - e_size fe\<rparr>;
        (case e_next fe of
           Some nx \<Rightarrow> do {
             ne \<leftarrow> heap q nx;
             Some (out, q\<lparr>heap := (heap q)(nx \<mapsto> ne\<lparr>e_prev := None\<rparr>, fa := None), first_element := Some nx\<rparr>)
           }
         | None \<Rightarrow> Some (out, q\<lparr>heap := (heap q)(fa := None), first_element := None, last_element := None\<rparr>))
      }
      else Some ([], q))"

definition popElementFromLast :: "bool \<Rightarrow> nat \<Rightarrow> BufferQueue \<Rightarrow> (byte list \<times> BufferQueue) option" where
  "popElementFromLast pBuffer nBufferSize q =
     (if element_num q > 0
      then do {
        la \<leftarrow> last_element q;
        le \<leftarrow> heap q la;
        out \<leftarrow> (if pBuffer \<and> nBufferSize > 0
               then read_elem le (if e_size le > nBufferSize then nBufferSize else e_size le) else Some []);
        let q = q\<lparr>element_num := element_num q - 1, total_data_size := total_data_size q - e_size le\<rparr>;
        (case e_prev le of
           Some pv \<Rightarrow> do {
             pe \<leftarrow> heap q pv;
             Some (out, q\<lparr>heap := (heap q)(pv \<mapsto> pe\<lparr>e_next := None\<rparr>, la := None), last_element := Some pv\<rparr>)
           }
         | None \<Rightarrow> Some (out, q\<lparr>heap := (heap q)(la := None), first_element := None, last_element := None\<rparr>))
      }
      else Some ([], q))"

definition getDataFromFrontElement :: "bool \<Rightarrow> nat \<Rightarrow> BufferQueue \<Rightarrow> byte list option" where
  "getDataFromFrontElement pBuffer nBufferSize q =
     (if element_num q > 0
      then if \<not> pBuffer \<or> nBufferSize = 0 then Some []
           else do {
             fa \<leftarrow> first_element q;
             fe \<leftarrow> heap q fa;
             read_elem fe (if e_size fe > nBufferSize then nBufferSize else e_size fe)
           }
      else Some [])"

definition getDataFromLastElement :: "bool \<Rightarrow> nat \<Rightarrow> BufferQueue \<Rightarrow> byte list option" where
  "getDataFromLastElement pBuffer nBufferSize q =
     (if element_num q \<noteq> 0
      then if \<not> pBuffer \<or> nBufferSize = 0 then Some []
           else do {
             la \<leftarrow> last_element q;
             le \<leftarrow> heap q la;
             read_elem le (if e_size le > nBufferSize then nBufferSize else e_size le)
           }
      else Some [])"

text \<open>The loop of \<open>clear\<close>, where \<open>elem\<close> and \<open>next\<close> are the same pointer at its head.\<close>

partial_function (option) clear_loop ::
  "(nat \<rightharpoonup> QUEUE_ELEMENT) \<Rightarrow> nat option \<Rightarrow> (nat \<rightharpoonup> QUEUE_ELEMENT) option" where
  "clear_loop h nxt =
     (case nxt of
        None \<Rightarrow> Some h
      | Some a \<Rightarrow> Option.bind (h a) (\<lambda>e. clear_loop (h(a := None)) (e_next e)))"

declare clear_loop.simps [code]

definition clear :: "BufferQueue \<Rightarrow> (nat \<times> BufferQueue) option" where
  "clear q = do {
     h \<leftarrow> (if element_num q > 0 then clear_loop (heap q) (first_element q) else Some (heap q));
     Some (element_num q, \<lparr>heap = h, first_element = None, last_element = None, element_num = 0, total_data_size = 0\<rparr>)
   }"

definition getElementCount :: "BufferQueue \<Rightarrow> nat" where "getElementCount q = element_num q"

definition getTotalDataSize :: "BufferQueue \<Rightarrow> nat" where "getTotalDataSize q = total_data_size q"

text \<open>The loop of \<open>popDataCrossElement\<close>; the result is the output, the number of removed elements, the queue.\<close>

partial_function (option) cross_loop ::
  "nat \<Rightarrow> byte list \<Rightarrow> nat \<Rightarrow> BufferQueue \<Rightarrow> (byte list \<times> nat \<times> BufferQueue) option" where
  "cross_loop nByteNeed out thrown q =
     Option.bind (first_element q) (\<lambda>fa.
     Option.bind (heap q fa) (\<lambda>fe.
       if e_size fe \<ge> nByteNeed
       then Option.bind (read_elem fe nByteNeed) (\<lambda>bs.
            let fe' = fe\<lparr>e_size := e_size fe - nByteNeed\<rparr>;
                q = q\<lparr>heap := (heap q)(fa \<mapsto> fe'), total_data_size := total_data_size q - nByteNeed\<rparr>
            in if e_size fe' = 0
               then Option.bind (popElementFromFront False 0 q) (\<lambda>(_, q). Some (out @ bs, thrown + 1, q))
               else Some (out @ bs, thrown, q\<lparr>heap := (heap q)(fa \<mapsto> fe'\<lparr>e_read := e_read fe' + nByteNeed\<rparr>)\<rparr>))
       else Option.bind (read_elem fe (e_size fe)) (\<lambda>bs.
            let q = q\<lparr>heap := (heap q)(fa \<mapsto> fe\<lparr>e_size := 0\<rparr>), total_data_size := total_data_size q - e_size fe\<rparr>
            in Option.bind (popElementFromFront False 0 q) (\<lambda>(_, q).
                 if nByteNeed - e_size fe = 0 \<or> element_num q = 0 then Some (out @ bs, thrown + 1, q)
                 else cross_loop (nByteNeed - e_size fe) (out @ bs) (thrown + 1) q))))"

declare cross_loop.simps [code]

text \<open>The output, what is stored to \<open>pBufferIsThrown\<close> (\<open>None\<close>: nothing), and the queue.\<close>

definition popDataCrossElement :: "nat \<Rightarrow> BufferQueue \<Rightarrow> (byte list \<times> nat option \<times> BufferQueue) option" where
  "popDataCrossElement nBytesToRead q =
     (if element_num q \<noteq> 0 \<and> total_data_size q > 0 \<and> nBytesToRead > 0
      then do {
        (out, thrown, q) \<leftarrow> cross_loop nBytesToRead [] 0 q;
        Some (out, Some thrown, q)
      }
      else Some ([], None, q))"

partial_function (option) remove_loop :: "nat \<Rightarrow> nat \<Rightarrow> BufferQueue \<Rightarrow> (nat \<times> BufferQueue) option" where
  "remove_loop nByteNeed rvalue q =
     (if total_data_size q > 0
      then Option.bind (first_element q) (\<lambda>fa.
           Option.bind (heap q fa) (\<lambda>fe.
             if e_size fe \<ge> nByteNeed
             then if e_size fe = nByteNeed
                  then Option.bind (popElementFromFront False 0 q) (\<lambda>(_, q). Some (rvalue, q))
                  else Some (rvalue,
                         q\<lparr>total_data_size := total_data_size q - nByteNeed,
                           heap := (heap q)(fa \<mapsto> fe\<lparr>e_size := e_size fe - nByteNeed, e_read := e_read fe + nByteNeed\<rparr>)\<rparr>)
             else Option.bind (popElementFromFront False 0 q) (\<lambda>(_, q).
                    remove_loop (nByteNeed - e_size fe) (rvalue + 1) q)))
      else Some (rvalue, q))"

declare remove_loop.simps [code]

definition removeData :: "nat \<Rightarrow> BufferQueue \<Rightarrow> (nat \<times> BufferQueue) option" where
  "removeData nBytesToRemove q =
     (if element_num q > 0 \<and> total_data_size q > 0 \<and> nBytesToRemove > 0
      then remove_loop nBytesToRemove 1 q
      else Some (0, q))"

definition getFrontElementDataSize :: "BufferQueue \<Rightarrow> nat option" where
  "getFrontElementDataSize q = do { fa \<leftarrow> first_element q; fe \<leftarrow> heap q fa; Some (e_size fe) }"

definition getLastElementDataSize :: "BufferQueue \<Rightarrow> nat option" where
  "getLastElementDataSize q = do { la \<leftarrow> last_element q; le \<leftarrow> heap q la; Some (e_size le) }"

text \<open>The loop of \<open>toOneBuffer\<close>; \<open>out\<close> is the part of the new buffer before \<open>pB\<close>.\<close>

partial_function (option) one_buffer_loop ::
  "(nat \<rightharpoonup> QUEUE_ELEMENT) \<Rightarrow> nat option \<Rightarrow> nat \<Rightarrow> byte list \<Rightarrow> byte list option" where
  "one_buffer_loop h p remaind out =
     (case p of
        None \<Rightarrow> Some out
      | Some a \<Rightarrow>
          if remaind > 0
          then Option.bind (h a) (\<lambda>e.
               if e_size e > remaind then None
               else Option.bind (read_elem e (e_size e)) (\<lambda>bs.
                      one_buffer_loop h (e_next e) (remaind - e_size e) (out @ bs)))
          else Some out)"

declare one_buffer_loop.simps [code]

text \<open>The new buffer (\<open>None\<close>: \<^verbatim>\<open>malloc\<close> failed and zero is returned); what no copy reaches is \<open>junk\<close>.\<close>

definition toOneBuffer :: "(nat \<Rightarrow> byte list) \<Rightarrow> bool \<Rightarrow> BufferQueue \<Rightarrow> (byte list option \<times> nat) option" where
  "toOneBuffer junk malloc_ok q =
     (let iBufSize = getTotalDataSize q
      in if \<not> malloc_ok then Some (None, 0)
         else do {
           out \<leftarrow> one_buffer_loop (heap q) (first_element q) iBufSize [];
           Some (Some (memcpy (junk iBufSize) 0 out), iBufSize)
         })"

definition toOneBufferWithNullEnding :: "(nat \<Rightarrow> byte list) \<Rightarrow> bool \<Rightarrow> BufferQueue \<Rightarrow> (byte list option \<times> nat) option" where
  "toOneBufferWithNullEnding junk malloc_ok q =
     (let iBufSize = getTotalDataSize q
      in if \<not> malloc_ok then Some (None, 0)
         else do {
           let buf = (junk (iBufSize + 1))[iBufSize := 0];
           out \<leftarrow> one_buffer_loop (heap q) (first_element q) iBufSize [];
           Some (Some (memcpy buf 0 out), iBufSize + 1)
         })"

section \<open>The abstract queue\<close>

text \<open>What an element holds, the list between two pointers, and the queue that represents a list of buffers.\<close>

definition elem_ok :: "QUEUE_ELEMENT \<Rightarrow> byte list \<Rightarrow> bool" where
  "elem_ok e d \<longleftrightarrow> d \<noteq> [] \<and> e_size e = length d \<and> drop (e_read e) (e_data e) = d"

definition nxt :: "nat list \<Rightarrow> nat option \<Rightarrow> nat option" where
  "nxt ps nx = (case ps of [] \<Rightarrow> nx | p # _ \<Rightarrow> Some p)"

definition prv :: "nat option \<Rightarrow> nat list \<Rightarrow> nat option" where
  "prv pv ps = (if ps = [] then pv else Some (last ps))"

fun dll :: "(nat \<rightharpoonup> QUEUE_ELEMENT) \<Rightarrow> nat option \<Rightarrow> nat list \<Rightarrow> nat option \<Rightarrow> byte list list \<Rightarrow> bool" where
  "dll h pv [] nx [] \<longleftrightarrow> True"
| "dll h pv (p # ps) nx (d # ds) \<longleftrightarrow>
     (case h p of
        None \<Rightarrow> False
      | Some e \<Rightarrow> e_prev e = pv \<and> e_next e = nxt ps nx \<and> elem_ok e d \<and> dll h (Some p) ps nx ds)"
| "dll h pv _ nx _ \<longleftrightarrow> False"

definition repr :: "BufferQueue \<Rightarrow> nat list \<Rightarrow> byte list list \<Rightarrow> bool" where
  "repr q ps ds \<longleftrightarrow>
     distinct ps \<and> dom (heap q) = set ps \<and> dll (heap q) None ps None ds \<and>
     first_element q = nxt ps None \<and> last_element q = prv None ps \<and>
     element_num q = length ds \<and> total_data_size q = length (concat ds)"

fun drop_bytes :: "nat \<Rightarrow> 'a list list \<Rightarrow> 'a list list" where
  "drop_bytes n [] = []"
| "drop_bytes n (d # ds) = (if n < length d then drop n d # ds else drop_bytes (n - length d) ds)"

text \<open>The number of buffers that the first \<open>n\<close> bytes touch.\<close>

fun touched :: "nat \<Rightarrow> 'a list list \<Rightarrow> nat" where
  "touched n [] = 0"
| "touched n (d # ds) = (if n \<le> length d then 1 else 1 + touched (n - length d) ds)"

lemma concat_drop_bytes: "concat (drop_bytes n ds) = drop n (concat ds)"
  by (induction n ds rule: drop_bytes.induct) auto

lemma drop_bytes_nonempty: "[] \<notin> set ds \<Longrightarrow> [] \<notin> set (drop_bytes n ds)"
  by (induction n ds rule: drop_bytes.induct) auto

lemma drop_bytes_0: "[] \<notin> set ds \<Longrightarrow> drop_bytes 0 ds = ds"
  by (cases ds) auto

lemma length_drop_bytes: "length (drop_bytes n ds) \<le> length ds"
  by (induction n ds rule: drop_bytes.induct) auto

section \<open>Lists on the heap\<close>

lemma nxt_simps [simp]: "nxt [] nx = nx" "nxt (p # ps) nx = Some p"
  by (simp_all add: nxt_def)

lemma prv_simps [simp]: "prv pv [] = pv" "prv pv (p # ps) = prv (Some p) ps" "prv pv (ps @ qs) = prv (prv pv ps) qs"
  by (simp_all add: prv_def)

lemma nxt_append [simp]: "nxt (ps @ qs) nx = nxt ps (nxt qs nx)"
  by (cases ps) simp_all

lemma dll_frame: "a \<notin> set ps \<Longrightarrow> dll (h(a := x)) pv ps nx ds = dll h pv ps nx ds"
  by (induction h pv ps nx ds rule: dll.induct) (auto split: option.splits)

lemma dll_length: "dll h pv ps nx ds \<Longrightarrow> length ps = length ds"
  by (induction h pv ps nx ds rule: dll.induct) (auto split: option.splits)

lemma dll_append:
  "length ps = length ds \<Longrightarrow>
   dll h pv (ps @ qs) nx (ds @ es) \<longleftrightarrow> dll h pv ps (nxt qs nx) ds \<and> dll h (prv pv ps) qs nx es"
  by (induction ps ds arbitrary: pv rule: list_induct2) (auto split: option.splits)

lemma dll_nonempty: "dll h pv ps nx ds \<Longrightarrow> [] \<notin> set ds"
  by (induction h pv ps nx ds rule: dll.induct) (auto simp: elem_ok_def split: option.splits)

lemma read_elem_ok: "elem_ok e d \<Longrightarrow> n \<le> length d \<Longrightarrow> read_elem e n = Some (take n d)"
  by (simp add: elem_ok_def read_elem_def copy_from_def)

lemma elem_ok_link [simp]:
  "elem_ok (e\<lparr>e_prev := x\<rparr>) d = elem_ok e d" "elem_ok (e\<lparr>e_next := x\<rparr>) d = elem_ok e d"
  by (simp_all add: elem_ok_def)

lemma elem_ok_new [simp]:
  "0 < n \<Longrightarrow> n \<le> length src \<Longrightarrow>
   elem_ok \<lparr>e_data = take n src, e_read = 0, e_size = n, e_prev = x, e_next = y\<rparr> (take n src)"
  by (auto simp: elem_ok_def)

lemma repr_length: "repr q ps ds \<Longrightarrow> length ps = length ds"
  by (auto simp: repr_def dest: dll_length)

lemma repr_new: "repr BufferQueue_new [] []"
  by (simp add: repr_def BufferQueue_new_def)

lemma copy_from_le: "n \<le> length src \<Longrightarrow> copy_from src n = Some (take n src)"
  by (simp add: copy_from_def)

lemma repr_pushFront:
  assumes R: "repr q ps ds" and a: "a \<notin> dom (heap q)" and n: "0 < n" "n \<le> length src"
  shows "\<exists>q'. pushElementToFront (Some a) True (Some src) n q = Some (True, q') \<and> repr q' (a # ps) (take n src # ds)"
proof (cases ps)
  case Nil
  then have "ds = []" using repr_length [OF R] by simp
  then show ?thesis
    using R a n Nil
    by (auto simp: pushElementToFront_def repr_def copy_from_le)
next
  case (Cons f ps')
  with R obtain d ds' where ds: "ds = d # ds'" by (cases ds) (auto simp: repr_def)
  from R Cons ds obtain fe where fe: "heap q f = Some fe" "e_prev fe = None" "e_next fe = nxt ps' None" "elem_ok fe d"
    "dll (heap q) (Some f) ps' None ds'"
    by (auto simp: repr_def split: option.splits)
  have fa: "f \<noteq> a" "a \<notin> set ps'" "f \<notin> set ps'" using R a Cons by (auto simp: repr_def)
  show ?thesis
    using R n Cons ds fe fa
    by (auto simp: pushElementToFront_def repr_def copy_from_le dll_frame)
qed

lemma repr_pushLast:
  assumes R: "repr q ps ds" and a: "a \<notin> dom (heap q)" and n: "0 < n" "n \<le> length src"
  shows "\<exists>q'. pushElementToLast (Some a) True (Some src) n q = Some (True, q') \<and>
    repr q' (ps @ [a]) (ds @ [take n src])"
proof (cases ps rule: rev_cases)
  case Nil
  then have "ds = []" using repr_length [OF R] by simp
  then show ?thesis
    using R a n Nil
    by (auto simp: pushElementToLast_def repr_def copy_from_le)
next
  case (snoc ps' l)
  have len: "length ps = length ds" using repr_length [OF R] by simp
  then obtain ds' d where ds: "ds = ds' @ [d]" "length ps' = length ds'" using snoc by (cases ds rule: rev_cases) auto
  from R have D: "dll (heap q) None ps' (Some l) ds'" "dll (heap q) (prv None ps') [l] None [d]"
    using snoc ds by (auto simp: repr_def dll_append)
  then obtain le where le: "heap q l = Some le" "e_prev le = prv None ps'" "e_next le = None" "elem_ok le d"
    by (auto split: option.splits)
  have la: "l \<noteq> a" "a \<notin> set ps'" "l \<notin> set ps'" using R a snoc by (auto simp: repr_def)
  let ?e = "\<lparr>e_data = take n src, e_read = 0, e_size = n, e_prev = Some l, e_next = None\<rparr>"
  let ?h = "(heap q)(a \<mapsto> ?e, l \<mapsto> le\<lparr>e_next := Some a\<rparr>)"
  have "dll ?h None ps' (Some l) ds'" using D(1) la by (simp add: dll_frame)
  moreover have "dll ?h (prv None ps') [l, a] None [d, take n src]" using le la n by simp
  ultimately have "dll ?h None (ps @ [a]) None (ds @ [take n src])"
    using dll_append [OF ds(2), of ?h None "[l, a]" None "[d, take n src]"] snoc ds(1) by simp
  moreover have "pushElementToLast (Some a) True (Some src) n q =
      Some (True, q\<lparr>total_data_size := total_data_size q + n, element_num := element_num q + 1,
                    heap := ?h, last_element := Some a\<rparr>)"
    using R n le snoc by (simp add: pushElementToLast_def repr_def copy_from_le Let_def)
  ultimately show ?thesis
    using R a n snoc by (auto simp: repr_def)
qed

lemma heap_single: "dom h = {p} \<Longrightarrow> h(p := None) = Map.empty"
  using dom_eq_singleton_conv [of h p] by auto

lemma read_elem_min:
  assumes "elem_ok e d"
  shows "read_elem e (if e_size e > n then n else e_size e) = Some (take n d)"
proof -
  have "e_size e = length d" using assms by (simp add: elem_ok_def)
  then show ?thesis using read_elem_ok [OF assms] by simp
qed

text \<open>Removal of the first element, whatever it still holds.\<close>

lemma pop_front_link:
  assumes h: "heap q p = Some e" "e_next e = nxt ps None" and ps: "distinct (p # ps)" "dom (heap q) = set (p # ps)"
    and D: "dll (heap q) (Some p) ps None ds"
    and q: "first_element q = Some p" "last_element q = prv None (p # ps)" "element_num q = Suc (length ds)"
      "total_data_size q = e_size e + length (concat ds)"
    and out: "b \<and> 0 < n \<Longrightarrow> read_elem e (if e_size e > n then n else e_size e) = Some out"
  shows "\<exists>q'. popElementFromFront b n q = Some (if b \<and> 0 < n then out else [], q') \<and> repr q' ps ds"
proof (cases ps)
  case Nil
  then have "ds = []" using dll_length [OF D] by simp
  then show ?thesis
    using h ps q out Nil by (auto simp: popElementFromFront_def repr_def Let_def heap_single)
next
  case (Cons f ps')
  with D obtain d ds' where ds: "ds = d # ds'" by (cases ds) auto
  from D Cons ds obtain fe where fe: "heap q f = Some fe" "e_prev fe = Some p" "e_next fe = nxt ps' None" "elem_ok fe d"
    "dll (heap q) (Some f) ps' None ds'"
    by (auto split: option.splits)
  have fa: "f \<noteq> p" "p \<notin> set ps'" "f \<notin> set ps'" using ps Cons by auto
  show ?thesis
    using h ps q out Cons ds fe fa
    by (auto simp: popElementFromFront_def repr_def Let_def dll_frame elem_ok_def)
qed

lemma repr_ConsD:
  assumes "repr q ps (d # ds)"
  obtains p ps' e where "ps = p # ps'" "heap q p = Some e" "elem_ok e d" "e_prev e = None" "e_next e = nxt ps' None"
    "dll (heap q) (Some p) ps' None ds" "first_element q = Some p" "distinct (p # ps')" "dom (heap q) = set (p # ps')"
    "last_element q = prv None (p # ps')" "element_num q = Suc (length ds)"
    "total_data_size q = e_size e + length (concat ds)"
proof -
  from assms obtain p ps' where ps: "ps = p # ps'" using repr_length [OF assms] by (cases ps) auto
  with assms obtain e where "heap q p = Some e" "elem_ok e d" "e_prev e = None" "e_next e = nxt ps' None"
    "dll (heap q) (Some p) ps' None ds"
    by (auto simp: repr_def split: option.splits)
  with assms ps show ?thesis by (intro that [of p ps' e]) (auto simp: repr_def elem_ok_def)
qed

lemma repr_popFront:
  assumes "repr q ps (d # ds)"
  shows "\<exists>q'. popElementFromFront b n q = Some (if b then take n d else [], q') \<and> repr q' (tl ps) ds"
proof -
  from assms obtain p ps' e where P: "ps = p # ps'" "heap q p = Some e" "elem_ok e d" "e_next e = nxt ps' None"
    "dll (heap q) (Some p) ps' None ds" "first_element q = Some p" "distinct (p # ps')" "dom (heap q) = set (p # ps')"
    "last_element q = prv None (p # ps')" "element_num q = Suc (length ds)"
    "total_data_size q = e_size e + length (concat ds)"
    by (rule repr_ConsD)
  have "read_elem e (if e_size e > n then n else e_size e) = Some (take n d)"
    using P(3) by (rule read_elem_min)
  then have "\<exists>q'. popElementFromFront b n q = Some (if b \<and> 0 < n then take n d else [], q') \<and> repr q' ps' ds"
    by (rule pop_front_link [OF P(2,4,7,8,5,6,9,10,11)])
  then show ?thesis using P(1) by (cases "n = 0") auto
qed

lemma repr_popLast:
  assumes R: "repr q ps (ds @ [d])"
  shows "\<exists>q'. popElementFromLast b n q = Some (if b then take n d else [], q') \<and> repr q' (butlast ps) ds"
proof -
  have "length ps = Suc (length ds)" using repr_length [OF R] by simp
  then obtain ps' l where ps: "ps = ps' @ [l]" "length ps' = length ds" by (cases ps rule: rev_cases) auto
  with R have D: "dll (heap q) None ps' (Some l) ds" "dll (heap q) (prv None ps') [l] None [d]"
    by (auto simp: repr_def dll_append)
  then obtain le where le: "heap q l = Some le" "e_prev le = prv None ps'" "e_next le = None" "elem_ok le d"
    by (auto split: option.splits)
  have out: "read_elem le (if e_size le > n then n else e_size le) = Some (take n d)"
    using le(4) by (rule read_elem_min)
  have sz: "e_size le = length d" using le(4) by (simp add: elem_ok_def)
  show ?thesis
  proof (cases ps' rule: rev_cases)
    case Nil
    then show ?thesis
      using R ps le out sz by (auto simp: popElementFromLast_def repr_def Let_def heap_single)
  next
    case (snoc ps'' k)
    with ps obtain ds' c where ds: "ds = ds' @ [c]" "length ps'' = length ds'" by (cases ds rule: rev_cases) auto
    with D snoc obtain ke where ke: "heap q k = Some ke" "e_prev ke = prv None ps''" "e_next ke = Some l" "elem_ok ke c"
      "dll (heap q) None ps'' (Some k) ds'"
      by (auto simp: dll_append split: option.splits)
    have kl: "k \<noteq> l" "l \<notin> set ps''" "k \<notin> set ps''" using R ps snoc by (auto simp: repr_def)
    let ?h = "(heap q)(k \<mapsto> ke\<lparr>e_next := None\<rparr>, l := None)"
    have "dll ?h None ps'' (Some k) ds'" using ke(5) kl by (simp add: dll_frame)
    moreover have "dll ?h (prv None ps'') [k] None [c]" using ke kl by simp
    ultimately have "dll ?h None ps' None ds"
      using dll_append [OF ds(2), of ?h None "[k]" None "[c]"] snoc ds(1) by simp
    moreover have "popElementFromLast b n q =
        Some (if b then take n d else [], q\<lparr>element_num := element_num q - 1, total_data_size := total_data_size q - e_size le,
                    heap := ?h, last_element := Some k\<rparr>)"
    proof -
      have "element_num q > 0" "last_element q = Some l" "e_prev le = Some k"
        using R le(2) ps(1) snoc by (simp_all add: repr_def)
      moreover have "(if b \<and> n > 0 then read_elem le (if e_size le > n then n else e_size le) else Some []) =
          Some (if b then take n d else [])"
        using out by simp
      ultimately show ?thesis
        using le(1) ke(1) by (simp add: popElementFromLast_def Let_def split del: if_split)
    qed
    moreover have "dom (heap q) = insert l (insert k (set ps''))" "first_element q = nxt ps' None"
      "element_num q = Suc (length ds)" "total_data_size q = length (concat ds) + length d" "distinct ps'"
      using R ps(1) snoc by (auto simp: repr_def)
    then have "repr (q\<lparr>element_num := element_num q - 1, total_data_size := total_data_size q - e_size le,
        heap := ?h, last_element := Some k\<rparr>) ps' ds"
      using \<open>dll ?h None ps' None ds\<close> kl snoc sz by (auto simp: repr_def)
    ultimately show ?thesis using ps(1) by simp
  qed
qed

section \<open>Reading across elements\<close>

lemma elem_ok_drop:
  "elem_ok e d \<Longrightarrow> n < length d \<Longrightarrow>
   elem_ok (e\<lparr>e_size := e_size e - n, e_read := e_read e + n\<rparr>) (drop n d)"
  by (auto simp: elem_ok_def add.commute)

lemma repr_shrink_front:
  assumes "repr q ps (d # ds)" "heap q p = Some e" "first_element q = Some p" "n < length d"
  shows "repr (q\<lparr>total_data_size := total_data_size q - n,
                heap := (heap q)(p \<mapsto> e\<lparr>e_size := e_size e - n, e_read := e_read e + n\<rparr>)\<rparr>) ps (drop n d # ds)"
proof -
  from assms(1) obtain ps' where P: "ps = p # ps'" "elem_ok e d" "e_prev e = None" "e_next e = nxt ps' None"
    "dll (heap q) (Some p) ps' None ds" "distinct (p # ps')" "dom (heap q) = set (p # ps')"
    "last_element q = prv None (p # ps')" "element_num q = Suc (length ds)"
    "total_data_size q = e_size e + length (concat ds)"
    by (rule repr_ConsD) (use assms(2,3) in auto)
  have sz: "e_size e = length d" using P(2) by (simp add: elem_ok_def)
  show ?thesis
    using P assms(3,4) elem_ok_drop [OF P(2) assms(4)] by (simp add: repr_def dll_frame sz insert_absorb)
qed

lemma cross_loop_spec:
  assumes "repr q ps ds" "ds \<noteq> []" "0 < n"
  shows "\<exists>q' ps'. cross_loop n out th q = Some (out @ take n (concat ds), th + (length ds - length (drop_bytes n ds)), q') \<and>
    repr q' ps' (drop_bytes n ds)"
  using assms
proof (induction ds arbitrary: q ps n out th)
  case (Cons d ds)
  from Cons.prems(1) obtain p ps' e where P: "ps = p # ps'" "heap q p = Some e" "elem_ok e d" "e_prev e = None"
    "e_next e = nxt ps' None" "dll (heap q) (Some p) ps' None ds" "first_element q = Some p" "distinct (p # ps')"
    "dom (heap q) = set (p # ps')" "last_element q = prv None (p # ps')" "element_num q = Suc (length ds)"
    "total_data_size q = e_size e + length (concat ds)"
    by (rule repr_ConsD)
  have sz: "e_size e = length d" using P(3) by (simp add: elem_ok_def)
  have ne: "[] \<notin> set ds" using P(6) by (rule dll_nonempty)
  have pop: "\<exists>q'. popElementFromFront False 0
      (q\<lparr>heap := (heap q)(p \<mapsto> e\<lparr>e_size := 0\<rparr>), total_data_size := total_data_size q - e_size e\<rparr>) = Some ([], q') \<and>
      repr q' ps' ds"
    using pop_front_link [of "q\<lparr>heap := (heap q)(p \<mapsto> e\<lparr>e_size := 0\<rparr>), total_data_size := total_data_size q - e_size e\<rparr>"
        p "e\<lparr>e_size := 0\<rparr>" ps' ds False 0 "[]"] P
    by (simp add: dll_frame insert_absorb)
  consider "n < length d" | "n = length d" | "length d < n" by linarith
  then show ?case
  proof cases
    case 1
    have r: "read_elem e n = Some (take n d)" using P(3) 1 by (simp add: read_elem_ok)
    have "cross_loop n out th q = Some (out @ take n d, th,
        q\<lparr>total_data_size := total_data_size q - n,
          heap := (heap q)(p \<mapsto> e\<lparr>e_size := e_size e - n, e_read := e_read e + n\<rparr>)\<rparr>)"
      using 1 by (subst cross_loop.simps) (simp add: P(2,7) sz r Let_def)
    then show ?thesis
      using 1 repr_shrink_front [OF Cons.prems(1) P(2,7) 1] by auto
  next
    case 2
    have r: "read_elem e n = Some d" using P(3) 2 by (simp add: read_elem_ok)
    from pop obtain q' where "popElementFromFront False 0
      (q\<lparr>heap := (heap q)(p \<mapsto> e\<lparr>e_size := 0\<rparr>), total_data_size := total_data_size q - e_size e\<rparr>) = Some ([], q')"
      "repr q' ps' ds" by blast
    then have "cross_loop n out th q = Some (out @ d, th + 1, q')"
      using 2 r by (subst cross_loop.simps) (simp add: P(2,7) sz Let_def)
    then show ?thesis
      using 2 \<open>repr q' ps' ds\<close> ne by (auto simp: drop_bytes_0)
  next
    case 3
    have r: "read_elem e (length d) = Some d" using P(3) by (simp add: read_elem_ok)
    from pop obtain q' where q': "popElementFromFront False 0
      (q\<lparr>heap := (heap q)(p \<mapsto> e\<lparr>e_size := 0\<rparr>), total_data_size := total_data_size q - e_size e\<rparr>) = Some ([], q')"
      "repr q' ps' ds" by blast
    have en: "element_num q' = length ds" using q'(2) by (simp add: repr_def)
    show ?thesis
    proof (cases "ds = []")
      case True
      have "cross_loop n out th q = Some (out @ d, th + 1, q')"
        using 3 q'(1) en True by (subst cross_loop.simps) (simp add: P(2,7) sz r Let_def)
      then show ?thesis using 3 q'(2) True by auto
    next
      case False
      have "cross_loop n out th q = cross_loop (n - length d) (out @ d) (th + 1) q'"
        using 3 q'(1) en False by (subst cross_loop.simps) (simp add: P(2,7) sz r Let_def)
      moreover obtain q'' ps'' where "cross_loop (n - length d) (out @ d) (th + 1) q' =
          Some ((out @ d) @ take (n - length d) (concat ds), th + 1 + (length ds - length (drop_bytes (n - length d) ds)), q'')"
        "repr q'' ps'' (drop_bytes (n - length d) ds)"
        using Cons.IH [OF q'(2) False, of "n - length d" "out @ d" "th + 1"] 3 by auto
      ultimately show ?thesis
        using 3 length_drop_bytes [of "n - length d" ds] by (intro exI [of _ q''] exI [of _ ps'']) (simp add: Suc_diff_le)
    qed
  qed
qed simp

lemma popDataCrossElement_spec:
  assumes "repr q ps ds"
  shows "\<exists>q' ps'. popDataCrossElement n q =
      Some (take n (concat ds), if ds \<noteq> [] \<and> 0 < n then Some (length ds - length (drop_bytes n ds)) else None, q') \<and>
    repr q' ps' (drop_bytes n ds)"
proof -
  have F: "element_num q = length ds" "total_data_size q = length (concat ds)" "[] \<notin> set ds"
    using assms by (auto simp: repr_def dest: dll_nonempty)
  show ?thesis
  proof (cases "ds \<noteq> [] \<and> 0 < n")
    case True
    then have "total_data_size q > 0" using F by (cases ds) auto
    then show ?thesis
      using True F(1) cross_loop_spec [OF assms, of n "[]" 0] by (auto simp: popDataCrossElement_def)
  next
    case False
    then have "take n (concat ds) = []" "drop_bytes n ds = ds" using F(3) by (auto simp: drop_bytes_0)
    then show ?thesis using False F(1) assms by (auto simp: popDataCrossElement_def)
  qed
qed

lemma remove_loop_spec:
  assumes "repr q ps ds" "0 < n"
  shows "\<exists>q' ps'. remove_loop n rv q =
      Some (if length (concat ds) < n then rv + length ds else rv + touched n ds - 1, q') \<and>
    repr q' ps' (drop_bytes n ds)"
  using assms
proof (induction ds arbitrary: q ps n rv)
  case Nil
  then have "total_data_size q = 0" by (simp add: repr_def)
  then show ?case using Nil by (subst remove_loop.simps) auto
next
  case (Cons d ds)
  from Cons.prems(1) obtain p ps' e where P: "ps = p # ps'" "heap q p = Some e" "elem_ok e d"
    "dll (heap q) (Some p) ps' None ds" "first_element q = Some p"
    "total_data_size q = e_size e + length (concat ds)"
    by (rule repr_ConsD)
  have sz: "e_size e = length d" "d \<noteq> []" using P(3) by (simp_all add: elem_ok_def)
  have ne: "[] \<notin> set ds" using P(4) by (rule dll_nonempty)
  have t: "total_data_size q > 0" using P(6) sz by simp
  from repr_popFront [OF Cons.prems(1), of False 0] obtain q' where
    pop: "popElementFromFront False 0 q = Some ([], q')" "repr q' ps' ds" using P(1) by auto
  consider "n < length d" | "n = length d" | "length d < n" by linarith
  then show ?case
  proof cases
    case 1
    then have "remove_loop n rv q = Some (rv, q\<lparr>total_data_size := total_data_size q - n,
          heap := (heap q)(p \<mapsto> e\<lparr>e_size := e_size e - n, e_read := e_read e + n\<rparr>)\<rparr>)"
      using t by (subst remove_loop.simps) (simp add: P(2,5) sz)
    then show ?thesis using 1 repr_shrink_front [OF Cons.prems(1) P(2,5) 1] by auto
  next
    case 2
    then have "remove_loop n rv q = Some (rv, q')"
      using t pop(1) by (subst remove_loop.simps) (simp add: P(2,5) sz)
    then show ?thesis using 2 pop(2) ne by (auto simp: drop_bytes_0)
  next
    case 3
    then have "remove_loop n rv q = remove_loop (n - length d) (rv + 1) q'"
      using t pop(1) by (subst remove_loop.simps) (simp add: P(2,5) sz)
    moreover obtain q'' ps'' where "remove_loop (n - length d) (rv + 1) q' =
        Some (if length (concat ds) < n - length d then rv + 1 + length ds else rv + 1 + touched (n - length d) ds - 1, q'')"
      "repr q'' ps'' (drop_bytes (n - length d) ds)"
      using Cons.IH [OF pop(2), of "n - length d" "rv + 1"] 3 by auto
    ultimately show ?thesis using 3 by (intro exI [of _ q''] exI [of _ ps'']) auto
  qed
qed

lemma removeData_spec:
  assumes "repr q ps ds" "0 < n" "ds \<noteq> []"
  shows "\<exists>q' ps'. removeData n q =
      Some (if length (concat ds) < n then length ds + 1 else touched n ds, q') \<and> repr q' ps' (drop_bytes n ds)"
proof -
  have "element_num q > 0" "total_data_size q > 0"
    using assms(1,3) by (cases ds; auto simp: repr_def dest: dll_nonempty)+
  then show ?thesis using remove_loop_spec [OF assms(1,2), of 1] assms(2) by (auto simp: removeData_def)
qed

section \<open>Whole queues\<close>

lemma clear_loop_spec:
  "dll h pv ps None ds \<Longrightarrow> distinct ps \<Longrightarrow>
   clear_loop h (nxt ps None) = Some (\<lambda>x. if x \<in> set ps then None else h x)"
proof (induction ds arbitrary: h pv ps)
  case Nil
  then have "ps = []" using dll_length by fastforce
  then show ?case by (subst clear_loop.simps) simp
next
  case (Cons d ds)
  from Cons.prems(1) obtain p ps' where ps: "ps = p # ps'" using dll_length [OF Cons.prems(1)] by (cases ps) auto
  with Cons.prems obtain e where e: "h p = Some e" "e_next e = nxt ps' None" "dll h (Some p) ps' None ds"
    by (auto split: option.splits)
  have "clear_loop (h(p := None)) (nxt ps' None) = Some (\<lambda>x. if x \<in> set ps' then None else (h(p := None)) x)"
  proof (rule Cons.IH)
    show "dll (h(p := None)) (Some p) ps' None ds" using e(3) Cons.prems(2) ps by (subst dll_frame) simp_all
    show "distinct ps'" using Cons.prems(2) ps by simp
  qed
  then show ?case
    using e(1,2) ps by (subst clear_loop.simps) (auto simp: fun_eq_iff)
qed

lemma clear_spec: "repr q ps ds \<Longrightarrow> clear q = Some (length ds, BufferQueue_new)"
proof -
  assume R: "repr q ps ds"
  then have "clear_loop (heap q) (first_element q) = Some (\<lambda>x. if x \<in> set ps then None else heap q x)"
    using clear_loop_spec [of "heap q" None ps ds] by (simp add: repr_def)
  moreover have "(\<lambda>x. if x \<in> set ps then None else heap q x) = Map.empty"
    using R by (auto simp: repr_def fun_eq_iff dom_def)
  moreover have "heap q = Map.empty" if "ds = []"
    using R repr_length [OF R] that by (simp add: repr_def)
  ultimately show ?thesis
    using R by (cases "ds = []") (auto simp: clear_def BufferQueue_new_def repr_def)
qed

lemma one_buffer_loop_spec:
  "dll h pv ps None ds \<Longrightarrow> remaind = length (concat ds) \<Longrightarrow>
   one_buffer_loop h (nxt ps None) remaind out = Some (out @ concat ds)"
proof (induction ds arbitrary: pv ps remaind out)
  case Nil
  then have "ps = []" using dll_length by fastforce
  then show ?case by (subst one_buffer_loop.simps) simp
next
  case (Cons d ds)
  from Cons.prems(1) obtain p ps' where ps: "ps = p # ps'" using dll_length [OF Cons.prems(1)] by (cases ps) auto
  with Cons.prems obtain e where e: "h p = Some e" "e_next e = nxt ps' None" "elem_ok e d" "dll h (Some p) ps' None ds"
    by (auto split: option.splits)
  have sz: "e_size e = length d" "d \<noteq> []" using e(3) by (simp_all add: elem_ok_def)
  have "read_elem e (length d) = Some d" using e(3) by (simp add: read_elem_ok)
  then show ?case
    using Cons.prems(2) Cons.IH [OF e(4), of "length (concat ds)" "out @ d"] sz ps e(1,2)
    by (subst one_buffer_loop.simps) simp
qed

text \<open>The buffers of a queue, found along the links.\<close>

fun walk :: "nat \<Rightarrow> (nat \<rightharpoonup> QUEUE_ELEMENT) \<Rightarrow> nat option \<Rightarrow> byte list list" where
  "walk (Suc n) h (Some a) =
     (case h a of None \<Rightarrow> [] | Some e \<Rightarrow> take (e_size e) (drop (e_read e) (e_data e)) # walk n h (e_next e))"
| "walk _ h _ = []"

definition buffers :: "BufferQueue \<Rightarrow> byte list list" where
  "buffers q = walk (element_num q) (heap q) (first_element q)"

lemma walk_dll: "dll h pv ps None ds \<Longrightarrow> walk (length ds) h (nxt ps None) = ds"
  by (induction h pv ps "None :: nat option" ds rule: dll.induct) (auto simp: elem_ok_def split: option.splits)

lemma repr_buffers: "repr q ps ds \<Longrightarrow> buffers q = ds"
  using walk_dll by (auto simp: repr_def buffers_def)

definition queue_inv :: "BufferQueue \<Rightarrow> bool" where
  "queue_inv q \<longleftrightarrow> (\<exists>ps ds. repr q ps ds)"

lemma queue_invI: "repr q ps ds \<Longrightarrow> queue_inv q"
  unfolding queue_inv_def by blast

definition queue_write :: "BufferQueue \<Rightarrow> byte list \<Rightarrow> BufferQueue \<Rightarrow> bool" where
  "queue_write q d q' \<longleftrightarrow>
     (\<exists>a b. a \<notin> dom (heap q) \<and> pushElementToLast (Some a) True (Some d) (length d) q = Some (b, q'))"

definition queue_read :: "nat \<Rightarrow> BufferQueue \<Rightarrow> (byte list \<times> BufferQueue) option" where
  "queue_read n q = map_option (\<lambda>(out, _, q). (out, q)) (popDataCrossElement n q)"

interpretation bq: byte_fifo queue_inv "\<lambda>q. concat (buffers q)" queue_write queue_read
proof
  fix q d q'
  assume "queue_inv q" and w: "queue_write q d q'"
  then obtain ps ds a b where R: "repr q ps ds" and a: "a \<notin> dom (heap q)"
    and p: "pushElementToLast (Some a) True (Some d) (length d) q = Some (b, q')"
    unfolding queue_inv_def queue_write_def by blast
  show "queue_inv q' \<and> concat (buffers q') = concat (buffers q) @ d"
  proof (cases "d = []")
    case True
    then show ?thesis using p R by (auto simp: pushElementToLast_def queue_inv_def)
  next
    case False
    with repr_pushLast [OF R a, of "length d" d] p have "repr q' (ps @ [a]) (ds @ [d])" by auto
    then show ?thesis using R by (auto simp: queue_inv_def repr_buffers)
  qed
next
  fix q n
  assume "queue_inv q"
  then obtain ps ds where R: "repr q ps ds" by (auto simp: queue_inv_def)
  from popDataCrossElement_spec [OF R, of n]
  show "\<exists>q'. queue_read n q = Some (take n (concat (buffers q)), q') \<and> queue_inv q' \<and>
      concat (buffers q') = drop n (concat (buffers q))"
    using repr_buffers [OF R] by (auto simp: queue_read_def repr_buffers concat_drop_bytes intro: queue_invI)
qed

lemma toOneBuffer_spec:
  assumes R: "repr q ps ds" and junk: "\<And>n. length (junk n) = n"
  shows "toOneBuffer junk True q = Some (Some (concat ds), length (concat ds))"
    and "toOneBufferWithNullEnding junk True q = Some (Some (concat ds @ [0]), length (concat ds) + 1)"
proof -
  have o: "one_buffer_loop (heap q) (first_element q) (total_data_size q) [] = Some (concat ds)"
    and t: "total_data_size q = length (concat ds)"
    using R one_buffer_loop_spec [of "heap q" None ps ds "length (concat ds)" "[]"] by (auto simp: repr_def)
  show "toOneBuffer junk True q = Some (Some (concat ds), length (concat ds))"
    using o junk by (simp add: toOneBuffer_def getTotalDataSize_def t memcpy_all)
  have "drop (length (concat ds)) ((junk (length (concat ds) + 1))[length (concat ds) := 0]) = [0]"
    using junk [of "length (concat ds) + 1"] by (simp add: drop_update_swap list_eq_iff_nth_eq)
  then show "toOneBufferWithNullEnding junk True q = Some (Some (concat ds @ [0]), length (concat ds) + 1)"
    using o by (simp add: toOneBufferWithNullEnding_def getTotalDataSize_def t memcpy_def)
qed

section \<open>Properties\<close>

text \<open>Property C16: the linked list is a double-ended queue of buffers: on a queue that represents the buffers
  \<open>ds\<close>, the two pushes add a copy of the data at their end, and the two pops remove the buffer at their
  end and copy as much of it as fits; links, counters and the set of live addresses stay consistent.\<close>

theorem buffer_queue_deque:
  assumes "repr q ps ds" "a \<notin> dom (heap q)" "0 < n" "n \<le> length src"
  shows "(\<exists>q'. pushElementToFront (Some a) True (Some src) n q = Some (True, q') \<and>
           repr q' (a # ps) (take n src # ds)) \<and>
         (\<exists>q'. pushElementToLast (Some a) True (Some src) n q = Some (True, q') \<and>
           repr q' (ps @ [a]) (ds @ [take n src])) \<and>
         (\<forall>d ds'. ds = d # ds' \<longrightarrow>
           (\<exists>q'. popElementFromFront True m q = Some (take m d, q') \<and> repr q' (tl ps) ds')) \<and>
         (\<forall>d ds'. ds = ds' @ [d] \<longrightarrow>
           (\<exists>q'. popElementFromLast True m q = Some (take m d, q') \<and> repr q' (butlast ps) ds'))"
proof (intro conjI allI impI)
  show "\<exists>q'. popElementFromFront True m q = Some (take m d, q') \<and> repr q' (tl ps) ds'" if "ds = d # ds'" for d ds'
    using repr_popFront [of q ps d ds' True m] assms(1) that by simp
  show "\<exists>q'. popElementFromLast True m q = Some (take m d, q') \<and> repr q' (butlast ps) ds'" if "ds = ds' @ [d]" for d ds'
    using repr_popLast [of q ps ds' d True m] assms(1) that by simp
qed (rule repr_pushFront [OF assms] repr_pushLast [OF assms])+

lemma buffer_queue_deque_witness:
  "\<exists>q'. pushElementToLast (Some 7) True (Some [1, 2, 3]) 2 BufferQueue_new = Some (True, q') \<and> repr q' [7] [[1, 2]]"
  using buffer_queue_deque [OF repr_new, of 7 2 "[1, 2, 3]" 0] by (simp add: BufferQueue_new_def)

text \<open>\<open>popDataCrossElement\<close> returns the first bytes of the concatenated buffers, across elements,
  never follows a null or freed pointer, ends, and leaves a queue of the remaining bytes; it reports the
  number of elements it removed.\<close>

theorem popDataCrossElement_takes:
  assumes "repr q ps ds"
  shows "\<exists>q' ps'. popDataCrossElement n q =
      Some (take n (concat ds), if ds \<noteq> [] \<and> 0 < n then Some (length ds - length (drop_bytes n ds)) else None, q') \<and>
    repr q' ps' (drop_bytes n ds) \<and> concat (drop_bytes n ds) = drop n (concat ds)"
  using popDataCrossElement_spec [OF assms, of n] concat_drop_bytes [of n ds] by auto

lemma popDataCrossElement_takes_witness:
  "\<exists>q q' ps'. popDataCrossElement 1 q = Some ([5], Some 0, q') \<and> repr q' ps' [[6]]"
proof -
  obtain q where "repr q [0] [[5, 6]]"
    using repr_pushLast [OF repr_new, of 0 2 "[5, 6]"] by (auto simp: BufferQueue_new_def)
  from popDataCrossElement_takes [OF this, of 1] show ?thesis by auto
qed

text \<open>\<open>removeData\<close> removes the first bytes and returns the number of elements they touch; when
  fewer bytes than asked for are in the queue it empties it and returns one more than their number.\<close>

theorem removeData_removes:
  assumes "repr q ps ds" "0 < n" "ds \<noteq> []"
  shows "\<exists>q' ps'. removeData n q =
      Some (if length (concat ds) < n then length ds + 1 else touched n ds, q') \<and> repr q' ps' (drop_bytes n ds)"
  using assms by (rule removeData_spec)

lemma removeData_removes_witness:
  "\<exists>q q' ps'. removeData 3 q = Some (2, q') \<and> repr q' ps' []"
proof -
  obtain q where "repr q [0] [[5, 6]]"
    using repr_pushLast [OF repr_new, of 0 2 "[5, 6]"] by (auto simp: BufferQueue_new_def)
  from removeData_removes [OF this, of 3] show ?thesis by (auto simp: numeral_2_eq_2)
qed

text \<open>What was written to an empty queue in any number of pushes is read back by one read of the
  total length, in order, and the queue is then empty.\<close>

theorem buffer_queue_fifo:
  assumes "write_seq queue_write BufferQueue_new ds q'"
  shows "\<exists>q''. queue_read (length (concat ds)) q' = Some (concat ds, q'') \<and> concat (buffers q'') = []"
proof (rule bq.read_back [OF _ _ assms])
  show "queue_inv BufferQueue_new" using repr_new by (auto simp: queue_inv_def)
  show "concat (buffers BufferQueue_new) = []" using repr_buffers [OF repr_new] by simp
qed

lemma buffer_queue_fifo_witness:
  "\<exists>q' q''. queue_read 3 q' = Some ([1, 2, 3], q'') \<and> concat (buffers q'') = []"
proof -
  obtain q1 where q1: "pushElementToLast (Some 0) True (Some [1, 2]) 2 BufferQueue_new = Some (True, q1)" "repr q1 [0] [[1, 2]]"
    using repr_pushLast [OF repr_new, of 0 2 "[1, 2]"] by (auto simp: BufferQueue_new_def)
  obtain q2 where q2: "pushElementToLast (Some 1) True (Some [3]) 1 q1 = Some (True, q2)"
    using repr_pushLast [OF q1(2), of 1 1 "[3]"] q1(2) by (auto simp: repr_def)
  have "queue_write BufferQueue_new [1, 2] q1"
    unfolding queue_write_def using q1(1) by (intro exI [of _ 0] exI [of _ True]) (simp add: BufferQueue_new_def numeral_2_eq_2)
  moreover have "queue_write q1 [3] q2"
    unfolding queue_write_def using q1(2) q2 by (intro exI [of _ 1] exI [of _ True]) (simp add: repr_def)
  ultimately have "write_seq queue_write BufferQueue_new [[1, 2], [3]] q2"
    by (auto intro!: write_seq.intros)
  from buffer_queue_fifo [OF this] show ?thesis by (auto simp: numeral_3_eq_3)
qed

text \<open>\<open>clear\<close> frees every element and returns their number, and the two functions that merge
  the queue return all bytes in order, with and without a terminating zero.\<close>

theorem buffer_queue_whole:
  assumes "repr q ps ds" "\<forall>n. length (junk n) = n"
  shows "clear q = Some (length ds, BufferQueue_new) \<and>
    toOneBuffer junk True q = Some (Some (concat ds), length (concat ds)) \<and>
    toOneBufferWithNullEnding junk True q = Some (Some (concat ds @ [0]), length (concat ds) + 1)"
  using clear_spec [OF assms(1)] toOneBuffer_spec [OF assms(1), of junk] assms(2) by simp

lemma buffer_queue_whole_witness:
  "clear BufferQueue_new = Some (0, BufferQueue_new)"
  using buffer_queue_whole [OF repr_new, of "\<lambda>n. replicate n 0"] by simp

end
