(* ===== verification/Transition.thy ===== *)
theory Transition
  imports Main
begin

text \<open>
  State machines: the states that a step relation with labels reaches from its initial states, runs,
  and what an invariant gives. The components with threads are instances.
\<close>

inductive reachable :: "('s \<Rightarrow> bool) \<Rightarrow> ('s \<Rightarrow> 'l \<Rightarrow> 's \<Rightarrow> bool) \<Rightarrow> 's \<Rightarrow> bool"
  for init :: "'s \<Rightarrow> bool" and step :: "'s \<Rightarrow> 'l \<Rightarrow> 's \<Rightarrow> bool" where
  reachable_init: "init s \<Longrightarrow> reachable init step s"
| reachable_step: "reachable init step s \<Longrightarrow> step s l s' \<Longrightarrow> reachable init step s'"

text \<open>A run with the labels of its steps, in order.\<close>

inductive run :: "('s \<Rightarrow> 'l \<Rightarrow> 's \<Rightarrow> bool) \<Rightarrow> 's \<Rightarrow> 'l list \<Rightarrow> 's \<Rightarrow> bool"
  for step :: "'s \<Rightarrow> 'l \<Rightarrow> 's \<Rightarrow> bool" where
  run_Nil: "run step s [] s"
| run_Cons: "step s l s' \<Longrightarrow> run step s' ls s'' \<Longrightarrow> run step s (l # ls) s''"

inductive_simps run_Nil_iff [simp]: "run step s [] s'"

inductive_simps run_Cons_iff: "run step s (l # ls) s'"

lemma run_append: "run step s (ls @ ms) t \<longleftrightarrow> (\<exists>u. run step s ls u \<and> run step u ms t)"
  by (induction ls arbitrary: s) (auto simp: run_Cons_iff)

lemma reachable_run: "reachable init step s \<Longrightarrow> run step s ls s' \<Longrightarrow> reachable init step s'"
  by (rotate_tac, induction rule: run.induct) (auto intro: reachable_step)

locale state_machine =
  fixes init :: "'s \<Rightarrow> bool"
    and step :: "'s \<Rightarrow> 'l \<Rightarrow> 's \<Rightarrow> bool"
    and inv :: "'s \<Rightarrow> bool"
  assumes inv_init: "init s \<Longrightarrow> inv s"
    and inv_step: "inv s \<Longrightarrow> step s l s' \<Longrightarrow> inv s'"
begin

lemma inv_reachable: "reachable init step s \<Longrightarrow> inv s"
  by (induction rule: reachable.induct) (auto intro: inv_init inv_step)

lemma inv_run: "run step s ls s' \<Longrightarrow> inv s \<Longrightarrow> inv s'"
  by (induction rule: run.induct) (auto intro: inv_step)

text \<open>A property that every step but the labels \<open>bad\<close> keeps lasts as long as no such label occurs.\<close>

lemma stable_run:
  assumes keep: "\<And>s l s'. inv s \<Longrightarrow> P s \<Longrightarrow> step s l s' \<Longrightarrow> \<not> bad l \<Longrightarrow> P s' \<and> ok l"
  shows "run step s ls s' \<Longrightarrow> inv s \<Longrightarrow> P s \<Longrightarrow> \<forall>l \<in> set ls. \<not> bad l \<Longrightarrow> P s' \<and> (\<forall>l \<in> set ls. ok l)"
proof (induction rule: run.induct)
  case (run_Cons s l s' ls s'')
  then show ?case using keep [of s l s'] inv_step [of s l s'] by auto
qed simp

end

end
