(* ===== verification/Timer_Manager.thy ===== *)
theory Timer_Manager
  imports Transition "HOL-Library.Word" "HOL-Library.Multiset"
begin

text \<open>
  Model of \<^verbatim>\<open>src/src/timer_manager.cpp\<close>. Times are microseconds of the steady clock. The vector of
  timers, the ordered multiset of events, the stack of free identifiers and the flag \<open>done_\<close> are the
  state, with the event that the worker has taken, and whether it has called the handler yet: it releases the
  mutex first and looks up the handler afterwards, without it. Every locked section is a function, and so is this
  call; the threads interleave as the steps of a relation. What a handler does to the manager is other steps
  between the call and its return.
\<close>

section \<open>State\<close>

record 'h TimerData =
  td_id :: nat
  td_start :: int
  td_period :: int
  td_handler :: 'h
  td_valid :: bool

record TimeEvent =
  te_next :: int
  te_ref :: nat

record 'h TimerManager =
  tm_done :: bool
  events :: "'h TimerData list"
  time_events :: "TimeEvent list"
  free_ids :: "nat list"
  running :: "TimeEvent option"
  calling :: bool

definition TimerManager_new :: "'h TimerManager" where
  "TimerManager_new = \<lparr>tm_done = False, events = [], time_events = [], free_ids = [], running = None, calling = False\<rparr>"

text \<open>\<open>insert\<close> of a multiset: behind the events that are not later.\<close>

definition insert_event :: "TimeEvent \<Rightarrow> TimeEvent list \<Rightarrow> TimeEvent list" where
  "insert_event te tes =
     takeWhile (\<lambda>t. te_next t \<le> te_next te) tes @ [te] @ dropWhile (\<lambda>t. te_next t \<le> te_next te) tes"

section \<open>Operations\<close>

definition tm_add :: "int \<Rightarrow> 'h \<Rightarrow> int \<Rightarrow> 'h TimerManager \<Rightarrow> nat \<times> 'h TimerManager" where
  "tm_add when handler period s =
     (let (i, s) =
        (case free_ids s of
           [] \<Rightarrow>
             (let i = length (events s);
                  e = \<lparr>td_id = i, td_start = when, td_period = period, td_handler = handler, td_valid = True\<rparr>
              in (i, s\<lparr>events := events s @ [e]\<rparr>))
         | i # ids \<Rightarrow>
             (let e = \<lparr>td_id = i, td_start = when, td_period = period, td_handler = handler, td_valid = True\<rparr>
              in (i, s\<lparr>free_ids := ids, events := (events s)[i := e]\<rparr>)))
      in (i, s\<lparr>time_events := insert_event \<lparr>te_next = when, te_ref = i\<rparr> (time_events s)\<rparr>))"

text \<open>The overloads with a delay; the unsigned arguments become signed microseconds.\<close>

definition tm_add_duration :: "int \<Rightarrow> int \<Rightarrow> 'h \<Rightarrow> int \<Rightarrow> 'h TimerManager \<Rightarrow> nat \<times> 'h TimerManager" where
  "tm_add_duration now when handler period s = tm_add (now + when) handler period s"

definition tm_add_after :: "int \<Rightarrow> 64 word \<Rightarrow> 'h \<Rightarrow> 64 word \<Rightarrow> 'h TimerManager \<Rightarrow> nat \<times> 'h TimerManager" where
  "tm_add_after now afterMicroseconds handler periodMicroseconds s =
     tm_add_duration now (sint afterMicroseconds) handler (sint periodMicroseconds) s"

text \<open>\<open>erase\<close> of the first event of an identifier.\<close>

fun erase_ref :: "nat \<Rightarrow> TimeEvent list \<Rightarrow> TimeEvent list" where
  "erase_ref i [] = []"
| "erase_ref i (te # tes) = (if te_ref te = i then tes else te # erase_ref i tes)"

definition tm_remove :: "nat \<Rightarrow> 'h TimerManager \<Rightarrow> bool \<times> 'h TimerManager" where
  "tm_remove i s =
     (if events s = [] \<or> length (events s) \<le> i then (False, s)
      else let s = s\<lparr>events := (events s)[i := (events s ! i)\<lparr>td_valid := False\<rparr>]\<rparr>
           in (True,
               if List.find (\<lambda>te. te_ref te = i) (time_events s) \<noteq> None
               then s\<lparr>free_ids := i # free_ids s, time_events := erase_ref i (time_events s)\<rparr>
               else s))"

text \<open>The head of the loop of \<open>run\<close> at the time \<open>now\<close>, up to the release of the mutex.\<close>

datatype run_action = Exit | Wait | WaitUntil int | Take nat

definition run_head :: "int \<Rightarrow> 'h TimerManager \<Rightarrow> run_action \<times> 'h TimerManager" where
  "run_head now s =
     (if tm_done s then (Exit, s)
      else case time_events s of
          [] \<Rightarrow> (Wait, s)
        | te # tes \<Rightarrow>
            if now \<ge> te_next te
            then (Take (te_ref te), s\<lparr>time_events := tes, running := Some te, calling := False\<rparr>)
            else (WaitUntil (te_next te), s))"

text \<open>Without the mutex: the handler that the vector has now is called.\<close>

definition run_call :: "TimeEvent \<Rightarrow> 'h TimerManager \<Rightarrow> 'h \<times> 'h TimerManager" where
  "run_call te s = (td_handler (events s ! te_ref te), s\<lparr>calling := True\<rparr>)"

text \<open>The rest of the iteration, after the handler returned or threw.\<close>

definition run_tail :: "TimeEvent \<Rightarrow> 'h TimerManager \<Rightarrow> 'h TimerManager" where
  "run_tail te s =
     (let s = s\<lparr>running := None, calling := False\<rparr>;
          e = events s ! te_ref te
      in if td_valid e \<and> td_period e > 0
         then s\<lparr>time_events := insert_event (te\<lparr>te_next := te_next te + td_period e\<rparr>) (time_events s)\<rparr>
         else s\<lparr>events := (events s)[te_ref te := e\<lparr>td_valid := False\<rparr>], free_ids := te_ref te # free_ids s\<rparr>)"

text \<open>\<open>destory\<close>: the flag first; the containers are cleared when the worker has ended.\<close>

definition tm_set_done :: "'h TimerManager \<Rightarrow> 'h TimerManager" where
  "tm_set_done s = s\<lparr>tm_done := True\<rparr>"

definition tm_clear :: "'h TimerManager \<Rightarrow> 'h TimerManager" where
  "tm_clear s = s\<lparr>events := [], time_events := [], free_ids := []\<rparr>"

section \<open>Steps\<close>

datatype 'h tm_label =
  Add nat int int 'h | Remove nat bool | Head int run_action | Call 'h nat | Return nat | Stop | Destroyed

inductive tm_step :: "'h TimerManager \<Rightarrow> 'h tm_label \<Rightarrow> 'h TimerManager \<Rightarrow> bool" where
  step_add: "tm_add when handler period s = (i, s') \<Longrightarrow> tm_step s (Add i when period handler) s'"
| step_remove: "tm_remove i s = (b, s') \<Longrightarrow> tm_step s (Remove i b) s'"
| step_head: "running s = None \<Longrightarrow> run_head now s = (a, s') \<Longrightarrow> tm_step s (Head now a) s'"
| step_call: "running s = Some te \<Longrightarrow> \<not> calling s \<Longrightarrow> run_call te s = (h, s') \<Longrightarrow> tm_step s (Call h (te_ref te)) s'"
| step_tail: "running s = Some te \<Longrightarrow> calling s \<Longrightarrow> run_tail te s = s' \<Longrightarrow> tm_step s (Return (te_ref te)) s'"
| step_done: "tm_step s Stop (tm_set_done s)"
| step_clear: "tm_done s \<Longrightarrow> running s = None \<Longrightarrow> tm_step s Destroyed (tm_clear s)"

inductive_cases tm_stepE: "tm_step s l s'"

definition tm_init :: "'h TimerManager \<Rightarrow> bool" where
  "tm_init s \<longleftrightarrow> s = TimerManager_new"

section \<open>The invariant\<close>

text \<open>
  Every identifier is free, scheduled or running, exactly once; the events are in the order of time; a
  free identifier is not valid and a scheduled one is.
\<close>

definition running_refs :: "'h TimerManager \<Rightarrow> nat list" where
  "running_refs s = (case running s of None \<Rightarrow> [] | Some te \<Rightarrow> [te_ref te])"

definition tm_inv :: "'h TimerManager \<Rightarrow> bool" where
  "tm_inv s \<longleftrightarrow>
     mset (free_ids s) + mset (map te_ref (time_events s)) + mset (running_refs s) = mset [0..<length (events s)] \<and>
     sorted (map te_next (time_events s)) \<and>
     (\<forall>i \<in> set (free_ids s). \<not> td_valid (events s ! i)) \<and>
     (\<forall>i \<in> set (map te_ref (time_events s)). td_valid (events s ! i))"

lemma mset_insert_event [simp]: "mset (insert_event te tes) = add_mset te (mset tes)"
proof -
  have "mset tes = mset (takeWhile (\<lambda>t. te_next t \<le> te_next te) tes) + mset (dropWhile (\<lambda>t. te_next t \<le> te_next te) tes)"
    by (metis mset_append takeWhile_dropWhile_id)
  then show ?thesis by (simp add: insert_event_def)
qed

lemma set_insert_event [simp]: "set (insert_event te tes) = insert te (set tes)"
proof -
  have "set tes = set (takeWhile (\<lambda>t. te_next t \<le> te_next te) tes) \<union> set (dropWhile (\<lambda>t. te_next t \<le> te_next te) tes)"
    by (metis set_append takeWhile_dropWhile_id)
  then show ?thesis by (auto simp: insert_event_def)
qed

lemma sorted_insert_event:
  "sorted (map te_next tes) \<Longrightarrow> sorted (map te_next (insert_event te tes))"
proof (induction tes)
  case (Cons t tes)
  show ?case
  proof (cases "te_next t \<le> te_next te")
    case True
    then have "insert_event te (t # tes) = t # insert_event te tes" by (simp add: insert_event_def)
    then show ?thesis using Cons True by auto
  next
    case False
    then have "insert_event te (t # tes) = te # t # tes" by (simp add: insert_event_def)
    then show ?thesis using Cons False by auto
  qed
qed (simp add: insert_event_def)

lemma mset_erase_ref:
  "i \<in> set (map te_ref tes) \<Longrightarrow> mset (map te_ref tes) = add_mset i (mset (map te_ref (erase_ref i tes)))"
  by (induction tes) auto

lemma set_erase_ref: "set (erase_ref i tes) \<subseteq> set tes"
  by (induction tes) auto

lemma sorted_erase_ref: "sorted (map te_next tes) \<Longrightarrow> sorted (map te_next (erase_ref i tes))"
  by (induction tes) (use set_erase_ref in auto)

lemma find_ref: "List.find (\<lambda>te. te_ref te = i) tes \<noteq> None \<longleftrightarrow> i \<in> set (map te_ref tes)"
  by (auto simp: find_None_iff)

lemma tm_inv_ids:
  assumes "tm_inv s"
  shows "distinct (free_ids s @ map te_ref (time_events s) @ running_refs s)"
    and "set (free_ids s) \<union> set (map te_ref (time_events s)) \<union> set (running_refs s) = {..<length (events s)}"
proof -
  have m: "mset (free_ids s @ map te_ref (time_events s) @ running_refs s) = mset [0..<length (events s)]"
    using assms by (simp add: tm_inv_def add.assoc)
  then show "distinct (free_ids s @ map te_ref (time_events s) @ running_refs s)"
    using mset_eq_imp_distinct_iff distinct_upt by blast
  from m show "set (free_ids s) \<union> set (map te_ref (time_events s)) \<union> set (running_refs s) = {..<length (events s)}"
    using mset_eq_setD [OF m] by (auto simp: atLeast0LessThan [symmetric])
qed

text \<open>An identifier that is handed out is neither scheduled nor running.\<close>

lemma tm_add_fresh:
  assumes "tm_inv s" "tm_add when handler period s = (i, s')"
  shows "i \<notin> set (map te_ref (time_events s))" "i \<notin> set (running_refs s)"
  using tm_inv_ids [OF assms(1)] assms(2)
  by (auto simp: tm_add_def Let_def split: list.splits)

lemma tm_inv_add:
  assumes I: "tm_inv s" and a: "tm_add when handler period s = (i, s')"
  shows "tm_inv s'"
proof (cases "free_ids s")
  case Nil
  let ?n = "length (events s)"
  have lt: "\<forall>j \<in> set (map te_ref (time_events s)). j < ?n" using tm_inv_ids(2) [OF I] by auto
  from a Nil have "i = ?n" "free_ids s' = []" "running s' = running s"
    "time_events s' = insert_event \<lparr>te_next = when, te_ref = ?n\<rparr> (time_events s)"
    "events s' = events s @ [\<lparr>td_id = ?n, td_start = when, td_period = period, td_handler = handler, td_valid = True\<rparr>]"
    by (auto simp: tm_add_def Let_def)
  with I Nil lt show ?thesis
    by (auto simp: tm_inv_def running_refs_def nth_append sorted_insert_event)
next
  case (Cons j ids)
  have d: "distinct (j # ids)" "j \<notin> set (map te_ref (time_events s))" "j < length (events s)"
    using tm_inv_ids [OF I] Cons by auto
  from a Cons have "i = j" "free_ids s' = ids" "running s' = running s"
    "time_events s' = insert_event \<lparr>te_next = when, te_ref = j\<rparr> (time_events s)"
    "events s' = (events s)[j := \<lparr>td_id = j, td_start = when, td_period = period, td_handler = handler, td_valid = True\<rparr>]"
    by (auto simp: tm_add_def Let_def)
  with I Cons d show ?thesis
    by (auto simp: tm_inv_def running_refs_def nth_list_update sorted_insert_event)
qed

lemma tm_inv_remove:
  assumes I: "tm_inv s" and r: "tm_remove i s = (b, s')"
  shows "tm_inv s'"
proof (cases "i < length (events s)")
  case False
  then show ?thesis using I r by (auto simp: tm_remove_def split: if_splits)
next
  case True
  note D = tm_inv_ids [OF I]
  let ?ev = "(events s)[i := (events s ! i)\<lparr>td_valid := False\<rparr>]"
  show ?thesis
  proof (cases "i \<in> set (map te_ref (time_events s))")
    case False
    then have "List.find (\<lambda>te. te_ref te = i) (time_events s) = None" using find_ref by blast
    with r True have "s' = s\<lparr>events := ?ev\<rparr>"
      by (auto simp: tm_remove_def Let_def split: if_splits)
    then show ?thesis
      using I False True by (auto simp: tm_inv_def running_refs_def nth_list_update)
  next
    case in_queue: True
    then have "List.find (\<lambda>te. te_ref te = i) (time_events s) \<noteq> None" using find_ref by blast
    with r True have s': "s' = s\<lparr>events := ?ev, free_ids := i # free_ids s, time_events := erase_ref i (time_events s)\<rparr>"
      by (auto simp: tm_remove_def Let_def split: if_splits)
    have m: "mset (map te_ref (time_events s)) = add_mset i (mset (map te_ref (erase_ref i (time_events s))))"
      by (rule mset_erase_ref [OF in_queue])
    then have "i \<notin> set (map te_ref (erase_ref i (time_events s)))"
      using D(1) by (metis distinct_append distinct.simps(2) mset.simps(2) mset_eq_imp_distinct_iff)
    then show ?thesis
      using I m in_queue True set_erase_ref [of i "time_events s"]
      by (auto simp: s' tm_inv_def running_refs_def nth_list_update sorted_erase_ref)
  qed
qed

lemma tm_inv_head:
  assumes I: "tm_inv s" and n: "running s = None" and h: "run_head now s = (a, s')"
  shows "tm_inv s'"
  using assms
  by (auto simp: run_head_def tm_inv_def running_refs_def split: list.splits if_splits)

lemma tm_inv_call: "tm_inv s \<Longrightarrow> run_call te s = (h, s') \<Longrightarrow> tm_inv s'"
  by (auto simp: run_call_def tm_inv_def running_refs_def)

lemma tm_inv_tail:
  assumes I: "tm_inv s" and r: "running s = Some te"
  shows "tm_inv (run_tail te s)"
proof -
  let ?i = "te_ref te"
  have D: "?i < length (events s)" "?i \<notin> set (free_ids s)" "?i \<notin> set (map te_ref (time_events s))"
    using tm_inv_ids [OF I] r by (auto simp: running_refs_def)
  show ?thesis
  proof (cases "td_valid (events s ! ?i) \<and> td_period (events s ! ?i) > 0")
    case True
    then show ?thesis
      using I r D by (auto simp: run_tail_def Let_def tm_inv_def running_refs_def sorted_insert_event)
  next
    case False
    then have "run_tail te s = s\<lparr>running := None, calling := False, events := (events s)[?i := (events s ! ?i)\<lparr>td_valid := False\<rparr>],
        free_ids := ?i # free_ids s\<rparr>"
      by (auto simp: run_tail_def Let_def)
    then show ?thesis
      using I r D by (auto simp: tm_inv_def running_refs_def nth_list_update)
  qed
qed

interpretation tm: state_machine tm_init tm_step tm_inv
proof
  show "tm_inv s" if "tm_init s" for s :: "'h TimerManager"
    using that by (simp add: tm_init_def TimerManager_new_def tm_inv_def running_refs_def)
  show "tm_inv s'" if "tm_inv s" "tm_step s l s'" for s l and s' :: "'h TimerManager"
    using that(2,1)
  proof (cases rule: tm_step.cases)
    case step_done
    then show ?thesis using that(1) by (simp add: tm_set_done_def tm_inv_def running_refs_def)
  next
    case step_clear
    then show ?thesis using that(1) by (simp add: tm_clear_def tm_inv_def running_refs_def)
  qed (auto intro: tm_inv_add tm_inv_remove tm_inv_head tm_inv_call tm_inv_tail)
qed

section \<open>Removed timers\<close>

text \<open>A timer is off when it is not scheduled and not valid. It stays off until its identifier is handed out again. Its
  handler can be called once more, when the worker had taken its event and not yet called it.\<close>

definition timer_off :: "nat \<Rightarrow> 'h TimerManager \<Rightarrow> bool" where
  "timer_off i s \<longleftrightarrow> i \<notin> set (map te_ref (time_events s)) \<and> (i < length (events s) \<longrightarrow> \<not> td_valid (events s ! i))"

definition adds :: "nat \<Rightarrow> 'h tm_label \<Rightarrow> bool" where
  "adds i l \<longleftrightarrow> (\<exists>w p h. l = Add i w p h)"

definition calls :: "nat \<Rightarrow> 'h tm_label list \<Rightarrow> nat" where
  "calls i ls = length (filter (\<lambda>l. \<exists>h. l = Call h i) ls)"

definition taken :: "nat \<Rightarrow> 'h TimerManager \<Rightarrow> bool" where
  "taken i s \<longleftrightarrow> (\<exists>te. running s = Some te \<and> te_ref te = i) \<and> \<not> calling s"

lemma erase_ref_notin: "distinct (map te_ref tes) \<Longrightarrow> i \<notin> set (map te_ref (erase_ref i tes))"
  by (induction tes) (use set_erase_ref in auto)

lemma remove_off: "tm_inv s \<Longrightarrow> tm_remove i s = (True, s') \<Longrightarrow> timer_off i s'"
proof -
  assume I: "tm_inv s" and r: "tm_remove i s = (True, s')"
  then have i: "i < length (events s)" by (auto simp: tm_remove_def split: if_splits)
  have d: "distinct (map te_ref (time_events s))" using tm_inv_ids(1) [OF I] by simp
  have "i \<notin> set (map te_ref (erase_ref i (time_events s)))" using d by (rule erase_ref_notin)
  then show ?thesis
    using r i find_ref [of i "time_events s"]
    by (auto simp: tm_remove_def Let_def timer_off_def split: if_splits)
qed

lemma off_step:
  assumes I: "tm_inv s" and P: "timer_off i s" and st: "tm_step s l s'" and na: "\<not> adds i l"
  shows "timer_off i s' \<and> calls i [l] + of_bool (taken i s') \<le> of_bool (taken i s)"
  using st
proof (cases rule: tm_step.cases)
  case (step_add w handler period j)
  then have "j \<noteq> i" using na by (auto simp: adds_def)
  with P step_add show ?thesis
    by (auto simp: timer_off_def calls_def taken_def tm_add_def Let_def nth_append nth_list_update split: list.splits)
next
  case (step_remove j b)
  then show ?thesis
    using P set_erase_ref [of j "time_events s"]
    by (auto simp: timer_off_def calls_def taken_def tm_remove_def Let_def nth_list_update split: if_splits)
next
  case (step_head now a)
  then show ?thesis
    using P by (auto simp: timer_off_def calls_def taken_def run_head_def split: list.splits if_splits)
next
  case (step_call te h)
  then show ?thesis
    using P by (auto simp: timer_off_def calls_def taken_def run_call_def)
next
  case (step_tail te)
  have "te_ref te < length (events s)"
    using tm_inv_ids(2) [OF I] step_tail by (auto simp: running_refs_def)
  then show ?thesis
    using P step_tail
    by (auto simp: timer_off_def calls_def taken_def run_tail_def Let_def nth_list_update split: if_splits)
next
  case step_done
  then show ?thesis using P by (simp add: timer_off_def calls_def taken_def tm_set_done_def)
next
  case step_clear
  then show ?thesis by (simp add: timer_off_def calls_def taken_def tm_clear_def)
qed

lemma off_run:
  assumes "run tm_step s ls s'" "tm_inv s" "timer_off i s" "\<forall>l \<in> set ls. \<not> adds i l"
  shows "calls i ls \<le> of_bool (taken i s)"
  using assms
proof (induction rule: run.induct)
  case (run_Cons s l s' ls s'')
  have "timer_off i s' \<and> calls i [l] + of_bool (taken i s') \<le> of_bool (taken i s)"
    using run_Cons.prems run_Cons.hyps(1) by (intro off_step) auto
  moreover have "calls i ls \<le> of_bool (taken i s')"
    using run_Cons.IH tm.inv_step [OF run_Cons.prems(1) run_Cons.hyps(1)] run_Cons.prems(3) calculation by auto
  moreover have "calls i (l # ls) = calls i [l] + calls i ls" by (simp add: calls_def)
  ultimately show ?case by linarith
qed (simp add: calls_def)

section \<open>Properties\<close>

text \<open>Property C17: in every reachable state of the manager every identifier below the size of the vector is
  free, scheduled or running, exactly once; the events are sorted by time; free identifiers are not valid
  and scheduled ones are.\<close>

theorem timer_manager_invariant:
  assumes "reachable tm_init tm_step s"
  shows "mset (free_ids s) + mset (map te_ref (time_events s)) + mset (running_refs s) = mset [0..<length (events s)] \<and>
    sorted (map te_next (time_events s)) \<and>
    (\<forall>i \<in> set (free_ids s). \<not> td_valid (events s ! i)) \<and>
    (\<forall>i \<in> set (map te_ref (time_events s)). td_valid (events s ! i))"
  using tm.inv_reachable [OF assms] unfolding tm_inv_def .

lemma reachable_one: "reachable tm_init tm_step (snd (tm_add 5 () 0 TimerManager_new))"
proof (rule reachable_step)
  show "reachable tm_init tm_step (TimerManager_new :: unit TimerManager)"
    by (rule reachable_init) (simp add: tm_init_def)
  show "tm_step TimerManager_new (Add (fst (tm_add 5 () 0 TimerManager_new)) 5 0 ()) (snd (tm_add 5 () 0 TimerManager_new))"
    by (rule step_add) simp
qed

lemma timer_manager_invariant_witness:
  "mset (map te_ref (time_events (snd (tm_add 5 () 0 TimerManager_new)))) = {#0#}"
  using timer_manager_invariant [OF reachable_one]
  by (simp add: tm_add_def TimerManager_new_def insert_event_def running_refs_def)

text \<open>Property C18: after \<open>remove\<close> has returned true, the handler of that identifier is called no more in any continuation,
  however the threads interleave, until \<open>add\<close> hands out the identifier again; only when the worker had taken its event
  and not yet called the handler at the removal, it is called at most once.\<close>

theorem removed_timer_fires_no_more:
  assumes "reachable tm_init tm_step s" "tm_remove i s = (True, s1)" "run tm_step s1 ls s2"
    and "\<forall>l \<in> set ls. \<not> adds i l"
  shows "calls i ls \<le> (if \<exists>te. running s = Some te \<and> te_ref te = i \<and> \<not> calling s then 1 else 0)"
proof -
  have I: "tm_inv s" by (rule tm.inv_reachable [OF assms(1)])
  have "running s1 = running s" "calling s1 = calling s"
    using assms(2) by (auto simp: tm_remove_def Let_def split: if_splits)
  then have "taken i s1 \<longleftrightarrow> (\<exists>te. running s = Some te \<and> te_ref te = i \<and> \<not> calling s)"
    by (auto simp: taken_def)
  then have "of_bool (taken i s1) = (if \<exists>te. running s = Some te \<and> te_ref te = i \<and> \<not> calling s then 1 else (0 :: nat))"
    by (simp only: of_bool_def)
  then show ?thesis
    using off_run [OF assms(3) tm_inv_remove [OF I assms(2)] remove_off [OF I assms(2)] assms(4)] by simp
qed

text \<open>The worker takes the only timer; it is removed before the handler is looked up, and the handler is called.\<close>

definition one_timer :: "unit TimerManager" where
  "one_timer = snd (tm_add 5 () 2 TimerManager_new)"

definition one_taken :: "unit TimerManager" where
  "one_taken = snd (run_head 7 one_timer)"

definition one_removed :: "unit TimerManager" where
  "one_removed = snd (tm_remove 0 one_taken)"

lemmas one_simps = one_timer_def one_taken_def one_removed_def tm_add_def TimerManager_new_def insert_event_def run_head_def
  tm_remove_def run_call_def run_tail_def

lemma one_timer_reachable: "reachable tm_init tm_step one_timer"
proof (rule reachable_step)
  show "reachable tm_init tm_step (TimerManager_new :: unit TimerManager)"
    by (rule reachable_init) (simp add: tm_init_def)
  show "tm_step TimerManager_new (Add 0 5 2 ()) one_timer" by (rule step_add) (simp add: one_simps)
qed

lemma one_taken_reachable: "reachable tm_init tm_step one_taken"
proof (rule reachable_step [OF one_timer_reachable])
  show "tm_step one_timer (Head 7 (Take 0)) one_taken" by (rule step_head) (simp_all add: one_simps)
qed

lemma one_removed_run:
  "run tm_step one_removed [Call () 0, Return 0, Head 9 Wait]
     (snd (run_head 9 (run_tail \<lparr>te_next = 5, te_ref = 0\<rparr> (snd (run_call \<lparr>te_next = 5, te_ref = 0\<rparr> one_removed)))))"
proof -
  let ?te = "\<lparr>te_next = 5, te_ref = 0\<rparr>"
  have "tm_step one_removed (Call () 0) (snd (run_call ?te one_removed))"
    using step_call [of one_removed ?te] by (simp add: one_simps)
  moreover have "tm_step (snd (run_call ?te one_removed)) (Return 0) (run_tail ?te (snd (run_call ?te one_removed)))"
    using step_tail [of "snd (run_call ?te one_removed)" ?te] by (simp add: one_simps)
  moreover have "tm_step (run_tail ?te (snd (run_call ?te one_removed))) (Head 9 Wait)
      (snd (run_head 9 (run_tail ?te (snd (run_call ?te one_removed)))))"
    by (rule step_head) (simp_all add: one_simps)
  ultimately show ?thesis by (rule run_Cons [OF _ run_Cons [OF _ run_Cons [OF _ run_Nil]]])
qed

lemma idle_removed_run: "run tm_step (snd (tm_remove 0 one_timer)) [Head 9 Wait] (snd (run_head 9 (snd (tm_remove 0 one_timer))))"
proof (rule run_Cons [OF _ run_Nil])
  show "tm_step (snd (tm_remove 0 one_timer)) (Head 9 Wait) (snd (run_head 9 (snd (tm_remove 0 one_timer))))"
    by (rule step_head) (simp_all add: one_simps)
qed

theorem removed_timer_fires_no_more_witness:
  "calls 0 [Call () 0, Return 0, Head 9 Wait] \<le> 1 \<and> calls 0 [Head 9 Wait :: unit tm_label] = 0"
proof (rule conjI)
  have "tm_remove 0 one_taken = (True, one_removed)" by (simp add: one_simps)
  from removed_timer_fires_no_more [OF one_taken_reachable this one_removed_run]
  show "calls 0 [Call () 0, Return 0, Head 9 Wait] \<le> 1" by (auto simp: adds_def split: if_splits)
  have "tm_remove 0 one_timer = (True, snd (tm_remove 0 one_timer))" by (simp add: one_simps)
  moreover have "running one_timer = None" by (simp add: one_simps)
  ultimately show "calls 0 [Head 9 Wait :: unit tm_label] = 0"
    using removed_timer_fires_no_more [OF one_timer_reachable _ idle_removed_run] by (simp add: adds_def)
qed

text \<open>The worker takes the earliest scheduled event, only when it is due; afterwards a periodic
  timer that is still valid is scheduled at the previous time plus its period, without drift, and any other
  timer is switched off and its identifier freed.\<close>

theorem timer_fires_earliest:
  fixes s :: "'h TimerManager"
  assumes "reachable tm_init tm_step s" "run_head now s = (Take i, s1)"
  shows "\<exists>te. running s1 = Some te \<and> te_ref te = i \<and> te \<in> set (time_events s) \<and>
    (\<forall>t \<in> set (time_events s). te_next te \<le> te_next t) \<and> te_next te \<le> now \<and>
    (\<forall>s2 :: 'h TimerManager. running s2 = Some te \<longrightarrow>
       (if td_valid (events s2 ! i) \<and> td_period (events s2 ! i) > 0
        then set (time_events (run_tail te s2)) =
               insert \<lparr>te_next = te_next te + td_period (events s2 ! i), te_ref = i\<rparr> (set (time_events s2))
        else time_events (run_tail te s2) = time_events s2 \<and> free_ids (run_tail te s2) = i # free_ids s2))"
proof -
  have I: "tm_inv s" by (rule tm.inv_reachable [OF assms(1)])
  from assms(2) obtain te tes where t: "time_events s = te # tes" "te_next te \<le> now" "i = te_ref te" "running s1 = Some te"
    by (auto simp: run_head_def split: list.splits if_splits)
  have first: "\<forall>t \<in> set (time_events s). te_next te \<le> te_next t" using I t(1) by (auto simp: tm_inv_def)
  have rec: "te\<lparr>te_next := x\<rparr> = \<lparr>te_next = x, te_ref = te_ref te\<rparr>" for x by (cases te) simp
  have tail: "if td_valid (events s2 ! i) \<and> td_period (events s2 ! i) > 0
      then set (time_events (run_tail te s2)) =
             insert \<lparr>te_next = te_next te + td_period (events s2 ! i), te_ref = i\<rparr> (set (time_events s2))
      else time_events (run_tail te s2) = time_events s2 \<and> free_ids (run_tail te s2) = i # free_ids s2" for s2 :: "'h TimerManager"
    by (simp add: run_tail_def Let_def t(3) rec)
  have "te \<in> set (time_events s)" using t(1) by simp
  with t first show ?thesis by (intro exI [of _ te] conjI allI impI tail) simp_all
qed

lemma timer_fires_earliest_witness:
  "\<exists>te. running (snd (run_head 7 (snd (tm_add 5 () 0 TimerManager_new)))) = Some te \<and> te_ref te = 0 \<and> te_next te \<le> 7"
proof -
  have "run_head 7 (snd (tm_add 5 () 0 TimerManager_new)) = (Take 0, snd (run_head 7 (snd (tm_add 5 () 0 TimerManager_new))))"
    by (simp add: run_head_def tm_add_def TimerManager_new_def insert_event_def)
  from timer_fires_earliest [OF reachable_one this] show ?thesis by blast
qed

text \<open>The identifier that \<open>add\<close> returns is new or was free: no other timer that is scheduled or
  whose handler is running has it, and it is scheduled at the given time afterwards.\<close>

theorem timer_ids_unique:
  assumes "reachable tm_init tm_step s" "tm_add when h period s = (i, s')"
  shows "i \<notin> set (map te_ref (time_events s)) \<and> i \<notin> set (running_refs s) \<and>
    \<lparr>te_next = when, te_ref = i\<rparr> \<in> set (time_events s') \<and> td_handler (events s' ! i) = h \<and> td_valid (events s' ! i)"
proof -
  have I: "tm_inv s" by (rule tm.inv_reachable [OF assms(1)])
  have "\<lparr>te_next = when, te_ref = i\<rparr> \<in> set (time_events s') \<and> td_handler (events s' ! i) = h \<and> td_valid (events s' ! i)"
  proof (cases "free_ids s")
    case Nil
    then show ?thesis using assms(2) by (auto simp: tm_add_def Let_def)
  next
    case (Cons j ids)
    then have "j < length (events s)" using tm_inv_ids(2) [OF I] by auto
    then show ?thesis using assms(2) Cons by (auto simp: tm_add_def Let_def)
  qed
  then show ?thesis using tm_add_fresh [OF I assms(2)] by blast
qed

lemma timer_ids_unique_witness:
  "fst (tm_add 9 () 1 (snd (tm_add 5 () 0 TimerManager_new))) \<noteq> (0 :: nat)"
  using timer_ids_unique [OF reachable_one, of 9 "()" 1, OF prod.collapse [symmetric]]
  by (auto simp: tm_add_def TimerManager_new_def insert_event_def)

end
