(* ===== verification/Version.thy ===== *)
theory Version
  imports Decimal "HOL-Library.List_Lexorder"
begin

text \<open>
  Model of \<^verbatim>\<open>src/src/version.cpp\<close>: version numbers as lists of unsigned numbers, read from texts such as
  \<open>1.2.30\<close>, and their comparison. The two constructors have the same body; a character is a word of any
  width. The number of bits of \<^verbatim>\<open>long\<close> is an argument.
\<close>

section \<open>The code\<close>

record version =
  verElems :: "uint32 list"

text \<open>The default of the second argument of \<open>StrTrim\<close>.\<close>

definition default_whitespaces :: "'a::len word list" where
  "default_whitespaces = [32, 9, 12, 11, 10, 13]"

text \<open>The numbers are stored as \<^verbatim>\<open>unsigned int\<close>.\<close>

definition Version_of :: "nat \<Rightarrow> 'a::len word list \<Rightarrow> version option" where
  "Version_of long_bits s =
     (let sc = StrTrim s default_whitespaces
      in case StrSplit sc [46] True of
           None \<Rightarrow> None
         | Some v \<Rightarrow>
             (let valid = (v \<noteq> [] \<and> List.find (\<lambda>c. \<not> StrIsDigit c) v = None)
              in Some \<lparr>verElems = (if valid then map (\<lambda>c. word_of_int (strtol long_bits c)) v else [])\<rparr>))"

definition copy_Version :: "version \<Rightarrow> version" where
  "copy_Version that = \<lparr>verElems = verElems that\<rparr>"

definition isValid_Version :: "version \<Rightarrow> bool" where
  "isValid_Version this \<longleftrightarrow> verElems this \<noteq> []"

definition isSameFormat :: "version \<Rightarrow> version \<Rightarrow> bool" where
  "isSameFormat this that \<longleftrightarrow> length (verElems this) = length (verElems that)"

fun equal_loop :: "uint32 list \<Rightarrow> uint32 list \<Rightarrow> bool" where
  "equal_loop (x # xs) (y # ys) = (if x \<noteq> y then False else equal_loop xs ys)"
| "equal_loop _ _ = True"

definition Version_eq :: "version \<Rightarrow> version \<Rightarrow> bool" where
  "Version_eq this that = (if \<not> isSameFormat this that then False else equal_loop (verElems this) (verElems that))"

definition Version_neq :: "version \<Rightarrow> version \<Rightarrow> bool" where
  "Version_neq this that \<longleftrightarrow> \<not> Version_eq this that"

text \<open>\<open>None\<close> is a failed assertion, or a read behind the end of the other list.\<close>

fun compare_loop :: "uint32 list \<Rightarrow> uint32 list \<Rightarrow> int option" where
  "compare_loop [] _ = Some 0"
| "compare_loop (x # xs) [] = None"
| "compare_loop (x # xs) (y # ys) = (if x > y then Some 1 else if x < y then Some (- 1) else compare_loop xs ys)"

text \<open>The first argument says whether \<^verbatim>\<open>assert\<close> is compiled in (\<^verbatim>\<open>NDEBUG\<close> is not defined).\<close>

definition Version_compare :: "bool \<Rightarrow> version \<Rightarrow> version \<Rightarrow> int option" where
  "Version_compare asserts this that =
     (if asserts \<and> \<not> isSameFormat this that then None else compare_loop (verElems this) (verElems that))"

definition Version_gt :: "bool \<Rightarrow> version \<Rightarrow> version \<Rightarrow> bool option" where
  "Version_gt asserts this that = map_option (\<lambda>c. c > 0) (Version_compare asserts this that)"

definition Version_lt :: "bool \<Rightarrow> version \<Rightarrow> version \<Rightarrow> bool option" where
  "Version_lt asserts this that = map_option (\<lambda>c. c < 0) (Version_compare asserts this that)"

definition Version_le :: "bool \<Rightarrow> version \<Rightarrow> version \<Rightarrow> bool option" where
  "Version_le asserts this that = map_option (\<lambda>c. c \<le> 0) (Version_compare asserts this that)"

definition Version_ge :: "bool \<Rightarrow> version \<Rightarrow> version \<Rightarrow> bool option" where
  "Version_ge asserts this that = map_option (\<lambda>c. c \<ge> 0) (Version_compare asserts this that)"

section \<open>Reading a version\<close>

lemma StrIsDigit_digits: "StrIsDigit s \<longleftrightarrow> s \<noteq> [] \<and> (\<forall>c \<in> set s. digit c)"
  by (auto simp: StrIsDigit_def find_None_iff digit_def)

lemma StrTrim_between:
  assumes "set l \<subseteq> set cs" "set r \<subseteq> set cs" "m \<noteq> []" "hd m \<notin> set cs" "last m \<notin> set cs"
  shows "StrTrim (l @ m @ r) cs = m"
proof -
  let ?P = "\<lambda>c. c \<in> set cs"
  have "dropWhile ?P (l @ m @ r) = m @ r"
    using assms by (subst dropWhile_append2) (auto simp: neq_Nil_conv)
  moreover obtain xs x where m: "m = xs @ [x]" using assms(3) by (cases m rule: rev_cases) auto
  have "dropWhile ?P (rev r @ rev m) = rev m"
    using assms unfolding m by (subst dropWhile_append2) auto
  ultimately show ?thesis by (simp add: StrTrim_dropWhile)
qed

lemma StrSplit_Some: "d \<noteq> [] \<Longrightarrow> StrSplit s d True = Some (split_fields d s)"
  using StrSplit_loop_fields [of d 0 s True "[]"] by (simp add: StrSplit_def)

text \<open>Digits are read modulo the width of \<^verbatim>\<open>unsigned int\<close>, after \<^verbatim>\<open>strtol\<close> has cut them to a \<^verbatim>\<open>long\<close>.\<close>

lemma Version_of_decimals:
  assumes "ns \<noteq> []" "set l \<union> set r \<subseteq> set default_whitespaces"
  shows "Version_of bits (l @ join_with [46] (map dec_digits ns) @ r) =
    Some \<lparr>verElems = map (\<lambda>n. word_of_int (min (2 ^ (bits - 1) - 1) (int n))) ns\<rparr>"
proof -
  let ?fs = "map dec_digits ns" and ?m = "join_with [46] (map dec_digits ns)"
  have ws: "c \<notin> set default_whitespaces" if "digit c" for c :: byte
    using digit_no_space [OF that] by (auto simp: default_whitespaces_def)
  have m: "?m \<noteq> [] \<and> digit (hd ?m) \<and> digit (last ?m)"
    using assms(1)
  proof (induction ns)
    case (Cons n ns)
    have "digit (hd (dec_digits n))" "digit (last (dec_digits n))" using dec_digits_digit [of n] by simp_all
    with Cons show ?case by (cases "ns = []") (simp_all add: join_with_Cons)
  qed simp
  have "StrTrim (l @ ?m @ r) default_whitespaces = ?m"
    using assms(2) m ws by (intro StrTrim_between) auto
  moreover have "StrSplit ?m [46] True = Some ?fs"
    using assms(1) dec_digits_digit digit_no_space(4) by (intro StrSplit_join) auto
  moreover have "List.find (\<lambda>c. \<not> StrIsDigit c) ?fs = None"
    using dec_digits_digit by (auto simp: find_None_iff StrIsDigit_digits)
  ultimately show ?thesis using assms(1) by (simp add: Version_of_def strtol_dec_digits comp_def)
qed

lemma Version_of_fields:
  "Version_of bits s =
     (let fs = split_fields [46] (StrTrim s default_whitespaces)
      in Some \<lparr>verElems = if \<forall>f \<in> set fs. f \<noteq> [] \<and> (\<forall>c \<in> set f. digit c)
                              then map (\<lambda>f. word_of_int (strtol bits f)) fs else []\<rparr>)"
  by (auto simp: Version_of_def StrSplit_Some Let_def find_None_iff StrIsDigit_digits split_fields_neq_Nil)

section \<open>Order\<close>

lemma equal_loop_eq: "length xs = length ys \<Longrightarrow> equal_loop xs ys \<longleftrightarrow> xs = ys"
  by (induction xs ys rule: equal_loop.induct) auto

lemma compare_loop_lex:
  "length xs = length ys \<Longrightarrow> compare_loop xs ys = Some (if xs < ys then - 1 else if ys < xs then 1 else 0)"
  by (induction xs ys rule: compare_loop.induct) auto

lemma compare_loop_prefix: "compare_loop xs (xs @ ys) = Some 0"
  by (induction xs) auto

text \<open>A text of decimal numbers below 2^31 with full stops between them, and with white space around it,
  is read as the list of the numbers; it is valid.\<close>

theorem Version_roundtrip:
  assumes "ns \<noteq> []" "\<forall>n \<in> set ns. n < 2 ^ 31" "32 \<le> bits" "set l \<union> set r \<subseteq> set default_whitespaces"
  shows "\<exists>v. Version_of bits (l @ join_with [46] (map dec_digits ns) @ r) = Some v \<and>
    isValid_Version v \<and> map unat (verElems v) = ns"
proof -
  have "unat (word_of_int (min (2 ^ (bits - 1) - 1) (int n)) :: uint32) = n" if "n \<in> set ns" for n
  proof -
    have n: "n < 2147483648" using that assms(2) by simp
    have "(2147483648 :: int) \<le> 2 ^ (bits - 1)"
      using power_increasing [of 31 "bits - 1" "2 :: int"] assms(3) by simp
    then have "min (2 ^ (bits - 1) - 1) (int n) = int n" using n by linarith
    then show ?thesis using n by (simp add: unat_of_nat)
  qed
  then have "map (\<lambda>n. unat (word_of_int (min (2 ^ (bits - 1) - 1) (int n)) :: uint32)) ns = ns"
    by (simp add: map_idI)
  then show ?thesis
    using Version_of_decimals [OF assms(1,4), of bits] assms(1) by (simp add: isValid_Version_def comp_def)
qed

lemma Version_roundtrip_witness:
  "\<exists>v. Version_of 64 ([32] @ join_with [46] (map dec_digits [10, 0, 2147483647]) @ [10]) = Some v \<and>
    isValid_Version v \<and> map unat (verElems v) = [10, 0, 2147483647]"
  by (rule Version_roundtrip) (simp_all add: default_whitespaces_def)

text \<open>On versions of the same format the operators are those of the lexicographic order of the
  lists of numbers, a linear order; on other formats the comparison fails, when assertions are compiled in.\<close>

theorem Version_order:
  "Version_compare True a b =
     (if isSameFormat a b then Some (if verElems a < verElems b then - 1 else if verElems b < verElems a then 1 else 0)
      else None) \<and>
   Version_lt True a b = (if isSameFormat a b then Some (verElems a < verElems b) else None) \<and>
   Version_gt True a b = (if isSameFormat a b then Some (verElems b < verElems a) else None) \<and>
   Version_le True a b = (if isSameFormat a b then Some (verElems a \<le> verElems b) else None) \<and>
   Version_ge True a b = (if isSameFormat a b then Some (verElems b \<le> verElems a) else None) \<and>
   (Version_eq a b \<longleftrightarrow> verElems a = verElems b) \<and> (Version_neq a b \<longleftrightarrow> verElems a \<noteq> verElems b)"
proof -
  have c: "Version_compare True a b =
     (if isSameFormat a b then Some (if verElems a < verElems b then - 1 else if verElems b < verElems a then 1 else 0)
      else None)"
    by (simp add: Version_compare_def isSameFormat_def compare_loop_lex)
  have "Version_eq a b \<longleftrightarrow> verElems a = verElems b"
    by (auto simp: Version_eq_def isSameFormat_def equal_loop_eq)
  then show ?thesis
    unfolding Version_lt_def Version_gt_def Version_le_def Version_ge_def Version_neq_def c by (auto simp: not_less)
qed

text \<open>Without assertions a version is compared as equal to every longer one that starts with it, although
  the operator \<^verbatim>\<open>==\<close> tells them apart; and a number of 33 bits is read modulo 2^32.\<close>

theorem Version_pitfalls:
  "Version_compare False \<lparr>verElems = xs\<rparr> \<lparr>verElems = xs @ y # ys\<rparr> = Some 0 \<and>
   \<not> Version_eq \<lparr>verElems = xs\<rparr> \<lparr>verElems = xs @ y # ys\<rparr> \<and>
   Version_of 64 (dec_digits (2 ^ 32 + n mod 2 ^ 32)) = Version_of 64 (dec_digits (n mod 2 ^ 32))"
proof (intro conjI)
  show "Version_compare False \<lparr>verElems = xs\<rparr> \<lparr>verElems = xs @ y # ys\<rparr> = Some 0"
    by (simp add: Version_compare_def compare_loop_prefix)
  show "\<not> Version_eq \<lparr>verElems = xs\<rparr> \<lparr>verElems = xs @ y # ys\<rparr>"
    by (simp add: Version_eq_def isSameFormat_def)
  have "int (n mod 2 ^ 32) < 4294967296" by simp
  then show "Version_of 64 (dec_digits (2 ^ 32 + n mod 2 ^ 32)) = Version_of 64 (dec_digits (n mod 2 ^ 32))"
    using Version_of_decimals [of "[2 ^ 32 + n mod 2 ^ 32]" "[]" "[]" 64] Version_of_decimals [of "[n mod 2 ^ 32]" "[]" "[]" 64]
    by simp
qed

end
