(* ===== verification/Cmd_Line.thy ===== *)
theory Cmd_Line
  imports Str_Util
begin

text \<open>
  Model of \<^verbatim>\<open>src/src/cmd_line_parser.cpp\<close>: the loop of the parser over the rest of the command line, the table
  of keys and values, and the queries. A pointer into the text is the text from there on; the null pointer
  that \<^verbatim>\<open>wcspbrk\<close> and \<^verbatim>\<open>wcschr\<close> give is the empty rest.
\<close>

section \<open>The code\<close>

type_synonym wstr = "32 word list"

definition delims :: wstr where "delims = [45, 47]"

definition quotes :: wstr where "quotes = [34]"

definition value_sep :: wstr where "value_sep = [32, 58, 61]"

definition wcspbrk :: "wstr \<Rightarrow> wstr \<Rightarrow> wstr" where
  "wcspbrk s cs = dropWhile (\<lambda>c. c \<notin> set cs) s"

lemma length_wcspbrk: "length (wcspbrk s cs) \<le> length s"
  by (simp add: wcspbrk_def length_dropWhile_le)

text \<open>The table is an \<^verbatim>\<open>unordered_map\<close>: \<open>insert\<close> keeps the entry that is already there.\<close>

type_synonym vals_map = "(wstr \<times> wstr) list"

definition vals_insert :: "wstr \<Rightarrow> wstr \<Rightarrow> vals_map \<Rightarrow> vals_map" where
  "vals_insert k v m = (if map_of m k = None then (k, v) # m else m)"

function parse_loop :: "vals_map \<Rightarrow> wstr \<Rightarrow> vals_map" where
  "parse_loop m sCurrent =
     (if sCurrent = [] then m
      else case wcspbrk sCurrent delims of
        [] \<Rightarrow> m
      | _ # sArg \<Rightarrow>
          if sArg = [] then m
          else let sVal = wcspbrk sArg value_sep in
            case sVal of
              [] \<Rightarrow> vals_insert (StrToLower sArg) [] m
            | c # rest \<Rightarrow>
                let Key = take (length sArg - length sVal) sArg in
                if c = 32 \<or> length sVal = 1 then
                  parse_loop (if length Key > 0 then vals_insert (StrToLower Key) [] m else m) rest
                else
                  let Key = StrToLower Key;
                      quoted = (wcspbrk rest quotes = rest);
                      sQuote = (if quoted then drop 1 rest else rest);
                      sEndQuote = (if quoted then wcspbrk sQuote quotes else dropWhile (\<lambda>c. c \<noteq> 32) sQuote) in
                  case sEndQuote of
                    [] \<Rightarrow> if length Key > 0 then vals_insert Key sQuote m else m
                  | _ # rest \<Rightarrow>
                      parse_loop
                        (if length Key > 0 then vals_insert Key (take (length sQuote - length sEndQuote) sQuote) m else m)
                        rest)"
  by pat_completeness auto

termination
proof (relation "measure (\<lambda>(m, s). length s)", simp, goal_cases)
  case (1 m s d arg _ c rest)
  then have "length (wcspbrk arg value_sep) = Suc (length rest)" "length (wcspbrk s delims) = Suc (length arg)"
    by (metis length_Cons)+
  then show ?case using length_wcspbrk [of s delims] length_wcspbrk [of arg value_sep] by simp
next
  case (2 m s d arg _ c rest _ _ quoted quote e _ n)
  then have "length (wcspbrk arg value_sep) = Suc (length rest)" "length (wcspbrk s delims) = Suc (length arg)"
    "length e = Suc (length n)"
    by (metis length_Cons)+
  moreover have "length e \<le> length quote" using 2 length_wcspbrk [of quote quotes] by (auto simp: length_dropWhile_le)
  moreover have "length quote \<le> length rest" using 2 by simp
  ultimately show ?case using length_wcspbrk [of s delims] length_wcspbrk [of arg value_sep] by simp
qed

declare parse_loop.simps [simp del]

record cmd_line =
  cmdline :: wstr
  value_map :: vals_map

text \<open>\<open>c_str()\<close> ends at the first zero.\<close>

definition c_str :: "wstr \<Rightarrow> wstr" where
  "c_str s = takeWhile (\<lambda>c. c \<noteq> 0) s"

definition cmd_parse :: "cmd_line \<Rightarrow> cmd_line" where
  "cmd_parse this = this\<lparr>value_map := parse_loop [] (c_str (cmdline this))\<rparr>"

definition CmdLineParser :: "wstr \<Rightarrow> cmd_line" where
  "CmdLineParser cl = (if cl \<noteq> [] then cmd_parse \<lparr>cmdline = cl, value_map = []\<rparr> else \<lparr>cmdline = [], value_map = []\<rparr>)"

definition findKey :: "cmd_line \<Rightarrow> wstr \<Rightarrow> wstr option" where
  "findKey this key = map_of (value_map this) (StrToLower key)"

definition hasKey :: "cmd_line \<Rightarrow> wstr \<Rightarrow> bool" where
  "hasKey this key = (case findKey this key of None \<Rightarrow> False | Some _ \<Rightarrow> True)"

definition hasVal :: "cmd_line \<Rightarrow> wstr \<Rightarrow> bool" where
  "hasVal this key = (case findKey this key of None \<Rightarrow> False | Some v \<Rightarrow> if length v = 0 then False else True)"

definition getVal :: "cmd_line \<Rightarrow> wstr \<Rightarrow> wstr" where
  "getVal this key = (case findKey this key of None \<Rightarrow> [] | Some v \<Rightarrow> v)"

definition getKeyCount :: "cmd_line \<Rightarrow> nat" where
  "getKeyCount this = length (value_map this)"

section \<open>Arguments and their text\<close>

text \<open>The formats that the header file lists: a key with a plain or with a quoted value, and a flag.\<close>

datatype arg =
    Flag "32 word" (arg_key: wstr)
  | Plain "32 word" (arg_key: wstr) "32 word" wstr
  | Quoted "32 word" (arg_key: wstr) "32 word" wstr

fun arg_val :: "arg \<Rightarrow> wstr" where
  "arg_val (Flag d k) = []"
| "arg_val (Plain d k s v) = v"
| "arg_val (Quoted d k s v) = v"

fun render :: "arg \<Rightarrow> wstr" where
  "render (Flag d k) = d # k"
| "render (Plain d k s v) = d # k @ s # v"
| "render (Quoted d k s v) = d # k @ s # 34 # v @ [34]"

fun wf_arg :: "arg \<Rightarrow> bool" where
  "wf_arg (Flag d k) \<longleftrightarrow> d \<in> set delims \<and> k \<noteq> [] \<and> set k \<inter> insert 0 (set value_sep) = {}"
| "wf_arg (Plain d k s v) \<longleftrightarrow> d \<in> set delims \<and> k \<noteq> [] \<and> set k \<inter> insert 0 (set value_sep) = {} \<and>
     s \<in> {58, 61} \<and> v \<noteq> [] \<and> hd v \<noteq> 34 \<and> 32 \<notin> set v \<and> 0 \<notin> set v"
| "wf_arg (Quoted d k s v) \<longleftrightarrow> d \<in> set delims \<and> k \<noteq> [] \<and> set k \<inter> insert 0 (set value_sep) = {} \<and>
     s \<in> {58, 61} \<and> 34 \<notin> set v \<and> 0 \<notin> set v"

definition add_arg :: "arg \<Rightarrow> vals_map \<Rightarrow> vals_map" where
  "add_arg a m = vals_insert (StrToLower (arg_key a)) (arg_val a) m"

section \<open>The parser reads them back\<close>

lemma wcspbrk_append: "set p \<inter> set cs = {} \<Longrightarrow> wcspbrk (p @ s) cs = wcspbrk s cs"
  by (induction p) (auto simp: wcspbrk_def)

lemma wcspbrk_hit [simp]: "c \<in> set cs \<Longrightarrow> wcspbrk (c # s) cs = c # s"
  by (simp add: wcspbrk_def)

lemma wcspbrk_Nil [simp]: "wcspbrk [] cs = []"
  by (simp add: wcspbrk_def)

lemma wcspbrk_none: "set p \<inter> set cs = {} \<Longrightarrow> wcspbrk p cs = []"
  using wcspbrk_append [of p cs "[]"] by simp

lemma wcspbrk_same: "wcspbrk s cs = s \<longleftrightarrow> s = [] \<or> hd s \<in> set cs"
proof (cases s)
  case (Cons c t)
  have "length (wcspbrk t cs) < length (c # t)" using length_wcspbrk [of t cs] by simp
  then have "wcspbrk t cs \<noteq> c # t" by auto
  then show ?thesis using Cons by (auto simp: wcspbrk_def)
qed simp

lemma StrToLower_neq_Nil [simp]: "StrToLower k = [] \<longleftrightarrow> k = []"
  by (simp add: StrToLower_def)

text \<open>What the loop does at an argument, with the text \<open>p\<close> before it and the text \<open>t\<close> behind it.\<close>

lemma parse_flag:
  assumes "set p \<inter> set delims = {}" "wf_arg (Flag d k)"
  shows "parse_loop m (p @ render (Flag d k)) = add_arg (Flag d k) m"
    "parse_loop m (p @ render (Flag d k) @ 32 # t) = parse_loop (add_arg (Flag d k) m) t"
proof -
  have k: "set k \<inter> set value_sep = {}" using assms(2) by auto
  have s: "(32 :: 32 word) \<in> set value_sep" by (simp add: value_sep_def)
  show "parse_loop m (p @ render (Flag d k)) = add_arg (Flag d k) m"
    using assms k by (subst parse_loop.simps) (simp add: wcspbrk_append wcspbrk_none add_arg_def)
  show "parse_loop m (p @ render (Flag d k) @ 32 # t) = parse_loop (add_arg (Flag d k) m) t"
    using assms k s by (subst parse_loop.simps) (simp add: wcspbrk_append add_arg_def)
qed

lemma parse_plain:
  assumes "set p \<inter> set delims = {}" "wf_arg (Plain d k s v)"
  shows "parse_loop m (p @ render (Plain d k s v)) = add_arg (Plain d k s v) m"
    "parse_loop m (p @ render (Plain d k s v) @ 32 # t) = parse_loop (add_arg (Plain d k s v) m) t"
proof -
  have k: "set k \<inter> set value_sep = {}" "k \<noteq> []" "d \<in> set delims" "s \<in> set value_sep" "s \<noteq> 32"
    and v: "v \<noteq> []" "wcspbrk v quotes \<noteq> v" "wcspbrk (v @ x) quotes \<noteq> v @ x" "dropWhile (\<lambda>c. c \<noteq> 32) v = []" for x
    using assms(2) by (auto simp: value_sep_def wcspbrk_same quotes_def dropWhile_eq_Nil_conv)
  have "dropWhile (\<lambda>c. c \<noteq> 32) (v @ 32 # t) = 32 # t"
    using assms(2) by (subst dropWhile_append2) auto
  note dw = this
  have dw0: "dropWhile (\<lambda>c. c \<noteq> 32) v = []" using assms(2) by auto
  show "parse_loop m (p @ render (Plain d k s v)) = add_arg (Plain d k s v) m"
    using assms(1) k v by (subst parse_loop.simps) (simp add: wcspbrk_append add_arg_def Let_def dw dw0)
  show "parse_loop m (p @ render (Plain d k s v) @ 32 # t) = parse_loop (add_arg (Plain d k s v) m) t"
    using assms(1) k v by (subst parse_loop.simps) (simp add: wcspbrk_append add_arg_def Let_def dw dw0)
qed

lemma parse_quoted:
  assumes "set p \<inter> set delims = {}" "wf_arg (Quoted d k s v)"
  shows "parse_loop m (p @ render (Quoted d k s v) @ t) = parse_loop (add_arg (Quoted d k s v) m) t"
proof -
  have k: "set k \<inter> set value_sep = {}" "k \<noteq> []" "d \<in> set delims" "s \<in> set value_sep" "s \<noteq> 32"
    and v: "wcspbrk (v @ 34 # t) quotes = 34 # t" "wcspbrk (34 # v @ 34 # t) quotes = 34 # v @ 34 # t"
    using assms(2) by (auto simp: value_sep_def wcspbrk_append quotes_def)
  show ?thesis
    using assms(1) k v by (subst parse_loop.simps) (simp add: wcspbrk_append add_arg_def Let_def)
qed

lemma parse_end: "set p \<inter> set delims = {} \<Longrightarrow> parse_loop m p = m"
  by (subst parse_loop.simps) (simp add: wcspbrk_none)

lemma space_no_delim [simp]: "(32 :: 32 word) \<notin> set delims"
  by (simp add: delims_def)

lemma parse_args:
  "set p \<inter> set delims = {} \<Longrightarrow> \<forall>a \<in> set as. wf_arg a \<Longrightarrow>
   parse_loop m (p @ join_with [32] (map render as)) = fold add_arg as m"
proof (induction as arbitrary: p m)
  case Nil
  then show ?case by (simp add: parse_end)
next
  case (Cons a as)
  have IH: "parse_loop (add_arg a m) (q @ join_with [32] (map render as)) = fold add_arg as (add_arg a m)"
    if "set q \<inter> set delims = {}" for q
    using Cons.IH [OF that] Cons.prems(2) by simp
  show ?case
  proof (cases "as = []")
    case True
    then show ?thesis
      using Cons.prems parse_flag(1) parse_plain(1) parse_quoted [of p _ _ _ _ m "[]"] parse_end [of "[]"]
      by (cases a) simp_all
  next
    case False
    then have j: "join_with [32] (map render (a # as)) = render a @ 32 # join_with [32] (map render as)"
      by (simp add: join_with_Cons)
    show ?thesis
      unfolding j using Cons.prems parse_flag(2) [of p] parse_plain(2) [of p] parse_quoted [of p] IH [of "[]"] IH [of "[32]"]
      by (cases a) (simp_all del: render.simps)
  qed
qed

text \<open>The table: the first argument with a key counts.\<close>

lemma map_of_vals_insert: "map_of (vals_insert k v m) k' = (if k' = k \<and> map_of m k = None then Some v else map_of m k')"
  by (auto simp: vals_insert_def)

lemma map_of_args:
  "map_of (fold add_arg as m) k =
     (case map_of m k of
        Some v \<Rightarrow> Some v
      | None \<Rightarrow> map_option arg_val (List.find (\<lambda>a. StrToLower (arg_key a) = k) as))"
proof (induction as arbitrary: m)
  case (Cons a as)
  then show ?case by (simp add: add_arg_def map_of_vals_insert split: option.splits)
qed (simp split: option.splits)

lemma distinct_vals_insert: "distinct (map fst m) \<Longrightarrow> distinct (map fst (vals_insert k v m))"
  by (auto simp: vals_insert_def map_of_eq_None_iff)

lemma parse_distinct: "distinct (map fst m) \<Longrightarrow> distinct (map fst (parse_loop m s))"
proof (induction m s rule: parse_loop.induct)
  case (1 m s)
  then show ?case
    by (subst parse_loop.simps) (auto simp: Let_def distinct_vals_insert split: list.splits)
qed

lemma c_str_id: "0 \<notin> set s \<Longrightarrow> c_str s = s"
  unfolding c_str_def by (rule takeWhile_eq_all_conv [THEN iffD2]) auto

lemma render_no_zero: "wf_arg a \<Longrightarrow> 0 \<notin> set (render a)"
  by (cases a) (auto simp: delims_def)

lemma join_no_zero: "\<forall>x \<in> set xs. 0 \<notin> set x \<Longrightarrow> (0 :: 32 word) \<notin> set (join_with [32] xs)"
  by (induction "[32 :: 32 word]" xs rule: join_with.induct) auto

text \<open>Property C26: a command line made of a program name without \<open>-\<close> and \<open>/\<close> and of arguments in the documented
  formats is read back: a key is found without regard to case, its value is the one of the first argument
  with that key, and the number of keys is that of the different keys.\<close>

theorem cmd_line_roundtrip:
  assumes "set exe \<inter> insert 0 (set delims) = {}" "\<forall>a \<in> set as. wf_arg a"
  shows "let p = CmdLineParser (exe @ 32 # join_with [32] (map render as));
             entry = List.find (\<lambda>a. StrToLower (arg_key a) = StrToLower k) as in
    hasKey p k = (entry \<noteq> None) \<and>
    getVal p k = (case entry of None \<Rightarrow> [] | Some a \<Rightarrow> arg_val a) \<and>
    hasVal p k = (getVal p k \<noteq> []) \<and>
    getKeyCount p = card (StrToLower ` arg_key ` set as)"
proof -
  let ?s = "exe @ 32 # join_with [32] (map render as)"
  have z: "0 \<notin> set ?s"
    using assms join_no_zero [of "map render as"] render_no_zero by auto
  have "parse_loop [] ((exe @ [32]) @ join_with [32] (map render as)) = fold add_arg as []"
    using assms by (intro parse_args) auto
  then have m: "value_map (CmdLineParser ?s) = fold add_arg as []"
    using c_str_id [OF z] by (simp add: CmdLineParser_def cmd_parse_def)
  have f: "findKey (CmdLineParser ?s) k' = map_option arg_val (List.find (\<lambda>a. StrToLower (arg_key a) = StrToLower k') as)" for k'
    by (simp add: findKey_def m map_of_args)
  have "distinct (map fst (value_map (CmdLineParser ?s)))"
    by (auto simp: CmdLineParser_def cmd_parse_def intro: parse_distinct)
  then have "getKeyCount (CmdLineParser ?s) = card (dom (map_of (value_map (CmdLineParser ?s))))"
    using distinct_card [of "map fst (value_map (CmdLineParser ?s))"]
    by (simp add: getKeyCount_def dom_map_of_conv_image_fst)
  also have "dom (map_of (value_map (CmdLineParser ?s))) = StrToLower ` arg_key ` set as"
  proof -
    have "(\<exists>v. map_of (fold add_arg as []) k = Some v) \<longleftrightarrow> List.find (\<lambda>a. StrToLower (arg_key a) = k) as \<noteq> None" for k
      by (simp add: map_of_args)
    then show ?thesis unfolding m by (auto simp: dom_def find_None_iff)
  qed
  finally have c: "getKeyCount (CmdLineParser ?s) = card (StrToLower ` arg_key ` set as)" .
  show ?thesis
    unfolding Let_def hasKey_def getVal_def hasVal_def c f by (auto split: option.splits)
qed

lemma cmd_line_roundtrip_witness:
  "let p = CmdLineParser ([97] @ 32 # join_with [32] (map render
             [Plain 47 [75, 101, 121] 58 [49], Flag 45 [102], Quoted 45 [107, 69, 89] 61 [120, 32, 121]])) in
   hasKey p [107, 101, 121] \<and> getVal p [107, 101, 121] = [49] \<and> hasKey p [70] \<and> \<not> hasVal p [70] \<and> getKeyCount p = 2"
  using cmd_line_roundtrip [of "[97]" "[Plain 47 [75, 101, 121] 58 [49], Flag 45 [102], Quoted 45 [107, 69, 89] 61 [120, 32, 121]]"
      "[107, 101, 121]"]
    cmd_line_roundtrip [of "[97]" "[Plain 47 [75, 101, 121] 58 [49], Flag 45 [102], Quoted 45 [107, 69, 89] 61 [120, 32, 121]]" "[70]"]
  by (simp add: delims_def value_sep_def StrToLower_def StrToLower_char_def Let_def card_insert_if)

text \<open>A hyphen in the path of the program is taken as the start of a key.\<close>

lemma hyphen_in_path:
  "set p \<inter> set delims = {} \<Longrightarrow> k \<noteq> [] \<Longrightarrow> set k \<inter> set value_sep = {} \<Longrightarrow>
   parse_loop m (p @ 45 # k @ 32 # t) = parse_loop (vals_insert (StrToLower k) [] m) t"
proof -
  assume a: "set p \<inter> set delims = {}" "k \<noteq> []" "set k \<inter> set value_sep = {}"
  have "(45 :: 32 word) \<in> set delims" "(32 :: 32 word) \<in> set value_sep" by (simp_all add: delims_def value_sep_def)
  then show ?thesis using a by (subst parse_loop.simps) (simp add: wcspbrk_append)
qed

end
