(* ===== verification/Configor.thy ===== *)
theory Configor
  imports Decimal
begin

text \<open>
  Model of \<^verbatim>\<open>src/src/configor.cpp\<close>: the preprocessor, the tokenizer, the parser and the writer of configuration
  files, and the tree of elements. The index into the tokens is the list of the tokens from there on; it never
  gets empty. The loops of the parser need not end, so they have fuel, and \<open>None\<close> says that it was not enough.
  Lines and columns of the tokens, which nothing reads, are left out. A wide string is its UTF-8 form.
\<close>

section \<open>The data\<close>

datatype Element = Element (el_name: str) (el_values: "str list") (el_children: "Element list")

text \<open>The object, with the content of the file at its path, and whether that file can be written.\<close>

record configor =
  filePath :: str
  root :: Element
  disk :: "str option"
  writable :: bool

definition TABS :: nat where "TABS = 4"

definition delimeter :: str where "delimeter = [61, 59, 91, 93, 123, 125, 44]"

section \<open>From characters to tokens\<close>

text \<open>The flags are \<open>isstring_\<close> and \<open>mask_\<close>.\<close>

definition testString :: "byte \<Rightarrow> bool \<times> bool \<Rightarrow> bool \<times> bool \<times> bool" where
  "testString c flags =
     (let (isstring, mask) = flags;
          mask = (if isstring \<and> c = 92 then \<not> mask else mask)
      in if isstring \<and> c = 92 \<and> mask then (True, isstring, mask)
         else (False, if \<not> mask \<and> (c = 34 \<or> c = 39) then \<not> isstring else isstring, False))"

text \<open>The lines that \<^verbatim>\<open>std::getline\<close> gives.\<close>

function lines_of :: "str \<Rightarrow> str list" where
  "lines_of s = (if s = [] then [] else takeWhile (\<lambda>c. c \<noteq> 10) s # lines_of (drop 1 (dropWhile (\<lambda>c. c \<noteq> 10) s)))"
  by pat_completeness auto
termination
proof (relation "measure length", simp, goal_cases)
  case (1 s)
  then show ?case using length_dropWhile_le [of "\<lambda>c. c \<noteq> 10" s] by (cases s) auto
qed

declare lines_of.simps [simp del]

fun preprocess_line :: "str \<Rightarrow> bool \<times> bool \<Rightarrow> str \<Rightarrow> (bool \<times> bool) \<times> str" where
  "preprocess_line [] flags input = (flags, input)"
| "preprocess_line (c # line) flags input =
     (if \<not> fst flags \<and> (c = 32 \<or> c = 9) then preprocess_line line flags input
      else if \<not> fst flags \<and> c = 35 then (flags, input)
      else preprocess_line line (snd (testString c flags)) (input @ [c]))"

fun preprocess_lines :: "str list \<Rightarrow> bool \<times> bool \<Rightarrow> str \<Rightarrow> str" where
  "preprocess_lines [] flags input = input"
| "preprocess_lines (line # lines) flags input =
     (let (flags, input) = preprocess_line line flags input
      in preprocess_lines lines flags (if fst flags then input @ [10] else input))"

definition preprocess :: "str \<Rightarrow> str" where
  "preprocess file = preprocess_lines (lines_of file) (False, False) []"

definition cut_quotes :: "str \<Rightarrow> str" where
  "cut_quotes token =
     (if length token > 0 \<and> hd token = 34 \<and> last token = 34 then substr token 1 (length token - 2) else token)"

fun tokenize_loop :: "str \<Rightarrow> bool \<times> bool \<Rightarrow> str \<Rightarrow> str list \<Rightarrow> str list" where
  "tokenize_loop [] flags token tokens = tokens"
| "tokenize_loop (c # input) flags token tokens =
     (let (skip, flags) = testString c flags
      in if skip then tokenize_loop input flags token tokens
         else if c = 10 then tokenize_loop input flags token tokens
         else if \<not> fst flags \<and> c \<in> set delimeter then
           let token = cut_quotes token;
               tokens = (if token \<noteq> [] then tokens @ [token] else tokens)
           in tokenize_loop input flags [] (tokens @ [[c]])
         else tokenize_loop input flags (token @ [c]) tokens)"

definition tokenize :: "str \<Rightarrow> str list" where
  "tokenize input = tokenize_loop input (False, False) [] []"

section \<open>The parser\<close>

definition next_token :: "str list \<Rightarrow> str list" where
  "next_token ts = (if length ts > 1 then tl ts else ts)"

definition accept :: "str \<Rightarrow> str list \<Rightarrow> bool" where
  "accept token ts \<longleftrightarrow> token = hd ts"

definition expect :: "str \<Rightarrow> str list \<Rightarrow> bool \<times> str list" where
  "expect token ts = (if token \<noteq> hd ts then (False, ts) else (True, next_token ts))"

fun comma_loop :: "nat \<Rightarrow> str list \<Rightarrow> str list \<Rightarrow> (str list \<times> str list) option" where
  "comma_loop 0 ts vs = None"
| "comma_loop (Suc n) ts vs = (if accept [44] ts then comma_loop n (next_token ts) (vs @ [[]]) else Some (ts, vs))"

fun array_loop :: "nat \<Rightarrow> str list \<Rightarrow> str list \<Rightarrow> (str list \<times> str list) option" where
  "array_loop 0 ts vs = None"
| "array_loop (Suc n) ts vs =
     (if accept [93] ts then Some (ts, vs)
      else let vs = vs @ [hd ts];
               ts = next_token ts;
               ts = (if accept [44] ts then next_token ts else ts)
           in Option.bind (comma_loop n ts vs) (\<lambda>(ts, vs). array_loop n ts vs))"

definition skip_semicolon :: "str list \<Rightarrow> str list" where
  "skip_semicolon ts = (if accept [59] ts then next_token ts else ts)"

definition parseArray :: "nat \<Rightarrow> str list \<Rightarrow> Element \<Rightarrow> (str list \<times> Element) option" where
  "parseArray n ts e =
     (let (ok, ts) = expect [91] ts
      in if \<not> ok then Some (ts, e)
         else Option.bind (array_loop n ts (el_values e)) (\<lambda>(ts, vs).
           let e = Element (el_name e) vs (el_children e); (ok, ts) = expect [93] ts
           in if \<not> ok then Some (ts, e) else Some (skip_semicolon ts, e)))"

fun parseVar :: "nat \<Rightarrow> str list \<Rightarrow> Element list \<Rightarrow> (str list \<times> Element list) option"
  and parseObject :: "nat \<Rightarrow> str list \<Rightarrow> Element \<Rightarrow> (str list \<times> Element) option"
  and object_loop :: "nat \<Rightarrow> str list \<Rightarrow> Element list \<Rightarrow> (str list \<times> Element list) option"
where
  "parseVar 0 ts parent = None"
| "parseVar (Suc n) ts parent =
     (let e = Element (hd ts) [] []; (ok, ts) = expect [61] (next_token ts)
      in if \<not> ok then Some (ts, parent)
         else if accept [91] ts then map_option (\<lambda>(ts, e). (ts, parent @ [e])) (parseArray n ts e)
         else if accept [123] ts then map_option (\<lambda>(ts, e). (ts, parent @ [e])) (parseObject n ts e)
         else let e = Element (el_name e) [hd ts] []; (ok, ts) = expect [59] (next_token ts)
              in if \<not> ok then Some (ts, parent) else Some (ts, parent @ [e]))"
| "parseObject 0 ts e = None"
| "parseObject (Suc n) ts e =
     (let (ok, ts) = expect [123] ts
      in if \<not> ok then Some (ts, e)
         else Option.bind (object_loop n ts (el_children e)) (\<lambda>(ts, cs).
           let e = Element (el_name e) (el_values e) cs; (ok, ts) = expect [125] ts
           in if \<not> ok then Some (ts, e) else Some (skip_semicolon ts, e)))"
| "object_loop 0 ts cs = None"
| "object_loop (Suc n) ts cs =
     (if accept [125] ts then Some (ts, cs)
      else Option.bind (parseVar n ts cs) (\<lambda>(ts, cs). object_loop n ts cs))"

text \<open>The loop ends at the last token.\<close>

fun parse_loop :: "nat \<Rightarrow> str list \<Rightarrow> Element list \<Rightarrow> Element list option" where
  "parse_loop 0 ts cs = None"
| "parse_loop (Suc n) ts cs =
     (if length ts = 1 then Some cs else Option.bind (parseVar n ts cs) (\<lambda>(ts, cs). parse_loop n ts cs))"

definition parse_tokens :: "nat \<Rightarrow> str list \<Rightarrow> Element list option" where
  "parse_tokens n tokens = (if length tokens > 0 then parse_loop n tokens [] else Some [])"

section \<open>The writer\<close>

definition isNumeric :: "str \<Rightarrow> bool" where
  "isNumeric value \<longleftrightarrow> list_all (\<lambda>c. (48 \<le> c \<and> c \<le> 57) \<or> c = 46 \<or> c = 45) value"

definition write_value :: "str \<Rightarrow> str" where
  "write_value value = (if isNumeric value then value else [34] @ value @ [34])"

fun writeElement :: "Element \<Rightarrow> nat \<Rightarrow> str" where
  "writeElement (Element name values children) tabs =
     (if values = [] \<and> children = [] then []
      else replicate tabs 32 @ name @ [32, 61, 32] @
        (if children \<noteq> [] then [123, 10] @ concat (map (\<lambda>e. writeElement e (tabs + TABS)) children) @ replicate tabs 32 @ [125]
         else if length values = 1 then write_value (values ! 0) @ [59]
         else [91] @ join_with [44, 32] (map write_value values) @ [93]) @
        [10])"

definition save_text :: "Element \<Rightarrow> str" where
  "save_text e = concat (map (\<lambda>e. writeElement e 0) (el_children e))"

section \<open>Elements\<close>

text \<open>Assignment to a value and its resizing of the vector.\<close>

definition grow :: "nat \<Rightarrow> str list \<Rightarrow> str list" where
  "grow i vs = (if i \<ge> length vs then vs @ replicate (i + 1 - length vs) [] else vs)"

definition set_value :: "str \<Rightarrow> nat \<Rightarrow> Element \<Rightarrow> Element" where
  "set_value v i e = Element (el_name e) ((grow i (el_values e))[i := v]) (el_children e)"

definition getString :: "nat \<Rightarrow> str \<Rightarrow> Element \<Rightarrow> str \<times> Element" where
  "getString i defaultValue e =
     (let vs = (if i \<ge> length (el_values e) then (grow i (el_values e))[i := defaultValue] else el_values e)
      in (vs ! i, Element (el_name e) vs (el_children e)))"

text \<open>\<^verbatim>\<open>std::stoi\<close>; \<open>None\<close> is an exception.\<close>

definition stoi :: "str \<Rightarrow> int option" where
  "stoi s =
     (let s = dropWhile (\<lambda>c. c \<in> {32, 9, 10, 11, 12, 13}) s;
          t = (case s of [] \<Rightarrow> [] | c # t \<Rightarrow> if c = 45 \<or> c = 43 then t else s);
          v = (if s \<noteq> [] \<and> hd s = 45 then - int (digits_value t 0) else int (digits_value t 0))
      in if t = [] \<or> \<not> digit (hd t) then None
         else if - (2 ^ 31) \<le> v \<and> v < 2 ^ 31 then Some v else None)"

definition getInt :: "nat \<Rightarrow> int \<Rightarrow> Element \<Rightarrow> int" where
  "getInt i defaultValue e =
     (if i \<ge> length (el_values e) then defaultValue
      else let s = fst (getString i [] e)
           in if s \<noteq> [] then case stoi s of Some v \<Rightarrow> v | None \<Rightarrow> defaultValue else defaultValue)"

definition child_index :: "str \<Rightarrow> Element \<Rightarrow> nat option" where
  "child_index name e = List.find (\<lambda>i. el_name (el_children e ! i) = name) [0..<length (el_children e)]"

text \<open>\<open>operator[]\<close>: the place of the child and the element, to which a new child may have been added.\<close>

definition subscript :: "str \<Rightarrow> Element \<Rightarrow> nat \<times> Element" where
  "subscript name e =
     (case child_index name e of
        Some i \<Rightarrow> (i, e)
      | None \<Rightarrow> (length (el_children e), Element (el_name e) (el_values e) (el_children e @ [Element name [] []])))"

definition valueSize :: "Element \<Rightarrow> nat" where
  "valueSize e = length (el_values e)"

definition childrenSize :: "Element \<Rightarrow> nat" where
  "childrenSize e = length (el_children e)"

definition elementExists :: "str \<Rightarrow> Element \<Rightarrow> bool" where
  "elementExists name e \<longleftrightarrow> List.find (\<lambda>c. el_name c = name) (el_children e) \<noteq> None"

text \<open>The flag says that something was removed, and so that the file is saved.\<close>

definition removeElement :: "str \<Rightarrow> Element \<Rightarrow> bool \<times> Element" where
  "removeElement name e =
     (case child_index name e of
        Some i \<Rightarrow> (True, Element (el_name e) (el_values e) (take i (el_children e) @ drop (Suc i) (el_children e)))
      | None \<Rightarrow> (False, e))"

definition clearElements :: "Element \<Rightarrow> Element" where
  "clearElements e = Element (el_name e) (el_values e) []"

definition clearValues :: "Element \<Rightarrow> Element" where
  "clearValues e = Element (el_name e) [] (el_children e)"

text \<open>An operation on the element that a chain of \<open>operator[]\<close> denotes.\<close>

fun at_path :: "str list \<Rightarrow> (Element \<Rightarrow> 'r \<times> Element) \<Rightarrow> Element \<Rightarrow> 'r \<times> Element" where
  "at_path [] f e = f e"
| "at_path (name # names) f e =
     (let (i, e) = subscript name e;
          (r, c) = at_path names f (el_children e ! i)
      in (r, Element (el_name e) (el_values e) ((el_children e)[i := c])))"

section \<open>Files\<close>

definition saveFile :: "configor \<Rightarrow> bool \<times> configor" where
  "saveFile this =
     (if filePath this = [] then (False, this)
      else if \<not> writable this then (False, this)
      else (True, this\<lparr>disk := Some (save_text (root this))\<rparr>))"

text \<open>Reading of a stream into the tree: an empty input leaves the tree as it is.\<close>

definition read_input :: "nat \<Rightarrow> str \<Rightarrow> Element \<Rightarrow> Element option" where
  "read_input n file e =
     (let input = preprocess file
      in if input \<noteq> [] then map_option (\<lambda>cs. Element (el_name e) (el_values e) cs) (parse_tokens n (tokenize input))
         else Some e)"

definition reloadFile :: "nat \<Rightarrow> configor \<Rightarrow> (bool \<times> configor) option" where
  "reloadFile n this =
     (if filePath this = [] then Some (False, this)
      else case disk this of
        None \<Rightarrow> Some (False, this)
      | Some file \<Rightarrow> map_option (\<lambda>e. (True, this\<lparr>root := e\<rparr>)) (read_input n file (root this)))"

definition Configor_stream :: "nat \<Rightarrow> str \<Rightarrow> Element option" where
  "Configor_stream n ss = read_input n ss (Element [] [] [])"

definition Configor_file :: "nat \<Rightarrow> str \<Rightarrow> str option \<Rightarrow> bool \<Rightarrow> configor option" where
  "Configor_file n path file w =
     map_option snd (reloadFile n \<lparr>filePath = path, root = Element [] [] [], disk = file, writable = w\<rparr>)"

text \<open>\<open>saveAsFile\<close> and \<open>save\<close> write the same text elsewhere: \<open>None\<close> is the result false.\<close>

definition saveAsFile :: "str \<Rightarrow> bool \<Rightarrow> configor \<Rightarrow> str option" where
  "saveAsFile path writable_there this = (if path = [] \<or> \<not> writable_there then None else Some (save_text (root this)))"

definition set_at :: "str list \<Rightarrow> str \<Rightarrow> nat \<Rightarrow> configor \<Rightarrow> configor" where
  "set_at path v i this =
     snd (saveFile (this\<lparr>root := snd (at_path path (\<lambda>e. ((), set_value v i e)) (root this))\<rparr>))"

definition set_int_at :: "str list \<Rightarrow> int \<Rightarrow> nat \<Rightarrow> configor \<Rightarrow> configor" where
  "set_int_at path v i this = set_at path (to_string v) i this"

definition get_at :: "str list \<Rightarrow> nat \<Rightarrow> str \<Rightarrow> configor \<Rightarrow> str \<times> configor" where
  "get_at path i d this = (let (r, e) = at_path path (getString i d) (root this) in (r, this\<lparr>root := e\<rparr>))"

definition get_int_at :: "str list \<Rightarrow> nat \<Rightarrow> int \<Rightarrow> configor \<Rightarrow> int \<times> configor" where
  "get_int_at path i d this = (let (r, e) = at_path path (\<lambda>e. (getInt i d e, e)) (root this) in (r, this\<lparr>root := e\<rparr>))"

definition remove_at :: "str list \<Rightarrow> str \<Rightarrow> configor \<Rightarrow> configor" where
  "remove_at path name this =
     (let (removed, e) = at_path path (removeElement name) (root this); this = this\<lparr>root := e\<rparr>
      in if removed then snd (saveFile this) else this)"

definition clear_elements_at :: "str list \<Rightarrow> configor \<Rightarrow> configor" where
  "clear_elements_at path this =
     snd (saveFile (this\<lparr>root := snd (at_path path (\<lambda>e. ((), clearElements e)) (root this))\<rparr>))"

definition clear_values_at :: "str list \<Rightarrow> configor \<Rightarrow> configor" where
  "clear_values_at path this =
     snd (saveFile (this\<lparr>root := snd (at_path path (\<lambda>e. ((), clearValues e)) (root this))\<rparr>))"

end
