(* ===== verification/Configor_Text.thy ===== *)
theory Configor_Text
  imports Configor
begin

text \<open>
  A tree that the configuration file can hold is read back from the text that the writer makes of it. The
  proof goes through the characters that the preprocessor keeps and the tokens of an element.
\<close>

section \<open>Trees that can be written\<close>

definition quote_char :: "byte \<Rightarrow> bool" where
  "quote_char c \<longleftrightarrow> c \<in> {34, 39, 92, 10}"

text \<open>A value must not look like one of the delimiters, and must not hold quotes, line ends and backslashes.\<close>

definition wf_value :: "str \<Rightarrow> bool" where
  "wf_value v \<longleftrightarrow> v \<noteq> [] \<and> v \<notin> (\<lambda>c. [c]) ` set delimeter \<and> (\<forall>c \<in> set v. \<not> quote_char c)"

definition wf_name :: "str \<Rightarrow> bool" where
  "wf_name n \<longleftrightarrow> n \<noteq> [] \<and> (\<forall>c \<in> set n. \<not> quote_char c \<and> c \<notin> set delimeter \<and> c \<notin> {32, 9, 35})"

text \<open>In an array a value in the middle may be empty; an element has values or children.\<close>

definition wf_values :: "str list \<Rightarrow> bool" where
  "wf_values vs \<longleftrightarrow> vs \<noteq> [] \<and> hd vs \<noteq> [] \<and> last vs \<noteq> [] \<and> (\<forall>v \<in> set vs. v = [] \<or> wf_value v)"

fun wf_element :: "Element \<Rightarrow> bool" where
  "wf_element (Element n vs cs) \<longleftrightarrow> wf_name n \<and>
     (if cs = [] then wf_values vs else vs = [] \<and> list_all wf_element cs)"

section \<open>The characters that are kept\<close>

fun flat :: "Element \<Rightarrow> str" where
  "flat (Element n vs cs) = n @ [61] @
     (if cs \<noteq> [] then [123] @ concat (map flat cs) @ [125]
      else if length vs = 1 then write_value (vs ! 0) @ [59]
      else [91] @ join_with [44] (map write_value vs) @ [93])"

text \<open>The preprocessor outside of a string adds the characters \<open>fl\<close> for the text \<open>t\<close>, and stays outside.\<close>

definition keeps :: "str \<Rightarrow> str \<Rightarrow> bool" where
  "keeps t fl \<longleftrightarrow> (\<forall>r input. preprocess_line (t @ r) (False, False) input = preprocess_line r (False, False) (input @ fl))"

lemma keeps_Nil: "keeps [] []"
  by (simp add: keeps_def)

lemma keeps_append: "keeps s fs \<Longrightarrow> keeps t ft \<Longrightarrow> keeps (s @ t) (fs @ ft)"
  by (simp add: keeps_def)

lemma testString_plain: "c \<noteq> 34 \<Longrightarrow> c \<noteq> 39 \<Longrightarrow> testString c (False, False) = (False, False, False)"
  by (simp add: testString_def)

lemma testString_inside: "\<not> quote_char c \<Longrightarrow> testString c (True, False) = (False, True, False)"
  by (simp add: testString_def quote_char_def)

lemma testString_quote: "testString 34 (b, False) = (False, \<not> b, False)"
  by (simp add: testString_def)

lemma keeps_char: "c \<notin> {34, 39, 35, 32, 9} \<Longrightarrow> keeps [c] [c]" "c \<in> {32, 9} \<Longrightarrow> keeps [c] []"
  by (auto simp: keeps_def testString_plain)

lemma keeps_plain: "\<forall>c \<in> set t. c \<notin> {34, 39, 35, 32, 9} \<Longrightarrow> keeps t t"
proof (induction t)
  case (Cons c t)
  then show ?case using keeps_append [OF keeps_char(1) [of c], of t t] by simp
qed (simp add: keeps_Nil)

lemma keeps_tabs: "keeps (replicate n 32) []"
proof (induction n)
  case (Suc n)
  then show ?case using keeps_append [OF keeps_char(2) [of 32] Suc] by simp
qed (simp add: keeps_Nil)

lemma line_inside:
  "\<forall>c \<in> set v. \<not> quote_char c \<Longrightarrow> preprocess_line (v @ r) (True, False) input = preprocess_line r (True, False) (input @ v)"
  by (induction v arbitrary: input) (simp_all add: testString_inside)

lemma keeps_quoted: "\<forall>c \<in> set v. \<not> quote_char c \<Longrightarrow> keeps ([34] @ v @ [34]) ([34] @ v @ [34])"
  by (simp add: keeps_def testString_quote line_inside)

lemma isNumeric_plain: "isNumeric v \<Longrightarrow> c \<in> set v \<Longrightarrow> c \<notin> {34, 39, 35, 32, 9, 10, 92} \<and> c \<notin> set delimeter"
  by (auto simp: isNumeric_def list_all_iff delimeter_def)

lemma keeps_value:
  assumes "v = [] \<or> wf_value v"
  shows "keeps (write_value v) (write_value v)"
proof (cases "isNumeric v")
  case True
  then show ?thesis using isNumeric_plain [of v] by (auto simp: write_value_def intro: keeps_plain)
next
  case False
  then have "v \<noteq> []" by (auto simp: isNumeric_def)
  then show ?thesis using False assms keeps_quoted [of v] by (simp add: write_value_def wf_value_def)
qed

lemma keeps_values:
  "\<forall>v \<in> set vs. v = [] \<or> wf_value v \<Longrightarrow>
   keeps (join_with [44, 32] (map write_value vs)) (join_with [44] (map write_value vs))"
proof (induction vs)
  case (Cons v vs)
  show ?case
  proof (cases "vs = []")
    case True
    then show ?thesis using Cons.prems by (simp add: keeps_value)
  next
    case False
    have "keeps (write_value v @ [44] @ [32] @ join_with [44, 32] (map write_value vs))
      (write_value v @ [44] @ [] @ join_with [44] (map write_value vs))"
      using Cons by (intro keeps_append keeps_value keeps_char) auto
    then show ?thesis using False by (simp add: join_with_Cons)
  qed
qed (simp add: keeps_Nil)

text \<open>The same for whole lines.\<close>

definition keeps_lines :: "str \<Rightarrow> str \<Rightarrow> bool" where
  "keeps_lines t fl \<longleftrightarrow> (\<forall>r input.
     preprocess_lines (lines_of (t @ r)) (False, False) input = preprocess_lines (lines_of r) (False, False) (input @ fl))"

lemma keeps_lines_Nil: "keeps_lines [] []"
  by (simp add: keeps_lines_def)

lemma keeps_lines_append: "keeps_lines s fs \<Longrightarrow> keeps_lines t ft \<Longrightarrow> keeps_lines (s @ t) (fs @ ft)"
  by (simp add: keeps_lines_def)

lemma keeps_lines_concat: "(\<And>x. x \<in> set xs \<Longrightarrow> keeps_lines (f x) (g x)) \<Longrightarrow> keeps_lines (concat (map f xs)) (concat (map g xs))"
  by (induction xs) (auto intro: keeps_lines_Nil keeps_lines_append)

lemma lines_of_line:
  assumes "10 \<notin> set l"
  shows "lines_of (l @ 10 # r) = l # lines_of r"
proof -
  have "dropWhile (\<lambda>c. c \<noteq> 10) (l @ 10 # r) = 10 # r" "takeWhile (\<lambda>c. c \<noteq> 10) (l @ 10 # r) = l"
    using assms by (induction l) auto
  then show ?thesis by (subst lines_of.simps) simp
qed

lemma keeps_line:
  assumes "keeps l fl" "10 \<notin> set l"
  shows "keeps_lines (l @ [10]) fl"
proof -
  have "preprocess_line l (False, False) input = ((False, False), input @ fl)" for input
    using assms(1) [unfolded keeps_def, rule_format, of "[]" input] by simp
  then show ?thesis using assms(2) by (simp add: keeps_lines_def lines_of_line)
qed

lemma no_line_end: "v = [] \<or> wf_value v \<Longrightarrow> 10 \<notin> set (write_value v)"
  by (auto simp: write_value_def wf_value_def quote_char_def)

lemma no_line_end_join: "\<forall>x \<in> set xs. 10 \<notin> set x \<Longrightarrow> (10 :: byte) \<notin> set (join_with [44, 32] xs)"
  by (induction "[44, 32 :: byte]" xs rule: join_with.induct) auto

lemma wf_name_line: "wf_name n \<Longrightarrow> keeps n n" "wf_name n \<Longrightarrow> 10 \<notin> set n"
  by (auto simp: wf_name_def quote_char_def intro!: keeps_plain)

lemma keeps_element: "wf_element e \<Longrightarrow> keeps_lines (writeElement e tabs) (flat e)"
proof (induction e arbitrary: tabs)
  case (Element n vs cs)
  then have n: "wf_name n" by simp
  have eq: "keeps [32, 61, 32] [61]"
    using keeps_append [OF keeps_char(2) [of 32] keeps_append [OF keeps_char(1) [of 61] keeps_char(2) [of 32]]] by simp
  have c: "keeps [c] [c]" if "c \<in> set delimeter" for c using that by (intro keeps_char) (auto simp: delimeter_def)
  show ?case
  proof (cases "cs = []")
    case False
    have "keeps (replicate tabs 32 @ n @ [32, 61, 32] @ [123]) ([] @ n @ [61] @ [123])"
      using n by (intro keeps_append keeps_tabs wf_name_line eq c) (auto simp: delimeter_def)
    then have 1: "keeps_lines ((replicate tabs 32 @ n @ [32, 61, 32] @ [123]) @ [10]) (n @ [61] @ [123])"
      using wf_name_line(2) [OF n] by (intro keeps_line) auto
    have "keeps (replicate tabs 32 @ [125]) ([] @ [125])"
      by (intro keeps_append keeps_tabs c) (auto simp: delimeter_def)
    then have 2: "keeps_lines ((replicate tabs 32 @ [125]) @ [10]) [125]"
      by (intro keeps_line) auto
    have "keeps_lines (concat (map (\<lambda>e. writeElement e (tabs + TABS)) cs)) (concat (map flat cs))"
      using Element False by (intro keeps_lines_concat) (auto simp: list_all_iff)
    from keeps_lines_append [OF 1 keeps_lines_append [OF this 2]] show ?thesis
      using False by simp
  next
    case True
    then have vs: "vs \<noteq> []" "\<forall>v \<in> set vs. v = [] \<or> wf_value v" using Element.prems by (auto simp: wf_values_def)
    let ?w = "if length vs = 1 then write_value (vs ! 0) @ [59] else [91] @ join_with [44, 32] (map write_value vs) @ [93]"
    let ?f = "if length vs = 1 then write_value (vs ! 0) @ [59] else [91] @ join_with [44] (map write_value vs) @ [93]"
    have v0: "vs ! 0 = [] \<or> wf_value (vs ! 0)" using vs by (cases vs) auto
    have "keeps ?w ?f"
      using v0 vs by (auto intro!: keeps_append keeps_value keeps_values c simp: delimeter_def simp del: append_Cons append_Nil)
    then have "keeps (replicate tabs 32 @ n @ [32, 61, 32] @ ?w) ([] @ n @ [61] @ ?f)"
      using n by (intro keeps_append keeps_tabs wf_name_line eq)
    moreover have "10 \<notin> set (replicate tabs 32 @ n @ [32, 61, 32] @ ?w)"
      using wf_name_line(2) [OF n] no_line_end [OF v0] no_line_end_join [of "map write_value vs"] no_line_end vs(2) by auto
    ultimately have "keeps_lines ((replicate tabs 32 @ n @ [32, 61, 32] @ ?w) @ [10]) (n @ [61] @ ?f)"
      by (intro keeps_line) simp_all
    then show ?thesis using True vs(1) by simp
  qed
qed

lemma preprocess_save: "list_all wf_element cs \<Longrightarrow> preprocess (save_text (Element n vs cs)) = concat (map flat cs)"
proof -
  assume "list_all wf_element cs"
  then have "keeps_lines (save_text (Element n vs cs)) (concat (map flat cs))"
    unfolding save_text_def by (simp, intro keeps_lines_concat keeps_element) (auto simp: list_all_iff)
  from this [unfolded keeps_lines_def, rule_format, of "[]" "[]"] show ?thesis
    by (simp add: preprocess_def lines_of.simps)
qed

end
