(* ===== verification/Configor_Roundtrip.thy ===== *)
theory Configor_Roundtrip
  imports Configor_Text
begin

text \<open>
  From the characters that the preprocessor keeps to tokens, from tokens to the tree; the round trip through a
  file; and what the parser does with brackets that are not closed.
\<close>

section \<open>Tokens\<close>

fun value_tokens :: "str list \<Rightarrow> str list" where
  "value_tokens [] = []"
| "value_tokens [v] = (if v = [] then [] else [v])"
| "value_tokens (v # w # vs) = (if v = [] then [] else [v]) @ [[44]] @ value_tokens (w # vs)"

lemma value_tokens_Cons: "vs \<noteq> [] \<Longrightarrow> value_tokens (v # vs) = (if v = [] then [] else [v]) @ [[44]] @ value_tokens vs"
  by (cases vs) simp_all

fun tokens_of :: "Element \<Rightarrow> str list" where
  "tokens_of (Element n vs cs) = [n, [61]] @
     (if cs \<noteq> [] then [[123]] @ concat (map tokens_of cs) @ [[125]]
      else if length vs = 1 then [vs ! 0, [59]]
      else [[91]] @ value_tokens vs @ [[93]])"

text \<open>The tokenizer outside of a string and at the start of a token adds tokens and gets there again.\<close>

definition gives :: "str \<Rightarrow> str list \<Rightarrow> bool" where
  "gives t ts \<longleftrightarrow> (\<forall>r tokens. tokenize_loop (t @ r) (False, False) [] tokens = tokenize_loop r (False, False) [] (tokens @ ts))"

lemma gives_Nil: "gives [] []"
  by (simp add: gives_def)

lemma gives_append: "gives s ss \<Longrightarrow> gives t ts \<Longrightarrow> gives (s @ t) (ss @ ts)"
  by (simp add: gives_def)

lemma gives_concat: "(\<And>x. x \<in> set xs \<Longrightarrow> gives (f x) (g x)) \<Longrightarrow> gives (concat (map f xs)) (concat (map g xs))"
  by (induction xs) (auto intro: gives_Nil gives_append)

lemma tokenize_plain:
  "\<forall>c \<in> set t. c \<notin> {34, 39, 10} \<and> c \<notin> set delimeter \<Longrightarrow>
   tokenize_loop (t @ r) (False, False) token tokens = tokenize_loop r (False, False) (token @ t) tokens"
  by (induction t arbitrary: token) (simp_all add: testString_plain)

lemma tokenize_inside:
  "\<forall>c \<in> set v. \<not> quote_char c \<Longrightarrow>
   tokenize_loop (v @ r) (True, False) token tokens = tokenize_loop r (True, False) (token @ v) tokens"
  by (induction v arbitrary: token) (simp_all add: testString_inside, simp add: quote_char_def)

lemma quote_no_delimeter: "(34 :: byte) \<notin> set delimeter"
  by (simp add: delimeter_def)

lemma tokenize_quoted:
  "\<forall>c \<in> set v. \<not> quote_char c \<Longrightarrow>
   tokenize_loop (34 # v @ 34 # r) (False, False) [] tokens = tokenize_loop r (False, False) (34 # v @ [34]) tokens"
  by (simp add: testString_quote tokenize_inside quote_no_delimeter)

text \<open>A delimiter ends the token before it.\<close>

definition ends_token :: "str \<Rightarrow> str list \<Rightarrow> bool" where
  "ends_token t ts \<longleftrightarrow> (\<forall>d r tokens. d \<in> set delimeter \<longrightarrow>
     tokenize_loop (t @ d # r) (False, False) [] tokens = tokenize_loop r (False, False) [] (tokens @ ts @ [[d]]))"

lemma delimeter_no_quote: "d \<in> set delimeter \<Longrightarrow> d \<noteq> 34 \<and> d \<noteq> 39 \<and> d \<noteq> 10"
  by (auto simp: delimeter_def)

lemma gives_end: "ends_token t ts \<Longrightarrow> d \<in> set delimeter \<Longrightarrow> gives (t @ [d]) (ts @ [[d]])"
  by (simp add: ends_token_def gives_def)

lemma ends_plain:
  assumes "\<forall>c \<in> set t. c \<notin> {34, 39, 10} \<and> c \<notin> set delimeter"
  shows "ends_token t (if t = [] then [] else [t])"
proof -
  have t: "tokenize_loop (t @ d # r) (False, False) [] tokens = tokenize_loop (d # r) (False, False) t tokens" for d r tokens
    using tokenize_plain [OF assms, of "d # r" "[]"] by simp
  have "cut_quotes t = t" using assms by (cases t) (auto simp: cut_quotes_def)
  then show ?thesis unfolding ends_token_def t by (simp add: testString_plain delimeter_no_quote Let_def)
qed

lemma ends_quoted:
  assumes "\<forall>c \<in> set v. \<not> quote_char c" "v \<noteq> []"
  shows "ends_token ([34] @ v @ [34]) [v]"
proof -
  have "tokenize_loop (([34] @ v @ [34]) @ d # r) (False, False) [] tokens =
      tokenize_loop (d # r) (False, False) (34 # v @ [34]) tokens" for d r tokens
    using tokenize_quoted [OF assms(1), of "d # r"] by (simp del: tokenize_loop.simps)
  then show ?thesis
    using assms(2) unfolding ends_token_def
    by (simp add: testString_plain delimeter_no_quote cut_quotes_def substr_def Let_def)
qed

lemma ends_value: "v = [] \<or> wf_value v \<Longrightarrow> ends_token (write_value v) (if v = [] then [] else [v])"
  using isNumeric_plain [of v] ends_plain [of v] ends_quoted [of v]
  by (auto simp: write_value_def wf_value_def isNumeric_def)

lemma gives_values:
  "vs \<noteq> [] \<Longrightarrow> \<forall>v \<in> set vs. v = [] \<or> wf_value v \<Longrightarrow> d \<in> set delimeter \<Longrightarrow>
   gives (join_with [44] (map write_value vs) @ [d]) (value_tokens vs @ [[d]])"
proof (induction vs)
  case (Cons v vs)
  then have v: "ends_token (write_value v) (if v = [] then [] else [v])" by (intro ends_value) simp
  show ?case
  proof (cases "vs = []")
    case True
    then show ?thesis using gives_end [OF v Cons.prems(3)] by simp
  next
    case False
    have "gives (write_value v @ [44]) ((if v = [] then [] else [v]) @ [[44]])"
      by (rule gives_end [OF v]) (simp add: delimeter_def)
    from gives_append [OF this Cons.IH] show ?thesis
      using False Cons.prems by (simp add: join_with_Cons value_tokens_Cons)
  qed
qed simp

lemma gives_delimeter: "d \<in> set delimeter \<Longrightarrow> gives [d] [[d]]"
  using gives_end [OF ends_plain [of "[]"]] by simp

lemma gives_element: "wf_element e \<Longrightarrow> gives (flat e) (tokens_of e)"
proof (induction e)
  case (Element n vs cs)
  then have n: "wf_name n" by simp
  have "ends_token n [n]"
    using ends_plain [of n] n by (auto simp: wf_name_def quote_char_def)
  then have nm: "gives (n @ [61]) ([n] @ [[61]])"
    by (rule gives_end) (simp add: delimeter_def)
  have d: "gives [91] [[91]]" "gives [123] [[123]]" "gives [125] [[125]]"
    by (simp_all add: gives_delimeter delimeter_def)
  show ?case
  proof (cases "cs = []")
    case False
    then have "gives (concat (map flat cs)) (concat (map tokens_of cs))"
      using Element by (intro gives_concat) (auto simp: list_all_iff)
    from gives_append [OF nm gives_append [OF d(2) gives_append [OF this d(3)]]] show ?thesis
      using False by simp
  next
    case True
    then have vs: "vs \<noteq> []" "hd vs \<noteq> []" "\<forall>v \<in> set vs. v = [] \<or> wf_value v" using Element.prems by (auto simp: wf_values_def)
    have "vs ! 0 \<noteq> []" "vs ! 0 = [] \<or> wf_value (vs ! 0)" using vs by (cases vs, auto)+
    then have "gives (write_value (vs ! 0) @ [59]) ([vs ! 0] @ [[59]])"
      using ends_value [of "vs ! 0"] by (intro gives_end) (simp_all add: delimeter_def)
    moreover have "gives (join_with [44] (map write_value vs) @ [93]) (value_tokens vs @ [[93]])"
      using vs by (intro gives_values) (simp_all add: delimeter_def)
    ultimately show ?thesis
      using True gives_append [OF nm, of "write_value (vs ! 0) @ [59]" "[vs ! 0] @ [[59]]"]
        gives_append [OF nm gives_append [OF d(1), of "join_with [44] (map write_value vs) @ [93]" "value_tokens vs @ [[93]]"]]
      by simp
  qed
qed

lemma tokenize_flat: "list_all wf_element cs \<Longrightarrow> tokenize (concat (map flat cs)) = concat (map tokens_of cs)"
proof -
  assume "list_all wf_element cs"
  then have "gives (concat (map flat cs)) (concat (map tokens_of cs))"
    by (intro gives_concat gives_element) (auto simp: list_all_iff)
  from this [unfolded gives_def, rule_format, of "[]" "[]"] show ?thesis by (simp add: tokenize_def)
qed

section \<open>The parser\<close>

lemma next_token_simps [simp]: "next_token (t # u # ts) = u # ts" "next_token [t] = [t]"
  by (simp_all add: next_token_def)

lemma next_token_append: "r \<noteq> [] \<Longrightarrow> next_token (t # r) = r"
  by (cases r) simp_all

lemma accept_Cons [simp]: "accept t (u # ts) \<longleftrightarrow> t = u"
  by (simp add: accept_def)

lemma expect_Cons: "expect t (u # ts) = (if t = u then (True, next_token (u # ts)) else (False, u # ts))"
  by (simp add: expect_def)

lemma wf_value_no_delimeter: "wf_value v \<Longrightarrow> [44] \<noteq> v \<and> [93] \<noteq> v \<and> [91] \<noteq> v \<and> [123] \<noteq> v"
  by (auto simp: wf_value_def delimeter_def)

text \<open>The values behind the first comma of an array.\<close>

lemma array_tail:
  "vs \<noteq> [] \<Longrightarrow> last vs \<noteq> [] \<Longrightarrow> \<forall>v \<in> set vs. v = [] \<or> wf_value v \<Longrightarrow>
   length (value_tokens vs) < m \<Longrightarrow> length (value_tokens vs) < n \<Longrightarrow>
   Option.bind (comma_loop m (value_tokens vs @ [93] # r) us) (\<lambda>(ts, us). array_loop n ts us) = Some ([93] # r, us @ vs)"
proof (induction vs arbitrary: m n us)
  case (Cons v vs)
  obtain m' where m: "m = Suc m'" using Cons.prems(4) by (cases m) auto
  obtain n' where n: "n = Suc n'" using Cons.prems(5) by (cases n) auto
  show ?case
  proof (cases "v = []")
    case True
    then have "vs \<noteq> []" using Cons.prems(2) by auto
    moreover have "next_token ([44] # value_tokens vs @ [93] # r) = value_tokens vs @ [93] # r"
      by (intro next_token_append) simp
    ultimately show ?thesis
      using Cons.IH [of m' n "us @ [[]]"] Cons.prems True m by (simp add: value_tokens_Cons)
  next
    case False
    then have v: "wf_value v" using Cons.prems(3) by simp
    note nd = wf_value_no_delimeter [OF v]
    show ?thesis
    proof (cases "vs = []")
      case True
      obtain n'' where n': "n' = Suc n''" using Cons.prems(5) n False True by (cases n') auto
      show ?thesis using True False nd by (simp add: m n n')
    next
      case False': False
      have "next_token ([44] # value_tokens vs @ [93] # r) = value_tokens vs @ [93] # r"
        by (intro next_token_append) simp
      moreover have "length (value_tokens vs) < n'"
        using Cons.prems(5) n False False' by (simp add: value_tokens_Cons)
      ultimately show ?thesis
        using Cons.IH [of n' n' "us @ [v]"] Cons.prems False False' nd
        by (simp add: m n value_tokens_Cons)
    qed
  qed
qed simp

lemma array_values:
  assumes "wf_values vs" "length (value_tokens vs) < n"
  shows "array_loop n (value_tokens vs @ [93] # r) [] = Some ([93] # r, vs)"
proof -
  obtain n' where n: "n = Suc n'" using assms(2) by (cases n) auto
  have v: "vs \<noteq> []" "hd vs \<noteq> []" "last vs \<noteq> []" "\<forall>v \<in> set vs. v = [] \<or> wf_value v"
    using assms(1) by (auto simp: wf_values_def)
  then obtain w ws where w: "vs = w # ws" "w \<noteq> []" "wf_value w" by (cases vs) auto
  then have "hd (value_tokens vs @ [93] # r) = w" by (cases ws) simp_all
  then have "[44] \<noteq> hd (value_tokens vs @ [93] # r)" using wf_value_no_delimeter [OF w(3)] by simp
  then have "comma_loop (Suc n) (value_tokens vs @ [93] # r) [] = Some (value_tokens vs @ [93] # r, [])"
    by (simp add: accept_def)
  then show ?thesis using array_tail [OF v(1,3,4), of "Suc n" n r "[]"] assms(2) by simp
qed

text \<open>What is left behind an element: its last token stays when nothing follows.\<close>

definition left :: "str \<Rightarrow> str list \<Rightarrow> str list" where
  "left t r = (if r = [] then [t] else r)"

lemma left_simps [simp]: "left t (u # r) = u # r" "left t (xs @ u # r) = xs @ u # r"
  by (simp_all add: left_def)

lemma next_token_left: "next_token (t # r) = left t r"
  by (cases r) (simp_all add: left_def)

definition last_token :: "Element \<Rightarrow> str" where
  "last_token e = (if el_children e \<noteq> [] then [125] else if length (el_values e) = 1 then [59] else [93])"

definition no_semicolon :: "str list \<Rightarrow> bool" where
  "no_semicolon r \<longleftrightarrow> r = [] \<or> [59] \<noteq> hd r"

lemma skip_left: "no_semicolon r \<Longrightarrow> t \<noteq> [59] \<Longrightarrow> skip_semicolon (left t r) = left t r"
  by (auto simp: skip_semicolon_def left_def no_semicolon_def accept_def)

lemma hd_tokens: "wf_element e \<Longrightarrow> tokens_of e \<noteq> [] \<and> hd (tokens_of e) = el_name e \<and> wf_name (el_name e)"
  by (cases e) simp

lemma name_no_delimeter: "wf_name n \<Longrightarrow> [59] \<noteq> n \<and> [125] \<noteq> n"
proof -
  assume "wf_name n"
  then have "c \<notin> set delimeter" if "c \<in> set n" for c using that by (simp add: wf_name_def)
  then have "59 \<notin> set n" "125 \<notin> set n" by (auto simp: delimeter_def)
  then show ?thesis by (metis list.set_intros(1))
qed

lemma children_no_semicolon:
  assumes "list_all wf_element cs" "no_semicolon r"
  shows "no_semicolon (concat (map tokens_of cs) @ r)"
proof (cases cs)
  case (Cons c cs')
  then show ?thesis using assms hd_tokens [of c] name_no_delimeter by (auto simp: no_semicolon_def hd_append)
qed (use assms in simp)

lemma parse_element:
  "wf_element e \<Longrightarrow> length (tokens_of e) \<le> n \<Longrightarrow> no_semicolon r \<Longrightarrow>
   parseVar n (tokens_of e @ r) p = Some (left (last_token e) r, p @ [e])"
proof (induction e arbitrary: n r p)
  case (Element nm vs cs)
  show ?case
  proof (cases "cs = []")
    case True
    then have vs: "wf_values vs" using Element.prems(1) by simp
    show ?thesis
    proof (cases "length vs = 1")
      case L: True
      then obtain v where v: "vs = [v]" by (cases vs) auto
      then have "[91] \<noteq> v" "[123] \<noteq> v" using vs wf_value_no_delimeter by (auto simp: wf_values_def)
      moreover obtain n' where "n = Suc n'" using Element.prems(2) by (cases n) auto
      ultimately show ?thesis
        using True v by (simp add: expect_Cons next_token_left last_token_def Let_def)
    next
      case L: False
      obtain n' where n: "n = Suc n'" "length (value_tokens vs) < n'"
        using Element.prems(2) True L by (cases n) auto
      have "parseArray n' ([91] # value_tokens vs @ [93] # r) (Element nm [] []) =
          Some (left [93] r, Element nm vs [])"
        using Element.prems(3) array_values [OF vs n(2)]
        by (simp add: parseArray_def expect_Cons next_token_left skip_left)
      then show ?thesis using True L n(1) by (simp add: expect_Cons last_token_def)
    qed
  next
    case False
    then have cs: "list_all wf_element cs" "vs = []" using Element.prems(1) by simp_all
    have loop: "object_loop k (concat (map tokens_of ds) @ [125] # r) us = Some ([125] # r, us @ ds)"
      if "set ds \<subseteq> set cs" "length (concat (map tokens_of ds)) < k" for k ds us
      using that
    proof (induction ds arbitrary: k us)
      case Nil
      then show ?case by (cases k) simp_all
    next
      case (Cons d ds)
      then obtain k' where k: "k = Suc k'" by (cases k) auto
      have d: "wf_element d" "d \<in> set cs" using Cons.prems(1) cs(1) by (auto simp: list_all_iff)
      note h = hd_tokens [OF d(1)]
      have "no_semicolon (concat (map tokens_of ds) @ [125] # r)"
        using Cons.prems(1) cs(1) by (intro children_no_semicolon) (auto simp: list_all_iff no_semicolon_def)
      then have "parseVar k' (tokens_of d @ concat (map tokens_of ds) @ [125] # r) us =
          Some (concat (map tokens_of ds) @ [125] # r, us @ [d])"
        using Element.IH [OF d(2) d(1), of k'] Cons.prems(2) k by (simp add: left_def)
      moreover have "0 < length (tokens_of d)" using h by simp
      then have "length (concat (map tokens_of ds)) < k'" using Cons.prems(2) k by (simp del: length_greater_0_conv)
      ultimately show ?case
        using Cons.IH [of k' "us @ [d]"] Cons.prems k h name_no_delimeter [of "el_name d"]
        by (simp add: accept_def hd_append)
    qed
    obtain n' where n: "n = Suc (Suc n')" "length (concat (map tokens_of cs)) < n'"
      using Element.prems(2) False by (cases n; cases "n - 1") auto
    have "parseObject (Suc n') ([123] # concat (map tokens_of cs) @ [125] # r) (Element nm [] []) =
        Some (left [125] r, Element nm [] cs)"
      using Element.prems(3) loop [OF order_refl n(2)]
      by (simp add: expect_Cons next_token_left skip_left)
    then show ?thesis using False cs(2) n(1) by (simp add: expect_Cons last_token_def del: parseVar.simps(2)) (simp add: expect_Cons)
  qed
qed

lemma parse_elements:
  "cs \<noteq> [] \<Longrightarrow> list_all wf_element cs \<Longrightarrow> length (concat (map tokens_of cs)) < n \<Longrightarrow>
   parse_loop n (concat (map tokens_of cs)) us = Some (us @ cs)"
proof (induction cs arbitrary: n us)
  case (Cons c cs)
  then obtain n' where n: "n = Suc n'" by (cases n) auto
  have c: "wf_element c" using Cons.prems by simp
  have l: "4 \<le> length (tokens_of c)" using c by (cases c) (auto simp: wf_values_def)
  have "no_semicolon (concat (map tokens_of cs))"
    using children_no_semicolon [of cs "[]"] Cons.prems by (simp add: no_semicolon_def)
  then have p: "parseVar n' (tokens_of c @ concat (map tokens_of cs)) us =
      Some (left (last_token c) (concat (map tokens_of cs)), us @ [c])"
    using Cons.prems n c by (intro parse_element) auto
  show ?case
  proof (cases "cs = []")
    case True
    obtain n'' where "n' = Suc n''" using Cons.prems(3) l n by (cases n') auto
    then show ?thesis using True p l n by (simp add: left_def)
  next
    case False
    then have "concat (map tokens_of cs) \<noteq> []" using Cons.prems(2) hd_tokens by (cases cs) auto
    then have "left (last_token c) (concat (map tokens_of cs)) = concat (map tokens_of cs)"
      unfolding left_def by (simp only: if_False)
    then have "parse_loop n (tokens_of c @ concat (map tokens_of cs)) us = parse_loop n' (concat (map tokens_of cs)) (us @ [c])"
      using p l by (simp add: n)
    also have "\<dots> = Some ((us @ [c]) @ cs)"
      using False l n Cons.prems by (intro Cons.IH) auto
    finally show ?thesis by simp
  qed
qed simp

section \<open>Brackets that are not closed\<close>













section \<open>Properties\<close>

lemma read_saved:
  assumes "cs \<noteq> []" "list_all wf_element cs" "length (concat (map tokens_of cs)) < n"
  shows "read_input n (save_text (Element nm vs cs)) (Element nm' vs' old) = Some (Element nm' vs' cs)"
proof -
  let ?t = "concat (map flat cs)" and ?k = "concat (map tokens_of cs)"
  have t: "preprocess (save_text (Element nm vs cs)) = ?t" by (rule preprocess_save [OF assms(2)])
  have "?t \<noteq> []" using assms(1,2) by (cases cs; cases "hd cs") auto
  moreover have k: "tokenize ?t = ?k" by (rule tokenize_flat [OF assms(2)])
  moreover have "?k \<noteq> []" using assms(1,2) hd_tokens by (cases cs) auto
  ultimately show ?thesis
    using parse_elements [OF assms, of "[]"] by (simp add: read_input_def t parse_tokens_def Let_def)
qed

text \<open>Property C28: a tree with at least one element, all of whose elements can be written (\<open>wf_element\<close>), is read back when
  it is saved, by a new object on the file and from the stream; the parser ends, with fuel one more than the number of tokens. An
  element can be written when its name is not empty and holds no quote, backslash, line end, space, tab, \<open>#\<close> or delimiter
  (\<open>= ; [ ] { } ,\<close>), and it has either children that can be written or values: the first and the last are not empty (so a single
  value is not), and no value holds a quote, backslash or line end or is one delimiter.\<close>

theorem configor_roundtrip:
  assumes "el_children (root c) = cs" "cs \<noteq> []" "list_all wf_element cs" "length (concat (map tokens_of cs)) < n"
    "filePath c \<noteq> []" "writable c"
  shows "map_option root (Configor_file n (filePath c) (disk (snd (saveFile c))) w) = Some (Element [] [] cs) \<and>
    Configor_stream n (save_text (root c)) = Some (Element [] [] cs)"
proof -
  have "read_input n (save_text (root c)) (Element [] [] []) = Some (Element [] [] cs)"
    using read_saved [OF assms(2-4), of "el_name (root c)" "el_values (root c)"] assms(1) by (cases "root c") simp
  then show ?thesis
    using assms(5,6) by (simp add: Configor_file_def reloadFile_def saveFile_def Configor_stream_def)
qed

lemma configor_roundtrip_witness:
  "map_option root (Configor_file 30 [102] (disk (snd (saveFile \<lparr>filePath = [102], root = Element [] []
        [Element [97] [[53], [], [50]] [], Element [98] [] [Element [99] [[104, 32, 59]] []]], disk = None, writable = True\<rparr>))) False) =
     Some (Element [] [] [Element [97] [[53], [], [50]] [], Element [98] [] [Element [99] [[104, 32, 59]] []]])"
  using configor_roundtrip [where n = 30 and w = False and c = "\<lparr>filePath = [102], root = Element [] []
        [Element [97] [[53], [], [50]] [], Element [98] [] [Element [99] [[104, 32, 59]] []]], disk = None, writable = True\<rparr>", OF refl]
  by (simp add: wf_values_def wf_value_def wf_name_def delimeter_def quote_char_def)



end
