(* ===== verification/Configor_Tree.thy ===== *)
theory Configor_Tree
  imports Configor_Roundtrip
begin

text \<open>
  What the accessors of the configuration promise: a value that was set is read, nothing else changes, and the file
  holds the tree that is in memory.
\<close>

section \<open>Places in a tree\<close>

text \<open>A place has contents that can be read and replaced; only contents that fit there are read again.\<close>

locale place =
  fixes get :: "'s \<Rightarrow> 'a" and put :: "'a \<Rightarrow> 's \<Rightarrow> 's" and fits :: "'s \<Rightarrow> 'a \<Rightarrow> bool"
  assumes get_put: "fits s a \<Longrightarrow> get (put a s) = a"
    and put_put: "fits s a \<Longrightarrow> put b (put a s) = put b s"
    and fits_get: "fits s (get s)"
    and fits_put: "fits s a \<Longrightarrow> fits (put a s) b = fits s b"
begin

definition run :: "('a \<Rightarrow> 'r \<times> 'a) \<Rightarrow> 's \<Rightarrow> 'r \<times> 's" where
  "run f s = (fst (f (get s)), put (snd (f (get s))) s)"

lemma run_run: "fits s (snd (f (get s))) \<Longrightarrow> run g (snd (run f s)) = run (\<lambda>a. g (snd (f a))) s"
  by (simp add: run_def get_put put_put)

lemma run_read: "fits s (snd (f (get s))) \<Longrightarrow> fst (run g (snd (run f s))) = fst (g (snd (f (get s))))"
  by (simp add: run_def get_put)

end

fun element_at :: "str list \<Rightarrow> Element \<Rightarrow> Element" where
  "element_at [] e = e"
| "element_at (name # names) e = (let (i, e) = subscript name e in element_at names (el_children e ! i))"

fun put_at :: "str list \<Rightarrow> Element \<Rightarrow> Element \<Rightarrow> Element" where
  "put_at [] c e = c"
| "put_at (name # names) c e =
     (let (i, e) = subscript name e
      in Element (el_name e) (el_values e) ((el_children e)[i := put_at names c (el_children e ! i)]))"

lemma child_index_Some: "child_index name e = Some i \<longleftrightarrow>
    i < length (el_children e) \<and> el_name (el_children e ! i) = name \<and> (\<forall>j<i. el_name (el_children e ! j) \<noteq> name)"
  by (auto simp: child_index_def find_Some_iff)

lemma child_index_None: "child_index name e = None \<longleftrightarrow> (\<forall>i<length (el_children e). el_name (el_children e ! i) \<noteq> name)"
  by (auto simp: child_index_def find_None_iff)

lemma subscript_facts:
  assumes "subscript name e = (i, e')"
  shows "i < length (el_children e')" "el_name (el_children e' ! i) = name" "el_name e' = el_name e"
    "el_values e' = el_values e" "child_index name e' = Some i"
  using assms by (auto simp: subscript_def child_index_None child_index_Some nth_append less_Suc_eq split: option.splits)

lemma subscript_again: "child_index name e = Some i \<Longrightarrow> subscript name e = (i, e)"
  by (simp add: subscript_def)

lemma at_path_place: "at_path p f e = (fst (f (element_at p e)), put_at p (snd (f (element_at p e))) e)"
  by (induction p arbitrary: e) (auto split: prod.splits)

lemma put_at_name: "el_name c = el_name (element_at p e) \<Longrightarrow> el_name (put_at p c e) = el_name e"
  by (cases p) (auto simp: subscript_facts(3) split: prod.splits)

lemma subscript_put:
  assumes "subscript name e = (i, e')" "el_name x = name"
  shows "subscript name (Element (el_name e) (el_values e) ((el_children e')[i := x])) =
    (i, Element (el_name e) (el_values e) ((el_children e')[i := x]))"
  using subscript_facts(5) [OF assms(1)] assms(2)
  by (intro subscript_again) (auto simp: child_index_Some nth_list_update)

lemma element_put: "el_name c = el_name (element_at p e) \<Longrightarrow> element_at p (put_at p c e) = c"
proof (induction p arbitrary: e)
  case (Cons name p)
  obtain i e' where s: "subscript name e = (i, e')" by fastforce
  note f = subscript_facts [OF s]
  have n: "el_name c = el_name (element_at p (el_children e' ! i))" using Cons.prems s by simp
  show ?case
    using f Cons.IH [OF n] by (simp add: s subscript_put [OF s] put_at_name [OF n])
qed simp

lemma put_put_at: "el_name c = el_name (element_at p e) \<Longrightarrow> put_at p d (put_at p c e) = put_at p d e"
proof (induction p arbitrary: e)
  case (Cons name p)
  obtain i e' where s: "subscript name e = (i, e')" by fastforce
  note f = subscript_facts [OF s]
  have n: "el_name c = el_name (element_at p (el_children e' ! i))" using Cons.prems s by simp
  show ?case
    using f Cons.IH [OF n] by (simp add: s subscript_put [OF s] put_at_name [OF n])
qed simp

interpretation at: place "element_at p" "put_at p" "\<lambda>e c. el_name c = el_name (element_at p e)"
  by unfold_locales (simp_all add: element_put put_put_at)

lemma at_path_run: "at_path p f e = at.run p f e"
  by (simp add: at.run_def at_path_place)

text \<open>Elements on another branch are not affected.\<close>

lemma child_index_append: "a \<noteq> b \<Longrightarrow> child_index b (Element n vs (cs @ [Element a ws ds])) = child_index b (Element n vs cs)"
proof (cases "child_index b (Element n vs cs)")
  case None
  assume "a \<noteq> b"
  with None have "child_index b (Element n vs (cs @ [Element a ws ds])) = None"
    by (auto simp: child_index_None nth_append)
  then show ?thesis using None by simp
next
  case (Some i)
  then have "child_index b (Element n vs (cs @ [Element a ws ds])) = Some i"
    by (auto simp: child_index_Some nth_append)
  then show ?thesis using Some by simp
qed

lemma child_index_update:
  "i < length cs \<Longrightarrow> el_name x = el_name (cs ! i) \<Longrightarrow>
   child_index b (Element n vs (cs[i := x])) = child_index b (Element n vs cs)"
  unfolding child_index_def by (rule find_cong) (auto simp: nth_list_update)

lemma child_index_subscript: "subscript a e = (i, e') \<Longrightarrow> a \<noteq> b \<Longrightarrow> child_index b e' = child_index b e"
  by (auto simp: subscript_def child_index_append split: option.splits)

lemma element_at_other:
  assumes "a \<noteq> b" "el_name c = el_name (element_at (xs @ a # ps) e)"
  shows "element_at (xs @ b # qs) (put_at (xs @ a # ps) c e) = element_at (xs @ b # qs) e"
  using assms(2)
proof (induction xs arbitrary: e)
  case Nil
  obtain i e' where s: "subscript a e = (i, e')" by fastforce
  note f = subscript_facts [OF s]
  let ?x = "put_at ps c (el_children e' ! i)"
  let ?e = "Element (el_name e') (el_values e') ((el_children e')[i := ?x])"
  have x: "el_name ?x = a" using Nil f(2) s by (simp add: put_at_name)
  have "child_index b ?e = child_index b e'"
    using f(1,2) x by (cases e') (simp add: child_index_update)
  also have "\<dots> = child_index b e"
    using s assms(1) by (rule child_index_subscript)
  finally have b: "child_index b ?e = child_index b e" .
  have "el_children ?e ! j = el_children e ! j" if "child_index b e = Some j" for j
    using that s assms(1) by (auto simp: subscript_def child_index_Some nth_append nth_list_update split: option.splits)
  then show ?case using b by (auto simp: s subscript_def [of b] nth_append split: option.split)
next
  case (Cons name xs)
  obtain i e' where s: "subscript name e = (i, e')" by fastforce
  note f = subscript_facts [OF s]
  have n: "el_name c = el_name (element_at (xs @ a # ps) (el_children e' ! i))" using Cons.prems s by simp
  show ?case
    using f Cons.IH [OF n] by (simp add: s subscript_put [OF s] put_at_name [OF n])
qed

section \<open>Numbers\<close>

lemma stoi_to_string: "- (2 ^ 31) \<le> v \<Longrightarrow> v < 2 ^ 31 \<Longrightarrow> stoi (to_string v) = Some v"
proof -
  have d: "digits_value (dec_digits k) 0 = k \<and> dec_digits k \<noteq> [] \<and> digit (hd (dec_digits k))" for k
    using dec_digits_value dec_digits_digit [of k] by (simp add: list_all_iff)
  assume v: "- (2 ^ 31) \<le> v" "v < 2 ^ 31"
  show ?thesis
  proof (cases "v < 0")
    case True
    then show ?thesis using v d [of "nat (- v)"] by (simp add: stoi_def to_string_def)
  next
    case False
    obtain c t where s: "dec_digits (nat v) = c # t" by (cases "dec_digits (nat v)") auto
    then have "digit c" using d [of "nat v"] by simp
    note c = digit_no_space [OF this] this
    have "digits_value (c # t) 0 = nat v" using d [of "nat v"] s by simp
    then show ?thesis using False v c by (simp add: stoi_def to_string_def s del: digits_value.simps)
  qed
qed

lemma grow_values: "(grow i vs)[i := v] ! i = v" "j \<noteq> i \<Longrightarrow> j < length vs \<Longrightarrow> (grow i vs)[i := v] ! j = vs ! j"
  "length ((grow i vs)[i := v]) = max (length vs) (i + 1)"
  "j \<noteq> i \<Longrightarrow> length vs \<le> j \<Longrightarrow> j < i \<Longrightarrow> (grow i vs)[i := v] ! j = []"
  by (auto simp: grow_def nth_append)

lemma saveFile_root: "root (snd (saveFile c)) = root c" "filePath (snd (saveFile c)) = filePath c"
    "writable (snd (saveFile c)) = writable c"
  by (simp_all add: saveFile_def)

section \<open>Properties\<close>

lemma getString_value: "fst (getString j d e) = (if j < length (el_values e) then el_values e ! j else d)"
  by (simp add: getString_def grow_values(1))

lemma length_set_value: "length (el_values (set_value v i e)) = max (length (el_values e)) (i + 1)"
  unfolding set_value_def Element.sel by (rule grow_values)

lemma getString_set_value:
  "fst (getString j d (set_value v i e)) =
     (if j = i then v else if j < length (el_values e) then el_values e ! j else if j < i then [] else d)"
proof -
  have v: "el_values (set_value v i e) = (grow i (el_values e))[i := v]" by (simp add: set_value_def)
  show ?thesis
    unfolding getString_value length_set_value unfolding v
    using grow_values(1) [of i "el_values e" v] grow_values(2,4) [of j i "el_values e" v] by auto
qed

lemma getInt_value:
  "getInt j d e = (if length (el_values e) \<le> j \<or> el_values e ! j = [] then d
     else case stoi (el_values e ! j) of Some v \<Rightarrow> v | None \<Rightarrow> d)"
  by (simp add: getInt_def getString_value)

lemma getInt_set_value:
  "getInt j d (set_value s i e) =
     (if j = i then if s = [] then d else case stoi s of Some v \<Rightarrow> v | None \<Rightarrow> d
      else if length (el_values e) \<le> j then d else getInt j d e)"
  using getString_set_value [of j "[]" s i e]
  by (auto simp: getInt_value length_set_value getString_value split: if_splits)

lemma set_value_name [simp]: "el_name (set_value v i e) = el_name e"
  by (simp add: set_value_def)

lemma root_set_at: "root (set_at p v i c) = put_at p (set_value v i (element_at p (root c))) (root c)"
  by (simp add: set_at_def saveFile_root at_path_place)

lemma get_at_value: "fst (get_at p j d c) = fst (getString j d (element_at p (root c)))"
  by (simp add: get_at_def at_path_place)

text \<open>After a value is set it is read at its path, whatever the default; the values of the other
  indexes stay, a gap below the index is filled with empty values, and elements on other branches keep their values.\<close>

theorem configor_set_get:
  "fst (get_at p j d (set_at p v i c)) =
     (let vs = el_values (element_at p (root c))
      in if j = i then v else if j < length vs then vs ! j else if j < i then [] else d) \<and>
   (a \<noteq> b \<longrightarrow> fst (get_at (xs @ b # qs) j d (set_at (xs @ a # ps) v i c)) = fst (get_at (xs @ b # qs) j d c))"
  by (simp add: get_at_value root_set_at element_put getString_set_value element_at_other)

lemma configor_set_get_witness:
  "fst (get_at [[98], [99]] 0 [100] (set_at [[98], [97]] [53] 0
     \<lparr>filePath = [102], root = Element [] [] [], disk = None, writable = True\<rparr>)) = [100]"
  using configor_set_get [where a = "[97]" and b = "[99]" and xs = "[[98]]" and qs = "[]" and ps = "[]"
      and c = "\<lparr>filePath = [102], root = Element [] [] [], disk = None, writable = True\<rparr>" and j = 0 and d = "[100]"
      and v = "[53]" and i = 0, THEN conjunct2]
  by (simp add: get_at_value subscript_def child_index_def getString_def grow_def)

text \<open>A number of the type \<^verbatim>\<open>int\<close> that is set is read, and every other index that was not there before gives
  the default, a gap below the index too.\<close>

theorem configor_set_int:
  assumes "- (2 ^ 31) \<le> v" "v < 2 ^ 31"
  shows "fst (get_int_at p j d (set_int_at p v i c)) =
     (if j = i then v else if valueSize (element_at p (root c)) \<le> j then d
      else getInt j d (element_at p (root c)))"
proof -
  have g: "fst (get_int_at p j d (set_int_at p v i c)) = getInt j d (set_value (to_string v) i (element_at p (root c)))" for j
    by (simp add: get_int_at_def set_int_at_def at_path_place root_set_at element_put)
  have "to_string v \<noteq> []" by (simp add: to_string_def)
  then show ?thesis by (simp add: g getInt_set_value stoi_to_string [OF assms] valueSize_def)
qed

lemma configor_set_int_witness:
  "fst (get_int_at [[97]] 0 7 (set_int_at [[97]] (- 12) 0
     \<lparr>filePath = [102], root = Element [] [] [], disk = None, writable = True\<rparr>)) = - 12"
  using configor_set_int [where v = "- 12" and j = 0 and i = 0] by simp

lemma element_at_children: "p \<noteq> [] \<Longrightarrow> el_children e = el_children e' \<Longrightarrow> element_at p e = element_at p e'"
  by (cases p) (simp_all add: subscript_def child_index_def split: option.split)

lemma children_put_at: "p \<noteq> [] \<Longrightarrow> el_children (put_at p c e) \<noteq> []"
  using subscript_facts(1) by (cases p) (fastforce split: prod.splits)+

lemma set_at_file: "filePath (set_at p v i c) = filePath c" "writable (set_at p v i c) = writable c"
  "filePath c \<noteq> [] \<Longrightarrow> writable c \<Longrightarrow> disk (set_at p v i c) = Some (save_text (root (set_at p v i c)))"
  by (simp_all add: set_at_def saveFile_def)

text \<open>Property C29: a value that is set at a path that is not empty is in the file at once: a new object on the file, in
  this process or the next one, reads it, when every element of the whole tree can be written after the change (\<open>wf_element\<close>, as
  in \<open>configor_roundtrip\<close>: names without special characters, values or children but not both, no value with a quote, backslash or
  line end, no value that is one delimiter, and the first and last value of an element not empty). A single empty value and a
  value with a quote are not read back (\<open>empty_value_not_reloaded\<close>, \<open>quote_not_masked\<close>).\<close>

theorem configor_set_reload:
  assumes "filePath c \<noteq> []" "writable c" "p \<noteq> []"
    and "cs = el_children (root (set_at p v i c))" "list_all wf_element cs" "length (concat (map tokens_of cs)) < n"
  shows "map_option (\<lambda>c'. fst (get_at p i d c')) (Configor_file n (filePath c) (disk (set_at p v i c)) w) = Some v"
proof -
  let ?r = "root (set_at p v i c)"
  have "cs \<noteq> []" using assms(3,4) by (simp add: root_set_at children_put_at)
  then have "read_input n (save_text ?r) (Element [] [] []) = Some (Element [] [] cs)"
    using read_saved [OF _ assms(5,6), of "el_name ?r" "el_values ?r"] assms(4) by (cases ?r) simp
  moreover have "element_at p (Element [] [] cs) = element_at p ?r"
    using assms(3,4) by (intro element_at_children) simp_all
  moreover have "element_at p ?r = set_value v i (element_at p (root c))"
    by (simp add: root_set_at element_put)
  ultimately show ?thesis
    using assms(1,2) by (simp add: Configor_file_def reloadFile_def set_at_file get_at_value getString_set_value)
qed

lemma configor_set_reload_witness:
  "map_option (\<lambda>c'. fst (get_at [[98], [97]] 0 [] c')) (Configor_file 20 [102]
     (disk (set_at [[98], [97]] [104, 32] 0 \<lparr>filePath = [102], root = Element [] [] [], disk = None, writable = True\<rparr>))
     True) = Some [104, 32]"
  using configor_set_reload [where p = "[[98], [97]]" and v = "[104, 32]" and i = 0 and n = 20 and d = "[]" and w = True
      and c = "\<lparr>filePath = [102], root = Element [] [] [], disk = None, writable = True\<rparr>", OF _ _ _ refl]
  by (simp add: root_set_at subscript_def child_index_def set_value_def grow_def wf_values_def wf_value_def wf_name_def
      delimeter_def quote_char_def)

section \<open>What is lost\<close>

text \<open>Reading a child of an element that has values makes the element one with children, and the next save does not
  write its values.\<close>

lemma read_child_hides_values:
  assumes "root c = Element n ws [Element a vs []]"
  shows "save_text (root (snd (get_at [a, b] 0 [] c))) =
    a @ [32, 61, 32, 123, 10, 32, 32, 32, 32] @ b @ [32, 61, 32, 59, 10, 125, 10]"
proof -
  have "replicate 4 (32 :: byte) = [32, 32, 32, 32]" by (simp add: numeral_eq_Suc)
  then show ?thesis
    using assms by (simp add: get_at_def subscript_def child_index_def getString_def grow_def save_text_def TABS_def
        write_value_def isNumeric_def)
qed

text \<open>A single value that is empty is written as nothing: the semicolon becomes the value when the file is read.\<close>

lemma empty_value_not_reloaded:
  "let c = set_at [[97]] [] 0 \<lparr>filePath = [102], root = Element [] [] [], disk = None, writable = True\<rparr>
   in disk c = Some [97, 32, 61, 32, 59, 10] \<and>
     map_option root (Configor_file 20 [102] (disk c) True) = Some (Element [] [] [Element [97] [[59]] []])"
  by code_simp

text \<open>The writer does not mask a quote in a value: a second quote ends the string when the file is read.\<close>

lemma quote_not_masked:
  "let c = set_at [[97]] [120, 34, 59, 98, 61, 49] 0
     \<lparr>filePath = [102], root = Element [] [] [], disk = None, writable = True\<rparr>
   in map_option root (Configor_file 20 [102] (disk c) True) \<noteq> Some (root c)"
  by code_simp

end
