(* ===== verification/Path_Util.thy ===== *)
theory Path_Util
  imports Str_Util
begin

text \<open>
  Model of \<^verbatim>\<open>src/src/path.cpp\<close> and of \<^verbatim>\<open>src/src/path_util.cpp\<close>: the lexical functions on paths, the functions on
  buffers of wide characters, and the creation of a path. A buffer is a list of characters that its owner
  holds; an access outside of it and a copy between overlapping parts of it are undefined, written as
  \<open>None\<close>. The flag \<open>win\<close> chooses the code for Windows. Calls of the operating system are parameters.
\<close>

type_synonym wchar = "32 word"

section \<open>Character arrays\<close>

definition wcslen :: "wchar list \<Rightarrow> nat" where
  "wcslen buf = length (takeWhile (\<lambda>c. c \<noteq> 0) buf)"

definition wcscpy :: "wchar list \<Rightarrow> nat \<Rightarrow> wchar list \<Rightarrow> wchar list option" where
  "wcscpy dest i src =
     (if i + wcslen src < length dest \<and> wcslen src < length src
      then Some (memcpy dest i (take (wcslen src + 1) src)) else None)"

text \<open>Source and destination in the same array.\<close>

definition wcscpy_within :: "wchar list \<Rightarrow> nat \<Rightarrow> nat \<Rightarrow> wchar list option" where
  "wcscpy_within buf i j =
     (let n = wcslen (drop j buf) + 1
      in if i < j + n \<and> j < i + n then None else wcscpy buf i (drop j buf))"

text \<open>\<^verbatim>\<open>find_last_of\<close> with the last position to look at; \<open>None\<close> is \<^verbatim>\<open>npos\<close>, the whole string.\<close>

definition find_last_of :: "'a list \<Rightarrow> 'a list \<Rightarrow> nat option \<Rightarrow> nat option" where
  "find_last_of s cs pos =
     List.find (\<lambda>i. s ! i \<in> set cs) (rev [0..<(case pos of None \<Rightarrow> length s | Some p \<Rightarrow> min (length s) (p + 1))])"

section \<open>Quotes\<close>

definition PathIsSurroundQuote :: "wchar list \<Rightarrow> bool" where
  "PathIsSurroundQuote path \<longleftrightarrow>
     (let oldLen = length path
      in if oldLen < 2 then False
         else path ! 0 = 34 \<and> path ! (oldLen - 1) = 34 \<or> path ! 0 = 39 \<and> path ! (oldLen - 1) = 39)"

definition PathIsSurroundQuote_ptr :: "wchar list option \<Rightarrow> bool" where
  "PathIsSurroundQuote_ptr szPath =
     (case szPath of
        None \<Rightarrow> False
      | Some s \<Rightarrow>
          let oldLen = wcslen s
          in if wcslen s < 2 then False
             else s ! 0 = 34 \<and> s ! (oldLen - 1) = 34 \<or> s ! 0 = 39 \<and> s ! (oldLen - 1) = 39)"

definition PathRemoveQuote :: "wchar list \<Rightarrow> wchar list" where
  "PathRemoveQuote path = (if PathIsSurroundQuote path then substr path 1 (length path - 2) else path)"

definition PathRemoveQuote_ptr :: "wchar list \<Rightarrow> wchar list option" where
  "PathRemoveQuote_ptr szPath =
     (if PathIsSurroundQuote_ptr (Some szPath) then wcscpy_within (szPath[wcslen szPath - 1 := 0]) 0 1
      else Some szPath)"

definition PathAddQuote :: "wchar list \<Rightarrow> bool \<Rightarrow> wchar list" where
  "PathAddQuote path singleQuote =
     (if PathIsSurroundQuote path then path
      else let quote = (if singleQuote then 39 else 34) in [quote] @ path @ [quote])"

definition PathAddQuote_ptr :: "wchar list \<Rightarrow> nat \<Rightarrow> bool \<Rightarrow> (bool \<times> wchar list) option" where
  "PathAddQuote_ptr szPath buffSize singleQuote =
     (if PathIsSurroundQuote_ptr (Some szPath) then Some (True, szPath)
      else let oldLen = wcslen szPath
           in if oldLen + 2 \<ge> buffSize then Some (False, szPath)
              else let quote = (if singleQuote then 39 else 34)
                   in Option.bind (wcscpy (replicate (oldLen + 1) 0) 0 szPath) (\<lambda>buff.
                      Option.bind (put szPath 0 quote) (\<lambda>s.
                      Option.bind (wcscpy s 1 (buff[oldLen := 0])) (\<lambda>s.
                      Option.bind (put s (oldLen + 1) quote) (\<lambda>s.
                      map_option (\<lambda>s. (True, s)) (put s (oldLen + 2) 0))))))"

section \<open>Directories and file names\<close>

definition separators :: "wchar list" where
  "separators = [92, 47]"

text \<open>One turn of the loop. The offset \<^verbatim>\<open>dir.size() - 2\<close> of a single separator wraps around to \<^verbatim>\<open>npos\<close>.\<close>

definition dir_up :: "wchar list \<Rightarrow> wchar list" where
  "dir_up dir =
     (let end_char = dir ! (length dir - 1);
          offset = (if end_char = 92 \<or> end_char = 47 then if length dir = 1 then None else Some (length dir - 2)
                    else None);
          pos = find_last_of dir separators offset
      in case pos of None \<Rightarrow> dir | Some pos \<Rightarrow> substr dir 0 (pos + 1))"

fun dir_loop :: "nat \<Rightarrow> wchar list \<Rightarrow> wchar list" where
  "dir_loop 0 dir = dir"
| "dir_loop (Suc n) dir = (if dir = [] then dir else dir_loop n (dir_up dir))"

definition PathGetDirectory :: "wchar list \<Rightarrow> int \<Rightarrow> wchar list" where
  "PathGetDirectory path upLevel = dir_loop (nat upLevel) path"

definition PathGetFileName :: "wchar list \<Rightarrow> wchar list" where
  "PathGetFileName path = (case find_last_of path separators None of None \<Rightarrow> path | Some i \<Rightarrow> drop (i + 1) path)"

definition slash :: "bool \<Rightarrow> wchar" where
  "slash win = (if win then 92 else 47)"

definition PathAddSlach :: "bool \<Rightarrow> wchar list \<Rightarrow> wchar list" where
  "PathAddSlach win path =
     (if path = [] then path
      else let end_char = path ! (length path - 1)
           in if end_char \<noteq> 92 \<and> end_char \<noteq> 47 then path @ [slash win] else path)"

definition PathRemoveSlach :: "wchar list \<Rightarrow> wchar list" where
  "PathRemoveSlach path =
     (if path = [] then []
      else let end_char = path ! (length path - 1)
           in if end_char = 92 \<or> end_char = 47 then substr path 0 (length path - 1) else path)"

definition PathJoin :: "bool \<Rightarrow> wchar list \<Rightarrow> wchar list \<Rightarrow> wchar list" where
  "PathJoin win path1 path2 =
     (if path1 = [] then path2
      else if path2 = [] then path1
      else let end_char = path1 ! (length path1 - 1);
               res = (if end_char \<noteq> 92 \<and> end_char \<noteq> 47 then path1 @ [slash win] else path1);
               start = path2 ! 0
           in if start = 92 \<or> start = 47 then res @ drop 1 path2 else res @ path2)"

section \<open>The class Path\<close>

text \<open>The string that the object holds is one of bytes, or of wide characters on Windows. A string of the other kind
  goes through \<^verbatim>\<open>w2u\<close> or \<^verbatim>\<open>a2w\<close>, the parameter \<open>conv\<close>.\<close>

definition Path_same :: "'a::len word list \<Rightarrow> 'a word list" where
  "Path_same s = s"

definition Path_other :: "('b::len word list \<Rightarrow> 'a::len word list) \<Rightarrow> 'b word list \<Rightarrow> 'a word list" where
  "Path_other conv s = conv s"

definition Path_same_ptr :: "'a::len word list option \<Rightarrow> 'a word list" where
  "Path_same_ptr p = (case p of None \<Rightarrow> [] | Some s \<Rightarrow> s)"

definition Path_other_ptr :: "('b::len word list \<Rightarrow> 'a::len word list) \<Rightarrow> 'b word list option \<Rightarrow> 'a word list" where
  "Path_other_ptr conv p = (case p of None \<Rightarrow> [] | Some s \<Rightarrow> conv s)"

definition Path_empty :: "'a::len word list \<Rightarrow> bool" where
  "Path_empty s \<longleftrightarrow> s = []"

definition Path_add :: "'a::len word list \<Rightarrow> 'a word list \<Rightarrow> 'a word list \<Rightarrow> 'a word list" where
  "Path_add sep s1 s2 =
     (let s1 = (if \<not> StrIsEndsWith s1 sep then s1 @ sep else s1) in Path_same (s1 @ s2))"

definition Path_append :: "'a::len word list \<Rightarrow> 'a word list \<Rightarrow> 'a word list \<Rightarrow> 'a word list" where
  "Path_append sep s s2 = (let s = (if \<not> StrIsEndsWith s sep then s @ sep else s) in s @ s2)"

definition Separator :: "(byte list \<Rightarrow> 'a::len word list) \<Rightarrow> bool \<Rightarrow> 'a word list" where
  "Separator conv win = Path_other conv (if win then [92] else [47])"

section \<open>Creating a path\<close>

text \<open>The characters up to which a turn of the loop looks: separators are skipped and then a name.\<close>

definition skip_component :: "'a::len word \<Rightarrow> 'a word list \<Rightarrow> nat \<Rightarrow> nat" where
  "skip_component sep path i =
     (let i = i + length (takeWhile (\<lambda>c. c = sep) (drop i path))
      in i + length (takeWhile (\<lambda>c. c \<noteq> sep) (drop i path)))"

lemma skip_component_progress: "skip_component sep path i < length path \<Longrightarrow> i < skip_component sep path i"
proof -
  assume l: "skip_component sep path i < length path"
  define j where "j = i + length (takeWhile (\<lambda>c. c = sep) (drop i path))"
  have s: "skip_component sep path i = j + length (takeWhile (\<lambda>c. c \<noteq> sep) (drop j path))"
    by (simp add: skip_component_def j_def Let_def)
  show ?thesis
  proof (cases "i < j")
    case False
    then have "j = i" by (simp add: j_def)
    then have "i < length path" using l s by simp
    then obtain c r where d: "drop i path = c # r" by (cases "drop i path") auto
    then have "c \<noteq> sep" using \<open>j = i\<close> j_def by (auto split: if_splits)
    then show ?thesis using s d \<open>j = i\<close> by simp
  qed (use s in simp)
qed

lemma skip_component_measure:
  "\<not> length path \<le> skip_component sep path i \<Longrightarrow> length path - skip_component sep path i < length path - i"
  using skip_component_progress [of sep path i] by simp

text \<open>\<^verbatim>\<open>stat\<close> gives an error or whether there is a directory; \<^verbatim>\<open>mkdir\<close> whether it succeeded, and the new state. The
  flag \<open>noent\<close> of an error says that it is \<^verbatim>\<open>ENOENT\<close>.\<close>

datatype stat_result = Stat_error (noent: bool) | Is_dir bool

text \<open>The code for POSIX: a directory in the middle that cannot be made is left to the next one.\<close>

function make_loop ::
  "(str \<Rightarrow> 's \<Rightarrow> stat_result) \<Rightarrow> (str \<Rightarrow> 's \<Rightarrow> bool \<times> 's) \<Rightarrow> str \<Rightarrow> nat \<Rightarrow> 's \<Rightarrow> bool \<times> 's"
where
  "make_loop stat mkdir path i s =
     (let i' = skip_component 47 path i; completed = (length path \<le> i'); dir = take i' path
      in case stat dir s of
           Stat_error enoent \<Rightarrow>
             let (made, s) = (if enoent then mkdir dir s else (False, s))
             in if completed then (made, s) else make_loop stat mkdir path i' s
         | Is_dir is_dir \<Rightarrow>
             if \<not> is_dir then (False, s)
             else if completed then (True, s) else make_loop stat mkdir path i' s)"
  by pat_completeness auto
termination
  by (relation "measure (\<lambda>(stat, mkdir, path, i, s). length path - i)")
    (auto intro: skip_component_measure)

declare make_loop.simps [simp del]

text \<open>The code for Windows: any failure ends it.\<close>

function make_loop_win ::
  "('a::len word list \<Rightarrow> 's \<Rightarrow> stat_result) \<Rightarrow> ('a word list \<Rightarrow> 's \<Rightarrow> bool \<times> 's) \<Rightarrow> 'a word list \<Rightarrow> nat \<Rightarrow> 's \<Rightarrow> bool \<times> 's"
where
  "make_loop_win stat mkdir path i s =
     (let i' = skip_component 92 path i; completed = (length path \<le> i'); dir = take i' path
      in case stat dir s of
           Stat_error enoent \<Rightarrow>
             let (made, s) = mkdir dir s
             in if \<not> made then (False, s) else if completed then (True, s) else make_loop_win stat mkdir path i' s
         | Is_dir is_dir \<Rightarrow>
             if \<not> is_dir then (False, s)
             else if completed then (True, s) else make_loop_win stat mkdir path i' s)"
  by pat_completeness auto
termination
  by (relation "measure (\<lambda>(stat, mkdir, path, i, s). length path - i)")
    (auto intro: skip_component_measure)

declare make_loop_win.simps [simp del]

definition MakePath ::
  "('b::len word list \<Rightarrow> str) \<Rightarrow> (str \<Rightarrow> 's \<Rightarrow> stat_result) \<Rightarrow> (str \<Rightarrow> 's \<Rightarrow> bool \<times> 's) \<Rightarrow> 'b word list \<Rightarrow> 's \<Rightarrow> bool \<times> 's"
where
  "MakePath w2u stat mkdir path s = make_loop stat mkdir (takeWhile (\<lambda>c. c \<noteq> 0) (w2u path)) 0 s"

definition MakePath_win ::
  "('a::len word list \<Rightarrow> 's \<Rightarrow> stat_result) \<Rightarrow> ('a word list \<Rightarrow> 's \<Rightarrow> bool \<times> 's) \<Rightarrow> 'a word list \<Rightarrow> 's \<Rightarrow> bool \<times> 's"
where
  "MakePath_win stat mkdir path s = make_loop_win stat mkdir (takeWhile (\<lambda>c. c \<noteq> 0) path) 0 s"

end
