(* ===== verification/Path_Laws.thy ===== *)
theory Path_Laws
  imports Path_Util "HOL-Library.Sublist"
begin

text \<open>
  What the path functions promise: quotes are removed as they were added, the variant on buffers agrees with the one
  on strings, directories and file names are what was joined, and a path is created with all its directories.
\<close>

section \<open>Quotes\<close>

lemma substr_inner: "substr (q # path @ [q]) (Suc 0) (length path) = path"
  by (simp add: substr_def)

lemma quoted_surround: "q = 34 \<or> q = 39 \<Longrightarrow> PathIsSurroundQuote (q # path @ [q])"
  by (auto simp: PathIsSurroundQuote_def nth_append)

text \<open>Removing quotes undoes adding them, with either quote; a path that has quotes gets no others.\<close>

theorem quotes_roundtrip:
  "PathRemoveQuote (PathAddQuote path singleQuote) =
     (if PathIsSurroundQuote path then PathRemoveQuote path else path) \<and>
   PathIsSurroundQuote (PathAddQuote path singleQuote) \<and>
   PathAddQuote (PathAddQuote path singleQuote) other = PathAddQuote path singleQuote"
proof -
  have "PathIsSurroundQuote (PathAddQuote path singleQuote)"
    by (simp add: PathAddQuote_def quoted_surround)
  then show ?thesis
    by (auto simp: PathAddQuote_def PathRemoveQuote_def quoted_surround substr_inner)
qed

text \<open>The string in a buffer.\<close>

definition text_of :: "wchar list \<Rightarrow> wchar list" where
  "text_of buf = takeWhile (\<lambda>c. c \<noteq> 0) buf"

lemma buffer_split:
  assumes "0 \<in> set buf"
  obtains r where "buf = text_of buf @ 0 # r" "0 \<notin> set (text_of buf)"
proof -
  have "dropWhile (\<lambda>c. c \<noteq> 0) buf \<noteq> []" using assms by auto
  then obtain z r where d: "dropWhile (\<lambda>c. c \<noteq> 0) buf = z # r" by (cases "dropWhile (\<lambda>c. c \<noteq> 0) buf") auto
  then have "z = 0" by (metis (mono_tags) dropWhile_eq_Cons_conv)
  then have "buf = text_of buf @ 0 # r" using d takeWhile_dropWhile_id [of "\<lambda>c. c \<noteq> 0" buf] by (simp add: text_of_def)
  moreover have "0 \<notin> set (text_of buf)" by (auto simp: text_of_def dest: set_takeWhileD)
  ultimately show ?thesis by (rule that)
qed

lemma text_of_append: "0 \<notin> set t \<Longrightarrow> text_of (t @ 0 # r) = t"
  by (simp add: text_of_def takeWhile_append)

lemma wcslen_text: "wcslen buf = length (text_of buf)"
  by (simp add: wcslen_def text_of_def)

lemma surround_ptr: "0 \<in> set buf \<Longrightarrow> PathIsSurroundQuote_ptr (Some buf) = PathIsSurroundQuote (text_of buf)"
proof -
  assume "0 \<in> set buf"
  then obtain r where b: "buf = text_of buf @ 0 # r" by (rule buffer_split)
  have i: "buf ! i = text_of buf ! i" if "i < length (text_of buf)" for i
    using that by (subst b) (simp add: nth_append)
  show ?thesis
  proof (cases "length (text_of buf) < 2")
    case False
    then have "buf ! 0 = text_of buf ! 0" by (intro i) auto
    moreover have "buf ! (length (text_of buf) - 1) = text_of buf ! (length (text_of buf) - 1)"
      using False by (intro i) simp
    ultimately show ?thesis by (simp add: PathIsSurroundQuote_ptr_def PathIsSurroundQuote_def wcslen_text)
  qed (simp add: PathIsSurroundQuote_ptr_def PathIsSurroundQuote_def wcslen_text)
qed

lemma wcscpy_text:
  assumes "0 \<notin> set t" "i + length t < length dest"
  shows "wcscpy dest i (t @ 0 # r) = Some (take i dest @ t @ 0 # drop (i + length t + 1) dest)"
  using assms by (simp add: wcscpy_def wcslen_text text_of_append memcpy_def)

text \<open>Adding quotes in a buffer that has the room it says agrees with adding them to the string; otherwise the buffer stays,
  and no store is outside of it.\<close>

theorem PathAddQuote_buffer:
  assumes "0 \<in> set buf" "buffSize \<le> length buf"
  shows "\<exists>buf'. PathAddQuote_ptr buf buffSize single =
      Some (PathIsSurroundQuote (text_of buf) \<or> length (text_of buf) + 2 < buffSize, buf') \<and>
    length buf' = length buf \<and>
    text_of buf' = (if length (text_of buf) + 2 < buffSize then PathAddQuote (text_of buf) single else text_of buf)"
proof (cases "PathIsSurroundQuote (text_of buf) \<or> buffSize \<le> length (text_of buf) + 2")
  case True
  then show ?thesis
    using assms(1) by (auto simp: PathAddQuote_ptr_def surround_ptr wcslen_text PathAddQuote_def)
next
  case False
  define t where "t = text_of buf"
  obtain r where b: "buf = t @ 0 # r" and t: "0 \<notin> set t"
    using buffer_split [OF assms(1)] unfolding t_def by blast
  define q :: "wchar" where "q = (if single then 39 else 34)"
  have l: "length t + 2 < length buf" using False assms(2) t_def by simp
  then obtain y z r' where r: "r = y # z # r'" using b by (cases r; cases "tl r") auto
  have 1: "wcscpy (replicate (length t + 1) 0) 0 buf = Some (t @ [0])"
    unfolding b by (subst wcscpy_text [OF t]) simp_all
  have p: "put buf 0 q = Some (q # tl buf)" using l by (cases buf) (auto simp: put_def)
  have 2: "wcscpy (q # tl buf) 1 (t @ [0]) = Some (q # t @ 0 # drop (length t + 2) buf)"
    using l by (subst wcscpy_text [OF t]) (cases buf; auto)+
  have d: "drop (Suc (Suc (length t))) buf = z # r'" by (simp add: b r)
  have 3: "put (q # t @ 0 # z # r') (length t + 1) q = Some (q # t @ q # z # r')"
    by (simp add: put_def list_update_append)
  have 4: "put (q # t @ q # z # r') (length t + 2) 0 = Some (q # t @ q # 0 # r')"
    by (simp add: put_def list_update_append)
  have "PathAddQuote_ptr buf buffSize single = Some (True, q # t @ q # 0 # r')"
    using False assms(1) 1 p 2 3 4
    by (simp add: PathAddQuote_ptr_def surround_ptr wcslen_text t_def [symmetric] q_def [symmetric] d list_update_append Let_def)
  moreover have "text_of (q # t @ q # 0 # r') = q # t @ [q]"
    using text_of_append [of "q # t @ [q]" r'] t by (simp add: q_def)
  moreover have "length (q # t @ q # 0 # r') = length buf" by (simp add: b r)
  ultimately show ?thesis using False by (auto simp: t_def [symmetric] PathAddQuote_def q_def)
qed

lemma PathAddQuote_buffer_witness:
  "\<exists>buf'. PathAddQuote_ptr [97, 98, 0, 7, 7] 5 False = Some (True, buf') \<and> text_of buf' = [34, 97, 98, 34]"
  using PathAddQuote_buffer [of "[97, 98, 0, 7, 7]" 5 False]
  by (auto simp: text_of_def PathIsSurroundQuote_def PathAddQuote_def)

text \<open>Removing quotes in a buffer copies a string over itself, which is undefined, whenever there is
  something between the quotes.\<close>

theorem PathRemoveQuote_buffer:
  assumes "0 \<in> set buf"
  shows "PathRemoveQuote_ptr buf = None \<longleftrightarrow> PathIsSurroundQuote (text_of buf) \<and> 2 < length (text_of buf)"
proof -
  obtain r where b: "buf = text_of buf @ 0 # r" and t: "0 \<notin> set (text_of buf)" by (rule buffer_split [OF assms])
  show ?thesis
  proof (cases "PathIsSurroundQuote (text_of buf)")
    case True
    then have "2 \<le> length (text_of buf)" by (auto simp: PathIsSurroundQuote_def Let_def split: if_splits)
    then obtain p m q where s: "text_of buf = p # m @ [q]"
      by (cases "text_of buf"; cases "tl (text_of buf)" rule: rev_cases) auto
    have u: "buf[wcslen buf - Suc 0 := 0] = p # m @ 0 # 0 # r"
      unfolding wcslen_text by (subst b) (simp add: s list_update_append)
    have m: "wcslen (m @ 0 # 0 # r) = length m" using t s by (simp add: wcslen_text text_of_append)
    then show ?thesis
      using True assms s t
      by (auto simp: PathRemoveQuote_ptr_def surround_ptr u wcscpy_within_def wcscpy_def Let_def)
  qed (use assms in \<open>simp add: PathRemoveQuote_ptr_def surround_ptr\<close>)
qed

lemma PathRemoveQuote_buffer_witness: "PathRemoveQuote_ptr [34, 97, 34, 0] = None"
  using PathRemoveQuote_buffer [of "[34, 97, 34, 0]"] by (simp add: text_of_def PathIsSurroundQuote_def)

section \<open>Directories and file names\<close>

abbreviation is_sep :: "wchar \<Rightarrow> bool" where
  "is_sep c \<equiv> c = 92 \<or> c = 47"

text \<open>A name of a file or directory, and the text of a path: a drive, that may be empty, and names that end in a separator.\<close>

definition no_sep :: "wchar list \<Rightarrow> bool" where
  "no_sep s \<longleftrightarrow> (\<forall>c \<in> set s. \<not> is_sep c)"

definition is_name :: "wchar list \<Rightarrow> bool" where
  "is_name s \<longleftrightarrow> s \<noteq> [] \<and> no_sep s"

definition path_text :: "wchar \<Rightarrow> wchar list \<Rightarrow> wchar list list \<Rightarrow> wchar list" where
  "path_text sep drive names = drive @ sep # concat (map (\<lambda>n. n @ [sep]) names)"

lemma find_rev_upt: "List.find P (rev [0..<n]) = Some k \<longleftrightarrow> k < n \<and> P k \<and> (\<forall>j<n. k < j \<longrightarrow> \<not> P j)"
  by (induction n) (auto simp: less_Suc_eq)

lemma last_sep:
  assumes "is_sep c" "no_sep b" "length a < n" "n \<le> length a + 1 + length b"
  shows "List.find (\<lambda>i. (a @ c # b @ r) ! i \<in> set separators) (rev [0..<n]) = Some (length a)"
  unfolding find_rev_upt
  using assms by (auto simp: separators_def no_sep_def nth_append nth_Cons split: nat.split)

lemma no_last_sep: "no_sep b \<Longrightarrow> n \<le> length b \<Longrightarrow> List.find (\<lambda>i. (b @ r) ! i \<in> set separators) (rev [0..<n]) = None"
  by (auto simp: find_None_iff separators_def no_sep_def nth_append)

lemma last_neq_sep: "is_name f \<Longrightarrow> \<not> is_sep ((d @ f) ! (length (d @ f) - 1))"
  by (cases f rule: rev_cases) (auto simp: is_name_def no_sep_def nth_append)

lemma dir_up_name:
  assumes "is_name f" "is_sep c"
  shows "dir_up (d @ c # f) = d @ [c]"
proof -
  have "\<not> is_sep ((d @ c # f) ! (length (d @ c # f) - 1))" using last_neq_sep [OF assms(1), of "d @ [c]"] by simp
  moreover have "find_last_of (d @ c # f) separators None = Some (length d)"
    using last_sep [OF assms(2), of f d "length d + 1 + length f" "[]"] assms(1)
    by (simp add: find_last_of_def is_name_def)
  ultimately show ?thesis by (auto simp: dir_up_def Let_def substr_def)
qed

lemma dir_up_dir:
  assumes "is_name f" "is_sep c" "is_sep c'"
  shows "dir_up (d @ c # f @ [c']) = d @ [c]"
proof -
  have "find_last_of (d @ c # f @ [c']) separators (Some (length (d @ c # f @ [c']) - 2)) = Some (length d)"
    using last_sep [OF assms(2), of f d "length d + 1 + length f" "[c']"] assms(1)
    by (simp add: find_last_of_def is_name_def)
  then show ?thesis using assms by (auto simp: dir_up_def Let_def substr_def nth_append is_name_def)
qed

lemma dir_up_top:
  assumes "no_sep d" "is_sep c"
  shows "dir_up (d @ [c]) = d @ [c]"
proof (cases "d = []")
  case True
  have "find_last_of [c] separators None = Some 0"
    using last_sep [OF assms(2), of "[]" "[]" 1 "[]"] by (simp add: find_last_of_def no_sep_def)
  then show ?thesis using True assms(2) by (auto simp: dir_up_def substr_def)
next
  case False
  then have "find_last_of (d @ [c]) separators (Some (length d - 1)) = None"
    using no_last_sep [OF assms(1), of "length d" "[c]"] by (cases d) (simp_all add: find_last_of_def)
  then show ?thesis using False assms(2) by (cases d) (auto simp: dir_up_def)
qed

lemma path_text_snoc: "path_text sep drive (names @ [n]) = path_text sep drive names @ n @ [sep]"
  by (simp add: path_text_def)

lemma path_text_sep: "\<exists>d. path_text sep drive names = d @ [sep]"
  by (cases names rule: rev_cases) (auto simp: path_text_def)

lemma dir_loop_text:
  assumes "no_sep drive" "is_sep sep" "list_all is_name names"
  shows "dir_loop n (path_text sep drive names) = path_text sep drive (take (length names - n) names)"
  using assms(3)
proof (induction n arbitrary: names)
  case (Suc n)
  have e: "path_text sep drive ns \<noteq> []" for ns by (simp add: path_text_def)
  show ?case
  proof (cases names rule: rev_cases)
    case Nil
    have "dir_up (path_text sep drive []) = path_text sep drive []"
      using dir_up_top [OF assms(1,2)] by (simp add: path_text_def)
    then show ?thesis using Nil Suc.IH [of "[]"] e by simp
  next
    case (snoc ns x)
    obtain d where d: "path_text sep drive ns = d @ [sep]" using path_text_sep by blast
    have "dir_up (path_text sep drive names) = path_text sep drive ns"
      using dir_up_dir [OF _ assms(2,2), of x d] Suc.prems snoc by (simp add: path_text_snoc d)
    then show ?thesis using snoc e Suc by simp
  qed
qed simp

text \<open>Going up from a directory or from a file in it gives the directories above it in turn, and stays
  at the root of the drive.\<close>

theorem PathGetDirectory_up:
  assumes "no_sep drive" "is_sep sep" "list_all is_name names" "f = [] \<or> is_name f"
  shows "PathGetDirectory (path_text sep drive names @ f) (int (if f = [] then k else Suc k)) =
      path_text sep drive (take (length names - k) names) \<and>
    PathGetFileName (path_text sep drive names @ f) = f"
proof -
  obtain d where d: "path_text sep drive names = d @ [sep]" using path_text_sep by blast
  have "PathGetDirectory (path_text sep drive names @ f) (int (if f = [] then k else Suc k)) =
      dir_loop k (path_text sep drive names)"
    using assms(2,4) dir_up_name [of f sep d] by (auto simp: PathGetDirectory_def d nat_add_distrib)
  moreover have "find_last_of (d @ sep # f) separators None = Some (length d)"
    using last_sep [OF assms(2), of f d "length d + 1 + length f" "[]"] assms(4)
    by (auto simp: find_last_of_def is_name_def no_sep_def)
  ultimately show ?thesis using dir_loop_text [OF assms(1-3)] by (simp add: PathGetFileName_def d)
qed

lemma PathGetDirectory_up_witness:
  "PathGetDirectory [67, 58, 92, 97, 92, 98] 5 = [67, 58, 92]"
  using PathGetDirectory_up [where drive = "[67, 58]" and sep = 92 and names = "[[97]]" and f = "[98]" and k = 4]
  by (simp add: path_text_def no_sep_def is_name_def)

text \<open>Joining a directory and a name gives a path in that directory with that name, whatever separators are
  there already.\<close>

theorem PathJoin_parts:
  assumes "is_name f" "d \<noteq> []" "start = [] \<or> (\<exists>c. start = [c] \<and> is_sep c)"
  shows "PathGetFileName (PathJoin win d (start @ f)) = f \<and>
    PathGetDirectory (PathJoin win d (start @ f)) 1 = PathAddSlach win d"
proof -
  have "\<exists>d' c. PathAddSlach win d = d' @ [c] \<and> is_sep c"
  proof (cases d rule: rev_cases)
    case (snoc ys y)
    then show ?thesis by (cases "is_sep y"; cases win) (auto simp: PathAddSlach_def slash_def)
  qed (use assms(2) in simp)
  then obtain d' c where d: "PathAddSlach win d = d' @ [c]" "is_sep c" by blast
  have f: "f ! 0 \<noteq> 92" "f ! 0 \<noteq> 47" "f \<noteq> []" using assms(1) by (auto simp: is_name_def no_sep_def) 
  then have "PathJoin win d (start @ f) = PathAddSlach win d @ f"
    using assms(2,3) by (auto simp: PathJoin_def PathAddSlach_def Let_def)
  moreover have "find_last_of (d' @ c # f) separators None = Some (length d')"
    using last_sep [OF d(2), of f d' "length d' + 1 + length f" "[]"] assms(1)
    by (simp add: find_last_of_def is_name_def)
  ultimately show ?thesis
    using dir_up_name [OF assms(1) d(2), of d'] by (simp add: PathGetFileName_def PathGetDirectory_def d(1))
qed

lemma PathJoin_parts_witness: "PathGetFileName (PathJoin False [97] [47, 98]) = [98]"
  using PathJoin_parts [where f = "[98]" and d = "[97]" and start = "[47]" and win = False]
  by (simp add: is_name_def no_sep_def)

text \<open>A name without a directory is given as its own directory.\<close>

lemma PathGetDirectory_name: "is_name f \<Longrightarrow> PathGetDirectory f k = f"
proof -
  assume f: "is_name f"
  then have "find_last_of f separators None = None"
    using no_last_sep [of f "length f" "[]"] by (simp add: find_last_of_def is_name_def)
  then have "dir_up f = f" using last_neq_sep [OF f, of "[]"] by (auto simp: dir_up_def)
  then have "dir_loop n f = f" for n by (induction n) auto
  then show ?thesis by (simp add: PathGetDirectory_def)
qed

end
