(* ===== verification/Make_Path.thy ===== *)
theory Make_Path
  imports Path_Laws
begin

text \<open>
  \<open>MakePath\<close> on a tree of files and directories: the locale \<open>file_tree\<close> states what \<^verbatim>\<open>stat\<close> and \<^verbatim>\<open>mkdir\<close> are
  documented to do on the names of a path, without links and permissions. The function succeeds unless a file is in
  the way, and then exactly the missing directories are there.
\<close>

section \<open>The names in a path\<close>

function names_of :: "str \<Rightarrow> str list" where
  "names_of p =
     (let p = dropWhile (\<lambda>c. c = 47) p
      in if p = [] then [] else takeWhile (\<lambda>c. c \<noteq> 47) p # names_of (dropWhile (\<lambda>c. c \<noteq> 47) p))"
  by pat_completeness auto
termination
proof (relation "measure length", simp, goal_cases)
  case (1 p x)
  then obtain c r where d: "dropWhile (\<lambda>c. c = 47) p = c # r" by (cases "dropWhile (\<lambda>c. c = 47) p") auto
  then have "c \<noteq> 47" by (metis (mono_tags) dropWhile_eq_Cons_conv)
  then have "length (dropWhile (\<lambda>c. c \<noteq> 47) (c # r)) \<le> length r" by (simp add: length_dropWhile_le)
  moreover have "Suc (length r) \<le> length p" using d length_dropWhile_le [of "\<lambda>c. c = 47" p] by simp
  ultimately show ?case using 1 d by simp
qed

declare names_of.simps [simp del]

lemma names_of_slash [simp]: "names_of (47 # p) = names_of p"
  by (subst (1 2) names_of.simps) simp

lemma names_of_Nil [simp]: "names_of [] = []"
  by (subst names_of.simps) simp

lemma names_of_name: "n \<noteq> [] \<Longrightarrow> 47 \<notin> set n \<Longrightarrow> r = [] \<or> hd r = 47 \<Longrightarrow> names_of (n @ r) = n # names_of r"
proof -
  assume n: "n \<noteq> []" "47 \<notin> set n" and "r = [] \<or> hd r = 47"
  then have r: "takeWhile (\<lambda>c. c \<noteq> 47) r = []" "dropWhile (\<lambda>c. c \<noteq> 47) r = r" by (cases r; simp)+
  have "dropWhile (\<lambda>c. c = 47) (n @ r) = n @ r" using n by (cases n) auto
  moreover have "\<forall>c \<in> set n. c \<noteq> 47" using n(2) by auto
  ultimately show ?thesis using n r by (subst names_of.simps) (simp add: takeWhile_append dropWhile_append)
qed

lemma names_of_slashes: "\<forall>c \<in> set x. c = 47 \<Longrightarrow> names_of (x @ p) = names_of p"
  by (induction x) auto

text \<open>A text is separators, a name, and a rest that starts with a separator.\<close>

lemma text_parts:
  fixes p :: str
  obtains x n r where "p = x @ n @ r" "\<forall>c \<in> set x. c = 47" "47 \<notin> set n" "r = [] \<or> hd r = 47" "n = [] \<longrightarrow> r = []"
    "x = takeWhile (\<lambda>c. c = 47) p" "n = takeWhile (\<lambda>c. c \<noteq> 47) (drop (length x) p)"
proof -
  let ?x = "takeWhile (\<lambda>c. c = 47) p" and ?q = "dropWhile (\<lambda>c. c = 47) p"
  let ?n = "takeWhile (\<lambda>c. c \<noteq> 47) ?q" and ?r = "dropWhile (\<lambda>c. c \<noteq> 47) ?q"
  have q: "drop (length ?x) p = ?q" by (simp add: dropWhile_eq_drop)
  have "?r = [] \<or> hd ?r = 47" using hd_dropWhile [of "\<lambda>c. c \<noteq> 47" ?q] by blast
  moreover have "?n = [] \<longrightarrow> ?r = []"
  proof (cases ?q)
    case (Cons c r)
    then have "c \<noteq> 47" by (metis (mono_tags) dropWhile_eq_Cons_conv)
    then show ?thesis using Cons by simp
  next
    case Nil
    then show ?thesis by (simp only: dropWhile.simps simp_thms)
  qed
  moreover have "\<forall>c \<in> set ?x. c = 47" "47 \<notin> set ?n" by (metis (mono_tags) set_takeWhileD)+
  moreover have "p = ?x @ ?n @ ?r" by simp
  ultimately show ?thesis by (intro that [of ?x ?n ?r, OF _ _ _ _ _ refl]) (assumption | simp only: q)+
qed

lemma names_of_append:
  "b = [] \<or> hd b = 47 \<or> a = [] \<Longrightarrow> names_of (a @ b) = names_of a @ names_of b"
proof (induction a rule: length_induct)
  case (1 a)
  obtain x n r where a: "a = x @ n @ r" and p: "\<forall>c \<in> set x. c = 47" "47 \<notin> set n" "r = [] \<or> hd r = 47" "n = [] \<longrightarrow> r = []"
    by (rule text_parts [of a]) blast
  show ?case
  proof (cases "n = []")
    case True
    then show ?thesis using a p names_of_slashes [OF p(1), of "[]"] by (simp add: names_of_slashes)
  next
    case False
    have "names_of (r @ b) = names_of r @ names_of b"
      using 1 a False by (cases "r = []") auto
    moreover have "r @ b = [] \<or> hd (r @ b) = 47" using p(3) 1(2) a False by (auto simp: hd_append)
    ultimately show ?thesis
      using a False p names_of_name [of n r] names_of_name [of n "r @ b"] by (simp add: names_of_slashes)
  qed
qed

text \<open>One turn of the loop goes on by one name, or to the end.\<close>

lemma skip_component_names:
  fixes path :: str
  assumes "i \<le> length path" "i = 0 \<or> i = length path \<or> path ! i = 47"
  defines "i' \<equiv> skip_component 47 path i"
  shows "i' \<le> length path" "i' = length path \<or> path ! i' = 47"
    "names_of (take i' path) = names_of (take i path) \<and> i' = length path \<or>
     (\<exists>n. names_of (take i' path) = names_of (take i path) @ [n] \<and> i < i')"
proof -
  let ?b = "drop i path"
  obtain x n r where b: "?b = x @ n @ r" and p: "\<forall>c \<in> set x. c = 47" "47 \<notin> set n" "r = [] \<or> hd r = 47" "n = [] \<longrightarrow> r = []"
    and e: "x = takeWhile (\<lambda>c. c = 47) ?b" "n = takeWhile (\<lambda>c. c \<noteq> 47) (drop (length x) ?b)"
    by (rule text_parts)
  have i': "i' = i + length x + length n"
    using e by (simp add: i'_def skip_component_def Let_def add.commute)
  have path: "path = take i path @ x @ n @ r" using b by (metis append_take_drop_id)
  have l: "length path = i + length x + length n + length r"
    using arg_cong [OF b, of length] assms(1) by simp
  show "i' \<le> length path" using l i' by simp
  have "drop i' path = drop (length x + length n) ?b" by (simp add: i' add.commute add.left_commute)
  then have "drop i' path = r" by (simp add: b)
  then show "i' = length path \<or> path ! i' = 47"
    using p(3) l i' by (cases r) (auto simp: hd_drop_conv_nth [symmetric])
  have t: "take i' path = take i path @ x @ n"
    using arg_cong [OF path, of "take i'"] assms(1) by (simp add: i')
  have h: "x @ n = [] \<or> hd (x @ n) = 47 \<or> take i path = []"
    using assms(2) b l by (cases x; cases n) (auto simp: hd_drop_conv_nth [symmetric])
  have "names_of (take i' path) = names_of (take i path) @ names_of (x @ n)"
    unfolding t by (rule names_of_append [OF h])
  moreover have "names_of (x @ n) = (if n = [] then [] else [n])"
    using p names_of_name [of n "[]"] names_of_slashes [of x] by auto
  ultimately show "names_of (take i' path) = names_of (take i path) \<and> i' = length path \<or>
     (\<exists>n. names_of (take i' path) = names_of (take i path) @ [n] \<and> i < i')"
    using p(4) l i' by auto
qed

section \<open>Trees\<close>

definition no_file :: "(str list \<Rightarrow> bool option) \<Rightarrow> str list \<Rightarrow> bool" where
  "no_file t names \<longleftrightarrow> list_all (\<lambda>k. t (take k names) \<noteq> Some False) [0..<Suc (length names)]"

text \<open>All the directories on the way.\<close>

definition put_dirs :: "str list \<Rightarrow> (str list \<Rightarrow> bool option) \<Rightarrow> str list \<Rightarrow> bool option" where
  "put_dirs names t q = (if prefix q names then Some True else t q)"

lemma no_file_prefixes: "no_file t ns \<longleftrightarrow> (\<forall>q. prefix q ns \<longrightarrow> t q \<noteq> Some False)"
proof -
  have "(\<forall>q. prefix q ns \<longrightarrow> t q \<noteq> Some False) \<longleftrightarrow> (\<forall>k \<le> length ns. t (take k ns) \<noteq> Some False)"
    using take_is_prefix by (metis append_eq_conv_conj prefix_def prefix_length_le)
  then show ?thesis by (auto simp: no_file_def list_all_iff less_Suc_eq_le simp del: upt_Suc)
qed

lemma no_file_dirs: "\<forall>q. prefix q ns \<longrightarrow> t q = Some True \<Longrightarrow> no_file t ns"
  by (simp add: no_file_prefixes)

lemma no_file_snoc: "no_file t (ns @ [n]) \<longleftrightarrow> no_file t ns \<and> t (ns @ [n]) \<noteq> Some False"
  by (auto simp: no_file_prefixes)

lemma no_file_prefix: "no_file t (ns @ ms) \<Longrightarrow> no_file t ns"
  by (simp add: no_file_prefixes prefix_prefix)

lemma no_file_put: "t q \<noteq> Some False \<Longrightarrow> no_file (t(q \<mapsto> True)) ns = no_file t ns"
  by (auto simp: no_file_prefixes)

lemma put_dirs_same: "\<forall>q. prefix q ns \<longrightarrow> t q = Some True \<Longrightarrow> put_dirs ns t = t"
  by (auto simp: put_dirs_def)

lemma put_dirs_put: "put_dirs (ns @ ms) (t(ns \<mapsto> True)) = put_dirs (ns @ ms) t"
  by (auto simp: put_dirs_def)

text \<open>Whatever is there is in a directory.\<close>

definition closed :: "(str list \<Rightarrow> bool option) \<Rightarrow> bool" where
  "closed t \<longleftrightarrow> (\<forall>ns n. t (ns @ [n]) \<noteq> None \<longrightarrow> t ns = Some True)"

lemma closed_prefix: "closed t \<Longrightarrow> t q \<noteq> None \<Longrightarrow> strict_prefix r q \<Longrightarrow> t r = Some True"
proof (induction q rule: rev_induct)
  case (snoc n q)
  then have q: "t q = Some True" unfolding closed_def by blast
  moreover have "r = q \<or> strict_prefix r q" using snoc.prems(3) by (auto simp: strict_prefix_def)
  ultimately show ?case using snoc by auto
qed simp

lemma closed_put: "closed t \<Longrightarrow> t ns = Some True \<Longrightarrow> closed (t(ns @ [n] \<mapsto> True))"
  by (auto simp: closed_def)

text \<open>The tree gives for names whether they are a directory or a file. \<^verbatim>\<open>stat\<close> fails with \<^verbatim>\<open>ENOENT\<close> when
  nothing is there and no file is on the way; \<^verbatim>\<open>mkdir\<close> succeeds when nothing is there and the parent is a
  directory.\<close>

locale file_tree =
  fixes tree :: "'s \<Rightarrow> str list \<Rightarrow> bool option"
    and stat :: "str \<Rightarrow> 's \<Rightarrow> stat_result"
    and mkdir :: "str \<Rightarrow> 's \<Rightarrow> bool \<times> 's"
  assumes stat_there: "p \<noteq> [] \<Longrightarrow> tree s (names_of p) = Some d \<Longrightarrow> stat p s = Is_dir d"
    and stat_missing: "p \<noteq> [] \<Longrightarrow> tree s (names_of p) = None \<Longrightarrow> no_file (tree s) (names_of p) \<Longrightarrow> stat p s = Stat_error True"
    and mkdir_made: "p \<noteq> [] \<Longrightarrow> names_of p = ns @ [n] \<Longrightarrow> tree s (names_of p) = None \<Longrightarrow> tree s ns = Some True \<Longrightarrow>
      fst (mkdir p s) \<and> tree (snd (mkdir p s)) = (tree s)(names_of p \<mapsto> True)"
begin

lemma make_loop_tree:
  assumes "path \<noteq> []" "i \<le> length path" "i = 0 \<or> i = length path \<or> path ! i = 47"
    and "\<forall>q. prefix q (names_of (take i path)) \<longrightarrow> tree s q = Some True" "i < length path \<or> i = 0"
    "closed (tree s)"
  shows "fst (make_loop stat mkdir path i s) = no_file (tree s) (names_of path) \<and>
    tree (snd (make_loop stat mkdir path i s)) =
      (if no_file (tree s) (names_of path) then put_dirs (names_of path) (tree s) else tree s)"
  using assms(2-6)
proof (induction "length path - i" arbitrary: i s rule: less_induct)
  case (less i s)
  let ?cs = "names_of (take i path)" and ?j = "skip_component 47 path i"
  note step = skip_component_names [OF less.prems(1,2)]
  have j: "?j \<noteq> 0" using skip_component_progress [of 47 path i] assms(1) by (cases "?j < length path"; cases path) auto
  then have ne: "take ?j path \<noteq> []" using assms(1) by simp
  note unf = make_loop.simps [of stat mkdir path i s]
  have all: "take (length path) path = path" by simp
  show ?case
  proof (cases "names_of (take ?j path) = ?cs")
    case True
    then have e: "?j = length path" using step(3) by auto
    then have p: "names_of path = ?cs" using True by simp
    have "stat path s = Is_dir True" using stat_there [OF assms(1)] less.prems(3) p by simp
    then have "make_loop stat mkdir path i s = (True, s)" by (simp add: unf e Let_def)
    moreover have "no_file (tree s) ?cs" using less.prems(3) by (simp add: no_file_dirs)
    moreover have "put_dirs ?cs (tree s) = tree s" using less.prems(3) by (simp add: put_dirs_same)
    ultimately show ?thesis by (simp add: p)
  next
    case False
    then obtain n where n: "names_of (take ?j path) = ?cs @ [n]" "i < ?j" using step(3) by auto
    have "drop ?j path = [] \<or> hd (drop ?j path) = 47"
      using step(1,2) by (cases "?j = length path") (simp_all add: hd_drop_conv_nth)
    then have m: "names_of path = (?cs @ [n]) @ names_of (drop ?j path)"
      using names_of_append [of "drop ?j path" "take ?j path"] n(1) by auto
    have rest: ?thesis if "make_loop stat mkdir path i s = (if length path \<le> ?j then (True, s') else make_loop stat mkdir path ?j s')"
      "tree s (?cs @ [n]) \<noteq> Some False" and s': "tree s' = (tree s)(?cs @ [n] \<mapsto> True)" for s'
    proof -
      have d: "\<forall>q. prefix q (?cs @ [n]) \<longrightarrow> tree s' q = Some True" using less.prems(3) s' by simp
      have f: "no_file (tree s') ns = no_file (tree s) ns" for ns using that(2) s' by (simp add: no_file_put)
      have same: "tree s' = tree s" if nf: "\<not> no_file (tree s) (names_of path)"
      proof -
        obtain q where q: "prefix q (names_of path)" "tree s q = Some False" using nf by (auto simp: no_file_prefixes)
        have "\<not> prefix q (?cs @ [n])" using f [of "?cs @ [n]"] no_file_dirs [OF d] q(2) by (auto simp: no_file_prefixes)
        then have "strict_prefix (?cs @ [n]) q"
          using q(1) prefix_same_cases [of q "names_of path" "?cs @ [n]"] unfolding m by (auto simp: strict_prefix_def)
        then have "tree s (?cs @ [n]) = Some True" using closed_prefix [OF less.prems(5)] q(2) by blast
        then show ?thesis using s' by auto
      qed
      show ?thesis
      proof (cases "length path \<le> ?j")
        case True
        have "no_file (tree s) (?cs @ [n])" using f no_file_dirs [OF d] by blast
        moreover have "put_dirs (?cs @ [n]) (tree s) = tree s'"
          using put_dirs_same [OF d] put_dirs_put [of "?cs @ [n]" "[]" "tree s"] unfolding s' append_Nil2 by metis
        ultimately show ?thesis using True that(1) by (simp add: m)
      next
        case False
        have "tree s ?cs = Some True" using less.prems(3) by simp
        then have "closed (tree s')" using s' less.prems(5) by (simp add: closed_put)
        then have "fst (make_loop stat mkdir path ?j s') = no_file (tree s') (names_of path) \<and>
            tree (snd (make_loop stat mkdir path ?j s')) =
              (if no_file (tree s') (names_of path) then put_dirs (names_of path) (tree s') else tree s')"
          using False d step(1,2) n by (intro less.hyps) auto
        moreover have "put_dirs (names_of path) (tree s') = put_dirs (names_of path) (tree s)"
          unfolding m s' by (rule put_dirs_put)
        ultimately show ?thesis using False that(1) same by (simp add: f)
      qed
    qed
    show ?thesis
    proof (cases "tree s (?cs @ [n])")
      case None
      obtain b s' where mk: "mkdir (take ?j path) s = (b, s')" by fastforce
      have "no_file (tree s) (?cs @ [n])" using None less.prems(3) by (simp add: no_file_snoc no_file_dirs)
      then have "stat (take ?j path) s = Stat_error True" using stat_missing [OF ne] n None by simp
      moreover have "b \<and> tree s' = (tree s)(?cs @ [n] \<mapsto> True)"
        using mkdir_made [OF ne n(1), of s] None n(1) less.prems(3) mk by simp
      ultimately show ?thesis
        using None mk by (intro rest [of s']) (simp_all add: unf Let_def)
    next
      case (Some d)
      then have st: "stat (take ?j path) s = Is_dir d" using stat_there [OF ne] n by simp
      show ?thesis
      proof (cases d)
        case True
        then show ?thesis using st Some by (intro rest [of s]) (auto simp: unf Let_def)
      next
        case False
        then have "make_loop stat mkdir path i s = (False, s)" using st by (simp add: unf Let_def)
        moreover have "\<not> no_file (tree s) (names_of path)"
          using Some False m no_file_prefix [of "tree s" "?cs @ [n]" "names_of (drop ?j path)"] by (auto simp: no_file_snoc)
        ultimately show ?thesis by simp
      qed
    qed
  qed
qed

end

text \<open>A tree as a map, and the calls on it.\<close>

definition tree_stat :: "str \<Rightarrow> (str list \<Rightarrow> bool option) \<Rightarrow> stat_result" where
  "tree_stat p t =
     (case t (names_of p) of
        Some d \<Rightarrow> if p = [] then Stat_error True else Is_dir d
      | None \<Rightarrow> Stat_error (no_file t (names_of p)))"

definition tree_mkdir :: "str \<Rightarrow> (str list \<Rightarrow> bool option) \<Rightarrow> bool \<times> (str list \<Rightarrow> bool option)" where
  "tree_mkdir p t =
     (if p \<noteq> [] \<and> names_of p \<noteq> [] \<and> t (names_of p) = None \<and> t (butlast (names_of p)) = Some True
      then (True, t(names_of p \<mapsto> True)) else (False, t))"

interpretation posix: file_tree "\<lambda>t. t" tree_stat tree_mkdir
  by unfold_locales (auto simp: tree_stat_def tree_mkdir_def)

text \<open>Property C31: in a tree where all that is there is in directories, \<open>MakePath\<close> succeeds exactly if no file is in the
  way of a path that is not empty, and then the directories of the path are there; nothing else changes, and nothing at all
  when it fails.\<close>

theorem MakePath_tree:
  fixes w2u :: "wchar list \<Rightarrow> str" and path :: "wchar list" and t :: "str list \<Rightarrow> bool option"
  assumes "t [] = Some True" "closed t"
  defines "p \<equiv> takeWhile (\<lambda>c. c \<noteq> 0) (w2u path)"
  shows "MakePath w2u tree_stat tree_mkdir path t =
    (if p \<noteq> [] \<and> no_file t (names_of p) then (True, put_dirs (names_of p) t) else (False, t))"
proof (cases "p = []")
  case True
  then show ?thesis
    using assms(1)
    by (simp add: MakePath_def p_def [symmetric] make_loop.simps [of _ _ "[]"] skip_component_def tree_stat_def tree_mkdir_def)
next
  case False
  have "\<forall>q. prefix q (names_of (take 0 p)) \<longrightarrow> t q = Some True" using assms(1) by simp
  then show ?thesis
    using posix.make_loop_tree [OF False, of 0 t] False assms(2)
    by (auto simp: MakePath_def p_def [symmetric] intro: prod_eqI)
qed

lemma MakePath_tree_witness:
  "MakePath (map ucast) tree_stat tree_mkdir [97, 47, 98 :: wchar] [[] \<mapsto> True, [[97]] \<mapsto> True] =
     (True, put_dirs [[97], [98]] [[] \<mapsto> True, [[97]] \<mapsto> True])"
proof -
  have "names_of [97, 47, 98] = [[97], [98]]"
    using names_of_name [of "[97]" "[47, 98]"] names_of_name [of "[98]" "[]"] by simp
  moreover have "closed [[] \<mapsto> True, [[97]] \<mapsto> True]" by (auto simp: closed_def)
  ultimately show ?thesis
    using MakePath_tree [of "[[] \<mapsto> True, [[97]] \<mapsto> True]" "map ucast" "[97, 47, 98 :: wchar]"]
    by (simp add: no_file_def)
qed

end
