(* ===== verification/Env_Var.thy ===== *)
theory Env_Var
  imports Str_Util
begin

text \<open>
  Model of \<^verbatim>\<open>src/src/win/env_variable.cpp\<close>: an environment variable in the registry, and the list of directories in
  the variable \<^verbatim>\<open>Path\<close>. The registry is a map from scopes and names to the stored characters, with the keys that
  can be opened, the number of handles that are open and of the broadcasts that were sent. Wide characters have 16
  bits. Assertions are compiled out.
\<close>

section \<open>The registry\<close>

type_synonym wide = "16 word list"

datatype EnvScope = es_invalid | es_system | es_user

record registry =
  reg_values :: "EnvScope \<Rightarrow> wide \<Rightarrow> wide option"
  can_read :: "EnvScope \<Rightarrow> bool"
  can_write :: "EnvScope \<Rightarrow> bool"
  handles :: nat
  broadcasts :: nat

text \<open>A result; \<open>Undefined\<close> is undefined behaviour, \<open>Loops\<close> a call that does not return.\<close>

datatype 'a call = Returns 'a | Undefined | Loops

definition RegOpenKey :: "(registry \<Rightarrow> EnvScope \<Rightarrow> bool) \<Rightarrow> EnvScope \<Rightarrow> registry \<Rightarrow> bool \<times> registry" where
  "RegOpenKey allowed scope reg =
     (if allowed reg scope then (True, reg\<lparr>handles := handles reg + 1\<rparr>) else (False, reg))"

text \<open>The code closes the predefined key and not the one that it has opened.\<close>

definition RegCloseKey_predefined :: "registry \<Rightarrow> registry" where
  "RegCloseKey_predefined reg = reg"

definition RegSetValue :: "bool \<Rightarrow> EnvScope \<Rightarrow> wide \<Rightarrow> wide \<Rightarrow> registry \<Rightarrow> registry" where
  "RegSetValue opened scope name data reg =
     (if opened then reg\<lparr>reg_values := (reg_values reg)(scope := (reg_values reg scope)(name \<mapsto> data))\<rparr> else reg)"

definition RegDeleteValue :: "bool \<Rightarrow> EnvScope \<Rightarrow> wide \<Rightarrow> registry \<Rightarrow> registry" where
  "RegDeleteValue opened scope name reg =
     (if opened then reg\<lparr>reg_values := (reg_values reg)(scope := (reg_values reg scope)(name := None))\<rparr> else reg)"

definition broadcastChange :: "registry \<Rightarrow> registry" where
  "broadcastChange reg = reg\<lparr>broadcasts := broadcasts reg + 1\<rparr>"

section \<open>The variable\<close>

record env_var =
  ev_name :: wide
  ev_scope :: EnvScope
  ev_value :: wide

text \<open>The value is read up to its zero. The buffer has one byte more than the data: without a zero in it the code reads
  behind the buffer.\<close>

definition EnvVar :: "EnvScope \<Rightarrow> wide \<Rightarrow> registry \<Rightarrow> (env_var \<times> registry) call" where
  "EnvVar scope name reg =
     (if scope = es_invalid then Returns (\<lparr>ev_name = name, ev_scope = es_invalid, ev_value = []\<rparr>, reg)
      else let (opened, reg) = RegOpenKey can_read scope reg
           in case (if opened then reg_values reg scope name else None) of
                None \<Rightarrow> Returns (\<lparr>ev_name = name, ev_scope = scope, ev_value = []\<rparr>, RegCloseKey_predefined reg)
              | Some data \<Rightarrow>
                  if 0 \<in> set data
                  then Returns (\<lparr>ev_name = name, ev_scope = scope, ev_value = takeWhile (\<lambda>c. c \<noteq> 0) data\<rparr>,
                    RegCloseKey_predefined reg)
                  else Undefined)"

definition copy_var :: "env_var \<Rightarrow> env_var \<Rightarrow> env_var" where
  "copy_var this other = this\<lparr>ev_name := ev_name other, ev_scope := ev_scope other, ev_value := ev_value other\<rparr>"

definition write_var :: "env_var \<Rightarrow> bool \<Rightarrow> registry \<Rightarrow> registry" where
  "write_var this opened reg =
     broadcastChange (RegCloseKey_predefined
       (RegSetValue opened (ev_scope this) (ev_name this) (ev_value this @ [0]) reg))"

definition set_var :: "wide \<Rightarrow> env_var \<Rightarrow> registry \<Rightarrow> env_var \<times> registry" where
  "set_var what this reg =
     (if ev_scope this = es_invalid then (this, reg)
      else let this = this\<lparr>ev_value := what\<rparr>; (opened, reg) = RegOpenKey can_write (ev_scope this) reg
           in (this, write_var this opened reg))"

definition paste :: "wide \<Rightarrow> env_var \<Rightarrow> registry \<Rightarrow> env_var \<times> registry" where
  "paste what this reg =
     (if ev_scope this = es_invalid then (this, reg)
      else let this = this\<lparr>ev_value := ev_value this @ what\<rparr>; (opened, reg) = RegOpenKey can_write (ev_scope this) reg
           in (this, write_var this opened reg))"

definition unset :: "env_var \<Rightarrow> registry \<Rightarrow> env_var \<times> registry" where
  "unset this reg =
     (if ev_scope this = es_invalid then (this, reg)
      else let this = this\<lparr>ev_value := []\<rparr>; (opened, reg) = RegOpenKey can_write (ev_scope this) reg
           in (this, broadcastChange (RegCloseKey_predefined (RegDeleteValue opened (ev_scope this) (ev_name this) reg))))"

partial_function (option) cut_loop :: "wide \<Rightarrow> wide \<Rightarrow> nat option \<Rightarrow> uint32 \<Rightarrow> (wide \<times> uint32) option" where
  "cut_loop what value pos count =
     (case pos of
        None \<Rightarrow> Some (value, count)
      | Some p \<Rightarrow>
          let value = str_replace_at value p (length what) []
          in cut_loop what value (str_find value what 0) (count + 1))"

declare cut_loop.simps [code]

text \<open>The handle is not initialised: when the key cannot be opened, it is used with any value.\<close>

definition cut :: "wide \<Rightarrow> env_var \<Rightarrow> registry \<Rightarrow> (uint32 \<times> env_var \<times> registry) call" where
  "cut what this reg =
     (if ev_scope this = es_invalid then Returns (0, this, reg)
      else case cut_loop what (ev_value this) (str_find (ev_value this) what 0) 0 of
             None \<Rightarrow> Loops
           | Some (value, count) \<Rightarrow>
               let this = this\<lparr>ev_value := value\<rparr>; (opened, reg) = RegOpenKey can_write (ev_scope this) reg
               in if opened then Returns (count, this, write_var this opened reg) else Undefined)"

section \<open>The helper functions\<close>

fun on_var :: "(env_var \<Rightarrow> registry \<Rightarrow> 'a call) \<Rightarrow> (env_var \<times> registry) call \<Rightarrow> 'a call" where
  "on_var f (Returns (var, reg)) = f var reg"
| "on_var f Undefined = Undefined"
| "on_var f Loops = Loops"

definition EnvCut :: "EnvScope \<Rightarrow> wide \<Rightarrow> wide \<Rightarrow> registry \<Rightarrow> (uint32 \<times> registry) call" where
  "EnvCut scope name value reg =
     on_var (\<lambda>var reg. case cut value var reg of
         Returns (n, var, reg) \<Rightarrow> Returns (n, reg) | Undefined \<Rightarrow> Undefined | Loops \<Rightarrow> Loops) (EnvVar scope name reg)"

definition EnvPaste :: "EnvScope \<Rightarrow> wide \<Rightarrow> wide \<Rightarrow> registry \<Rightarrow> registry call" where
  "EnvPaste scope name value reg = on_var (\<lambda>var reg. Returns (snd (paste value var reg))) (EnvVar scope name reg)"

definition EnvSet :: "EnvScope \<Rightarrow> wide \<Rightarrow> wide \<Rightarrow> registry \<Rightarrow> registry call" where
  "EnvSet scope name value reg = on_var (\<lambda>var reg. Returns (snd (set_var value var reg))) (EnvVar scope name reg)"

definition EnvUnset :: "EnvScope \<Rightarrow> wide \<Rightarrow> registry \<Rightarrow> registry call" where
  "EnvUnset scope name reg = on_var (\<lambda>var reg. Returns (snd (unset var reg))) (EnvVar scope name reg)"

definition QueryValue :: "EnvScope \<Rightarrow> wide \<Rightarrow> registry \<Rightarrow> (wide \<times> registry) call" where
  "QueryValue scope name reg = on_var (\<lambda>var reg. Returns (ev_value var, reg)) (EnvVar scope name reg)"

section \<open>The list of directories\<close>

definition path_name :: wide where
  "path_name = [80, 97, 116, 104]"

text \<open>The match is a whole entry of the list.\<close>

definition is_entry :: "wide \<Rightarrow> nat \<Rightarrow> nat \<Rightarrow> bool" where
  "is_entry value pos n \<longleftrightarrow>
     (pos = 0 \<or> value ! (pos - 1) = 59) \<and> (pos + n = length value \<or> value ! (pos + n) = 59)"

partial_function (option) add_loop :: "wide \<Rightarrow> wide \<Rightarrow> nat option \<Rightarrow> bool option" where
  "add_loop path value pos =
     (case pos of
        None \<Rightarrow> Some False
      | Some p \<Rightarrow>
          if is_entry value p (length path) then Some True else add_loop path value (str_find value path (p + 1)))"

declare add_loop.simps [code]

definition PathAdd :: "EnvScope \<Rightarrow> wide \<Rightarrow> registry \<Rightarrow> registry call" where
  "PathAdd scope path reg =
     on_var (\<lambda>var reg.
       case add_loop path (ev_value var) (str_find (ev_value var) path 0) of
         None \<Rightarrow> Loops
       | Some True \<Rightarrow> Returns reg
       | Some False \<Rightarrow>
           if length (ev_value var) = 0 then Returns (snd (set_var path var reg))
           else Returns (snd (paste ([59] @ path) var reg))) (EnvVar scope path_name reg)"

partial_function (option) remove_loop :: "wide \<Rightarrow> wide \<Rightarrow> nat option \<Rightarrow> uint32 \<Rightarrow> (wide \<times> uint32) option" where
  "remove_loop path value pos count =
     (case pos of
        None \<Rightarrow> Some (value, count)
      | Some p \<Rightarrow>
          if is_entry value p (length path) then
            let count = count + 1;
                value =
                  (if p = 0 then if length path = length value then [] else str_replace_at value p (length path + 1) []
                   else str_replace_at value (p - 1) (length path + 1) [])
            in remove_loop path value (str_find value path p) count
          else remove_loop path value (str_find value path (p + 1)) count)"

declare remove_loop.simps [code]

definition PathRemove :: "EnvScope \<Rightarrow> wide \<Rightarrow> registry \<Rightarrow> (uint32 \<times> registry) call" where
  "PathRemove scope path reg =
     on_var (\<lambda>var reg.
       case remove_loop path (ev_value var) (str_find (ev_value var) path 0) 0 of
         None \<Rightarrow> Loops
       | Some (value, count) \<Rightarrow> Returns (count, snd (set_var value var reg))) (EnvVar scope path_name reg)"

section \<open>Searching for an entry\<close>

text \<open>The value consists of a part before an entry, the entry, and the part behind it.\<close>

definition around :: "wide \<Rightarrow> wide \<Rightarrow> bool" where
  "around pre post \<longleftrightarrow> (pre = [] \<or> last pre = 59) \<and> (post = [] \<or> hd post = 59)"

lemma str_find_Suc: "i \<le> length s \<Longrightarrow>
   str_find s sub i = (if matches_at (=) s sub i then Some i else str_find s sub (Suc i))"
  by (simp add: str_find_def upt_conv_Cons del: upt_Suc)

lemma str_find_end: "length s < i + length sub \<Longrightarrow> str_find s sub i = None"
  by (auto simp: str_find_def find_None_iff matches_at_def)

text \<open>A match that starts in an entry and is an entry itself is that entry, and from its start.\<close>

lemma match_in_entry:
  assumes "around pre post" "59 \<notin> set f" "59 \<notin> set path" "path \<noteq> []" "j \<le> length f"
    and "matches_at (=) (pre @ f @ post) path (length pre + j)" "is_entry (pre @ f @ post) (length pre + j) (length path)"
  shows "j = 0 \<and> f = path"
proof -
  let ?v = "pre @ f @ post" and ?i = "length pre + j"
  have m: "?i + length path \<le> length ?v" "take (length path) (drop ?i ?v) = path"
    using assms(6) by (auto simp: matches_at_def list.rel_eq)
  have d: "drop ?i ?v = drop j f @ post" using assms(5) by simp
  have le: "j + length path \<le> length f"
  proof (rule ccontr)
    assume "\<not> j + length path \<le> length f"
    then have "length f - j < length path" using assms(5) by linarith
    moreover have "post \<noteq> []" using m(1) calculation assms(5) by auto
    then have "(drop j f @ post) ! (length f - j) = 59" using assms(1) by (simp add: nth_append around_def hd_conv_nth)
    ultimately have "path ! (length f - j) = 59" using m(2) unfolding d by (metis nth_take)
    then show False using assms(3) \<open>length f - j < length path\<close> nth_mem by metis
  qed
  have "j = 0"
  proof (rule ccontr)
    assume "j \<noteq> 0"
    then have "?v ! (?i - 1) = f ! (j - 1)" "j - 1 < length f"
      using le assms(4) by (auto simp: nth_append)
    then show False using assms(2,7) \<open>j \<noteq> 0\<close> nth_mem [of "j - 1" f] by (auto simp: is_entry_def)
  qed
  moreover have "length path = length f"
  proof (rule ccontr)
    assume "length path \<noteq> length f"
    then have "?v ! (?i + length path) = f ! (j + length path)" "j + length path < length f"
      using le \<open>j = 0\<close> by (auto simp: nth_append)
    then show False using assms(2,7) nth_mem [of "j + length path" f] by (auto simp: is_entry_def)
  qed
  ultimately show ?thesis using m(2) d by simp
qed

lemma entry_matches:
  assumes "around pre post"
  shows "matches_at (=) (pre @ path @ post) path (length pre)" "is_entry (pre @ path @ post) (length pre) (length path)"
  using assms by (cases pre rule: rev_cases; cases post;
      auto simp: matches_at_def list.rel_eq is_entry_def around_def nth_append)+

text \<open>A loop that looks at the next position when the match is no entry.\<close>

lemma skip_entry:
  assumes loop: "\<And>p. \<not> is_entry (pre @ f @ post) p (length path) \<Longrightarrow>
      loop (Some p) = loop (str_find (pre @ f @ post) path (p + 1))"
    and "around pre post" "59 \<notin> set f" "59 \<notin> set path" "path \<noteq> []"
    and "j \<le> length f" "j \<noteq> 0 \<or> f \<noteq> path"
  shows "loop (str_find (pre @ f @ post) path (length pre + j)) =
    loop (str_find (pre @ f @ post) path (Suc (length pre + length f)))"
  using assms(6,7)
proof (induction "length f - j" arbitrary: j)
  case 0
  then have j: "j = length f" by simp
  let ?v = "pre @ f @ post"
  show ?case
  proof (cases "matches_at (=) ?v path (length pre + j)")
    case True
    then have "\<not> is_entry ?v (length pre + j) (length path)"
      using match_in_entry [OF assms(2-5) 0(2)] 0(3) by blast
    then show ?thesis using True loop j by (simp add: str_find_Suc)
  qed (simp add: str_find_Suc j)
next
  case (Suc n)
  let ?v = "pre @ f @ post"
  have "loop (str_find ?v path (length pre + j)) = loop (str_find ?v path (Suc (length pre + j)))"
  proof (cases "matches_at (=) ?v path (length pre + j)")
    case True
    then have "\<not> is_entry ?v (length pre + j) (length path)"
      using match_in_entry [OF assms(2-5) Suc(3)] Suc(4) by blast
    then show ?thesis using True loop Suc(2) by (simp add: str_find_Suc)
  qed (use Suc(2) in \<open>simp add: str_find_Suc\<close>)
  also have "\<dots> = loop (str_find ?v path (Suc (length pre + length f)))"
    using Suc(1) [of "Suc j"] Suc(2) by simp
  finally show ?case .
qed

section \<open>Entries\<close>

text \<open>The entries that were looked at, and where the next one starts.\<close>

definition before :: "wide list \<Rightarrow> wide" where
  "before ds = (if ds = [] then [] else join_with [59] ds @ [59])"

definition behind :: "wide list \<Rightarrow> wide" where
  "behind fs = (if fs = [] then [] else 59 # join_with [59] fs)"

lemma join_snoc: "ds \<noteq> [] \<Longrightarrow> join_with [59] (ds @ fs) = join_with [59] ds @ behind fs"
proof (induction ds)
  case (Cons d ds)
  then show ?case by (cases "ds = []"; cases "fs = []") (simp_all add: behind_def join_with_Cons)
qed simp

lemma join_around: "join_with [59] (ds @ f # fs) = before ds @ f @ behind fs" "around (before ds) (behind fs)"
proof -
  have "join_with [59] (f # fs) = f @ behind fs" by (cases "fs = []") (simp_all add: behind_def join_with_Cons)
  then show "join_with [59] (ds @ f # fs) = before ds @ f @ behind fs"
    by (cases "ds = []") (simp_all add: before_def join_snoc behind_def)
  show "around (before ds) (behind fs)" by (simp add: around_def before_def behind_def)
qed

lemma before_snoc: "before (ds @ [f]) = before ds @ f @ [59]"
  by (cases "ds = []") (simp_all add: before_def join_snoc behind_def)

lemma remove_loop_None: "remove_loop path v None c = Some (v, c)"
  by (subst remove_loop.simps) simp

lemma remove_loop_entries:
  assumes "59 \<notin> set path" "path \<noteq> []"
  shows "\<forall>f \<in> set fs. 59 \<notin> set f \<Longrightarrow>
    remove_loop path (join_with [59] (ds @ fs)) (str_find (join_with [59] (ds @ fs)) path (length (before ds))) c =
    Some (join_with [59] (ds @ filter ((\<noteq>) path) fs), c + of_nat (count_list fs path))"
proof (induction fs arbitrary: ds c)
  case Nil
  have "length (join_with [59] ds) < length (before ds) + length path"
    using assms(2) by (cases "ds = []") (simp_all add: before_def)
  then show ?case by (simp add: str_find_end remove_loop_None)
next
  case (Cons f fs)
  let ?v = "before ds @ f @ behind fs" and ?p = "length (before ds)"
  note j = join_around(1) [of ds f fs] join_around(2) [of ds fs]
  show ?case
  proof (cases "f = path")
    case False
    define loop where "loop pos = remove_loop path ?v pos c" for pos
    have l: "loop (Some p) = loop (str_find ?v path (p + 1))" if "\<not> is_entry ?v p (length path)" for p
      unfolding loop_def using that by (subst remove_loop.simps) simp
    have "loop (str_find ?v path (?p + 0)) = loop (str_find ?v path (Suc (?p + length f)))"
      using Cons.prems False assms by (intro skip_entry [where loop = loop, OF l j(2)]) auto
    moreover have "Suc (?p + length f) = length (before (ds @ [f]))" by (simp add: before_snoc)
    ultimately have "remove_loop path ?v (str_find ?v path ?p) c = remove_loop path ?v (str_find ?v path (length (before (ds @ [f])))) c"
      by (simp add: loop_def)
    moreover have "join_with [59] ((ds @ [f]) @ fs) = ?v" using j(1) by simp
    ultimately show ?thesis
      unfolding j(1) using Cons.IH [of "ds @ [f]" c] Cons.prems False by simp
  next
    case True
    have m: "str_find ?v path ?p = Some ?p"
      using entry_matches [OF j(2), of path] by (simp add: str_find_Suc True)
    have w: "(if ?p = 0 then if length path = length ?v then [] else str_replace_at ?v ?p (length path + 1) []
         else str_replace_at ?v (?p - 1) (length path + 1) []) = join_with [59] (ds @ fs)"
    proof (cases "ds = []")
      case True
      then show ?thesis
        using \<open>f = path\<close> by (cases "fs = []") (simp_all add: before_def behind_def str_replace_at_def)
    next
      case False
      then have "?p - 1 = length (join_with [59] ds)" "?p \<noteq> 0" "ds @ fs \<noteq> []" by (simp_all add: before_def)
      then show ?thesis
        using False \<open>f = path\<close> by (simp add: join_snoc str_replace_at_def) (simp add: before_def)
    qed
    have "remove_loop path ?v (Some ?p) c =
        remove_loop path (join_with [59] (ds @ fs)) (str_find (join_with [59] (ds @ fs)) path ?p) (c + 1)"
      using entry_matches(2) [OF j(2), of path] w True by (subst remove_loop.simps) (simp add: Let_def)
    then show ?thesis
      unfolding j(1) using Cons.IH [of ds "c + 1"] Cons.prems True m by (simp add: add.assoc)
  qed
qed

lemma add_loop_entries:
  assumes "59 \<notin> set path" "path \<noteq> []"
  shows "\<forall>f \<in> set fs. 59 \<notin> set f \<Longrightarrow>
    add_loop path (join_with [59] (ds @ fs)) (str_find (join_with [59] (ds @ fs)) path (length (before ds))) =
    Some (path \<in> set fs)"
proof (induction fs arbitrary: ds)
  case Nil
  have "length (join_with [59] ds) < length (before ds) + length path"
    using assms(2) by (cases "ds = []") (simp_all add: before_def)
  then show ?case by (subst add_loop.simps) (simp add: str_find_end)
next
  case (Cons f fs)
  let ?v = "before ds @ f @ behind fs" and ?p = "length (before ds)"
  note j = join_around(1) [of ds f fs] join_around(2) [of ds fs]
  show ?case
  proof (cases "f = path")
    case False
    define loop where "loop pos = add_loop path ?v pos" for pos
    have l: "loop (Some p) = loop (str_find ?v path (p + 1))" if "\<not> is_entry ?v p (length path)" for p
      unfolding loop_def using that by (subst add_loop.simps) simp
    have "loop (str_find ?v path (?p + 0)) = loop (str_find ?v path (Suc (?p + length f)))"
      using Cons.prems False assms by (intro skip_entry [where loop = loop, OF l j(2)]) auto
    moreover have "Suc (?p + length f) = length (before (ds @ [f]))" by (simp add: before_snoc)
    ultimately have "add_loop path ?v (str_find ?v path ?p) = add_loop path ?v (str_find ?v path (length (before (ds @ [f]))))"
      by (simp add: loop_def)
    moreover have "join_with [59] ((ds @ [f]) @ fs) = ?v" using j(1) by simp
    ultimately show ?thesis
      unfolding j(1) using Cons.IH [of "ds @ [f]"] Cons.prems False by simp
  next
    case True
    have "str_find ?v path ?p = Some ?p"
      using entry_matches [OF j(2), of path] by (simp add: str_find_Suc True)
    moreover have "add_loop path ?v (Some ?p) = Some True"
      using entry_matches(2) [OF j(2), of path] True by (subst add_loop.simps) simp
    ultimately show ?thesis unfolding j(1) using True by simp
  qed
qed

section \<open>Cutting\<close>

lemma cut_loop_cuts:
  assumes "w \<noteq> []"
  shows "\<exists>u n. cut_loop w v (str_find v w 0) c = Some (u, c + of_nat n) \<and>
    str_find u w 0 = None \<and> length u + n * length w = length v"
proof (induction "length v" arbitrary: v c rule: less_induct)
  case less
  show ?case
  proof (cases "str_find v w 0")
    case None
    then have "cut_loop w v (str_find v w 0) c = Some (v, c + of_nat 0)"
      by (subst cut_loop.simps) simp
    then show ?thesis using None by (intro exI [of _ v] exI [of _ 0]) simp
  next
    case (Some p)
    let ?w = "str_replace_at v p (length w) []"
    have l: "length ?w + length w = length v"
      using str_find_Some(2) [OF Some] by (simp add: str_replace_at_def)
    then have "length ?w < length v" using assms by (cases w) auto
    then obtain u n where u: "cut_loop w ?w (str_find ?w w 0) (c + 1) = Some (u, c + 1 + of_nat n)"
      "str_find u w 0 = None" "length u + n * length w = length ?w"
      using less by blast
    have "cut_loop w v (str_find v w 0) c = cut_loop w ?w (str_find ?w w 0) (c + 1)"
      unfolding Some by (subst cut_loop.simps) (simp add: Let_def)
    then have "cut_loop w v (str_find v w 0) c = Some (u, c + of_nat (Suc n))"
      using u(1) by (simp add: add.assoc)
    moreover have "length u + Suc n * length w = length v" using u(3) l by simp
    ultimately show ?thesis using u(2) by blast
  qed
qed

lemma cut_loop_diverges: "cut_loop t v pos c = Some r \<Longrightarrow> \<not> (t = [] \<and> pos = Some 0)"
proof (erule cut_loop.raw_induct [rotated, where P = "\<lambda>t v pos c r. \<not> (t = [] \<and> pos = Some 0)"], goal_cases)
  case (1 f t v pos c r)
  show ?case
  proof
    assume a: "t = [] \<and> pos = Some 0"
    then have e: "t = []" "pos = Some 0" by simp_all
    have w: "str_find w ([] :: wide) 0 = Some 0" for w by (simp add: str_find_empty)
    show False using 1(2) [unfolded e option.case Let_def w] 1(1) by blast
  qed
qed

lemma cut_loop_empty: "cut_loop [] v (Some 0) c = None"
  using cut_loop_diverges [of "[]" v "Some 0" c] by (cases "cut_loop [] v (Some 0) c") auto

section \<open>Properties\<close>

text \<open>The variable has a terminated value, and its key can be opened.\<close>

definition holds_value :: "registry \<Rightarrow> EnvScope \<Rightarrow> wide \<Rightarrow> wide \<Rightarrow> bool" where
  "holds_value reg scope name v \<longleftrightarrow> scope \<noteq> es_invalid \<and> can_read reg scope \<and> can_write reg scope \<and> 0 \<notin> set v \<and>
     (reg_values reg scope name = Some (v @ [0]) \<or> reg_values reg scope name = None \<and> v = [])"

lemma takeWhile_zero: "0 \<notin> set v \<Longrightarrow> takeWhile (\<lambda>c. c \<noteq> 0) (v @ [0 :: 16 word]) = v"
  by (induction v) auto

lemma EnvVar_holds: "holds_value reg scope name v \<Longrightarrow>
   EnvVar scope name reg =
     Returns (\<lparr>ev_name = name, ev_scope = scope, ev_value = v\<rparr>, reg\<lparr>handles := handles reg + 1\<rparr>)"
  by (auto simp: holds_value_def EnvVar_def RegOpenKey_def RegCloseKey_predefined_def takeWhile_zero)

text \<open>What a write leaves: the value, two more handles, since the constructor opens a key too, and a broadcast.\<close>

definition written :: "registry \<Rightarrow> EnvScope \<Rightarrow> wide \<Rightarrow> wide \<Rightarrow> registry" where
  "written reg scope name v =
     reg\<lparr>reg_values := (reg_values reg)(scope := (reg_values reg scope)(name \<mapsto> v @ [0])), handles := handles reg + 2,
       broadcasts := broadcasts reg + 1\<rparr>"

lemma set_var_holds:
  assumes "holds_value reg scope name v"
  defines "var \<equiv> \<lparr>ev_name = name, ev_scope = scope, ev_value = v\<rparr>"
  shows "snd (set_var w var (reg\<lparr>handles := handles reg + 1\<rparr>)) = written reg scope name w"
    "snd (paste w var (reg\<lparr>handles := handles reg + 1\<rparr>)) = written reg scope name (v @ w)"
  using assms by (simp_all add: holds_value_def set_var_def paste_def written_def write_var_def RegOpenKey_def
      RegSetValue_def broadcastChange_def RegCloseKey_predefined_def)

lemma holds_written:
  "holds_value reg scope name v \<Longrightarrow> 0 \<notin> set w \<Longrightarrow> holds_value (written reg scope name w) scope name w"
  by (simp add: holds_value_def written_def)

lemma str_find_start: "str_find s sub 0 = str_find s sub (length (before []))"
  by (simp add: before_def)

text \<open>Property C32: \<open>PathRemove\<close> removes the entries of the list that are the directory, all of them and no others, and counts
  them; the entries that stay keep their order.\<close>

theorem PathRemove_entries:
  assumes "holds_value reg scope path_name (join_with [59] dirs)" "\<forall>d \<in> set dirs. 59 \<notin> set d"
    and "path \<noteq> []" "59 \<notin> set path"
  shows "PathRemove scope path reg =
    Returns (of_nat (count_list dirs path), written reg scope path_name (join_with [59] (filter ((\<noteq>) path) dirs)))"
  using remove_loop_entries [OF assms(4,3,2), of "[]" 0] set_var_holds(1) [OF assms(1)]
  by (simp add: PathRemove_def EnvVar_holds [OF assms(1)] before_def)

text \<open>\<open>PathAdd\<close> adds a directory at the end of the list if it is not there, and otherwise writes nothing, so
  that it is there once when it was there at most once; removing it again gives the list without it.\<close>

theorem PathAdd_entries:
  assumes "holds_value reg scope path_name (join_with [59] dirs)" "\<forall>d \<in> set dirs. 59 \<notin> set d"
    and "path \<noteq> []" "59 \<notin> set path"
  shows "PathAdd scope path reg =
    Returns (if path \<in> set dirs then reg\<lparr>handles := handles reg + 1\<rparr>
      else written reg scope path_name (join_with [59] ((if join_with [59] dirs = [] then [] else dirs) @ [path])))"
proof -
  have "join_with [59] (dirs @ [path]) = join_with [59] dirs @ [59] @ path" if "join_with [59] dirs \<noteq> []"
    using that join_snoc [of dirs "[path]"] by (cases "dirs = []") (auto simp: behind_def)
  then show ?thesis
    using add_loop_entries [OF assms(4,3,2), of "[]"] set_var_holds [OF assms(1)]
    by (auto simp: PathAdd_def EnvVar_holds [OF assms(1)] before_def)
qed

definition example_registry :: registry where
  "example_registry =
     \<lparr>reg_values = (\<lambda>_. Map.empty)(es_user := [path_name \<mapsto> [97, 59, 98, 98, 59, 97, 0]]), can_read = (\<lambda>_. True),
      can_write = (\<lambda>_. True), handles = 0, broadcasts = 0\<rparr>"

lemma example_holds: "holds_value example_registry es_user path_name (join_with [59] [[97], [98, 98], [97]])"
  by (simp add: holds_value_def example_registry_def)

lemma PathRemove_entries_witness:
  "PathRemove es_user [97] example_registry = Returns (2, written example_registry es_user path_name [98, 98])"
  using PathRemove_entries [OF example_holds, of "[97]"] by simp

lemma PathAdd_entries_witness:
  "PathAdd es_user [98] example_registry =
     Returns (written example_registry es_user path_name [97, 59, 98, 98, 59, 97, 59, 98])"
  using PathAdd_entries [OF example_holds, of "[98]"] by simp

text \<open>\<open>EnvCut\<close> takes out occurrences of a text until none is left, and counts them; for an empty text it
  does not return.\<close>

theorem EnvCut_cuts:
  assumes "holds_value reg scope name v"
  shows "if t = [] then EnvCut scope name t reg = Loops
    else \<exists>u n. EnvCut scope name t reg = Returns (of_nat n, written reg scope name u) \<and>
      str_find u t 0 = None \<and> length u + n * length t = length v"
proof (cases "t = []")
  case True
  then show ?thesis
    using assms by (simp add: EnvCut_def EnvVar_holds [OF assms] cut_def str_find_empty cut_loop_empty holds_value_def)
next
  case False
  obtain u n where u: "cut_loop t v (str_find v t 0) 0 = Some (u, of_nat n)" "str_find u t 0 = None"
    "length u + n * length t = length v"
    using cut_loop_cuts [OF False, of v 0] by auto
  have "EnvCut scope name t reg = Returns (of_nat n, written reg scope name u)"
    using assms by (simp add: EnvCut_def EnvVar_holds [OF assms] cut_def u(1) holds_value_def RegOpenKey_def written_def
        write_var_def RegSetValue_def broadcastChange_def RegCloseKey_predefined_def)
  then show ?thesis using u(2,3) False by auto
qed

lemma EnvCut_cuts_witness: "EnvCut es_user path_name [] example_registry = Loops"
  using EnvCut_cuts [OF example_holds, of "[]"] by simp

text \<open>Every call leaves handles of the registry open.\<close>

lemma handles_leak:
  "holds_value reg scope name v \<Longrightarrow> QueryValue scope name reg = Returns (v, reg\<lparr>handles := handles reg + 1\<rparr>)"
  "holds_value reg scope name v \<Longrightarrow> EnvSet scope name x reg = Returns (written reg scope name x)"
  "handles (written reg scope name x) = handles reg + 2"
  using set_var_holds(1) [of reg scope name v x]
  by (simp_all add: QueryValue_def EnvSet_def EnvVar_holds) (simp add: written_def)

text \<open>Removing the empty directory from an empty list does not return.\<close>

lemma remove_empty_diverges: "remove_loop t v pos c = Some r \<Longrightarrow> \<not> (t = [] \<and> v = [] \<and> pos = Some 0)"
proof (erule remove_loop.raw_induct [rotated, where P = "\<lambda>t v pos c r. \<not> (t = [] \<and> v = [] \<and> pos = Some 0)"], goal_cases)
  case (1 f t v pos c r)
  show ?case
  proof
    assume a: "t = [] \<and> v = [] \<and> pos = Some 0"
    then have e: "t = []" "v = []" "pos = Some 0" by simp_all
    have w: "str_find [] ([] :: wide) 0 = Some 0" by (simp add: str_find_empty)
    have "f [] [] (Some 0) (c + 1) = Some r" using 1(2) e by (simp add: Let_def is_entry_def w)
    then show False using 1(1) by blast
  qed
qed

lemma PathRemove_empty:
  assumes "holds_value reg scope path_name []"
  shows "PathRemove scope [] reg = Loops"
proof -
  have "remove_loop [] [] (Some 0) 0 = None"
    using remove_empty_diverges [of "[]" "[]" "Some 0" 0] by (cases "remove_loop [] [] (Some 0) 0") auto
  then show ?thesis by (simp add: PathRemove_def EnvVar_holds [OF assms] str_find_empty)
qed

end
