(* ===== verification/Icon_File.thy ===== *)
theory Icon_File
  imports Prelude
begin

text \<open>
  Model of \<^verbatim>\<open>src/src/win/icon_util.cpp\<close>: the writer of icon files, and the choice of an icon from the groups of a
  module. What the operating system says of an icon (its two bitmaps and their bits) is data; a file is its bytes
  and the position in it. Writes to the file succeed. \<open>None\<close> is a write from outside of a variable.
\<close>

section \<open>Bitmaps and files\<close>

record BITMAP =
  bmWidth :: int
  bmHeight :: int
  bmWidthBytes :: int
  bmPlanes :: "16 word"
  bmBitsPixel :: "16 word"

record icon_info =
  bmpColor :: BITMAP
  colorBits :: "byte list"
  bmpMask :: BITMAP
  maskBits :: "byte list"

type_synonym out_file = "byte list \<times> nat"

definition WriteFile :: "byte list \<Rightarrow> out_file \<Rightarrow> out_file" where
  "WriteFile data f =
     (let (bs, pos) = f; bs = bs @ replicate (pos - length bs) 0
      in (take pos bs @ data @ drop (pos + length data) bs, pos + length data))"

definition SetFilePointer :: "nat \<Rightarrow> out_file \<Rightarrow> out_file" where
  "SetFilePointer pos f = (fst f, pos)"

definition le16 :: "16 word \<Rightarrow> byte list" where
  "le16 w = [ucast w, ucast (drop_bit 8 w)]"

section \<open>Writing an icon file\<close>

definition WriteIconHeader :: "nat \<Rightarrow> out_file \<Rightarrow> nat \<times> out_file" where
  "WriteIconHeader nImages f = (let h = le16 0 @ le16 1 @ le16 (of_nat nImages) in (length h, WriteFile h f))"

definition NumBitmapBytes :: "BITMAP \<Rightarrow> int" where
  "NumBitmapBytes b =
     (let nWidthBytes = bmWidthBytes b;
          nWidthBytes = (if and nWidthBytes 3 \<noteq> 0 then and (nWidthBytes + 4) (not 3) else nWidthBytes)
      in nWidthBytes * bmHeight b)"

definition WriteIconImageHeader :: "BITMAP \<Rightarrow> BITMAP \<Rightarrow> out_file \<Rightarrow> nat \<times> out_file" where
  "WriteIconImageHeader c msk f =
     (let nImageBytes = NumBitmapBytes c + NumBitmapBytes msk;
          h = le32 40 @ le32 (of_int (bmWidth c)) @ le32 (of_int (bmHeight c * 2)) @ le16 (bmPlanes c) @ le16 (bmBitsPixel c) @
              le32 0 @ le32 (of_int nImageBytes) @ le32 0 @ le32 0 @ le32 0 @ le32 0
      in (length h, WriteFile h f))"

definition WriteIconDirectoryEntry :: "icon_info \<Rightarrow> int \<Rightarrow> out_file \<Rightarrow> nat \<times> out_file" where
  "WriteIconDirectoryEntry hIcon nImageOffset f =
     (let c = bmpColor hIcon;
          nImageBytes = NumBitmapBytes c + NumBitmapBytes (bmpMask hIcon);
          nColorCount = (if bmBitsPixel c \<ge> 8 then 0 else 2 ^ (unat (bmBitsPixel c) * unat (bmPlanes c)));
          d = [of_int (bmWidth c), of_int (bmHeight c), of_int nColorCount, 0] @ le16 (bmPlanes c) @ le16 (bmBitsPixel c) @
              le32 (of_int (40 + nImageBytes)) @ le32 (of_int nImageOffset)
      in (length d, WriteFile d f))"

text \<open>The scan lines from the last to the first. The padding is written from a variable of four bytes: with a number of
  bytes outside of 0 to 4 the write reads behind it.\<close>

fun rows_loop :: "nat \<Rightarrow> int \<Rightarrow> byte list \<Rightarrow> out_file \<Rightarrow> out_file option" where
  "rows_loop 0 wb pIconData f = Some f"
| "rows_loop (Suc i) wb pIconData f =
     (let f = WriteFile (take (nat wb) (drop (i * nat wb) pIconData)) f
      in if and wb 3 \<noteq> 0 then
           if 0 \<le> 4 - wb \<and> 4 - wb \<le> 4 then rows_loop i wb pIconData (WriteFile (replicate (nat (4 - wb)) 0) f) else None
         else rows_loop i wb pIconData f)"

definition WriteIconData :: "BITMAP \<Rightarrow> byte list \<Rightarrow> out_file \<Rightarrow> (int \<times> out_file) option" where
  "WriteIconData bmp bits f =
     map_option (\<lambda>f. (NumBitmapBytes bmp, f)) (rows_loop (nat (bmHeight bmp)) (bmWidthBytes bmp) bits f)"

text \<open>The images, with the list of their offsets; the flag is false when the function gives up.\<close>

fun images_loop :: "icon_info list \<Rightarrow> int list \<Rightarrow> out_file \<Rightarrow> (bool \<times> int list \<times> out_file) option" where
  "images_loop [] offsets f = Some (True, offsets, f)"
| "images_loop (h # hIcons) offsets f =
     (let offsets = offsets @ [int (snd f)]; (n, f) = WriteIconImageHeader (bmpColor h) (bmpMask h) f
      in if n = 0 then Some (False, offsets, f)
         else Option.bind (WriteIconData (bmpColor h) (colorBits h) f) (\<lambda>(n, f).
           if n = 0 then Some (False, offsets, f)
           else Option.bind (WriteIconData (bmpMask h) (maskBits h) f) (\<lambda>(n, f).
             if n = 0 then Some (False, offsets, f) else images_loop hIcons offsets f)))"

fun entries_loop :: "icon_info list \<Rightarrow> int list \<Rightarrow> out_file \<Rightarrow> bool \<times> out_file" where
  "entries_loop (h # hIcons) (p # offsets) f =
     (let (n, f) = WriteIconDirectoryEntry h p f in if n = 0 then (False, f) else entries_loop hIcons offsets f)"
| "entries_loop _ _ f = (True, f)"

text \<open>The icons, of which a handle may be null; the file cannot be created when \<open>created\<close> is false.\<close>

definition SaveToFile :: "icon_info option list \<Rightarrow> 'w list \<Rightarrow> bool \<Rightarrow> (bool \<times> byte list) option" where
  "SaveToFile hIcons filePath created =
     (if length hIcons = 0 \<or> filePath = [] then Some (False, [])
      else if list_ex (\<lambda>h. h = None) hIcons then Some (False, [])
      else if \<not> created then Some (False, [])
      else let icons = map the hIcons; (n, f) = WriteIconHeader (length icons) ([], 0)
           in if n = 0 then Some (False, fst f)
              else let f = SetFilePointer (snd f + 16 * length icons) f
                   in Option.bind (images_loop icons [] f) (\<lambda>(ok, offsets, f).
                     if \<not> ok then Some (False, fst f)
                     else let (ok, f) = entries_loop icons offsets (SetFilePointer 6 f) in Some (ok, fst f)))"

section \<open>Choosing an icon\<close>

text \<open>An icon of a group is its handle and its size; an entry may be null. The index is \<open>None\<close> where the code has -1.\<close>

fun closest_loop :: "('h \<times> int) option list \<Rightarrow> int \<Rightarrow> nat \<Rightarrow> nat option \<Rightarrow> int \<Rightarrow> nat option" where
  "closest_loop [] desiredSize i idx closestValue = idx"
| "closest_loop (None # icons) desiredSize i idx closestValue = closest_loop icons desiredSize (i + 1) idx closestValue"
| "closest_loop (Some ii # icons) desiredSize i idx closestValue =
     (let v = \<bar>desiredSize - snd ii\<bar>
      in if idx = None then closest_loop icons desiredSize (i + 1) (Some i) v
         else if closestValue > v then closest_loop icons desiredSize (i + 1) (Some i) v
         else closest_loop icons desiredSize (i + 1) idx closestValue)"

definition getClosestSize :: "('h \<times> int) option list \<Rightarrow> int \<Rightarrow> ('h \<times> int) option" where
  "getClosestSize icons desiredSize =
     (case closest_loop icons desiredSize 0 None 0 of None \<Rightarrow> None | Some idx \<Rightarrow> icons ! idx)"

definition iconHandleList :: "('h \<times> int) option list \<Rightarrow> 'h list" where
  "iconHandleList icons = map (\<lambda>ii. fst (the ii)) (filter (\<lambda>ii. ii \<noteq> None) icons)"

text \<open>The groups of a module: the resource of a name, and the icon of a resource for a size, are calls of the operating
  system. A name that is a number is given as its digits by the parameter \<open>name_text\<close>.\<close>

definition standardIconSize :: "int list" where
  "standardIconSize = [16, 32, 48, 64, 128, 256]"

fun groups_loop ::
  "('r \<Rightarrow> 'w list) \<Rightarrow> ('r \<Rightarrow> 'm option) \<Rightarrow> ('m \<Rightarrow> int \<Rightarrow> 'h option) \<Rightarrow> bool \<Rightarrow> 'r list \<Rightarrow>
   ('w list \<times> ('h \<times> int) option list) list \<Rightarrow> ('w list \<times> ('h \<times> int) option list) list"
where
  "groups_loop name_text resource icon_of onlyFirst [] groups = groups"
| "groups_loop name_text resource icon_of onlyFirst (r # rs) groups =
     (if onlyFirst \<and> length groups > 0 then groups_loop name_text resource icon_of onlyFirst rs groups
      else case resource r of
        None \<Rightarrow> groups_loop name_text resource icon_of onlyFirst rs groups
      | Some mem \<Rightarrow>
          let icons = map (\<lambda>sz. map_option (\<lambda>h. (h, sz)) (icon_of mem sz)) standardIconSize
          in groups_loop name_text resource icon_of onlyFirst rs
               (groups @ [(name_text r, filter (\<lambda>i. i \<noteq> None) icons)]))"

text \<open>The names of the icon groups of the module at a path; \<open>None\<close> when the module or its resources cannot be read.\<close>

definition DoEnumIconGroups ::
  "('w list \<Rightarrow> 'r list option) \<Rightarrow> ('r \<Rightarrow> 'w list) \<Rightarrow> ('r \<Rightarrow> 'm option) \<Rightarrow> ('m \<Rightarrow> int \<Rightarrow> 'h option) \<Rightarrow> 'w list \<Rightarrow> bool \<Rightarrow>
   ('w list \<times> ('h \<times> int) option list) list option"
where
  "DoEnumIconGroups names name_text resource icon_of filePath onlyFirst =
     (if filePath = [] then None
      else map_option (\<lambda>rs. groups_loop name_text resource icon_of onlyFirst rs []) (names filePath))"

text \<open>The result is the copied handle and its size.\<close>

definition LoadFromFile ::
  "('w list \<times> ('h \<times> int) option list) list option \<Rightarrow> nat \<Rightarrow> int \<Rightarrow> ('h \<times> int) option"
where
  "LoadFromFile groups iconIndex desiredSize =
     (case groups of
        None \<Rightarrow> None
      | Some iconGroups \<Rightarrow>
          if length iconGroups \<le> iconIndex then None else getClosestSize (snd (iconGroups ! iconIndex)) desiredSize)"

definition GetExeDisplayIcon ::
  "('w list \<times> ('h \<times> int) option list) list option \<Rightarrow> int \<Rightarrow> ('h \<times> int) option"
where
  "GetExeDisplayIcon groups desiredSize =
     (case groups of
        None \<Rightarrow> None
      | Some iconGroups \<Rightarrow> if length iconGroups = 0 then None else getClosestSize (snd (iconGroups ! 0)) desiredSize)"

text \<open>The substituted icon of the shell: \<open>key\<close> says that the key is there, \<open>query\<close> is its value; the test is the wrong
  way round. Without a value the code parses an empty text.\<close>

definition ParseShell32IconInfo ::
  "('w list \<Rightarrow> 'w list \<times> int) \<Rightarrow> ('w list \<Rightarrow> 'w list) \<Rightarrow> 'w list \<Rightarrow> bool \<Rightarrow> 'w list option \<Rightarrow> ('w list \<times> int) option"
where
  "ParseShell32IconInfo parse expand shell32Path key query =
     (if shell32Path = [] then None
      else if \<not> key then None
      else if query \<noteq> None then None
      else let (substFile, icIDX) = parse [] in Some (expand substFile, icIDX))"

end
