(* ===== verification/Icon_Laws.thy ===== *)
theory Icon_Laws
  imports Icon_File
begin

text \<open>
  The file that is written is an icon file: every entry of its directory gives the place and the length of its image.
  With scan lines that need padding and have more than four bytes the writer is undefined.
\<close>

section \<open>Rows\<close>

definition row_ok :: "int \<Rightarrow> bool" where
  "row_ok wb \<longleftrightarrow> wb mod 4 = 0 \<or> wb < 4"

definition has_bits :: "BITMAP \<Rightarrow> byte list \<Rightarrow> bool" where
  "has_bits b bits \<longleftrightarrow> 0 < bmWidthBytes b \<and> 0 < bmHeight b \<and> length bits = nat (bmWidthBytes b) * nat (bmHeight b)"

lemma and_3: "and wb 3 = wb mod (4 :: int)"
  using take_bit_eq_mask [of 2 wb] by (simp add: take_bit_eq_mod mask_eq_exp_minus_1)

lemma and_not_3: "and n (- 4) = n - n mod (4 :: int)"
proof -
  have "and n (not (mask 2)) = push_bit 2 (drop_bit 2 n)"
    by (rule bit_eqI) (auto simp: bit_simps simp del: add_2_eq_Suc add_2_eq_Suc')
  moreover have "not (mask 2) = (- 4 :: int)" by (simp add: mask_eq_exp_minus_1)
  ultimately show ?thesis
    using bits_ident [of 2 n] by (simp add: take_bit_eq_mod)
qed

lemma NumBitmapBytes_rows: "NumBitmapBytes b = (bmWidthBytes b + 3) div 4 * 4 * bmHeight b"
proof -
  have "n mod 4 \<noteq> 0 \<Longrightarrow> n + 4 - n mod 4 = (n + 3) div 4 * 4" "n mod 4 = 0 \<Longrightarrow> n = (n + 3) div 4 * 4" for n :: int
    by presburger+
  from this [of "bmWidthBytes b"] show ?thesis
    by (simp add: NumBitmapBytes_def Let_def and_3 and_not_3)
qed

text \<open>A row with its padding, and the rows from below.\<close>

definition row_bytes :: "int \<Rightarrow> byte list \<Rightarrow> nat \<Rightarrow> byte list" where
  "row_bytes wb bits i = take (nat wb) (drop (i * nat wb) bits) @ replicate (nat ((- wb) mod 4)) 0"

definition rows_bytes :: "nat \<Rightarrow> int \<Rightarrow> byte list \<Rightarrow> byte list" where
  "rows_bytes n wb bits = concat (map (row_bytes wb bits) (rev [0..<n]))"

definition append_file :: "out_file \<Rightarrow> byte list \<Rightarrow> out_file" where
  "append_file f data = (fst f @ replicate (snd f - length (fst f)) 0 @ data, snd f + length data)"

definition at_end :: "out_file \<Rightarrow> bool" where
  "at_end f \<longleftrightarrow> length (fst f) \<le> snd f"

lemma WriteFile_end: "at_end f \<Longrightarrow> WriteFile data f = append_file f data"
  by (cases f) (simp add: at_end_def WriteFile_def append_file_def)

lemma at_end_append: "at_end f \<Longrightarrow> at_end (append_file f data)"
  by (simp add: at_end_def append_file_def)

lemma append_append: "at_end f \<Longrightarrow> a \<noteq> [] \<Longrightarrow> append_file (append_file f a) b = append_file f (a @ b)"
  by (simp add: at_end_def append_file_def)

lemma rows_loop_rows:
  assumes "0 < wb" "at_end f" "n * nat wb \<le> length bits" "0 < n"
  shows "rows_loop n wb bits f = (if row_ok wb then Some (append_file f (rows_bytes n wb bits)) else None)"
  using assms(2-4)
proof (induction n arbitrary: f)
  case (Suc n)
  let ?r = "take (nat wb) (drop (n * nat wb) bits)"
  have r: "?r \<noteq> []" using Suc.prems assms(1) by simp
  have p: "(- wb) mod 4 = 4 - wb" if "wb < 4" using that assms(1) by presburger
  note a = WriteFile_end [OF Suc.prems(1), of ?r] at_end_append [OF Suc.prems(1), of ?r]
  consider "wb mod 4 = 0" | "wb mod 4 \<noteq> 0" "wb < 4" | "\<not> row_ok wb" by (auto simp: row_ok_def)
  then show ?case
  proof cases
    case 1
    then have "(- wb) mod 4 = 0" by presburger
    then have b: "row_bytes wb bits n = ?r" by (simp add: row_bytes_def)
    show ?thesis
    proof (cases "n = 0")
      case False
      then show ?thesis
        using 1 a Suc.IH [OF a(2)] Suc.prems r by (simp add: and_3 row_ok_def rows_bytes_def b append_append)
    qed (use 1 a b in \<open>simp add: and_3 row_ok_def rows_bytes_def\<close>)
  next
    case 2
    then have b: "row_bytes wb bits n = ?r @ replicate (nat (4 - wb)) 0" using p by (simp add: row_bytes_def)
    let ?f = "append_file f (?r @ replicate (nat (4 - wb)) 0)"
    have w: "WriteFile (replicate (nat (4 - wb)) 0) (append_file f ?r) = ?f"
      using WriteFile_end [OF a(2)] append_append [OF Suc.prems(1) r] by simp
    have e: "at_end ?f" using Suc.prems(1) by (rule at_end_append)
    have s: "rows_loop (Suc n) wb bits f = rows_loop n wb bits ?f"
      using 2 assms(1) a w by (simp add: and_3)
    show ?thesis
    proof (cases "n = 0")
      case False
      then show ?thesis
        using 2 Suc.IH [OF e] Suc.prems r append_append [OF Suc.prems(1), of "?r @ replicate (nat (4 - wb)) 0"]
        by (simp add: s row_ok_def rows_bytes_def b del: rows_loop.simps)
    qed (use 2 s b in \<open>simp add: row_ok_def rows_bytes_def\<close>)
  next
    case 3
    then have "4 < wb" using assms(1) unfolding row_ok_def by presburger
    then show ?thesis using 3 by (simp add: and_3 row_ok_def)
  qed
qed simp

lemma length_rows_bytes:
  assumes "0 < wb" "n * nat wb \<le> length bits"
  shows "int (length (rows_bytes n wb bits)) = (wb + 3) div 4 * 4 * int n"
  using assms(2)
proof (induction n)
  case (Suc n)
  have "wb + (- wb) mod 4 = (wb + 3) div 4 * 4" by presburger
  moreover have "length (row_bytes wb bits n) = nat wb + nat ((- wb) mod 4)"
    using Suc.prems by (simp add: row_bytes_def)
  ultimately have "int (length (row_bytes wb bits n)) = (wb + 3) div 4 * 4" using assms(1) by simp
  then show ?case using Suc by (simp add: rows_bytes_def algebra_simps)
qed (simp add: rows_bytes_def)

section \<open>Images\<close>

definition icon_ok :: "icon_info \<Rightarrow> bool" where
  "icon_ok h \<longleftrightarrow> row_ok (bmWidthBytes (bmpColor h)) \<and> row_ok (bmWidthBytes (bmpMask h))"

definition icon_bits :: "icon_info \<Rightarrow> bool" where
  "icon_bits h \<longleftrightarrow> has_bits (bmpColor h) (colorBits h) \<and> has_bits (bmpMask h) (maskBits h)"

definition image_header :: "BITMAP \<Rightarrow> BITMAP \<Rightarrow> byte list" where
  "image_header c msk =
     le32 40 @ le32 (of_int (bmWidth c)) @ le32 (of_int (bmHeight c * 2)) @ le16 (bmPlanes c) @ le16 (bmBitsPixel c) @
     le32 0 @ le32 (of_int (NumBitmapBytes c + NumBitmapBytes msk)) @ le32 0 @ le32 0 @ le32 0 @ le32 0"

definition bitmap_bytes :: "BITMAP \<Rightarrow> byte list \<Rightarrow> byte list" where
  "bitmap_bytes b bits = rows_bytes (nat (bmHeight b)) (bmWidthBytes b) bits"

definition image_bytes :: "icon_info \<Rightarrow> byte list" where
  "image_bytes h =
     image_header (bmpColor h) (bmpMask h) @ bitmap_bytes (bmpColor h) (colorBits h) @ bitmap_bytes (bmpMask h) (maskBits h)"

lemma length_le16 [simp]: "length (le16 w) = 2"
  by (simp add: le16_def)

lemma length_image_header [simp]: "length (image_header c msk) = 40"
  by (simp add: image_header_def)

lemma bitmap_written:
  assumes "has_bits b bits" "at_end f"
  shows "WriteIconData b bits f =
      (if row_ok (bmWidthBytes b) then Some (NumBitmapBytes b, append_file f (bitmap_bytes b bits)) else None)"
    "int (length (bitmap_bytes b bits)) = NumBitmapBytes b" "0 < NumBitmapBytes b"
proof -
  have b: "0 < bmWidthBytes b" "0 < nat (bmHeight b)" "nat (bmHeight b) * nat (bmWidthBytes b) \<le> length bits"
    using assms(1) by (simp_all add: has_bits_def)
  show "WriteIconData b bits f =
      (if row_ok (bmWidthBytes b) then Some (NumBitmapBytes b, append_file f (bitmap_bytes b bits)) else None)"
    using rows_loop_rows [OF b(1) assms(2) b(3,2)] by (simp add: WriteIconData_def bitmap_bytes_def)
  show "int (length (bitmap_bytes b bits)) = NumBitmapBytes b"
    using length_rows_bytes [OF b(1,3)] b(2) by (simp add: bitmap_bytes_def NumBitmapBytes_rows)
  have "0 < (bmWidthBytes b + 3) div 4" using b(1) by presburger
  then show "0 < NumBitmapBytes b" using b(2) by (simp add: NumBitmapBytes_rows)
qed

lemma bitmap_length: "has_bits b bits \<Longrightarrow> int (length (bitmap_bytes b bits)) = NumBitmapBytes b"
  by (rule bitmap_written(2) [where f = "([], 0)"]) (simp_all add: at_end_def)

lemma image_length:
  "icon_bits h \<Longrightarrow> int (length (image_bytes h)) = 40 + (NumBitmapBytes (bmpColor h) + NumBitmapBytes (bmpMask h))"
  by (simp add: icon_bits_def image_bytes_def bitmap_length)

fun image_offsets :: "nat \<Rightarrow> icon_info list \<Rightarrow> nat list" where
  "image_offsets start [] = []"
| "image_offsets start (h # hs) = start # image_offsets (start + length (image_bytes h)) hs"

lemma images_loop_images:
  "list_all icon_bits icons \<Longrightarrow> icons \<noteq> [] \<Longrightarrow> at_end f \<Longrightarrow>
   images_loop icons offs f =
     (if list_all icon_ok icons
      then Some (True, offs @ map int (image_offsets (snd f) icons), append_file f (concat (map image_bytes icons)))
      else None)"
proof (induction icons arbitrary: offs f)
  case (Cons h hs)
  let ?c = "bmpColor h" and ?m = "bmpMask h"
  have b: "has_bits ?c (colorBits h)" "has_bits ?m (maskBits h)" using Cons.prems(1) by (simp_all add: icon_bits_def)
  let ?h = "image_header ?c ?m" and ?cb = "bitmap_bytes ?c (colorBits h)" and ?mb = "bitmap_bytes ?m (maskBits h)"
  have 1: "WriteIconImageHeader ?c ?m f = (40, append_file f ?h)"
    by (simp only: WriteIconImageHeader_def Let_def image_header_def [symmetric] length_image_header
        WriteFile_end [OF Cons.prems(3)])
  have e1: "at_end (append_file f ?h)" using Cons.prems(3) by (rule at_end_append)
  have e2: "at_end (append_file f (?h @ ?cb))" using Cons.prems(3) by (rule at_end_append)
  have e3: "at_end (append_file f (image_bytes h))" using Cons.prems(3) by (rule at_end_append)
  have h: "?h \<noteq> []" by (metis length_image_header list.size(3) zero_neq_numeral)
  have a1: "append_file (append_file f ?h) ?cb = append_file f (?h @ ?cb)"
    using append_append [OF Cons.prems(3) h] .
  have a2: "append_file (append_file f (?h @ ?cb)) ?mb = append_file f (image_bytes h)"
    using append_append [OF Cons.prems(3), of "?h @ ?cb"] h by (simp add: image_bytes_def)
  note w = bitmap_written [OF b(1) e1] bitmap_written [OF b(2) e2]
  have l: "images_loop (h # hs) offs f =
      (if icon_ok h then images_loop hs (offs @ [int (snd f)]) (append_file f (image_bytes h)) else None)"
    using w(1,3,4,6) by (simp add: 1 a1 a2 icon_ok_def)
  show ?case
  proof (cases "hs = []")
    case True
    then show ?thesis using l by simp
  next
    case False
    have a3: "append_file (append_file f (image_bytes h)) x = append_file f (image_bytes h @ x)" for x
      using h append_append [OF Cons.prems(3), of "image_bytes h"] by (simp add: image_bytes_def)
    have "snd (append_file f (image_bytes h)) = snd f + length (image_bytes h)" by (simp add: append_file_def)
    then show ?thesis
      unfolding l using Cons.IH [OF _ False e3, of "offs @ [int (snd f)]"] Cons.prems(1) by (simp add: a3)
  qed
qed simp

section \<open>The directory\<close>

definition entry_bytes :: "icon_info \<Rightarrow> int \<Rightarrow> byte list" where
  "entry_bytes h p =
     (let c = bmpColor h
      in [of_int (bmWidth c), of_int (bmHeight c),
          of_int (if bmBitsPixel c \<ge> 8 then 0 else 2 ^ (unat (bmBitsPixel c) * unat (bmPlanes c))), 0] @
         le16 (bmPlanes c) @ le16 (bmBitsPixel c) @
         le32 (of_int (40 + (NumBitmapBytes c + NumBitmapBytes (bmpMask h)))) @ le32 (of_int p))"

lemma length_entry_bytes [simp]: "length (entry_bytes h p) = 16"
  by (simp add: entry_bytes_def Let_def)

lemma entries_loop_entries:
  "length ps = length hs \<Longrightarrow> length z = 16 * length hs \<Longrightarrow>
   entries_loop hs ps (a @ z @ r, length a) =
     (True, (a @ concat (map2 entry_bytes hs ps) @ r, length a + 16 * length hs))"
proof (induction hs ps arbitrary: a z rule: list_induct2')
  case (4 h hs p ps)
  obtain z1 z2 where z: "z = z1 @ z2" "length z1 = 16" "length z2 = 16 * length hs"
    using 4(3) by (intro that [of "take 16 z" "drop 16 z"]) auto
  have w: "WriteIconDirectoryEntry h p (a @ z @ r, length a) =
      (16, ((a @ entry_bytes h p) @ z2 @ r, length (a @ entry_bytes h p)))"
    unfolding WriteIconDirectoryEntry_def Let_def entry_bytes_def [unfolded Let_def, symmetric]
    using z(2) by (simp add: WriteFile_def z(1))
  show ?case
    using 4(1) [of z2 "a @ entry_bytes h p"] 4(2) z(3) by (simp add: w)
qed simp_all

section \<open>The file\<close>

text \<open>The file as a whole, and how a reader finds an image: the entry has its length at 8 and its place at 12.\<close>

definition ico_file :: "icon_info list \<Rightarrow> byte list" where
  "ico_file icons =
     le16 0 @ le16 1 @ le16 (of_nat (length icons)) @
     concat (map2 entry_bytes icons (map int (image_offsets (6 + 16 * length icons) icons))) @
     concat (map image_bytes icons)"

definition read_image :: "byte list \<Rightarrow> nat \<Rightarrow> byte list" where
  "read_image bs i =
     (let e = take 16 (drop (6 + 16 * i) bs)
      in take (unat (of_le32 (take 4 (drop 8 e)))) (drop (unat (of_le32 (take 4 (drop 12 e)))) bs))"

lemma length_image_offsets [simp]: "length (image_offsets start hs) = length hs"
  by (induction hs arbitrary: start) simp_all

lemma image_at_offset:
  "i < length hs \<Longrightarrow> length a = start \<Longrightarrow>
   image_offsets start hs ! i + length (image_bytes (hs ! i)) \<le> start + length (concat (map image_bytes hs)) \<and>
   take (length (image_bytes (hs ! i))) (drop (image_offsets start hs ! i) (a @ concat (map image_bytes hs))) = image_bytes (hs ! i)"
proof (induction hs arbitrary: start i a)
  case (Cons h hs)
  show ?case
  proof (cases i)
    case (Suc j)
    then show ?thesis using Cons.IH [of j "a @ image_bytes h"] Cons.prems by simp
  qed (use Cons.prems in simp)
qed simp

lemma chunk_at:
  "i < length es \<Longrightarrow> \<forall>e \<in> set es. length e = 16 \<Longrightarrow> take 16 (drop (16 * i) (concat es @ r)) = es ! i"
proof (induction es arbitrary: i)
  case (Cons e es)
  then show ?case by (cases i) simp_all
qed simp

lemma length_chunks: "\<forall>e \<in> set es. length e = 16 \<Longrightarrow> length (concat es) = 16 * length es"
  by (induction es) simp_all

lemma entry_fields:
  "take 4 (drop 8 (entry_bytes h p)) = le32 (of_int (40 + (NumBitmapBytes (bmpColor h) + NumBitmapBytes (bmpMask h))))"
  "take 4 (drop 12 (entry_bytes h p)) = le32 (of_int p)"
  by (simp_all add: entry_bytes_def Let_def le16_def del: of_int_add)

lemma unat_of_nat32: "n < 2 ^ 32 \<Longrightarrow> unat (of_nat n :: uint32) = n"
  by (simp add: unat_of_nat)

lemma ico_file_image:
  assumes "list_all icon_bits icons" "i < length icons" "length (ico_file icons) < 2 ^ 32"
  shows "read_image (ico_file icons) i = image_bytes (icons ! i)"
proof -
  let ?n = "length icons" and ?os = "image_offsets (6 + 16 * length icons) icons"
  let ?es = "map2 entry_bytes icons (map int ?os)" and ?h = "icons ! i"
  let ?d = "le16 0 @ le16 1 @ le16 (of_nat ?n)"
  have d: "drop (6 + 16 * i) (ico_file icons) = drop (16 * i) (concat ?es @ concat (map image_bytes icons))"
    by (simp add: ico_file_def)
  have es: "\<forall>e \<in> set ?es. length e = 16" by (auto simp: set_zip)
  have e: "take 16 (drop (6 + 16 * i) (ico_file icons)) = entry_bytes ?h (int (?os ! i))"
    unfolding d using chunk_at [OF _ es, of i] assms(2) by simp
  have "length (concat ?es) = 16 * ?n"
    using length_chunks [OF es] by simp
  then have a: "length (?d @ concat ?es) = 6 + 16 * ?n" by simp
  have f: "ico_file icons = (?d @ concat ?es) @ concat (map image_bytes icons)" by (simp add: ico_file_def)
  note im = image_at_offset [OF assms(2) a]
  have len: "length (ico_file icons) = 6 + 16 * ?n + length (concat (map image_bytes icons))"
    unfolding f using a by simp
  then have off: "?os ! i < 2 ^ 32" and sz: "length (image_bytes ?h) < 2 ^ 32" using im assms(3) by linarith+
  have b: "icon_bits ?h" using assms(1,2) by (simp add: list_all_length)
  have "of_int (40 + (NumBitmapBytes (bmpColor ?h) + NumBitmapBytes (bmpMask ?h))) = (of_nat (length (image_bytes ?h)) :: uint32)"
    by (simp only: image_length [OF b, symmetric] of_int_of_nat_eq)
  then show ?thesis
    using im off sz by (simp add: read_image_def e entry_fields Let_def unat_of_nat32 del: of_int_add) (simp add: f)
qed

lemma SaveToFile_ico:
  assumes "icons \<noteq> []" "list_all icon_bits icons" "path \<noteq> []"
  shows "SaveToFile (map Some icons) path True = (if list_all icon_ok icons then Some (True, ico_file icons) else None)"
proof -
  let ?d = "le16 0 @ le16 1 @ le16 (of_nat (length icons))" and ?n = "length icons"
  let ?g = "append_file (?d, 6 + 16 * ?n) (concat (map image_bytes icons))"
  have 1: "WriteIconHeader ?n ([], 0) = (6, (?d, 6))" by (simp add: WriteIconHeader_def WriteFile_def Let_def)
  have e: "at_end (?d, 6 + 16 * ?n)" by (simp add: at_end_def)
  have h: "map the (map Some icons) = icons" by (simp add: o_def)
  have n: "\<not> list_ex (\<lambda>h. h = None) (map Some icons)" by (simp add: list_ex_iff)
  have im: "images_loop icons [] (?d, 6 + 16 * ?n) =
      (if list_all icon_ok icons then Some (True, map int (image_offsets (6 + 16 * ?n) icons), ?g) else None)"
    using images_loop_images [OF assms(2,1) e, of "[]"] by simp
  have g: "SetFilePointer 6 ?g = (?d @ replicate (16 * ?n) 0 @ concat (map image_bytes icons), length ?d)"
    by (simp add: SetFilePointer_def append_file_def)
  have en: "entries_loop icons (map int (image_offsets (6 + 16 * ?n) icons)) (SetFilePointer 6 ?g) =
      (True, (ico_file icons, length ?d + 16 * ?n))"
    unfolding g by (subst entries_loop_entries) (simp_all add: ico_file_def)
  have s: "SetFilePointer (snd (?d, 6 :: nat) + 16 * ?n) (?d, 6) = (?d, 6 + 16 * ?n)" by (simp add: SetFilePointer_def)
  show ?thesis
    using assms(1,3) n im en unfolding SaveToFile_def h Let_def
    by (simp add: 1 s [simplified])
qed

text \<open>Property C33: when no scan line needs padding from behind the variable that holds it, the writer succeeds, and a
  reader finds every image by its entry, with the header, the scan lines of the colours and those of the mask.\<close>

theorem SaveToFile_images:
  assumes "icons \<noteq> []" "list_all icon_bits icons" "path \<noteq> []" "list_all icon_ok icons"
    and "length (ico_file icons) < 2 ^ 32"
  shows "\<exists>bs. SaveToFile (map Some icons) path True = Some (True, bs) \<and>
    take 6 bs = le16 0 @ le16 1 @ le16 (of_nat (length icons)) \<and>
    (\<forall>i < length icons. read_image bs i = image_bytes (icons ! i))"
  using SaveToFile_ico [OF assms(1-3)] assms(4) ico_file_image [OF assms(2) _ assms(5)]
  by (auto simp: ico_file_def)

text \<open>The writer is undefined as soon as one bitmap has scan lines of more than four bytes that are no
  multiple of four, like the mask of an icon of 48 pixels.\<close>

theorem SaveToFile_undefined:
  assumes "icons \<noteq> []" "list_all icon_bits icons" "path \<noteq> []"
  shows "SaveToFile (map Some icons) path True = None \<longleftrightarrow>
    (\<exists>h \<in> set icons. \<exists>wb \<in> {bmWidthBytes (bmpColor h), bmWidthBytes (bmpMask h)}. wb mod 4 \<noteq> 0 \<and> 4 < wb)"
proof -
  have "row_ok wb \<longleftrightarrow> \<not> (wb mod 4 \<noteq> 0 \<and> 4 < wb)" for wb
    unfolding row_ok_def by presburger
  then show ?thesis using SaveToFile_ico [OF assms] by (auto simp: list_all_iff icon_ok_def)
qed

definition example_icon :: "int \<Rightarrow> icon_info" where
  "example_icon w =
     \<lparr>bmpColor = \<lparr>bmWidth = w, bmHeight = 1, bmWidthBytes = 4 * w, bmPlanes = 1, bmBitsPixel = 32\<rparr>,
      colorBits = replicate (nat (4 * w)) 7,
      bmpMask = \<lparr>bmWidth = w, bmHeight = 1, bmWidthBytes = w div 8, bmPlanes = 1, bmBitsPixel = 1\<rparr>,
      maskBits = replicate (nat (w div 8)) 0\<rparr>"

lemma SaveToFile_images_witness:
  "\<exists>bs. SaveToFile [Some (example_icon 16)] [0 :: 16 word] True = Some (True, bs) \<and> read_image bs 0 = image_bytes (example_icon 16)"
proof -
  have "length (ico_file [example_icon 16]) < 2 ^ 32"
    by (simp add: ico_file_def image_bytes_def bitmap_bytes_def rows_bytes_def row_bytes_def example_icon_def)
  then show ?thesis
    using SaveToFile_images [of "[example_icon 16]" "[0 :: 16 word]"]
    by (auto simp: icon_bits_def has_bits_def icon_ok_def row_ok_def example_icon_def)
qed

lemma SaveToFile_undefined_witness: "SaveToFile [Some (example_icon 48)] [0 :: 16 word] True = None"
  using SaveToFile_undefined [of "[example_icon 48]" "[0 :: 16 word]"]
  by (simp add: icon_bits_def has_bits_def example_icon_def)

section \<open>The closest size\<close>

text \<open>Of the first \<open>n\<close> entries the one at the index is closest.\<close>

definition closest_of :: "('h \<times> int) option list \<Rightarrow> int \<Rightarrow> nat \<Rightarrow> nat option \<Rightarrow> bool" where
  "closest_of all d n idx \<longleftrightarrow>
     (case idx of
        None \<Rightarrow> \<forall>k<n. all ! k = None
      | Some j \<Rightarrow> j < n \<and>
          (\<exists>ii. all ! j = Some ii \<and> (\<forall>k<n. \<forall>jj. all ! k = Some jj \<longrightarrow> \<bar>d - snd ii\<bar> \<le> \<bar>d - snd jj\<bar>)))"

lemma closest_none: "all ! n = None \<Longrightarrow> closest_of all d n idx \<Longrightarrow> closest_of all d (n + 1) idx"
  by (auto simp: closest_of_def less_Suc_eq split: option.splits)

lemma closest_first: "all ! n = Some ii \<Longrightarrow> closest_of all d n None \<Longrightarrow> closest_of all d (n + 1) (Some n)"
  by (auto simp: closest_of_def less_Suc_eq)

lemma closest_next:
  assumes "all ! n = Some ii" "closest_of all d n (Some j)" "all ! j = Some jj"
  shows "closest_of all d (n + 1) (Some (if \<bar>d - snd jj\<bar> > \<bar>d - snd ii\<bar> then n else j))"
proof -
  have a: "j < n" "\<And>k kk. k < n \<Longrightarrow> all ! k = Some kk \<Longrightarrow> \<bar>d - snd jj\<bar> \<le> \<bar>d - snd kk\<bar>"
    using assms(2,3) by (auto simp: closest_of_def)
  let ?m = "if \<bar>d - snd jj\<bar> > \<bar>d - snd ii\<bar> then ii else jj"
  have "\<bar>d - snd ?m\<bar> \<le> \<bar>d - snd kk\<bar>" if "k < n + 1" "all ! k = Some kk" for k kk
  proof (cases "k = n")
    case False
    then have "\<bar>d - snd jj\<bar> \<le> \<bar>d - snd kk\<bar>" using a(2) [of k kk] that by simp
    then show ?thesis by simp
  qed (use assms(1) that in simp)
  then show ?thesis using assms(1,3) a(1) by (auto simp: closest_of_def simp del: split_paired_Ex split_paired_All)
qed

lemma closest_loop_spec:
  "(\<And>k. k < length icons \<Longrightarrow> all ! (i + k) = icons ! k) \<Longrightarrow> closest_of all d i idx \<Longrightarrow>
   \<forall>j. idx = Some j \<longrightarrow> (\<exists>jj. all ! j = Some jj \<and> v = \<bar>d - snd jj\<bar>) \<Longrightarrow>
   closest_of all d (i + length icons) (closest_loop icons d i idx v)"
proof (induction icons d i idx v rule: closest_loop.induct)
  case (2 icons d i idx v)
  have n: "all ! i = None" using 2(2) [of 0] by simp
  have s: "all ! (i + 1 + k) = icons ! k" if "k < length icons" for k using 2(2) [of "Suc k"] that by simp
  show ?case using 2(1) [OF s closest_none [OF n 2(3)] 2(4)] by simp
next
  case (3 ii icons d i idx v)
  have n: "all ! i = Some ii" using 3(4) [of 0] by simp
  have s: "all ! (i + 1 + k) = icons ! k" if "k < length icons" for k using 3(4) [of "Suc k"] that by simp
  show ?case
  proof (cases idx)
    case None
    have "\<forall>j. Some i = Some j \<longrightarrow> (\<exists>jj. all ! j = Some jj \<and> \<bar>d - snd ii\<bar> = \<bar>d - snd jj\<bar>)" using n by blast
    then show ?thesis
      using None 3(1) [OF refl None s closest_first [OF n 3(5) [unfolded None]]] by (simp add: Let_def)
  next
    case (Some j)
    then obtain jj where j: "all ! j = Some jj" "v = \<bar>d - snd jj\<bar>" using 3(6) by blast
    note c = closest_next [OF n 3(5) [unfolded Some] j(1)]
    show ?thesis
    proof (cases "v > \<bar>d - snd ii\<bar>")
      case True
      have "\<forall>j. Some i = Some j \<longrightarrow> (\<exists>jj. all ! j = Some jj \<and> \<bar>d - snd ii\<bar> = \<bar>d - snd jj\<bar>)" using n by blast
      then have "closest_of all d (i + 1 + length icons) (closest_loop icons d (i + 1) (Some i) \<bar>d - snd ii\<bar>)"
        using 3(2) [OF refl _ True s] c Some j(2) True by simp
      then show ?thesis using Some True by (simp add: Let_def)
    next
      case False
      then have "closest_of all d (i + 1 + length icons) (closest_loop icons d (i + 1) (Some j) v)"
        using 3(3) [OF refl _ False s] c Some j by (simp del: split_paired_Ex)
      then show ?thesis using Some False by (simp add: Let_def)
    qed
  qed
qed simp

text \<open>The icon that is chosen has the size that is closest to the one that is asked for, and there is none
  only if all the entries are null.\<close>

theorem getClosestSize_closest:
  "case getClosestSize icons d of
     None \<Rightarrow> \<forall>i \<in> set icons. i = None
   | Some ii \<Rightarrow> Some ii \<in> set icons \<and> (\<forall>jj. Some jj \<in> set icons \<longrightarrow> \<bar>d - snd ii\<bar> \<le> \<bar>d - snd jj\<bar>)"
  using closest_loop_spec [where icons = icons and all = icons and i = 0 and idx = None and v = 0 and d = d]
  by (auto simp: getClosestSize_def closest_of_def in_set_conv_nth split: option.splits)

end
