(* ===== verification/Registry_Values.thy ===== *)
theory Registry_Values
  imports Std_String
begin

text \<open>
  Model of the values in \<^verbatim>\<open>src/src/win/registry.cpp\<close>: the functions that read and write numbers, binary data, texts and
  lists of texts of an open key. A value has a type and bytes. The handle of the object is null or has the rights it
  was opened with. Wide characters have 16 bits and are stored with the low byte first. Results that are \<open>None\<close> are
  undefined behaviour.
\<close>

section \<open>The values of a key\<close>

type_synonym wide_text = "16 word list"
type_synonym key_values = "wide_text \<rightharpoonup> nat \<times> byte list"
type_synonym handle = "uint32 option"

definition ERROR_SUCCESS :: nat where "ERROR_SUCCESS = 0"
definition ERROR_FILE_NOT_FOUND :: nat where "ERROR_FILE_NOT_FOUND = 2"
definition ERROR_ACCESS_DENIED :: nat where "ERROR_ACCESS_DENIED = 5"
definition ERROR_INVALID_HANDLE :: nat where "ERROR_INVALID_HANDLE = 6"
definition ERROR_OUTOFMEMORY :: nat where "ERROR_OUTOFMEMORY = 14"
definition ERROR_MORE_DATA :: nat where "ERROR_MORE_DATA = 234"
definition ERROR_INVALID_DATATYPE :: nat where "ERROR_INVALID_DATATYPE = 1804"

lemmas errors = ERROR_SUCCESS_def ERROR_FILE_NOT_FOUND_def ERROR_ACCESS_DENIED_def ERROR_INVALID_HANDLE_def
  ERROR_OUTOFMEMORY_def ERROR_MORE_DATA_def ERROR_INVALID_DATATYPE_def

definition REG_SZ :: nat where "REG_SZ = 1"
definition REG_EXPAND_SZ :: nat where "REG_EXPAND_SZ = 2"
definition REG_BINARY :: nat where "REG_BINARY = 3"
definition REG_DWORD :: nat where "REG_DWORD = 4"
definition REG_MULTI_SZ :: nat where "REG_MULTI_SZ = 7"

lemmas types = REG_SZ_def REG_EXPAND_SZ_def REG_BINARY_def REG_DWORD_def REG_MULTI_SZ_def

definition has_right :: "uint32 \<Rightarrow> handle \<Rightarrow> nat" where
  "has_right right h =
     (case h of None \<Rightarrow> ERROR_INVALID_HANDLE | Some sam \<Rightarrow> if sam AND right = right then ERROR_SUCCESS else ERROR_ACCESS_DENIED)"

definition KEY_QUERY_VALUE :: uint32 where "KEY_QUERY_VALUE = 1"
definition KEY_SET_VALUE :: uint32 where "KEY_SET_VALUE = 2"

text \<open>The status, the type and the size of a value.\<close>

definition query_size :: "handle \<Rightarrow> wide_text \<Rightarrow> key_values \<Rightarrow> nat \<times> nat" where
  "query_size h name vals =
     (if has_right KEY_QUERY_VALUE h \<noteq> ERROR_SUCCESS then (has_right KEY_QUERY_VALUE h, 0)
      else case vals name of None \<Rightarrow> (ERROR_FILE_NOT_FOUND, 0) | Some (t, data) \<Rightarrow> (ERROR_SUCCESS, length data))"

text \<open>The query with a buffer: its bytes change when the data fits.\<close>

definition RegQueryValueEx :: "handle \<Rightarrow> wide_text \<Rightarrow> key_values \<Rightarrow> byte list \<Rightarrow> nat \<Rightarrow> nat \<times> nat \<times> byte list" where
  "RegQueryValueEx h name vals buf cb =
     (if has_right KEY_QUERY_VALUE h \<noteq> ERROR_SUCCESS then (has_right KEY_QUERY_VALUE h, 0, buf)
      else case vals name of
             None \<Rightarrow> (ERROR_FILE_NOT_FOUND, 0, buf)
           | Some (t, data) \<Rightarrow>
               if length data > cb then (ERROR_MORE_DATA, t, buf) else (ERROR_SUCCESS, t, data @ drop (length data) buf))"

definition RegSetValueEx :: "handle \<Rightarrow> wide_text \<Rightarrow> nat \<Rightarrow> byte list \<Rightarrow> key_values \<Rightarrow> nat \<times> key_values" where
  "RegSetValueEx h name t data vals =
     (if has_right KEY_SET_VALUE h \<noteq> ERROR_SUCCESS then (has_right KEY_SET_VALUE h, vals)
      else (ERROR_SUCCESS, vals(name \<mapsto> (t, data))))"

section \<open>Wide characters as bytes\<close>

definition wchar_bytes :: "wide_text \<Rightarrow> byte list" where
  "wchar_bytes s = concat (map (\<lambda>c. [ucast c, ucast (drop_bit 8 c)]) s)"

definition wide_at :: "byte list \<Rightarrow> nat \<Rightarrow> 16 word" where
  "wide_at bs i = (ucast (bs ! (2 * i)) :: 16 word) OR push_bit 8 (ucast (bs ! (2 * i + 1)))"

text \<open>A text in a buffer from a position on: up to its zero, or undefined when there is none in the buffer.\<close>

function read_wide :: "byte list \<Rightarrow> nat \<Rightarrow> wide_text option" where
  "read_wide bs i =
     (if 2 * i + 1 < length bs
      then if wide_at bs i = 0 then Some [] else map_option (\<lambda>s. wide_at bs i # s) (read_wide bs (i + 1))
      else None)"
  by pat_completeness auto
termination
  by (relation "measure (\<lambda>(bs, i). length bs - i)") auto

declare read_wide.simps [simp del]

section \<open>Reading\<close>

definition getValueBufferSize :: "handle \<Rightarrow> wide_text \<Rightarrow> key_values \<Rightarrow> nat \<Rightarrow> nat \<times> nat" where
  "getValueBufferSize h name vals dwSize =
     (let (ls, cbData) = query_size h name vals in (ls, if ls = ERROR_SUCCESS then cbData else dwSize))"

definition getValue :: "handle \<Rightarrow> wide_text \<Rightarrow> nat \<Rightarrow> key_values \<Rightarrow> byte list \<Rightarrow> nat \<Rightarrow> nat \<times> byte list" where
  "getValue h name expected vals buf cb =
     (let (ls, t, buf) = RegQueryValueEx h name vals buf cb
      in (if ls = ERROR_SUCCESS \<and> t \<noteq> expected then ERROR_INVALID_DATATYPE else ls, buf))"

text \<open>The variable of the caller is its four bytes; what is in it may change although the call fails.\<close>

definition getDWORDValue :: "handle \<Rightarrow> wide_text \<Rightarrow> key_values \<Rightarrow> byte list \<Rightarrow> nat \<times> byte list" where
  "getDWORDValue h name vals out = getValue h name REG_DWORD vals out 4"

definition getBINARYValue :: "handle \<Rightarrow> wide_text \<Rightarrow> key_values \<Rightarrow> byte list \<Rightarrow> nat \<Rightarrow> nat \<times> byte list" where
  "getBINARYValue h name vals pbDataOut cbDataOut = getValue h name REG_BINARY vals pbDataOut cbDataOut"

text \<open>The memory for a text has two bytes more than the data, all zero; the flag says whether there is any.\<close>

definition getSZValue :: "bool \<Rightarrow> handle \<Rightarrow> wide_text \<Rightarrow> key_values \<Rightarrow> wide_text \<Rightarrow> (nat \<times> wide_text) option" where
  "getSZValue memory h name vals strValue =
     (let (ls, cb) = getValueBufferSize h name vals 0
      in if ls \<noteq> ERROR_SUCCESS then Some (ls, strValue)
         else if cb = 0 then Some (ERROR_SUCCESS, [])
         else if \<not> memory then Some (ERROR_OUTOFMEMORY, strValue)
         else let (ls, temp) = getValue h name REG_SZ vals (replicate (cb + 2) 0) cb
              in if ls = ERROR_SUCCESS then map_option (\<lambda>s. (ls, s)) (read_wide temp 0) else Some (ls, strValue))"

text \<open>The texts in the buffer, one behind the other, up to an empty one.\<close>

function multi_loop :: "byte list \<Rightarrow> nat \<Rightarrow> wide_text list \<Rightarrow> wide_text list option" where
  "multi_loop temp i vStrValues =
     (case read_wide temp i of
        None \<Rightarrow> None
      | Some s \<Rightarrow> if s = [] then Some vStrValues else multi_loop temp (i + length s + 1) (vStrValues @ [s]))"
  by pat_completeness auto

lemma read_wide_inside: "read_wide bs i = Some s \<Longrightarrow> 2 * (i + length s) + 1 < length bs"
proof (induction bs i arbitrary: s rule: read_wide.induct)
  case (1 bs i)
  from "1.prems" have i: "2 * i + 1 < length bs"
    by (subst (asm) read_wide.simps) (auto split: if_splits)
  show ?case
  proof (cases "wide_at bs i = 0")
    case True
    with "1.prems" i show ?thesis by (subst (asm) read_wide.simps) auto
  next
    case False
    with "1.prems" i obtain t where "read_wide bs (i + 1) = Some t" "s = wide_at bs i # t"
      by (subst (asm) read_wide.simps) auto
    with "1.IH" [OF i False] show ?thesis by force
  qed
qed

termination multi_loop
  by (relation "measure (\<lambda>(temp, i, vs). length temp - i)") (auto dest: read_wide_inside)

declare multi_loop.simps [simp del]

definition getMultiSZValue :: "bool \<Rightarrow> handle \<Rightarrow> wide_text \<Rightarrow> key_values \<Rightarrow> wide_text list \<Rightarrow> (nat \<times> wide_text list) option" where
  "getMultiSZValue memory h name vals vStrValues =
     (let (ls, cb) = getValueBufferSize h name vals 0
      in if ls \<noteq> ERROR_SUCCESS then Some (ls, vStrValues)
         else if cb = 0 then Some (ERROR_SUCCESS, [])
         else if \<not> memory then Some (ERROR_OUTOFMEMORY, vStrValues)
         else let (ls, temp) = getValue h name REG_MULTI_SZ vals (replicate (cb + 2) 0) cb
              in if ls = ERROR_SUCCESS then map_option (\<lambda>vs. (ls, vs)) (multi_loop temp 0 vStrValues) else Some (ls, vStrValues))"

section \<open>Writing\<close>

definition setDWORDValue :: "handle \<Rightarrow> wide_text \<Rightarrow> uint32 \<Rightarrow> key_values \<Rightarrow> nat \<times> key_values" where
  "setDWORDValue h name dwData vals =
     RegSetValueEx h name REG_DWORD [ucast dwData, ucast (drop_bit 8 dwData), ucast (drop_bit 16 dwData), ucast (drop_bit 24 dwData)]
       vals"

definition setBINARYValue :: "handle \<Rightarrow> wide_text \<Rightarrow> byte list \<Rightarrow> key_values \<Rightarrow> nat \<times> key_values" where
  "setBINARYValue h name pbData vals = RegSetValueEx h name REG_BINARY pbData vals"

definition setSZValue :: "handle \<Rightarrow> wide_text \<Rightarrow> wide_text \<Rightarrow> key_values \<Rightarrow> nat \<times> key_values" where
  "setSZValue h name strData vals = RegSetValueEx h name REG_SZ (wchar_bytes (strData @ [0])) vals"

definition setExpandSZValue :: "handle \<Rightarrow> wide_text \<Rightarrow> wide_text \<Rightarrow> key_values \<Rightarrow> nat \<times> key_values" where
  "setExpandSZValue h name strData vals = RegSetValueEx h name REG_EXPAND_SZ (wchar_bytes (strData @ [0])) vals"

text \<open>The buffer of the list: a text with a zero in it is copied only up to the zero, and the rest of its place has no
  value.\<close>

fun write_entries :: "wide_text list \<Rightarrow> 16 word option list" where
  "write_entries [] = [Some 0]"
| "write_entries (s # vs) =
     (let copied = takeWhile (\<lambda>c. c \<noteq> 0) s @ [0]
      in map Some copied @ replicate (length s + 1 - length copied) None @ write_entries vs)"

definition createDoubleNulTermList :: "bool \<Rightarrow> wide_text list \<Rightarrow> 16 word option list option" where
  "createDoubleNulTermList memory vStrValues = (if memory then Some (write_entries vStrValues) else None)"

definition setMultiSZValue ::
  "bool \<Rightarrow> handle \<Rightarrow> wide_text \<Rightarrow> wide_text list \<Rightarrow> key_values \<Rightarrow> (nat \<times> key_values) option" where
  "setMultiSZValue memory h name vStrValues vals =
     (case createDoubleNulTermList memory vStrValues of
        None \<Rightarrow> Some (ERROR_OUTOFMEMORY, vals)
      | Some buf \<Rightarrow>
          let cch = 1 + sum_list (map (\<lambda>s. length s + 1) vStrValues); data = take cch buf
          in if None \<in> set data then None else Some (RegSetValueEx h name REG_MULTI_SZ (wchar_bytes (map the data)) vals))"

section \<open>What is written is read back\<close>

lemma wchar_bytes_simps [simp]:
  "wchar_bytes [] = []" "wchar_bytes (c # s) = ucast c # ucast (drop_bit 8 c) # wchar_bytes s"
  "wchar_bytes (s @ t) = wchar_bytes s @ wchar_bytes t" "length (wchar_bytes s) = 2 * length s"
  by (simp_all add: wchar_bytes_def length_concat comp_def sum_list_triv)

lemma wide_join: "(ucast (ucast c :: byte) :: 16 word) OR push_bit 8 (ucast (ucast (drop_bit 8 c) :: byte)) = c"
  by (rule bit_word_eqI) (auto simp: bit_simps)

lemma wide_at_bytes: "i < length t \<Longrightarrow> wide_at (wchar_bytes t @ r) i = t ! i"
proof (induction t arbitrary: i)
  case (Cons c t)
  then show ?case
    by (cases i) (auto simp: wide_at_def wide_join)
qed simp

lemma read_wchar_bytes:
  "0 \<in> set (drop i t) \<Longrightarrow> read_wide (wchar_bytes t) i = Some (takeWhile (\<lambda>c. c \<noteq> 0) (drop i t))"
proof (induction "length t - i" arbitrary: i)
  case 0
  then show ?case by simp
next
  case (Suc k)
  from Suc.hyps(2) have i: "i < length t" by simp
  then have d: "drop i t = t ! i # drop (i + 1) t" by (simp add: Cons_nth_drop_Suc)
  have w: "wide_at (wchar_bytes t) i = t ! i" using wide_at_bytes [OF i, of "[]"] by simp
  show ?case
  proof (cases "t ! i = 0")
    case True
    with i show ?thesis by (subst read_wide.simps) (simp add: w d)
  next
    case False
    with Suc.prems d have "0 \<in> set (drop (i + 1) t)" by auto
    with Suc.hyps(1) [of "i + 1"] Suc.hyps(2) False i show ?thesis by (subst read_wide.simps) (simp add: w d)
  qed
qed

text \<open>The buffer of a reader after the data has come in.\<close>

lemma getValue_whole:
  assumes "has_right KEY_QUERY_VALUE h = ERROR_SUCCESS" "vals name = Some (t, wchar_bytes s)"
  shows "getValueBufferSize h name vals 0 = (ERROR_SUCCESS, 2 * length s)"
    "getValue h name t vals (replicate (2 * length s + 2) 0) (2 * length s) = (ERROR_SUCCESS, wchar_bytes (s @ [0]))"
proof -
  have "drop (2 * length s) (replicate (2 * length s + 2) (0 :: byte)) = [0, 0]"
    unfolding drop_replicate by (simp add: numeral_2_eq_2)
  with assms show "getValueBufferSize h name vals 0 = (ERROR_SUCCESS, 2 * length s)"
    "getValue h name t vals (replicate (2 * length s + 2) 0) (2 * length s) = (ERROR_SUCCESS, wchar_bytes (s @ [0]))"
    by (simp_all add: getValueBufferSize_def query_size_def getValue_def RegQueryValueEx_def Let_def)
qed

text \<open>A text is read back up to its first zero.\<close>

theorem registry_text:
  assumes "has_right KEY_QUERY_VALUE h = ERROR_SUCCESS" "setSZValue h name s vals = (ERROR_SUCCESS, vals')"
  shows "getSZValue True h name vals' old = Some (ERROR_SUCCESS, takeWhile (\<lambda>c. c \<noteq> 0) s)"
proof -
  from assms(2) have v: "vals' name = Some (REG_SZ, wchar_bytes (s @ [0]))"
    by (auto simp: setSZValue_def RegSetValueEx_def split: if_splits)
  have "takeWhile (\<lambda>c. c \<noteq> 0) ((s @ [0]) @ [0]) = takeWhile (\<lambda>c. c \<noteq> 0) s"
    by (induction s) auto
  with getValue_whole [where vals = vals' and name = name and s = "s @ [0]", OF assms(1) v] read_wchar_bytes [of 0 "(s @ [0]) @ [0]"] show ?thesis
    by (simp add: getSZValue_def Let_def del: append_assoc)
qed

text \<open>The list as it is stored.\<close>

definition multi_text :: "wide_text list \<Rightarrow> wide_text" where
  "multi_text vs = concat (map (\<lambda>s. s @ [0]) vs) @ [0]"

lemma no_zero: "0 \<notin> set s \<Longrightarrow> takeWhile (\<lambda>c. c \<noteq> 0) s = s"
  by (induction s) auto

lemma write_entries_text: "\<forall>s \<in> set vs. 0 \<notin> set s \<Longrightarrow> write_entries vs = map Some (multi_text vs)"
  by (induction vs) (auto simp: multi_text_def Let_def no_zero)

lemma length_multi_text: "length (multi_text vs) = 1 + sum_list (map (\<lambda>s. length s + 1) vs)"
  by (induction vs) (auto simp: multi_text_def)

lemma setMultiSZValue_text:
  assumes "\<forall>s \<in> set vs. 0 \<notin> set s"
  shows "setMultiSZValue True h name vs vals = Some (RegSetValueEx h name REG_MULTI_SZ (wchar_bytes (multi_text vs)) vals)"
proof -
  have "take (1 + sum_list (map (\<lambda>s. length s + 1) vs)) (map Some (multi_text vs)) = map Some (multi_text vs)"
    by (simp add: length_multi_text)
  then show ?thesis
    by (auto simp: setMultiSZValue_def createDoubleNulTermList_def write_entries_text [OF assms] Let_def comp_def)
qed

lemma multi_loop_text:
  assumes "\<forall>s \<in> set vs. 0 \<notin> set s" "drop i t = multi_text vs @ r" "i \<le> length t"
  shows "multi_loop (wchar_bytes t) i acc = Some (acc @ takeWhile (\<lambda>s. s \<noteq> []) vs)"
  using assms
proof (induction vs arbitrary: i acc)
  case Nil
  then have "read_wide (wchar_bytes t) i = Some []"
    by (subst read_wchar_bytes) (simp_all add: multi_text_def)
  then show ?case by (subst multi_loop.simps) simp
next
  case (Cons s vs)
  have d: "drop i t = s @ 0 # multi_text vs @ r"
    using Cons.prems(2) by (simp add: multi_text_def)
  have tw: "takeWhile (\<lambda>c. c \<noteq> 0) (s @ 0 # multi_text vs @ r) = s"
    using Cons.prems(1) by (subst takeWhile_append2) auto
  have s: "read_wide (wchar_bytes t) i = Some s"
    by (subst read_wchar_bytes) (simp_all add: d tw)
  have "drop (i + length s + 1) t = drop (length s + 1) (drop i t)"
    by (simp add: add.commute add.left_commute)
  then have next': "drop (i + length s + 1) t = multi_text vs @ r" by (simp add: d)
  moreover have "i + length s + 1 \<le> length t"
    using arg_cong [OF d, of length] Cons.prems(3) by simp
  ultimately show ?case
    using Cons.IH [of "i + length s + 1" "acc @ [s]"] Cons.prems(1) s by (subst multi_loop.simps) simp
qed

text \<open>Property C39: a list of texts without zeros is read back, behind what the list of the caller has, up to its first empty text.\<close>

theorem registry_list:
  assumes "has_right KEY_QUERY_VALUE h = ERROR_SUCCESS" "\<forall>s \<in> set vs. 0 \<notin> set s"
    "setMultiSZValue True h name vs vals = Some (ERROR_SUCCESS, vals')"
  shows "getMultiSZValue True h name vals' old = Some (ERROR_SUCCESS, old @ takeWhile (\<lambda>s. s \<noteq> []) vs)"
proof -
  from assms(3) have v: "vals' name = Some (REG_MULTI_SZ, wchar_bytes (multi_text vs))"
    by (auto simp: setMultiSZValue_text [OF assms(2)] RegSetValueEx_def split: if_splits)
  have "length (multi_text vs) \<noteq> 0" by (simp add: length_multi_text)
  with getValue_whole [where vals = vals' and name = name and s = "multi_text vs", OF assms(1) v] multi_loop_text [OF assms(2), of 0 "multi_text vs @ [0]" "[0]" old] show ?thesis
    by (simp add: getMultiSZValue_def Let_def)
qed

text \<open>A number is read back; a value of another type that is not longer changes the variable although the call fails.\<close>

lemma registry_number:
  assumes "has_right KEY_QUERY_VALUE h = ERROR_SUCCESS" "setDWORDValue h name n vals = (ERROR_SUCCESS, vals')" "length old = 4"
  shows "getDWORDValue h name vals' old =
    (ERROR_SUCCESS, [ucast n, ucast (drop_bit 8 n), ucast (drop_bit 16 n), ucast (drop_bit 24 n)])"
  using assms by (auto simp: setDWORDValue_def RegSetValueEx_def getDWORDValue_def getValue_def RegQueryValueEx_def Let_def
      split: if_splits)

lemma wrong_type_changes:
  assumes "has_right KEY_QUERY_VALUE h = ERROR_SUCCESS" "vals name = Some (t, data)" "t \<noteq> REG_DWORD" "length data \<le> 4"
  shows "getDWORDValue h name vals old = (ERROR_INVALID_DATATYPE, data @ drop (length data) old)"
  using assms by (simp add: getDWORDValue_def getValue_def RegQueryValueEx_def errors)

text \<open>A list that is stored without the second zero makes the reader go behind its buffer.\<close>

lemma unterminated_list:
  assumes "has_right KEY_QUERY_VALUE h = ERROR_SUCCESS" "vals name = Some (REG_MULTI_SZ, wchar_bytes [97])"
  shows "getMultiSZValue True h name vals old = None"
proof -
  have "read_wide (wchar_bytes [97, 0]) 0 = Some [97]"
    by (subst read_wchar_bytes) simp_all
  moreover have "read_wide (wchar_bytes [97, 0]) (Suc (Suc 0)) = None"
    by (subst read_wide.simps) simp
  ultimately have "multi_loop (wchar_bytes [97, 0]) 0 old = None"
    by (subst multi_loop.simps, simp) (subst multi_loop.simps, simp)
  with getValue_whole [where vals = vals and name = name and s = "[97]", OF assms] show ?thesis
    by (simp add: getMultiSZValue_def Let_def)
qed

section \<open>Witnesses\<close>

definition all_rights :: handle where
  "all_rights = Some 0xF003F"

lemma all_rights_query: "has_right KEY_QUERY_VALUE all_rights = ERROR_SUCCESS"
  by (simp add: has_right_def all_rights_def KEY_QUERY_VALUE_def)

lemma all_rights_set: "RegSetValueEx all_rights name t data vals = (ERROR_SUCCESS, vals(name \<mapsto> (t, data)))"
  by (simp add: RegSetValueEx_def has_right_def all_rights_def KEY_SET_VALUE_def)

theorem registry_text_witness:
  "getSZValue True all_rights [110] (snd (setSZValue all_rights [110] [65, 66, 0, 67] Map.empty)) [] = Some (ERROR_SUCCESS, [65, 66])"
  using registry_text [OF all_rights_query, of "[110]" "[65, 66, 0, 67]" Map.empty _ "[]"] by (simp add: setSZValue_def all_rights_set)

theorem registry_list_witness:
  "\<exists>vals. setMultiSZValue True all_rights [110] [[65], [66, 67], [], [68]] Map.empty = Some (ERROR_SUCCESS, vals) \<and>
     getMultiSZValue True all_rights [110] vals [[90]] = Some (ERROR_SUCCESS, [[90], [65], [66, 67]])"
proof -
  have "setMultiSZValue True all_rights [110] [[65], [66, 67], [], [68]] Map.empty =
      Some (ERROR_SUCCESS, Map.empty([110] \<mapsto> (REG_MULTI_SZ, wchar_bytes (multi_text [[65], [66, 67], [], [68]]))))"
    by (subst setMultiSZValue_text) (simp_all add: all_rights_set)
  with registry_list [OF all_rights_query _ this, of "[[90]]"] show ?thesis by simp
qed

end
