(* ===== verification/Registry_Keys.thy ===== *)
theory Registry_Keys
  imports Registry_Values "HOL-Library.Sublist"
begin

text \<open>
  Model of the deletion and enumeration of keys in \<^verbatim>\<open>src/src/win/registry.cpp\<close>. The keys of the whole registry are a
  tree, and a handle is the place of a key in it; names are compared as they are. Which key the system finds for a handle, a path and
  one of the views of 32 and 64 bits is a parameter, as are the system and its \<^verbatim>\<open>RegDeleteKeyEx\<close>. A key that is denied can
  neither be opened nor deleted. The recursions have fuel.
\<close>

section \<open>The tree\<close>

datatype reg_key = Key (denied: bool) (values_of: key_values) (subkeys: "(wide_text \<times> reg_key) list")

type_synonym key_path = "wide_text list"

fun get_key :: "key_path \<Rightarrow> reg_key \<Rightarrow> reg_key option" where
  "get_key [] k = Some k"
| "get_key (n # ns) k = (case map_of (subkeys k) n of None \<Rightarrow> None | Some c \<Rightarrow> get_key ns c)"

text \<open>The first of the given name is replaced.\<close>

fun put_sub :: "wide_text \<Rightarrow> reg_key \<Rightarrow> (wide_text \<times> reg_key) list \<Rightarrow> (wide_text \<times> reg_key) list" where
  "put_sub n c [] = []"
| "put_sub n c ((m, d) # xs) = (if m = n then (m, c) # xs else (m, d) # put_sub n c xs)"

fun change_key :: "key_path \<Rightarrow> (reg_key \<Rightarrow> reg_key) \<Rightarrow> reg_key \<Rightarrow> reg_key" where
  "change_key [] f k = f k"
| "change_key (n # ns) f k =
     (case map_of (subkeys k) n of
        None \<Rightarrow> k
      | Some c \<Rightarrow> Key (denied k) (values_of k) (put_sub n (change_key ns f c) (subkeys k)))"

definition remove_sub :: "wide_text \<Rightarrow> reg_key \<Rightarrow> reg_key" where
  "remove_sub n k = Key (denied k) (values_of k) (filter (\<lambda>(m, c). m \<noteq> n) (subkeys k))"

definition remove_key :: "key_path \<Rightarrow> reg_key \<Rightarrow> reg_key" where
  "remove_key path k = (if path = [] then k else change_key (butlast path) (remove_sub (last path)) k)"

text \<open>
  The system. \<open>resolve\<close> gives the place of the key for a view, a handle and a path; without a flag the view is the default one of
  the process. Keys that are not redirected, and every key on a system of 32 bits, have one place in all views.
\<close>

datatype view = Default_view | View32 | View64

record windows =
  resolve :: "view \<Rightarrow> key_path \<Rightarrow> key_path \<Rightarrow> key_path"
  IsWin64 :: bool
  advapi32 :: bool
  has_RegDeleteKeyEx :: bool

definition ERROR_NOT_SUPPORTED :: nat where "ERROR_NOT_SUPPORTED = 50"
definition ERROR_INVALID_PARAMETER :: nat where "ERROR_INVALID_PARAMETER = 87"
definition ERROR_NO_MORE_ITEMS :: nat where "ERROR_NO_MORE_ITEMS = 259"
definition ERROR_KEY_DELETED :: nat where "ERROR_KEY_DELETED = 1018"

definition RegOpenKeyEx :: "windows \<Rightarrow> view \<Rightarrow> key_path \<Rightarrow> key_path \<Rightarrow> reg_key \<Rightarrow> nat \<times> key_path" where
  "RegOpenKeyEx w v hKey path root =
     (let p = resolve w v hKey path
      in case get_key p root of
           None \<Rightarrow> (ERROR_FILE_NOT_FOUND, [])
         | Some c \<Rightarrow> if denied c then (ERROR_ACCESS_DENIED, []) else (ERROR_SUCCESS, p))"

text \<open>A key with sub-keys cannot be deleted, nor can the root.\<close>

definition RegDeleteKeyEx :: "windows \<Rightarrow> view \<Rightarrow> key_path \<Rightarrow> key_path \<Rightarrow> reg_key \<Rightarrow> nat \<times> reg_key" where
  "RegDeleteKeyEx w v hKey path root =
     (let p = resolve w v hKey path
      in case get_key p root of
           None \<Rightarrow> (ERROR_FILE_NOT_FOUND, root)
         | Some c \<Rightarrow> if p = [] \<or> denied c \<or> subkeys c \<noteq> [] then (ERROR_ACCESS_DENIED, root) else (ERROR_SUCCESS, remove_key p root))"

section \<open>Enumeration\<close>

text \<open>The size of the buffer counts the zero.\<close>

definition RegEnumKey :: "reg_key \<Rightarrow> nat \<Rightarrow> nat \<Rightarrow> nat \<times> wide_text" where
  "RegEnumKey k i room =
     (if i \<ge> length (subkeys k) then (ERROR_NO_MORE_ITEMS, [])
      else let name = fst (subkeys k ! i) in if length name + 1 > room then (ERROR_MORE_DATA, []) else (ERROR_SUCCESS, name))"

function enum_loop :: "reg_key \<Rightarrow> nat \<Rightarrow> nat \<Rightarrow> wide_text list \<Rightarrow> nat \<times> wide_text list" where
  "enum_loop k cSubKeys i names =
     (if i < cSubKeys
      then let (ls, achKey) = RegEnumKey k i 255
           in if ls \<noteq> ERROR_SUCCESS then (ls, names) else enum_loop k cSubKeys (i + 1) (names @ [achKey])
      else (ERROR_SUCCESS, names))"
  by pat_completeness auto
termination
  by (relation "measure (\<lambda>(k, n, i, names). n - i)") auto

declare enum_loop.simps [simp del]

definition getSubKeys :: "reg_key \<Rightarrow> nat \<times> wide_text list" where
  "getSubKeys k = enum_loop k (length (subkeys k)) 0 []"

section \<open>Deletion below a handle\<close>

definition E_FAIL :: nat where "E_FAIL = 0x80004005"

text \<open>The view in which keys are deleted; a null name is an invalid parameter.\<close>

definition delete_view :: "windows \<Rightarrow> bool \<Rightarrow> view" where
  "delete_view w bPrefer64View =
     (if has_RegDeleteKeyEx w then if bPrefer64View \<and> IsWin64 w then View64 else View32 else Default_view)"

definition regDeleteKey32_64 :: "windows \<Rightarrow> key_path \<Rightarrow> key_path option \<Rightarrow> bool \<Rightarrow> reg_key \<Rightarrow> nat \<times> reg_key" where
  "regDeleteKey32_64 w hKey pszSubKey bPrefer64View root =
     (if \<not> advapi32 w then (ERROR_NOT_SUPPORTED, root)
      else case pszSubKey of
             None \<Rightarrow> (ERROR_INVALID_PARAMETER, root)
           | Some path \<Rightarrow> RegDeleteKeyEx w (delete_view w bPrefer64View) hKey path root)"

text \<open>The loop goes from the last key to the first. The sub-keys are opened without a view.\<close>

function (sequential) regDeleteSubKeys :: "windows \<Rightarrow> bool \<Rightarrow> nat \<Rightarrow> key_path \<Rightarrow> reg_key \<Rightarrow> (nat \<times> reg_key) option"
  and delete_loop :: "windows \<Rightarrow> bool \<Rightarrow> nat \<Rightarrow> key_path \<Rightarrow> nat \<Rightarrow> reg_key \<Rightarrow> (nat \<times> reg_key) option" where
  "regDeleteSubKeys w bPrefer64View 0 hKey root = None"
| "regDeleteSubKeys w bPrefer64View (Suc n) hKey root =
     (case get_key hKey root of
        None \<Rightarrow> Some (ERROR_KEY_DELETED, root)
      | Some k \<Rightarrow> delete_loop w bPrefer64View n hKey (length (subkeys k)) root)"
| "delete_loop w bPrefer64View n hKey 0 root = Some (ERROR_SUCCESS, root)"
| "delete_loop w bPrefer64View n hKey (Suc i) root =
     (case get_key hKey root of
        None \<Rightarrow> Some (ERROR_KEY_DELETED, root)
      | Some k \<Rightarrow>
          let (ls, szKeyName) = RegEnumKey k i 256
          in if ls \<noteq> ERROR_SUCCESS then Some (ls, root)
             else let (ls, hSubKey) = RegOpenKeyEx w Default_view hKey [szKeyName] root
                  in if ls \<noteq> ERROR_SUCCESS then Some (ls, root)
                     else case regDeleteSubKeys w bPrefer64View n hSubKey root of
                            None \<Rightarrow> None
                          | Some (ls, root) \<Rightarrow>
                              if ls \<noteq> ERROR_SUCCESS then Some (ls, root)
                              else let (ls, root) = regDeleteKey32_64 w hKey (Some [szKeyName]) bPrefer64View root
                                   in if ls \<noteq> ERROR_SUCCESS then Some (ls, root)
                                      else delete_loop w bPrefer64View n hKey i root)"
  by pat_completeness auto
termination
  by (relation "inv_image (less_than <*lex*> less_than)
      (case_sum (\<lambda>(w, p, n, h, r). (n, 0)) (\<lambda>(w, p, n, h, i, r). (n, Suc i)))") auto

text \<open>The handle, the sub-key and the value may be null.\<close>

definition DeleteKey :: "windows \<Rightarrow> nat \<Rightarrow> key_path option \<Rightarrow> key_path option \<Rightarrow> wide_text option \<Rightarrow> bool \<Rightarrow> reg_key \<Rightarrow>
    (nat \<times> reg_key) option" where
  "DeleteKey w n hKey pszSubKey pszValName bPrefer64View root =
     (case hKey of
        None \<Rightarrow> Some (E_FAIL, root)
      | Some hKey \<Rightarrow>
          let (status, hSubKey) =
            (case pszSubKey of
               Some path \<Rightarrow> RegOpenKeyEx w (if bPrefer64View then View64 else Default_view) hKey path root
             | None \<Rightarrow> (ERROR_SUCCESS, hKey))
          in if status \<noteq> ERROR_SUCCESS then Some (status, root)
             else case pszValName of
                    Some name \<Rightarrow>
                      (case get_key hSubKey root of
                         None \<Rightarrow> Some (ERROR_KEY_DELETED, root)
                       | Some k \<Rightarrow>
                           if values_of k name = None then Some (ERROR_FILE_NOT_FOUND, root)
                           else Some (ERROR_SUCCESS, change_key hSubKey (\<lambda>c. Key (denied c) ((values_of c)(name := None)) (subkeys c)) root))
                  | None \<Rightarrow>
                      (case regDeleteSubKeys w bPrefer64View n hSubKey root of
                         None \<Rightarrow> None
                       | Some (status, root) \<Rightarrow>
                           if status = ERROR_SUCCESS then Some (regDeleteKey32_64 w hKey pszSubKey bPrefer64View root)
                           else Some (status, root)))"

section \<open>Deletion by paths in a buffer\<close>

text \<open>\<open>len\<close> is the length of the path in the buffer of 520 characters, the path being the names in it.\<close>

datatype 'a outcome = Done 'a | Overrun | Out_of_fuel

fun regDelSubKeysRecurse :: "windows \<Rightarrow> bool \<Rightarrow> nat \<Rightarrow> key_path \<Rightarrow> key_path \<Rightarrow> nat \<Rightarrow> reg_key \<Rightarrow> (nat \<times> reg_key) outcome"
  and recurse_loop :: "windows \<Rightarrow> bool \<Rightarrow> nat \<Rightarrow> key_path \<Rightarrow> key_path \<Rightarrow> key_path \<Rightarrow> nat \<Rightarrow> reg_key \<Rightarrow> reg_key outcome" where
  "regDelSubKeysRecurse w bPrefer64View 0 hKeyRoot path len root = Out_of_fuel"
| "regDelSubKeysRecurse w bPrefer64View (Suc n) hKeyRoot path len root =
     (let v = (if bPrefer64View then View64 else View32); (ls, root) = RegDeleteKeyEx w v hKeyRoot path root
      in if ls = ERROR_SUCCESS then Done (ls, root)
         else let (ls, hKey) = RegOpenKeyEx w (if bPrefer64View then View64 else Default_view) hKeyRoot path root
              in if ls \<noteq> ERROR_SUCCESS then Done (ls, root)
                 else if len + 1 \<ge> 520 then Overrun
                 else case recurse_loop w bPrefer64View n hKeyRoot path hKey (len + 1) root of
                        Done root \<Rightarrow> Done (RegDeleteKeyEx w v hKeyRoot path root)
                      | Overrun \<Rightarrow> Overrun
                      | Out_of_fuel \<Rightarrow> Out_of_fuel)"
| "recurse_loop w bPrefer64View 0 hKeyRoot path hKey len root = Out_of_fuel"
| "recurse_loop w bPrefer64View (Suc n) hKeyRoot path hKey len root =
     (case get_key hKey root of
        None \<Rightarrow> Done root
      | Some k \<Rightarrow>
          let (ls, szName) = RegEnumKey k 0 260
          in if ls \<noteq> ERROR_SUCCESS then Done root
             else if len + length szName \<ge> 520 then Overrun
             else case regDelSubKeysRecurse w bPrefer64View n hKeyRoot (path @ [szName]) (len + length szName) root of
                    Done (ls, root) \<Rightarrow>
                      if ls \<noteq> ERROR_SUCCESS then Done root else recurse_loop w bPrefer64View n hKeyRoot path hKey len root
                  | Overrun \<Rightarrow> Overrun
                  | Out_of_fuel \<Rightarrow> Out_of_fuel)"

definition path_length :: "key_path \<Rightarrow> nat" where
  "path_length path = sum_list (map (\<lambda>n. length n + 1) path) - 1"

definition DeleteSubKeys :: "windows \<Rightarrow> nat \<Rightarrow> key_path \<Rightarrow> key_path \<Rightarrow> bool \<Rightarrow> reg_key \<Rightarrow> (nat \<times> reg_key) outcome" where
  "DeleteSubKeys w n hKeyRoot lpSubKey bPrefer64View root =
     (if lpSubKey = [] \<or> path_length lpSubKey \<ge> 520 then Overrun
      else regDelSubKeysRecurse w bPrefer64View n hKeyRoot lpSubKey (path_length lpSubKey) root)"

section \<open>The object\<close>

fun create_key :: "key_path \<Rightarrow> reg_key \<Rightarrow> reg_key" where
  "create_key [] k = k"
| "create_key (n # ns) k =
     (case map_of (subkeys k) n of
        None \<Rightarrow> Key (denied k) (values_of k) (subkeys k @ [(n, create_key ns (Key False Map.empty []))])
      | Some c \<Rightarrow> Key (denied k) (values_of k) (put_sub n (create_key ns c) (subkeys k)))"

record registry_object =
  hkeyRoot :: key_path
  strSubKey :: key_path
  hkey :: "key_path option"
  dwSamDesired :: uint32
  hChangeEvent :: bool
  hNotifyThread :: bool

definition Registry :: "key_path \<Rightarrow> key_path \<Rightarrow> registry_object" where
  "Registry rootKey subKey =
     \<lparr>hkeyRoot = rootKey, strSubKey = subKey, hkey = None, dwSamDesired = 0, hChangeEvent = False, hNotifyThread = False\<rparr>"

definition isOpen :: "registry_object \<Rightarrow> bool" where
  "isOpen this \<longleftrightarrow> hkey this \<noteq> None"

text \<open>The thread that waits for changes ends when the handle is null; its event stays.\<close>

definition close_registry :: "registry_object \<Rightarrow> registry_object" where
  "close_registry this = this\<lparr>hkey := None, hNotifyThread := False, dwSamDesired := 0\<rparr>"

text \<open>The flags of the views in the desired access.\<close>

definition sam_view :: "uint32 \<Rightarrow> view" where
  "sam_view sam = (if sam AND 0x100 \<noteq> 0 then View64 else if sam AND 0x200 \<noteq> 0 then View32 else Default_view)"

definition open_registry :: "windows \<Rightarrow> uint32 \<Rightarrow> bool \<Rightarrow> registry_object \<Rightarrow> reg_key \<Rightarrow> nat \<times> registry_object \<times> reg_key" where
  "open_registry w samDesired bCreate this root =
     (let this = (close_registry this)\<lparr>dwSamDesired := samDesired\<rparr>;
          p = resolve w (sam_view samDesired) (hkeyRoot this) (strSubKey this);
          status = (if bCreate \<and> get_key p root = None then ERROR_SUCCESS
                    else fst (RegOpenKeyEx w (sam_view samDesired) (hkeyRoot this) (strSubKey this) root))
      in if status \<noteq> ERROR_SUCCESS then (status, this, root)
         else (status, this\<lparr>hkey := Some p\<rparr>, if bCreate then create_key p root else root))"

text \<open>The flags say whether the event and the thread can be made.\<close>

definition watchForChange :: "bool \<Rightarrow> bool \<Rightarrow> registry_object \<Rightarrow> bool \<times> registry_object" where
  "watchForChange event thread this =
     (if hChangeEvent this \<or> hkey this = None then (False, this)
      else if \<not> event then (False, this)
      else (thread, this\<lparr>hChangeEvent := True, hNotifyThread := thread\<rparr>))"

lemma map_of_put: "map_of (put_sub n c xs) m = (if m = n \<and> map_of xs n \<noteq> None then Some c else map_of xs m)"
  by (induction n c xs rule: put_sub.induct) auto

lemma put_sub_same: "map_of xs n = Some c \<Longrightarrow> put_sub n c xs = xs"
  by (induction n c xs rule: put_sub.induct) (auto split: if_splits)

lemma put_sub_twice: "put_sub n c (put_sub n d xs) = put_sub n c xs"
  by (induction n c xs rule: put_sub.induct) auto

lemma fst_put_sub [simp]: "map fst (put_sub n c xs) = map fst xs"
  by (induction n c xs rule: put_sub.induct) auto

lemma get_create: "get_key path (create_key path k) \<noteq> None"
proof (induction path arbitrary: k)
  case (Cons n ns)
  then show ?case
    by (cases "map_of (subkeys k) n") (auto simp: map_of_put map_add_def)
qed simp

text \<open>The event is kept when the object is closed, so a second watch always fails.\<close>

lemma watch_once:
  assumes "watchForChange True True this = (True, this')" "open_registry w sam create (close_registry this') root = (ls, this'', root')"
  shows "watchForChange event thread this'' = (False, this'')"
  using assms by (auto simp: watchForChange_def open_registry_def close_registry_def Let_def split: if_splits)

section \<open>Laws of the tree\<close>

lemma get_append: "get_key (p @ q) k = Option.bind (get_key p k) (get_key q)"
  by (induction p arbitrary: k) (auto split: option.splits)

lemma get_change: "get_key path (change_key path f k) = map_option f (get_key path k)"
  by (induction path arbitrary: k) (auto simp: map_of_put split: option.splits)

lemma change_same: "get_key path k = Some c \<Longrightarrow> f c = c \<Longrightarrow> change_key path f k = k"
  by (induction path arbitrary: k) (auto simp: put_sub_same split: option.splits)

text \<open>Keys that are not at the place of the change or below it keep all but what is below them.\<close>

definition alike :: "reg_key \<Rightarrow> reg_key \<Rightarrow> bool" where
  "alike k k' \<longleftrightarrow> denied k' = denied k \<and> values_of k' = values_of k \<and> map fst (subkeys k') = map fst (subkeys k)"

lemma alike_refl: "rel_option alike x x"
  by (cases x) (simp_all add: alike_def)

lemma get_change_alike: "\<not> prefix p q \<Longrightarrow> rel_option alike (get_key q k) (get_key q (change_key p f k))"
proof (induction p arbitrary: k q)
  case (Cons n p)
  show ?case
  proof (cases q)
    case Nil
    then show ?thesis by (auto simp: alike_def split: option.split)
  next
    case (Cons m q')
    then show ?thesis
      using Cons.IH [of q'] Cons.prems by (cases "m = n") (auto simp: map_of_put alike_refl split: option.split)
  qed
qed simp

lemma map_of_filter_key: "map_of (filter (\<lambda>(m, c). m \<noteq> n) xs) m = (if m = n then None else map_of xs m)"
  by (induction xs) auto

lemma change_change: "change_key path f (change_key path g k) = change_key path (\<lambda>c. f (g c)) k"
  by (induction path arbitrary: k) (auto simp: map_of_put put_sub_twice split: option.splits)

text \<open>A key and what is left of it, when the key \<open>target\<close> is removed: everything but its name among the sub-keys.\<close>

definition same_but :: "key_path \<Rightarrow> key_path \<Rightarrow> reg_key \<Rightarrow> reg_key \<Rightarrow> bool" where
  "same_but target q k k' \<longleftrightarrow> denied k' = denied k \<and> values_of k' = values_of k \<and>
     map fst (subkeys k') = filter (\<lambda>n. q @ [n] \<noteq> target) (map fst (subkeys k))"

lemma get_remove_below:
  assumes "path \<noteq> []" "prefix path q"
  shows "get_key q (remove_key path k) = None"
proof -
  obtain r where "q = butlast path @ last path # r"
    using assms by (metis append_Cons append_Nil append_assoc append_butlast_last_id prefixE)
  then show ?thesis
    using assms(1) by (cases "get_key (butlast path) k") (simp_all add: remove_key_def get_append get_change remove_sub_def map_of_filter_key)
qed

lemma get_remove_rel:
  assumes "path \<noteq> []" "\<not> prefix path q"
  shows "rel_option (same_but path q) (get_key q k) (get_key q (remove_key path k))"
proof -
  obtain p n where path: "path = p @ [n]" using assms(1) by (metis append_butlast_last_id)
  have r: "remove_key path k = change_key p (remove_sub n) k" by (simp add: path remove_key_def)
  have keep: "same_but path q c c" if "q \<noteq> p" for c
    using that by (simp add: same_but_def path)
  show ?thesis
  proof (cases "prefix p q")
    case True
    then obtain t where q: "q = p @ t" by (auto elim: prefixE)
    show ?thesis
    proof (cases t)
      case Nil
      have "map fst (filter (\<lambda>(m, c). m \<noteq> n) xs) = filter (\<lambda>m. m \<noteq> n) (map fst xs)" for xs :: "(wide_text \<times> reg_key) list"
        by (induction xs) auto
      then show ?thesis
        unfolding r by (cases "get_key p k") (simp_all add: q Nil get_change same_but_def path remove_sub_def)
    next
      case (Cons m t')
      then have "m \<noteq> n" using assms(2) by (auto simp: q path)
      then have "get_key q (change_key p (remove_sub n) k) = get_key q k"
        unfolding q get_append get_change
        by (cases "get_key p k") (simp_all add: Cons remove_sub_def map_of_filter_key)
      moreover have "rel_option (same_but path q) x x" for x using keep by (cases x) (simp_all add: q Cons)
      ultimately show ?thesis by (simp add: r)
    qed
  next
    case False
    then have "q \<noteq> p" by auto
    then have "alike c c' \<Longrightarrow> same_but path q c c'" for c c' by (simp add: alike_def same_but_def path)
    then show ?thesis unfolding r by (rule option.rel_mono_strong [OF get_change_alike [OF False]])
  qed
qed

section \<open>What is deleted\<close>

text \<open>No key in the tree is denied, the names of the sub-keys are different and have at most the 255 characters of the registry.\<close>

fun deletable :: "reg_key \<Rightarrow> bool" where
  "deletable (Key d v subs) \<longleftrightarrow>
     \<not> d \<and> distinct (map fst subs) \<and> (\<forall>x \<in> set subs. length (fst x) \<le> 255 \<and> deletable (snd x))"

text \<open>A handle and a name are the same key in the views \<open>v\<close> and \<open>u\<close> below the key \<open>k\<close> at the place \<open>h\<close>.\<close>

definition one_view :: "windows \<Rightarrow> view \<Rightarrow> view \<Rightarrow> key_path \<Rightarrow> reg_key \<Rightarrow> bool" where
  "one_view w v u h k \<longleftrightarrow>
     (\<forall>q n. get_key (q @ [n]) k \<noteq> None \<longrightarrow> resolve w v (h @ q) [n] = h @ q @ [n] \<and> resolve w u (h @ q) [n] = h @ q @ [n])"

abbreviation emptied :: "reg_key \<Rightarrow> reg_key" where
  "emptied k \<equiv> Key (denied k) (values_of k) []"

lemma size_child: "x \<in> set subs \<Longrightarrow> size (snd x) < size (Key d v subs)"
  by (induction subs) auto

lemma one_view_child:
  assumes "one_view w v u h k" "map_of (subkeys k) n = Some c"
  shows "one_view w v u (h @ [n]) c" "resolve w v h [n] = h @ [n]" "resolve w u h [n] = h @ [n]"
proof -
  show "one_view w v u (h @ [n]) c"
    unfolding one_view_def
  proof (intro allI impI)
    fix q m assume "get_key (q @ [m]) c \<noteq> None"
    then have "get_key ((n # q) @ [m]) k \<noteq> None" using assms(2) by simp
    then have "resolve w v (h @ n # q) [m] = h @ (n # q) @ [m] \<and> resolve w u (h @ n # q) [m] = h @ (n # q) @ [m]"
      using assms(1) unfolding one_view_def by blast
    then show "resolve w v ((h @ [n]) @ q) [m] = (h @ [n]) @ q @ [m] \<and> resolve w u ((h @ [n]) @ q) [m] = (h @ [n]) @ q @ [m]"
      by simp
  qed
  have "get_key ([] @ [n]) k \<noteq> None" using assms(2) by simp
  then have "resolve w v (h @ []) [n] = h @ [] @ [n] \<and> resolve w u (h @ []) [n] = h @ [] @ [n]"
    using assms(1) unfolding one_view_def by blast
  then show "resolve w v h [n] = h @ [n]" "resolve w u h [n] = h @ [n]" by simp_all
qed

lemma one_view_fewer:
  assumes "one_view w v u h (Key d vs subs)" "\<And>n c. map_of subs' n = Some c \<Longrightarrow> map_of subs n = Some c"
  shows "one_view w v u h (Key d vs subs')"
  unfolding one_view_def
proof (intro allI impI)
  fix q n assume a: "get_key (q @ [n]) (Key d vs subs') \<noteq> None"
  have "get_key (q @ [n]) (Key d vs subs) \<noteq> None"
    using a assms(2) by (cases q) (force split: option.splits)+
  then show "resolve w v (h @ q) [n] = h @ q @ [n] \<and> resolve w u (h @ q) [n] = h @ q @ [n]"
    using assms(1) unfolding one_view_def by blast
qed

lemma remove_emptied: "remove_key (h @ [n]) (change_key (h @ [n]) f k) = remove_key (h @ [n]) k"
proof -
  have c: "change_key (h @ [n]) f k = change_key h (change_key [n] f) k" for f
    by (induction h arbitrary: k) (auto split: option.split)
  have "remove_sub n (change_key [n] f c) = remove_sub n c" for c
  proof -
    have "filter (\<lambda>(m, c). m \<noteq> n) (put_sub n x xs) = filter (\<lambda>(m, c). m \<noteq> n) xs" for x xs
      by (induction n x xs rule: put_sub.induct) auto
    then show ?thesis by (auto simp: remove_sub_def split: option.split)
  qed
  then show ?thesis by (simp add: remove_key_def c change_change)
qed

lemma delete_one:
  assumes "get_key p root = Some k" "\<not> denied k" "p = h @ [n]" "resolve w v h' path = p"
  shows "RegDeleteKeyEx w v h' path (change_key p emptied root) = (ERROR_SUCCESS, remove_key p root)"
  using assms by (simp add: RegDeleteKeyEx_def get_change remove_emptied)

lemma delete_loop_all:
  assumes advapi: "advapi32 w" and v: "v = delete_view w prefer"
    and below: "\<And>h root k. get_key h root = Some k \<Longrightarrow> deletable k \<Longrightarrow> one_view w Default_view v h k \<Longrightarrow> size k \<le> n \<Longrightarrow>
      regDeleteSubKeys w prefer n h root = Some (ERROR_SUCCESS, change_key h emptied root)"
  shows "get_key h root = Some (Key d vs subs) \<Longrightarrow> deletable (Key d vs subs) \<Longrightarrow>
    one_view w Default_view v h (Key d vs subs) \<Longrightarrow> size (Key d vs subs) \<le> Suc n \<Longrightarrow>
    delete_loop w prefer n h (length subs) root = Some (ERROR_SUCCESS, change_key h emptied root)"
proof (induction subs arbitrary: root rule: rev_induct)
  case Nil
  then show ?case by (simp add: change_same)
next
  case (snoc x subs)
  obtain name c where x: "x = (name, c)" by (cases x)
  let ?k = "Key d vs (subs @ [x])" and ?p = "h @ [name]"
  have dist: "distinct (map fst subs)" "name \<notin> fst ` set subs" and ok: "length name \<le> 255" "deletable c" "\<not> denied c"
    using snoc.prems(2) by (simp_all add: x) (cases c, simp)
  have "map_of subs name = None" using dist(2) by (simp add: map_of_eq_None_iff)
  then have c: "map_of (subkeys ?k) name = Some c" by (simp add: x map_add_def)
  note V = one_view_child [OF snoc.prems(3) c]
  have p: "get_key ?p root = Some c" using snoc.prems(1) c by (simp add: get_append)
  have "size c < size ?k" using size_child [of x "subs @ [x]" d vs] by (simp add: x)
  then have rec: "regDeleteSubKeys w prefer n ?p root = Some (ERROR_SUCCESS, change_key ?p emptied root)"
    using below [OF p ok(2) V(1)] snoc.prems(4) by simp
  have del: "regDeleteKey32_64 w h (Some [name]) prefer (change_key ?p emptied root) = (ERROR_SUCCESS, remove_key ?p root)"
    using delete_one [OF p ok(3) refl V(3)] advapi by (simp add: regDeleteKey32_64_def v)
  have enum: "RegEnumKey ?k (length subs) 256 = (ERROR_SUCCESS, name)"
    using ok(1) by (simp add: RegEnumKey_def x nth_append)
  have opn: "RegOpenKeyEx w Default_view h [name] root = (ERROR_SUCCESS, ?p)"
    using V(2) p ok(3) by (simp add: RegOpenKeyEx_def Let_def)
  have step: "delete_loop w prefer n h (length (subs @ [x])) root = delete_loop w prefer n h (length subs) (remove_key ?p root)"
    using snoc.prems(1) by (simp add: enum opn rec del)
  have sub: "remove_sub name ?k = Key d vs subs"
  proof -
    have "filter (\<lambda>(m, c). m \<noteq> name) subs = subs" using dist(2) by (force simp: filter_id_conv)
    then show ?thesis by (simp add: remove_sub_def x)
  qed
  have left: "get_key h (remove_key ?p root) = Some (Key d vs subs)"
    using snoc.prems(1) sub by (simp add: remove_key_def get_change)
  have "delete_loop w prefer n h (length subs) (remove_key ?p root) = Some (ERROR_SUCCESS, change_key h emptied (remove_key ?p root))"
  proof (rule snoc.IH [OF left])
    show "deletable (Key d vs subs)" using snoc.prems(2) by simp
    show "one_view w Default_view v h (Key d vs subs)"
      using snoc.prems(3)
      by (rule one_view_fewer) (use dist(2) in \<open>force simp: x map_add_Some_iff dest: map_of_SomeD\<close>)
    show "size (Key d vs subs) \<le> Suc n" using snoc.prems(4) by (simp add: size_list_append)
  qed
  moreover have "change_key h emptied (remove_key ?p root) = change_key h emptied root"
    by (simp add: remove_key_def change_change remove_sub_def)
  ultimately show ?case using step by simp
qed

lemma regDeleteSubKeys_all:
  "advapi32 w \<Longrightarrow> v = delete_view w prefer \<Longrightarrow> get_key h root = Some k \<Longrightarrow> deletable k \<Longrightarrow> one_view w Default_view v h k \<Longrightarrow>
   size k \<le> n \<Longrightarrow> regDeleteSubKeys w prefer n h root = Some (ERROR_SUCCESS, change_key h emptied root)"
proof (induction n arbitrary: h root k)
  case 0
  then show ?case by (cases k) simp
next
  case (Suc n)
  obtain d vs subs where k: "k = Key d vs subs" by (cases k)
  have "delete_loop w prefer n h (length subs) root = Some (ERROR_SUCCESS, change_key h emptied root)"
    by (rule delete_loop_all [OF Suc.prems(1,2) Suc.IH [OF Suc.prems(1,2)]]) (use Suc.prems k in simp_all)
  then show ?case using Suc.prems k by simp
qed

lemma opened_key:
  "get_key p root = Some k \<Longrightarrow> \<not> denied k \<Longrightarrow> resolve w v h path = p \<Longrightarrow> RegOpenKeyEx w v h path root = (ERROR_SUCCESS, p)"
  by (simp add: RegOpenKeyEx_def)

lemma deletable_open: "deletable k \<Longrightarrow> \<not> denied k"
  by (cases k) simp

text \<open>Property C40: \<open>DeleteKey\<close> removes the key with all that is below it, and nothing else: every other key keeps its
  values, its access and the names of its sub-keys, but the key above loses the name of the deleted one. Conditions: no key from it
  downwards is denied, and names in one key differ and have at most 255 characters (\<open>deletable\<close>); the library of the system can be
  loaded; and the views that the code uses agree: the view of the opening (the default one of the process, or that of 64 bits if it is
  preferred) and that of the deletion (of 32 bits, or of 64 bits if it is preferred on a system of 64 bits) find the same key for the
  path, and the default view and that of the deletion the same key for every sub-key below (\<open>one_view\<close>). Without that another key
  may be deleted (\<open>other_view_deleted\<close>). The size of the tree is enough fuel.\<close>

theorem DeleteKey_tree:
  assumes "resolve w (if prefer then View64 else Default_view) h path = target" "resolve w (delete_view w prefer) h path = target"
    and "target \<noteq> []" "get_key target root = Some k" "deletable k" "one_view w Default_view (delete_view w prefer) target k"
    and "advapi32 w" "size k \<le> n"
  shows "\<exists>root'. DeleteKey w n (Some h) (Some path) None prefer root = Some (ERROR_SUCCESS, root') \<and>
    (\<forall>q. prefix target q \<longrightarrow> get_key q root' = None) \<and>
    (\<forall>q. \<not> prefix target q \<longrightarrow> rel_option (same_but target q) (get_key q root) (get_key q root'))"
proof -
  obtain p n' where t: "target = p @ [n']" using assms(3) by (metis append_butlast_last_id)
  note d = deletable_open [OF assms(5)]
  have "regDeleteKey32_64 w h (Some path) prefer (change_key target emptied root) = (ERROR_SUCCESS, remove_key target root)"
    using delete_one [OF assms(4) d t assms(2)] assms(7) by (simp add: regDeleteKey32_64_def)
  then have "DeleteKey w n (Some h) (Some path) None prefer root = Some (ERROR_SUCCESS, remove_key target root)"
    using regDeleteSubKeys_all [OF assms(7) refl assms(4,5,6,8)] opened_key [OF assms(4) d assms(1)]
    by (simp add: DeleteKey_def)
  with get_remove_below [OF assms(3)] get_remove_rel [OF assms(3)] show ?thesis by blast
qed

text \<open>When the views do not agree, the key of the other view is deleted, if there is one without sub-keys: the key that was opened
  stays.\<close>

lemma other_view_deleted:
  assumes "resolve w (if prefer then View64 else Default_view) h path = target" "resolve w (delete_view w prefer) h path = other"
    and "get_key target root = Some (Key False vs [])" "get_key other root = Some (Key False us [])" "other \<noteq> []" "advapi32 w"
  shows "DeleteKey w 1 (Some h) (Some path) None prefer root = Some (ERROR_SUCCESS, remove_key other root)"
  using opened_key [OF assms(3) _ assms(1)] assms
  by (simp add: DeleteKey_def regDeleteKey32_64_def RegDeleteKeyEx_def)

text \<open>The path of every key below fits the buffer, and is the same key in the views \<open>v\<close> and \<open>u\<close>.\<close>

fun fits :: "nat \<Rightarrow> reg_key \<Rightarrow> bool" where
  "fits len (Key d v subs) \<longleftrightarrow>
     subs = [] \<or> (len + 1 < 520 \<and> (\<forall>x \<in> set subs. len + 1 + length (fst x) < 520 \<and> fits (len + 1 + length (fst x)) (snd x)))"

definition one_path :: "windows \<Rightarrow> view \<Rightarrow> view \<Rightarrow> key_path \<Rightarrow> key_path \<Rightarrow> key_path \<Rightarrow> reg_key \<Rightarrow> bool" where
  "one_path w v u h path p k \<longleftrightarrow>
     (\<forall>q. get_key q k \<noteq> None \<longrightarrow> resolve w v h (path @ q) = p @ q \<and> resolve w u h (path @ q) = p @ q)"

lemma one_path_child:
  assumes "one_path w v u h path p k" "map_of (subkeys k) n = Some c"
  shows "one_path w v u h (path @ [n]) (p @ [n]) c"
  unfolding one_path_def
proof (intro allI impI)
  fix q assume "get_key q c \<noteq> None"
  then have "get_key (n # q) k \<noteq> None" using assms(2) by simp
  then have "resolve w v h (path @ n # q) = p @ n # q \<and> resolve w u h (path @ n # q) = p @ n # q"
    using assms(1) unfolding one_path_def by blast
  then show "resolve w v h ((path @ [n]) @ q) = (p @ [n]) @ q \<and> resolve w u h ((path @ [n]) @ q) = (p @ [n]) @ q" by simp
qed

lemma one_path_fewer:
  assumes "one_path w v u h path p (Key d vs subs)" "\<And>n c. map_of subs' n = Some c \<Longrightarrow> map_of subs n = Some c"
  shows "one_path w v u h path p (Key d vs subs')"
  unfolding one_path_def
proof (intro allI impI)
  fix q assume "get_key q (Key d vs subs') \<noteq> None"
  then have "get_key q (Key d vs subs) \<noteq> None"
    using assms(2) by (cases q) (force split: option.splits)+
  then show "resolve w v h (path @ q) = p @ q \<and> resolve w u h (path @ q) = p @ q"
    using assms(1) unfolding one_path_def by blast
qed

abbreviation path_view :: "bool \<Rightarrow> view" where
  "path_view prefer \<equiv> if prefer then View64 else View32"

abbreviation open_view :: "bool \<Rightarrow> view" where
  "open_view prefer \<equiv> if prefer then View64 else Default_view"

lemma recurse_loop_all:
  assumes below: "\<And>path p root k m len. m < n \<Longrightarrow> p \<noteq> [] \<Longrightarrow> get_key p root = Some k \<Longrightarrow> deletable k \<Longrightarrow> fits len k \<Longrightarrow>
      one_path w (path_view prefer) (open_view prefer) h path p k \<Longrightarrow> 2 * size k \<le> m \<Longrightarrow>
      regDelSubKeysRecurse w prefer m h path len root = Done (ERROR_SUCCESS, remove_key p root)"
  shows "m \<le> n \<Longrightarrow> get_key p root = Some (Key d vs subs) \<Longrightarrow> deletable (Key d vs subs) \<Longrightarrow>
    \<forall>x \<in> set subs. len + length (fst x) < 520 \<and> fits (len + length (fst x)) (snd x) \<Longrightarrow>
    one_path w (path_view prefer) (open_view prefer) h path p (Key d vs subs) \<Longrightarrow>
    2 * size (Key d vs subs) \<le> m + 1 \<Longrightarrow>
    recurse_loop w prefer m h path p len root = Done (change_key p emptied root)"
proof (induction subs arbitrary: root m)
  case Nil
  then show ?case by (cases m) (simp_all add: change_same RegEnumKey_def ERROR_NO_MORE_ITEMS_def errors)
next
  case (Cons x subs)
  obtain name c where x: "x = (name, c)" by (cases x)
  obtain m' where m: "m = Suc m'" using Cons.prems(6) by (cases m) simp_all
  let ?k = "Key d vs (x # subs)" and ?p = "p @ [name]"
  have dist: "name \<notin> fst ` set subs" and ok: "length name \<le> 255" "deletable c"
    using Cons.prems(3) by (simp_all add: x)
  have c: "map_of (subkeys ?k) name = Some c" by (simp add: x)
  have p: "get_key ?p root = Some c" using Cons.prems(2) c by (simp add: get_append)
  have len: "len + length name < 520" "fits (len + length name) c" using Cons.prems(4) by (simp_all add: x)
  have rec: "regDelSubKeysRecurse w prefer m' h (path @ [name]) (len + length name) root = Done (ERROR_SUCCESS, remove_key ?p root)"
  proof (rule below [OF _ _ p ok(2) len(2) one_path_child [OF Cons.prems(5) c]])
    show "m' < n" using Cons.prems(1) m by simp
    show "2 * size c \<le> m'" using Cons.prems(6) by (simp add: m x)
  qed simp
  have enum: "RegEnumKey ?k 0 260 = (ERROR_SUCCESS, name)"
    using ok(1) by (simp add: RegEnumKey_def x)
  have step: "recurse_loop w prefer m h path p len root = recurse_loop w prefer m' h path p len (remove_key ?p root)"
    using Cons.prems(2) len(1) by (simp add: m enum rec)
  have "filter (\<lambda>(m, c). m \<noteq> name) subs = subs" using dist by (force simp: filter_id_conv)
  then have left: "get_key p (remove_key ?p root) = Some (Key d vs subs)"
    using Cons.prems(2) by (simp add: remove_key_def get_change remove_sub_def x)
  have "recurse_loop w prefer m' h path p len (remove_key ?p root) = Done (change_key p emptied (remove_key ?p root))"
  proof (rule Cons.IH [OF _ left])
    show "m' \<le> n" using Cons.prems(1) m by simp
    show "deletable (Key d vs subs)" using Cons.prems(3) by simp
    show "\<forall>x \<in> set subs. len + length (fst x) < 520 \<and> fits (len + length (fst x)) (snd x)" using Cons.prems(4) by simp
    show "one_path w (path_view prefer) (open_view prefer) h path p (Key d vs subs)"
      using Cons.prems(5) by (rule one_path_fewer) (use dist in \<open>force simp: x dest: map_of_SomeD\<close>)
    show "2 * size (Key d vs subs) \<le> m' + 1" using Cons.prems(6) by (simp add: m)
  qed
  moreover have "change_key p emptied (remove_key ?p root) = change_key p emptied root"
    by (simp add: remove_key_def change_change remove_sub_def)
  ultimately show ?case using step by simp
qed

lemma regDelSubKeysRecurse_all:
  "p \<noteq> [] \<Longrightarrow> get_key p root = Some k \<Longrightarrow> deletable k \<Longrightarrow> fits len k \<Longrightarrow>
   one_path w (path_view prefer) (open_view prefer) h path p k \<Longrightarrow> 2 * size k \<le> n \<Longrightarrow>
   regDelSubKeysRecurse w prefer n h path len root = Done (ERROR_SUCCESS, remove_key p root)"
proof (induction n arbitrary: path p root k len rule: less_induct)
  case (less n)
  obtain d vs subs where k: "k = Key d vs subs" by (cases k)
  obtain n' where n: "n = Suc n'" using less.prems(6) by (cases n) (simp_all add: k)
  have r: "resolve w (path_view prefer) h path = p" "resolve w (open_view prefer) h path = p"
    using less.prems(5) [unfolded one_path_def, rule_format, of "[]"] by simp_all
  note d = deletable_open [OF less.prems(3)]
  show ?case
  proof (cases "subs = []")
    case True
    then have "RegDeleteKeyEx w (path_view prefer) h path root = (ERROR_SUCCESS, remove_key p root)"
      using less.prems(1,2) d r(1) by (simp add: RegDeleteKeyEx_def k)
    then show ?thesis by (simp add: n)
  next
    case False
    then have refused: "RegDeleteKeyEx w (path_view prefer) h path root = (ERROR_ACCESS_DENIED, root)"
      using less.prems(2) r(1) by (simp add: RegDeleteKeyEx_def k)
    have opn: "RegOpenKeyEx w (open_view prefer) h path root = (ERROR_SUCCESS, p)"
      by (rule opened_key [OF less.prems(2) d r(2)])
    have "recurse_loop w prefer n' h path p (len + 1) root = Done (change_key p emptied root)"
    proof (rule recurse_loop_all [where n = n'])
      show "regDelSubKeysRecurse w prefer m h path len root = Done (ERROR_SUCCESS, remove_key p root)"
        if "m < n'" "p \<noteq> []" "get_key p root = Some k" "deletable k" "fits len k"
          "one_path w (path_view prefer) (open_view prefer) h path p k" "2 * size k \<le> m" for path p root k m len
        using less.IH [of m p root k len path] that n by simp
    qed (use less.prems False in \<open>auto simp: k n\<close>)
    moreover have "RegDeleteKeyEx w (path_view prefer) h path (change_key p emptied root) = (ERROR_SUCCESS, remove_key p root)"
      using delete_one [OF less.prems(2) d _ r(1), of "butlast p" "last p"] less.prems(1) by simp
    moreover have "len + 1 < 520" using less.prems(4) False by (simp add: k)
    ultimately show ?thesis using refused opn by (simp add: n errors Let_def)
  qed
qed

text \<open>\<open>DeleteSubKeys\<close> removes the key with all that is below it, in a tree whose paths fit its buffer and are the same
  keys in the two views that it uses.\<close>

theorem DeleteSubKeys_tree:
  assumes "get_key target root = Some k" "target \<noteq> []" "path \<noteq> []" "path_length path < 520" "deletable k" "fits (path_length path) k"
    "one_path w (path_view prefer) (open_view prefer) h path target k" "2 * size k \<le> n"
  shows "\<exists>root'. DeleteSubKeys w n h path prefer root = Done (ERROR_SUCCESS, root') \<and>
    (\<forall>q. prefix target q \<longrightarrow> get_key q root' = None) \<and>
    (\<forall>q. \<not> prefix target q \<longrightarrow> rel_option (same_but target q) (get_key q root) (get_key q root'))"
  using assms(3,4) regDelSubKeysRecurse_all [OF assms(2,1,5-8)] get_remove_below [OF assms(2)] get_remove_rel [OF assms(2)]
  by (simp add: DeleteSubKeys_def)

text \<open>A path of 519 characters: the separator is stored in the last place and the zero behind the buffer.\<close>

lemma long_path_overruns:
  assumes "resolve w (path_view prefer) h path = p" "resolve w (open_view prefer) h path = p" "get_key p root = Some (Key False vs subs)"
    and "subs \<noteq> []"
  shows "regDelSubKeysRecurse w prefer (Suc n) h path 519 root = Overrun"
  using assms opened_key [OF assms(3) _ assms(2)] by (simp add: RegDeleteKeyEx_def errors Let_def)

text \<open>A sub-key whose name has the longest length is too long for the enumeration, which counts the zero twice.\<close>

lemma getSubKeys_longest:
  assumes "length name = 255"
  shows "getSubKeys (Key d v [(name, k)]) = (ERROR_MORE_DATA, [])"
  using assms by (simp add: getSubKeys_def enum_loop.simps [of _ "Suc 0"] RegEnumKey_def errors)

text \<open>\<open>getSubKeys\<close> gives all names, in order, when none has the longest length.\<close>

lemma enum_loop_names:
  assumes "\<forall>x \<in> set (subkeys k). length (fst x) < 255" "i \<le> length (subkeys k)"
  shows "enum_loop k (length (subkeys k)) i names = (ERROR_SUCCESS, names @ drop i (map fst (subkeys k)))"
  using assms
proof (induction "length (subkeys k) - i" arbitrary: i names)
  case 0
  then show ?case by (subst enum_loop.simps) simp
next
  case (Suc n)
  then have i: "i < length (subkeys k)" by simp
  then have "RegEnumKey k i 255 = (ERROR_SUCCESS, fst (subkeys k ! i))"
    using Suc.prems(1) nth_mem [OF i] by (fastforce simp: RegEnumKey_def Let_def)
  moreover have "drop i (map fst (subkeys k)) = fst (subkeys k ! i) # drop (i + 1) (map fst (subkeys k))"
    using i by (simp add: Cons_nth_drop_Suc [symmetric] drop_map)
  ultimately show ?case
    using i Suc.hyps(1) [of "i + 1" "names @ [fst (subkeys k ! i)]"] Suc.hyps(2) Suc.prems
    by (subst enum_loop.simps) simp
qed

lemma getSubKeys_names: "\<forall>x \<in> set (subkeys k). length (fst x) < 255 \<Longrightarrow> getSubKeys k = (ERROR_SUCCESS, map fst (subkeys k))"
  by (simp add: getSubKeys_def enum_loop_names)

text \<open>A process of 32 bits on a system of 64 bits: the keys of the software are redirected, those of the user are not.\<close>

definition some_windows :: windows where
  "some_windows = \<lparr>resolve = (\<lambda>v h p. if h = [] \<and> v \<noteq> View64 \<and> p \<noteq> [] \<and> hd p = [83] then [[83], [87]] @ tl p else h @ p),
     IsWin64 = True, advapi32 = True, has_RegDeleteKeyEx = True\<rparr>"

abbreviation some_software :: reg_key where
  "some_software \<equiv> Key False Map.empty [([66], Key False Map.empty []), ([67], Key False Map.empty [([68], Key False Map.empty [])])]"

definition some_keys :: reg_key where
  "some_keys = Key False Map.empty
     [([83], Key False Map.empty [([65], Key False Map.empty []), ([87], Key False Map.empty [([65], some_software)])]),
      ([69], Key True Map.empty [])]"

lemma some_software_paths: "get_key q some_software \<noteq> None \<Longrightarrow> q \<in> {[], [[66]], [[67]], [[67], [68]]}"
  by (cases q; cases "tl q"; cases "tl (tl q)") (auto split: if_splits)

lemma some_software_found: "get_key [[83], [87], [65]] some_keys = Some some_software"
  by (simp add: some_keys_def)

theorem DeleteKey_tree_witness:
  "\<exists>root. DeleteKey some_windows 20 (Some []) (Some [[83], [65]]) None False some_keys = Some (ERROR_SUCCESS, root) \<and>
     get_key [[83], [87], [65], [67]] root = None \<and> get_key [[83], [65]] root = Some (Key False Map.empty [])"
proof -
  have one: "one_view some_windows Default_view (delete_view some_windows False) [[83], [87], [65]] some_software"
    by (simp add: one_view_def some_windows_def)
  have "\<exists>root. DeleteKey some_windows 20 (Some []) (Some [[83], [65]]) None False some_keys = Some (ERROR_SUCCESS, root) \<and>
      (\<forall>q. prefix [[83], [87], [65]] q \<longrightarrow> get_key q root = None) \<and>
      (\<forall>q. \<not> prefix [[83], [87], [65]] q \<longrightarrow>
         rel_option (same_but [[83], [87], [65]] q) (get_key q some_keys) (get_key q root))"
    by (rule DeleteKey_tree [OF _ _ _ some_software_found _ one]) (simp_all add: some_windows_def delete_view_def)
  then obtain root where r: "DeleteKey some_windows 20 (Some []) (Some [[83], [65]]) None False some_keys = Some (ERROR_SUCCESS, root)"
    "\<forall>q. prefix [[83], [87], [65]] q \<longrightarrow> get_key q root = None"
    "\<forall>q. \<not> prefix [[83], [87], [65]] q \<longrightarrow> rel_option (same_but [[83], [87], [65]] q) (get_key q some_keys) (get_key q root)"
    by blast
  have "rel_option (same_but [[83], [87], [65]] [[83], [65]]) (Some (Key False Map.empty [])) (get_key [[83], [65]] root)"
    using r(3) [rule_format, of "[[83], [65]]"] by (simp add: some_keys_def)
  then have "get_key [[83], [65]] root = Some (Key False Map.empty [])"
    by (cases "get_key [[83], [65]] root") (auto simp: same_but_def intro: reg_key.expand)
  with r(1) r(2) [rule_format, of "[[83], [87], [65], [67]]"] show ?thesis by (intro exI [of _ root]) simp
qed

text \<open>A process of 64 bits that does not prefer its view opens the one key and deletes the other.\<close>

lemma other_view_deleted_example:
  "DeleteKey (some_windows\<lparr>resolve := \<lambda>v h p. if h = [] \<and> v = View32 \<and> p \<noteq> [] \<and> hd p = [83] then [[83], [87]] @ tl p else h @ p\<rparr>)
     1 (Some []) (Some [[83], [65]]) None False
     (Key False Map.empty [([83], Key False Map.empty [([65], Key False Map.empty []), ([87], Key False Map.empty [([65], Key False Map.empty [])])])])
   = Some (ERROR_SUCCESS,
     Key False Map.empty [([83], Key False Map.empty [([65], Key False Map.empty []), ([87], Key False Map.empty [])])])"
  by (subst other_view_deleted [OF refl refl]) (simp_all add: some_windows_def delete_view_def remove_key_def remove_sub_def)

theorem DeleteSubKeys_tree_witness:
  "\<exists>root. DeleteSubKeys some_windows 40 [] [[83], [65]] False some_keys = Done (ERROR_SUCCESS, root) \<and>
     get_key [[83], [87], [65], [67]] root = None"
proof -
  have one: "one_path some_windows (path_view False) (open_view False) [] [[83], [65]] [[83], [87], [65]] some_software"
    by (simp add: one_path_def some_windows_def)
  have "\<exists>root. DeleteSubKeys some_windows 40 [] [[83], [65]] False some_keys = Done (ERROR_SUCCESS, root) \<and>
      (\<forall>q. prefix [[83], [87], [65]] q \<longrightarrow> get_key q root = None) \<and>
      (\<forall>q. \<not> prefix [[83], [87], [65]] q \<longrightarrow>
         rel_option (same_but [[83], [87], [65]] q) (get_key q some_keys) (get_key q root))"
    by (rule DeleteSubKeys_tree [OF some_software_found _ _ _ _ _ one]) (simp_all add: path_length_def)
  then show ?thesis by (meson prefix_code(3) prefix_code(1))
qed

end
