(* ===== verification/Std_File.thy ===== *)
theory Std_File
  imports Std_String
begin

text \<open>
  Model of \<^verbatim>\<open>src/src/file.cpp\<close>: the object around a stream of the C library on one file. The stream works on the bytes
  of the file directly, and how many of the bytes of a write the system takes is an argument; its buffer is not seen as the object has the only stream on it. The C library leaves a read
  right after a write undefined, and a write right after a read that did not reach the end, unless the position was
  set or the stream flushed in between: \<open>None\<close> is that. Positions are numbers below \<open>2 ^ 63\<close>.
\<close>

section \<open>Streams of the C library\<close>

datatype last_op = Positioned | Was_read | Was_written

record stream =
  s_pos :: nat
  s_read :: bool
  s_write :: bool
  s_append :: bool
  s_last :: last_op

text \<open>The object, with the bytes at its path, or \<open>None\<close> when there is no file, and the rights on it.\<close>

record file_object =
  file_path :: str
  fp :: "stream option"
  disk :: "byte list option"
  may_read :: bool
  may_write :: bool

definition fopen :: "str \<Rightarrow> file_object \<Rightarrow> file_object" where
  "fopen mode this =
     (let plus = (43 \<in> set mode);
          s = \<lparr>s_pos = 0, s_read = (hd mode = 114 \<or> plus), s_write = (hd mode \<noteq> 114 \<or> plus), s_append = (hd mode = 97),
            s_last = Positioned\<rparr>
      in if hd mode \<notin> {114, 119, 97} then this
         else if (s_read s \<and> \<not> may_read this) \<or> (s_write s \<and> \<not> may_write this) then this
         else if hd mode = 114 then if disk this = None then this else this\<lparr>fp := Some s\<rparr>
         else if hd mode = 119 then this\<lparr>fp := Some s, disk := Some []\<rparr>
         else this\<lparr>fp := Some s, disk := Some (case disk this of None \<Rightarrow> [] | Some d \<Rightarrow> d)\<rparr>)"

definition content :: "file_object \<Rightarrow> byte list" where
  "content this = (case disk this of None \<Rightarrow> [] | Some d \<Rightarrow> d)"

definition fseek :: "int \<Rightarrow> stream \<Rightarrow> stream option" where
  "fseek target s = (if 0 \<le> target \<and> target < 2 ^ 63 then Some (s\<lparr>s_pos := nat target, s_last := Positioned\<rparr>) else None)"

text \<open>The outcome is undefined, or the bytes that are read.\<close>

definition fread :: "nat \<Rightarrow> byte list \<Rightarrow> stream \<Rightarrow> (byte list \<times> stream) option" where
  "fread n bs s =
     (if s_last s = Was_written then None
      else if \<not> s_read s then Some ([], s)
      else let d = take n (drop (s_pos s) bs)
           in Some (d, s\<lparr>s_pos := s_pos s + length d, s_last := (if length d < n then Positioned else Was_read)\<rparr>))"

definition write_at :: "nat \<Rightarrow> byte list \<Rightarrow> byte list \<Rightarrow> byte list" where
  "write_at pos data bs = (let bs = bs @ replicate (pos - length bs) 0 in take pos bs @ data @ drop (pos + length data) bs)"

text \<open>\<open>room\<close> is the number of bytes that the system takes before an error, a full disk for instance.\<close>

definition fwrite :: "nat \<Rightarrow> byte list \<Rightarrow> byte list \<Rightarrow> stream \<Rightarrow> (nat \<times> byte list \<times> stream) option" where
  "fwrite room data bs s =
     (if s_last s = Was_read then None
      else if \<not> s_write s then Some (0, bs, s)
      else let pos = (if s_append s then length bs else s_pos s);
               taken = take room data
           in Some (length taken, if taken = [] then bs else write_at pos taken bs,
                    s\<lparr>s_pos := pos + length taken, s_last := Was_written\<rparr>))"

section \<open>The class\<close>

definition File :: "str \<Rightarrow> byte list option \<Rightarrow> bool \<Rightarrow> bool \<Rightarrow> file_object" where
  "File path bytes r w = \<lparr>file_path = path, fp = None, disk = bytes, may_read = r, may_write = w\<rparr>"

definition isOpen :: "file_object \<Rightarrow> bool" where
  "isOpen this \<longleftrightarrow> fp this \<noteq> None"

definition open_file :: "str \<Rightarrow> file_object \<Rightarrow> bool \<times> file_object" where
  "open_file openMode this =
     (if fp this \<noteq> None then (True, this)
      else if file_path this = [] \<or> openMode = [] then (False, this)
      else let this = fopen openMode this in (fp this \<noteq> None, this))"

text \<open>A mode of the other kind of characters is converted first, by the parameter.\<close>

definition open_other :: "('c list \<Rightarrow> str) \<Rightarrow> 'c list \<Rightarrow> file_object \<Rightarrow> bool \<times> file_object" where
  "open_other conv openMode this = open_file (conv openMode) this"

text \<open>The flag is whether \<^verbatim>\<open>fclose\<close> succeeds; the pointer to the stream stays when it does not.\<close>

definition close_file :: "bool \<Rightarrow> file_object \<Rightarrow> bool \<times> file_object" where
  "close_file ok this =
     (case fp this of None \<Rightarrow> (False, this) | Some s \<Rightarrow> (ok, if ok then this\<lparr>fp := None\<rparr> else this))"

definition flush :: "bool \<Rightarrow> file_object \<Rightarrow> bool \<times> file_object" where
  "flush ok this =
     (case fp this of
        None \<Rightarrow> (False, this)
      | Some s \<Rightarrow> (ok, this\<lparr>fp := Some (if s_last s = Was_written then s\<lparr>s_last := Positioned\<rparr> else s)\<rparr>))"

definition isExist :: "file_object \<Rightarrow> bool" where
  "isExist this \<longleftrightarrow> file_path this \<noteq> [] \<and> disk this \<noteq> None"

definition canRW :: "file_object \<Rightarrow> bool" where
  "canRW this \<longleftrightarrow> file_path this \<noteq> [] \<and> disk this \<noteq> None \<and> may_read this \<and> may_write this"

definition fileSize :: "file_object \<Rightarrow> int \<times> file_object" where
  "fileSize this =
     (case fp this of
        None \<Rightarrow> (- 1, this)
      | Some s \<Rightarrow>
          let curPos = s_pos s
          in case fseek (int (length (content this))) s of
               None \<Rightarrow> (- 1, this)
             | Some s \<Rightarrow>
                 let ret = int (s_pos s);
                     s = (case fseek (int curPos) s of None \<Rightarrow> s | Some s \<Rightarrow> s)
                 in (ret, this\<lparr>fp := Some s\<rparr>))"

definition seek_to :: "(stream \<Rightarrow> int) \<Rightarrow> file_object \<Rightarrow> bool \<times> file_object" where
  "seek_to target this =
     (case fp this of
        None \<Rightarrow> (False, this)
      | Some s \<Rightarrow> (case fseek (target s) s of None \<Rightarrow> (False, this) | Some s \<Rightarrow> (True, this\<lparr>fp := Some s\<rparr>)))"

definition seekFromCurrent :: "int \<Rightarrow> file_object \<Rightarrow> bool \<times> file_object" where
  "seekFromCurrent offset this = seek_to (\<lambda>s. int (s_pos s) + offset) this"

definition seekFromBeginning :: "int \<Rightarrow> file_object \<Rightarrow> bool \<times> file_object" where
  "seekFromBeginning offset this = seek_to (\<lambda>s. offset) this"

definition seekFromEnd :: "int \<Rightarrow> file_object \<Rightarrow> bool \<times> file_object" where
  "seekFromEnd offset this = seek_to (\<lambda>s. int (length (content this)) + offset) this"

definition currentPointerPos :: "file_object \<Rightarrow> int" where
  "currentPointerPos this = (case fp this of None \<Rightarrow> - 1 | Some s \<Rightarrow> int (s_pos s))"

text \<open>The bytes that come into the buffer; a null buffer is \<open>buffer = False\<close>.\<close>

definition readFrom :: "bool \<Rightarrow> nat \<Rightarrow> int \<Rightarrow> file_object \<Rightarrow> (byte list \<times> file_object) option" where
  "readFrom buffer needRead off this =
     (case fp this of
        None \<Rightarrow> Some ([], this)
      | Some s \<Rightarrow>
          if \<not> buffer \<or> needRead = 0 then Some ([], this)
          else case (if off \<ge> 0 then fseek off s else Some s) of
                 None \<Rightarrow> Some ([], this)
               | Some s \<Rightarrow> map_option (\<lambda>(d, s). (d, this\<lparr>fp := Some s\<rparr>)) (fread needRead (content this) s))"

definition writeFrom :: "nat \<Rightarrow> byte list option \<Rightarrow> int \<Rightarrow> file_object \<Rightarrow> (nat \<times> file_object) option" where
  "writeFrom room buffer off this =
     (case fp this of
        None \<Rightarrow> Some (0, this)
      | Some s \<Rightarrow>
          (case buffer of
             None \<Rightarrow> Some (0, this)
           | Some data \<Rightarrow>
               if length data = 0 then Some (0, this)
               else case (if off \<ge> 0 then fseek off s else Some s) of
                      None \<Rightarrow> Some (0, this)
                    | Some s \<Rightarrow>
                        map_option (\<lambda>(n, d, s). (n, this\<lparr>fp := Some s, disk := Some d\<rparr>)) (fwrite room data (content this) s)))"

text \<open>The flag says that the vector can be resized; what is in it behind the bytes that were read is zero.\<close>

definition readAll :: "bool \<Rightarrow> file_object \<Rightarrow> (bool \<times> byte list \<times> file_object) option" where
  "readAll room this =
     (case fp this of
        None \<Rightarrow> Some (False, [], this)
      | Some s \<Rightarrow>
          let curPos = s_pos s
          in case fseek (int (length (content this))) s of
               None \<Rightarrow> Some (False, [], this)
             | Some s \<Rightarrow>
                 let size' = s_pos s
                 in case fseek 0 s of
                      None \<Rightarrow> Some (False, [], this\<lparr>fp := Some s\<rparr>)
                    | Some s \<Rightarrow>
                        if \<not> room then Some (False, [], this\<lparr>fp := Some s\<rparr>)
                        else map_option (\<lambda>(d, s).
                          let s = (case fseek (int curPos) s of None \<Rightarrow> s | Some s \<Rightarrow> s)
                          in (length d = size', d @ replicate (size' - length d) 0, this\<lparr>fp := Some s\<rparr>))
                          (fread size' (content this) s))"

definition readAll_string :: "bool \<Rightarrow> file_object \<Rightarrow> (str \<times> file_object) option" where
  "readAll_string room this =
     map_option (\<lambda>(ok, buffer, this). (if \<not> ok then [] else buffer, this)) (readAll room this)"

definition readAll_into :: "bool \<Rightarrow> str \<Rightarrow> file_object \<Rightarrow> (bool \<times> str \<times> file_object) option" where
  "readAll_into room ret this =
     map_option (\<lambda>(ok, buffer, this). if \<not> ok then (False, ret, this) else (True, buffer, this)) (readAll room this)"

section \<open>Properties\<close>

text \<open>A file that fits the positions, and a stream on it with the rights.\<close>

definition stream_on :: "file_object \<Rightarrow> stream \<Rightarrow> bool" where
  "stream_on this s \<longleftrightarrow> fp this = Some s \<and> disk this \<noteq> None \<and> length (content this) < 2 ^ 63 \<and> s_pos s < 2 ^ 63"

lemma content_Some: "disk this = Some d \<Longrightarrow> content this = d"
  by (simp add: content_def)

text \<open>\<open>readAll\<close> gives the whole file, wherever the pointer is, does not move the pointer, and is defined
  after a write too; the size of the file is the number of its bytes.\<close>

theorem readAll_whole:
  assumes "stream_on this s" "s_read s"
  shows "readAll True this = Some (True, content this, this\<lparr>fp := Some (s\<lparr>s_last := Positioned\<rparr>)\<rparr>) \<and>
    fileSize this = (int (length (content this)), this\<lparr>fp := Some (s\<lparr>s_last := Positioned\<rparr>)\<rparr>)"
  using assms by (simp add: stream_on_def readAll_def fileSize_def fseek_def fread_def Let_def)

lemma length_write_at: "length (write_at pos data bs) = max (length bs) (pos + length data)"
  by (simp add: write_at_def Let_def)

lemma write_at_read: "take (length data) (drop pos (write_at pos data bs)) = data"
  by (simp add: write_at_def Let_def)

lemma write_at_other:
  "i < length bs \<Longrightarrow> i < pos \<or> pos + length data \<le> i \<Longrightarrow> write_at pos data bs ! i = bs ! i"
  by (auto simp: write_at_def Let_def nth_append)

lemma read_at:
  assumes "fp t = Some st" "s_read st" "0 \<le> off" "off < 2 ^ 63"
  shows "\<exists>t'. readFrom True n off t = Some (take n (drop (nat off) (content t)), t') \<and> content t' = content t"
  using assms by (cases "n = 0") (auto simp: readFrom_def fseek_def fread_def content_def Let_def)

text \<open>Property C38: \<open>writeFrom\<close> returns the number of the bytes that the system took, all of them when it has the room; these
  are read at the place where they were written, with the position set for both; the other bytes of the file stay, and a gap is
  filled with zeros. When nothing is taken the file is as before. The stream is open for reading and writing and not in append mode.\<close>

theorem writeFrom_readFrom:
  assumes "stream_on this s" "s_read s" "s_write s" "\<not> s_append s" "data \<noteq> []" "0 \<le> off" "off < 2 ^ 63"
    and "n = min room (length data)"
  shows "\<exists>this'. writeFrom room (Some data) off this = Some (n, this') \<and>
    (\<exists>this''. readFrom True n off this' = Some (take n data, this'') \<and> content this'' = content this') \<and>
    (if n = 0 then content this' = content this
     else length (content this') = max (length (content this)) (nat off + n) \<and>
       (\<forall>i < length (content this'). i < nat off \<or> nat off + n \<le> i \<longrightarrow>
         content this' ! i = (if i < length (content this) then content this ! i else 0)))"
proof -
  let ?w = "take n data"
  let ?d = "if ?w = [] then content this else write_at (nat off) ?w (content this)"
  let ?s = "s\<lparr>s_pos := nat off + n, s_last := Was_written\<rparr>"
  let ?t = "this\<lparr>fp := Some ?s, disk := Some ?d\<rparr>"
  have n: "take room data = ?w" "length ?w = n" "?w = [] \<longleftrightarrow> n = 0" "min (length data) n = n"
    using assms(5,8) by (auto simp: min_def)
  have w: "writeFrom room (Some data) off this = Some (n, ?t)"
    using assms(1,3-7) by (simp add: stream_on_def writeFrom_def fseek_def fwrite_def Let_def n(1,4))
  have c: "content ?t = ?d" by (simp add: content_def)
  have r: "\<exists>this''. readFrom True n off ?t = Some (?w, this'') \<and> content this'' = content ?t"
  proof -
    have "take n (drop (nat off) ?d) = ?w" using write_at_read [of ?w "nat off" "content this"] n by simp
    then show ?thesis using read_at [of ?t ?s off n] assms(2,6,7) unfolding c by simp
  qed
  have "content ?t ! i = (if i < length (content this) then content this ! i else 0)"
    if "n \<noteq> 0" "i < length (content ?t)" "i < nat off \<or> nat off + n \<le> i" for i
    using that n write_at_other [of i "content this" "nat off" ?w] unfolding c
    by (auto simp: length_write_at) (auto simp: write_at_def Let_def nth_append)
  moreover have "n \<noteq> 0 \<Longrightarrow> length (content ?t) = max (length (content this)) (nat off + n)"
    "n = 0 \<Longrightarrow> content ?t = content this"
    unfolding c using n by (simp_all add: length_write_at)
  ultimately show ?thesis using w r by (intro exI [of _ ?t]) auto
qed

text \<open>In the append modes a write goes to the end of the file, whatever place is asked for.\<close>

theorem writeFrom_appends:
  assumes "stream_on this s" "s_write s" "s_append s" "data \<noteq> []" "0 \<le> off" "off < 2 ^ 63"
  shows "\<exists>this'. writeFrom room (Some data) off this = Some (min room (length data), this') \<and>
    content this' = content this @ take room data"
  using assms
  by (simp add: stream_on_def writeFrom_def fseek_def fwrite_def write_at_def content_def [of "_\<lparr>disk := _\<rparr>"] Let_def min.commute)

lemma opened_rw: "path \<noteq> [] \<Longrightarrow> open_file [119, 43] (File path d True True) =
    (True, \<lparr>file_path = path, fp = Some \<lparr>s_pos = 0, s_read = True, s_write = True, s_append = False, s_last = Positioned\<rparr>,
      disk = Some [], may_read = True, may_write = True\<rparr>)"
  by (simp add: open_file_def File_def fopen_def)

text \<open>Without a position a read right after a write is undefined.\<close>

lemma read_after_write:
  assumes "stream_on this s" "s_write s" "s_last s \<noteq> Was_read" "data \<noteq> []" "writeFrom room (Some data) (- 1) this = Some (n, this')"
    "0 < k"
  shows "readFrom True k (- 1) this' = None"
  using assms by (auto simp: stream_on_def writeFrom_def fwrite_def readFrom_def fread_def Let_def)

section \<open>Witnesses\<close>

text \<open>A file of three bytes opened for reading and writing, \<^verbatim>\<open>r+\<close>, and for appending, \<^verbatim>\<open>a+\<close>.\<close>

definition opened :: "str \<Rightarrow> file_object" where
  "opened mode = snd (open_file mode (File [102] (Some [1, 2, 3]) True True))"

definition a_stream :: "bool \<Rightarrow> stream" where
  "a_stream app = \<lparr>s_pos = 0, s_read = True, s_write = True, s_append = app, s_last = Positioned\<rparr>"

lemma opened_simps:
  "opened [114, 43] = \<lparr>file_path = [102], fp = Some (a_stream False), disk = Some [1, 2, 3], may_read = True, may_write = True\<rparr>"
  "opened [97, 43] = \<lparr>file_path = [102], fp = Some (a_stream True), disk = Some [1, 2, 3], may_read = True, may_write = True\<rparr>"
  by (simp_all add: opened_def open_file_def File_def fopen_def a_stream_def)

lemma opened_stream: "stream_on (opened [114, 43]) (a_stream False)" "stream_on (opened [97, 43]) (a_stream True)"
  by (simp_all add: opened_simps stream_on_def content_def a_stream_def)

theorem readAll_whole_witness:
  "readAll True (opened [114, 43]) = Some (True, [1, 2, 3], opened [114, 43]) \<and> fst (fileSize (opened [114, 43])) = 3"
  using readAll_whole [OF opened_stream(1)] by (simp add: opened_simps content_def a_stream_def)

theorem writeFrom_readFrom_witness:
  "(\<exists>this'. writeFrom 9 (Some [7, 8]) 5 (opened [114, 43]) = Some (2, this') \<and> length (content this') = 7) \<and>
   (\<exists>this'. writeFrom 1 (Some [7, 8]) 5 (opened [114, 43]) = Some (1, this') \<and> length (content this') = 6)"
  using writeFrom_readFrom [OF opened_stream(1), of "[7, 8]" 5 2 9] writeFrom_readFrom [OF opened_stream(1), of "[7, 8]" 5 1 1]
  by (auto simp: a_stream_def opened_simps content_def)

theorem writeFrom_appends_witness:
  "\<exists>this'. writeFrom 9 (Some [7, 8]) 0 (opened [97, 43]) = Some (2, this') \<and> content this' = [1, 2, 3, 7, 8]"
  using writeFrom_appends [OF opened_stream(2), of "[7, 8]" 0 9] by (simp add: numeral_2_eq_2 a_stream_def opened_simps content_def)

end
