(* ===== verification/Sha2_Constants.thy ===== *)
theory Sha2_Constants
  imports Sha256 Sha512
begin

text \<open>
  The tables and initial values of the SHA-2 family, which the code and the reference share, are the ones of FIPS 180-4: the first
  bits of the fractional parts of the cube roots of the first primes, and of the square roots of the first eight.
\<close>

text \<open>\<open>k\<close> is the fractional part of the root of order \<open>e\<close> of \<open>p\<close>, cut to \<open>w\<close> bits; \<open>a\<close> is the integral part.\<close>

definition root_bits :: "nat \<Rightarrow> nat \<Rightarrow> int \<Rightarrow> int \<Rightarrow> bool" where
  "root_bits e w p k \<longleftrightarrow> 0 \<le> k \<and> k < 2 ^ w \<and>
     list_ex (\<lambda>a. let c = a * 2 ^ w + k in c ^ e \<le> p * 2 ^ (e * w) \<and> p * 2 ^ (e * w) < (c + 1) ^ e) [1, 2, 3, 4, 5, 6, 7]"

definition first_primes :: "int list" where
  "first_primes = [
    2, 3, 5, 7, 11, 13, 17, 19, 23, 29, 31, 37, 41, 43, 47, 53, 59, 61, 67, 71, 73, 79, 83, 89, 97, 101,
    103, 107, 109, 113, 127, 131, 137, 139, 149, 151, 157, 163, 167, 173, 179, 181, 191, 193, 197, 199,
    211, 223, 227, 229, 233, 239, 241, 251, 257, 263, 269, 271, 277, 281, 283, 293, 307, 311, 313, 317,
    331, 337, 347, 349, 353, 359, 367, 373, 379, 383, 389, 397, 401, 409]"

lemma sha512_constants:
  "list_all2 (root_bits 3 64) first_primes (map uint sha512_K)"
  "list_all2 (root_bits 2 64) (take 8 first_primes) (map uint sha512_H0)"
  by code_simp+

lemma sha256_constants:
  "list_all2 (root_bits 3 32) (take 64 first_primes) (map uint sha256_K)"
  "list_all2 (root_bits 2 32) (take 8 first_primes) (map uint sha256_H0)"
  by code_simp+

end
