(* ===== verification/Loop_Thread.thy ===== *)
theory Loop_Thread
  imports Transition
begin

text \<open>
  Model of \<^verbatim>\<open>src/src/thread.cpp\<close> and \<^verbatim>\<open>src/include/ashe/thread.h\<close>: the owner of a \<^verbatim>\<open>Thread\<close> object and the thread it
  starts, as steps of one machine. The flag \<open>self_quit\<close> says whether the message loop may also end without the task
  that \<^verbatim>\<open>stopSoon\<close> posts: a delegate that returns, or a task that quits the loop.
\<close>

section \<open>The machine\<close>

datatype thread_state = STARTING | STARTED | STOPPING | STOPPED

text \<open>Where the owner is: outside of a call, in the wait of \<^verbatim>\<open>start\<close>, in \<^verbatim>\<open>stopSoon\<close> behind the test of the pointer to the
  loop, with the call of \<^verbatim>\<open>stop\<close> that goes on with the join or without, or in the join.\<close>

datatype owner_pos = Outside | Waiting_running | Loop_seen bool | Joining

text \<open>Where the thread is: there is none, it is at its begin, it has set the pointer to its loop, it runs the loop, the loop
  has ended, the flag is reset, it has ended.\<close>

datatype child_pos = No_thread | Begun | Pointer_set | Running_loop | Loop_ended | Flag_reset | Ended

record loop_thread =
  t_state :: thread_state
  running :: bool
  messageLoop :: bool
  quit_posted :: bool
  owner :: owner_pos
  child :: child_pos
  fault :: bool

definition Thread_new :: loop_thread where
  "Thread_new = \<lparr>t_state = STOPPED, running = False, messageLoop = False, quit_posted = False, owner = Outside,
    child = No_thread, fault = False\<rparr>"

section \<open>The steps\<close>

text \<open>A thread object that can still be joined must not be assigned.\<close>

definition start_begin :: "loop_thread \<Rightarrow> loop_thread" where
  "start_begin t =
     (if child t \<noteq> No_thread then t\<lparr>fault := True\<rparr> else t\<lparr>t_state := STARTING, child := Begun, owner := Waiting_running\<rparr>)"

definition start_end :: "loop_thread \<Rightarrow> loop_thread option" where
  "start_end t = (if running t then Some (t\<lparr>t_state := STARTED, owner := Outside\<rparr>) else None)"

definition after_stopSoon :: "bool \<Rightarrow> loop_thread \<Rightarrow> loop_thread" where
  "after_stopSoon joins t = t\<lparr>owner := (if joins then Joining else Outside)\<rparr>"

definition stopSoon_begin :: "bool \<Rightarrow> loop_thread \<Rightarrow> loop_thread" where
  "stopSoon_begin joins t =
     (if t_state t = STOPPING \<or> \<not> messageLoop t then after_stopSoon joins t else t\<lparr>owner := Loop_seen joins\<rparr>)"

text \<open>The pointer is read again; it must not be null then.\<close>

definition stopSoon_post :: "bool \<Rightarrow> loop_thread \<Rightarrow> loop_thread" where
  "stopSoon_post joins t =
     (let t = t\<lparr>t_state := STOPPING\<rparr>
      in if messageLoop t then after_stopSoon joins (t\<lparr>quit_posted := True\<rparr>) else t\<lparr>fault := True\<rparr>)"

definition stop_begin :: "loop_thread \<Rightarrow> loop_thread" where
  "stop_begin t = (if t_state t = STOPPED then t else stopSoon_begin True t)"

definition join_end :: "loop_thread \<Rightarrow> loop_thread option" where
  "join_end t =
     (if t_state t = STOPPED then Some (t\<lparr>owner := Outside\<rparr>)
      else if child t = Ended then Some (t\<lparr>t_state := STOPPED, child := No_thread, owner := Outside\<rparr>) else None)"

text \<open>The thread. The loop and what was posted to it are gone when it has returned.\<close>

definition thread_step :: "bool \<Rightarrow> loop_thread \<Rightarrow> loop_thread option" where
  "thread_step self_quit t =
     (case child t of
        No_thread \<Rightarrow> None
      | Begun \<Rightarrow> Some (t\<lparr>messageLoop := True, child := Pointer_set\<rparr>)
      | Pointer_set \<Rightarrow> Some (t\<lparr>running := True, child := Running_loop\<rparr>)
      | Running_loop \<Rightarrow> if quit_posted t \<or> self_quit then Some (t\<lparr>quit_posted := False, child := Loop_ended\<rparr>) else None
      | Loop_ended \<Rightarrow> Some (t\<lparr>running := False, child := Flag_reset\<rparr>)
      | Flag_reset \<Rightarrow> Some (t\<lparr>messageLoop := False, quit_posted := False, child := Ended\<rparr>)
      | Ended \<Rightarrow> None)"

datatype thread_label = Calls_start | Start_returns | Calls_stopSoon | Calls_stop | Posts | Join_returns | Thread_runs

text \<open>The owner calls \<^verbatim>\<open>start\<close> only on a stopped object.\<close>

inductive thread_machine :: "bool \<Rightarrow> loop_thread \<Rightarrow> thread_label \<Rightarrow> loop_thread \<Rightarrow> bool" where
  calls_start: "owner t = Outside \<Longrightarrow> t_state t = STOPPED \<Longrightarrow> thread_machine sq t Calls_start (start_begin t)"
| start_returns: "owner t = Waiting_running \<Longrightarrow> start_end t = Some t' \<Longrightarrow> thread_machine sq t Start_returns t'"
| calls_stopSoon: "owner t = Outside \<Longrightarrow> thread_machine sq t Calls_stopSoon (stopSoon_begin False t)"
| calls_stop: "owner t = Outside \<Longrightarrow> thread_machine sq t Calls_stop (stop_begin t)"
| posts: "owner t = Loop_seen joins \<Longrightarrow> thread_machine sq t Posts (stopSoon_post joins t)"
| join_returns: "owner t = Joining \<Longrightarrow> join_end t = Some t' \<Longrightarrow> thread_machine sq t Join_returns t'"
| thread_runs: "thread_step sq t = Some t' \<Longrightarrow> thread_machine sq t Thread_runs t'"

inductive_cases thread_machineE: "thread_machine sq t l t'"

section \<open>The invariant\<close>

definition in_loop :: "loop_thread \<Rightarrow> bool" where
  "in_loop t \<longleftrightarrow> child t = Running_loop \<and> running t \<and> messageLoop t"

text \<open>With a loop that only ends when it is told to.\<close>

definition thread_inv :: "loop_thread \<Rightarrow> bool" where
  "thread_inv t \<longleftrightarrow> \<not> fault t \<and>
     (t_state t = STOPPED \<longrightarrow> owner t = Outside \<and> child t = No_thread \<and> \<not> quit_posted t) \<and>
     (child t = No_thread \<longrightarrow> t_state t = STOPPED) \<and> (quit_posted t \<longrightarrow> child t = Running_loop) \<and>
     (messageLoop t \<longleftrightarrow> child t \<in> {Pointer_set, Running_loop, Loop_ended, Flag_reset}) \<and>
     (running t \<longleftrightarrow> child t \<in> {Running_loop, Loop_ended}) \<and>
     (t_state t = STARTING \<longleftrightarrow> owner t = Waiting_running) \<and>
     (t_state t = STARTING \<longrightarrow> child t \<in> {Begun, Pointer_set, Running_loop} \<and> \<not> quit_posted t) \<and>
     (t_state t = STARTED \<longrightarrow> child t = Running_loop \<and> \<not> quit_posted t) \<and>
     (owner t = Joining \<longrightarrow> t_state t = STOPPING) \<and>
     (t_state t = STOPPING \<longrightarrow> (child t = Running_loop \<longrightarrow> quit_posted t) \<and>
        child t \<in> {Running_loop, Loop_ended, Flag_reset, Ended} \<and> owner t \<in> {Outside, Joining}) \<and>
     (\<forall>joins. owner t = Loop_seen joins \<longrightarrow> t_state t = STARTED)"

lemmas thread_simps = start_begin_def start_end_def after_stopSoon_def stopSoon_begin_def stopSoon_post_def stop_begin_def
  join_end_def thread_step_def Let_def

lemma inv_start_begin: "thread_inv t \<Longrightarrow> t_state t = STOPPED \<Longrightarrow> thread_inv (start_begin t)"
  by (simp add: thread_inv_def thread_simps)

lemma inv_start_end: "thread_inv t \<Longrightarrow> owner t = Waiting_running \<Longrightarrow> start_end t = Some t' \<Longrightarrow> thread_inv t'"
  by (cases "child t") (auto simp: thread_inv_def thread_simps split: if_splits)

lemma inv_stopSoon_begin: "thread_inv t \<Longrightarrow> owner t = Outside \<Longrightarrow> t_state t \<noteq> STOPPED \<or> \<not> joins \<Longrightarrow> thread_inv (stopSoon_begin joins t)"
  by (cases "t_state t"; cases "child t"; simp add: thread_inv_def thread_simps)

lemma inv_stop_begin: "thread_inv t \<Longrightarrow> owner t = Outside \<Longrightarrow> thread_inv (stop_begin t)"
  using inv_stopSoon_begin [of t True] by (simp add: stop_begin_def)

lemma inv_stopSoon_post: "thread_inv t \<Longrightarrow> owner t = Loop_seen joins \<Longrightarrow> thread_inv (stopSoon_post joins t)"
  by (cases "t_state t"; cases "child t"; simp add: thread_inv_def thread_simps)

lemma inv_join_end: "thread_inv t \<Longrightarrow> owner t = Joining \<Longrightarrow> join_end t = Some t' \<Longrightarrow> thread_inv t'"
  by (cases "t_state t"; cases "child t") (auto simp: thread_inv_def thread_simps split: if_splits)

lemma inv_thread_step: "thread_inv t \<Longrightarrow> thread_step False t = Some t' \<Longrightarrow> thread_inv t'"
  by (cases "t_state t"; cases "child t"; cases "owner t") (auto simp: thread_inv_def thread_simps split: if_splits)

lemma thread_inv_step: "thread_inv t \<Longrightarrow> thread_machine False t l t' \<Longrightarrow> thread_inv t'"
  by (erule thread_machineE)
    (blast intro: inv_start_begin inv_start_end inv_stopSoon_begin inv_stop_begin inv_stopSoon_post inv_join_end inv_thread_step)+

interpretation lt: state_machine "\<lambda>t. t = Thread_new" "thread_machine False" thread_inv
  by unfold_locales (simp add: thread_inv_def Thread_new_def, rule thread_inv_step)

section \<open>Properties\<close>

lemma stopped_new: "thread_inv t \<Longrightarrow> t_state t = STOPPED \<Longrightarrow> t = Thread_new"
  by (rule loop_thread.equality) (simp_all add: thread_inv_def Thread_new_def)

text \<open>when the loop ends only on demand, no pointer to a loop that is gone is used and no running thread is overwritten;
  a stopped object is as it was when it was new.\<close>

theorem thread_stop_resets:
  assumes "reachable (\<lambda>t. t = Thread_new) (thread_machine False) t"
  shows "\<not> fault t \<and> (t_state t = STOPPED \<longrightarrow> t = Thread_new)"
  using lt.inv_reachable [OF assms] stopped_new [of t] unfolding thread_inv_def [of t] by blast

text \<open>What is left to do until the owner is outside of a call.\<close>

fun owner_rank :: "owner_pos \<Rightarrow> nat" where
  "owner_rank Outside = 0"
| "owner_rank Joining = 1"
| "owner_rank (Loop_seen _) = 2"
| "owner_rank Waiting_running = 3"

fun child_rank :: "child_pos \<Rightarrow> nat" where
  "child_rank No_thread = 0"
| "child_rank Ended = 1"
| "child_rank Flag_reset = 2"
| "child_rank Loop_ended = 3"
| "child_rank Running_loop = 4"
| "child_rank Pointer_set = 5"
| "child_rank Begun = 6"

definition rank :: "loop_thread \<Rightarrow> nat" where
  "rank t = owner_rank (owner t) + child_rank (child t)"

lemma some_step:
  assumes "thread_inv t" "owner t \<noteq> Outside"
  shows "\<exists>l t'. thread_machine False t l t'"
proof (cases "thread_step False t")
  case (Some t')
  then show ?thesis by (blast intro: thread_runs)
next
  case None
  then have c: "child t = No_thread \<or> child t = Ended \<or> (child t = Running_loop \<and> \<not> quit_posted t)"
    by (auto simp: thread_step_def split: child_pos.splits if_splits)
  show ?thesis
  proof (cases "owner t")
    case Waiting_running
    with c assms(1) have "running t" by (auto simp: thread_inv_def)
    then have "start_end t = Some (t\<lparr>t_state := STARTED, owner := Outside\<rparr>)" by (simp add: start_end_def)
    with Waiting_running show ?thesis by (blast intro: start_returns)
  next
    case (Loop_seen joins)
    then show ?thesis by (blast intro: posts)
  next
    case Joining
    with c assms(1) have "child t = Ended" "t_state t = STOPPING" by (auto simp: thread_inv_def)
    then have "join_end t = Some (t\<lparr>t_state := STOPPED, child := No_thread, owner := Outside\<rparr>)" by (simp add: join_end_def)
    with Joining show ?thesis by (blast intro: join_returns)
  qed (use assms(2) in simp)
qed

lemma rank_thread_step: "thread_step sq t = Some t' \<Longrightarrow> rank t' < rank t"
  by (cases "child t") (auto simp: rank_def thread_step_def split: if_splits)

lemma rank_posts: "thread_inv t \<Longrightarrow> owner t = Loop_seen joins \<Longrightarrow> rank (stopSoon_post joins t) < rank t"
  by (simp add: thread_inv_def rank_def stopSoon_post_def after_stopSoon_def Let_def)

lemma rank_start: "start_end t = Some t' \<Longrightarrow> owner t = Waiting_running \<Longrightarrow> rank t' < rank t"
  by (auto simp: rank_def start_end_def split: if_splits)

lemma rank_join: "join_end t = Some t' \<Longrightarrow> owner t = Joining \<Longrightarrow> rank t' < rank t"
  by (auto simp: rank_def join_end_def split: if_splits)

lemma rank_step:
  assumes "thread_inv t" "owner t \<noteq> Outside" "thread_machine False t l t'"
  shows "rank t' < rank t"
  using assms(3)
proof (cases rule: thread_machine.cases)
  case (posts joins)
  with rank_posts [OF assms(1)] show ?thesis by simp
qed (use assms(2) rank_thread_step rank_start rank_join in simp_all)

text \<open>\<open>start\<close>, \<open>stopSoon\<close> and \<open>stop\<close> return: while the owner is inside of one something can be done, and whatever is
  done brings its end nearer.\<close>

theorem thread_calls_return:
  assumes "reachable (\<lambda>t. t = Thread_new) (thread_machine False) t" "owner t \<noteq> Outside"
  shows "(\<exists>l t'. thread_machine False t l t') \<and> (\<forall>l t'. thread_machine False t l t' \<longrightarrow> rank t' < rank t)"
  using some_step rank_step lt.inv_reachable [OF assms(1)] assms(2) by blast

section \<open>A loop that ends by itself\<close>

definition do_step :: "bool \<Rightarrow> loop_thread \<Rightarrow> thread_label \<Rightarrow> loop_thread option" where
  "do_step sq t l =
     (case l of
        Calls_start \<Rightarrow> if owner t = Outside \<and> t_state t = STOPPED then Some (start_begin t) else None
      | Start_returns \<Rightarrow> if owner t = Waiting_running then start_end t else None
      | Calls_stopSoon \<Rightarrow> if owner t = Outside then Some (stopSoon_begin False t) else None
      | Calls_stop \<Rightarrow> if owner t = Outside then Some (stop_begin t) else None
      | Posts \<Rightarrow> (case owner t of Loop_seen joins \<Rightarrow> Some (stopSoon_post joins t) | _ \<Rightarrow> None)
      | Join_returns \<Rightarrow> if owner t = Joining then join_end t else None
      | Thread_runs \<Rightarrow> thread_step sq t)"

lemma thread_machine_do_step: "thread_machine sq t l t' \<longleftrightarrow> do_step sq t l = Some t'"
proof
  assume "thread_machine sq t l t'"
  then show "do_step sq t l = Some t'" by (cases rule: thread_machine.cases) (simp_all add: do_step_def)
next
  assume "do_step sq t l = Some t'"
  then show "thread_machine sq t l t'"
    by (cases l) (auto simp: do_step_def intro: thread_machine.intros split: if_splits owner_pos.splits)
qed

fun play :: "bool \<Rightarrow> loop_thread \<Rightarrow> thread_label list \<Rightarrow> loop_thread option" where
  "play sq t [] = Some t"
| "play sq t (l # ls) = Option.bind (do_step sq t l) (\<lambda>t. play sq t ls)"

lemma play_run: "play sq t ls = Some t' \<Longrightarrow> run (thread_machine sq) t ls t'"
  by (induction ls arbitrary: t) (auto simp: run_Cons_iff thread_machine_do_step bind_eq_Some_conv)

lemma play_reachable: "play sq Thread_new ls = Some t \<Longrightarrow> reachable (\<lambda>t. t = Thread_new) (thread_machine sq) t"
  by (rule reachable_run [OF reachable_init play_run]) simp_all

text \<open>When the loop ends before \<open>start\<close> has looked at the flag, \<open>start\<close> waits forever.\<close>

definition lost_start :: loop_thread where
  "lost_start = Thread_new\<lparr>t_state := STARTING, owner := Waiting_running, child := Ended\<rparr>"

lemma start_waits_forever:
  "reachable (\<lambda>t. t = Thread_new) (thread_machine True) lost_start \<and> (\<forall>l t'. \<not> thread_machine True lost_start l t')"
proof
  have "play True Thread_new [Calls_start, Thread_runs, Thread_runs, Thread_runs, Thread_runs, Thread_runs] = Some lost_start"
    by (simp add: do_step_def thread_simps Thread_new_def lost_start_def)
  then show "reachable (\<lambda>t. t = Thread_new) (thread_machine True) lost_start" by (rule play_reachable)
  have "do_step True lost_start l = None" for l
    by (cases l) (simp_all add: do_step_def thread_simps Thread_new_def lost_start_def)
  then show "\<forall>l t'. \<not> thread_machine True lost_start l t'" by (simp add: thread_machine_do_step)
qed

text \<open>When the loop ends between the two looks of \<open>stopSoon\<close> at the pointer, the null pointer is used.\<close>

definition null_used :: loop_thread where
  "null_used = Thread_new\<lparr>t_state := STOPPING, owner := Loop_seen True, child := Ended, fault := True\<rparr>"

lemma stop_uses_null: "reachable (\<lambda>t. t = Thread_new) (thread_machine True) null_used \<and> fault null_used"
proof
  have "play True Thread_new [Calls_start, Thread_runs, Thread_runs, Start_returns, Calls_stop, Thread_runs, Thread_runs,
      Thread_runs, Posts] = Some null_used"
    by (simp add: do_step_def thread_simps Thread_new_def null_used_def)
  then show "reachable (\<lambda>t. t = Thread_new) (thread_machine True) null_used" by (rule play_reachable)
qed (simp add: null_used_def)

section \<open>Witnesses\<close>

definition stopping :: loop_thread where
  "stopping = Thread_new\<lparr>t_state := STOPPING, owner := Joining, child := Running_loop, running := True, messageLoop := True,
     quit_posted := True\<rparr>"

lemma stopping_reachable: "reachable (\<lambda>t. t = Thread_new) (thread_machine False) stopping"
  by (rule play_reachable [of _ "[Calls_start, Thread_runs, Thread_runs, Start_returns, Calls_stop, Posts]"])
    (simp add: do_step_def thread_simps Thread_new_def stopping_def)

theorem thread_stop_resets_witness: "\<not> fault stopping"
  using thread_stop_resets [OF stopping_reachable] by simp

theorem thread_calls_return_witness: "\<exists>l t. thread_machine False stopping l t \<and> rank t < rank stopping"
  using thread_calls_return [OF stopping_reachable] by (auto simp: stopping_def)

end
