(* ===== verification/Task_Fifo.thy ===== *)
theory Task_Fifo
  imports Transition
begin

text \<open>
  What the components that run tasks have in common: tasks are accepted at one end of a queue and started
  from the other. From the law of a single step follows the order over whole runs.
\<close>

locale task_fifo = state_machine init step inv
  for init :: "'s \<Rightarrow> bool" and step :: "'s \<Rightarrow> 'l \<Rightarrow> 's \<Rightarrow> bool" and inv :: "'s \<Rightarrow> bool" +
  fixes accepted started :: "'l \<Rightarrow> 't list"
    and pending :: "'s \<Rightarrow> 't list"
    and drops :: "'l \<Rightarrow> bool"
  assumes fifo_step: "inv s \<Longrightarrow> step s l s' \<Longrightarrow> \<not> drops l \<Longrightarrow> pending s @ accepted l = started l @ pending s'"
begin

lemma fifo_run:
  "run step s ls s' \<Longrightarrow> inv s \<Longrightarrow> \<forall>l \<in> set ls. \<not> drops l \<Longrightarrow>
   pending s @ concat (map accepted ls) = concat (map started ls) @ pending s'"
proof (induction rule: run.induct)
  case (run_Cons s l s' ls s'')
  then have "pending s @ accepted l = started l @ pending s'" using fifo_step by simp
  then have "pending s @ accepted l @ concat (map accepted ls) = started l @ pending s' @ concat (map accepted ls)"
    by (metis append.assoc)
  then show ?case using run_Cons inv_step by simp
qed simp

text \<open>Started tasks come in the order in which they were accepted.\<close>

lemma fifo_order:
  "run step s ls s' \<Longrightarrow> inv s \<Longrightarrow> \<forall>l \<in> set ls. \<not> drops l \<Longrightarrow> pending s = [] \<Longrightarrow>
   \<exists>rest. concat (map accepted ls) = concat (map started ls) @ rest"
  using fifo_run by fastforce

end

end
