(* ===== verification/Message_Loop.thy ===== *)
theory Message_Loop
  imports Task_Fifo "HOL-Library.Multiset"
begin

text \<open>
  Model of the message loop: \<^verbatim>\<open>src/src/message_loop/message_loop.cpp\<close>, \<^verbatim>\<open>pending_task.cpp\<close> and
  \<^verbatim>\<open>message_pump_default.cpp\<close>. The loop runs tasks on its own thread; any thread posts. Queues that only the
  loop uses are changed by functions, each locked section is a step, and the pump is a program with
  explicit positions; the condition variable of the pump is modelled with its notifications, spurious wake-ups and
  time-outs. Time is a natural number of nanoseconds, and 0 is \<open>TimePoint()\<close>. Callbacks are values; while one runs,
  everything it may do (post, quit) is a step. Nested loops are not modelled.
\<close>

section \<open>Tasks and queues\<close>

record 'c PendingTask =
  callback :: 'c
  sequence_num :: int
  delayed_run_time :: nat
  nestable :: bool

text \<open>\<open>operator<\<close>: the top of the priority queue is the greatest task.\<close>

definition task_less :: "'c PendingTask \<Rightarrow> 'c PendingTask \<Rightarrow> bool" where
  "task_less a b =
     (if delayed_run_time a < delayed_run_time b then False
      else if delayed_run_time a > delayed_run_time b then True
      else sequence_num a - sequence_num b > 0)"

text \<open>The priority queue as a list, greatest task first.\<close>

definition pq_emplace :: "'c PendingTask \<Rightarrow> 'c PendingTask list \<Rightarrow> 'c PendingTask list" where
  "pq_emplace t q = takeWhile (\<lambda>x. \<not> task_less x t) q @ t # dropWhile (\<lambda>x. \<not> task_less x t) q"

record 'c MessageLoop =
  recent_time :: nat
  delayedWorkQueue :: "'c PendingTask list"
  work_queue :: "'c PendingTask list"
  deferredQueue :: "'c PendingTask list"
  nestableTasksAllowed :: bool
  incomingQueue :: "'c PendingTask list"
  next_sequence_num :: int
  keepRunning :: bool
  have_work :: bool
  delayedWorkTime :: nat

definition MessageLoop_new :: "'c MessageLoop" where
  "MessageLoop_new =
     \<lparr>recent_time = 0, delayedWorkQueue = [], work_queue = [], deferredQueue = [], nestableTasksAllowed = True,
      incomingQueue = [], next_sequence_num = 0, keepRunning = True, have_work = False, delayedWorkTime = 0\<rparr>"

section \<open>The operations of the loop\<close>

text \<open>A millisecond in units of the clock.\<close>

definition ms :: nat where
  "ms = 1000000"

definition calculateDelayedRuntime :: "nat \<Rightarrow> int \<Rightarrow> nat" where
  "calculateDelayedRuntime now delay = (if delay > 0 then now + nat delay * ms else 0)"

text \<open>The locked section of \<open>addToIncomingQueue\<close>; the flag tells whether the queue was empty.\<close>

definition addToIncomingQueue :: "nat \<Rightarrow> 'c \<Rightarrow> int \<Rightarrow> bool \<Rightarrow> 'c MessageLoop \<Rightarrow> bool \<times> 'c MessageLoop" where
  "addToIncomingQueue now cb delay nest s =
     (incomingQueue s = [],
      s\<lparr>incomingQueue := incomingQueue s @
          [\<lparr>callback = cb, sequence_num = 0, delayed_run_time = calculateDelayedRuntime now delay, nestable = nest\<rparr>]\<rparr>)"

definition addToDelayedWorkQueue :: "'c PendingTask \<Rightarrow> 'c MessageLoop \<Rightarrow> 'c MessageLoop" where
  "addToDelayedWorkQueue t s =
     s\<lparr>delayedWorkQueue := pq_emplace (t\<lparr>sequence_num := next_sequence_num s\<rparr>) (delayedWorkQueue s),
       next_sequence_num := next_sequence_num s + 1\<rparr>"

definition reloadWorkQueue :: "'c MessageLoop \<Rightarrow> 'c MessageLoop" where
  "reloadWorkQueue s =
     (if work_queue s \<noteq> [] then s
      else if incomingQueue s = [] then s
      else s\<lparr>work_queue := incomingQueue s, incomingQueue := work_queue s\<rparr>)"

text \<open>Before and after the callback in \<open>runTask\<close>.\<close>

definition runTask_begin :: "'c MessageLoop \<Rightarrow> 'c MessageLoop" where
  "runTask_begin s = s\<lparr>nestableTasksAllowed := False\<rparr>"

definition runTask_end :: "'c MessageLoop \<Rightarrow> 'c MessageLoop" where
  "runTask_end s = s\<lparr>nestableTasksAllowed := True\<rparr>"

text \<open>\<open>Some t\<close> when the task runs now, which is the result true.\<close>

definition deferOrRunPendingTask :: "'c PendingTask \<Rightarrow> 'c MessageLoop \<Rightarrow> 'c PendingTask option \<times> 'c MessageLoop" where
  "deferOrRunPendingTask t s =
     (if nestable t then (Some t, runTask_begin s)
      else (None, s\<lparr>deferredQueue := deferredQueue s @ [t]\<rparr>))"

text \<open>The inner loop of \<open>doWork\<close> over the tasks of the work queue.\<close>

fun drain_work :: "'c PendingTask list \<Rightarrow> 'c MessageLoop \<Rightarrow> 'c PendingTask option \<times> 'c MessageLoop" where
  "drain_work [] s = (None, s\<lparr>work_queue := []\<rparr>)"
| "drain_work (t # q) s =
     (if delayed_run_time t \<noteq> 0
      then let reschedule = (delayedWorkQueue s = []);
               s = addToDelayedWorkQueue t s
           in drain_work q (if reschedule then s\<lparr>delayedWorkTime := delayed_run_time t\<rparr> else s)
      else case deferOrRunPendingTask t (s\<lparr>work_queue := q\<rparr>) of
             (Some t, s) \<Rightarrow> (Some t, s)
           | (None, s) \<Rightarrow> drain_work q s)"

definition pop_delayed :: "'c MessageLoop \<Rightarrow> 'c PendingTask option \<times> 'c MessageLoop" where
  "pop_delayed s =
     (let t = hd (delayedWorkQueue s);
          q = tl (delayedWorkQueue s);
          s = s\<lparr>delayedWorkQueue := q\<rparr>;
          s = (if q \<noteq> [] then s\<lparr>delayedWorkTime := delayed_run_time (hd q)\<rparr> else s)
      in deferOrRunPendingTask t s)"

definition doDelayedWork :: "nat \<Rightarrow> 'c MessageLoop \<Rightarrow> 'c PendingTask option \<times> 'c MessageLoop" where
  "doDelayedWork now s =
     (if \<not> nestableTasksAllowed s \<or> delayedWorkQueue s = []
      then (None, s\<lparr>recent_time := 0, delayedWorkTime := 0\<rparr>)
      else let nextRunTime = delayed_run_time (hd (delayedWorkQueue s))
           in if nextRunTime > recent_time s
              then let s = s\<lparr>recent_time := now\<rparr>
                   in if nextRunTime > recent_time s
                      then (None, s\<lparr>delayedWorkTime := nextRunTime\<rparr>)
                      else pop_delayed s
              else pop_delayed s)"

definition doIdleWork :: "'c MessageLoop \<Rightarrow> 'c PendingTask option \<times> 'c MessageLoop" where
  "doIdleWork s =
     (case deferredQueue s of
        [] \<Rightarrow> (None, s)
      | t # q \<Rightarrow> (Some t, runTask_begin (s\<lparr>deferredQueue := q\<rparr>)))"

section \<open>The destructor\<close>

text \<open>The tasks of the work queue that are delayed move to the delayed queue before all queues are emptied.\<close>

definition deletePendingTasks :: "'c MessageLoop \<Rightarrow> bool \<times> 'c MessageLoop" where
  "deletePendingTasks s =
     (let did_work = (work_queue s \<noteq> []);
          s = fold (\<lambda>t s. if delayed_run_time t \<noteq> 0 then addToDelayedWorkQueue t s else s) (work_queue s) (s\<lparr>work_queue := []\<rparr>);
          did_work = (did_work \<or> deferredQueue s \<noteq> []);
          s = s\<lparr>deferredQueue := []\<rparr>;
          did_work = (did_work \<or> delayedWorkQueue s \<noteq> [])
      in (did_work, s\<lparr>delayedWorkQueue := []\<rparr>))"

fun destroy_loop :: "nat \<Rightarrow> bool \<Rightarrow> 'c MessageLoop \<Rightarrow> bool \<times> 'c MessageLoop" where
  "destroy_loop 0 did_work s = (did_work, s)"
| "destroy_loop (Suc i) did_work s =
     (let s = reloadWorkQueue s;
          s = snd (deletePendingTasks s);
          (did_work, s) = deletePendingTasks s
      in if \<not> did_work then (did_work, s) else destroy_loop i did_work s)"

definition MessageLoop_destroy :: "'c MessageLoop \<Rightarrow> bool \<times> 'c MessageLoop" where
  "MessageLoop_destroy s = destroy_loop 100 False s"

section \<open>The pump\<close>

text \<open>
  Where the loop thread is: in front of \<open>reloadWorkQueue\<close>, in the inner loop of \<open>doWork\<close>, in a callback (with
  the way it was called), in front of \<open>doDelayedWork\<close> (with \<open>did_work\<close>) or of \<open>doIdleWork\<close>, in front of the test of
  \<open>have_work_\<close> or in the \<open>wait\<close> after it, in front of \<open>wait_for\<close>, in it or behind it without a time-out, or outside of
  \<open>run\<close>. The positions of the wait with a limit hold the time at which the delay was computed, the time at which the
  wait began, and the delay in milliseconds.
\<close>

datatype called_by = ByWork | ByDelayed | ByIdle

datatype 'c position =
  AtWork | AtDrain | InTask "'c PendingTask" called_by | AtDelayed bool | AtIdle | AtSleep | Sleeping
| AtTimedSleep nat nat | TimedSleep nat nat nat | TimedWoken nat nat nat | Outside

text \<open>The loop with its thread, the clock, the number of calls of \<open>scheduleWork\<close> that are due (a poster has
  left the locked section and not yet set the flag), and of those that have set the flag and not yet notified.\<close>

record 'c system =
  loop :: "'c MessageLoop"
  pos :: "'c position"
  clock :: nat
  due :: nat
  notifying :: nat

text \<open>The check of \<open>keepRunning_\<close> between the parts of \<open>MessagePumpDefault::run\<close>; leaving sets it again.\<close>

definition proceed :: "'c position \<Rightarrow> 'c system \<Rightarrow> 'c system" where
  "proceed p s =
     (if keepRunning (loop s) then s\<lparr>pos := p\<rparr>
      else s\<lparr>pos := Outside, loop := (loop s)\<lparr>keepRunning := True\<rparr>\<rparr>)"

datatype 'c loop_label = Post "'c PendingTask" | Signal | Notify | Spurious | RunTask "'c PendingTask" | Quit | Tick | Internal

text \<open>\<open>called\<close> is the result of an operation that may have started a task.\<close>

definition called :: "called_by \<Rightarrow> 'c position \<Rightarrow> 'c PendingTask option \<times> 'c MessageLoop \<Rightarrow> 'c system \<Rightarrow>
    'c loop_label \<times> 'c system" where
  "called by p r s =
     (case r of
        (Some t, l) \<Rightarrow> (RunTask t, s\<lparr>loop := l, pos := InTask t by\<rparr>)
      | (None, l) \<Rightarrow> (Internal, proceed p (s\<lparr>loop := l\<rparr>)))"

definition after_task :: "called_by \<Rightarrow> 'c position" where
  "after_task by = (case by of ByWork \<Rightarrow> AtDelayed True | ByDelayed \<Rightarrow> AtWork | ByIdle \<Rightarrow> AtWork)"

text \<open>What follows when no work was done. The delay is cut to whole milliseconds.\<close>

definition delay_ms :: "'c system \<Rightarrow> nat" where
  "delay_ms s = (delayedWorkTime (loop s) - clock s) div ms"

definition go_to_sleep :: "'c system \<Rightarrow> 'c system" where
  "go_to_sleep s =
     (if delayedWorkTime (loop s) = 0 then s\<lparr>pos := AtSleep\<rparr>
      else let delay = delay_ms s
           in if delay > 0 then s\<lparr>pos := AtTimedSleep (clock s) delay\<rparr>
              else s\<lparr>loop := (loop s)\<lparr>delayedWorkTime := 0\<rparr>, pos := AtWork\<rparr>)"

text \<open>\<open>notify_one\<close>: the loop thread is the only one that waits. A notification without a waiter has no effect.\<close>

definition notify_one :: "'c position \<Rightarrow> 'c position" where
  "notify_one p = (case p of Sleeping \<Rightarrow> AtSleep | TimedSleep c b d \<Rightarrow> TimedWoken c b d | _ \<Rightarrow> p)"

definition wake_up :: "'c system \<Rightarrow> 'c system" where
  "wake_up s = s\<lparr>loop := (loop s)\<lparr>have_work := False\<rparr>, pos := AtWork\<rparr>"

text \<open>The rest of the loop around \<open>wait_for\<close>, when it returned without a time-out.\<close>

definition wait_again :: "'c system \<Rightarrow> 'c system" where
  "wait_again s =
     (if have_work (loop s) then wake_up s
      else let delay = delay_ms s
           in if delay > 0 then s\<lparr>pos := TimedSleep (clock s) (clock s) delay\<rparr> else wake_up s)"

inductive loop_step :: "'c system \<Rightarrow> 'c loop_label \<Rightarrow> 'c system \<Rightarrow> bool" where
  post: "addToIncomingQueue (clock s) cb delay nest (loop s) = (e, l) \<Longrightarrow>
    loop_step s (Post (last (incomingQueue l))) (s\<lparr>loop := l, due := (if e then due s + 1 else due s)\<rparr>)"
| signal: "due s > 0 \<Longrightarrow>
    loop_step s Signal (s\<lparr>loop := (loop s)\<lparr>have_work := True\<rparr>, due := due s - 1, notifying := notifying s + 1\<rparr>)"
| notify: "notifying s > 0 \<Longrightarrow> loop_step s Notify (s\<lparr>pos := notify_one (pos s), notifying := notifying s - 1\<rparr>)"
| spurious: "pos s = Sleeping \<or> (\<exists>c b d. pos s = TimedSleep c b d) \<Longrightarrow> loop_step s Spurious (s\<lparr>pos := notify_one (pos s)\<rparr>)"
| tick: "loop_step s Tick (s\<lparr>clock := clock s + 1\<rparr>)"
| reload: "pos s = AtWork \<Longrightarrow> l = reloadWorkQueue (loop s) \<Longrightarrow> work_queue l \<noteq> [] \<Longrightarrow>
    loop_step s Internal (s\<lparr>loop := l, pos := AtDrain\<rparr>)"
| no_work: "pos s = AtWork \<Longrightarrow> l = reloadWorkQueue (loop s) \<Longrightarrow> work_queue l = [] \<Longrightarrow>
    loop_step s Internal (proceed (AtDelayed False) (s\<lparr>loop := l\<rparr>))"
| drain_run: "pos s = AtDrain \<Longrightarrow> drain_work (work_queue (loop s)) (loop s) = (Some t, l) \<Longrightarrow>
    loop_step s (RunTask t) (s\<lparr>loop := l, pos := InTask t ByWork\<rparr>)"
| drain_end: "pos s = AtDrain \<Longrightarrow> drain_work (work_queue (loop s)) (loop s) = (None, l) \<Longrightarrow>
    loop_step s Internal (s\<lparr>loop := l, pos := AtWork\<rparr>)"
| task_end: "pos s = InTask t by \<Longrightarrow>
    loop_step s Internal (proceed (after_task by) (s\<lparr>loop := runTask_end (loop s)\<rparr>))"
| quit: "pos s = InTask t by \<Longrightarrow> loop_step s Quit (s\<lparr>loop := (loop s)\<lparr>keepRunning := False\<rparr>\<rparr>)"
| delayed: "pos s = AtDelayed did \<Longrightarrow>
    called ByDelayed (if did then AtWork else AtIdle) (doDelayedWork (clock s) (loop s)) s = (lab, s') \<Longrightarrow>
    loop_step s lab s'"
| idle_run: "pos s = AtIdle \<Longrightarrow> doIdleWork (loop s) = (Some t, l) \<Longrightarrow>
    loop_step s (RunTask t) (s\<lparr>loop := l, pos := InTask t ByIdle\<rparr>)"
| idle_sleep: "pos s = AtIdle \<Longrightarrow> doIdleWork (loop s) = (None, l) \<Longrightarrow>
    loop_step s Internal (go_to_sleep (s\<lparr>loop := l\<rparr>))"
| awake: "pos s = AtSleep \<Longrightarrow> have_work (loop s) \<Longrightarrow> loop_step s Internal (wake_up s)"
| wait: "pos s = AtSleep \<Longrightarrow> \<not> have_work (loop s) \<Longrightarrow> loop_step s Internal (s\<lparr>pos := Sleeping\<rparr>)"
| wait_for: "pos s = AtTimedSleep c d \<Longrightarrow> loop_step s Internal (s\<lparr>pos := TimedSleep c (clock s) d\<rparr>)"
| timeout: "pos s = TimedSleep c b d \<or> pos s = TimedWoken c b d \<Longrightarrow> b + d * ms \<le> clock s \<Longrightarrow>
    loop_step s Internal (wake_up s)"
| no_timeout: "pos s = TimedWoken c b d \<Longrightarrow> loop_step s Internal (wait_again s)"
| run_again: "pos s = Outside \<Longrightarrow> loop_step s Internal (s\<lparr>pos := AtWork\<rparr>)"

inductive_cases loop_stepE: "loop_step s lab s'"

definition loop_init :: "'c system \<Rightarrow> bool" where
  "loop_init s \<longleftrightarrow> (\<exists>now. s = \<lparr>loop = MessageLoop_new, pos = Outside, clock = now, due = 0, notifying = 0\<rparr>)"

section \<open>Facts about the operations\<close>

lemma set_pq_emplace [simp]: "set (pq_emplace t q) = insert t (set q)"
proof -
  have "set q = set (takeWhile (\<lambda>x. \<not> task_less x t) q) \<union> set (dropWhile (\<lambda>x. \<not> task_less x t) q)"
    by (metis set_append takeWhile_dropWhile_id)
  then show ?thesis by (auto simp: pq_emplace_def)
qed

lemma mset_pq_emplace [simp]: "mset (pq_emplace t q) = add_mset t (mset q)"
proof -
  have "mset q = mset (takeWhile (\<lambda>x. \<not> task_less x t) q) + mset (dropWhile (\<lambda>x. \<not> task_less x t) q)"
    by (metis mset_append takeWhile_dropWhile_id)
  then show ?thesis by (simp add: pq_emplace_def)
qed

abbreviation by_time :: "'c PendingTask list \<Rightarrow> bool" where
  "by_time q \<equiv> sorted (map delayed_run_time q)"

lemma by_time_pq_emplace:
  assumes "by_time q"
  shows "by_time (pq_emplace t q)"
proof -
  let ?a = "takeWhile (\<lambda>x. \<not> task_less x t) q" and ?b = "dropWhile (\<lambda>x. \<not> task_less x t) q"
  have s: "by_time (?a @ ?b)" using assms by simp
  have a: "\<forall>x \<in> set ?a. delayed_run_time x \<le> delayed_run_time t"
    by (auto dest!: set_takeWhileD simp: task_less_def split: if_splits)
  have b: "\<forall>x \<in> set ?b. delayed_run_time t \<le> delayed_run_time x"
  proof (cases ?b)
    case (Cons y ys)
    then have "task_less y t" by (metis dropWhile_eq_Cons_conv)
    then have "delayed_run_time t \<le> delayed_run_time y" by (auto simp: task_less_def split: if_splits)
    with Cons s show ?thesis by (auto simp: sorted_append)
  next
    case Nil
    show ?thesis unfolding Nil by simp
  qed
  have "delayed_run_time x \<le> delayed_run_time y" if "x \<in> set ?a" "y \<in> set ?b" for x y
    using a b that order_trans by blast
  moreover have "by_time ?a" "by_time ?b" using s by (simp_all only: map_append sorted_append)
  ultimately show ?thesis using a b by (auto simp: pq_emplace_def sorted_append)
qed

definition imm :: "'c PendingTask \<Rightarrow> bool" where
  "imm t \<longleftrightarrow> nestable t \<and> delayed_run_time t = 0"

text \<open>What one step of the loop keeps of the queues with delayed and deferred tasks.\<close>

definition queues_ok :: "nat \<Rightarrow> 'c MessageLoop \<Rightarrow> bool" where
  "queues_ok now l \<longleftrightarrow> by_time (delayedWorkQueue l) \<and> (\<forall>t \<in> set (delayedWorkQueue l). delayed_run_time t \<noteq> 0) \<and>
     (\<forall>t \<in> set (deferredQueue l). delayed_run_time t \<le> now \<and> \<not> nestable t) \<and> recent_time l \<le> now"

definition waiting_tasks :: "'c MessageLoop \<Rightarrow> 'c multiset" where
  "waiting_tasks l = image_mset callback (mset (deferredQueue l) + mset (delayedWorkQueue l))"

definition result_task :: "'c PendingTask option \<Rightarrow> 'c multiset" where
  "result_task r = (case r of None \<Rightarrow> {#} | Some t \<Rightarrow> {#callback t#})"

lemmas operation_defs =
  deferOrRunPendingTask_def runTask_begin_def runTask_end_def addToDelayedWorkQueue_def reloadWorkQueue_def
  addToIncomingQueue_def

lemma drain_work_Cons:
  "imm t \<Longrightarrow> drain_work (t # q) s = (Some t, s\<lparr>work_queue := q, nestableTasksAllowed := False\<rparr>)"
  "delayed_run_time t \<noteq> 0 \<Longrightarrow> drain_work (t # q) s =
     drain_work q (s\<lparr>delayedWorkQueue := pq_emplace (t\<lparr>sequence_num := next_sequence_num s\<rparr>) (delayedWorkQueue s),
       next_sequence_num := next_sequence_num s + 1,
       delayedWorkTime := (if delayedWorkQueue s = [] then delayed_run_time t else delayedWorkTime s)\<rparr>)"
  "delayed_run_time t = 0 \<Longrightarrow> \<not> nestable t \<Longrightarrow> drain_work (t # q) s =
     drain_work q (s\<lparr>work_queue := q, deferredQueue := deferredQueue s @ [t]\<rparr>)"
  by (auto simp: operation_defs Let_def imm_def)

declare drain_work.simps(2) [simp del]

lemma task_cases: "imm t \<or> delayed_run_time t \<noteq> 0 \<or> (delayed_run_time t = 0 \<and> \<not> nestable t)"
  by (auto simp: imm_def)

lemma drain_work_frame:
  "drain_work q s = (r, s') \<Longrightarrow>
   incomingQueue s' = incomingQueue s \<and> keepRunning s' = keepRunning s \<and> have_work s' = have_work s \<and>
   nestableTasksAllowed s' = (r = None \<and> nestableTasksAllowed s) \<and> (r = None \<longrightarrow> work_queue s' = [])"
proof (induction q arbitrary: s)
  case (Cons t q)
  from task_cases [of t] show ?case
    by (elim disjE) (use Cons in \<open>fastforce simp: drain_work_Cons\<close>)+
qed auto

lemma drain_work_queues:
  "drain_work q s = (r, s') \<Longrightarrow> queues_ok now s \<Longrightarrow> queues_ok now s'"
proof (induction q arbitrary: s)
  case (Cons t q)
  from task_cases [of t] show ?case
  proof (elim disjE)
    assume "imm t"
    with Cons.prems show ?thesis by (auto simp: drain_work_Cons queues_ok_def)
  next
    assume d: "delayed_run_time t \<noteq> 0"
    show ?thesis
      by (rule Cons.IH [OF Cons.prems(1) [unfolded drain_work_Cons(2) [OF d]]])
        (use Cons.prems(2) d in \<open>auto simp: queues_ok_def by_time_pq_emplace\<close>)
  next
    assume d: "delayed_run_time t = 0 \<and> \<not> nestable t"
    show ?thesis
      by (rule Cons.IH [OF Cons.prems(1) [unfolded drain_work_Cons(3) [OF d [THEN conjunct1] d [THEN conjunct2]]]])
        (use Cons.prems(2) d in \<open>auto simp: queues_ok_def\<close>)
  qed
qed (auto simp: queues_ok_def)

lemma drain_work_fifo:
  "drain_work q s = (r, s') \<Longrightarrow>
   filter imm q = (case r of None \<Rightarrow> [] | Some t \<Rightarrow> [t]) @ filter imm (work_queue s') \<and> (\<forall>t. r = Some t \<longrightarrow> imm t)"
proof (induction q arbitrary: s)
  case (Cons t q)
  have "delayed_run_time t \<noteq> 0 \<or> \<not> nestable t \<Longrightarrow> \<not> imm t" by (auto simp: imm_def)
  with task_cases [of t] Cons show ?case by (elim disjE) (auto simp: drain_work_Cons)
qed auto

lemma drain_work_tasks:
  "drain_work q s = (r, s') \<Longrightarrow>
   image_mset callback (mset q) + waiting_tasks s =
     result_task r + image_mset callback (mset (work_queue s')) + waiting_tasks s'"
proof (induction q arbitrary: s)
  case (Cons t q)
  from task_cases [of t] show ?case
    by (elim disjE)
      (use Cons in \<open>force simp: drain_work_Cons waiting_tasks_def result_task_def\<close>)+
qed (auto simp: waiting_tasks_def result_task_def)

lemma doDelayedWork_cases:
  assumes "doDelayedWork now s = (r, s')"
  obtains
    (none) "\<not> nestableTasksAllowed s \<or> delayedWorkQueue s = []" "r = None" "s' = s\<lparr>recent_time := 0, delayedWorkTime := 0\<rparr>"
  | (later) "delayedWorkQueue s \<noteq> []" "delayed_run_time (hd (delayedWorkQueue s)) > now" "r = None"
      "s' = s\<lparr>recent_time := now, delayedWorkTime := delayed_run_time (hd (delayedWorkQueue s))\<rparr>"
  | (pop) t q rt dwt where "delayedWorkQueue s = t # q" "delayed_run_time t \<le> now \<or> delayed_run_time t \<le> recent_time s"
      "rt = now \<or> rt = recent_time s"
      "(r, s') = deferOrRunPendingTask t (s\<lparr>recent_time := rt, delayedWorkQueue := q, delayedWorkTime := dwt\<rparr>)"
proof -
  consider "\<not> nestableTasksAllowed s \<or> delayedWorkQueue s = []"
    | t q where "nestableTasksAllowed s" "delayedWorkQueue s = t # q" "delayed_run_time t > recent_time s" "delayed_run_time t > now"
    | t q where "nestableTasksAllowed s" "delayedWorkQueue s = t # q" "delayed_run_time t > recent_time s" "delayed_run_time t \<le> now"
    | t q where "nestableTasksAllowed s" "delayedWorkQueue s = t # q" "delayed_run_time t \<le> recent_time s"
    by (cases "delayedWorkQueue s") (simp, metis not_less)
  then show thesis
  proof cases
    case 1
    with assms show thesis by (intro none) (simp_all add: doDelayedWork_def)
  next
    case 2
    with assms show thesis by (intro later) (simp_all add: doDelayedWork_def Let_def)
  next
    case (3 t q)
    let ?dwt = "if q = [] then delayedWorkTime s else delayed_run_time (hd q)"
    have "(r, s') = deferOrRunPendingTask t (s\<lparr>recent_time := now, delayedWorkQueue := q, delayedWorkTime := ?dwt\<rparr>)"
      using assms 3 by (auto simp: doDelayedWork_def pop_delayed_def Let_def)
    from pop [OF 3(2) _ _ this] 3(4) show thesis by simp
  next
    case (4 t q)
    let ?dwt = "if q = [] then delayedWorkTime s else delayed_run_time (hd q)"
    have "(r, s') = deferOrRunPendingTask t (s\<lparr>recent_time := recent_time s, delayedWorkQueue := q, delayedWorkTime := ?dwt\<rparr>)"
      using assms 4 by (auto simp: doDelayedWork_def pop_delayed_def Let_def)
    from pop [OF 4(2) _ _ this] 4(3) show thesis by simp
  qed
qed

lemma doDelayedWork_spec:
  assumes "doDelayedWork now s = (r, s')" "queues_ok now s"
  shows "incomingQueue s' = incomingQueue s \<and> work_queue s' = work_queue s \<and> keepRunning s' = keepRunning s \<and>
      have_work s' = have_work s \<and> nestableTasksAllowed s' = (r = None \<and> nestableTasksAllowed s)"
    and "queues_ok now s'"
    and "\<forall>t. r = Some t \<longrightarrow> delayed_run_time t \<le> now \<and> \<not> imm t \<and>
      (\<forall>u \<in> set (delayedWorkQueue s). delayed_run_time t \<le> delayed_run_time u)"
    and "nestableTasksAllowed s \<Longrightarrow> r = None \<Longrightarrow> deferredQueue s' \<noteq> [] \<or>
      (if delayedWorkQueue s' = [] then delayedWorkTime s' = 0
       else delayedWorkTime s' = delayed_run_time (hd (delayedWorkQueue s')))"
    and "waiting_tasks s = result_task r + waiting_tasks s'"
  using assms(1)
  by (cases rule: doDelayedWork_cases;
      use assms(2) in \<open>auto simp: deferOrRunPendingTask_def runTask_begin_def queues_ok_def imm_def waiting_tasks_def
        result_task_def split: if_splits\<close>)+

lemma doIdleWork_spec:
  assumes "doIdleWork s = (r, s')"
  shows "r = None \<Longrightarrow> s' = s \<and> deferredQueue s = []"
    "r = Some t \<Longrightarrow> \<exists>q. deferredQueue s = t # q \<and> s' = s\<lparr>deferredQueue := q, nestableTasksAllowed := False\<rparr>"
  using assms by (auto simp: doIdleWork_def runTask_begin_def split: list.splits)

section \<open>The invariant\<close>

definition idle_pos :: "'c position \<Rightarrow> bool" where
  "idle_pos p \<longleftrightarrow> (case p of AtWork \<Rightarrow> False | AtDrain \<Rightarrow> False | InTask _ _ \<Rightarrow> False | AtDelayed did \<Rightarrow> \<not> did | Outside \<Rightarrow> False | _ \<Rightarrow> True)"

text \<open>A position of the wait with a limit: when the wait was computed and began, and how the delay fits the time of
  the earliest delayed task.\<close>

definition timed_pos :: "'c position \<Rightarrow> bool" where
  "timed_pos p \<longleftrightarrow> (case p of AtTimedSleep _ _ \<Rightarrow> True | TimedSleep _ _ _ \<Rightarrow> True | TimedWoken _ _ _ \<Rightarrow> True | _ \<Rightarrow> False)"

definition timed_ok :: "nat \<Rightarrow> nat \<Rightarrow> 'c position \<Rightarrow> bool" where
  "timed_ok now t p \<longleftrightarrow>
     (case p of AtTimedSleep c d \<Rightarrow> c \<le> now \<and> c + d * ms \<le> t
      | TimedSleep c b d \<Rightarrow> c \<le> b \<and> b \<le> now \<and> c + d * ms \<le> t
      | TimedWoken c b d \<Rightarrow> c \<le> b \<and> b \<le> now \<and> c + d * ms \<le> t
      | _ \<Rightarrow> True)"

lemma positions [simp]:
  "\<not> idle_pos AtWork" "\<not> idle_pos AtDrain" "\<not> idle_pos (InTask t c)" "idle_pos (AtDelayed did) = (\<not> did)" "idle_pos AtIdle"
  "idle_pos AtSleep" "idle_pos Sleeping" "idle_pos (AtTimedSleep x y)" "idle_pos (TimedSleep x y z)" "idle_pos (TimedWoken x y z)"
  "\<not> idle_pos Outside"
  "\<not> timed_pos AtWork" "\<not> timed_pos AtDrain" "\<not> timed_pos (InTask t c)" "\<not> timed_pos (AtDelayed did)" "\<not> timed_pos AtIdle"
  "\<not> timed_pos AtSleep" "\<not> timed_pos Sleeping" "timed_pos (AtTimedSleep x y)" "timed_pos (TimedSleep x y z)"
  "timed_pos (TimedWoken x y z)" "\<not> timed_pos Outside"
  "timed_ok now u AtWork" "timed_ok now u AtDrain" "timed_ok now u (InTask t c)" "timed_ok now u (AtDelayed did)"
  "timed_ok now u AtIdle" "timed_ok now u AtSleep" "timed_ok now u Sleeping" "timed_ok now u Outside"
  by (simp_all add: idle_pos_def timed_pos_def timed_ok_def)

lemma timed_ok_tick: "timed_ok now t p \<Longrightarrow> timed_ok (Suc now) t p"
  by (auto simp: timed_ok_def split: position.splits)

lemma notify_one_pos [simp]:
  "idle_pos (notify_one p) = idle_pos p" "timed_pos (notify_one p) = timed_pos p"
  "timed_ok now t (notify_one p) = timed_ok now t p" "notify_one p \<noteq> Sleeping"
  "(notify_one p = InTask u c) = (p = InTask u c)" "(notify_one p = AtIdle) = (p = AtIdle)"
  "(notify_one p = AtSleep) = (p = AtSleep \<or> p = Sleeping)"
  by (cases p; simp add: notify_one_def timed_ok_def)+

lemma delay_ms_bound: "delay_ms s > 0 \<Longrightarrow> clock s + delay_ms s * ms \<le> delayedWorkTime (loop s)"
proof -
  assume "delay_ms s > 0"
  then have "clock s < delayedWorkTime (loop s)" by (auto simp: delay_ms_def intro: ccontr)
  moreover have "delay_ms s * ms \<le> delayedWorkTime (loop s) - clock s" by (simp add: delay_ms_def)
  ultimately show ?thesis by linarith
qed

definition loop_inv :: "'c system \<Rightarrow> bool" where
  "loop_inv s \<longleftrightarrow> queues_ok (clock s) (loop s) \<and>
     (nestableTasksAllowed (loop s) \<longleftrightarrow> (\<forall>t by. pos s \<noteq> InTask t by)) \<and>
     (\<forall>t by. pos s = InTask t by \<longrightarrow> by = ByIdle \<or> by = ByDelayed \<or> imm t) \<and>
     (idle_pos (pos s) \<longrightarrow>
        work_queue (loop s) = [] \<and> (incomingQueue (loop s) \<noteq> [] \<longrightarrow> have_work (loop s) \<or> due s > 0)) \<and>
     (pos s = AtIdle \<longrightarrow> deferredQueue (loop s) \<noteq> [] \<or>
        (if delayedWorkQueue (loop s) = [] then delayedWorkTime (loop s) = 0
         else delayedWorkTime (loop s) = delayed_run_time (hd (delayedWorkQueue (loop s))))) \<and>
     (pos s = AtSleep \<or> pos s = Sleeping \<longrightarrow> deferredQueue (loop s) = [] \<and> delayedWorkQueue (loop s) = []) \<and>
     (pos s = Sleeping \<longrightarrow> have_work (loop s) \<longrightarrow> notifying s > 0) \<and>
     (timed_pos (pos s) \<longrightarrow> deferredQueue (loop s) = [] \<and> delayedWorkQueue (loop s) \<noteq> [] \<and>
        delayedWorkTime (loop s) = delayed_run_time (hd (delayedWorkQueue (loop s)))) \<and>
     timed_ok (clock s) (delayedWorkTime (loop s)) (pos s)"

lemma queues_ok_tick: "queues_ok now l \<Longrightarrow> queues_ok (now + 1) l"
  by (auto simp: queues_ok_def)

lemma queues_ok_update [simp]:
  "queues_ok now (l\<lparr>incomingQueue := a\<rparr>) = queues_ok now l" "queues_ok now (l\<lparr>work_queue := b\<rparr>) = queues_ok now l"
  "queues_ok now (l\<lparr>have_work := c\<rparr>) = queues_ok now l" "queues_ok now (l\<lparr>keepRunning := c\<rparr>) = queues_ok now l"
  "queues_ok now (l\<lparr>nestableTasksAllowed := c\<rparr>) = queues_ok now l" "queues_ok now (l\<lparr>delayedWorkTime := d\<rparr>) = queues_ok now l"
  by (simp_all add: queues_ok_def)

lemma loop_inv_step:
  assumes I: "loop_inv s" and st: "loop_step s lab s'"
  shows "loop_inv s'"
  using st
proof (cases rule: loop_step.cases)
  case (post cb delay nest e l)
  define t where "t = \<lparr>callback = cb, sequence_num = 0, delayed_run_time = calculateDelayedRuntime (clock s) delay, nestable = nest\<rparr>"
  have "s' = s\<lparr>loop := (loop s)\<lparr>incomingQueue := incomingQueue (loop s) @ [t]\<rparr>,
      due := (if incomingQueue (loop s) = [] then due s + 1 else due s)\<rparr>"
    using post by (simp add: addToIncomingQueue_def t_def)
  then show ?thesis using I by (simp add: loop_inv_def)
next
  case signal
  then show ?thesis using I by (auto simp: loop_inv_def)
next
  case tick
  then show ?thesis using I queues_ok_tick [of "clock s" "loop s"] by (simp add: loop_inv_def timed_ok_tick)
next
  case notify
  then show ?thesis using I by (simp add: loop_inv_def)
next
  case spurious
  then show ?thesis using I by (simp add: loop_inv_def)
next
  case (reload l)
  then show ?thesis using I by (auto simp: loop_inv_def reloadWorkQueue_def)
next
  case (no_work l)
  then show ?thesis using I by (auto simp: loop_inv_def reloadWorkQueue_def proceed_def split: if_splits)
next
  case (drain_run t l)
  then show ?thesis using I drain_work_frame [OF drain_run(4)] drain_work_queues [OF drain_run(4)] drain_work_fifo [OF drain_run(4)]
    by (auto simp: loop_inv_def)
next
  case (drain_end l)
  then show ?thesis using I drain_work_frame [OF drain_end(4)] drain_work_queues [OF drain_end(4)]
    by (auto simp: loop_inv_def)
next
  case (task_end t c)
  then show ?thesis using I
    by (auto simp: loop_inv_def proceed_def after_task_def runTask_end_def split: if_splits called_by.splits)
next
  case (quit t c)
  then show ?thesis using I by (auto simp: loop_inv_def)
next
  case (delayed did)
  obtain r l where r: "doDelayedWork (clock s) (loop s) = (r, l)" by force
  have q: "queues_ok (clock s) (loop s)" using I by (simp add: loop_inv_def)
  note D = doDelayedWork_spec [OF r q]
  have n: "nestableTasksAllowed (loop s)" using I delayed(1) by (simp add: loop_inv_def)
  show ?thesis
  proof (cases r)
    case None
    with delayed(2) r have "s' = proceed (if did then AtWork else AtIdle) (s\<lparr>loop := l\<rparr>)" by (simp add: called_def)
    moreover have "did = False \<Longrightarrow> work_queue l = [] \<and> (incomingQueue l \<noteq> [] \<longrightarrow> have_work l \<or> due s > 0)"
      using I D(1) delayed(1) by (auto simp: loop_inv_def)
    ultimately show ?thesis using None D n by (auto simp: loop_inv_def proceed_def)
  next
    case (Some t)
    with delayed(2) r have "s' = s\<lparr>loop := l, pos := InTask t ByDelayed\<rparr>" by (simp add: called_def)
    then show ?thesis using Some D(1,2) by (simp add: loop_inv_def)
  qed
next
  case (idle_run t l)
  then show ?thesis using I doIdleWork_spec(2) [OF idle_run(4)] by (auto simp: loop_inv_def queues_ok_def)
next
  case (idle_sleep l)
  have l: "l = loop s" "deferredQueue (loop s) = []" using doIdleWork_spec(1) [OF idle_sleep(4)] by simp_all
  have s': "s' = go_to_sleep s" using idle_sleep(2) by (simp add: l(1))
  have d: "delayedWorkTime (loop s) = (if delayedWorkQueue (loop s) = [] then 0 else delayed_run_time (hd (delayedWorkQueue (loop s))))"
    using I idle_sleep(3) l(2) by (simp add: loop_inv_def)
  have z: "delayedWorkQueue (loop s) \<noteq> [] \<Longrightarrow> delayed_run_time (hd (delayedWorkQueue (loop s))) \<noteq> 0"
    using I by (simp add: loop_inv_def queues_ok_def)
  consider "delayedWorkQueue (loop s) = []" "delayedWorkTime (loop s) = 0"
    | "delayedWorkQueue (loop s) \<noteq> []" "delayedWorkTime (loop s) \<noteq> 0" "delay_ms s > 0"
    | "delayedWorkQueue (loop s) \<noteq> []" "delayedWorkTime (loop s) \<noteq> 0" "delay_ms s = 0"
    using d z by (cases "delayedWorkQueue (loop s) = []") auto
  then show ?thesis
  proof cases
    case 1
    then show ?thesis using I idle_sleep(3) l(2) by (simp add: s' go_to_sleep_def loop_inv_def)
  next
    case 2
    then show ?thesis using I idle_sleep(3) l(2) d delay_ms_bound [of s]
      by (simp add: s' go_to_sleep_def loop_inv_def Let_def timed_ok_def)
  next
    case 3
    then show ?thesis using I idle_sleep(3) by (simp add: s' go_to_sleep_def loop_inv_def Let_def)
  qed
next
  case awake
  then show ?thesis using I by (simp add: loop_inv_def wake_up_def)
next
  case wait
  then show ?thesis using I by (simp add: loop_inv_def)
next
  case (wait_for c d)
  then show ?thesis using I by (simp add: loop_inv_def timed_ok_def)
next
  case (timeout c b d)
  then show ?thesis using I by (auto simp: loop_inv_def wake_up_def)
next
  case (no_timeout c b d)
  show ?thesis
  proof (cases "have_work (loop s) \<or> delay_ms s = 0")
    case True
    then have "s' = wake_up s" using no_timeout(2) by (auto simp: wait_again_def Let_def)
    then show ?thesis using I no_timeout(3) by (simp add: loop_inv_def wake_up_def)
  next
    case False
    then have "s' = s\<lparr>pos := TimedSleep (clock s) (clock s) (delay_ms s)\<rparr>"
      using no_timeout(2) by (simp add: wait_again_def Let_def)
    then show ?thesis using I no_timeout(3) False delay_ms_bound [of s] by (simp add: loop_inv_def timed_ok_def)
  qed
next
  case run_again
  then show ?thesis using I by (auto simp: loop_inv_def)
qed

section \<open>Order and completeness\<close>

definition posted :: "'c loop_label \<Rightarrow> 'c PendingTask list" where
  "posted l = (case l of Post t \<Rightarrow> [t] | _ \<Rightarrow> [])"

definition ran :: "'c loop_label \<Rightarrow> 'c PendingTask list" where
  "ran l = (case l of RunTask t \<Rightarrow> [t] | _ \<Rightarrow> [])"

definition queued :: "'c MessageLoop \<Rightarrow> 'c multiset" where
  "queued l = image_mset callback (mset (work_queue l) + mset (incomingQueue l)) + waiting_tasks l"

lemma loop_init_inv: "loop_init s \<Longrightarrow> loop_inv s"
  by (auto simp: loop_init_def loop_inv_def queues_ok_def MessageLoop_new_def timed_ok_def)

lemma reload_queues:
  "filter imm (work_queue (reloadWorkQueue l) @ incomingQueue (reloadWorkQueue l)) = filter imm (work_queue l @ incomingQueue l)"
  "queued (reloadWorkQueue l) = queued l"
  by (auto simp: reloadWorkQueue_def queued_def waiting_tasks_def)

lemma proceed_queues [simp]:
  "work_queue (loop (proceed p s)) = work_queue (loop s)" "incomingQueue (loop (proceed p s)) = incomingQueue (loop s)"
  "queued (loop (proceed p s)) = queued (loop s)" "waiting_tasks (loop (proceed p s)) = waiting_tasks (loop s)"
  "deferredQueue (loop (proceed p s)) = deferredQueue (loop s)" "delayedWorkQueue (loop (proceed p s)) = delayedWorkQueue (loop s)"
  by (simp_all add: proceed_def queued_def waiting_tasks_def)

lemma clock_step: "loop_step s l s' \<Longrightarrow> clock s \<le> clock s'"
  by (cases rule: loop_step.cases)
    (auto simp: proceed_def called_def go_to_sleep_def wake_up_def wait_again_def Let_def split: option.splits prod.splits)

lemma clock_run: "run loop_step s ls s' \<Longrightarrow> clock s \<le> clock s'"
  by (induction rule: run.induct) (auto dest: clock_step)

text \<open>A step neither loses nor duplicates a task.\<close>

lemma loop_step_queues:
  assumes I: "loop_inv s" and st: "loop_step s lab s'"
  shows "filter imm (work_queue (loop s) @ incomingQueue (loop s) @ posted lab) =
      filter imm (ran lab @ work_queue (loop s') @ incomingQueue (loop s'))"
    and "queued (loop s) + image_mset callback (mset (posted lab)) =
      image_mset callback (mset (ran lab)) + queued (loop s')"
proof -
  let ?Q = "\<lambda>s lab s'. filter imm (work_queue (loop s) @ incomingQueue (loop s) @ posted lab) =
        filter imm (ran lab @ work_queue (loop s') @ incomingQueue (loop s')) \<and>
      queued (loop s) + image_mset callback (mset (posted lab)) =
        image_mset callback (mset (ran lab)) + queued (loop s')"
  have "?Q s lab s'"
    using st
  proof (cases rule: loop_step.cases)
    case (post cb delay nest e l)
    then show ?thesis by (auto simp: addToIncomingQueue_def posted_def ran_def queued_def waiting_tasks_def)
  next
    case (reload l)
    then show ?thesis using reload_queues [of "loop s"] by (simp add: posted_def ran_def)
  next
    case (no_work l)
    then show ?thesis using reload_queues [of "loop s"] by (simp add: posted_def ran_def)
  next
    case (drain_run t l)
    then show ?thesis
      using drain_work_frame [OF drain_run(4)] drain_work_fifo [OF drain_run(4)] drain_work_tasks [OF drain_run(4)]
      by (simp add: posted_def ran_def queued_def result_task_def)
  next
    case (drain_end l)
    then show ?thesis
      using drain_work_frame [OF drain_end(4)] drain_work_fifo [OF drain_end(4)] drain_work_tasks [OF drain_end(4)]
      by (simp add: posted_def ran_def queued_def result_task_def)
  next
    case (delayed did)
    obtain r l where r: "doDelayedWork (clock s) (loop s) = (r, l)" by force
    have q: "queues_ok (clock s) (loop s)" using I by (simp add: loop_inv_def)
    note D = doDelayedWork_spec [OF r q]
    from delayed(2) r D(1,3,5) show ?thesis
      by (cases r) (auto simp: called_def posted_def ran_def queued_def result_task_def)
  next
    case (idle_run t l)
    have "\<forall>u \<in> set (deferredQueue (loop s)). \<not> imm u" using I by (simp add: loop_inv_def queues_ok_def imm_def)
    with idle_run show ?thesis using doIdleWork_spec(2) [OF idle_run(4) refl]
      by (auto simp: posted_def ran_def queued_def waiting_tasks_def)
  next
    case (idle_sleep l)
    then show ?thesis using doIdleWork_spec(1) [OF idle_sleep(4) refl]
      by (simp add: posted_def ran_def Let_def go_to_sleep_def queued_def waiting_tasks_def)
  qed (auto simp: posted_def ran_def queued_def waiting_tasks_def runTask_end_def wake_up_def wait_again_def Let_def)
  then show "filter imm (work_queue (loop s) @ incomingQueue (loop s) @ posted lab) =
      filter imm (ran lab @ work_queue (loop s') @ incomingQueue (loop s'))"
    "queued (loop s) + image_mset callback (mset (posted lab)) =
      image_mset callback (mset (ran lab)) + queued (loop s')" by blast+
qed

interpretation ml: task_fifo loop_init loop_step loop_inv "\<lambda>l. filter imm (posted l)" "\<lambda>l. filter imm (ran l)"
    "\<lambda>s. filter imm (work_queue (loop s) @ incomingQueue (loop s))" "\<lambda>_. False"
proof unfold_locales
  show "filter imm (work_queue (loop s) @ incomingQueue (loop s)) @ filter imm (posted l) =
      filter imm (ran l) @ filter imm (work_queue (loop s') @ incomingQueue (loop s'))"
    if "loop_inv s" "loop_step s l s'" for s l and s' :: "'a system"
    using loop_step_queues(1) [OF that] by simp
qed (auto intro: loop_init_inv loop_inv_step)

lemma ml_conserves:
  "run loop_step s ls s' \<Longrightarrow> loop_inv s \<Longrightarrow>
   queued (loop s) + image_mset callback (mset (concat (map posted ls))) =
     image_mset callback (mset (concat (map ran ls))) + queued (loop s')"
proof (induction rule: run.induct)
  case (run_Cons s l s' ls s'')
  have "queued (loop s) + image_mset callback (mset (posted l)) = image_mset callback (mset (ran l)) + queued (loop s')"
    by (rule loop_step_queues(2) [OF run_Cons(4,1)])
  moreover note run_Cons(3) [OF loop_inv_step [OF run_Cons(4,1)]]
  ultimately have "queued (loop s) + image_mset callback (mset (posted l)) + image_mset callback (mset (concat (map posted ls))) =
      image_mset callback (mset (ran l)) + (image_mset callback (mset (concat (map ran ls))) + queued (loop s''))"
    by (simp only: add.assoc)
  then show ?case by (simp add: add.assoc)
qed simp

lemma not_early:
  assumes I: "loop_inv s" and st: "loop_step s (RunTask t) s'"
  shows "delayed_run_time t \<le> clock s"
  using st
proof (cases rule: loop_step.cases)
  case (drain_run l)
  then show ?thesis using drain_work_fifo [OF drain_run(3)] by (simp add: imm_def)
next
  case (delayed did)
  obtain r l where r: "doDelayedWork (clock s) (loop s) = (r, l)" by force
  have q: "queues_ok (clock s) (loop s)" using I by (simp add: loop_inv_def)
  show ?thesis using delayed(2) doDelayedWork_spec(3) [OF r q] by (cases r) (simp_all add: r called_def)
next
  case (idle_run l)
  then show ?thesis using doIdleWork_spec(2) [OF idle_run(3) refl] I by (auto simp: loop_inv_def queues_ok_def)
qed

lemma earliest_first:
  assumes I: "loop_inv s" and st: "loop_step s (RunTask t) s'" and p: "pos s = AtDelayed did" and u: "u \<in> set (delayedWorkQueue (loop s))"
  shows "delayed_run_time t \<le> delayed_run_time u"
  using st
proof (cases rule: loop_step.cases)
  case (delayed did)
  obtain r l where r: "doDelayedWork (clock s) (loop s) = (r, l)" by force
  have q: "queues_ok (clock s) (loop s)" using I by (simp add: loop_inv_def)
  show ?thesis using delayed(2) doDelayedWork_spec(3) [OF r q] u by (cases r) (simp_all add: r called_def)
qed (use p in simp_all)

section \<open>Properties\<close>

text \<open>Property C19: in every run of the message loop, with posts from any threads at any time, every posted task is
  run once or still in exactly one queue, and the tasks that are nestable and not delayed are run in the
  order in which they were posted.\<close>

theorem message_loop_order:
  assumes "loop_init s" "run loop_step s ls s'"
  shows "image_mset callback (mset (concat (map posted ls))) =
      image_mset callback (mset (concat (map ran ls))) + queued (loop s') \<and>
    concat (map (\<lambda>l. filter imm (posted l)) ls) =
      concat (map (\<lambda>l. filter imm (ran l)) ls) @ filter imm (work_queue (loop s') @ incomingQueue (loop s'))"
proof -
  have "queued (loop s) = {#}" "work_queue (loop s) = []" "incomingQueue (loop s) = []"
    using assms(1) by (auto simp: loop_init_def MessageLoop_new_def queued_def waiting_tasks_def)
  then show ?thesis
    using ml_conserves [OF assms(2) loop_init_inv [OF assms(1)]] ml.fifo_run [OF assms(2) loop_init_inv [OF assms(1)]]
    by simp
qed

lemmas loop_run = run.run_Cons [where step = loop_step]

lemmas loop_reach = reachable_step [where step = loop_step and init = loop_init]

abbreviation example_task :: "nat \<Rightarrow> nat PendingTask" where
  "example_task c \<equiv> \<lparr>callback = c, sequence_num = 0, delayed_run_time = 0, nestable = True\<rparr>"

abbreviation example_state :: "nat position \<Rightarrow> nat PendingTask list \<Rightarrow> nat \<Rightarrow> nat system" where
  "example_state p q d \<equiv> \<lparr>loop = MessageLoop_new\<lparr>incomingQueue := q\<rparr>, pos = p, clock = 5, due = d, notifying = 0\<rparr>"

abbreviation example_later :: "nat PendingTask" where
  "example_later \<equiv> \<lparr>callback = 2, sequence_num = 0, delayed_run_time = 20000005, nestable = True\<rparr>"

text \<open>A delayed task waits.\<close>

abbreviation example_idling :: "nat PendingTask list \<Rightarrow> nat \<Rightarrow> nat \<Rightarrow> bool \<Rightarrow> nat position \<Rightarrow> nat system" where
  "example_idling q n k w p \<equiv>
     \<lparr>loop = MessageLoop_new\<lparr>incomingQueue := q, delayedWorkQueue := [example_later], next_sequence_num := 1,
        delayedWorkTime := 20000005, recent_time := 5, have_work := w\<rparr>,
      pos = p, clock = 5, due = n, notifying = k\<rparr>"

lemma example_post: "q = [] \<Longrightarrow> loop_step (example_state p q d) (Post (example_task 1)) (example_state p [example_task 1] (d + 1))"
  using loop_step.post [of "example_state p q d" 1 0 True True "MessageLoop_new\<lparr>incomingQueue := [example_task 1]\<rparr>"]
  by (simp add: addToIncomingQueue_def calculateDelayedRuntime_def MessageLoop_new_def)

lemma message_loop_order_witness:
  "concat (map (\<lambda>l. filter imm (posted l)) [Post (example_task 1)]) = [example_task 1]"
proof -
  have "loop_init (example_state Outside [] 0)" by (auto simp: loop_init_def MessageLoop_new_def)
  from message_loop_order [OF this loop_run [OF example_post run.run_Nil], OF refl]
  show ?thesis by (simp add: ran_def imm_def MessageLoop_new_def)
qed

text \<open>Property C20: no wake-up is lost in the wait without a limit: while the loop thread waits there, nothing is in its own
  queues, and when a task has been posted, either a poster is about to set the flag and to notify, or the flag is set and
  its notification is still to come. While the thread waits with a limit, delayed tasks wait and no others of its own
  queues; the limit, in whole milliseconds from the moment at which it was computed, is not after the time of any of them,
  and the wait ends later only by the time that the thread needed to begin it; when a task has been posted, the flag is
  set or will be, but the notification may have gone before the wait, and then the task waits for the limit (or for the
  next notification).\<close>

theorem no_lost_wakeup:
  assumes "reachable loop_init loop_step s"
  shows "(pos s = Sleeping \<longrightarrow> work_queue (loop s) = [] \<and> deferredQueue (loop s) = [] \<and> delayedWorkQueue (loop s) = [] \<and>
      (incomingQueue (loop s) \<noteq> [] \<longrightarrow> due s > 0 \<or> have_work (loop s) \<and> notifying s > 0)) \<and>
    (\<forall>c b d. pos s = TimedSleep c b d \<longrightarrow> work_queue (loop s) = [] \<and> deferredQueue (loop s) = [] \<and>
      delayedWorkQueue (loop s) \<noteq> [] \<and> c \<le> b \<and> b \<le> clock s \<and>
      (\<forall>t \<in> set (delayedWorkQueue (loop s)). c + d * ms \<le> delayed_run_time t) \<and>
      (incomingQueue (loop s) \<noteq> [] \<longrightarrow> have_work (loop s) \<or> due s > 0))"
proof -
  have I: "loop_inv s" by (rule ml.inv_reachable [OF assms])
  have first: "delayed_run_time (hd q) \<le> delayed_run_time t" if "by_time q" "t \<in> set q" for q :: "'a PendingTask list" and t
    using that by (cases q) auto
  have "pos s = Sleeping \<longrightarrow> work_queue (loop s) = [] \<and> deferredQueue (loop s) = [] \<and> delayedWorkQueue (loop s) = [] \<and>
      (incomingQueue (loop s) \<noteq> [] \<longrightarrow> due s > 0 \<or> have_work (loop s) \<and> notifying s > 0)"
    using I by (auto simp: loop_inv_def)
  moreover have "pos s = TimedSleep c b d \<Longrightarrow> work_queue (loop s) = [] \<and> deferredQueue (loop s) = [] \<and>
      delayedWorkQueue (loop s) \<noteq> [] \<and> c \<le> b \<and> b \<le> clock s \<and> c + d * ms \<le> delayed_run_time (hd (delayedWorkQueue (loop s))) \<and>
      by_time (delayedWorkQueue (loop s)) \<and> (incomingQueue (loop s) \<noteq> [] \<longrightarrow> have_work (loop s) \<or> due s > 0)" for c b d
    using I by (simp add: loop_inv_def queues_ok_def timed_ok_def)
  ultimately show ?thesis using first by (meson le_trans)
qed

lemma example_sleeping: "reachable loop_init loop_step (example_state Sleeping [] 0)"
proof -
  have "reachable loop_init loop_step (example_state Outside [] 0)"
    by (rule reachable_init) (auto simp: loop_init_def MessageLoop_new_def)
  from reachable_step [OF this loop_step.run_again] have "reachable loop_init loop_step (example_state AtWork [] 0)" by simp
  from reachable_step [OF this loop_step.no_work [OF _ refl]]
  have "reachable loop_init loop_step (example_state (AtDelayed False) [] 0)"
    by (simp add: reloadWorkQueue_def MessageLoop_new_def proceed_def)
  from reachable_step [OF this loop_step.delayed [of _ False]]
  have "reachable loop_init loop_step (example_state AtIdle [] 0)"
    by (simp add: doDelayedWork_def MessageLoop_new_def called_def proceed_def)
  from reachable_step [OF this loop_step.idle_sleep]
  have "reachable loop_init loop_step (example_state AtSleep [] 0)"
    by (simp add: doIdleWork_def MessageLoop_new_def go_to_sleep_def Let_def)
  from reachable_step [OF this loop_step.wait] show ?thesis by (simp add: MessageLoop_new_def)
qed

lemma example_delayed_post: "loop_step (example_state AtWork [] 0) (Post example_later) (example_state AtWork [example_later] 1)"
  using loop_step.post [of "example_state AtWork [] 0" 2 20 True True "MessageLoop_new\<lparr>incomingQueue := [example_later]\<rparr>"]
  by (simp add: addToIncomingQueue_def calculateDelayedRuntime_def ms_def MessageLoop_new_def)

lemma example_idle: "reachable loop_init loop_step (example_idling [] 1 0 False AtIdle)"
proof -
  have "reachable loop_init loop_step (example_state Outside [] 0)"
    by (rule reachable_init) (auto simp: loop_init_def MessageLoop_new_def)
  from loop_reach [OF this loop_step.run_again] have "reachable loop_init loop_step (example_state AtWork [] 0)" by simp
  from loop_reach [OF loop_reach [OF this example_delayed_post] loop_step.reload [OF _ refl]]
  have "reachable loop_init loop_step
      \<lparr>loop = MessageLoop_new\<lparr>work_queue := [example_later]\<rparr>, pos = AtDrain, clock = 5, due = 1, notifying = 0\<rparr>"
    by (simp add: reloadWorkQueue_def MessageLoop_new_def)
  from loop_reach [OF this loop_step.drain_end]
  have "reachable loop_init loop_step
      \<lparr>loop = MessageLoop_new\<lparr>delayedWorkQueue := [example_later], next_sequence_num := 1, delayedWorkTime := 20000005\<rparr>,
       pos = AtWork, clock = 5, due = 1, notifying = 0\<rparr>"
    by (simp add: drain_work_Cons pq_emplace_def MessageLoop_new_def)
  from loop_reach [OF this loop_step.no_work [OF _ refl]]
  have "reachable loop_init loop_step
      \<lparr>loop = MessageLoop_new\<lparr>delayedWorkQueue := [example_later], next_sequence_num := 1, delayedWorkTime := 20000005\<rparr>,
       pos = AtDelayed False, clock = 5, due = 1, notifying = 0\<rparr>"
    by (simp add: reloadWorkQueue_def MessageLoop_new_def proceed_def)
  from loop_reach [OF this loop_step.delayed [of _ False]] show ?thesis
    by (simp add: doDelayedWork_def MessageLoop_new_def called_def proceed_def)
qed

text \<open>An immediate task is posted between \<open>doWork\<close> and the wait with a limit; its notification finds no waiter.\<close>

lemma example_lost: "reachable loop_init loop_step (example_idling [example_task 1] 0 0 True (TimedSleep 5 5 20))"
proof -
  have p: "loop_step (example_idling [] 1 0 False AtIdle) (Post (example_task 1)) (example_idling [example_task 1] 2 0 False AtIdle)"
    using loop_step.post [of "example_idling [] 1 0 False AtIdle" 1 0 True True]
    by (simp add: addToIncomingQueue_def calculateDelayedRuntime_def MessageLoop_new_def numeral_2_eq_2)
  have s: "loop_step (example_idling [example_task 1] (Suc n) k w AtIdle) Signal (example_idling [example_task 1] n (Suc k) True AtIdle)" for n k w
    using loop_step.signal [of "example_idling [example_task 1] (Suc n) k w AtIdle"] by (simp add: MessageLoop_new_def)
  have n: "loop_step (example_idling [example_task 1] n (Suc k) w AtIdle) Notify (example_idling [example_task 1] n k w AtIdle)" for n k w
    using loop_step.notify [of "example_idling [example_task 1] n (Suc k) w AtIdle"] by (simp add: notify_one_def)
  have "reachable loop_init loop_step (example_idling [example_task 1] 2 0 False AtIdle)"
    by (rule loop_reach [OF example_idle p])
  then have "reachable loop_init loop_step (example_idling [example_task 1] (Suc (Suc 0)) 0 False AtIdle)"
    by (simp only: numeral_2_eq_2)
  from loop_reach [OF loop_reach [OF this s] s]
  have "reachable loop_init loop_step (example_idling [example_task 1] 0 (Suc (Suc 0)) True AtIdle)" .
  from loop_reach [OF loop_reach [OF this n] n]
  have "reachable loop_init loop_step (example_idling [example_task 1] 0 0 True AtIdle)" .
  from loop_reach [OF this loop_step.idle_sleep]
  have "reachable loop_init loop_step (example_idling [example_task 1] 0 0 True (AtTimedSleep 5 20))"
    by (simp add: doIdleWork_def MessageLoop_new_def go_to_sleep_def delay_ms_def ms_def)
  from loop_reach [OF this loop_step.wait_for] show ?thesis by simp
qed

lemma no_lost_wakeup_witness:
  "due (example_state Sleeping [example_task 1] 1) > 0 \<and> 5 + 20 * ms \<le> delayed_run_time example_later"
proof -
  have s: "reachable loop_init loop_step (example_state Sleeping [example_task 1] 1)"
    using loop_reach [OF example_sleeping example_post [OF refl, of Sleeping 0]] by simp
  show ?thesis
    using no_lost_wakeup [OF s] no_lost_wakeup [OF example_lost] by simp
qed

text \<open>The wake-up that the wait with a limit loses: when the posters have notified before it began, a posted task is not
  run, whatever else is posted, until the limit is over or the operating system wakes the thread for no reason.\<close>

theorem timed_wakeup_lost:
  assumes "run loop_step s ls s'" "pos s = TimedSleep c b d" "incomingQueue (loop s) \<noteq> []" "due s = 0" "notifying s = 0"
    and "Spurious \<notin> set ls" "clock s' < b + d * ms"
  shows "pos s' = TimedSleep c b d \<and> concat (map ran ls) = []"
  using assms
proof (induction rule: run.induct)
  case (run_Cons s l s' ls s'')
  have "clock s' \<le> clock s''" using run_Cons.hyps(2) by (rule clock_run)
  then have c: "clock s < b + d * ms" using clock_step [OF run_Cons.hyps(1)] run_Cons.prems(6) by linarith
  have l: "l \<noteq> Spurious" using run_Cons.prems(5) by auto
  have "pos s' = pos s \<and> incomingQueue (loop s') \<noteq> [] \<and> due s' = 0 \<and> notifying s' = 0 \<and> ran l = []"
    using run_Cons.hyps(1)
    by (cases rule: loop_step.cases) (use run_Cons.prems(1-4) c l in \<open>auto simp: addToIncomingQueue_def ran_def\<close>)
  then show ?case using run_Cons.IH run_Cons.prems by simp
qed simp

lemma timed_wakeup_lost_witness:
  "\<exists>s. reachable loop_init loop_step s \<and> incomingQueue (loop s) = [example_task 1] \<and>
     (\<forall>ls s'. run loop_step s ls s' \<and> Spurious \<notin> set ls \<and> clock s' < 20000005 \<longrightarrow> concat (map ran ls) = [])"
proof (intro exI conjI allI impI)
  let ?s = "example_idling [example_task 1] 0 0 True (TimedSleep 5 5 20)"
  show "reachable loop_init loop_step ?s" by (rule example_lost)
  show "incomingQueue (loop ?s) = [example_task 1]" by simp
  show "concat (map ran ls) = []"
    if "run loop_step ?s ls s' \<and> Spurious \<notin> set ls \<and> clock s' < 20000005" for ls s'
    using timed_wakeup_lost [of ?s ls s' 5 5 20] that unfolding ms_def by auto
qed

text \<open>No task runs before its time, and among the delayed tasks one with the earliest time
  runs first.\<close>

theorem delayed_tasks_in_time:
  assumes "reachable loop_init loop_step s" "loop_step s (RunTask t) s'"
  shows "delayed_run_time t \<le> clock s \<and>
    (\<forall>did. pos s = AtDelayed did \<longrightarrow> (\<forall>u \<in> set (delayedWorkQueue (loop s)). delayed_run_time t \<le> delayed_run_time u))"
  using not_early [OF ml.inv_reachable [OF assms(1)] assms(2)]
    earliest_first [OF ml.inv_reachable [OF assms(1)] assms(2)] by blast

lemma delayed_tasks_in_time_witness: "delayed_run_time (example_task 1) \<le> 5"
proof -
  let ?s = "\<lparr>loop = MessageLoop_new\<lparr>work_queue := [example_task 1]\<rparr>, pos = AtDrain, clock = 5, due = 1, notifying = 0\<rparr>"
  have "reachable loop_init loop_step (example_state Outside [] 0)"
    by (rule reachable_init) (auto simp: loop_init_def MessageLoop_new_def)
  from loop_reach [OF this loop_step.run_again] have "reachable loop_init loop_step (example_state AtWork [] 0)" by simp
  from loop_reach [OF this example_post [OF refl]]
  have "reachable loop_init loop_step (example_state AtWork [example_task 1] 1)" by simp
  from loop_reach [OF this loop_step.reload [OF _ refl]] have "reachable loop_init loop_step ?s"
    by (simp add: reloadWorkQueue_def MessageLoop_new_def)
  moreover have "loop_step ?s (RunTask (example_task 1))
      (?s\<lparr>loop := MessageLoop_new\<lparr>nestableTasksAllowed := False\<rparr>, pos := InTask (example_task 1) ByWork\<rparr>)"
    by (rule loop_step.drain_run) (simp_all add: drain_work_Cons imm_def MessageLoop_new_def)
  ultimately show ?thesis using delayed_tasks_in_time by fastforce
qed

lemma delete_twice:
  "deletePendingTasks (snd (deletePendingTasks s)) = (False, snd (deletePendingTasks s))"
  "work_queue (snd (deletePendingTasks s)) = []" "deferredQueue (snd (deletePendingTasks s)) = []"
  "delayedWorkQueue (snd (deletePendingTasks s)) = []" "incomingQueue (snd (deletePendingTasks s)) = incomingQueue s"
proof -
  have f: "work_queue (fold (\<lambda>t s. if 0 < delayed_run_time t then addToDelayedWorkQueue t s else s) q s) = work_queue s"
    "incomingQueue (fold (\<lambda>t s. if 0 < delayed_run_time t then addToDelayedWorkQueue t s else s) q s) = incomingQueue s"
    for q and s :: "'a MessageLoop"
    by (induction q arbitrary: s) (simp_all add: addToDelayedWorkQueue_def)
  show "work_queue (snd (deletePendingTasks s)) = []" "deferredQueue (snd (deletePendingTasks s)) = []"
    "delayedWorkQueue (snd (deletePendingTasks s)) = []" "incomingQueue (snd (deletePendingTasks s)) = incomingQueue s"
    by (simp_all add: deletePendingTasks_def Let_def f)
  then show "deletePendingTasks (snd (deletePendingTasks s)) = (False, snd (deletePendingTasks s))"
    by (simp add: deletePendingTasks_def [of "snd (deletePendingTasks s)"] Let_def)
qed

text \<open>The destructor of the loop leaves after the first of its hundred rounds, because it asks the
  second call of \<open>deletePendingTasks\<close> whether there was work; what had been posted is deleted only when the
  work queue was empty, but all queues of the loop thread are.\<close>

theorem destructor_one_round:
  "MessageLoop_destroy s = (False, snd (deletePendingTasks (reloadWorkQueue s))) \<and>
   (let s' = snd (MessageLoop_destroy s)
    in work_queue s' = [] \<and> deferredQueue s' = [] \<and> delayedWorkQueue s' = [] \<and>
       incomingQueue s' = (if work_queue s = [] then [] else incomingQueue s))"
proof -
  have "MessageLoop_destroy s = (False, snd (deletePendingTasks (reloadWorkQueue s)))"
    using delete_twice(1) [of "reloadWorkQueue s"] by (simp add: MessageLoop_destroy_def eval_nat_numeral Let_def)
  moreover have "incomingQueue (reloadWorkQueue s) = (if work_queue s = [] then [] else incomingQueue s)"
    by (auto simp: reloadWorkQueue_def)
  ultimately show ?thesis using delete_twice [of "reloadWorkQueue s"] by (simp add: Let_def)
qed

end
