(* ===== verification/Sync_Util.thy ===== *)
theory Sync_Util
  imports Message_Loop Std_String
begin

text \<open>
  Model of small classes around threads: \<^verbatim>\<open>event.cpp\<close>, \<^verbatim>\<open>at_exit.cpp\<close>, \<^verbatim>\<open>thread_checker.cpp\<close>,
  \<^verbatim>\<open>message_loop_task_runner.cpp\<close> and \<^verbatim>\<open>task_runner.cpp\<close>, and the POSIX part of \<^verbatim>\<open>singleton_process.cpp\<close>. Locked
  sections are functions.
\<close>

section \<open>Events\<close>

text \<open>What a waiter finds each time it has the lock: whether the event is set, and whether its time is over. \<open>None\<close> is a
  waiter that still waits.\<close>

definition event_set :: "bool \<Rightarrow> bool" where "event_set is_set = True"

definition event_unset :: "bool \<Rightarrow> bool" where "event_unset is_set = False"

fun event_wait :: "int \<Rightarrow> (bool \<times> bool) list \<Rightarrow> bool option" where
  "event_wait millseconds [] = None"
| "event_wait millseconds ((is_set, time_over) # looks) =
     (if is_set then Some is_set
      else if millseconds \<ge> 0 \<and> time_over then Some is_set
      else event_wait millseconds looks)"

text \<open>The value that is returned is the one at the last look, and a wait without a limit returns only when the event is set.\<close>

lemma event_wait_result:
  "event_wait limit looks = Some b \<Longrightarrow> \<exists>over. (b, over) \<in> set looks \<and> (limit < 0 \<longrightarrow> b)"
  by (induction limit looks rule: event_wait.induct) (auto split: if_splits)

text \<open>An event that is set and unset between two looks is missed.\<close>

lemma event_pulse_missed: "event_wait (- 1) (replicate n (event_unset (event_set False), over)) = None"
  by (induction n) (simp_all add: event_unset_def)

section \<open>Callbacks at exit\<close>

text \<open>A callback is empty, does something, or calls a function of the manager.\<close>

datatype exit_callback = Empty | Acts nat | Registers exit_callback | Processes

record exit_managers =
  stacks :: "nat \<Rightarrow> exit_callback list"
  g_top_manager :: "nat option"
  called :: "nat list"

definition AtExitManager :: "nat \<Rightarrow> exit_managers \<Rightarrow> exit_managers" where
  "AtExitManager this s = s\<lparr>stacks := (stacks s)(this := []), g_top_manager := Some this\<rparr>"

definition RegisterCallback :: "exit_callback \<Rightarrow> exit_managers \<Rightarrow> exit_managers" where
  "RegisterCallback func s =
     (case g_top_manager s of None \<Rightarrow> s | Some m \<Rightarrow> s\<lparr>stacks := (stacks s)(m := func # stacks s m)\<rparr>)"

text \<open>The mutex is held and not recursive: a callback that comes back to the manager never returns.\<close>

fun process_loop :: "exit_callback list \<Rightarrow> nat list \<Rightarrow> nat list option" where
  "process_loop [] done = Some done"
| "process_loop (cb # stack) done =
     (case cb of
        Empty \<Rightarrow> process_loop stack done
      | Acts n \<Rightarrow> process_loop stack (done @ [n])
      | Registers _ \<Rightarrow> None
      | Processes \<Rightarrow> None)"

definition ProcessCallbacksNow :: "exit_managers \<Rightarrow> exit_managers option" where
  "ProcessCallbacksNow s =
     (case g_top_manager s of
        None \<Rightarrow> Some s
      | Some m \<Rightarrow> map_option (\<lambda>done. s\<lparr>stacks := (stacks s)(m := []), called := done\<rparr>) (process_loop (stacks s m) (called s)))"

definition AtExitManager_destroy :: "exit_managers \<Rightarrow> exit_managers option" where
  "AtExitManager_destroy s =
     (if g_top_manager s = None then Some s else map_option (\<lambda>s. s\<lparr>g_top_manager := None\<rparr>) (ProcessCallbacksNow s))"

text \<open>The numbers of the callbacks that do something, for callbacks that do not come back.\<close>

fun acts :: "exit_callback \<Rightarrow> nat list" where
  "acts (Acts n) = [n]"
| "acts _ = []"

definition simple :: "exit_callback \<Rightarrow> bool" where
  "simple cb \<longleftrightarrow> cb = Empty \<or> (\<exists>n. cb = Acts n)"

lemma process_loop_simple: "\<forall>cb \<in> set stack. simple cb \<Longrightarrow> process_loop stack ns = Some (ns @ concat (map acts stack))"
  by (induction stack ns rule: process_loop.induct) (auto simp: simple_def)

lemma process_loop_stuck: "\<exists>cb \<in> set stack. \<not> simple cb \<Longrightarrow> process_loop stack ns = None"
  by (induction stack ns rule: process_loop.induct) (auto simp: simple_def split: exit_callback.splits)

lemma fold_register:
  "g_top_manager s = Some m \<Longrightarrow> fold RegisterCallback cbs s = s\<lparr>stacks := (stacks s)(m := rev cbs @ stacks s m)\<rparr>"
proof (induction cbs arbitrary: s)
  case (Cons cb cbs)
  then show ?case by (simp add: RegisterCallback_def cong: if_cong)
qed simp

text \<open>at the end of the manager the callbacks are called, the last one first, unless one comes back to the manager,
  which never returns.\<close>

theorem at_exit_order:
  "AtExitManager_destroy (fold RegisterCallback cbs (AtExitManager m s)) =
     (if \<forall>cb \<in> set cbs. simple cb
      then Some (s\<lparr>stacks := (stacks s)(m := []), g_top_manager := None, called := called s @ concat (map acts (rev cbs))\<rparr>)
      else None)"
proof -
  have "fold RegisterCallback cbs (AtExitManager m s) = s\<lparr>stacks := (stacks s)(m := rev cbs), g_top_manager := Some m\<rparr>"
    by (simp add: fold_register [of _ m] AtExitManager_def)
  then show ?thesis
    using process_loop_simple [of "rev cbs" "called s"] process_loop_stuck [of "rev cbs" "called s"]
    by (auto simp: AtExitManager_destroy_def ProcessCallbacksNow_def)
qed

text \<open>of two managers only the younger one is known: when it is gone, what was registered with the older one is never
  called.\<close>

theorem at_exit_forgets:
  "Option.bind (AtExitManager_destroy (AtExitManager (m + 1) (RegisterCallback (Acts n) (AtExitManager m s)))) AtExitManager_destroy =
     Some (s\<lparr>stacks := (stacks s)(m := [Acts n], m + 1 := []), g_top_manager := None\<rparr>)"
  by (simp add: AtExitManager_destroy_def AtExitManager_def RegisterCallback_def ProcessCallbacksNow_def)

section \<open>Thread checkers\<close>

text \<open>The identity of a thread; \<open>None\<close> is the identity of no thread.\<close>

definition ThreadChecker :: "nat \<Rightarrow> nat option" where "ThreadChecker me = Some me"

definition calledOnValidThread :: "nat \<Rightarrow> nat option \<Rightarrow> bool" where "calledOnValidThread me thread_id \<longleftrightarrow> thread_id = Some me"

definition detachFromThread :: "nat option \<Rightarrow> nat option" where "detachFromThread thread_id = None"

text \<open>A detached checker is valid on no thread and never gets one again.\<close>

lemma detached_never_valid: "\<not> calledOnValidThread me (detachFromThread thread_id)"
  by (simp add: calledOnValidThread_def detachFromThread_def)

section \<open>Task runners\<close>

record 'c task_runner =
  runner_loop :: "'c MessageLoop option"
  runner_thread :: nat

text \<open>Every post goes to the loop when there is one; the flag is the one of the loop.\<close>

definition runner_call :: "('c MessageLoop \<Rightarrow> bool \<times> 'c MessageLoop) \<Rightarrow> 'c task_runner \<Rightarrow> bool \<times> 'c task_runner" where
  "runner_call f r =
     (case runner_loop r of None \<Rightarrow> (False, r) | Some l \<Rightarrow> let (b, l) = f l in (b, r\<lparr>runner_loop := Some l\<rparr>))"

definition runner_postTask :: "nat \<Rightarrow> 'c \<Rightarrow> 'c task_runner \<Rightarrow> bool \<times> 'c task_runner" where
  "runner_postTask now cb r = runner_call (addToIncomingQueue now cb 0 True) r"

definition runner_postDelayedTask :: "nat \<Rightarrow> 'c \<Rightarrow> int \<Rightarrow> 'c task_runner \<Rightarrow> bool \<times> 'c task_runner" where
  "runner_postDelayedTask now cb delay r = runner_call (addToIncomingQueue now cb delay True) r"

definition runner_postNonNestableTask :: "nat \<Rightarrow> 'c \<Rightarrow> 'c task_runner \<Rightarrow> bool \<times> 'c task_runner" where
  "runner_postNonNestableTask now cb r = runner_call (addToIncomingQueue now cb 0 False) r"

definition runner_postNonNestableDelayedTask :: "nat \<Rightarrow> 'c \<Rightarrow> int \<Rightarrow> 'c task_runner \<Rightarrow> bool \<times> 'c task_runner" where
  "runner_postNonNestableDelayedTask now cb delay r = runner_call (addToIncomingQueue now cb delay False) r"

definition runner_postQuit :: "nat \<Rightarrow> 'c \<Rightarrow> 'c task_runner \<Rightarrow> bool \<times> 'c task_runner" where
  "runner_postQuit now quitClosure r = runner_call (addToIncomingQueue now quitClosure 0 True) r"

definition willDestroyCurrentMessageLoop :: "'c task_runner \<Rightarrow> 'c task_runner" where
  "willDestroyCurrentMessageLoop r = r\<lparr>runner_loop := None\<rparr>"

definition belongsToCurrentThread :: "nat \<Rightarrow> 'c task_runner \<Rightarrow> bool" where
  "belongsToCurrentThread me r \<longleftrightarrow> runner_thread r = me"

text \<open>A call on a runner, and the task it makes.\<close>

datatype 'c runner_post =
  Post_task nat 'c | Post_delayed nat 'c int | Post_non_nestable nat 'c | Post_non_nestable_delayed nat 'c int | Post_quit nat 'c

fun do_post :: "'c runner_post \<Rightarrow> 'c task_runner \<Rightarrow> 'c task_runner" where
  "do_post (Post_task now cb) r = snd (runner_postTask now cb r)"
| "do_post (Post_delayed now cb delay) r = snd (runner_postDelayedTask now cb delay r)"
| "do_post (Post_non_nestable now cb) r = snd (runner_postNonNestableTask now cb r)"
| "do_post (Post_non_nestable_delayed now cb delay) r = snd (runner_postNonNestableDelayedTask now cb delay r)"
| "do_post (Post_quit now cb) r = snd (runner_postQuit now cb r)"

fun post_parts :: "'c runner_post \<Rightarrow> nat \<times> 'c \<times> int \<times> bool" where
  "post_parts (Post_task now cb) = (now, cb, 0, True)"
| "post_parts (Post_delayed now cb delay) = (now, cb, delay, True)"
| "post_parts (Post_non_nestable now cb) = (now, cb, 0, False)"
| "post_parts (Post_non_nestable_delayed now cb delay) = (now, cb, delay, False)"
| "post_parts (Post_quit now cb) = (now, cb, 0, True)"

definition task_of :: "'c runner_post \<Rightarrow> 'c PendingTask" where
  "task_of p = (case post_parts p of (now, cb, delay, nest) \<Rightarrow>
     \<lparr>callback = cb, sequence_num = 0, delayed_run_time = calculateDelayedRuntime now delay, nestable = nest\<rparr>)"

lemma do_post_loop:
  "runner_loop r = Some l \<Longrightarrow> do_post p r = r\<lparr>runner_loop := Some (l\<lparr>incomingQueue := incomingQueue l @ [task_of p]\<rparr>)\<rparr>"
  by (cases p) (simp_all add: runner_call_def addToIncomingQueue_def task_of_def runner_postTask_def runner_postDelayedTask_def
      runner_postNonNestableTask_def runner_postNonNestableDelayedTask_def runner_postQuit_def)

lemma do_post_none: "runner_loop r = None \<Longrightarrow> do_post p r = r"
  by (cases p) (simp_all add: runner_call_def runner_postTask_def runner_postDelayedTask_def
      runner_postNonNestableTask_def runner_postNonNestableDelayedTask_def runner_postQuit_def)

text \<open>what is posted to a runner is in the queue of its loop, in order and of the right kind; what is posted after the loop is
  gone is dropped.\<close>

theorem runner_posts:
  "fold do_post ps \<lparr>runner_loop = Some l, runner_thread = t\<rparr> =
     \<lparr>runner_loop = Some (l\<lparr>incomingQueue := incomingQueue l @ map task_of ps\<rparr>), runner_thread = t\<rparr> \<and>
   fold do_post qs (willDestroyCurrentMessageLoop r) = willDestroyCurrentMessageLoop r"
proof
  show "fold do_post ps \<lparr>runner_loop = Some l, runner_thread = t\<rparr> =
     \<lparr>runner_loop = Some (l\<lparr>incomingQueue := incomingQueue l @ map task_of ps\<rparr>), runner_thread = t\<rparr>"
    by (induction ps arbitrary: l) (simp_all add: do_post_loop)
  show "fold do_post qs (willDestroyCurrentMessageLoop r) = willDestroyCurrentMessageLoop r"
    by (induction qs) (simp_all add: do_post_none willDestroyCurrentMessageLoop_def)
qed

text \<open>The task of \<^verbatim>\<open>deleteSoon\<close>: the deleter and the object, and what has been deleted. It deletes when it runs and when it is
  destroyed.\<close>

record delete_helper =
  deleter_set :: bool
  object_ptr :: "nat option"
  deleted :: "nat list"

definition doDelete :: "delete_helper \<Rightarrow> delete_helper" where
  "doDelete h =
     (case object_ptr h of
        None \<Rightarrow> h
      | Some obj \<Rightarrow> if deleter_set h then h\<lparr>deleter_set := False, object_ptr := None, deleted := deleted h @ [obj]\<rparr> else h)"

lemma doDelete_again: "doDelete (doDelete h) = doDelete h"
  by (simp add: doDelete_def split: option.split)

text \<open>However often the task runs before it is destroyed, the object is deleted once.\<close>

lemma deleted_once:
  "deleted (doDelete ((doDelete ^^ n) \<lparr>deleter_set = True, object_ptr = Some obj, deleted = []\<rparr>)) = [obj]"
proof (induction n)
  case (Suc n)
  then show ?case by (simp add: doDelete_again)
qed (simp add: doDelete_def)

section \<open>A single process\<close>

record singleton_process =
  uniqueName :: str
  isPrimary :: bool

definition SingletonProcess :: singleton_process where
  "SingletonProcess = \<lparr>uniqueName = [], isPrimary = True\<rparr>"

text \<open>The lock of the file with the name may be held by another process.\<close>

definition check_primary :: "(str \<Rightarrow> bool) \<Rightarrow> singleton_process \<Rightarrow> singleton_process" where
  "check_primary held p =
     (let p = (if held (uniqueName p) then p\<lparr>isPrimary := False\<rparr> else p) in p\<lparr>isPrimary := True\<rparr>)"

definition markAndCheckStartup :: "(str \<Rightarrow> bool) \<Rightarrow> str \<Rightarrow> singleton_process \<Rightarrow> singleton_process" where
  "markAndCheckStartup held name p =
     (if uniqueName p = [] \<and> name \<noteq> [] then check_primary held (p\<lparr>uniqueName := name\<rparr>) else p)"

text \<open>Every process takes itself for the first one.\<close>

lemma always_primary: "isPrimary (markAndCheckStartup held name SingletonProcess)"
  by (simp add: markAndCheckStartup_def check_primary_def SingletonProcess_def Let_def)

end
