(* ===== verification/Sub_Process.thy ===== *)
theory Sub_Process
  imports Std_String
begin

text \<open>
  Model of the part of \<^verbatim>\<open>src/src/process.cpp\<close> for POSIX systems: the pipes and descriptors of a started process, what
  the child executes, the exit status and signals, and, in \<^verbatim>\<open>Process_Read\<close>, the thread that reads the output. The table
  of descriptors is a map; a call that needs one takes the lowest free one. Whether the system refuses a pipe or a fork
  is an argument. Results that are \<open>None\<close> are undefined behaviour.
\<close>

section \<open>Descriptors and children\<close>

datatype pipe_end = Read_end nat | Write_end nat | Other nat

type_synonym fd_table = "nat \<rightharpoonup> pipe_end"

datatype child_state = Alive | Dead nat

record os =
  fds :: fd_table
  fd_limit :: nat
  pipes :: nat
  children :: "int \<rightharpoonup> child_state"
  signals :: "(int \<times> nat) list"

definition lowest_free :: "nat \<Rightarrow> fd_table \<Rightarrow> nat option" where
  "lowest_free limit t = find (\<lambda>fd. t fd = None) [0..<limit]"

definition pipe :: "bool \<Rightarrow> os \<Rightarrow> ((nat \<times> nat) \<times> os) option" where
  "pipe refused s =
     (if refused then None
      else case lowest_free (fd_limit s) (fds s) of
             None \<Rightarrow> None
           | Some r \<Rightarrow>
               let t = (fds s)(r \<mapsto> Read_end (pipes s))
               in case lowest_free (fd_limit s) t of
                    None \<Rightarrow> None
                  | Some w \<Rightarrow> Some ((r, w), s\<lparr>fds := t(w \<mapsto> Write_end (pipes s)), pipes := Suc (pipes s)\<rparr>))"

definition close_in :: "nat \<Rightarrow> fd_table \<Rightarrow> fd_table" where
  "close_in fd t = t(fd := None)"

definition close_fd :: "nat \<Rightarrow> os \<Rightarrow> os" where
  "close_fd fd s = s\<lparr>fds := close_in fd (fds s)\<rparr>"

definition dup2 :: "nat \<Rightarrow> nat \<Rightarrow> fd_table \<Rightarrow> fd_table" where
  "dup2 old new t = (case t old of None \<Rightarrow> t | Some e \<Rightarrow> t(new \<mapsto> e))"

section \<open>The class\<close>

text \<open>A \<^verbatim>\<open>unique_ptr\<close> to a descriptor: it is null, or the descriptor in it has no value yet.\<close>

datatype fd_var = Null | Unset | Fd nat

record process =
  process_id :: int
  exit_status :: int
  closed :: bool
  stdin_fd :: fd_var
  stdout_fd :: fd_var
  stderr_fd :: fd_var
  read_stdout :: bool
  read_stderr :: bool
  open_stdin :: bool
  inherit_file_descriptors :: bool

definition Process_new :: "bool \<Rightarrow> bool \<Rightarrow> bool \<Rightarrow> bool \<Rightarrow> process" where
  "Process_new rout rerr pin inherit =
     \<lparr>process_id = - 1, exit_status = - 1, closed = True, stdin_fd = Null, stdout_fd = Null, stderr_fd = Null,
      read_stdout = rout, read_stderr = rerr, open_stdin = pin, inherit_file_descriptors = inherit\<rparr>"

definition successed :: "process \<Rightarrow> bool" where
  "successed this \<longleftrightarrow> process_id this \<noteq> - 1"

text \<open>\<^verbatim>\<open>x_fd_ && pipe(x_p) != 0\<close>: \<open>None\<close> is the failure.\<close>

definition pipe_if :: "fd_var \<Rightarrow> bool \<Rightarrow> os \<Rightarrow> ((nat \<times> nat) option \<times> os) option" where
  "pipe_if v refused s = (if v = Null then Some (None, s) else map_option (\<lambda>(p, s). (Some p, s)) (pipe refused s))"

definition close_pair :: "(nat \<times> nat) option \<Rightarrow> os \<Rightarrow> os" where
  "close_pair p s = (case p of None \<Rightarrow> s | Some (r, w) \<Rightarrow> close_fd w (close_fd r s))"

definition fd_max :: "int \<Rightarrow> nat" where
  "fd_max sysconf = (let m = min 8192 (sint (word_of_int sysconf :: 32 word)) in nat (if m < 0 then 8192 else m))"

definition child_closes :: "(nat \<times> nat) option \<Rightarrow> fd_table \<Rightarrow> fd_table" where
  "child_closes p t = (case p of None \<Rightarrow> t | Some (r, w) \<Rightarrow> close_in w (close_in r t))"

definition child_fds ::
  "int \<Rightarrow> bool \<Rightarrow> (nat \<times> nat) option \<Rightarrow> (nat \<times> nat) option \<Rightarrow> (nat \<times> nat) option \<Rightarrow> fd_table \<Rightarrow> fd_table" where
  "child_fds sysconf inherit stdin_p stdout_p stderr_p t =
     (let t = (case stdin_p of None \<Rightarrow> t | Some (r, w) \<Rightarrow> dup2 r 0 t);
          t = (case stdout_p of None \<Rightarrow> t | Some (r, w) \<Rightarrow> dup2 w 1 t);
          t = (case stderr_p of None \<Rightarrow> t | Some (r, w) \<Rightarrow> dup2 w 2 t);
          t = child_closes stderr_p (child_closes stdout_p (child_closes stdin_p t))
      in if inherit then t else fold close_in [3..<fd_max sysconf] t)"

definition close_end :: "nat option \<Rightarrow> os \<Rightarrow> os" where
  "close_end fd s = (case fd of None \<Rightarrow> s | Some fd \<Rightarrow> close_fd fd s)"

definition set_var :: "nat option \<Rightarrow> fd_var" where
  "set_var fd = (case fd of None \<Rightarrow> Null | Some fd \<Rightarrow> Fd fd)"

text \<open>The parent's side; the last component is the table of the child, when there is one.\<close>

definition open_process ::
  "(bool \<times> bool \<times> bool) \<Rightarrow> int \<Rightarrow> int \<Rightarrow> process \<Rightarrow> os \<Rightarrow> int \<times> process \<times> os \<times> fd_table option" where
  "open_process refused fork_result sysconf this s =
     (let this = this\<lparr>stdin_fd := (if open_stdin this then Unset else stdin_fd this),
                      stdout_fd := (if read_stdout this then Unset else stdout_fd this),
                      stderr_fd := (if read_stderr this then Unset else stderr_fd this)\<rparr>;
          (refused_in, refused_out, refused_err) = refused
      in case pipe_if (stdin_fd this) refused_in s of
           None \<Rightarrow> (- 1, this, s, None)
         | Some (stdin_p, s) \<Rightarrow>
             (case pipe_if (stdout_fd this) refused_out s of
                None \<Rightarrow> (- 1, this, close_pair stdin_p s, None)
              | Some (stdout_p, s) \<Rightarrow>
                  (case pipe_if (stderr_fd this) refused_err s of
                     None \<Rightarrow> (- 1, this, close_pair stdout_p (close_pair stdin_p s), None)
                   | Some (stderr_p, s) \<Rightarrow>
                       let pid = fork_result
                       in if pid < 0 then (pid, this, close_pair stderr_p (close_pair stdout_p (close_pair stdin_p s)), None)
                          else
                            let child = child_fds sysconf (inherit_file_descriptors this) stdin_p stdout_p stderr_p (fds s);
                                s = s\<lparr>children := (children s)(pid \<mapsto> Alive)\<rparr>;
                                s = close_end (map_option fst stdin_p) s;
                                s = close_end (map_option snd stdout_p) s;
                                s = close_end (map_option snd stderr_p) s;
                                this = this\<lparr>stdin_fd := set_var (map_option snd stdin_p),
                                            stdout_fd := set_var (map_option fst stdout_p),
                                            stderr_fd := set_var (map_option fst stderr_p), closed := False, process_id := pid\<rparr>
                            in (pid, this, s, Some child))))"

section \<open>What the child executes\<close>

datatype child_end = Exits nat | Executes str "str list" "str list option"

definition env_strs :: "(str \<times> str) list \<Rightarrow> str list" where
  "env_strs environment = map (\<lambda>e. fst e @ [61] @ snd e) environment"

text \<open>A program that can be executed replaces the child; otherwise \<^verbatim>\<open>exec\<close> returns and the child ends with
  \<^verbatim>\<open>EXIT_FAILURE\<close>. The parameters are the directories that can be entered and the programs that can be executed.\<close>

definition exec_or_fail :: "(str \<Rightarrow> bool) \<Rightarrow> str \<Rightarrow> str list \<Rightarrow> str list option \<Rightarrow> child_end" where
  "exec_or_fail executable path argv envp = (if executable path then Executes path argv envp else Exits 1)"

definition child_arguments ::
  "(str \<Rightarrow> bool) \<Rightarrow> (str \<Rightarrow> bool) \<Rightarrow> str list \<Rightarrow> str \<Rightarrow> (str \<times> str) list option \<Rightarrow> child_end" where
  "child_arguments chdir executable arguments current_folder environment =
     (if arguments = [] then Exits 127
      else if current_folder \<noteq> [] \<and> \<not> chdir current_folder then Exits 1
      else exec_or_fail executable (hd arguments) arguments (map_option env_strs environment))"

definition bin_sh :: str where
  "bin_sh = [47, 98, 105, 110, 47, 115, 104]"

definition child_command ::
  "(str \<Rightarrow> bool) \<Rightarrow> (str \<Rightarrow> bool) \<Rightarrow> str \<Rightarrow> str \<Rightarrow> (str \<times> str) list option \<Rightarrow> child_end" where
  "child_command chdir executable command current_folder environment =
     (if current_folder \<noteq> [] \<and> \<not> chdir current_folder then Exits 1
      else exec_or_fail executable bin_sh [bin_sh, [45, 99], command] (map_option env_strs environment))"

text \<open>On Windows the arguments become one command, with nothing but a space between them.\<close>

definition join_arguments :: "str list \<Rightarrow> str" where
  "join_arguments arguments = foldl (\<lambda>command argument. command @ (if command = [] then [] else [32]) @ argument) [] arguments"

text \<open>A space inside an argument cannot be told from one between two.\<close>

lemma join_arguments_ambiguous: "a \<noteq> [] \<Longrightarrow> join_arguments [a, b @ [32] @ c] = join_arguments [a, b, c]"
  by (simp add: join_arguments_def)

section \<open>Closing, writing, waiting and signals\<close>

text \<open>Both need the descriptor to have a value when there is a process.\<close>

definition close_var :: "int \<Rightarrow> fd_var \<Rightarrow> os \<Rightarrow> os option" where
  "close_var pid v s =
     (case v of
        Null \<Rightarrow> Some s
      | Unset \<Rightarrow> if pid > 0 then None else Some s
      | Fd fd \<Rightarrow> Some (if pid > 0 then close_fd fd s else s))"

definition closeStdin :: "process \<Rightarrow> os \<Rightarrow> (process \<times> os) option" where
  "closeStdin this s = map_option (\<lambda>s. (this\<lparr>stdin_fd := Null\<rparr>, s)) (close_var (process_id this) (stdin_fd this) s)"

definition close_fds :: "process \<Rightarrow> os \<Rightarrow> (process \<times> os) option" where
  "close_fds this s =
     Option.bind (closeStdin this s) (\<lambda>(this, s).
     Option.bind (close_var (process_id this) (stdout_fd this) s) (\<lambda>s.
       let this = this\<lparr>stdout_fd := Null\<rparr>
       in Option.bind (close_var (process_id this) (stderr_fd this) s) (\<lambda>s. Some (this\<lparr>stderr_fd := Null\<rparr>, s))))"

text \<open>The flag is whether the system takes the bytes.\<close>

definition write_stdin :: "bool \<Rightarrow> process \<Rightarrow> bool option" where
  "write_stdin ok this =
     (if \<not> open_stdin this then Some False
      else case stdin_fd this of Null \<Rightarrow> Some False | Unset \<Rightarrow> None | Fd fd \<Rightarrow> Some ok)"

text \<open>A wait reaps a child that is dead; \<open>None\<close> is \<^verbatim>\<open>ECHILD\<close>. An interrupted wait is repeated.\<close>

definition reap :: "int \<Rightarrow> os \<Rightarrow> os" where
  "reap pid s = s\<lparr>children := (children s)(pid := None)\<rparr>"

definition decode :: "nat \<Rightarrow> nat" where
  "decode status = (if status \<ge> 256 then status div 256 else status)"

text \<open>The number with which a child that still lives is going to end is \<open>ends\<close>.\<close>

definition getExitStatus :: "nat \<Rightarrow> process \<Rightarrow> os \<Rightarrow> (int \<times> process \<times> os) option" where
  "getExitStatus ends this s =
     (if process_id this \<le> 0 then Some (- 1, this, s)
      else case children s (process_id this) of
             None \<Rightarrow> Some (exit_status this, this, s)
           | Some c \<Rightarrow>
               let s = reap (process_id this) s;
                   status = int (decode (case c of Alive \<Rightarrow> ends | Dead n \<Rightarrow> n));
                   this = this\<lparr>exit_status := status, closed := True\<rparr>
               in map_option (\<lambda>(this, s). (status, this, s)) (close_fds this s))"

text \<open>The status is \<open>None\<close> when the call returns false.\<close>

definition tryGetExitStatus :: "process \<Rightarrow> os \<Rightarrow> (int option \<times> process \<times> os) option" where
  "tryGetExitStatus this s =
     (if process_id this \<le> 0 then Some (None, this, s)
      else case children s (process_id this) of
             None \<Rightarrow> Some (Some (exit_status this), this, s)
           | Some Alive \<Rightarrow> Some (None, this, s)
           | Some (Dead n) \<Rightarrow>
               let s = reap (process_id this) s;
                   status = int (decode n);
                   this = this\<lparr>exit_status := status, closed := True\<rparr>
               in map_option (\<lambda>(this, s). (Some status, this, s)) (close_fds this s))"

definition SIGINT :: nat where "SIGINT = 2"
definition SIGTERM :: nat where "SIGTERM = 15"

definition kill :: "bool \<Rightarrow> process \<Rightarrow> os \<Rightarrow> bool \<times> os" where
  "kill force this s =
     (if process_id this > 0 \<and> \<not> closed this
      then (children s (process_id this) \<noteq> None,
            s\<lparr>signals := signals s @ [(process_id this, if force then SIGTERM else SIGINT)]\<rparr>)
      else (False, s))"

definition killProcessTree :: "bool \<Rightarrow> process \<Rightarrow> os \<Rightarrow> os" where
  "killProcessTree force this s =
     (if process_id this > 0 \<and> \<not> closed this
      then s\<lparr>signals := signals s @ [(- process_id this, if force then SIGTERM else SIGINT)]\<rparr>
      else s)"

end
