(* ===== verification/Process_Laws.thy ===== *)
theory Process_Laws
  imports Sub_Process
begin

text \<open>
  What the started process and its descriptors keep: no descriptor is left behind on any path, the child has the ends of
  the pipes it should have and nothing else, the exit status, and when signals are sent.
\<close>

section \<open>Pipes\<close>

lemma lowest_free_Some: "lowest_free limit t = Some fd \<Longrightarrow> t fd = None \<and> fd < limit"
  by (auto simp: lowest_free_def find_Some_iff)

text \<open>A pipe takes two different descriptors that were free.\<close>

lemma pipe_Some:
  assumes "pipe refused s = Some (p, s')"
  obtains r w where "p = (r, w)" "r \<noteq> w" "fds s r = None" "fds s w = None"
    "s' = s\<lparr>fds := (fds s)(r \<mapsto> Read_end (pipes s), w \<mapsto> Write_end (pipes s)), pipes := Suc (pipes s)\<rparr>"
proof -
  from assms obtain r w where r: "lowest_free (fd_limit s) (fds s) = Some r"
    and w: "lowest_free (fd_limit s) ((fds s)(r \<mapsto> Read_end (pipes s))) = Some w" and p: "p = (r, w)"
    and s': "s' = s\<lparr>fds := (fds s)(r \<mapsto> Read_end (pipes s), w \<mapsto> Write_end (pipes s)), pipes := Suc (pipes s)\<rparr>"
    by (auto simp: pipe_def Let_def split: if_splits option.splits)
  from lowest_free_Some [OF w] have "r \<noteq> w" "fds s w = None"
    by (auto split: if_splits)
  with p s' lowest_free_Some [OF r] show thesis
    by (intro that) auto
qed

text \<open>What the two ends of a pipe that may be there are, in a table.\<close>

fun ends_of :: "(nat \<times> nat) option \<Rightarrow> nat set" where
  "ends_of None = {}"
| "ends_of (Some (r, w)) = {r, w}"

lemma finite_ends_of [simp]: "finite (ends_of p)"
  by (cases p rule: ends_of.cases) auto

fun with_pipe :: "(nat \<times> nat) option \<Rightarrow> os \<Rightarrow> os" where
  "with_pipe None s = s"
| "with_pipe (Some (r, w)) s =
     s\<lparr>fds := (fds s)(r \<mapsto> Read_end (pipes s), w \<mapsto> Write_end (pipes s)), pipes := Suc (pipes s)\<rparr>"

definition free_pair :: "(nat \<times> nat) option \<Rightarrow> os \<Rightarrow> bool" where
  "free_pair p s \<longleftrightarrow> (\<forall>r w. p = Some (r, w) \<longrightarrow> r \<noteq> w \<and> fds s r = None \<and> fds s w = None)"

lemma pipe_if_Some:
  assumes "pipe_if v refused s = Some (p, s')"
  shows "s' = with_pipe p s \<and> free_pair p s \<and> (p = None \<longleftrightarrow> v = Null)"
  using assms by (auto simp: pipe_if_def free_pair_def split: if_splits elim!: pipe_Some)

lemma close_pair_with_pipe: "free_pair p s \<Longrightarrow> fds (close_pair p (with_pipe p s)) = fds s"
  by (cases p rule: ends_of.cases) (auto simp: close_pair_def close_fd_def close_in_def free_pair_def)

lemma fds_close_pair: "fds (close_pair p s) = fds s |` (- ends_of p)"
  by (cases p rule: ends_of.cases)
    (auto simp: close_pair_def close_fd_def close_in_def restrict_map_def)

lemma fds_with_pipe: "fd \<notin> ends_of p \<Longrightarrow> fds (with_pipe p s) fd = fds s fd"
  by (cases p rule: ends_of.cases) auto

lemma free_ends: "free_pair p s \<Longrightarrow> fd \<in> ends_of p \<Longrightarrow> fds s fd = None"
  by (cases p rule: ends_of.cases) (auto simp: free_pair_def)

lemma close_pairs:
  assumes "free_pair p s" "free_pair q (with_pipe p s)" "free_pair r (with_pipe q (with_pipe p s))"
  shows "fds (close_pair q (close_pair p (with_pipe q (with_pipe p s)))) = fds s"
    and "fds (close_pair r (close_pair q (close_pair p (with_pipe r (with_pipe q (with_pipe p s)))))) = fds s"
proof -
  have p: "fds s fd = None" if "fd \<in> ends_of p" for fd
    using that assms(1) by (rule free_ends [rotated])
  have q: "fds s fd = None" if "fd \<in> ends_of q" for fd
    using free_ends [OF assms(2) that] p fds_with_pipe [of fd p s] by (cases "fd \<in> ends_of p") auto
  have r: "fds s fd = None" if "fd \<in> ends_of r" for fd
    using free_ends [OF assms(3) that] p q fds_with_pipe [of fd p s] fds_with_pipe [of fd q "with_pipe p s"]
    by (cases "fd \<in> ends_of p"; cases "fd \<in> ends_of q") auto
  show "fds (close_pair q (close_pair p (with_pipe q (with_pipe p s)))) = fds s"
    by (rule ext) (simp add: fds_close_pair restrict_map_def p q fds_with_pipe)
  show "fds (close_pair r (close_pair q (close_pair p (with_pipe r (with_pipe q (with_pipe p s)))))) = fds s"
    by (rule ext) (simp add: fds_close_pair restrict_map_def p q r fds_with_pipe)
qed

section \<open>Opening and closing\<close>

text \<open>An object before its process is started.\<close>

definition fresh :: "process \<Rightarrow> bool" where
  "fresh this \<longleftrightarrow> process_id this = - 1 \<and> stdin_fd this = Null \<and> stdout_fd this = Null \<and> stderr_fd this = Null"

lemma fresh_new: "fresh (Process_new rout rerr pin inherit)"
  by (simp add: fresh_def Process_new_def)

text \<open>The two ways out of \<^verbatim>\<open>open\<close>.\<close>

definition failed_open :: "process \<Rightarrow> os \<Rightarrow> int \<Rightarrow> process \<Rightarrow> os \<Rightarrow> bool" where
  "failed_open this s r this' s' \<longleftrightarrow> r < 0 \<and> process_id this' = process_id this \<and> closed this' = closed this \<and>
     fds s' = fds s \<and> children s' = children s \<and> open_stdin this' = open_stdin this"

definition parent_ends :: "(nat \<times> nat) option \<Rightarrow> (nat \<times> nat) option \<Rightarrow> (nat \<times> nat) option \<Rightarrow> fd_table \<Rightarrow> fd_table" where
  "parent_ends p q r t = t |` (- (set_option (map_option fst p) \<union> set_option (map_option snd q) \<union> set_option (map_option snd r)))"

definition opened_with ::
  "(nat \<times> nat) option \<Rightarrow> (nat \<times> nat) option \<Rightarrow> (nat \<times> nat) option \<Rightarrow> int \<Rightarrow> int \<Rightarrow> process \<Rightarrow> os \<Rightarrow> process \<Rightarrow> os \<Rightarrow>
   fd_table \<Rightarrow> bool" where
  "opened_with p q r sysconf pid this s this' s' child \<longleftrightarrow>
     (let s1 = with_pipe p s; s2 = with_pipe q s1; s3 = with_pipe r s2
      in free_pair p s \<and> free_pair q s1 \<and> free_pair r s2 \<and> (p = None \<longleftrightarrow> \<not> open_stdin this) \<and>
         (q = None \<longleftrightarrow> \<not> read_stdout this) \<and> (r = None \<longleftrightarrow> \<not> read_stderr this) \<and>
         fds s' = parent_ends p q r (fds s3) \<and> children s' = (children s)(pid \<mapsto> Alive) \<and> signals s' = signals s \<and>
         child = child_fds sysconf (inherit_file_descriptors this) p q r (fds s3) \<and>
         process_id this' = pid \<and> \<not> closed this' \<and> stdin_fd this' = set_var (map_option snd p) \<and>
         stdout_fd this' = set_var (map_option fst q) \<and> stderr_fd this' = set_var (map_option fst r))"

lemma close_pair_simps [simp]: "children (close_pair p s) = children s" "signals (close_pair p s) = signals s"
  by (simp_all add: close_pair_def close_fd_def split: option.split)

lemma with_pipe_simps [simp]: "children (with_pipe p s) = children s" "signals (with_pipe p s) = signals s"
  by (cases p rule: ends_of.cases; simp)+

lemma close_end_simps [simp]:
  "children (close_end fd s) = children s" "signals (close_end fd s) = signals s"
  "fds (close_end fd s) = fds s |` (- set_option fd)"
  by (auto simp: close_end_def close_fd_def close_in_def restrict_map_def split: option.split)

declare with_pipe.simps [simp del] ends_of.simps [simp del]

lemma open_process_cases:
  assumes "open_process refused pid sysconf this s = (r, this', s', c)" "fresh this"
  obtains "failed_open this s r this' s'" "c = None"
  | p q r' child where "r = pid" "0 \<le> pid" "c = Some child" "opened_with p q r' sysconf pid this s this' s' child"
proof -
  obtain ri ro re where refused: "refused = (ri, ro, re)" by (cases refused)
  let ?new = "this\<lparr>stdin_fd := (if open_stdin this then Unset else stdin_fd this),
    stdout_fd := (if read_stdout this then Unset else stdout_fd this),
    stderr_fd := (if read_stderr this then Unset else stderr_fd this)\<rparr>"
  note def = assms(1) [unfolded open_process_def refused Let_def prod.case]
  show thesis
  proof (cases "pipe_if (stdin_fd ?new) ri s")
    case None
    with def show thesis by (intro that(1)) (auto simp: failed_open_def simp del: not_None_eq)
  next
    case (Some x)
    obtain p s1 where x: "x = (p, s1)" by (cases x)
    note p = pipe_if_Some [OF Some [unfolded x]]
    note def = def [unfolded Some x option.case prod.case]
    show thesis
    proof (cases "pipe_if (stdout_fd ?new) ro s1")
      case None
      with def p show thesis by (intro that(1)) (auto simp: failed_open_def close_pair_with_pipe simp del: not_None_eq)
    next
      case (Some y)
      obtain q s2 where y: "y = (q, s2)" by (cases y)
      note q = pipe_if_Some [OF Some [unfolded y]]
      note def = def [unfolded Some y option.case prod.case]
      show thesis
      proof (cases "pipe_if (stderr_fd ?new) re s2")
        case None
        with def p q close_pairs(1) [of p s q None] show thesis
          by (intro that(1)) (auto simp: failed_open_def free_pair_def simp del: not_None_eq)
      next
        case (Some z)
        obtain r' s3 where z: "z = (r', s3)" by (cases z)
        note r = pipe_if_Some [OF Some [unfolded z]]
        note def = def [unfolded Some z option.case prod.case]
        show thesis
        proof (cases "pid < 0")
          case True
          with def p q r close_pairs(2) [of p s q r'] show thesis
            by (intro that(1)) (auto simp: failed_open_def simp del: not_None_eq)
        next
          case False
          with def p q r assms(2) show thesis
            by (intro that(2) [of "child_fds sysconf (inherit_file_descriptors this) p q r' (fds s3)" p q r'])
              (auto simp: opened_with_def Let_def fresh_def parent_ends_def restrict_map_def Int_commute split: if_splits simp del: not_None_eq)
        qed
      qed
    qed
  qed
qed

text \<open>Closing what a started process has left open takes its three descriptors away.\<close>

lemma close_var_set: "0 < pid \<Longrightarrow> close_var pid (set_var fd) s = Some (close_end fd s)"
  by (auto simp: close_var_def set_var_def close_end_def split: option.split)

lemma close_fds_set:
  assumes "stdin_fd this = set_var a" "stdout_fd this = set_var b" "stderr_fd this = set_var c" "0 < process_id this"
  shows "close_fds this s =
    Some (this\<lparr>stdin_fd := Null, stdout_fd := Null, stderr_fd := Null\<rparr>, close_end c (close_end b (close_end a s)))"
  using assms by (simp add: close_fds_def closeStdin_def close_var_set)

lemma close_fds_opened:
  assumes "opened_with p q r sysconf pid this s this' s' child" "0 < pid"
  shows "close_fds this' t = Some (this'\<lparr>stdin_fd := Null, stdout_fd := Null, stderr_fd := Null\<rparr>,
    close_end (map_option fst r) (close_end (map_option fst q) (close_end (map_option snd p) t)))"
  using assms by (intro close_fds_set) (simp_all add: opened_with_def Let_def)

lemma close_var_simps: "close_var pid v s = Some s' \<Longrightarrow> children s' = children s \<and> signals s' = signals s"
  by (auto simp: close_var_def close_fd_def split: fd_var.splits if_splits)

lemma close_fds_simps:
  assumes "close_fds this s = Some (this', s')"
  shows "children s' = children s \<and> signals s' = signals s \<and> closed this' = closed this \<and> process_id this' = process_id this \<and>
    exit_status this' = exit_status this"
  using assms by (auto simp: close_fds_def closeStdin_def Let_def bind_eq_Some_conv dest!: close_var_simps)

lemma ends_of_split: "ends_of p = set_option (map_option fst p) \<union> set_option (map_option snd p)"
  by (cases p rule: ends_of.cases) (auto simp: ends_of.simps)

lemma opened_close_fds:
  assumes "opened_with p q r sysconf pid this s this' s' child"
  shows "fds (close_end (map_option fst r) (close_end (map_option fst q) (close_end (map_option snd p) s'))) = fds s"
proof -
  let ?t = "with_pipe r (with_pipe q (with_pipe p s))"
  from assms have f: "free_pair p s" "free_pair q (with_pipe p s)" "free_pair r (with_pipe q (with_pipe p s))"
    and s': "fds s' = parent_ends p q r (fds ?t)"
    by (simp_all add: opened_with_def Let_def)
  have "fds (close_end (map_option fst r) (close_end (map_option fst q) (close_end (map_option snd p) s'))) =
      fds (close_pair r (close_pair q (close_pair p ?t)))"
    by (rule ext) (auto simp: s' parent_ends_def fds_close_pair restrict_map_def ends_of_split)
  with close_pairs(2) [OF f] show ?thesis by simp
qed

text \<open>Property C34: \<open>open\<close> leaves no descriptor behind. Whichever pipe or fork fails, the table of the parent is what it was and no
  child is there; when the process is started, closing its descriptors gives that table back.\<close>

theorem open_no_leak:
  assumes "open_process refused pid sysconf this s = (r, this', s', c)" "fresh this" "pid \<noteq> 0"
  shows "\<exists>this'' s''. close_fds this' s' = Some (this'', s'') \<and> fds s'' = fds s \<and>
    (c = None \<longrightarrow> \<not> successed this' \<and> fds s' = fds s \<and> children s' = children s)"
  using assms(1,2)
proof (cases rule: open_process_cases)
  case 1
  then show ?thesis
    using assms(2) by (auto simp: failed_open_def fresh_def successed_def close_fds_def closeStdin_def close_var_def Let_def
        split: fd_var.split)
next
  case (2 p q r' child)
  then show ?thesis
    using close_fds_opened [OF 2(4)] opened_close_fds [OF 2(4)] assms(3) by auto
qed

section \<open>The child\<close>

lemma fold_close: "fold close_in [a..<b] t = (\<lambda>fd. if a \<le> fd \<and> fd < b then None else t fd)"
proof (induction b)
  case (Suc b)
  then show ?case by (auto simp: close_in_def fun_eq_iff)
qed simp

text \<open>The pipes of a parent whose standard descriptors are open.\<close>

definition std_open :: "os \<Rightarrow> bool" where
  "std_open s \<longleftrightarrow> (\<forall>fd < 3. fds s fd \<noteq> None)"

lemma free_pair_high:
  assumes "free_pair p s" "std_open s"
  shows "free_pair p s \<and> (\<forall>fd \<in> ends_of p. 3 \<le> fd) \<and> std_open (with_pipe p s)"
  using assms by (cases p rule: ends_of.cases)
    (auto simp: free_pair_def std_open_def ends_of.simps with_pipe.simps not_less [symmetric])

lemma child_closes_off: "fd \<notin> ends_of p \<Longrightarrow> child_closes p t fd = t fd"
  by (cases p rule: ends_of.cases) (auto simp: child_closes_def close_in_def ends_of.simps)

lemma child_closes_on: "fd \<in> ends_of p \<or> t fd = None \<Longrightarrow> child_closes p t fd = None"
  by (cases p rule: ends_of.cases) (auto simp: child_closes_def close_in_def ends_of.simps)

lemma pipe_ends:
  assumes "free_pair (Some (a, b)) s"
  shows "fds (with_pipe (Some (a, b)) s) a = Some (Read_end (pipes s))" "fds (with_pipe (Some (a, b)) s) b = Some (Write_end (pipes s))"
  using assms by (auto simp: free_pair_def with_pipe.simps)

lemma pipe_keeps: "free_pair p s \<Longrightarrow> fds s fd \<noteq> None \<Longrightarrow> fds (with_pipe p s) fd = fds s fd"
  by (metis fds_with_pipe free_ends)

lemma pipes_with_pipe: "pipes (with_pipe p s) = pipes s + (if p = None then 0 else 1)"
  by (cases p rule: ends_of.cases) (auto simp: with_pipe.simps)

definition dup_ends ::
  "(nat \<times> nat) option \<Rightarrow> (nat \<times> nat) option \<Rightarrow> (nat \<times> nat) option \<Rightarrow> fd_table \<Rightarrow> nat \<Rightarrow> pipe_end option" where
  "dup_ends p q r t fd =
     (if fd = 0 then (case p of None \<Rightarrow> t 0 | Some (a, b) \<Rightarrow> t a)
      else if fd = 1 then (case q of None \<Rightarrow> t 1 | Some (a, b) \<Rightarrow> t b)
      else if fd = 2 then (case r of None \<Rightarrow> t 2 | Some (a, b) \<Rightarrow> t b) else t fd)"

lemma child_fds_eq:
  assumes "\<forall>fd \<in> ends_of p \<union> ends_of q \<union> ends_of r. 3 \<le> fd \<and> t fd \<noteq> None"
  shows "child_fds sysconf inherit p q r t fd =
    (if (3 \<le> fd \<and> fd < fd_max sysconf \<and> \<not> inherit) \<or> fd \<in> ends_of p \<union> ends_of q \<union> ends_of r then None else dup_ends p q r t fd)"
proof -
  let ?d = "(let t = (case p of None \<Rightarrow> t | Some (a, b) \<Rightarrow> dup2 a 0 t);
          t = (case q of None \<Rightarrow> t | Some (a, b) \<Rightarrow> dup2 b 1 t)
      in case r of None \<Rightarrow> t | Some (a, b) \<Rightarrow> dup2 b 2 t)"
  let ?c = "child_closes r (child_closes q (child_closes p ?d))"
  have d: "?d fd = dup_ends p q r t fd" for fd
    using assms by (auto simp: Let_def dup2_def dup_ends_def ends_of.simps split: option.splits)
  have "?c fd = (if fd \<in> ends_of p \<union> ends_of q \<union> ends_of r then None else dup_ends p q r t fd)"
    using child_closes_on [of fd p ?d] child_closes_on [of fd q "child_closes p ?d"]
      child_closes_on [of fd r "child_closes q (child_closes p ?d)"]
      child_closes_off [of fd p ?d] child_closes_off [of fd q "child_closes p ?d"]
      child_closes_off [of fd r "child_closes q (child_closes p ?d)"] d [of fd]
    by (cases "fd \<in> ends_of p"; cases "fd \<in> ends_of q"; cases "fd \<in> ends_of r") simp_all
  moreover have "child_fds sysconf inherit p q r t fd = (if inherit then ?c else fold close_in [3..<fd_max sysconf] ?c) fd"
    unfolding child_fds_def Let_def by simp
  ultimately show ?thesis
    by (auto simp: fold_close)
qed

text \<open>One of the three streams: when it is wanted, the child has one end of a pipe as its standard descriptor and the object
  has the other; otherwise the child inherits the descriptor.\<close>

definition connected ::
  "bool \<Rightarrow> nat \<Rightarrow> pipe_end \<Rightarrow> fd_table \<Rightarrow> fd_var \<Rightarrow> pipe_end \<Rightarrow> fd_table \<Rightarrow> fd_table \<Rightarrow> bool" where
  "connected wanted std child_end child v parent_end parent before \<longleftrightarrow>
     (if wanted then child std = Some child_end \<and> (\<exists>fd. v = Fd fd \<and> parent fd = Some parent_end)
      else child std = before std \<and> v = Null)"

lemma three_pipes:
  fixes s p q r
  defines "s1 \<equiv> with_pipe p s"
  defines "s2 \<equiv> with_pipe q s1"
  defines "s3 \<equiv> with_pipe r s2"
  assumes p: "free_pair p s" and q: "free_pair q s1" and r: "free_pair r s2"
  shows "p = Some y \<Longrightarrow> fds s3 (fst y) = Some (Read_end (pipes s)) \<and> fds s3 (snd y) = Some (Write_end (pipes s))"
    and "q = Some y \<Longrightarrow> fds s3 (fst y) = Some (Read_end (pipes s1)) \<and> fds s3 (snd y) = Some (Write_end (pipes s1))"
    and "r = Some y \<Longrightarrow> fds s3 (fst y) = Some (Read_end (pipes s2)) \<and> fds s3 (snd y) = Some (Write_end (pipes s2))"
    and "fd \<in> ends_of p \<union> ends_of q \<union> ends_of r \<Longrightarrow> fds s fd = None"
    and "fd \<notin> ends_of p \<union> ends_of q \<union> ends_of r \<Longrightarrow> fds s3 fd = fds s fd"
proof -
  have keep2: "fds s3 fd = fds s2 fd" if "fds s2 fd \<noteq> None" for fd
    using pipe_keeps [OF r that] by (simp add: s3_def)
  have keep1: "fds s3 fd = fds s1 fd" if "fds s1 fd \<noteq> None" for fd
    using pipe_keeps [OF q that] keep2 that by (simp add: s2_def)
  show "fds s3 (fst y) = Some (Read_end (pipes s)) \<and> fds s3 (snd y) = Some (Write_end (pipes s))" if "p = Some y"
    using pipe_ends [of "fst y" "snd y" s] p that keep1 [of "fst y"] keep1 [of "snd y"] by (simp add: s1_def)
  show "fds s3 (fst y) = Some (Read_end (pipes s1)) \<and> fds s3 (snd y) = Some (Write_end (pipes s1))" if "q = Some y"
    using pipe_ends [of "fst y" "snd y" s1] q that keep2 [of "fst y"] keep2 [of "snd y"] by (simp add: s2_def)
  show "fds s3 (fst y) = Some (Read_end (pipes s2)) \<and> fds s3 (snd y) = Some (Write_end (pipes s2))" if "r = Some y"
    using pipe_ends [of "fst y" "snd y" s2] r that by (simp add: s3_def)
  have up: "fds s1 fd \<noteq> None \<and> fds s2 fd \<noteq> None" if "fds s fd \<noteq> None" for fd
    using that pipe_keeps [OF p, of fd] pipe_keeps [OF q, of fd] by (simp add: s1_def [symmetric] s2_def [symmetric])
  show "fds s fd = None" if "fd \<in> ends_of p \<union> ends_of q \<union> ends_of r"
    using that up [of fd] free_ends [OF p, of fd] free_ends [OF q, of fd] free_ends [OF r, of fd] by (metis UnE)
  show "fds s3 fd = fds s fd" if "fd \<notin> ends_of p \<union> ends_of q \<union> ends_of r"
    using that by (simp add: s3_def s2_def s1_def fds_with_pipe)
qed

lemma connectedI:
  assumes "wanted \<longleftrightarrow> x \<noteq> None" "child std = (case x of None \<Rightarrow> before std | Some y \<Rightarrow> t (f y))" "v = set_var (map_option g x)"
    "\<And>y. x = Some y \<Longrightarrow> t (f y) = Some child_end \<and> t (g y) = Some parent_end \<and> parent (g y) = t (g y)"
  shows "connected wanted std child_end child v parent_end parent before"
  using assms by (cases x) (auto simp: connected_def set_var_def)

lemma opened_plumbing:
  assumes o: "opened_with p q r sysconf pid this s this' s' child" and std: "std_open s"
  shows "connected (open_stdin this) 0 (Read_end (pipes s)) child (stdin_fd this') (Write_end (pipes s)) (fds s') (fds s)"
    "connected (read_stdout this) 1 (Write_end (pipes s + of_bool (open_stdin this))) child (stdout_fd this')
       (Read_end (pipes s + of_bool (open_stdin this))) (fds s') (fds s)"
    "connected (read_stderr this) 2 (Write_end (pipes s + of_bool (open_stdin this) + of_bool (read_stdout this))) child
       (stderr_fd this') (Read_end (pipes s + of_bool (open_stdin this) + of_bool (read_stdout this))) (fds s') (fds s)"
    "\<forall>fd. child (fd + 3) = (if \<not> inherit_file_descriptors this \<and> fd + 3 < fd_max sysconf then None else fds s (fd + 3))"
proof -
  define s1 where "s1 = with_pipe p s"
  define s2 where "s2 = with_pipe q s1"
  define s3 where "s3 = with_pipe r s2"
  from o have p: "free_pair p s" and q: "free_pair q s1" and r: "free_pair r s2"
    and none: "p = None \<longleftrightarrow> \<not> open_stdin this" "q = None \<longleftrightarrow> \<not> read_stdout this" "r = None \<longleftrightarrow> \<not> read_stderr this"
    and s': "fds s' = parent_ends p q r (fds s3)"
    and child: "child = child_fds sysconf (inherit_file_descriptors this) p q r (fds s3)"
    and vars: "stdin_fd this' = set_var (map_option snd p)" "stdout_fd this' = set_var (map_option fst q)"
      "stderr_fd this' = set_var (map_option fst r)"
    by (simp_all add: opened_with_def Let_def s1_def s2_def s3_def)
  note t = three_pipes [OF p q [unfolded s1_def] r [unfolded s2_def s1_def], folded s1_def, folded s2_def, folded s3_def]
  have numbers: "pipes s1 = pipes s + of_bool (open_stdin this)"
    "pipes s2 = pipes s + of_bool (open_stdin this) + of_bool (read_stdout this)"
    using none by (simp_all add: s1_def s2_def pipes_with_pipe)
  have ends: "fd \<in> ends_of p \<union> ends_of q \<union> ends_of r \<Longrightarrow> 3 \<le> fd \<and> fds s3 fd \<noteq> None" for fd
    using t(4) [of fd] std [unfolded std_open_def, rule_format, of fd] t(1-3)
    by (cases p rule: ends_of.cases; cases q rule: ends_of.cases; cases r rule: ends_of.cases)
      (auto simp: ends_of.simps not_less [symmetric])
  then have "\<forall>fd \<in> ends_of p \<union> ends_of q \<union> ends_of r. 3 \<le> fd \<and> fds s3 fd \<noteq> None" by blast
  note c = child_fds_eq [OF this, of sysconf "inherit_file_descriptors this", folded child]
  have notin: "fd \<notin> ends_of p \<union> ends_of q \<union> ends_of r" if "fd < 3" for fd
    using ends [of fd] that by auto
  have parent: "fds s' fd = fds s3 fd"
    if "\<not> open_stdin this \<or> fds s3 fd \<noteq> Some (Read_end (pipes s))" "fds s3 fd \<noteq> Some (Write_end (pipes s1))" "fds s3 fd \<noteq> Some (Write_end (pipes s2))"
    for fd
  proof -
    have "fd \<notin> set_option (map_option fst p)" "fd \<notin> set_option (map_option snd q)" "fd \<notin> set_option (map_option snd r)"
      using that t(1-3) none(1) by (cases p; cases q; cases r; force)+
    then show ?thesis by (simp add: s' parent_ends_def restrict_map_def)
  qed
  have lows: "child 0 = (case p of None \<Rightarrow> fds s 0 | Some y \<Rightarrow> fds s3 (fst y))"
      "child 1 = (case q of None \<Rightarrow> fds s 1 | Some y \<Rightarrow> fds s3 (snd y))"
      "child 2 = (case r of None \<Rightarrow> fds s 2 | Some y \<Rightarrow> fds s3 (snd y))"
    using c [of 0] c [of 1] c [of 2] notin [of 0] notin [of 1] notin [of 2] t(5) [of 0] t(5) [of 1] t(5) [of 2]
    by (auto simp: dup_ends_def case_prod_beta split: option.split)
  have less: "pipes s \<noteq> pipes s1" if "p = Some y" for y
    using that by (simp add: s1_def pipes_with_pipe)
  show "connected (open_stdin this) 0 (Read_end (pipes s)) child (stdin_fd this') (Write_end (pipes s)) (fds s') (fds s)"
    using none(1) lows(1) vars(1) t(1) parent less numbers by (intro connectedI [where x = p and f = fst and g = snd and t = "fds s3"]) auto
  show "connected (read_stdout this) 1 (Write_end (pipes s + of_bool (open_stdin this))) child (stdout_fd this')
       (Read_end (pipes s + of_bool (open_stdin this))) (fds s') (fds s)"
    using none(2) lows(2) vars(2) t(2) parent less numbers by (intro connectedI [where x = q and f = snd and g = fst and t = "fds s3"]) auto
  show "connected (read_stderr this) 2 (Write_end (pipes s + of_bool (open_stdin this) + of_bool (read_stdout this))) child
       (stderr_fd this') (Read_end (pipes s + of_bool (open_stdin this) + of_bool (read_stdout this))) (fds s') (fds s)"
    using none(3) lows(3) vars(3) t(3) parent less numbers by (intro connectedI [where x = r and f = snd and g = fst and t = "fds s3"]) auto
  have "child fd = (if \<not> inherit_file_descriptors this \<and> fd < fd_max sysconf then None else fds s fd)" if "3 \<le> fd" for fd
    using c [of fd] t(4) [of fd] t(5) [of fd] that by (auto simp: dup_ends_def)
  then show "\<forall>fd. child (fd + 3) = (if \<not> inherit_file_descriptors this \<and> fd + 3 < fd_max sysconf then None else fds s (fd + 3))"
    by simp
qed

text \<open>Property C35: when the descriptors 0, 1 and 2 of the parent are open (\<open>std_open\<close>), a started process has, for each
  stream that is wanted, the matching ends of one pipe on both sides, and inherits the other standard descriptors. Without
  inheritance the other descriptors from 3 on are closed in the child below the limit that the system reports; those at the limit
  or above it, and with inheritance all of them, are as they were in the parent.\<close>

theorem open_plumbing:
  assumes "open_process refused pid sysconf this s = (r, this', s', Some child)" "fresh this" "std_open s"
  shows "connected (open_stdin this) 0 (Read_end (pipes s)) child (stdin_fd this') (Write_end (pipes s)) (fds s') (fds s) \<and>
    connected (read_stdout this) 1 (Write_end (pipes s + of_bool (open_stdin this))) child (stdout_fd this')
       (Read_end (pipes s + of_bool (open_stdin this))) (fds s') (fds s) \<and>
    connected (read_stderr this) 2 (Write_end (pipes s + of_bool (open_stdin this) + of_bool (read_stdout this))) child
       (stderr_fd this') (Read_end (pipes s + of_bool (open_stdin this) + of_bool (read_stdout this))) (fds s') (fds s) \<and>
    (\<forall>fd. child (fd + 3) = (if \<not> inherit_file_descriptors this \<and> fd + 3 < fd_max sysconf then None else fds s (fd + 3)))"
  using assms(1,2)
proof (cases rule: open_process_cases)
  case (2 p q r' c)
  with opened_plumbing [OF 2(4) assms(3)] show ?thesis by simp
qed simp

text \<open>A parent without a standard input: the pipe takes descriptor 0, and the child closes the end it has just been given.\<close>

definition no_fds :: os where
  "no_fds = \<lparr>fds = Map.empty, fd_limit = 8, pipes = 0, children = Map.empty, signals = []\<rparr>"

lemmas open_simps = open_process_def Process_new_def pipe_if_def pipe_def lowest_free_def upt_rec close_pair_def close_end_def
  close_fd_def close_in_def child_fds_def child_closes_def dup2_def set_var_def Let_def

lemma closed_stdin:
  "map_option (\<lambda>t. t 0) (snd (snd (snd (open_process (False, False, False) 7 8 (Process_new False False True True) no_fds)))) =
    Some None"
  by (simp add: open_simps no_fds_def)

text \<open>A failed start leaves the descriptor of the input without a value, and \<^verbatim>\<open>write\<close> uses it.\<close>

lemma write_after_failure:
  "write_stdin ok (fst (snd (open_process (True, False, False) 7 8 (Process_new False False True True) s))) = None"
  by (simp add: open_simps write_stdin_def)

section \<open>Exit status and signals\<close>

text \<open>Property C36: a child that exits with \<open>c\<close> gives the status \<open>c\<close>, in this and every later call, and the wait closes the
  descriptors of the object; afterwards no signal is sent.\<close>

theorem getExitStatus_exits:
  assumes "open_process refused pid sysconf this s = (pid, this', s', Some child)" "fresh this" "0 < pid" "c < 256"
  shows "\<exists>this'' s''. getExitStatus (256 * c) this' s' = Some (int c, this'', s'') \<and> fds s'' = fds s \<and>
    children s'' = (children s)(pid := None) \<and> tryGetExitStatus this'' s'' = Some (Some (int c), this'', s'') \<and>
    (\<forall>ends. getExitStatus ends this'' s'' = Some (int c, this'', s'')) \<and>
    (\<forall>force. kill force this'' s'' = (False, s'') \<and> killProcessTree force this'' s'' = s'')"
  using assms(1,2)
proof (cases rule: open_process_cases)
  case (2 p q r child')
  have c: "decode (256 * c) = c"
    by (simp add: decode_def)
  from 2(4) have pid: "process_id this' = pid" "children s' pid = Some Alive" "children s' = (children s)(pid \<mapsto> Alive)"
    by (simp_all add: opened_with_def Let_def)
  from 2(4) have vars: "stdin_fd this' = set_var (map_option snd p)" "stdout_fd this' = set_var (map_option fst q)"
    "stderr_fd this' = set_var (map_option fst r)" by (simp_all add: opened_with_def Let_def)
  have "close_fds (this'\<lparr>exit_status := int c, closed := True\<rparr>) (reap pid s') =
      Some (this'\<lparr>exit_status := int c, closed := True, stdin_fd := Null, stdout_fd := Null, stderr_fd := Null\<rparr>,
        close_end (map_option fst r) (close_end (map_option fst q) (close_end (map_option snd p) (reap pid s'))))"
    using vars pid(1) assms(3) by (subst close_fds_set) simp_all
  moreover have "fds (close_end (map_option fst r) (close_end (map_option fst q) (close_end (map_option snd p) (reap pid s')))) = fds s"
    using opened_close_fds [OF 2(4)] by (simp add: reap_def)
  ultimately show ?thesis
    using assms(3) by (simp add: getExitStatus_def tryGetExitStatus_def kill_def killProcessTree_def c pid(1,2) Let_def) (simp add: reap_def pid(3))
qed simp

text \<open>A child that is killed by a signal gives the same number as one that exits with it.\<close>

lemma decode_signal: "sig < 128 \<Longrightarrow> decode sig = decode (256 * sig)"
  by (simp add: decode_def)

text \<open>\<^verbatim>\<open>getExitStatus\<close> marks the object as closed after the wait. In between, the number of the child may be given to another
  process, and a concurrent \<^verbatim>\<open>kill\<close> sends its signal there.\<close>

datatype wait_phase = Before_wait | Reaped | Marked

inductive wait_step :: "process \<times> os \<times> wait_phase \<Rightarrow> process \<times> os \<times> wait_phase \<Rightarrow> bool" where
  wait_reaps: "children s (process_id this) = Some (Dead n) \<Longrightarrow>
    wait_step (this, s, Before_wait) (this, reap (process_id this) s, Reaped)"
| wait_marks: "wait_step (this, s, Reaped) (this\<lparr>closed := True\<rparr>, s, Marked)"
| wait_killed: "wait_step (this, s, ph) (this, snd (kill force this s), ph)"
| wait_reuses: "children s pid = None \<Longrightarrow> wait_step (this, s, ph) (this, s\<lparr>children := (children s)(pid \<mapsto> Alive)\<rparr>, ph)"

lemma kill_race:
  assumes "0 < process_id this" "\<not> closed this" "children s (process_id this) = Some (Dead n)"
  shows "\<exists>s'. wait_step\<^sup>*\<^sup>* (this, s, Before_wait) (this, s', Reaped) \<and> children s' (process_id this) = Some Alive \<and>
    signals s' = signals s @ [(process_id this, SIGINT)]"
proof -
  let ?r = "reap (process_id this) s"
  let ?u = "?r\<lparr>children := (children ?r)(process_id this \<mapsto> Alive)\<rparr>"
  have "wait_step (this, s, Before_wait) (this, ?r, Reaped)"
    using assms(3) by (rule wait_reaps)
  moreover have "wait_step (this, ?r, Reaped) (this, ?u, Reaped)"
    by (rule wait_reuses) (simp add: reap_def)
  moreover have "wait_step (this, ?u, Reaped) (this, snd (kill False this ?u), Reaped)"
    by (rule wait_killed)
  ultimately have "wait_step\<^sup>*\<^sup>* (this, s, Before_wait) (this, snd (kill False this ?u), Reaped)"
    by (meson converse_rtranclp_into_rtranclp rtranclp.rtrancl_refl)
  then show ?thesis
    using assms(1,2) by (intro exI [of _ "snd (kill False this ?u)"]) (simp add: kill_def reap_def)
qed

section \<open>Witnesses\<close>

definition std_fds :: os where
  "std_fds = \<lparr>fds = [0 \<mapsto> Other 0, 1 \<mapsto> Other 1, 2 \<mapsto> Other 2], fd_limit = 12, pipes = 0, children = Map.empty, signals = []\<rparr>"

definition started :: "int \<times> process \<times> os \<times> fd_table option" where
  "started = open_process (False, False, False) 7 8 (Process_new True False True False) std_fds"

lemma started_open: "open_process (False, False, False) 7 8 (Process_new True False True False) std_fds =
    (7, fst (snd started), fst (snd (snd started)), Some (the (snd (snd (snd started)))))"
  by (simp add: started_def open_simps std_fds_def)

lemma std_open_std_fds: "std_open std_fds"
  by (auto simp: std_open_def std_fds_def less_Suc_eq numeral_eq_Suc)

text \<open>With room for four more descriptors the third pipe cannot be made.\<close>

definition failed :: "int \<times> process \<times> os \<times> fd_table option" where
  "failed = open_process (False, False, False) 7 8 (Process_new True True True False) (std_fds\<lparr>fd_limit := 7\<rparr>)"

lemma failed_open_process:
  "open_process (False, False, False) 7 8 (Process_new True True True False) (std_fds\<lparr>fd_limit := 7\<rparr>) =
    (- 1, fst (snd failed), fst (snd (snd failed)), None)"
  by (simp add: failed_def open_simps std_fds_def)

theorem open_no_leak_witness:
  "\<not> successed (fst (snd failed)) \<and> fds (fst (snd (snd failed))) = fds std_fds \<and>
   (\<exists>this s. close_fds (fst (snd started)) (fst (snd (snd started))) = Some (this, s) \<and> fds s = fds std_fds)"
  using open_no_leak [OF failed_open_process fresh_new] open_no_leak [OF started_open fresh_new] by auto

theorem open_plumbing_witness:
  "connected True 0 (Read_end 0) (the (snd (snd (snd started)))) (stdin_fd (fst (snd started))) (Write_end 0)
     (fds (fst (snd (snd started)))) (fds std_fds) \<and>
   the (snd (snd (snd started))) 2 = Some (Other 2) \<and> (\<forall>fd. fds std_fds (fd + 3) = None \<and> the (snd (snd (snd started))) (fd + 3) = None)"
  using open_plumbing [OF started_open fresh_new std_open_std_fds]
  by (auto simp: Process_new_def std_fds_def connected_def)

theorem getExitStatus_exits_witness:
  "\<exists>this s. getExitStatus (256 * 3) (fst (snd started)) (fst (snd (snd started))) = Some (3, this, s) \<and> fds s = fds std_fds"
  using getExitStatus_exits [OF started_open fresh_new, of 3] by auto

end
