(* ===== verification/Process_Read.thy ===== *)
theory Process_Read
  imports Std_String
begin

text \<open>
  The thread of \<^verbatim>\<open>src/src/process.cpp\<close> that reads the output of a process: \<^verbatim>\<open>async_read\<close> with its loop around
  \<^verbatim>\<open>poll\<close>. The process writes to its ends of the pipes and closes them between two polls; a poll with nothing to report
  goes on waiting.
\<close>

section \<open>The pipes and poll\<close>

text \<open>A watched pipe: the descriptor of the \<^verbatim>\<open>pollfd\<close> is not negative, the two events of the last poll, the bytes in the
  pipe, whether the process still has its end, and all that it has written so far.\<close>

record channel =
  is_stdout :: bool
  fd_open :: bool
  pollin :: bool
  pollhup :: bool
  pending :: str
  writer :: bool
  sent :: str

definition act :: "str \<times> bool \<Rightarrow> channel \<Rightarrow> channel" where
  "act w c = (if writer c then c\<lparr>pending := pending c @ fst w, sent := sent c @ fst w, writer := \<not> snd w\<rparr> else c)"

definition poll_channel :: "channel \<Rightarrow> channel" where
  "poll_channel c = c\<lparr>pollin := fd_open c \<and> pending c \<noteq> [], pollhup := fd_open c \<and> \<not> writer c\<rparr>"

text \<open>\<open>None\<close>: nothing to report yet.\<close>

definition poll :: "channel list \<Rightarrow> channel list option" where
  "poll cs = (let cs = map poll_channel cs in if \<exists>c \<in> set cs. pollin c \<or> pollhup c then Some cs else None)"

section \<open>The loop\<close>

text \<open>The body for one descriptor: what is read, and whether it stays open. A read that finds nothing gives no call.\<close>

definition handle :: "nat \<Rightarrow> channel \<Rightarrow> channel \<times> (bool \<times> str) list \<times> bool" where
  "handle buffer_size c =
     (if \<not> fd_open c then (c, [], False)
      else
        let (c, calls) =
          (if pollin c
           then let n = take buffer_size (pending c)
                in (c\<lparr>pending := drop buffer_size (pending c)\<rparr>, if n \<noteq> [] then [(is_stdout c, n)] else [])
           else (c, []))
        in if pollhup c then (c\<lparr>fd_open := False\<rparr>, calls, False) else (c, calls, True))"

fun handle_all :: "nat \<Rightarrow> channel list \<Rightarrow> channel list \<times> (bool \<times> str) list \<times> bool" where
  "handle_all buffer_size [] = ([], [], False)"
| "handle_all buffer_size (c # cs) =
     (let (c, calls, o1) = handle buffer_size c; (cs, new, o2) = handle_all buffer_size cs
      in (c # cs, calls @ new, o1 \<or> o2))"

text \<open>How a call of \<^verbatim>\<open>poll\<close> ends: with events, as they are then, interrupted, with the old ones, or with another error.\<close>

datatype poll_result = Polled | Interrupted | Poll_error

text \<open>For each round what the process does before, and the end of the call. The flag says that the loop has ended.\<close>

fun read_loop ::
  "nat \<Rightarrow> ((str \<times> bool) list \<times> poll_result) list \<Rightarrow> channel list \<Rightarrow> (bool \<times> str) list \<Rightarrow>
   channel list \<times> (bool \<times> str) list \<times> bool" where
  "read_loop buffer_size [] cs calls = (cs, calls, False)"
| "read_loop buffer_size ((ws, p) # rounds) cs calls =
     (let cs = map2 act ws cs
      in case (case p of Polled \<Rightarrow> poll cs | _ \<Rightarrow> Some cs) of
           None \<Rightarrow> read_loop buffer_size rounds cs calls
         | Some cs \<Rightarrow>
             if p = Poll_error then (cs, calls, True)
             else
               let (cs, new, any_open) = handle_all buffer_size cs
               in if any_open then read_loop buffer_size rounds cs (calls @ new) else (cs, calls @ new, True))"

text \<open>The flags say whether the stream is wanted and, if so, whether its descriptor can be made non-blocking.\<close>

definition new_channel :: "bool \<Rightarrow> bool \<Rightarrow> channel" where
  "new_channel out ok =
     \<lparr>is_stdout = out, fd_open = ok, pollin = False, pollhup = False, pending = [], writer = True, sent = []\<rparr>"

definition pollfds :: "bool option \<Rightarrow> bool option \<Rightarrow> channel list" where
  "pollfds out err =
     (case out of None \<Rightarrow> [] | Some ok \<Rightarrow> [new_channel True ok]) @ (case err of None \<Rightarrow> [] | Some ok \<Rightarrow> [new_channel False ok])"

definition async_read ::
  "int \<Rightarrow> nat \<Rightarrow> bool option \<Rightarrow> bool option \<Rightarrow> ((str \<times> bool) list \<times> poll_result) list \<Rightarrow>
   channel list \<times> (bool \<times> str) list \<times> bool" where
  "async_read pid buffer_size out err rounds =
     (let cs = pollfds out err
      in if pid \<le> 0 \<or> (out = None \<and> err = None) then (cs, [], True)
         else if cs = [] then (cs, [], True) else read_loop buffer_size rounds cs [])"

section \<open>What is read is what was written\<close>

definition delivered :: "bool \<Rightarrow> (bool \<times> str) list \<Rightarrow> str" where
  "delivered out calls = concat (map snd (filter (\<lambda>c. fst c = out) calls))"

lemma delivered_simps [simp]:
  "delivered out [] = []" "delivered out (xs @ ys) = delivered out xs @ delivered out ys"
  "delivered out (x # xs) = (if fst x = out then snd x @ delivered out xs else delivered out xs)"
  by (simp_all add: delivered_def)

text \<open>What has been handed on and what is in the pipe make up what was written; a pipe is given up only when the process
  has closed its end, and then at most what is over the size of the buffer is left in it.\<close>

definition channel_inv :: "nat \<Rightarrow> str \<Rightarrow> channel \<Rightarrow> bool" where
  "channel_inv buffer_size got c \<longleftrightarrow> got @ pending c = sent c \<and>
     (fd_open c \<and> pollhup c \<longrightarrow> \<not> writer c \<and> (pollin c \<or> pending c = [])) \<and>
     (\<not> fd_open c \<longrightarrow> \<not> writer c \<and> (length (sent c) \<le> buffer_size \<longrightarrow> pending c = []))"

text \<open>At the head of the loop no watched pipe has been hung up.\<close>

definition at_head :: "nat \<Rightarrow> (bool \<Rightarrow> str) \<Rightarrow> channel list \<Rightarrow> bool" where
  "at_head buffer_size got cs \<longleftrightarrow>
     (\<forall>c \<in> set cs. channel_inv buffer_size (got (is_stdout c)) c \<and> (fd_open c \<longrightarrow> \<not> pollhup c))"

lemma act_inv: "channel_inv n got c \<Longrightarrow> channel_inv n got (act w c)"
  by (auto simp: channel_inv_def act_def)

lemma act_same [simp]: "is_stdout (act w c) = is_stdout c" "fd_open (act w c) = fd_open c" "pollhup (act w c) = pollhup c"
  by (simp_all add: act_def)

lemma poll_channel_inv: "channel_inv n got c \<Longrightarrow> channel_inv n got (poll_channel c)"
  by (auto simp: channel_inv_def poll_channel_def)

lemma poll_channel_same [simp]: "is_stdout (poll_channel c) = is_stdout c" "fd_open (poll_channel c) = fd_open c"
  by (simp_all add: poll_channel_def)

lemma map2_act:
  assumes "length ws = length cs" "\<forall>c \<in> set cs. P c" "\<And>w c. P c \<Longrightarrow> P (act w c)"
  shows "\<forall>c \<in> set (map2 act ws cs). P c"
  using assms(1,2) by (induction ws cs rule: list_induct2) (auto intro: assms(3))

lemma at_head_act: "at_head n got cs \<Longrightarrow> length ws = length cs \<Longrightarrow> at_head n got (map2 act ws cs)"
  unfolding at_head_def by (rule map2_act) (simp_all add: act_inv)

lemma map2_act_streams: "length ws = length cs \<Longrightarrow> map is_stdout (map2 act ws cs) = map is_stdout cs"
  by (induction ws cs rule: list_induct2) auto

lemma handle_spec:
  assumes "handle n c = (c', new, open_now)" "channel_inv n got c"
  shows "is_stdout c' = is_stdout c" "\<forall>x \<in> set new. fst x = is_stdout c" "open_now = fd_open c'"
    "channel_inv n (got @ delivered (is_stdout c) new) c'" "fd_open c' \<longrightarrow> \<not> pollhup c'"
proof -
  have d: "got @ take n (pending c) @ drop n (pending c) = sent c" using assms(2) by (simp add: channel_inv_def)
  have l: "length (sent c) \<le> n \<longrightarrow> drop n (pending c) = []"
    using assms(2) by (auto simp: channel_inv_def dest: arg_cong [of _ _ length])
  show "is_stdout c' = is_stdout c" "\<forall>x \<in> set new. fst x = is_stdout c" "open_now = fd_open c'" "fd_open c' \<longrightarrow> \<not> pollhup c'"
    using assms(1) by (auto simp: handle_def Let_def split: if_splits)
  show "channel_inv n (got @ delivered (is_stdout c) new) c'"
    using assms d l by (auto simp: handle_def Let_def channel_inv_def split: if_splits)
qed

lemma handle_stream: "handle n c = (c', new, open_now) \<Longrightarrow> is_stdout c' = is_stdout c \<and> fst ` set new \<subseteq> {is_stdout c}"
  by (auto simp: handle_def Let_def split: if_splits)

lemma handle_all_streams:
  "handle_all n cs = (cs', new, open_now) \<Longrightarrow> map is_stdout cs' = map is_stdout cs \<and> fst ` set new \<subseteq> is_stdout ` set cs"
proof (induction cs arbitrary: cs' new open_now)
  case (Cons c cs)
  obtain d xs o1 where h: "handle n c = (d, xs, o1)" by (cases "handle n c") auto
  obtain ds ys o2 where t: "handle_all n cs = (ds, ys, o2)" by (cases "handle_all n cs") auto
  from Cons.prems have "cs' = d # ds" "new = xs @ ys" by (simp_all add: h t)
  with handle_stream [OF h] Cons.IH [OF t] show ?case by (auto simp: image_Un)
qed simp

lemma delivered_other: "out \<notin> fst ` set calls \<Longrightarrow> delivered out calls = []"
  by (induction calls) auto

lemma handle_all_spec:
  assumes "handle_all n cs = (cs', new, open_now)" "distinct (map is_stdout cs)"
    "\<forall>c \<in> set cs. channel_inv n (got (is_stdout c)) c"
  shows "(open_now \<longleftrightarrow> (\<exists>c \<in> set cs'. fd_open c)) \<and> at_head n (\<lambda>out. got out @ delivered out new) cs'"
  using assms
proof (induction cs arbitrary: cs' new open_now)
  case (Cons c cs)
  obtain d xs o1 where h: "handle n c = (d, xs, o1)" by (cases "handle n c") auto
  obtain ds ys o2 where t: "handle_all n cs = (ds, ys, o2)" by (cases "handle_all n cs") auto
  from Cons.prems(1) have eq: "cs' = d # ds" "new = xs @ ys" "open_now = (o1 \<or> o2)" by (simp_all add: h t)
  have IH: "(o2 \<longleftrightarrow> (\<exists>c \<in> set ds. fd_open c)) \<and> at_head n (\<lambda>out. got out @ delivered out ys) ds"
    using Cons.IH [OF t] Cons.prems by simp
  have c: "channel_inv n (got (is_stdout c)) c" using Cons.prems(3) by simp
  note d = handle_spec [OF h c]
  have s: "is_stdout ` set ds = is_stdout ` set cs" "is_stdout c \<notin> is_stdout ` set cs" "fst ` set ys \<subseteq> is_stdout ` set cs"
    using handle_all_streams [OF t] Cons.prems(2) by (metis set_map, simp, simp)
  have c': "delivered (is_stdout c) new = delivered (is_stdout c) xs"
  proof -
    have "is_stdout c \<notin> fst ` set ys" using s(2,3) by (meson subsetD)
    then show ?thesis by (simp add: eq delivered_other)
  qed
  have ds: "delivered (is_stdout e) new = delivered (is_stdout e) ys" if "e \<in> set ds" for e
  proof -
    have "is_stdout e \<in> is_stdout ` set cs" using that s(1) by (metis imageI)
    then have "is_stdout e \<notin> fst ` set xs" using s(2) handle_stream [OF h] by (metis singletonD subsetD)
    then show ?thesis by (simp add: eq delivered_other)
  qed
  have "at_head n (\<lambda>out. got out @ delivered out new) ds"
    using IH ds unfolding at_head_def by metis
  moreover have "channel_inv n (got (is_stdout d) @ delivered (is_stdout d) new) d"
    using d(4) unfolding d(1) c' .
  moreover have "open_now \<longleftrightarrow> (\<exists>c \<in> set cs'. fd_open c)"
    using IH d(3) by (auto simp: eq)
  ultimately show ?case
    using d(5) unfolding at_head_def eq(1) by simp
qed (simp add: at_head_def)

text \<open>The number of streams stays, so every round has an action for each.\<close>

definition rounds_for :: "nat \<Rightarrow> ((str \<times> bool) list \<times> poll_result) list \<Rightarrow> bool" where
  "rounds_for k rounds \<longleftrightarrow> (\<forall>r \<in> set rounds. length (fst r) = k)"

lemma poll_spec:
  assumes "poll cs = Some cs'" "\<forall>c \<in> set cs. channel_inv n (got (is_stdout c)) c"
  shows "(\<forall>c \<in> set cs'. channel_inv n (got (is_stdout c)) c) \<and> map is_stdout cs' = map is_stdout cs"
  using assms by (auto simp: poll_def Let_def poll_channel_inv split: if_splits)

lemma poll_cases:
  assumes "(case p of Polled \<Rightarrow> poll cs | _ \<Rightarrow> Some cs) = Some cs'" "\<forall>c \<in> set cs. channel_inv n (got (is_stdout c)) c"
  shows "(\<forall>c \<in> set cs'. channel_inv n (got (is_stdout c)) c) \<and> map is_stdout cs' = map is_stdout cs"
  using assms poll_spec [OF _ assms(2)] by (cases p) auto

lemma read_loop_spec:
  assumes "read_loop n rounds cs calls = (cs', calls', ended)" "distinct (map is_stdout cs)" "rounds_for (length cs) rounds"
    "at_head n (\<lambda>out. delivered out calls) cs"
  shows "(\<forall>c \<in> set cs'. channel_inv n (delivered (is_stdout c) calls') c) \<and>
    (ended \<and> Poll_error \<notin> snd ` set rounds \<longrightarrow> (\<forall>c \<in> set cs'. \<not> fd_open c))"
  using assms
proof (induction n rounds cs calls arbitrary: cs' calls' ended rule: read_loop.induct)
  case (1 n cs calls)
  then show ?case by (auto simp: at_head_def)
next
  case (2 n ws p rounds cs calls)
  let ?cs = "map2 act ws cs"
  let ?next = "case p of Polled \<Rightarrow> poll ?cs | _ \<Rightarrow> Some ?cs"
  have len: "length ws = length cs" "rounds_for (length cs) rounds"
    using "2.prems"(3) by (simp_all add: rounds_for_def)
  have head: "at_head n (\<lambda>out. delivered out calls) ?cs"
    using "2.prems"(4) len(1) by (rule at_head_act)
  then have inv: "\<forall>c \<in> set ?cs. channel_inv n (delivered (is_stdout c) calls) c"
    by (simp add: at_head_def)
  have streams: "distinct (map is_stdout ?cs)" "length ?cs = length cs"
    using "2.prems"(2) map2_act_streams [OF len(1)] len(1) by simp_all
  show ?case
  proof (cases ?next)
    case None
    have run: "read_loop n rounds ?cs calls = (cs', calls', ended)"
      using "2.prems"(1) None by (cases p) simp_all
    have "rounds_for (length ?cs) rounds" using len(2) streams(2) by simp
    note IH = "2.IH"(1) [OF refl None run streams(1) this head]
    have "p = Polled" using None by (cases p) simp_all
    with IH show ?thesis by simp
  next
    case (Some cs2)
    note cs2 = poll_cases [where got = "\<lambda>out. delivered out calls", OF Some inv]
    note cs2 = conjunct1 [OF cs2] conjunct2 [OF cs2]
    obtain ds new any_open where h: "handle_all n cs2 = (ds, new, any_open)" by (cases "handle_all n cs2") auto
    from handle_all_spec [OF h _ cs2(1)] streams(1) cs2(2)
    have ds: "any_open = (\<exists>c \<in> set ds. fd_open c)" "at_head n (\<lambda>out. delivered out (calls @ new)) ds" by simp_all
    from handle_all_streams [OF h] cs2(2) have ds_streams: "map is_stdout ds = map is_stdout ?cs" by simp
    then have ds_len: "length ds = length cs" using streams(2) by (metis length_map)
    show ?thesis
    proof (cases "p = Poll_error")
      case True
      with "2.prems"(1) Some cs2(1) show ?thesis by simp
    next
      case False
      show ?thesis
      proof (cases any_open)
        case True
        have run: "read_loop n rounds ds (calls @ new) = (cs', calls', ended)"
          using "2.prems"(1) Some h True False by (simp only: read_loop.simps Let_def option.case prod.case if_True if_False)
        have "distinct (map is_stdout ds)" "rounds_for (length ds) rounds"
          using ds_streams ds_len streams(1) len(2) by simp_all
        note "2.IH"(2) [OF refl Some False h [symmetric] refl refl True run this ds(2)]
        with False show ?thesis by (simp only: list.set image_insert snd_conv insert_iff) blast
      next
        case no: False
        have "(cs', calls', ended) = (ds, calls @ new, True)"
          using "2.prems"(1) Some h no False by (simp only: read_loop.simps Let_def option.case prod.case if_True if_False)
        with ds no show ?thesis unfolding at_head_def by blast
      qed
    qed
  qed
qed

lemma pollfds_head:
  assumes "out \<noteq> Some False" "err \<noteq> Some False"
  shows "at_head n (\<lambda>out. delivered out []) (pollfds out err)" "distinct (map is_stdout (pollfds out err))"
    "pollfds out err = [] \<longleftrightarrow> out = None \<and> err = None"
  using assms by (auto simp: at_head_def pollfds_def new_channel_def channel_inv_def split: option.split)

text \<open>Property C37: at every moment the calls have handed on, in order and for each stream, exactly what the process has written, less
  what is still in the pipe. When the thread has ended the process has closed both ends, and a stream that is not longer
  than the buffer has been handed on completely.\<close>

theorem async_read_delivers:
  assumes "async_read pid n out err rounds = (cs, calls, ended)" "0 < pid" "out \<noteq> Some False" "err \<noteq> Some False"
    "rounds_for (length (pollfds out err)) rounds" "Poll_error \<notin> snd ` set rounds"
  shows "\<forall>c \<in> set cs. delivered (is_stdout c) calls @ pending c = sent c \<and>
    (ended \<longrightarrow> \<not> writer c \<and> (length (sent c) \<le> n \<longrightarrow> delivered (is_stdout c) calls = sent c))"
proof (cases "pollfds out err = []")
  case True
  with assms(1) pollfds_head(3) [OF assms(3,4)] show ?thesis by (auto simp: async_read_def Let_def)
next
  case False
  with assms(1,2) pollfds_head(3) [OF assms(3,4)] have "read_loop n rounds (pollfds out err) [] = (cs, calls, ended)"
    by (auto simp: async_read_def Let_def split: if_splits)
  from read_loop_spec [OF this pollfds_head(2) [OF assms(3,4)] assms(5) pollfds_head(1) [OF assms(3,4)]] assms(6) show ?thesis
    by (fastforce simp: channel_inv_def)
qed

text \<open>A process that writes more than a buffer and ends: the rest is never read.\<close>

lemma async_read_loses:
  "async_read 7 2 (Some True) None [([([1, 2, 3, 4, 5], True)], Polled)] =
    ([\<lparr>is_stdout = True, fd_open = False, pollin = True, pollhup = True, pending = [3, 4, 5], writer = False,
       sent = [1, 2, 3, 4, 5]\<rparr>], [(True, [1, 2])], True)"
  by (simp add: async_read_def pollfds_def new_channel_def act_def poll_def poll_channel_def handle_def Let_def)

section \<open>The threads on Windows\<close>

text \<open>Each stream has its thread, which reads until a read fails or gives nothing. The reads that the system makes of the
  output are the list: \<open>None\<close> is a failure. A read gives at most a buffer.\<close>

fun read_thread :: "str option list \<Rightarrow> str list" where
  "read_thread [] = []"
| "read_thread (None # reads) = []"
| "read_thread (Some bytes # reads) = (if bytes = [] then [] else bytes # read_thread reads)"

text \<open>The output in pieces of at most a buffer, and the failure when the other end is closed.\<close>

function chunks :: "nat \<Rightarrow> str \<Rightarrow> str option list" where
  "chunks n bytes = (if bytes = [] \<or> n = 0 then [None] else Some (take n bytes) # chunks n (drop n bytes))"
  by pat_completeness auto
termination
  by (relation "measure (\<lambda>(n, bytes). length bytes)") auto

declare chunks.simps [simp del]

lemma read_thread_chunks: "0 < n \<Longrightarrow> concat (read_thread (chunks n bytes)) = bytes"
proof (induction n bytes rule: chunks.induct)
  case (1 n bytes)
  then show ?case by (subst chunks.simps) (auto simp: append_take_drop_id)
qed

text \<open>A write of no bytes to the pipe ends the thread, and what comes after it is lost.\<close>

lemma read_thread_empty_write: "read_thread (map Some xs @ Some [] # reads) = takeWhile (\<lambda>x. x \<noteq> []) xs"
  by (induction xs) auto

section \<open>Witnesses\<close>

definition two_rounds :: "((str \<times> bool) list \<times> poll_result) list" where
  "two_rounds = [([([1, 2], False), ([9], True)], Polled), ([([], False), ([], False)], Interrupted), ([([3], True), ([], False)], Polled)]"

definition two_streams :: "channel list" where
  "two_streams = fst (async_read 7 4 (Some True) (Some True) two_rounds)"

lemmas run_simps = async_read_def pollfds_def new_channel_def act_def poll_def poll_channel_def handle_def Let_def

lemma two_rounds_run:
  "async_read 7 4 (Some True) (Some True) two_rounds = (two_streams, [(True, [1, 2]), (False, [9]), (True, [3])], True)"
  "hd two_streams \<in> set two_streams" "is_stdout (hd two_streams)"
  by (simp_all add: two_streams_def two_rounds_def run_simps)

theorem async_read_delivers_witness:
  "delivered True [(True, [1, 2]), (False, [9]), (True, [3])] @ pending (hd two_streams) = sent (hd two_streams)"
  using async_read_delivers [OF two_rounds_run(1)] two_rounds_run(2,3) by (auto simp: rounds_for_def pollfds_def two_rounds_def)

end
