(* ===== verification/Shellink.thy ===== *)
theory Shellink
  imports Byte_Order
begin

text \<open>
  Model of \<^verbatim>\<open>src/src/win/shellink_parser.cpp\<close>: the reader of the binary format of Windows shell links. The
  parser object is a record. The open file is the list of the bytes that are still to be read, so \<open>fseek\<close>
  from the current place drops bytes, and the comparison of two results of \<open>ftell\<close> is one of lengths. A
  statement of the reader goes on with a new object and the rest of the file, or returns an error code, or its
  behaviour is undefined. What the object holds after an error is not modelled, nor a failing \<open>malloc\<close>.
  Integers of the format have the byte order of the machine, which is little endian; \<^verbatim>\<open>wchar_t\<close> has 16 bits.
\<close>

section \<open>The data\<close>

datatype ShellinkErr =
    SHLLINK_ERR_FCL | SHLLINK_ERR_FIO | SHLLINK_ERR_WHEADS | SHLLINK_ERR_WCLSIDS | SHLLINK_ERR_INVLIHS
  | SHLLINK_ERR_VIDSLOW | SHLLINK_ERR_NULLPSTRDNAME | SHLLINK_ERR_NULLPSTRDRPATH | SHLLINK_ERR_NULLPSTRDWDIR
  | SHLLINK_ERR_NULLPSTRDARG | SHLLINK_ERR_NULLPSTRDICO | SHLLINK_ERR_UNKEDBSIG | SHLLINK_ERRX_WRONGSIZE
  | SHLLINK_ERRX_WRONGVERSION | SHLLINK_ERR_NULLPEXTD | SHLLINK_ERRX_NULLPSTRFNAME | SHLLINK_ERRX_NULLPSTRDARDA
  | SHLLINK_ERRX_NULLPSTRDARDU | SHLLINK_ERRX_NULLPSTRENVDA | SHLLINK_ERRX_NULLPSTRENVDU
  | SHLLINK_ERRX_NULLPSTRIENVDA | SHLLINK_ERRX_NULLPSTRIENVDU

type_synonym uint16 = "16 word"

type_synonym wide = "uint16 list"

record LinkHeader =
  LinkCLSID_L :: uint64
  LinkCLSID_H :: uint64
  LinkFlags :: uint64
  TargetFileAttributes :: uint64
  CreationTime :: uint64
  AccessTime :: uint64
  WriteTime :: uint64
  FileSize :: uint32
  IconIndex :: uint32
  ShowCommand :: uint32
  HotKey :: uint16

record VolumeID =
  VolumeIDSize :: uint32
  DriveType :: uint32
  DriveSerialNumber :: uint32
  VolumeLabelOffset :: uint32
  VolumeLabelOffsetUnicode :: uint32
  Data :: "byte list"

record CommonNetworkRelativeLink =
  CommonNetworkRelativeSize :: uint32
  ComNetRelLnkFlags :: uint64
  NetNameOffset :: uint32
  DeviceNameOffset :: uint32
  NetworkProviderType :: uint32
  NetNameOffsetUnicode :: uint32
  DeviceNameOffsetUnicode :: uint32
  NetName :: "byte list"
  DeviceName :: "byte list"
  NetNameUnicode :: wide
  DeviceNameUnicode :: wide

record LinkInfo =
  LinkInfoSize :: uint32
  LinkInfoHeaderSize :: uint32
  LnkInfFlags :: uint64
  VolumeIDOffset :: uint32
  LocalBasePathOffset :: uint32
  CommonNetworkRelativeLinkOffset :: uint32
  CommonPathSuffixOffset :: uint32
  LocalBasePathOffsetUnicode :: uint32
  CommonPathSuffixOffsetUnicode :: uint32
  VolID :: VolumeID
  LocalBasePath :: "byte list"
  CommonNetRelLnk :: CommonNetworkRelativeLink
  CommonPathSuffix :: "byte list"
  LocalBasePathUnicode :: wide
  CommonPathSuffixUnicode :: wide

record StringData =
  NameStringW :: wide
  NameStringA :: "byte list"
  RelativePathW :: wide
  RelativePathA :: "byte list"
  WorkingDirW :: wide
  WorkingDirA :: "byte list"
  CommandLineArgumentsW :: wide
  CommandLineArgumentsA :: "byte list"
  IconLocationW :: wide
  IconLocationA :: "byte list"

record ConsoleDataBlock =
  FillAttributes :: uint64
  PopupFillAttributes :: uint64
  ScreenBufferSizeX :: uint16
  ScreenBufferSizeY :: uint16
  WindowSizeX :: uint16
  WindowSizeY :: uint16
  WindowOriginX :: uint16
  WindowOriginY :: uint16
  FontSize :: uint32
  FontFamilys :: uint64
  FontWeight :: uint32
  FaceName :: wide
  CursorSize :: uint32
  FullScreen :: uint32
  QuickEdit :: uint32
  InsertMode :: uint32
  AutoPosition :: uint32
  HistoryBufferSize :: uint32
  NumberOfHistoryBuffers :: uint32
  HistoryNoDup :: uint32
  ColorTable :: "uint32 list"

text \<open>The three blocks with an ANSI and a wide text: \<^verbatim>\<open>DarwinDataBlock\<close>, \<^verbatim>\<open>EnvironmentVariableDataBlock\<close> and
  \<^verbatim>\<open>IconEnvironmentDataBlock\<close>.\<close>

record TargetDataBlock =
  TargetAnsi :: "byte list"
  TargetUnicode :: wide

record KnownFolderDataBlock =
  KnownFolderID :: "byte list"
  KnownFolder_Offset :: uint32

record PropertyStoreDataBlock =
  PropertyStore_BlockSize :: uint32
  PropertyStore :: "byte list"

record ShimDataBlock =
  Shim_BlockSize :: uint32
  LayerName :: wide

record SpecialFolderDataBlock =
  SpecialFolderID :: uint32
  SpecialFolder_Offset :: uint32

record TrackerDataBlock =
  Tracker_Length :: uint32
  Tracker_Version :: uint32
  MachineID :: "byte list"
  Droid :: "byte list"
  DroidBirth :: "byte list"

record VistaAndAboveIDListDataBlock =
  Vista_BlockSize :: uint32
  Vista_IDList :: "byte list"

record ExtraData =
  consoleDB :: ConsoleDataBlock
  consoleFEDB :: uint32
  darDB :: TargetDataBlock
  envVarDB :: TargetDataBlock
  iconEnvDB :: TargetDataBlock
  knownFolderDB :: KnownFolderDataBlock
  propStoreDB :: PropertyStoreDataBlock
  shimDB :: ShimDataBlock
  speFolderDB :: SpecialFolderDataBlock
  trackerDB :: TrackerDataBlock
  vistaAboveIDListDB :: VistaAndAboveIDListDataBlock

record ShellinkParser =
  header :: LinkHeader
  targetIdList :: "byte list"
  linkInfo :: LinkInfo
  stringData :: StringData
  extraData :: ExtraData
  linkPath :: wide
  targetPath :: wide
  iconIndex :: int

section \<open>The flags\<close>

definition LF_HasLinkTargetIDList :: uint64 where "LF_HasLinkTargetIDList = 0x1"

definition LF_HasLinkInfo :: uint64 where "LF_HasLinkInfo = 0x2"

definition LF_HasName :: uint64 where "LF_HasName = 0x4"

definition LF_HasRelativePath :: uint64 where "LF_HasRelativePath = 0x8"

definition LF_HasWorkingDir :: uint64 where "LF_HasWorkingDir = 0x10"

definition LF_HasArguments :: uint64 where "LF_HasArguments = 0x20"

definition LF_HasIconLocation :: uint64 where "LF_HasIconLocation = 0x40"

definition LF_IsUnicode :: uint64 where "LF_IsUnicode = 0x80"

definition LF_ForceNoLinkInfo :: uint64 where "LF_ForceNoLinkInfo = 0x100"

definition LF_HasExpString :: uint64 where "LF_HasExpString = 0x200"

definition LF_HasExpIcon :: uint64 where "LF_HasExpIcon = 0x4000"

definition LIF_VolumeIDAndLocalBasePath :: uint64 where "LIF_VolumeIDAndLocalBasePath = 1"

definition LIF_CommonNetworkRelativeLinkAndPathSuffix :: uint64 where "LIF_CommonNetworkRelativeLinkAndPathSuffix = 2"

definition CNETRLNK_ValidDevice :: uint64 where "CNETRLNK_ValidDevice = 1"

definition CNETRLNK_ValidNetType :: uint64 where "CNETRLNK_ValidNetType = 2"

definition has_flag :: "uint64 \<Rightarrow> uint64 \<Rightarrow> bool" where
  "has_flag x f \<longleftrightarrow> x AND f \<noteq> 0"

section \<open>Statements of the reader\<close>

datatype outcome =
    Go ShellinkParser "byte list"
  | Return ShellinkErr
  | Undefined

type_synonym step = "ShellinkParser \<Rightarrow> byte list \<Rightarrow> outcome"

fun steps :: "step list \<Rightarrow> step" where
  "steps [] this fp = Go this fp"
| "steps (f # fs) this fp =
     (case f this fp of Go this fp \<Rightarrow> steps fs this fp | Return e \<Rightarrow> Return e | Undefined \<Rightarrow> Undefined)"

definition put :: "(ShellinkParser \<Rightarrow> ShellinkParser) \<Rightarrow> step" where
  "put f this fp = Go (f this) fp"

text \<open>\<^verbatim>\<open>if (fread(p, n, 1, fp) != 1) return SHLLINK_ERR_FIO\<close>, and what follows uses the bytes.\<close>

definition fread1 :: "nat \<Rightarrow> (byte list \<Rightarrow> step) \<Rightarrow> step" where
  "fread1 n k this fp = (if n \<le> length fp then k (take n fp) this (drop n fp) else Return SHLLINK_ERR_FIO)"

definition rd :: "nat \<Rightarrow> (byte list \<Rightarrow> ShellinkParser \<Rightarrow> ShellinkParser) \<Rightarrow> step" where
  "rd n f = fread1 n (\<lambda>b. put (f b))"

definition fails :: "(ShellinkParser \<Rightarrow> bool) \<Rightarrow> ShellinkErr \<Rightarrow> step" where
  "fails c e this fp = (if c this then Return e else Go this fp)"

definition on :: "(ShellinkParser \<Rightarrow> bool) \<Rightarrow> step list \<Rightarrow> step" where
  "on c fs this fp = (if c this then steps fs this fp else Go this fp)"

definition fseek_cur :: "nat \<Rightarrow> step" where
  "fseek_cur n this fp = Go this (drop n fp)"

text \<open>A 32-bit or 16-bit number that is stored in a field of 64 bits.\<close>

definition of_le32_64 :: "byte list \<Rightarrow> uint64" where
  "of_le32_64 b = ucast (of_le_bytes b :: uint32)"

definition of_le16_64 :: "byte list \<Rightarrow> uint64" where
  "of_le16_64 b = ucast (of_le_bytes b :: uint16)"

text \<open>\<open>vector::resize\<close>.\<close>

definition resize :: "nat \<Rightarrow> byte list \<Rightarrow> byte list" where
  "resize n v = take n v @ replicate (n - length v) 0"

section \<open>Strings\<close>

text \<open>
  The functions that read up to a zero get a pointer that they hand to \<^verbatim>\<open>realloc\<close>: the null pointer, or one
  whose memory was already freed, which is undefined.
\<close>

datatype pointer = Nullptr | Freed

fun read_to_zero :: "byte list \<Rightarrow> (byte list \<times> byte list) option" where
  "read_to_zero [] = None"
| "read_to_zero (c # fp) = (if c = 0 then Some ([], fp) else map_option (\<lambda>(t, r). (c # t, r)) (read_to_zero fp))"

fun read_to_wide_zero :: "byte list \<Rightarrow> (wide \<times> byte list) option" where
  "read_to_wide_zero (a # b # fp) =
     (let c = of_le_bytes [a, b]
      in if c = 0 then Some ([], fp) else map_option (\<lambda>(t, r). (c # t, r)) (read_to_wide_zero fp))"
| "read_to_wide_zero _ = None"

definition readNULLStr :: "pointer \<Rightarrow> (byte list \<Rightarrow> ShellinkParser \<Rightarrow> ShellinkParser) \<Rightarrow> step" where
  "readNULLStr dest f this fp =
     (if dest = Freed then Undefined
      else case read_to_zero fp of None \<Rightarrow> Return SHLLINK_ERR_FIO | Some (t, fp) \<Rightarrow> Go (f t this) fp)"

definition readNULLWStr :: "pointer \<Rightarrow> (wide \<Rightarrow> ShellinkParser \<Rightarrow> ShellinkParser) \<Rightarrow> step" where
  "readNULLWStr dest f this fp =
     (if dest = Freed then Undefined
      else case read_to_wide_zero fp of None \<Rightarrow> Return SHLLINK_ERR_FIO | Some (t, fp) \<Rightarrow> Go (f t this) fp)"

fun wide_of :: "byte list \<Rightarrow> wide" where
  "wide_of (a # b # bs) = of_le_bytes [a, b] # wide_of bs"
| "wide_of _ = []"

text \<open>The buffer ends with a zero, and \<^verbatim>\<open>dest = buf\<close> takes it up to the first zero.\<close>

definition readStr :: "(byte list \<Rightarrow> ShellinkParser \<Rightarrow> ShellinkParser) \<Rightarrow> ShellinkErr \<Rightarrow> nat \<Rightarrow> step" where
  "readStr f errv1 sz this fp =
     (if sz = 0 then Return errv1
      else if length fp < sz then Return SHLLINK_ERR_FIO
      else Go (f (takeWhile (\<lambda>c. c \<noteq> 0) (take sz fp)) this) (drop sz fp))"

definition readWStr :: "(wide \<Rightarrow> ShellinkParser \<Rightarrow> ShellinkParser) \<Rightarrow> ShellinkErr \<Rightarrow> nat \<Rightarrow> step" where
  "readWStr f errv1 sz this fp =
     (let sz = sz div 2
      in if sz = 0 then Return errv1
         else if length fp < 2 * sz then Return SHLLINK_ERR_FIO
         else Go (f (takeWhile (\<lambda>c. c \<noteq> 0) (wide_of (take (2 * sz) fp))) this) (drop (2 * sz) fp))"

definition toBigEndian :: "byte list \<Rightarrow> nat \<Rightarrow> byte list" where
  "toBigEndian inp sz = fold (ByteSwap_step sz) [0..<sz div 2] inp"

section \<open>Loading\<close>

definition load_header :: step where
  "load_header = steps [
     fread1 4 (\<lambda>b. fails (\<lambda>this. (0x4C :: uint32) \<noteq> of_le_bytes b) SHLLINK_ERR_WHEADS),
     rd 16 (\<lambda>b. let b = toBigEndian b 16 in
       header_update (LinkCLSID_L_update (\<lambda>_. of_le_bytes (take 8 b)) \<circ> LinkCLSID_H_update (\<lambda>_. of_le_bytes (drop 8 b)))),
     fails (\<lambda>this. LinkCLSID_H (header this) \<noteq> 0x0114020000000000) SHLLINK_ERR_WCLSIDS,
     fails (\<lambda>this. LinkCLSID_L (header this) \<noteq> 0xC000000000000046) SHLLINK_ERR_WCLSIDS,
     rd 4 (\<lambda>b. header_update (LinkFlags_update (\<lambda>_. of_le32_64 b))),
     rd 4 (\<lambda>b. header_update (TargetFileAttributes_update (\<lambda>_. of_le32_64 b))),
     rd 8 (\<lambda>b. header_update (CreationTime_update (\<lambda>_. of_le_bytes b))),
     rd 8 (\<lambda>b. header_update (AccessTime_update (\<lambda>_. of_le_bytes b))),
     rd 8 (\<lambda>b. header_update (WriteTime_update (\<lambda>_. of_le_bytes b))),
     rd 4 (\<lambda>b. header_update (FileSize_update (\<lambda>_. of_le_bytes b))),
     rd 4 (\<lambda>b. header_update (IconIndex_update (\<lambda>_. of_le_bytes b))),
     rd 4 (\<lambda>b. header_update (ShowCommand_update (\<lambda>_. of_le_bytes b))),
     rd 2 (\<lambda>b. header_update (HotKey_update (\<lambda>_. of_le_bytes b))),
     fseek_cur 10]"

text \<open>The list of item identifiers. \<^verbatim>\<open>&WholeIDList[0]\<close> is undefined for an empty list; the result of this
  \<open>fread\<close> is not looked at.\<close>

definition read_id_list :: "nat \<Rightarrow> byte list \<Rightarrow> byte list \<Rightarrow> byte list" where
  "read_id_list n old fp = take n fp @ drop (min n (length fp)) (resize n old)"

definition load_idlist :: step where
  "load_idlist = on (\<lambda>this. has_flag (LinkFlags (header this)) LF_HasLinkTargetIDList)
     [fread1 2 (\<lambda>b this fp. let idListSize = unat (of_le_bytes b :: uint16) in
        if idListSize = 0 then Undefined
        else Go (targetIdList_update (\<lambda>old. read_id_list idListSize old fp) this) (drop idListSize fp))]"

definition VtmpSize :: "ShellinkParser \<Rightarrow> uint32" where
  "VtmpSize this = (if VolumeLabelOffset (VolID (linkInfo this)) = 0x14 then 16 + 4 else 16)"

definition volume_data_size :: "ShellinkParser \<Rightarrow> nat" where
  "volume_data_size this = unat (VolumeIDSize (VolID (linkInfo this)) - VtmpSize this)"

text \<open>The number of bytes that \<open>fread\<close> reads into \<open>Data\<close>: with a wide label it reads whole wide characters.\<close>

definition volume_read_size :: "ShellinkParser \<Rightarrow> nat" where
  "volume_read_size this =
     (if VolumeLabelOffset (VolID (linkInfo this)) = 0x14 then 2 * (volume_data_size this div 2) else volume_data_size this)"

definition load_VolumeID :: step where
  "load_VolumeID = steps [
     rd 4 (\<lambda>b. linkInfo_update (VolID_update (VolumeIDSize_update (\<lambda>_. of_le_bytes b)))),
     rd 4 (\<lambda>b. linkInfo_update (VolID_update (DriveType_update (\<lambda>_. of_le_bytes b)))),
     rd 4 (\<lambda>b. linkInfo_update (VolID_update (DriveSerialNumber_update (\<lambda>_. of_le_bytes b)))),
     rd 4 (\<lambda>b. linkInfo_update (VolID_update (VolumeLabelOffset_update (\<lambda>_. of_le_bytes b)))),
     on (\<lambda>this. VolumeLabelOffset (VolID (linkInfo this)) = 0x14) [
       rd 4 (\<lambda>b. linkInfo_update (VolID_update (VolumeLabelOffsetUnicode_update (\<lambda>_. of_le_bytes b))))],
     fails (\<lambda>this. VolumeIDSize (VolID (linkInfo this)) \<le> VtmpSize this) SHLLINK_ERR_VIDSLOW,
     put (\<lambda>this. linkInfo_update (VolID_update (Data_update (resize (volume_data_size this)))) this),
     \<lambda>this. rd (volume_read_size this) (\<lambda>b. linkInfo_update (VolID_update (Data_update (\<lambda>d. b @ drop (length b) d)))) this,
     readNULLStr Nullptr (\<lambda>t. linkInfo_update (LocalBasePath_update (\<lambda>_. t)))]"

definition load_CommonNetworkRelativeLink :: step where
  "load_CommonNetworkRelativeLink = steps [
     rd 4 (\<lambda>b. linkInfo_update (CommonNetRelLnk_update (CommonNetworkRelativeSize_update (\<lambda>_. of_le_bytes b)))),
     rd 4 (\<lambda>b. linkInfo_update (CommonNetRelLnk_update (ComNetRelLnkFlags_update (\<lambda>_. of_le32_64 b)))),
     rd 4 (\<lambda>b. linkInfo_update (CommonNetRelLnk_update (NetNameOffset_update (\<lambda>_. of_le_bytes b)))),
     rd 4 (\<lambda>b. linkInfo_update (CommonNetRelLnk_update (DeviceNameOffset_update (\<lambda>_. of_le_bytes b)))),
     rd 4 (\<lambda>b. linkInfo_update (CommonNetRelLnk_update (NetworkProviderType_update (\<lambda>_. of_le_bytes b)))),
     on (\<lambda>this. NetNameOffset (CommonNetRelLnk (linkInfo this)) > 0x14) [
       rd 4 (\<lambda>b. linkInfo_update (CommonNetRelLnk_update (NetNameOffsetUnicode_update (\<lambda>_. of_le_bytes b)))),
       rd 4 (\<lambda>b. linkInfo_update (CommonNetRelLnk_update (DeviceNameOffsetUnicode_update (\<lambda>_. of_le_bytes b))))],
     readNULLStr Nullptr (\<lambda>t. linkInfo_update (CommonNetRelLnk_update (NetName_update (\<lambda>_. t)))),
     readNULLStr Nullptr (\<lambda>t. linkInfo_update (CommonNetRelLnk_update (DeviceName_update (\<lambda>_. t)))),
     on (\<lambda>this. NetNameOffset (CommonNetRelLnk (linkInfo this)) > 0x14) [
       readNULLWStr Nullptr (\<lambda>t. linkInfo_update (CommonNetRelLnk_update (NetNameUnicode_update (\<lambda>_. t)))),
       readNULLWStr Nullptr (\<lambda>t. linkInfo_update (CommonNetRelLnk_update (DeviceNameUnicode_update (\<lambda>_. t))))]]"

text \<open>The texts in wide characters. The pointer \<^verbatim>\<open>pValueW\<close> is set to null before the first of them; \<open>free\<close> does not
  change it, and the second one uses it again.\<close>

definition load_wide_paths :: step where
  "load_wide_paths = steps [
     on (\<lambda>this. has_flag (LnkInfFlags (linkInfo this)) LIF_VolumeIDAndLocalBasePath) [
       readNULLWStr Nullptr (\<lambda>t. linkInfo_update (LocalBasePathUnicode_update (\<lambda>_. t)))],
     \<lambda>this. let pValueW = (if has_flag (LnkInfFlags (linkInfo this)) LIF_VolumeIDAndLocalBasePath then Freed else Nullptr) in
       readNULLWStr pValueW (\<lambda>t. linkInfo_update (CommonPathSuffixUnicode_update (\<lambda>_. t))) this]"

definition load_LinkInfo :: step where
  "load_LinkInfo = on (\<lambda>this. has_flag (LinkFlags (header this)) LF_HasLinkInfo) [
     rd 4 (\<lambda>b. linkInfo_update (LinkInfoSize_update (\<lambda>_. of_le_bytes b))),
     rd 4 (\<lambda>b. linkInfo_update (LinkInfoHeaderSize_update (\<lambda>_. of_le_bytes b))),
     fails (\<lambda>this. LinkInfoHeaderSize (linkInfo this) \<noteq> 0x1C \<and> LinkInfoHeaderSize (linkInfo this) < 0x24) SHLLINK_ERR_INVLIHS,
     rd 4 (\<lambda>b. linkInfo_update (LnkInfFlags_update (\<lambda>_. of_le32_64 b))),
     rd 4 (\<lambda>b. linkInfo_update (VolumeIDOffset_update (\<lambda>_. of_le_bytes b))),
     rd 4 (\<lambda>b. linkInfo_update (LocalBasePathOffset_update (\<lambda>_. of_le_bytes b))),
     rd 4 (\<lambda>b. linkInfo_update (CommonNetworkRelativeLinkOffset_update (\<lambda>_. of_le_bytes b))),
     rd 4 (\<lambda>b. linkInfo_update (CommonPathSuffixOffset_update (\<lambda>_. of_le_bytes b))),
     on (\<lambda>this. LinkInfoHeaderSize (linkInfo this) \<ge> 0x24) [
       rd 4 (\<lambda>b. linkInfo_update (LocalBasePathOffsetUnicode_update (\<lambda>_. of_le_bytes b))),
       rd 4 (\<lambda>b. linkInfo_update (CommonPathSuffixOffsetUnicode_update (\<lambda>_. of_le_bytes b)))],
     on (\<lambda>this. has_flag (LnkInfFlags (linkInfo this)) LIF_VolumeIDAndLocalBasePath) [load_VolumeID],
     on (\<lambda>this. has_flag (LnkInfFlags (linkInfo this)) LIF_CommonNetworkRelativeLinkAndPathSuffix) [load_CommonNetworkRelativeLink],
     readNULLStr Nullptr (\<lambda>t. linkInfo_update (CommonPathSuffix_update (\<lambda>_. t))),
     on (\<lambda>this. LinkInfoHeaderSize (linkInfo this) \<ge> 0x24) [load_wide_paths]]"

text \<open>A text with its number of characters before it, when the flag is set.\<close>

definition load_counted ::
  "uint64 \<Rightarrow> ShellinkErr \<Rightarrow> (wide \<Rightarrow> StringData \<Rightarrow> StringData) \<Rightarrow> (byte list \<Rightarrow> StringData \<Rightarrow> StringData) \<Rightarrow> step"
where
  "load_counted flag err fW fA = on (\<lambda>this. has_flag (LinkFlags (header this)) flag)
     [fread1 2 (\<lambda>b this. let countCharacters = unat (of_le_bytes b :: uint16) in
        if has_flag (LinkFlags (header this)) LF_IsUnicode
        then readWStr (\<lambda>t. stringData_update (fW t)) err (countCharacters * 2) this
        else readStr (\<lambda>t. stringData_update (fA t)) err countCharacters this)]"

definition load_NameString :: step where
  "load_NameString = load_counted LF_HasName SHLLINK_ERR_NULLPSTRDNAME
     (\<lambda>t. NameStringW_update (\<lambda>_. t)) (\<lambda>t. NameStringA_update (\<lambda>_. t))"

definition load_RelativePath :: step where
  "load_RelativePath = load_counted LF_HasRelativePath SHLLINK_ERR_NULLPSTRDRPATH
     (\<lambda>t. RelativePathW_update (\<lambda>_. t)) (\<lambda>t. RelativePathA_update (\<lambda>_. t))"

definition load_WorkingDir :: step where
  "load_WorkingDir = load_counted LF_HasWorkingDir SHLLINK_ERR_NULLPSTRDWDIR
     (\<lambda>t. WorkingDirW_update (\<lambda>_. t)) (\<lambda>t. WorkingDirA_update (\<lambda>_. t))"

definition load_CommandLineArguments :: step where
  "load_CommandLineArguments = load_counted LF_HasArguments SHLLINK_ERR_NULLPSTRDARG
     (\<lambda>t. CommandLineArgumentsW_update (\<lambda>_. t)) (\<lambda>t. CommandLineArgumentsA_update (\<lambda>_. t))"

definition load_IconLocation :: step where
  "load_IconLocation = load_counted LF_HasIconLocation SHLLINK_ERR_NULLPSTRDICO
     (\<lambda>t. IconLocationW_update (\<lambda>_. t)) (\<lambda>t. IconLocationA_update (\<lambda>_. t))"

section \<open>The blocks of extra data\<close>

definition Console_BlockSignature :: uint32 where "Console_BlockSignature = 0xA0000002"

definition ConsoleFE_BlockSignature :: uint32 where "ConsoleFE_BlockSignature = 0xA0000004"

definition Darwin_BlockSignature :: uint32 where "Darwin_BlockSignature = 0xA0000006"

definition EnvironmentVariable_BlockSignature :: uint32 where "EnvironmentVariable_BlockSignature = 0xA0000001"

definition IconEnvironment_BlockSignature :: uint32 where "IconEnvironment_BlockSignature = 0xA0000007"

definition KnownFolder_BlockSignature :: uint32 where "KnownFolder_BlockSignature = 0xA000000B"

definition PropertyStore_BlockSignature :: uint32 where "PropertyStore_BlockSignature = 0xA0000009"

definition Shim_BlockSignature :: uint32 where "Shim_BlockSignature = 0xA0000008"

definition SpecialFolder_BlockSignature :: uint32 where "SpecialFolder_BlockSignature = 0xA0000005"

definition Tracker_BlockSignature :: uint32 where "Tracker_BlockSignature = 0xA0000003"

definition VistaAndAboveIDList_BlockSignature :: uint32 where "VistaAndAboveIDList_BlockSignature = 0xA000000C"

definition readEConsoleDataBlock :: "uint32 \<Rightarrow> step" where
  "readEConsoleDataBlock blockSize = steps [
     fails (\<lambda>this. blockSize \<noteq> 0xCC) SHLLINK_ERRX_WRONGSIZE,
     rd 2 (\<lambda>b. extraData_update (consoleDB_update (FillAttributes_update (\<lambda>_. of_le16_64 b)))),
     rd 2 (\<lambda>b. extraData_update (consoleDB_update (PopupFillAttributes_update (\<lambda>_. of_le16_64 b)))),
     rd 2 (\<lambda>b. extraData_update (consoleDB_update (ScreenBufferSizeX_update (\<lambda>_. of_le_bytes b)))),
     rd 2 (\<lambda>b. extraData_update (consoleDB_update (ScreenBufferSizeY_update (\<lambda>_. of_le_bytes b)))),
     rd 2 (\<lambda>b. extraData_update (consoleDB_update (WindowSizeX_update (\<lambda>_. of_le_bytes b)))),
     rd 2 (\<lambda>b. extraData_update (consoleDB_update (WindowSizeY_update (\<lambda>_. of_le_bytes b)))),
     rd 2 (\<lambda>b. extraData_update (consoleDB_update (WindowOriginX_update (\<lambda>_. of_le_bytes b)))),
     rd 2 (\<lambda>b. extraData_update (consoleDB_update (WindowOriginY_update (\<lambda>_. of_le_bytes b)))),
     fseek_cur 8,
     rd 4 (\<lambda>b. extraData_update (consoleDB_update (FontSize_update (\<lambda>_. of_le_bytes b)))),
     rd 4 (\<lambda>b. extraData_update (consoleDB_update (FontFamilys_update (\<lambda>_. of_le32_64 b)))),
     rd 4 (\<lambda>b. extraData_update (consoleDB_update (FontWeight_update (\<lambda>_. of_le_bytes b)))),
     readWStr (\<lambda>t. extraData_update (consoleDB_update (FaceName_update (\<lambda>_. t)))) SHLLINK_ERRX_NULLPSTRFNAME 32,
     rd 4 (\<lambda>b. extraData_update (consoleDB_update (CursorSize_update (\<lambda>_. of_le_bytes b)))),
     rd 4 (\<lambda>b. extraData_update (consoleDB_update (FullScreen_update (\<lambda>_. of_le_bytes b)))),
     rd 4 (\<lambda>b. extraData_update (consoleDB_update (QuickEdit_update (\<lambda>_. of_le_bytes b)))),
     rd 4 (\<lambda>b. extraData_update (consoleDB_update (InsertMode_update (\<lambda>_. of_le_bytes b)))),
     rd 4 (\<lambda>b. extraData_update (consoleDB_update (AutoPosition_update (\<lambda>_. of_le_bytes b)))),
     rd 4 (\<lambda>b. extraData_update (consoleDB_update (HistoryBufferSize_update (\<lambda>_. of_le_bytes b)))),
     rd 4 (\<lambda>b. extraData_update (consoleDB_update (NumberOfHistoryBuffers_update (\<lambda>_. of_le_bytes b)))),
     rd 4 (\<lambda>b. extraData_update (consoleDB_update (HistoryNoDup_update (\<lambda>_. of_le_bytes b)))),
     rd 4 (\<lambda>b. extraData_update (consoleDB_update (AutoPosition_update (\<lambda>_. of_le_bytes b)))),
     steps (map (\<lambda>i. rd 4 (\<lambda>b. extraData_update (consoleDB_update (ColorTable_update (\<lambda>t. t[i := of_le_bytes b]))))) [0..<16])]"

definition readEConsoleFEDataBlock :: "uint32 \<Rightarrow> step" where
  "readEConsoleFEDataBlock blockSize = steps [
     fails (\<lambda>this. blockSize \<noteq> 0xC) SHLLINK_ERRX_WRONGSIZE,
     rd 4 (\<lambda>b. extraData_update (consoleFEDB_update (\<lambda>_. of_le_bytes b)))]"

definition readEDarwinDataBlock :: "uint32 \<Rightarrow> step" where
  "readEDarwinDataBlock blockSize = steps [
     fails (\<lambda>this. blockSize \<noteq> 0x314) SHLLINK_ERRX_WRONGSIZE,
     readStr (\<lambda>t. extraData_update (darDB_update (TargetAnsi_update (\<lambda>_. t)))) SHLLINK_ERRX_NULLPSTRDARDA 260,
     readWStr (\<lambda>t. extraData_update (darDB_update (TargetUnicode_update (\<lambda>_. t)))) SHLLINK_ERRX_NULLPSTRDARDU 520]"

definition readEEnvironmentVariableDataBlock :: "uint32 \<Rightarrow> step" where
  "readEEnvironmentVariableDataBlock blockSize = steps [
     fails (\<lambda>this. blockSize \<noteq> 0x314) SHLLINK_ERRX_WRONGSIZE,
     readStr (\<lambda>t. extraData_update (envVarDB_update (TargetAnsi_update (\<lambda>_. t)))) SHLLINK_ERRX_NULLPSTRENVDA 260,
     readWStr (\<lambda>t. extraData_update (envVarDB_update (TargetUnicode_update (\<lambda>_. t)))) SHLLINK_ERRX_NULLPSTRENVDU 520]"

definition readEIconEnvironmentDataBlock :: "uint32 \<Rightarrow> step" where
  "readEIconEnvironmentDataBlock blockSize = steps [
     fails (\<lambda>this. blockSize \<noteq> 0x314) SHLLINK_ERRX_WRONGSIZE,
     readStr (\<lambda>t. extraData_update (iconEnvDB_update (TargetAnsi_update (\<lambda>_. t)))) SHLLINK_ERRX_NULLPSTRIENVDA 260,
     readWStr (\<lambda>t. extraData_update (iconEnvDB_update (TargetUnicode_update (\<lambda>_. t)))) SHLLINK_ERRX_NULLPSTRIENVDU 520]"

definition readEKnownFolderDataBlock :: "uint32 \<Rightarrow> step" where
  "readEKnownFolderDataBlock blockSize = steps [
     fails (\<lambda>this. blockSize \<noteq> 0x1C) SHLLINK_ERRX_WRONGSIZE,
     readStr (\<lambda>t. extraData_update (knownFolderDB_update (KnownFolderID_update (\<lambda>_. t)))) SHLLINK_ERR_NULLPEXTD 16,
     rd 4 (\<lambda>b. extraData_update (knownFolderDB_update (KnownFolder_Offset_update (\<lambda>_. of_le_bytes b))))]"

definition readEPropertyStoreDataBlock :: "uint32 \<Rightarrow> step" where
  "readEPropertyStoreDataBlock blockSize = steps [
     fails (\<lambda>this. blockSize < 0xC) SHLLINK_ERRX_WRONGSIZE,
     put (extraData_update (propStoreDB_update (PropertyStore_BlockSize_update (\<lambda>_. blockSize)))),
     readStr (\<lambda>t. extraData_update (propStoreDB_update (PropertyStore_update (\<lambda>_. t)))) SHLLINK_ERR_NULLPEXTD (unat (blockSize - 8))]"

definition readEShimDataBlock :: "uint32 \<Rightarrow> step" where
  "readEShimDataBlock blockSize = steps [
     fails (\<lambda>this. blockSize < 0x88) SHLLINK_ERRX_WRONGSIZE,
     put (extraData_update (shimDB_update (Shim_BlockSize_update (\<lambda>_. blockSize)))),
     readWStr (\<lambda>t. extraData_update (shimDB_update (LayerName_update (\<lambda>_. t)))) SHLLINK_ERR_NULLPEXTD (unat (blockSize - 8))]"

definition readESpecialFolderDataBlock :: "uint32 \<Rightarrow> step" where
  "readESpecialFolderDataBlock blockSize = steps [
     fails (\<lambda>this. blockSize \<noteq> 0x10) SHLLINK_ERRX_WRONGSIZE,
     rd 4 (\<lambda>b. extraData_update (speFolderDB_update (SpecialFolderID_update (\<lambda>_. of_le_bytes b)))),
     rd 4 (\<lambda>b. extraData_update (speFolderDB_update (SpecialFolder_Offset_update (\<lambda>_. of_le_bytes b))))]"

definition readETrackerDataBlock :: "uint32 \<Rightarrow> step" where
  "readETrackerDataBlock blockSize = steps [
     fails (\<lambda>this. blockSize \<noteq> 0x60) SHLLINK_ERRX_WRONGSIZE,
     rd 4 (\<lambda>b. extraData_update (trackerDB_update (Tracker_Length_update (\<lambda>_. of_le_bytes b)))),
     fails (\<lambda>this. Tracker_Length (trackerDB (extraData this)) \<noteq> 0x58) SHLLINK_ERRX_WRONGSIZE,
     rd 4 (\<lambda>b. extraData_update (trackerDB_update (Tracker_Version_update (\<lambda>_. of_le_bytes b)))),
     fails (\<lambda>this. Tracker_Version (trackerDB (extraData this)) \<noteq> 0) SHLLINK_ERRX_WRONGVERSION,
     readStr (\<lambda>t. extraData_update (trackerDB_update (MachineID_update (\<lambda>_. t)))) SHLLINK_ERR_NULLPEXTD 16,
     readStr (\<lambda>t. extraData_update (trackerDB_update (Droid_update (\<lambda>_. t)))) SHLLINK_ERR_NULLPEXTD 32,
     readStr (\<lambda>t. extraData_update (trackerDB_update (DroidBirth_update (\<lambda>_. t)))) SHLLINK_ERR_NULLPEXTD 32]"

definition readEVistaAndAboveIDListDataBlock :: "uint32 \<Rightarrow> step" where
  "readEVistaAndAboveIDListDataBlock blockSize = steps [
     fails (\<lambda>this. blockSize < 0xA) SHLLINK_ERRX_WRONGSIZE,
     put (extraData_update (vistaAboveIDListDB_update (Vista_BlockSize_update (\<lambda>_. blockSize)))),
     fread1 2 (\<lambda>b this fp. let idListSize = unat (of_le_bytes b :: uint16) in
       if idListSize = 0 then Undefined
       else Go (extraData_update (vistaAboveIDListDB_update (Vista_IDList_update (\<lambda>old. read_id_list idListSize old fp))) this)
              (drop idListSize fp))]"

definition read_block :: "uint32 \<Rightarrow> uint32 \<Rightarrow> step" where
  "read_block blockSize blockSignature =
     (if blockSignature = Console_BlockSignature then readEConsoleDataBlock blockSize
      else if blockSignature = ConsoleFE_BlockSignature then readEConsoleFEDataBlock blockSize
      else if blockSignature = Darwin_BlockSignature then readEDarwinDataBlock blockSize
      else if blockSignature = EnvironmentVariable_BlockSignature then readEEnvironmentVariableDataBlock blockSize
      else if blockSignature = IconEnvironment_BlockSignature then readEIconEnvironmentDataBlock blockSize
      else if blockSignature = KnownFolder_BlockSignature then readEKnownFolderDataBlock blockSize
      else if blockSignature = PropertyStore_BlockSignature then readEPropertyStoreDataBlock blockSize
      else if blockSignature = Shim_BlockSignature then readEShimDataBlock blockSize
      else if blockSignature = SpecialFolder_BlockSignature then readESpecialFolderDataBlock blockSize
      else if blockSignature = Tracker_BlockSignature then readETrackerDataBlock blockSize
      else if blockSignature = VistaAndAboveIDList_BlockSignature then readEVistaAndAboveIDListDataBlock blockSize
      else (\<lambda>this fp. Return SHLLINK_ERR_UNKEDBSIG))"

text \<open>The loop: \<open>cpos >= epos\<close> says that no more than the terminal block is left.\<close>

definition kExtraDataBlockNum :: nat where "kExtraDataBlockNum = 11"

fun load_extra_loop :: "nat \<Rightarrow> step" where
  "load_extra_loop 0 this fp = Go this fp"
| "load_extra_loop (Suc n) this fp =
     (if length fp \<le> 4 then Go this fp
      else case fread1 4 (\<lambda>blockSize. fread1 4 (\<lambda>blockSignature.
                  read_block (of_le_bytes blockSize) (of_le_bytes blockSignature))) this fp of
             Go this fp \<Rightarrow> load_extra_loop n this fp
           | Return e \<Rightarrow> Return e
           | Undefined \<Rightarrow> Undefined)"

definition load_file :: step where
  "load_file = steps [load_header, load_idlist, load_LinkInfo, load_NameString, load_RelativePath, load_WorkingDir,
     load_CommandLineArguments, load_IconLocation, load_extra_loop kExtraDataBlockNum]"

text \<open>\<open>None\<close> as a file: it cannot be opened.\<close>

definition load :: "wide \<Rightarrow> byte list option \<Rightarrow> ShellinkParser \<Rightarrow> outcome" where
  "load lnkPath file this =
     (let this = this\<lparr>targetPath := [], linkPath := lnkPath\<rparr>
      in case file of None \<Rightarrow> Return SHLLINK_ERR_FCL | Some fp \<Rightarrow> load_file this fp)"

section \<open>Queries\<close>

text \<open>
  What the queries get from the system: the conversion of ANSI texts, the path of a special folder, the path
  or else the parsing name of a list of item identifiers, the parser of icon locations, and the layer that
  the registry holds for a program.
\<close>

record os =
  AnsiToUnicode :: "byte list \<Rightarrow> wide"
  SHGetFolderPath :: "uint32 \<Rightarrow> wide option"
  path_of_idlist :: "byte list \<Rightarrow> wide"
  PathParseIconLocation :: "wide \<Rightarrow> wide \<times> int"
  registry_layer :: "wide \<Rightarrow> wide option"

definition text_of :: "os \<Rightarrow> ShellinkParser \<Rightarrow> uint64 \<Rightarrow> wide \<Rightarrow> byte list \<Rightarrow> wide" where
  "text_of os this flag w a =
     (if has_flag (LinkFlags (header this)) flag
      then if has_flag (LinkFlags (header this)) LF_IsUnicode then w else AnsiToUnicode os a
      else [])"

definition getDescription :: "os \<Rightarrow> ShellinkParser \<Rightarrow> wide" where
  "getDescription os this = text_of os this LF_HasName (NameStringW (stringData this)) (NameStringA (stringData this))"

definition getWorkingDir :: "os \<Rightarrow> ShellinkParser \<Rightarrow> wide" where
  "getWorkingDir os this = text_of os this LF_HasWorkingDir (WorkingDirW (stringData this)) (WorkingDirA (stringData this))"

definition getArguments :: "os \<Rightarrow> ShellinkParser \<Rightarrow> wide" where
  "getArguments os this =
     text_of os this LF_HasArguments (CommandLineArgumentsW (stringData this)) (CommandLineArgumentsA (stringData this))"

definition target_of_LinkInfo :: "os \<Rightarrow> ShellinkParser \<Rightarrow> wide" where
  "target_of_LinkInfo os this =
     (let li = linkInfo this; net = CommonNetRelLnk li in
      if has_flag (LinkFlags (header this)) LF_HasLinkInfo \<and> \<not> has_flag (LinkFlags (header this)) LF_ForceNoLinkInfo then
        if has_flag (LnkInfFlags li) LIF_VolumeIDAndLocalBasePath then
          if LinkInfoHeaderSize li \<ge> 0x24 then LocalBasePathUnicode li @ CommonPathSuffixUnicode li
          else AnsiToUnicode os (LocalBasePath li @ CommonPathSuffix li)
        else if has_flag (LnkInfFlags li) LIF_CommonNetworkRelativeLinkAndPathSuffix then
          if has_flag (ComNetRelLnkFlags net) CNETRLNK_ValidDevice then
            if NetNameOffset net > 0x14 then DeviceNameUnicode net else AnsiToUnicode os (DeviceName net)
          else if has_flag (ComNetRelLnkFlags net) CNETRLNK_ValidNetType then
            if NetNameOffset net > 0x14 then NetNameUnicode net else AnsiToUnicode os (NetName net)
          else []
        else []
      else [])"

definition getTargetPath :: "os \<Rightarrow> ShellinkParser \<Rightarrow> wide \<times> ShellinkParser" where
  "getTargetPath os this =
     (let this = this\<lparr>targetPath := []\<rparr>;
          result = target_of_LinkInfo os this in
      if result \<noteq> [] then (result, this\<lparr>targetPath := result\<rparr>)
      else let x = extraData this;
               result = (if SpecialFolderID (speFolderDB x) \<noteq> 0
                         then case SHGetFolderPath os (SpecialFolderID (speFolderDB x)) of Some p \<Rightarrow> p | None \<Rightarrow> []
                         else []) in
        if result \<noteq> [] then (result, this\<lparr>targetPath := result\<rparr>)
        else let result = (if has_flag (LinkFlags (header this)) LF_HasLinkTargetIDList
                           then path_of_idlist os (targetIdList this) else []) in
          if result \<noteq> [] then (result, this\<lparr>targetPath := result\<rparr>)
          else let result = (if has_flag (LinkFlags (header this)) LF_HasExpString then
                               if TargetUnicode (envVarDB x) \<noteq> [] then TargetUnicode (envVarDB x)
                               else if TargetAnsi (envVarDB x) \<noteq> [] then AnsiToUnicode os (TargetAnsi (envVarDB x))
                               else []
                             else []) in
            (result, this\<lparr>targetPath := result\<rparr>))"

text \<open>\<^verbatim>\<open>MAX_PATH\<close> is 260; the copy of the path keeps room for the terminating zero.\<close>

definition getIconPath :: "os \<Rightarrow> ShellinkParser \<Rightarrow> wide \<times> ShellinkParser" where
  "getIconPath os this =
     (let this = this\<lparr>iconIndex := 0\<rparr>;
          result = text_of os this LF_HasIconLocation (IconLocationW (stringData this)) (IconLocationA (stringData this));
          x = extraData this;
          result = (if result = [] \<and> has_flag (LinkFlags (header this)) LF_HasExpIcon then
                      if TargetUnicode (iconEnvDB x) \<noteq> [] then TargetUnicode (iconEnvDB x)
                      else if TargetAnsi (iconEnvDB x) \<noteq> [] then AnsiToUnicode os (TargetAnsi (iconEnvDB x))
                      else result
                    else result) in
      if result \<noteq> [] then
        let (icFile, index) = PathParseIconLocation os (take 259 result) in (icFile, this\<lparr>iconIndex := index\<rparr>)
      else (result, this))"

definition getIconIndex :: "os \<Rightarrow> ShellinkParser \<Rightarrow> int \<times> ShellinkParser" where
  "getIconIndex os this =
     (if IconIndex (header this) \<noteq> 0 then (sint (IconIndex (header this)), this)
      else let (_, this) = getIconPath os this in (iconIndex this, this))"

text \<open>The text \<open>~ RUNASADMIN\<close>.\<close>

definition run_as_admin :: wide where
  "run_as_admin = [0x7E, 0x20, 0x52, 0x55, 0x4E, 0x41, 0x53, 0x41, 0x44, 0x4D, 0x49, 0x4E]"

definition isRunAsAdmin :: "os \<Rightarrow> ShellinkParser \<Rightarrow> bool \<times> ShellinkParser" where
  "isRunAsAdmin os this =
     (let (target, this) = (if targetPath this = [] then getTargetPath os this else (targetPath this, this)) in
      if target = [] then (False, this)
      else (case registry_layer os target of Some v \<Rightarrow> v = run_as_admin | None \<Rightarrow> False, this))"

end
