(* ===== verification/Shellink_Text.thy ===== *)
theory Shellink_Text
  imports Shellink
begin

text \<open>
  The format of the first parts of a shell link, written as functions from the parts to bytes: the header, the
  item identifiers and the texts; and the proof that the reader gives the parts back.
\<close>

section \<open>The format\<close>

text \<open>The class identifier of links, as it stands in the file.\<close>

definition link_clsid :: "byte list" where
  "link_clsid = [1, 0x14, 2, 0, 0, 0, 0, 0, 0xC0, 0, 0, 0, 0, 0, 0, 0x46]"

definition header_bytes :: "LinkHeader \<Rightarrow> byte list" where
  "header_bytes h =
     le_bytes 4 (0x4C :: uint32) @ link_clsid @
     le_bytes 4 (LinkFlags h) @ le_bytes 4 (TargetFileAttributes h) @ le_bytes 8 (CreationTime h) @
     le_bytes 8 (AccessTime h) @ le_bytes 8 (WriteTime h) @ le_bytes 4 (FileSize h) @ le_bytes 4 (IconIndex h) @
     le_bytes 4 (ShowCommand h) @ le_bytes 2 (HotKey h) @ replicate 10 0"

definition wf_header :: "LinkHeader \<Rightarrow> bool" where
  "wf_header h \<longleftrightarrow> LinkCLSID_H h = 0x0114020000000000 \<and> LinkCLSID_L h = 0xC000000000000046 \<and>
     LinkFlags h < 2 ^ 32 \<and> TargetFileAttributes h < 2 ^ 32"

section \<open>Statements on a file that starts with the right bytes\<close>

lemma of_le_le32 [simp]: "of_le_bytes (le_bytes 4 w) = w" for w :: uint32
  by (simp add: of_le_le_bytes)

lemma of_le_le16 [simp]: "of_le_bytes (le_bytes 2 w) = w" for w :: uint16
  by (simp add: of_le_le_bytes)

lemma of_le_le64 [simp]: "of_le_bytes (le_bytes 8 w) = w" for w :: uint64
  by (simp add: of_le_le_bytes)

lemma of_le32_64_le [simp]: "w < 2 ^ 32 \<Longrightarrow> of_le32_64 (le_bytes 4 w) = w"
proof -
  assume "w < 2 ^ 32"
  then have "take_bit 32 w = w" using less_mask_eq [of w 32] by (simp add: take_bit_eq_mask)
  moreover have "of_le32_64 (le_bytes 4 w) = take_bit 32 w"
    by (rule bit_word_eqI) (auto simp: of_le32_64_def bit_simps bit_of_le_bytes bit_nth_le_bytes)
  ultimately show ?thesis by simp
qed

lemma fread1_append [simp]: "length b = n \<Longrightarrow> fread1 n k this (b @ fp) = k b this fp"
  by (simp add: fread1_def)

lemma rd_append [simp]: "length b = n \<Longrightarrow> rd n f this (b @ fp) = Go (f b this) fp"
  by (simp add: rd_def put_def)

lemma fseek_append [simp]: "length b = n \<Longrightarrow> fseek_cur n this (b @ fp) = Go this fp"
  by (simp add: fseek_cur_def)

lemmas statement_defs = put_def fails_def on_def

lemma toBigEndian_rev: "length b = n \<Longrightarrow> toBigEndian b n = rev b"
  using ByteSwap_rev [of n b] by (simp add: toBigEndian_def ByteSwap_def)

lemma rd_list: "rd n f this (a # as) = (if n \<le> length (a # as) then Go (f (take n (a # as)) this) (drop n (a # as)) else Return SHLLINK_ERR_FIO)"
  by (simp add: rd_def fread1_def put_def)

lemma length_clsid [simp]: "length link_clsid = 16"
  by (simp add: link_clsid_def)

lemma clsid_numbers:
  "of_le_bytes (take 8 (toBigEndian link_clsid 16)) = (0xC000000000000046 :: uint64)"
  "of_le_bytes (drop 8 (toBigEndian link_clsid 16)) = (0x0114020000000000 :: uint64)"
  by (simp_all add: toBigEndian_rev) (simp_all add: link_clsid_def)

lemma load_header_bytes:
  assumes "wf_header h"
  shows "load_header this (header_bytes h @ fp) = Go (this\<lparr>header := h\<rparr>) fp"
  using assms
  by (cases h, cases this) (simp add: load_header_def header_bytes_def wf_header_def statement_defs clsid_numbers Let_def)

section \<open>Item identifiers and texts\<close>

definition idlist_bytes :: "LinkHeader \<Rightarrow> byte list \<Rightarrow> byte list" where
  "idlist_bytes h ids =
     (if has_flag (LinkFlags h) LF_HasLinkTargetIDList then le_bytes 2 (of_nat (length ids) :: uint16) @ ids else [])"

definition wf_idlist :: "LinkHeader \<Rightarrow> byte list \<Rightarrow> bool" where
  "wf_idlist h ids \<longleftrightarrow>
     (if has_flag (LinkFlags h) LF_HasLinkTargetIDList then ids \<noteq> [] \<and> length ids < 2 ^ 16 else ids = [])"

lemma read_id_list_all: "length b = n \<Longrightarrow> read_id_list n old (b @ fp) = b"
  by (simp add: read_id_list_def resize_def)

lemma unat_of_nat16: "n < 65536 \<Longrightarrow> unat (of_nat n :: uint16) = n"
  by (simp add: unat_of_nat)

lemma load_idlist_bytes:
  "wf_idlist (header this) ids \<Longrightarrow> targetIdList this = [] \<Longrightarrow>
   load_idlist this (idlist_bytes (header this) ids @ fp) = Go (this\<lparr>targetIdList := ids\<rparr>) fp"
  by (cases this)
    (auto simp: load_idlist_def idlist_bytes_def wf_idlist_def statement_defs unat_of_nat16 read_id_list_all Let_def split: if_splits)

definition wide_bytes :: "wide \<Rightarrow> byte list" where
  "wide_bytes t = concat (map (le_bytes 2) t)"

lemma wide_bytes_simps [simp]:
  "wide_bytes [] = []" "wide_bytes (c # t) = le_bytes 2 c @ wide_bytes t" "wide_bytes (s @ t) = wide_bytes s @ wide_bytes t"
  by (simp_all add: wide_bytes_def)

lemma le_bytes_2: "le_bytes 2 c = [ucast c, ucast (drop_bit 8 c)]"
  by (simp add: le_bytes_def numeral_2_eq_2)

lemma of_le_pair: "of_le_bytes [ucast c, ucast (drop_bit 8 c)] = c" for c :: uint16
  using of_le_le16 [of c] by (simp only: le_bytes_2)

lemma length_wide_bytes [simp]: "length (wide_bytes t) = 2 * length t"
  by (induction t) simp_all

lemma wide_of_bytes: "wide_of (wide_bytes t) = t"
  by (induction t) (simp_all add: le_bytes_2 of_le_pair del: of_le_bytes.simps)

lemma read_to_zero_append: "0 \<notin> set t \<Longrightarrow> read_to_zero (t @ 0 # fp) = Some (t, fp)"
  by (induction t) auto

lemma read_to_wide_zero_append: "0 \<notin> set t \<Longrightarrow> read_to_wide_zero (wide_bytes t @ 0 # 0 # fp) = Some (t, fp)"
proof (induction t)
  case (Cons c t)
  then show ?case by (simp add: le_bytes_2 of_le_pair del: of_le_bytes.simps)
qed simp

lemma readNULLStr_append [simp]:
  "0 \<notin> set t \<Longrightarrow> readNULLStr Nullptr f this (t @ 0 # fp) = Go (f t this) fp"
  by (simp add: readNULLStr_def read_to_zero_append)

lemma readNULLWStr_append [simp]:
  "0 \<notin> set t \<Longrightarrow> readNULLWStr Nullptr f this (wide_bytes t @ 0 # 0 # fp) = Go (f t this) fp"
  by (simp add: readNULLWStr_def read_to_wide_zero_append)

text \<open>A text in a field of fixed width.\<close>

definition field :: "nat \<Rightarrow> byte list \<Rightarrow> byte list" where
  "field n t = t @ replicate (n - length t) 0"

definition wide_field :: "nat \<Rightarrow> wide \<Rightarrow> byte list" where
  "wide_field n t = wide_bytes (t @ replicate (n - length t) 0)"

lemma length_fixed_field [simp]: "length t \<le> n \<Longrightarrow> length (field n t) = n" "length w \<le> n \<Longrightarrow> length (wide_field n w) = 2 * n"
  by (simp_all add: field_def wide_field_def)

lemma takeWhile_field: "0 \<notin> set t \<Longrightarrow> takeWhile (\<lambda>c. c \<noteq> 0) (t @ replicate n 0) = (t :: 'a::zero list)"
  by (induction t) (auto simp: takeWhile_eq_Nil_iff)

lemma readStr_field [simp]:
  "0 \<notin> set t \<Longrightarrow> length t \<le> n \<Longrightarrow> 0 < n \<Longrightarrow> readStr f e n this (field n t @ fp) = Go (f t this) fp"
  unfolding readStr_def by (simp add: field_def takeWhile_field)

lemma readWStr_field:
  "0 \<notin> set t \<Longrightarrow> length t \<le> n \<Longrightarrow> 0 < n \<Longrightarrow> readWStr f e (2 * n) this (wide_field n t @ fp) = Go (f t this) fp"
  unfolding readWStr_def
  by (simp add: wide_field_def wide_of_bytes takeWhile_field Let_def del: wide_bytes_simps)

section \<open>Texts with a count\<close>

definition counted_bytes :: "LinkHeader \<Rightarrow> uint64 \<Rightarrow> wide \<Rightarrow> byte list \<Rightarrow> byte list" where
  "counted_bytes h flag w a =
     (if has_flag (LinkFlags h) flag
      then if has_flag (LinkFlags h) LF_IsUnicode
           then le_bytes 2 (of_nat (length w) :: uint16) @ wide_bytes w
           else le_bytes 2 (of_nat (length a) :: uint16) @ a
      else [])"

definition wf_counted :: "LinkHeader \<Rightarrow> uint64 \<Rightarrow> wide \<Rightarrow> byte list \<Rightarrow> bool" where
  "wf_counted h flag w a \<longleftrightarrow>
     (if has_flag (LinkFlags h) flag
      then if has_flag (LinkFlags h) LF_IsUnicode
           then a = [] \<and> w \<noteq> [] \<and> length w < 2 ^ 16 \<and> 0 \<notin> set w
           else w = [] \<and> a \<noteq> [] \<and> length a < 2 ^ 16 \<and> 0 \<notin> set a
      else w = [] \<and> a = [])"

lemma load_counted_bytes:
  assumes "header this = h" "wf_counted h flag w a" "fA [] (stringData this) = stringData this"
    "\<And>a. fW [] (fA a (stringData this)) = fA a (stringData this)"
  shows "load_counted flag e fW fA this (counted_bytes h flag w a @ fp) =
    Go (stringData_update (\<lambda>sd. fW w (fA a sd)) this) fp"
proof -
  have W: "readWStr f e (2 * length w) this (wide_bytes w @ fp) = Go (f w this) fp" if "0 \<notin> set w" "w \<noteq> []" for f
    using readWStr_field [of w "length w" f e this fp] that by (simp add: wide_field_def)
  have A: "readStr f e (length a) this (a @ fp) = Go (f a this) fp" if "0 \<notin> set a" "a \<noteq> []" for f
    using readStr_field [of a "length a" f e this fp] that by (simp add: field_def)
  have u: "stringData_update f this = stringData_update g this" if "f (stringData this) = g (stringData this)" for f g
    using that by (cases this) simp
  have u0: "this = stringData_update g this" if "g (stringData this) = stringData this" for g
    using that by (cases this) simp
  have "fW [] (stringData this) = stringData this" using assms(4) [of "[]"] assms(3) by simp
  then show ?thesis
    using assms W A
    by (auto simp: load_counted_def counted_bytes_def wf_counted_def statement_defs unat_of_nat16 Let_def mult.commute
      intro: u u0 split: if_splits)
qed

definition string_bytes :: "LinkHeader \<Rightarrow> StringData \<Rightarrow> byte list" where
  "string_bytes h sd =
     counted_bytes h LF_HasName (NameStringW sd) (NameStringA sd) @
     counted_bytes h LF_HasRelativePath (RelativePathW sd) (RelativePathA sd) @
     counted_bytes h LF_HasWorkingDir (WorkingDirW sd) (WorkingDirA sd) @
     counted_bytes h LF_HasArguments (CommandLineArgumentsW sd) (CommandLineArgumentsA sd) @
     counted_bytes h LF_HasIconLocation (IconLocationW sd) (IconLocationA sd)"

definition wf_strings :: "LinkHeader \<Rightarrow> StringData \<Rightarrow> bool" where
  "wf_strings h sd \<longleftrightarrow>
     wf_counted h LF_HasName (NameStringW sd) (NameStringA sd) \<and>
     wf_counted h LF_HasRelativePath (RelativePathW sd) (RelativePathA sd) \<and>
     wf_counted h LF_HasWorkingDir (WorkingDirW sd) (WorkingDirA sd) \<and>
     wf_counted h LF_HasArguments (CommandLineArgumentsW sd) (CommandLineArgumentsA sd) \<and>
     wf_counted h LF_HasIconLocation (IconLocationW sd) (IconLocationA sd)"

definition no_strings :: StringData where
  "no_strings = \<lparr>NameStringW = [], NameStringA = [], RelativePathW = [], RelativePathA = [], WorkingDirW = [], WorkingDirA = [],
     CommandLineArgumentsW = [], CommandLineArgumentsA = [], IconLocationW = [], IconLocationA = []\<rparr>"

lemma load_strings_bytes:
  assumes "wf_strings (header this) sd" "stringData this = no_strings"
  shows "steps [load_NameString, load_RelativePath, load_WorkingDir, load_CommandLineArguments, load_IconLocation] this
    (string_bytes (header this) sd @ fp) = Go (this\<lparr>stringData := sd\<rparr>) fp"
  using assms
  by (cases this, cases sd)
    (simp add: string_bytes_def wf_strings_def load_NameString_def load_RelativePath_def load_WorkingDir_def
      load_CommandLineArguments_def load_IconLocation_def load_counted_bytes no_strings_def)

end
