(* ===== verification/Shellink_Info.thy ===== *)
theory Shellink_Info
  imports Shellink_Text
begin

text \<open>
  The format of the link information of a shell link, and the proof that the reader gives it back, except when
  it holds two wide paths: then the behaviour of the reader is undefined.
\<close>

section \<open>Volumes\<close>

definition volume_bytes :: "VolumeID \<Rightarrow> byte list" where
  "volume_bytes v =
     le_bytes 4 (VolumeIDSize v) @ le_bytes 4 (DriveType v) @ le_bytes 4 (DriveSerialNumber v) @
     le_bytes 4 (VolumeLabelOffset v) @
     (if VolumeLabelOffset v = 0x14 then le_bytes 4 (VolumeLabelOffsetUnicode v) else []) @ Data v"

definition wf_volume :: "VolumeID \<Rightarrow> bool" where
  "wf_volume v \<longleftrightarrow>
     (if VolumeLabelOffset v = 0x14
      then 0x14 < VolumeIDSize v \<and> length (Data v) = unat (VolumeIDSize v - 0x14) \<and> even (length (Data v))
      else 0x10 < VolumeIDSize v \<and> length (Data v) = unat (VolumeIDSize v - 0x10) \<and> VolumeLabelOffsetUnicode v = 0)"

definition no_volume :: VolumeID where
  "no_volume = \<lparr>VolumeIDSize = 0, DriveType = 0, DriveSerialNumber = 0, VolumeLabelOffset = 0,
     VolumeLabelOffsetUnicode = 0, Data = []\<rparr>"

lemma load_VolumeID_bytes:
  assumes "wf_volume v" "VolID (linkInfo this) = no_volume" "0 \<notin> set p"
  shows "load_VolumeID this (volume_bytes v @ p @ 0 # fp) =
    Go (this\<lparr>linkInfo := (linkInfo this)\<lparr>VolID := v, LocalBasePath := p\<rparr>\<rparr>) fp"
proof (cases this)
  case (fields h ids li)
  then show ?thesis
    using assms
    by (cases li, cases v)
      (auto simp: load_VolumeID_def volume_bytes_def wf_volume_def statement_defs no_volume_def VtmpSize_def
        volume_data_size_def volume_read_size_def resize_def not_less [symmetric] split: if_splits)
qed

section \<open>Network links\<close>

definition net_bytes :: "CommonNetworkRelativeLink \<Rightarrow> byte list" where
  "net_bytes c =
     le_bytes 4 (CommonNetworkRelativeSize c) @ le_bytes 4 (ComNetRelLnkFlags c) @ le_bytes 4 (NetNameOffset c) @
     le_bytes 4 (DeviceNameOffset c) @ le_bytes 4 (NetworkProviderType c) @
     (if 0x14 < NetNameOffset c
      then le_bytes 4 (NetNameOffsetUnicode c) @ le_bytes 4 (DeviceNameOffsetUnicode c) else []) @
     NetName c @ [0] @ DeviceName c @ [0] @
     (if 0x14 < NetNameOffset c
      then wide_bytes (NetNameUnicode c) @ [0, 0] @ wide_bytes (DeviceNameUnicode c) @ [0, 0] else [])"

definition wf_net :: "CommonNetworkRelativeLink \<Rightarrow> bool" where
  "wf_net c \<longleftrightarrow> ComNetRelLnkFlags c < 2 ^ 32 \<and> 0 \<notin> set (NetName c) \<and> 0 \<notin> set (DeviceName c) \<and>
     (if 0x14 < NetNameOffset c then 0 \<notin> set (NetNameUnicode c) \<and> 0 \<notin> set (DeviceNameUnicode c)
      else NetNameOffsetUnicode c = 0 \<and> DeviceNameOffsetUnicode c = 0 \<and> NetNameUnicode c = [] \<and> DeviceNameUnicode c = [])"

definition no_net :: CommonNetworkRelativeLink where
  "no_net = \<lparr>CommonNetworkRelativeSize = 0, ComNetRelLnkFlags = 0, NetNameOffset = 0, DeviceNameOffset = 0,
     NetworkProviderType = 0, NetNameOffsetUnicode = 0, DeviceNameOffsetUnicode = 0, NetName = [], DeviceName = [],
     NetNameUnicode = [], DeviceNameUnicode = []\<rparr>"

lemma load_net_bytes:
  assumes "wf_net c" "CommonNetRelLnk (linkInfo this) = no_net"
  shows "load_CommonNetworkRelativeLink this (net_bytes c @ fp) =
    Go (this\<lparr>linkInfo := (linkInfo this)\<lparr>CommonNetRelLnk := c\<rparr>\<rparr>) fp"
proof (cases this)
  case (fields h ids li)
  then show ?thesis
    using assms
    by (cases li, cases c)
      (auto simp: load_CommonNetworkRelativeLink_def net_bytes_def wf_net_def statement_defs no_net_def split: if_splits)
qed

section \<open>The whole information\<close>

definition info_bytes :: "LinkHeader \<Rightarrow> LinkInfo \<Rightarrow> byte list" where
  "info_bytes h li =
     (if has_flag (LinkFlags h) LF_HasLinkInfo then
        le_bytes 4 (LinkInfoSize li) @ le_bytes 4 (LinkInfoHeaderSize li) @ le_bytes 4 (LnkInfFlags li) @
        le_bytes 4 (VolumeIDOffset li) @ le_bytes 4 (LocalBasePathOffset li) @
        le_bytes 4 (CommonNetworkRelativeLinkOffset li) @ le_bytes 4 (CommonPathSuffixOffset li) @
        (if 0x24 \<le> LinkInfoHeaderSize li
         then le_bytes 4 (LocalBasePathOffsetUnicode li) @ le_bytes 4 (CommonPathSuffixOffsetUnicode li) else []) @
        (if has_flag (LnkInfFlags li) LIF_VolumeIDAndLocalBasePath
         then volume_bytes (VolID li) @ LocalBasePath li @ [0] else []) @
        (if has_flag (LnkInfFlags li) LIF_CommonNetworkRelativeLinkAndPathSuffix then net_bytes (CommonNetRelLnk li) else []) @
        CommonPathSuffix li @ [0] @
        (if 0x24 \<le> LinkInfoHeaderSize li
         then (if has_flag (LnkInfFlags li) LIF_VolumeIDAndLocalBasePath
               then wide_bytes (LocalBasePathUnicode li) @ [0, 0] else []) @
              wide_bytes (CommonPathSuffixUnicode li) @ [0, 0]
         else [])
      else [])"

definition no_info :: LinkInfo where
  "no_info = \<lparr>LinkInfoSize = 0, LinkInfoHeaderSize = 0, LnkInfFlags = 0, VolumeIDOffset = 0, LocalBasePathOffset = 0,
     CommonNetworkRelativeLinkOffset = 0, CommonPathSuffixOffset = 0, LocalBasePathOffsetUnicode = 0,
     CommonPathSuffixOffsetUnicode = 0, VolID = no_volume, LocalBasePath = [], CommonNetRelLnk = no_net,
     CommonPathSuffix = [], LocalBasePathUnicode = [], CommonPathSuffixUnicode = []\<rparr>"

text \<open>What is not present has the initial value.\<close>

definition wf_info :: "LinkHeader \<Rightarrow> LinkInfo \<Rightarrow> bool" where
  "wf_info h li \<longleftrightarrow>
     (if has_flag (LinkFlags h) LF_HasLinkInfo then
        (LinkInfoHeaderSize li = 0x1C \<or> 0x24 \<le> LinkInfoHeaderSize li) \<and> LnkInfFlags li < 2 ^ 32 \<and>
        (if has_flag (LnkInfFlags li) LIF_VolumeIDAndLocalBasePath
         then wf_volume (VolID li) \<and> 0 \<notin> set (LocalBasePath li)
         else VolID li = no_volume \<and> LocalBasePath li = [] \<and> LocalBasePathUnicode li = []) \<and>
        (if has_flag (LnkInfFlags li) LIF_CommonNetworkRelativeLinkAndPathSuffix then wf_net (CommonNetRelLnk li)
         else CommonNetRelLnk li = no_net) \<and>
        0 \<notin> set (CommonPathSuffix li) \<and>
        (if 0x24 \<le> LinkInfoHeaderSize li
         then 0 \<notin> set (LocalBasePathUnicode li) \<and> 0 \<notin> set (CommonPathSuffixUnicode li)
         else LocalBasePathOffsetUnicode li = 0 \<and> CommonPathSuffixOffsetUnicode li = 0 \<and>
              LocalBasePathUnicode li = [] \<and> CommonPathSuffixUnicode li = [])
      else li = no_info)"

text \<open>The link has two wide paths.\<close>

definition two_wide_paths :: "LinkHeader \<Rightarrow> LinkInfo \<Rightarrow> bool" where
  "two_wide_paths h li \<longleftrightarrow> has_flag (LinkFlags h) LF_HasLinkInfo \<and> 0x24 \<le> LinkInfoHeaderSize li \<and>
     has_flag (LnkInfFlags li) LIF_VolumeIDAndLocalBasePath"

lemma readNULLWStr_Freed [simp]: "readNULLWStr Freed f this fp = Undefined"
  by (simp add: readNULLWStr_def)

lemma load_LinkInfo_bytes:
  assumes "wf_info h li" "linkInfo this = no_info" "header this = h"
  shows "load_LinkInfo this (info_bytes h li @ fp) =
    (if two_wide_paths h li then Undefined else Go (this\<lparr>linkInfo := li\<rparr>) fp)"
proof (cases this)
  case (fields h ids info)
  then show ?thesis
    using assms
    by (cases li)
      (auto simp: load_LinkInfo_def info_bytes_def wf_info_def statement_defs no_info_def load_VolumeID_bytes
        load_net_bytes load_wide_paths_def two_wide_paths_def Let_def split: if_splits)
qed

end
