(* ===== verification/Shellink_Format.thy ===== *)
theory Shellink_Format
  imports Shellink_Info
begin

text \<open>
  The format of the blocks of extra data and of whole shell links; the reader gives every part of a link back
  that has no console block and no two wide paths. What happens with those is stated as well.
\<close>

section \<open>Blocks of extra data\<close>

datatype block =
    ConsoleFE uint32
  | Darwin TargetDataBlock
  | EnvironmentVariable TargetDataBlock
  | IconEnvironment TargetDataBlock
  | KnownFolder KnownFolderDataBlock
  | PropertyStorage PropertyStoreDataBlock
  | Shim ShimDataBlock
  | SpecialFolder SpecialFolderDataBlock
  | Tracker TrackerDataBlock
  | VistaIDList VistaAndAboveIDListDataBlock

definition block_head :: "uint32 \<Rightarrow> uint32 \<Rightarrow> byte list" where
  "block_head sz signature = le_bytes 4 sz @ le_bytes 4 signature"

definition target_bytes :: "TargetDataBlock \<Rightarrow> byte list" where
  "target_bytes t = field 260 (TargetAnsi t) @ wide_field 260 (TargetUnicode t)"

fun block_bytes :: "block \<Rightarrow> byte list" where
  "block_bytes (ConsoleFE cp) = block_head 0xC ConsoleFE_BlockSignature @ le_bytes 4 cp"
| "block_bytes (Darwin t) = block_head 0x314 Darwin_BlockSignature @ target_bytes t"
| "block_bytes (EnvironmentVariable t) = block_head 0x314 EnvironmentVariable_BlockSignature @ target_bytes t"
| "block_bytes (IconEnvironment t) = block_head 0x314 IconEnvironment_BlockSignature @ target_bytes t"
| "block_bytes (KnownFolder k) =
     block_head 0x1C KnownFolder_BlockSignature @ field 16 (KnownFolderID k) @ le_bytes 4 (KnownFolder_Offset k)"
| "block_bytes (PropertyStorage p) =
     block_head (PropertyStore_BlockSize p) PropertyStore_BlockSignature @
     field (unat (PropertyStore_BlockSize p - 8)) (PropertyStore p)"
| "block_bytes (Shim s) =
     block_head (Shim_BlockSize s) Shim_BlockSignature @ wide_field (unat (Shim_BlockSize s - 8) div 2) (LayerName s)"
| "block_bytes (SpecialFolder f) =
     block_head 0x10 SpecialFolder_BlockSignature @ le_bytes 4 (SpecialFolderID f) @ le_bytes 4 (SpecialFolder_Offset f)"
| "block_bytes (Tracker t) =
     block_head 0x60 Tracker_BlockSignature @ le_bytes 4 (Tracker_Length t) @ le_bytes 4 (Tracker_Version t) @
     field 16 (MachineID t) @ field 32 (Droid t) @ field 32 (DroidBirth t)"
| "block_bytes (VistaIDList v) =
     block_head (Vista_BlockSize v) VistaAndAboveIDList_BlockSignature @
     le_bytes 2 (of_nat (length (Vista_IDList v)) :: uint16) @ Vista_IDList v"

definition wf_target :: "TargetDataBlock \<Rightarrow> bool" where
  "wf_target t \<longleftrightarrow> 0 \<notin> set (TargetAnsi t) \<and> length (TargetAnsi t) \<le> 260 \<and> 0 \<notin> set (TargetUnicode t) \<and> length (TargetUnicode t) \<le> 260"

fun wf_block :: "block \<Rightarrow> bool" where
  "wf_block (ConsoleFE cp) \<longleftrightarrow> True"
| "wf_block (Darwin t) \<longleftrightarrow> wf_target t"
| "wf_block (EnvironmentVariable t) \<longleftrightarrow> wf_target t"
| "wf_block (IconEnvironment t) \<longleftrightarrow> wf_target t"
| "wf_block (KnownFolder k) \<longleftrightarrow> 0 \<notin> set (KnownFolderID k) \<and> length (KnownFolderID k) \<le> 16"
| "wf_block (PropertyStorage p) \<longleftrightarrow> 0xC \<le> PropertyStore_BlockSize p \<and> 0 \<notin> set (PropertyStore p) \<and>
     length (PropertyStore p) \<le> unat (PropertyStore_BlockSize p - 8)"
| "wf_block (Shim s) \<longleftrightarrow> 0x88 \<le> Shim_BlockSize s \<and> even (unat (Shim_BlockSize s - 8)) \<and> 0 \<notin> set (LayerName s) \<and>
     length (LayerName s) \<le> unat (Shim_BlockSize s - 8) div 2"
| "wf_block (SpecialFolder f) \<longleftrightarrow> True"
| "wf_block (Tracker t) \<longleftrightarrow> Tracker_Length t = 0x58 \<and> Tracker_Version t = 0 \<and> 0 \<notin> set (MachineID t) \<and> length (MachineID t) \<le> 16 \<and>
     0 \<notin> set (Droid t) \<and> length (Droid t) \<le> 32 \<and> 0 \<notin> set (DroidBirth t) \<and> length (DroidBirth t) \<le> 32"
| "wf_block (VistaIDList v) \<longleftrightarrow> 0xA \<le> Vista_BlockSize v \<and> Vista_IDList v \<noteq> [] \<and> length (Vista_IDList v) < 2 ^ 16"

text \<open>The part of the object that a block sets.\<close>

fun apply_block :: "block \<Rightarrow> ExtraData \<Rightarrow> ExtraData" where
  "apply_block (ConsoleFE cp) x = x\<lparr>consoleFEDB := cp\<rparr>"
| "apply_block (Darwin t) x = x\<lparr>darDB := t\<rparr>"
| "apply_block (EnvironmentVariable t) x = x\<lparr>envVarDB := t\<rparr>"
| "apply_block (IconEnvironment t) x = x\<lparr>iconEnvDB := t\<rparr>"
| "apply_block (KnownFolder k) x = x\<lparr>knownFolderDB := k\<rparr>"
| "apply_block (PropertyStorage p) x = x\<lparr>propStoreDB := p\<rparr>"
| "apply_block (Shim s) x = x\<lparr>shimDB := s\<rparr>"
| "apply_block (SpecialFolder f) x = x\<lparr>speFolderDB := f\<rparr>"
| "apply_block (Tracker t) x = x\<lparr>trackerDB := t\<rparr>"
| "apply_block (VistaIDList v) x = x\<lparr>vistaAboveIDListDB := v\<rparr>"

lemmas signature_defs =
  Console_BlockSignature_def ConsoleFE_BlockSignature_def Darwin_BlockSignature_def EnvironmentVariable_BlockSignature_def
  IconEnvironment_BlockSignature_def KnownFolder_BlockSignature_def PropertyStore_BlockSignature_def
  Shim_BlockSignature_def SpecialFolder_BlockSignature_def Tracker_BlockSignature_def VistaAndAboveIDList_BlockSignature_def

definition read_block_at :: step where
  "read_block_at = fread1 4 (\<lambda>sz. fread1 4 (\<lambda>signature. read_block (of_le_bytes sz) (of_le_bytes signature)))"

lemma read_block_head [simp]: "read_block_at this (block_head sz signature @ fp) = read_block sz signature this fp"
  by (simp add: read_block_at_def block_head_def)

lemma readWStr_520: "0 \<notin> set t \<Longrightarrow> length t \<le> 260 \<Longrightarrow> readWStr f e 520 this (wide_field 260 t @ fp) = Go (f t this) fp"
  using readWStr_field [of t 260 f e this fp] by simp

lemma word_size_pos: "0xC \<le> s \<Longrightarrow> 0 < unat (s - 8)" "0x88 \<le> s \<Longrightarrow> 0 < unat (s - 8) div 2" for s :: uint32
proof -
  have *: "unat (s - 8) = unat s - 8" if "8 \<le> s" using that by (simp add: unat_sub)
  { assume "0xC \<le> s"
    then have "12 \<le> unat s" "8 \<le> s" by (simp_all add: word_le_nat_alt)
    then show "0 < unat (s - 8)" using * by simp }
  { assume "0x88 \<le> s"
    then have "136 \<le> unat s" "8 \<le> s" by (simp_all add: word_le_nat_alt)
    then show "0 < unat (s - 8) div 2" using * by simp }
qed

lemma read_block_bytes:
  assumes "wf_block b"
  shows "read_block_at this (block_bytes b @ fp) = Go (extraData_update (apply_block b) this) fp"
proof (cases this)
  case (fields h ids li sd x)
  show ?thesis
  proof (cases b)
    case (ConsoleFE cp)
    then show ?thesis using fields
      by (cases x) (simp add: read_block_def signature_defs readEConsoleFEDataBlock_def statement_defs)
  next
    case (Darwin t)
    then show ?thesis using fields assms
      by (cases x, cases t)
        (simp add: read_block_def signature_defs readEDarwinDataBlock_def statement_defs target_bytes_def wf_target_def readWStr_520)
  next
    case (EnvironmentVariable t)
    then show ?thesis using fields assms
      by (cases x, cases t)
        (simp add: read_block_def signature_defs readEEnvironmentVariableDataBlock_def statement_defs target_bytes_def
          wf_target_def readWStr_520)
  next
    case (IconEnvironment t)
    then show ?thesis using fields assms
      by (cases x, cases t)
        (simp add: read_block_def signature_defs readEIconEnvironmentDataBlock_def statement_defs target_bytes_def
          wf_target_def readWStr_520)
  next
    case (KnownFolder k)
    then show ?thesis using fields assms
      by (cases x, cases k) (simp add: read_block_def signature_defs readEKnownFolderDataBlock_def statement_defs)
  next
    case (PropertyStorage p)
    then show ?thesis using fields assms
      by (cases x, cases p)
        (simp add: read_block_def signature_defs readEPropertyStoreDataBlock_def statement_defs word_size_pos not_less [symmetric])
  next
    case (Shim s)
    then have "readWStr f e (unat (Shim_BlockSize s - 8)) this (wide_field (unat (Shim_BlockSize s - 8) div 2) (LayerName s) @ fp) =
        Go (f (LayerName s) this) fp" for f e this
      using assms readWStr_field [of "LayerName s" "unat (Shim_BlockSize s - 8) div 2"] word_size_pos(2) by simp
    with Shim show ?thesis using fields assms
      by (cases x, cases s)
        (simp add: read_block_def signature_defs readEShimDataBlock_def statement_defs not_less [symmetric])
  next
    case (SpecialFolder f)
    then show ?thesis using fields
      by (cases x, cases f) (simp add: read_block_def signature_defs readESpecialFolderDataBlock_def statement_defs)
  next
    case (Tracker t)
    then show ?thesis using fields assms
      by (cases x, cases t) (simp add: read_block_def signature_defs readETrackerDataBlock_def statement_defs)
  next
    case (VistaIDList v)
    then show ?thesis using fields assms
      by (cases x, cases v)
        (simp add: read_block_def signature_defs readEVistaAndAboveIDListDataBlock_def statement_defs unat_of_nat16
          read_id_list_all Let_def not_less [symmetric])
  qed
qed

section \<open>Whole links\<close>

lemma steps_append:
  "steps (fs @ gs) this fp =
     (case steps fs this fp of Go this fp \<Rightarrow> steps gs this fp | Return e \<Rightarrow> Return e | Undefined \<Rightarrow> Undefined)"
  by (induction fs arbitrary: this fp) (auto split: outcome.splits)

lemma steps_single: "steps [f] this fp = f this fp"
  by (simp split: outcome.splits)

lemma load_extra_Suc:
  "4 < length fp \<Longrightarrow> load_extra_loop (Suc n) this fp =
     (case read_block_at this fp of
        Go this fp \<Rightarrow> load_extra_loop n this fp | Return e \<Rightarrow> Return e | Undefined \<Rightarrow> Undefined)"
  by (simp add: read_block_at_def)

lemma length_block_head [simp]: "length (block_head sz signature) = 8"
  by (simp add: block_head_def)

lemma block_bytes_long: "4 < length (block_bytes b)"
  by (cases b) simp_all

lemma load_extra_bytes:
  "\<forall>b \<in> set bs. wf_block b \<Longrightarrow> length bs \<le> n \<Longrightarrow>
   load_extra_loop n this (concat (map block_bytes bs) @ replicate 4 0) =
     Go (extraData_update (fold apply_block bs) this) (replicate 4 0)"
proof (induction bs arbitrary: n this)
  case Nil
  have "extraData_update (fold apply_block []) this = this" by (cases this) simp
  then show ?case by (cases n) simp_all
next
  case (Cons b bs)
  then obtain m where n: "n = Suc m" by (cases n) auto
  have "4 < length (block_bytes b @ concat (map block_bytes bs) @ replicate 4 (0 :: byte))"
    using block_bytes_long [of b] by (auto simp: less_Suc_eq_le)
  then have "load_extra_loop n this (block_bytes b @ concat (map block_bytes bs) @ replicate 4 0) =
      load_extra_loop m (extraData_update (apply_block b) this) (concat (map block_bytes bs) @ replicate 4 0)"
    unfolding n using Cons.prems(1) by (subst load_extra_Suc) (simp_all add: read_block_bytes)
  also have "\<dots> = Go (extraData_update (fold apply_block bs) (extraData_update (apply_block b) this)) (replicate 4 0)"
    using Cons n by (intro Cons.IH) auto
  finally show ?case by (cases this) simp
qed

definition link_start :: "LinkHeader \<Rightarrow> byte list \<Rightarrow> LinkInfo \<Rightarrow> StringData \<Rightarrow> byte list" where
  "link_start h ids li sd = header_bytes h @ idlist_bytes h ids @ info_bytes h li @ string_bytes h sd"

definition wf_start :: "LinkHeader \<Rightarrow> byte list \<Rightarrow> LinkInfo \<Rightarrow> StringData \<Rightarrow> bool" where
  "wf_start h ids li sd \<longleftrightarrow> wf_header h \<and> wf_idlist h ids \<and> wf_info h li \<and> wf_strings h sd"

text \<open>The blocks of extra data end with the terminal block, four zeros.\<close>

definition link_bytes :: "LinkHeader \<Rightarrow> byte list \<Rightarrow> LinkInfo \<Rightarrow> StringData \<Rightarrow> block list \<Rightarrow> byte list" where
  "link_bytes h ids li sd bs = link_start h ids li sd @ concat (map block_bytes bs) @ replicate 4 0"

text \<open>An object as it is made; flags that the class leaves without a value are zero.\<close>

definition no_target :: TargetDataBlock where
  "no_target = \<lparr>TargetAnsi = [], TargetUnicode = []\<rparr>"

definition no_extra :: ExtraData where
  "no_extra = \<lparr>
     consoleDB = \<lparr>FillAttributes = 0, PopupFillAttributes = 0, ScreenBufferSizeX = 0, ScreenBufferSizeY = 0, WindowSizeX = 0,
       WindowSizeY = 0, WindowOriginX = 0, WindowOriginY = 0, FontSize = 0, FontFamilys = 0, FontWeight = 0, FaceName = [],
       CursorSize = 0, FullScreen = 0, QuickEdit = 0, InsertMode = 0, AutoPosition = 0, HistoryBufferSize = 0,
       NumberOfHistoryBuffers = 0, HistoryNoDup = 0, ColorTable = replicate 16 0\<rparr>,
     consoleFEDB = 0, darDB = no_target, envVarDB = no_target, iconEnvDB = no_target,
     knownFolderDB = \<lparr>KnownFolderID = [], KnownFolder_Offset = 0\<rparr>,
     propStoreDB = \<lparr>PropertyStore_BlockSize = 0, PropertyStore = []\<rparr>,
     shimDB = \<lparr>Shim_BlockSize = 0, LayerName = []\<rparr>,
     speFolderDB = \<lparr>SpecialFolderID = 0, SpecialFolder_Offset = 0\<rparr>,
     trackerDB = \<lparr>Tracker_Length = 0, Tracker_Version = 0, MachineID = [], Droid = [], DroidBirth = []\<rparr>,
     vistaAboveIDListDB = \<lparr>Vista_BlockSize = 0, Vista_IDList = []\<rparr>\<rparr>"

definition ShellinkParser_new :: ShellinkParser where
  "ShellinkParser_new = \<lparr>
     header = \<lparr>LinkCLSID_L = 0, LinkCLSID_H = 0, LinkFlags = 0, TargetFileAttributes = 0, CreationTime = 0, AccessTime = 0,
       WriteTime = 0, FileSize = 0, IconIndex = 0, ShowCommand = 0, HotKey = 0\<rparr>,
     targetIdList = [], linkInfo = no_info, stringData = no_strings, extraData = no_extra,
     linkPath = [], targetPath = [], iconIndex = 0\<rparr>"

text \<open>The object that holds a link.\<close>

definition loaded :: "wide \<Rightarrow> LinkHeader \<Rightarrow> byte list \<Rightarrow> LinkInfo \<Rightarrow> StringData \<Rightarrow> ExtraData \<Rightarrow> ShellinkParser" where
  "loaded path h ids li sd x = \<lparr>header = h, targetIdList = ids, linkInfo = li, stringData = sd, extraData = x,
     linkPath = path, targetPath = [], iconIndex = 0\<rparr>"

lemma load_start:
  assumes "wf_start h ids li sd" "targetIdList p = []" "linkInfo p = no_info" "stringData p = no_strings" "iconIndex p = 0"
  shows "load path (Some (link_start h ids li sd @ fp)) p =
    (if two_wide_paths h li then Undefined
     else load_extra_loop kExtraDataBlockNum (loaded path h ids li sd (extraData p)) fp)"
proof -
  have parts: "wf_header h" "wf_idlist h ids" "wf_info h li" "wf_strings h sd"
    using assms(1) by (simp_all add: wf_start_def)
  let ?p = "p\<lparr>targetPath := [], linkPath := path\<rparr>"
  let ?rest = "info_bytes h li @ string_bytes h sd @ fp"
  have 1: "load_header ?p (header_bytes h @ r) = Go (?p\<lparr>header := h\<rparr>) r" for r
    by (rule load_header_bytes [OF parts(1)])
  have 2: "load_idlist (?p\<lparr>header := h\<rparr>) (idlist_bytes h ids @ r) = Go (?p\<lparr>header := h, targetIdList := ids\<rparr>) r" for r
    using load_idlist_bytes [of "?p\<lparr>header := h\<rparr>" ids r] parts(2) assms(2) by simp
  have 3: "load_LinkInfo (?p\<lparr>header := h, targetIdList := ids\<rparr>) (info_bytes h li @ r) =
      (if two_wide_paths h li then Undefined else Go (?p\<lparr>header := h, targetIdList := ids, linkInfo := li\<rparr>) r)" for r
    using load_LinkInfo_bytes [of h li "?p\<lparr>header := h, targetIdList := ids\<rparr>" r] parts(3) assms(3) by simp
  have 4: "steps [load_NameString, load_RelativePath, load_WorkingDir, load_CommandLineArguments, load_IconLocation]
      (?p\<lparr>header := h, targetIdList := ids, linkInfo := li\<rparr>) (string_bytes h sd @ r) =
      Go (loaded path h ids li sd (extraData p)) r" for r
    using load_strings_bytes [of "?p\<lparr>header := h, targetIdList := ids, linkInfo := li\<rparr>" sd r] parts(4) assms(4,5)
    by (cases p) (simp add: loaded_def)
  have A: "steps [load_header, load_idlist, load_LinkInfo] ?p (header_bytes h @ idlist_bytes h ids @ info_bytes h li @ r) =
      (if two_wide_paths h li then Undefined else Go (?p\<lparr>header := h, targetIdList := ids, linkInfo := li\<rparr>) r)" for r
    by (simp add: 1 2 3)
  have f: "load_file = steps ([load_header, load_idlist, load_LinkInfo] @
      [load_NameString, load_RelativePath, load_WorkingDir, load_CommandLineArguments, load_IconLocation] @
      [load_extra_loop kExtraDataBlockNum])"
    by (simp add: load_file_def)
  have "load_file ?p (link_start h ids li sd @ fp) = (if two_wide_paths h li then Undefined
     else load_extra_loop kExtraDataBlockNum (loaded path h ids li sd (extraData p)) fp)"
    unfolding f steps_append link_start_def append_assoc A by (simp add: 4 steps_single del: steps.simps)
  then show ?thesis by (simp add: load_def Let_def)
qed

lemma new_parts:
  "targetIdList ShellinkParser_new = []" "linkInfo ShellinkParser_new = no_info" "stringData ShellinkParser_new = no_strings"
  "iconIndex ShellinkParser_new = 0" "extraData ShellinkParser_new = no_extra"
  by (simp_all add: ShellinkParser_new_def)

lemmas load_start_new = load_start [OF _ new_parts(1,2,3,4), unfolded new_parts(5)]

lemma load_link:
  assumes "wf_start h ids li sd" "\<not> two_wide_paths h li" "\<forall>b \<in> set bs. wf_block b" "length bs \<le> 11"
    "targetIdList p = []" "linkInfo p = no_info" "stringData p = no_strings" "iconIndex p = 0"
  shows "load path (Some (link_bytes h ids li sd bs)) p =
    Go (loaded path h ids li sd (fold apply_block bs (extraData p))) (replicate 4 0)"
  using assms
  by (simp add: link_bytes_def load_start kExtraDataBlockNum_def load_extra_bytes del: load_extra_loop.simps)
    (simp add: loaded_def)

section \<open>Properties\<close>


text \<open>The object does not forget: loaded again with another link, it holds the blocks of both, the later
  ones over the earlier ones.\<close>

theorem shellink_reload:
  assumes "wf_start h [] no_info no_strings" "\<forall>b \<in> set bs. wf_block b" "length bs \<le> 11"
    "wf_start h' ids li sd" "\<not> two_wide_paths h' li" "\<forall>b \<in> set bs'. wf_block b" "length bs' \<le> 11"
  shows "case load path (Some (link_bytes h [] no_info no_strings bs)) ShellinkParser_new of
      Go p _ \<Rightarrow> load path' (Some (link_bytes h' ids li sd bs')) p =
        Go (loaded path' h' ids li sd (fold apply_block (bs @ bs') no_extra)) (replicate 4 0)
    | _ \<Rightarrow> False"
proof -
  have n: "\<not> two_wide_paths h no_info" by (simp add: two_wide_paths_def no_info_def)
  note L = load_link [OF assms(1) n assms(2,3) new_parts(1,2,3,4), of path, unfolded new_parts(5)]
  show ?thesis unfolding L using load_link [OF assms(4-7)] by (simp add: loaded_def)
qed

text \<open>A link with a local path or a network path in its link information: \<open>getTargetPath\<close> answers with that
  path, without the system, and keeps it, so that \<open>isRunAsAdmin\<close> looks that path up.\<close>

theorem shellink_target:
  assumes "has_flag (LinkFlags h) LF_HasLinkInfo" "\<not> has_flag (LinkFlags h) LF_ForceNoLinkInfo"
    "has_flag (LnkInfFlags li) LIF_VolumeIDAndLocalBasePath" "LinkInfoHeaderSize li = 0x1C"
    "AnsiToUnicode os (LocalBasePath li @ CommonPathSuffix li) = target" "target \<noteq> []"
  shows "let p = loaded path h ids li sd x in
    getTargetPath os p = (target, p\<lparr>targetPath := target\<rparr>) \<and>
    fst (isRunAsAdmin os p) = (registry_layer os target = Some run_as_admin) \<and>
    isRunAsAdmin os (snd (getTargetPath os p)) = isRunAsAdmin os p"
proof -
  let ?p = "loaded path h ids li sd x"
  have "getTargetPath os ?p = (target, ?p\<lparr>targetPath := target\<rparr>)"
    using assms by (simp add: getTargetPath_def target_of_LinkInfo_def loaded_def Let_def)
  then show ?thesis
    using assms(6) by (auto simp: isRunAsAdmin_def loaded_def Let_def split: option.splits)
qed

text \<open>A link with a local path whose link information has the long header makes the reader hand a freed
  pointer to \<^verbatim>\<open>realloc\<close>, whatever follows in the file.\<close>

theorem two_wide_paths_undefined:
  assumes "wf_start h ids li sd" "two_wide_paths h li"
  shows "load path (Some (link_start h ids li sd @ fp)) ShellinkParser_new = Undefined"
  using load_start_new [OF assms(1)] assms(2) by simp

text \<open>How many bytes a statement reads.\<close>

definition advances :: "step \<Rightarrow> nat \<Rightarrow> bool" where
  "advances f n \<longleftrightarrow> (\<forall>this fp. n \<le> length fp \<longrightarrow> (\<exists>this'. f this fp = Go this' (drop n fp)))"

lemma advances_rd: "advances (rd n f) n"
  by (simp add: advances_def rd_def fread1_def put_def)

lemma advances_seek: "advances (fseek_cur n) n"
  by (simp add: advances_def fseek_cur_def)

lemma advances_fails: "(\<And>this. \<not> c this) \<Longrightarrow> advances (fails c e) 0"
  by (simp add: advances_def fails_def)

lemma advances_readWStr: "even n \<Longrightarrow> 0 < n \<Longrightarrow> advances (readWStr f e n) n"
  by (auto simp: advances_def readWStr_def Let_def elim: evenE)

lemma advances_Nil: "advances (steps []) 0"
  by (simp add: advances_def)

lemma advances_Cons: "advances f m \<Longrightarrow> advances (steps fs) n \<Longrightarrow> advances (steps (f # fs)) (m + n)"
  unfolding advances_def
proof (intro allI impI)
  fix this and fp :: "byte list"
  assume f: "\<forall>this fp. m \<le> length fp \<longrightarrow> (\<exists>this'. f this fp = Go this' (drop m fp))"
    and fs: "\<forall>this fp. n \<le> length fp \<longrightarrow> (\<exists>this'. steps fs this fp = Go this' (drop n fp))" and l: "m + n \<le> length fp"
  have "m \<le> length fp" using l by simp
  with f obtain a where "f this fp = Go a (drop m fp)" by blast
  moreover have "n \<le> length (drop m fp)" using l by simp
  with fs obtain b where "steps fs a (drop m fp) = Go b (drop n (drop m fp))" by blast
  ultimately show "\<exists>this'. steps (f # fs) this fp = Go this' (drop (m + n) fp)" by (simp add: add.commute)
qed

lemma advances_map: "advances (steps (map (\<lambda>i. rd n (f i)) xs)) (n * length xs)"
proof (induction xs)
  case (Cons x xs)
  then show ?case using advances_Cons [OF advances_rd [of n "f x"] Cons.IH] by (simp del: steps.simps)
next
  case Nil
  show ?case using advances_Nil by (simp del: steps.simps)
qed

text \<open>A console block has 196 bytes behind its head; the reader takes 168 of them.\<close>

lemma console_advances: "advances (readEConsoleDataBlock 0xCC) 168"
proof -
  note A = advances_Cons advances_rd advances_seek advances_readWStr advances_map advances_Nil
  have "advances (readEConsoleDataBlock 0xCC)
    (0 + (2 + (2 + (2 + (2 + (2 + (2 + (2 + (2 + (8 + (4 + (4 + (4 + (32 +
      (4 + (4 + (4 + (4 + (4 + (4 + (4 + (4 + (4 + (4 * length [0..<16] + 0))))))))))))))))))))))))"
    unfolding readEConsoleDataBlock_def by (intro A advances_fails) simp_all
  then show ?thesis by simp
qed

definition known_signatures :: "uint32 list" where
  "known_signatures = [Console_BlockSignature, ConsoleFE_BlockSignature, Darwin_BlockSignature,
     EnvironmentVariable_BlockSignature, IconEnvironment_BlockSignature, KnownFolder_BlockSignature,
     PropertyStore_BlockSignature, Shim_BlockSignature, SpecialFolder_BlockSignature, Tracker_BlockSignature,
     VistaAndAboveIDList_BlockSignature]"

lemma read_block_unknown: "signature \<notin> set known_signatures \<Longrightarrow> read_block sz signature this fp = Return SHLLINK_ERR_UNKEDBSIG"
  by (simp add: read_block_def known_signatures_def)

text \<open>A link with a console block, whose size is the documented one, is refused: the reader stops 28 bytes
  before the end of the block and takes two colours for the head of the next block, here the entries 9 and 10
  of the colour table. The assumption says that the entry 10 is not one of the signatures.\<close>

theorem console_block_refused:
  assumes "wf_start h ids li sd" "\<not> two_wide_paths h li" "length body = 196"
    "of_le_bytes (take 4 (drop 172 body)) \<notin> set known_signatures"
  shows "load path (Some (link_start h ids li sd @ block_head 0xCC Console_BlockSignature @ body @ fp)) ShellinkParser_new =
    Return SHLLINK_ERR_UNKEDBSIG"
proof -
  let ?p = "loaded path h ids li sd no_extra"
  obtain q where q: "readEConsoleDataBlock 0xCC ?p (body @ fp) = Go q (drop 168 body @ fp)"
    using console_advances [unfolded advances_def, rule_format, of "body @ fp" ?p] assms(3) by auto
  have 1: "read_block_at ?p (block_head 0xCC Console_BlockSignature @ body @ fp) = Go q (drop 168 body @ fp)"
    using q by (simp add: read_block_def)
  have b: "drop 168 body @ fp = take 4 (drop 168 body) @ take 4 (drop 172 body) @ drop 176 body @ fp"
    using take_drop_take [of 4 "drop 168 body" 4] append_take_drop_id [of 8 "drop 168 body"]
    by simp (metis append.assoc)
  have 2: "read_block_at q (drop 168 body @ fp) = Return SHLLINK_ERR_UNKEDBSIG"
    unfolding b using assms(3,4) by (simp add: read_block_at_def read_block_unknown)
  have "load_extra_loop (Suc (Suc n)) ?p (block_head 0xCC Console_BlockSignature @ body @ fp) = Return SHLLINK_ERR_UNKEDBSIG" for n
    using 1 2 assms(3) by (simp add: load_extra_Suc del: load_extra_loop.simps)
  from this [of 9] show ?thesis
    using assms(1,2) by (simp add: load_start_new kExtraDataBlockNum_def del: load_extra_loop.simps)
qed

section \<open>Witnesses\<close>

definition sample_header :: "uint64 \<Rightarrow> LinkHeader" where
  "sample_header flags = \<lparr>LinkCLSID_L = 0xC000000000000046, LinkCLSID_H = 0x0114020000000000, LinkFlags = flags,
     TargetFileAttributes = 0x20, CreationTime = 1, AccessTime = 2, WriteTime = 3, FileSize = 4, IconIndex = 0,
     ShowCommand = 1, HotKey = 0\<rparr>"

definition sample_info :: "uint32 \<Rightarrow> LinkInfo" where
  "sample_info sz = no_info\<lparr>LinkInfoHeaderSize := sz, LnkInfFlags := 1,
     VolID := no_volume\<lparr>VolumeIDSize := 17, VolumeLabelOffset := 16, Data := [65]\<rparr>, LocalBasePath := [67, 58],
     CommonPathSuffix := [97]\<rparr>"

lemmas sample_defs = wf_start_def wf_header_def wf_idlist_def wf_info_def wf_strings_def wf_counted_def wf_volume_def
  two_wide_paths_def sample_header_def sample_info_def no_info_def no_volume_def no_net_def no_strings_def has_flag_def
  LF_HasLinkTargetIDList_def LF_HasLinkInfo_def LF_HasName_def LF_HasRelativePath_def LF_HasWorkingDir_def
  LF_HasArguments_def LF_HasIconLocation_def LF_IsUnicode_def LIF_VolumeIDAndLocalBasePath_def
  LIF_CommonNetworkRelativeLinkAndPathSuffix_def


lemma shellink_reload_witness:
  "case load [] (Some (link_bytes (sample_header 0) [] no_info no_strings
          [SpecialFolder \<lparr>SpecialFolderID = 37, SpecialFolder_Offset = 0\<rparr>])) ShellinkParser_new of
     Go p _ \<Rightarrow> load [1] (Some (link_bytes (sample_header 0) [] no_info no_strings [ConsoleFE 1252])) p =
        Go (loaded [1] (sample_header 0) [] no_info no_strings
          (fold apply_block ([SpecialFolder \<lparr>SpecialFolderID = 37, SpecialFolder_Offset = 0\<rparr>] @ [ConsoleFE 1252]) no_extra))
          (replicate 4 0)
   | _ \<Rightarrow> False"
  by (rule shellink_reload) (simp_all add: sample_defs)

definition sample_os :: os where
  "sample_os = \<lparr>AnsiToUnicode = map ucast, SHGetFolderPath = \<lambda>_. None, path_of_idlist = \<lambda>_. [],
     PathParseIconLocation = \<lambda>p. (p, 0), registry_layer = \<lambda>_. None\<rparr>"

lemma shellink_target_witness:
  "let p = loaded [] (sample_header 2) [] (sample_info 0x1C) no_strings no_extra in
    getTargetPath sample_os p = ([67, 58, 97], p\<lparr>targetPath := [67, 58, 97]\<rparr>) \<and>
    fst (isRunAsAdmin sample_os p) = (registry_layer sample_os [67, 58, 97] = Some run_as_admin) \<and>
    isRunAsAdmin sample_os (snd (getTargetPath sample_os p)) = isRunAsAdmin sample_os p"
  by (rule shellink_target) (simp_all add: sample_defs sample_os_def LF_ForceNoLinkInfo_def)

lemma two_wide_paths_undefined_witness:
  "load [] (Some (link_start (sample_header 2) [] (sample_info 0x24) no_strings @ [0, 0, 0, 0])) ShellinkParser_new = Undefined"
  by (rule two_wide_paths_undefined) (simp_all add: sample_defs)

lemma console_block_refused_witness:
  "load [] (Some (link_start (sample_header 0) [] no_info no_strings @ block_head 0xCC Console_BlockSignature @
     (replicate 172 7 @ [7, 7, 7, 7] @ replicate 20 7) @ [0, 0, 0, 0])) ShellinkParser_new = Return SHLLINK_ERR_UNKEDBSIG"
  by (rule console_block_refused) (simp_all add: sample_defs known_signatures_def signature_defs)

end
