(* ===== verification/Memory_Pool.thy ===== *)
theory Memory_Pool
  imports Transition "HOL-Library.Word" "HOL-Library.Monad_Syntax"
begin

text \<open>
  Model of \<^verbatim>\<open>src/include/ashe/memory_pool.h\<close> on a 64-bit machine: a pool of blocks of one size in two doubly
  linked lists, the blocks in use and the free ones, in an explicit heap. The head of a block is a pair of
  links, what the caller gets is the address behind it. \<open>None\<close> as a result is an access to a
  block that does not exist. The contents of the blocks are not modelled.
\<close>

section \<open>The code\<close>

type_synonym addr = "64 word"

record Element =
  e_pre :: "addr option"
  e_next :: "addr option"

type_synonym heap = "addr \<rightharpoonup> Element"

record MemoryPool =
  data_element :: "addr option"
  free_element :: "addr option"
  blocks :: heap

definition sizeof_element :: addr where "sizeof_element = 16"

definition alignof_element :: addr where "alignof_element = 8"

definition MemoryPool_new :: MemoryPool where
  "MemoryPool_new = \<lparr>data_element = None, free_element = None, blocks = Map.empty\<rparr>"

definition padPointer :: "addr \<Rightarrow> addr \<Rightarrow> addr" where
  "padPointer p align = (align - p) mod align"

text \<open>Assignments through a pointer that may be null.\<close>

definition set_pre :: "addr option \<Rightarrow> addr option \<Rightarrow> heap \<Rightarrow> heap option" where
  "set_pre a v h = (case a of None \<Rightarrow> Some h | Some a \<Rightarrow> map_option (\<lambda>e. h(a \<mapsto> e\<lparr>e_pre := v\<rparr>)) (h a))"

definition set_next :: "addr option \<Rightarrow> addr option \<Rightarrow> heap \<Rightarrow> heap option" where
  "set_next a v h = (case a of None \<Rightarrow> Some h | Some a \<Rightarrow> map_option (\<lambda>e. h(a \<mapsto> e\<lparr>e_next := v\<rparr>)) (h a))"

text \<open>\<open>fresh\<close> is the address that \<^verbatim>\<open>operator new\<close> returns.\<close>

definition allocateBlock :: "addr \<Rightarrow> MemoryPool \<Rightarrow> MemoryPool option" where
  "allocateBlock fresh p =
     do {
       let h = (blocks p)(fresh \<mapsto> \<lparr>e_pre = None, e_next = None\<rparr>);
       h \<leftarrow> set_pre (data_element p) (Some fresh) h;
       h \<leftarrow> set_next (Some fresh) (data_element p) h;
       Some (p\<lparr>blocks := h, data_element := Some fresh\<rparr>)
     }"

definition body_of :: "addr \<Rightarrow> addr" where
  "body_of a = (let body = a + sizeof_element in body + padPointer body alignof_element)"

definition allocate :: "addr \<Rightarrow> MemoryPool \<Rightarrow> (addr \<times> MemoryPool) option" where
  "allocate fresh p =
     (case free_element p of
        Some tmp \<Rightarrow>
          do {
            e \<leftarrow> blocks p tmp;
            let free = e_next e;
            h \<leftarrow> set_pre free None (blocks p);
            h \<leftarrow> set_next (Some tmp) (data_element p) h;
            h \<leftarrow> set_pre (data_element p) (Some tmp) h;
            h \<leftarrow> set_pre (Some tmp) None h;
            Some (body_of tmp, p\<lparr>blocks := h, free_element := free, data_element := Some tmp\<rparr>)
          }
      | None \<Rightarrow>
          do {
            p \<leftarrow> allocateBlock fresh p;
            a \<leftarrow> data_element p;
            Some (body_of a, p)
          })"

definition deallocate :: "addr option \<Rightarrow> MemoryPool \<Rightarrow> MemoryPool option" where
  "deallocate ptr p =
     (case ptr of
        None \<Rightarrow> Some p
      | Some ptr \<Rightarrow>
          do {
            let ele = ptr - sizeof_element;
            e \<leftarrow> blocks p ele;
            h \<leftarrow> set_next (e_pre e) (e_next e) (blocks p);
            h \<leftarrow> set_pre (e_next e) (e_pre e) h;
            let data = (if e_pre e = None then e_next e else data_element p);
            h \<leftarrow> set_pre (Some ele) None h;
            h \<leftarrow> set_next (Some ele) (free_element p) h;
            h \<leftarrow> set_pre (free_element p) (Some ele) h;
            Some (p\<lparr>blocks := h, data_element := data, free_element := Some ele\<rparr>)
          })"

text \<open>The loops of the destructor.\<close>

partial_function (option) delete_list :: "addr option \<Rightarrow> heap \<Rightarrow> heap option" where
  "delete_list cur h =
     (case cur of
        None \<Rightarrow> Some h
      | Some a \<Rightarrow> (case h a of None \<Rightarrow> None | Some e \<Rightarrow> delete_list (e_next e) (h(a := None))))"

declare delete_list.simps [code]

definition MemoryPool_destroy :: "MemoryPool \<Rightarrow> heap option" where
  "MemoryPool_destroy p = Option.bind (delete_list (data_element p) (blocks p)) (delete_list (free_element p))"

text \<open>Move assignment exchanges the lists of two pools; each pool keeps its blocks in the common heap.\<close>

definition MemoryPool_move :: "MemoryPool \<Rightarrow> MemoryPool \<Rightarrow> MemoryPool \<times> MemoryPool" where
  "MemoryPool_move p q =
     (p\<lparr>data_element := data_element q, free_element := free_element q\<rparr>,
      q\<lparr>data_element := data_element p, free_element := free_element p\<rparr>)"

section \<open>Doubly linked lists\<close>

fun first :: "addr list \<Rightarrow> addr option \<Rightarrow> addr option" where
  "first [] n = n"
| "first (a # as) n = Some a"

fun linked :: "heap \<Rightarrow> addr option \<Rightarrow> addr list \<Rightarrow> addr option \<Rightarrow> bool" where
  "linked h p [] n \<longleftrightarrow> True"
| "linked h p (a # as) n \<longleftrightarrow> h a = Some \<lparr>e_pre = p, e_next = first as n\<rparr> \<and> linked h (Some a) as n"

fun final :: "addr option \<Rightarrow> addr list \<Rightarrow> addr option" where
  "final p [] = p"
| "final p (a # as) = final (Some a) as"

lemma linked_append: "linked h p (as @ bs) n \<longleftrightarrow> linked h p as (first bs n) \<and> linked h (final p as) bs n"
proof (induction as arbitrary: p)
  case (Cons a as)
  have "first (as @ bs) n = first as (first bs n)" by (cases as) simp_all
  with Cons show ?case by auto
qed simp

lemma linked_frame: "\<forall>a \<in> set as. h' a = h a \<Longrightarrow> linked h' p as n = linked h p as n"
  by (induction as arbitrary: p) auto

lemma final_append [simp]: "final p (as @ [a]) = Some a"
  by (induction as arbitrary: p) auto

lemma linked_set_pre:
  assumes "linked h p as n" "distinct as"
  shows "\<exists>h'. set_pre (first as None) p' h = Some h' \<and> linked h' p' as n \<and> dom h' = dom h \<and>
    (\<forall>b. first as None \<noteq> Some b \<longrightarrow> h' b = h b)"
proof (cases as)
  case (Cons a bs)
  have "linked (h(a \<mapsto> \<lparr>e_pre = p', e_next = first bs n\<rparr>)) (Some a) bs n = linked h (Some a) bs n"
    using Cons assms(2) by (intro linked_frame) auto
  then show ?thesis using Cons assms(1) by (auto simp: set_pre_def)
qed (simp add: set_pre_def)

lemma linked_set_next:
  assumes "linked h None as n" "distinct as"
  shows "\<exists>h'. set_next (final None as) n' h = Some h' \<and> linked h' None as n' \<and> dom h' = dom h \<and>
    (\<forall>b. final None as \<noteq> Some b \<longrightarrow> h' b = h b)"
proof (cases as rule: rev_cases)
  case (snoc bs a)
  have h: "h a = Some \<lparr>e_pre = final None bs, e_next = n\<rparr>" "linked h None bs (Some a)"
    using assms(1) unfolding snoc by (simp_all add: linked_append)
  have "linked (h(a \<mapsto> \<lparr>e_pre = final None bs, e_next = n'\<rparr>)) None bs (Some a) = linked h None bs (Some a)"
    using snoc assms(2) by (intro linked_frame) auto
  then show ?thesis using snoc h by (auto simp: set_next_def linked_append)
qed (simp add: set_next_def)

section \<open>The invariant\<close>

text \<open>The pool holds the blocks \<open>ds\<close> in use and the free blocks \<open>fs\<close>, and its heap consists of them.\<close>

definition repr :: "MemoryPool \<Rightarrow> addr list \<Rightarrow> addr list \<Rightarrow> bool" where
  "repr p ds fs \<longleftrightarrow> linked (blocks p) None ds None \<and> linked (blocks p) None fs None \<and>
     data_element p = first ds None \<and> free_element p = first fs None \<and>
     distinct (ds @ fs) \<and> dom (blocks p) = set ds \<union> set fs"

lemma allocate_new:
  assumes "repr p ds []" "fresh \<notin> set ds"
  shows "\<exists>p'. allocate fresh p = Some (body_of fresh, p') \<and> repr p' (fresh # ds) []"
proof -
  let ?h = "(blocks p)(fresh \<mapsto> \<lparr>e_pre = None, e_next = None\<rparr>)"
  have "linked (blocks p) None ds None" "distinct ds" using assms by (simp_all add: repr_def)
  then have d: "linked ?h None ds None" "distinct ds"
    using assms(2) by (auto simp: linked_frame [of ds ?h "blocks p"])
  obtain h1 where h1: "set_pre (first ds None) (Some fresh) ?h = Some h1" "linked h1 (Some fresh) ds None" "dom h1 = dom ?h"
      "\<forall>b. first ds None \<noteq> Some b \<longrightarrow> h1 b = ?h b"
    using linked_set_pre [OF d] by blast
  have f: "h1 fresh = Some \<lparr>e_pre = None, e_next = None\<rparr>" using h1(4) assms(2) by (cases ds) auto
  have "linked (h1(fresh \<mapsto> \<lparr>e_pre = None, e_next = first ds None\<rparr>)) (Some fresh) ds None"
    using h1(2) assms(2) by (subst linked_frame) auto
  then show ?thesis
    using assms h1 f by (auto simp: allocate_def allocateBlock_def repr_def set_next_def Let_def)
qed

lemma allocate_free:
  assumes "repr p ds (a # fs)"
  shows "\<exists>p'. allocate fresh p = Some (body_of a, p') \<and> repr p' (a # ds) fs"
proof -
  have r: "linked (blocks p) None ds None" "blocks p a = Some \<lparr>e_pre = None, e_next = first fs None\<rparr>"
    "linked (blocks p) (Some a) fs None" "distinct fs" "distinct ds" "a \<notin> set fs" "a \<notin> set ds" "set ds \<inter> set fs = {}"
    using assms by (auto simp: repr_def)
  obtain h1 where h1: "set_pre (first fs None) None (blocks p) = Some h1" "linked h1 None fs None" "dom h1 = dom (blocks p)"
      "\<forall>b. first fs None \<noteq> Some b \<longrightarrow> h1 b = blocks p b"
    using linked_set_pre [OF r(3,4)] by blast
  have fa: "first fs None \<noteq> Some a" "\<forall>b \<in> set ds. first fs None \<noteq> Some b" using r(6,8) by (cases fs; auto)+
  let ?e = "\<lparr>e_pre = None, e_next = first ds None\<rparr>"
  let ?h2 = "h1(a \<mapsto> ?e)"
  have h2: "set_next (Some a) (first ds None) h1 = Some ?h2" using h1(4) r(2) fa by (simp add: set_next_def)
  have d2: "linked ?h2 None ds None"
    using r(1,7) h1(4) fa by (subst linked_frame [of _ _ "blocks p"]) auto
  obtain h3 where h3: "set_pre (first ds None) (Some a) ?h2 = Some h3" "linked h3 (Some a) ds None" "dom h3 = dom ?h2"
      "\<forall>b. first ds None \<noteq> Some b \<longrightarrow> h3 b = ?h2 b"
    using linked_set_pre [OF d2 r(5)] by blast
  have da: "first ds None \<noteq> Some a" "\<forall>b \<in> set fs. first ds None \<noteq> Some b" using r(7,8) by (cases ds; auto)+
  have a3: "h3 a = Some ?e" using h3(4) da by simp
  have h4: "set_pre (Some a) None h3 = Some h3" using a3 by (simp add: set_pre_def fun_upd_idem)
  have "linked h3 None fs None" using h1(2) h3(4) da(2) r(6) by (subst linked_frame [of _ _ h1]) auto
  then have "repr (p\<lparr>blocks := h3, free_element := first fs None, data_element := Some a\<rparr>) (a # ds) fs"
    using assms h3(2,3) h1(3) a3 r by (auto simp: repr_def)
  moreover have "allocate fresh p = Some (body_of a, p\<lparr>blocks := h3, free_element := first fs None, data_element := Some a\<rparr>)"
    using assms r(2) h1(1) h2 h3(1) h4 by (simp add: allocate_def repr_def Let_def)
  ultimately show ?thesis by blast
qed

lemma final_xs: "final p xs = (if xs = [] then p else Some (last xs))"
  by (induction xs arbitrary: p) auto

lemma first_xs: "first xs n = (if xs = [] then n else Some (hd xs))"
  by (cases xs) auto

lemma deallocate_block:
  assumes "repr p (xs @ a # ys) fs"
  shows "\<exists>p'. deallocate (Some (a + sizeof_element)) p = Some p' \<and> repr p' (xs @ ys) (a # fs)"
proof -
  let ?pre = "final None xs" and ?next = "first ys None"
  have r: "linked (blocks p) None xs (Some a)" "blocks p a = Some \<lparr>e_pre = ?pre, e_next = ?next\<rparr>" "linked (blocks p) (Some a) ys None"
    "linked (blocks p) None fs None" "distinct xs" "distinct ys" "distinct fs" "a \<notin> set xs" "a \<notin> set ys" "a \<notin> set fs"
    "set xs \<inter> set ys = {}" "set xs \<inter> set fs = {}" "set ys \<inter> set fs = {}"
    using assms by (auto simp: repr_def linked_append)
  obtain h1 where h1: "set_next ?pre ?next (blocks p) = Some h1" "linked h1 None xs ?next" "dom h1 = dom (blocks p)"
      "\<forall>b. ?pre \<noteq> Some b \<longrightarrow> h1 b = blocks p b"
    using linked_set_next [OF r(1,5)] by blast
  have pre: "?pre \<noteq> Some a" "\<forall>b \<in> set ys \<union> set fs. ?pre \<noteq> Some b"
    using r(8,11,12) by (auto simp: final_xs dest: last_in_set)
  have y1: "linked h1 (Some a) ys None" using r(3) h1(4) pre by (subst linked_frame [of _ _ "blocks p"]) auto
  obtain h2 where h2: "set_pre ?next ?pre h1 = Some h2" "linked h2 ?pre ys None" "dom h2 = dom h1"
      "\<forall>b. ?next \<noteq> Some b \<longrightarrow> h2 b = h1 b"
    using linked_set_pre [OF y1 r(6)] by blast
  have nxt: "?next \<noteq> Some a" "\<forall>b \<in> set xs \<union> set fs. ?next \<noteq> Some b"
    using r(9,11,13) hd_in_set [of ys] by (auto simp: first_xs disjoint_iff)
  have x2: "linked h2 None xs ?next" using h1(2) h2(4) nxt by (subst linked_frame [of _ _ h1]) auto
  have a2: "h2 a = Some \<lparr>e_pre = ?pre, e_next = ?next\<rparr>" using r(2) h1(4) h2(4) pre(1) nxt(1) by simp
  let ?e = "\<lparr>e_pre = None, e_next = first fs None\<rparr>"
  let ?h3 = "h2(a \<mapsto> \<lparr>e_pre = None, e_next = ?next\<rparr>)" and ?h4 = "h2(a \<mapsto> ?e)"
  have h3: "set_pre (Some a) None h2 = Some ?h3" and h4: "set_next (Some a) (first fs None) ?h3 = Some ?h4"
    using a2 by (simp_all add: set_pre_def set_next_def)
  have f4: "linked ?h4 None fs None"
    using r(4,10) h1(4) h2(4) pre nxt by (subst linked_frame [of _ _ "blocks p"]) auto
  obtain h5 where h5: "set_pre (first fs None) (Some a) ?h4 = Some h5" "linked h5 (Some a) fs None" "dom h5 = dom ?h4"
      "\<forall>b. first fs None \<noteq> Some b \<longrightarrow> h5 b = ?h4 b"
    using linked_set_pre [OF f4 r(7)] by blast
  have fst: "first fs None \<noteq> Some a" "\<forall>b \<in> set xs \<union> set ys. first fs None \<noteq> Some b"
    using r(10,12,13) hd_in_set [of fs] by (auto simp: first_xs disjoint_iff)
  have "linked h5 None (xs @ ys) None"
    using x2 h2(2) h5(4) fst r(8,9) by (subst linked_frame [of _ _ h2]) (auto simp: linked_append)
  moreover have "h5 a = Some ?e" using h5(4) fst by simp
  moreover have "dom h5 = set (xs @ ys) \<union> set (a # fs)"
    using assms h1(3) h2(3) h5(3) by (auto simp: repr_def)
  moreover have data: "(if ?pre = None then ?next else data_element p) = first (xs @ ys) None"
    using assms by (auto simp: repr_def final_xs first_xs)
  ultimately have "repr (p\<lparr>blocks := h5, data_element := (if ?pre = None then ?next else data_element p), free_element := Some a\<rparr>)
      (xs @ ys) (a # fs)"
    using assms h5(2) by (auto simp: repr_def)
  moreover have "free_element p = first fs None" using assms by (simp add: repr_def)
  moreover have "deallocate (Some (a + sizeof_element)) p =
      Some (p\<lparr>blocks := h5, data_element := (if ?pre = None then ?next else data_element p), free_element := Some a\<rparr>)"
    using calculation(2) r(2) h1(1) h2(1) h3 h4 h5(1) by (simp add: deallocate_def)
  ultimately show ?thesis by blast
qed

lemma delete_list_linked:
  "linked h p as None \<Longrightarrow> distinct as \<Longrightarrow> delete_list (first as None) h = Some (h |` (- set as))"
proof (induction as arbitrary: h p)
  case Nil
  then show ?case by (simp add: delete_list.simps)
next
  case (Cons a as)
  have "linked (h(a := None)) (Some a) as None" using Cons.prems by (subst linked_frame [of _ _ h]) auto
  then have "delete_list (first as None) (h(a := None)) = Some ((h(a := None)) |` (- set as))"
    by (rule Cons.IH) (use Cons.prems in simp)
  moreover have "(h(a := None)) |` (- set as) = h |` (- set (a # as))" by (auto simp: restrict_map_def fun_eq_iff)
  moreover have "delete_list (first (a # as) None) h = delete_list (first as None) (h(a := None))"
    using Cons.prems by (subst delete_list.simps) simp
  ultimately show ?case by (simp only:)
qed

lemma destroy_all:
  assumes "repr p ds fs"
  shows "MemoryPool_destroy p = Some Map.empty"
proof -
  let ?h = "blocks p |` (- set ds)"
  have "linked ?h None fs None" using assms by (subst linked_frame [of _ _ "blocks p"]) (auto simp: repr_def restrict_map_def)
  then have "delete_list (first fs None) ?h = Some (?h |` (- set fs))" using assms by (intro delete_list_linked) (auto simp: repr_def)
  moreover have "delete_list (first ds None) (blocks p) = Some ?h" using assms by (intro delete_list_linked) (auto simp: repr_def)
  moreover have "?h |` (- set fs) = Map.empty" using assms by (auto simp: repr_def restrict_map_def fun_eq_iff)
  ultimately show ?thesis using assms by (simp add: MemoryPool_destroy_def repr_def)
qed

section \<open>Use of the pool\<close>

text \<open>
  The pool with the addresses that its user holds. \<^verbatim>\<open>operator new\<close> returns addresses of blocks that do not
  exist, aligned to 16 bytes and not at the end of the address space.
\<close>

record pool_use =
  pool :: MemoryPool
  held :: "addr list"

datatype pool_label = Alloc addr | Dealloc addr | Bad

definition aligned :: "addr \<Rightarrow> bool" where
  "aligned a \<longleftrightarrow> a mod 16 = 0"

definition new_ok :: "addr \<Rightarrow> MemoryPool \<Rightarrow> bool" where
  "new_ok fresh p \<longleftrightarrow> blocks p fresh = None \<and> aligned fresh"

inductive use_step :: "pool_use \<Rightarrow> pool_label \<Rightarrow> pool_use \<Rightarrow> bool" where
  use_alloc: "new_ok fresh (pool s) \<Longrightarrow> allocate fresh (pool s) = Some (a, p) \<Longrightarrow>
    use_step s (Alloc a) \<lparr>pool = p, held = a # held s\<rparr>"
| use_alloc_bad: "new_ok fresh (pool s) \<Longrightarrow> allocate fresh (pool s) = None \<Longrightarrow> use_step s Bad s"
| use_dealloc: "a \<in> set (held s) \<Longrightarrow> deallocate (Some a) (pool s) = Some p \<Longrightarrow>
    use_step s (Dealloc a) \<lparr>pool = p, held = remove1 a (held s)\<rparr>"
| use_dealloc_bad: "a \<in> set (held s) \<Longrightarrow> deallocate (Some a) (pool s) = None \<Longrightarrow> use_step s Bad s"

inductive_cases use_stepE: "use_step s l s'"

lemma body_of_aligned:
  assumes "aligned a"
  shows "body_of a = a + sizeof_element"
proof -
  have "a div 16 * 16 = a" using div_mult_mod_eq [of a 16] assms by (simp add: aligned_def)
  then obtain k where a: "a = 16 * k" by (metis mult.commute)
  have "8 - (a + 16) = push_bit 3 (1 - 2 * k - 2)" by (simp add: a push_bit_eq_mult algebra_simps)
  moreover have "take_bit 3 (push_bit 3 (1 - 2 * k - 2)) = 0" by (simp add: take_bit_push_bit)
  ultimately have "(8 - (a + 16)) mod 8 = 0" by (simp add: take_bit_eq_mod)
  then show ?thesis by (simp add: body_of_def padPointer_def alignof_element_def sizeof_element_def Let_def)
qed

text \<open>The addresses that the user holds are those of the blocks in use, and the pool is well formed.\<close>

definition use_inv :: "pool_use \<Rightarrow> bool" where
  "use_inv s \<longleftrightarrow> (\<exists>ds fs. repr (pool s) ds fs \<and> held s = map (\<lambda>a. a + sizeof_element) ds \<and>
     (\<forall>a \<in> set (ds @ fs). aligned a))"

lemma use_invI: "repr p ds fs \<Longrightarrow> \<forall>a \<in> set (ds @ fs). aligned a \<Longrightarrow> use_inv \<lparr>pool = p, held = map (\<lambda>a. a + sizeof_element) ds\<rparr>"
  by (auto simp: use_inv_def)

lemma use_alloc_ok:
  assumes "use_inv s" "new_ok fresh (pool s)"
  shows "\<exists>a p. allocate fresh (pool s) = Some (a, p) \<and> a \<notin> set (held s) \<and> use_inv \<lparr>pool = p, held = a # held s\<rparr>"
proof -
  obtain ds fs where r: "repr (pool s) ds fs" "held s = map (\<lambda>a. a + sizeof_element) ds" "\<forall>a \<in> set (ds @ fs). aligned a"
    using assms(1) by (auto simp: use_inv_def)
  have "\<exists>b p fs'. allocate fresh (pool s) = Some (body_of b, p) \<and> repr p (b # ds) fs' \<and> (\<forall>a \<in> set (b # ds @ fs'). aligned a) \<and> b \<notin> set ds"
  proof (cases fs)
    case Nil
    have "fresh \<notin> set ds" using r(1) assms(2) by (auto simp: repr_def new_ok_def)
    then obtain p where "allocate fresh (pool s) = Some (body_of fresh, p)" "repr p (fresh # ds) []"
      using allocate_new [of "pool s" ds fresh] r(1) Nil by auto
    with r(3) assms(2) \<open>fresh \<notin> set ds\<close> show ?thesis
      by (intro exI [of _ fresh] exI [of _ p] exI [of _ "[]"]) (auto simp: new_ok_def)
  next
    case (Cons b fs')
    then have "b \<notin> set ds" using r(1) by (auto simp: repr_def)
    moreover obtain p where "allocate fresh (pool s) = Some (body_of b, p)" "repr p (b # ds) fs'"
      using allocate_free [of "pool s" ds b fs' fresh] r(1) Cons by auto
    ultimately show ?thesis using r(3) Cons
      by (intro exI [of _ b] exI [of _ p] exI [of _ fs']) auto
  qed
  then obtain b p fs' where b: "allocate fresh (pool s) = Some (body_of b, p)" "repr p (b # ds) fs'"
      "\<forall>a \<in> set (b # ds @ fs'). aligned a" "b \<notin> set ds" by blast
  then have "body_of b = b + sizeof_element" by (intro body_of_aligned) simp
  then show ?thesis using b r(2) use_invI [of p "b # ds" fs'] by auto
qed

lemma use_dealloc_ok:
  assumes "use_inv s" "a \<in> set (held s)"
  shows "\<exists>p. deallocate (Some a) (pool s) = Some p \<and> use_inv \<lparr>pool = p, held = remove1 a (held s)\<rparr> \<and> a \<notin> set (remove1 a (held s))"
proof -
  obtain ds fs where r: "repr (pool s) ds fs" "held s = map (\<lambda>a. a + sizeof_element) ds" "\<forall>a \<in> set (ds @ fs). aligned a"
    using assms(1) by (auto simp: use_inv_def)
  then obtain b where b: "a = b + sizeof_element" "b \<in> set ds" using assms(2) by auto
  then obtain xs ys where s: "ds = xs @ b # ys" by (auto simp: in_set_conv_decomp)
  have d: "b \<notin> set xs" "b \<notin> set ys" using r(1) s by (auto simp: repr_def)
  obtain p where p: "deallocate (Some a) (pool s) = Some p" "repr p (xs @ ys) (b # fs)"
    using deallocate_block [of "pool s" xs b ys fs] r(1) s b(1) by auto
  have "remove1 a (held s) = map (\<lambda>a. a + sizeof_element) (xs @ ys)"
    using r(2) s b(1) d by (simp add: remove1_append image_iff)
  moreover have "use_inv \<lparr>pool = p, held = map (\<lambda>a. a + sizeof_element) (xs @ ys)\<rparr>"
    using p(2) r(3) s by (intro use_invI) auto
  ultimately show ?thesis using p(1) d b(1) by auto
qed

interpretation mp: state_machine "\<lambda>s. s = \<lparr>pool = MemoryPool_new, held = []\<rparr>" use_step use_inv
proof unfold_locales
  show "use_inv s" if "s = \<lparr>pool = MemoryPool_new, held = []\<rparr>" for s
    using that by (auto simp: use_inv_def repr_def MemoryPool_new_def)
  show "use_inv s'" if "use_inv s" "use_step s l s'" for s l s'
    using that(2)
  proof (cases rule: use_step.cases)
    case (use_alloc fresh a p)
    then show ?thesis using use_alloc_ok [OF that(1) use_alloc(3)] by auto
  next
    case (use_dealloc a p)
    then show ?thesis using use_dealloc_ok [OF that(1) use_dealloc(3)] by auto
  qed (use that in auto)
qed

section \<open>Properties\<close>

text \<open>Property C21: whatever is allocated and released, in any order, the pool never follows a bad pointer, the
  addresses that its user holds are distinct and belong to blocks that exist, and a new one is none of
  those held; the destructor then frees every block, of the user and of the free list.\<close>

theorem memory_pool_safe:
  assumes "reachable (\<lambda>s. s = \<lparr>pool = MemoryPool_new, held = []\<rparr>) use_step s"
  shows "distinct (held s) \<and> (\<forall>a \<in> set (held s). blocks (pool s) (a - sizeof_element) \<noteq> None) \<and>
    \<not> use_step s Bad s' \<and> (\<forall>a s'. use_step s (Alloc a) s' \<longrightarrow> a \<notin> set (held s)) \<and>
    MemoryPool_destroy (pool s) = Some Map.empty"
proof (intro conjI)
  have I: "use_inv s" by (rule mp.inv_reachable [OF assms])
  then obtain ds fs where r: "repr (pool s) ds fs" "held s = map (\<lambda>a. a + sizeof_element) ds"
    by (auto simp: use_inv_def)
  show "distinct (held s)" using r by (simp add: repr_def distinct_map inj_on_def)
  show "\<forall>a \<in> set (held s). blocks (pool s) (a - sizeof_element) \<noteq> None" using r by (auto simp: repr_def)
  show "\<not> use_step s Bad s'" using use_alloc_ok [OF I] use_dealloc_ok [OF I] by (auto elim!: use_stepE) fastforce+
  show "\<forall>a s'. use_step s (Alloc a) s' \<longrightarrow> a \<notin> set (held s)" using use_alloc_ok [OF I] by (auto elim!: use_stepE) fastforce
  show "MemoryPool_destroy (pool s) = Some Map.empty" by (rule destroy_all [OF r(1)])
qed

lemma example_new: "repr MemoryPool_new [] []" "new_ok 32 MemoryPool_new"
  by (simp_all add: repr_def MemoryPool_new_def new_ok_def aligned_def)

lemma memory_pool_safe_witness:
  "\<exists>a p. allocate 32 MemoryPool_new = Some (a, p) \<and> MemoryPool_destroy p = Some Map.empty"
proof -
  let ?s = "\<lparr>pool = MemoryPool_new, held = []\<rparr>"
  have r: "reachable (\<lambda>s. s = ?s) use_step ?s" by (rule reachable_init) simp
  obtain p where p: "allocate 32 MemoryPool_new = Some (body_of 32, p)"
    using allocate_new [OF example_new(1)] by auto
  have st: "use_step ?s (Alloc (body_of 32)) \<lparr>pool = p, held = [body_of 32]\<rparr>"
    using use_alloc [of 32 ?s "body_of 32" p] p example_new(2) by simp
  from memory_pool_safe [OF reachable_step [OF r st]] p show ?thesis by auto
qed

text \<open>Property C22: on lists of blocks, \<open>allocate\<close> takes the first free block, or a new one when there is none, and
  \<open>deallocate\<close> moves a block to the front of the free list: memory is reused in last-in first-out order.\<close>

theorem memory_pool_refines:
  assumes "repr p ds fs" "\<forall>a \<in> set (ds @ fs). aligned a" "new_ok fresh p"
  shows "\<exists>p'. allocate fresh p =
      Some ((case fs of [] \<Rightarrow> fresh | a # fs \<Rightarrow> a) + sizeof_element, p') \<and>
      repr p' ((case fs of [] \<Rightarrow> fresh | a # fs \<Rightarrow> a) # ds) (tl fs) \<and>
      (\<forall>xs a ys. ds = xs @ a # ys \<longrightarrow>
        (\<exists>p''. deallocate (Some (a + sizeof_element)) p = Some p'' \<and> repr p'' (xs @ ys) (a # fs)))"
proof (cases fs)
  case Nil
  have "fresh \<notin> set ds" "body_of fresh = fresh + sizeof_element"
    using assms(1,3) by (auto simp: repr_def new_ok_def body_of_aligned)
  then show ?thesis using allocate_new [of p ds fresh] deallocate_block assms(1) Nil by auto
next
  case (Cons a fs')
  have "body_of a = a + sizeof_element" using assms(2) Cons by (intro body_of_aligned) simp
  then show ?thesis using allocate_free [of p ds a fs' fresh] deallocate_block assms(1) Cons by auto
qed

lemma memory_pool_refines_witness:
  "\<exists>p. allocate 32 MemoryPool_new = Some (32 + sizeof_element, p) \<and> repr p [32] []"
  using memory_pool_refines [OF example_new(1) _ example_new(2)] by auto

end
