(* ===== verification/Thread_Pool.thy ===== *)
theory Thread_Pool
  imports Task_Fifo
begin

text \<open>
  Model of \<^verbatim>\<open>src/src/thread_pool.cpp\<close> and \<^verbatim>\<open>src/include/ashe/thread_pool.h\<close>. Each section under the mutex is
  a function; workers and callers interleave as a step relation. A worker that waits goes on only when
  the predicate of its wait holds. A task is a value.
\<close>

section \<open>The code\<close>

text \<open>What a worker thread does: it waits for the condition, runs a task, or has returned.\<close>

datatype 't worker = Waiting | Running 't | Exited

record 't ThreadPool =
  tasks :: "'t list"
  pool_stop :: bool
  workers :: "'t worker list"

definition ThreadPool_new :: "nat \<Rightarrow> 't ThreadPool" where
  "ThreadPool_new threads = \<lparr>tasks = [], pool_stop = False, workers = replicate threads Waiting\<rparr>"

definition pool_enqueue :: "'t \<Rightarrow> 't ThreadPool \<Rightarrow> 't ThreadPool" where
  "pool_enqueue task p = (if \<not> pool_stop p then p\<lparr>tasks := tasks p @ [task]\<rparr> else p)"

text \<open>The locked section of a worker; \<open>None\<close> as long as the predicate of the wait does not hold.\<close>

definition worker_take :: "nat \<Rightarrow> 't ThreadPool \<Rightarrow> 't ThreadPool option" where
  "worker_take i p =
     (if pool_stop p \<or> tasks p \<noteq> []
      then if pool_stop p \<and> tasks p = []
           then Some (p\<lparr>workers := (workers p)[i := Exited]\<rparr>)
           else Some (p\<lparr>tasks := tl (tasks p), workers := (workers p)[i := Running (hd (tasks p))]\<rparr>)
      else None)"

definition worker_done :: "nat \<Rightarrow> 't ThreadPool \<Rightarrow> 't ThreadPool" where
  "worker_done i p = p\<lparr>workers := (workers p)[i := Waiting]\<rparr>"

definition pool_set_stop :: "'t ThreadPool \<Rightarrow> 't ThreadPool" where
  "pool_set_stop p = p\<lparr>pool_stop := True\<rparr>"

text \<open>The joins of the destructor are over when every worker has returned.\<close>

definition pool_joined :: "'t ThreadPool \<Rightarrow> bool" where
  "pool_joined p \<longleftrightarrow> list_all (\<lambda>w. case w of Exited \<Rightarrow> True | _ \<Rightarrow> False) (workers p)"

datatype 't pool_label = Enqueue 't bool | Start nat 't | Finish nat | Exit nat | StopPool

inductive pool_step :: "'t ThreadPool \<Rightarrow> 't pool_label \<Rightarrow> 't ThreadPool \<Rightarrow> bool" where
  pool_enqueue: "pool_step p (Enqueue t (\<not> pool_stop p)) (pool_enqueue t p)"
| pool_start: "i < length (workers p) \<Longrightarrow> workers p ! i = Waiting \<Longrightarrow> worker_take i p = Some p' \<Longrightarrow>
    workers p' ! i = Running t \<Longrightarrow> pool_step p (Start i t) p'"
| pool_exit: "i < length (workers p) \<Longrightarrow> workers p ! i = Waiting \<Longrightarrow> worker_take i p = Some p' \<Longrightarrow>
    workers p' ! i = Exited \<Longrightarrow> pool_step p (Exit i) p'"
| pool_finish: "i < length (workers p) \<Longrightarrow> workers p ! i = Running t \<Longrightarrow> pool_step p (Finish i) (worker_done i p)"
| pool_stop: "pool_step p StopPool (pool_set_stop p)"

section \<open>Order and shutdown\<close>

text \<open>A worker has returned only when the pool is stopped and the queue is empty.\<close>

definition pool_inv :: "'t ThreadPool \<Rightarrow> bool" where
  "pool_inv p \<longleftrightarrow> (Exited \<in> set (workers p) \<longrightarrow> pool_stop p \<and> tasks p = [])"

definition pool_accepted :: "'t pool_label \<Rightarrow> 't list" where
  "pool_accepted l = (case l of Enqueue t b \<Rightarrow> if b then [t] else [] | _ \<Rightarrow> [])"

definition pool_started :: "'t pool_label \<Rightarrow> 't list" where
  "pool_started l = (case l of Start i t \<Rightarrow> [t] | _ \<Rightarrow> [])"

lemma set_list_update_Exited: "Exited \<in> set (ws[i := w]) \<Longrightarrow> w \<noteq> Exited \<Longrightarrow> Exited \<in> set ws"
  using set_update_subset_insert [of ws i w] by auto

interpretation pool: task_fifo "\<lambda>p. \<exists>n. p = ThreadPool_new n" pool_step pool_inv pool_accepted pool_started tasks "\<lambda>_. False"
proof unfold_locales
  show "pool_inv p" if "\<exists>n. p = ThreadPool_new n" for p :: "'a ThreadPool"
    using that by (auto simp: pool_inv_def ThreadPool_new_def)
  show "pool_inv p'" if I: "pool_inv p" and s: "pool_step p l p'" for p l and p' :: "'a ThreadPool"
    using s
  proof (cases rule: pool_step.cases)
    case (pool_start i t)
    with I show ?thesis
      by (auto simp: pool_inv_def worker_take_def dest: set_list_update_Exited split: if_splits)
  qed (use I in \<open>auto simp: pool_inv_def pool_enqueue_def worker_take_def worker_done_def pool_set_stop_def
      dest: set_list_update_Exited split: if_splits\<close>)
  show "tasks p @ pool_accepted l = pool_started l @ tasks p'" if "pool_step p l p'" for p l and p' :: "'a ThreadPool"
    using that
    by (cases rule: pool_step.cases)
      (auto simp: pool_accepted_def pool_started_def pool_enqueue_def worker_take_def worker_done_def pool_set_stop_def
        split: if_splits)
qed

lemma pool_joined_iff: "pool_joined p \<longleftrightarrow> (\<forall>w \<in> set (workers p). w = Exited)"
proof -
  have "(case w of Exited \<Rightarrow> True | _ \<Rightarrow> False) \<longleftrightarrow> w = Exited" for w :: "'a worker" by (cases w) simp_all
  then show ?thesis by (simp add: pool_joined_def list_all_iff)
qed

text \<open>How much the workers have left to do after the stop.\<close>

definition worker_weight :: "'t worker \<Rightarrow> nat" where
  "worker_weight w = (case w of Waiting \<Rightarrow> 1 | Running t \<Rightarrow> 2 | Exited \<Rightarrow> 0)"

definition pool_weight :: "'t ThreadPool \<Rightarrow> nat" where
  "pool_weight p = 2 * length (tasks p) + sum_list (map worker_weight (workers p))"

definition by_worker :: "'t pool_label \<Rightarrow> bool" where
  "by_worker l \<longleftrightarrow> (case l of Enqueue t b \<Rightarrow> False | StopPool \<Rightarrow> False | _ \<Rightarrow> True)"

lemma sum_list_update_weight:
  "i < length ws \<Longrightarrow>
   sum_list (map worker_weight (ws[i := w])) + worker_weight (ws ! i) = sum_list (map worker_weight ws) + worker_weight w"
  by (induction ws arbitrary: i) (auto simp: nth_Cons split: nat.splits)

lemma pool_weight_step:
  assumes "pool_step p l p'" "by_worker l"
  shows "pool_weight p' < pool_weight p"
  using assms
proof (cases rule: pool_step.cases)
  case (pool_start i t)
  then show ?thesis
    using sum_list_update_weight [of i "workers p" "Running t"]
    by (cases "tasks p") (auto simp: worker_take_def pool_weight_def worker_weight_def split: if_splits)
next
  case (pool_exit i)
  then show ?thesis
    using sum_list_update_weight [of i "workers p" Exited]
    by (auto simp: worker_take_def pool_weight_def worker_weight_def split: if_splits)
next
  case (pool_finish i t)
  then show ?thesis
    using sum_list_update_weight [of i "workers p" Waiting]
    by (simp add: worker_done_def pool_weight_def worker_weight_def)
qed (simp_all add: by_worker_def)

lemma pool_progress:
  assumes "pool_stop p" "\<not> pool_joined p"
  shows "\<exists>l p'. pool_step p l p' \<and> by_worker l"
proof -
  obtain i where i: "i < length (workers p)" "workers p ! i \<noteq> Exited"
    using assms(2) by (auto simp: pool_joined_iff in_set_conv_nth)
  show ?thesis
  proof (cases "workers p ! i")
    case Waiting
    obtain p' where t: "worker_take i p = Some p'" using assms(1) by (cases "tasks p = []") (simp_all add: worker_take_def)
    have "pool_step p (Exit i) p' \<or> (\<exists>t. pool_step p (Start i t) p')"
      using i(1) Waiting t by (cases "tasks p = []") (auto simp: worker_take_def assms(1) intro!: pool_step.intros)
    then show ?thesis by (auto simp: by_worker_def)
  next
    case (Running t)
    with i(1) show ?thesis by (intro exI conjI, rule pool_finish) (auto simp: by_worker_def)
  qed (use i in simp)
qed

lemma pool_workers_run: "run pool_step p ls p' \<Longrightarrow> length (workers p') = length (workers p)"
proof (induction rule: run.induct)
  case (run_Cons p l p1 ls p2)
  from run_Cons(1) have "length (workers p1) = length (workers p)"
    by (cases rule: pool_step.cases)
      (auto simp: pool_enqueue_def worker_take_def worker_done_def pool_set_stop_def split: if_splits)
  with run_Cons(3) show ?case by simp
qed simp

lemma pool_stop_step: "pool_step p l p' \<Longrightarrow> pool_stop p \<Longrightarrow> pool_stop p'"
  by (erule pool_step.cases)
    (auto simp: pool_enqueue_def worker_take_def worker_done_def pool_set_stop_def split: if_splits)

lemma pool_stop_stays: "run pool_step p ls p' \<Longrightarrow> pool_stop p \<Longrightarrow> pool_stop p'"
  by (induction rule: run.induct) (auto dest: pool_stop_step)

lemma pool_enqueue_stopped: "pool_stop p \<Longrightarrow> pool_step p l p' \<Longrightarrow> \<not> by_worker l \<Longrightarrow> p' = p"
  by (erule pool_step.cases) (auto simp: pool_enqueue_def pool_set_stop_def by_worker_def)

lemma pool_stop_bound:
  "run pool_step p ls p' \<Longrightarrow> pool_stop p \<Longrightarrow> length (filter by_worker ls) + pool_weight p' \<le> pool_weight p"
proof (induction rule: run.induct)
  case (run_Cons p l p1 ls p2)
  have "pool_stop p1" by (rule pool_stop_step [OF run_Cons(1,4)])
  then have IH: "length (filter by_worker ls) + pool_weight p2 \<le> pool_weight p1" using run_Cons(3) by simp
  show ?case
  proof (cases "by_worker l")
    case True
    with pool_weight_step [OF run_Cons(1)] IH show ?thesis by simp
  next
    case False
    with pool_enqueue_stopped [OF run_Cons(4,1)] IH show ?thesis by simp
  qed
qed simp

section \<open>Properties\<close>

text \<open>Property C23: a thread pool starts its tasks in the order in which they were accepted, each of them once,
  with any number of threads and in every interleaving; when the destructor of a pool with threads has
  joined them, every accepted task has been run.\<close>

theorem thread_pool_fifo:
  assumes "run pool_step (ThreadPool_new n) ls p"
  shows "concat (map pool_accepted ls) = concat (map pool_started ls) @ tasks p \<and>
    (0 < n \<and> pool_joined p \<longrightarrow> concat (map pool_accepted ls) = concat (map pool_started ls))"
proof -
  have I: "pool_inv (ThreadPool_new n)" by (rule pool.inv_init) blast
  have f: "concat (map pool_accepted ls) = concat (map pool_started ls) @ tasks p"
    using pool.fifo_run [OF assms I] by (simp add: ThreadPool_new_def)
  have "tasks p = []" if "0 < n" "pool_joined p"
  proof -
    have "length (workers p) = n" using pool_workers_run [OF assms] by (simp add: ThreadPool_new_def)
    then have "Exited \<in> set (workers p)"
      using that pool_joined_iff [of p] by (cases "workers p") auto
    then show ?thesis using pool.inv_run [OF assms I] by (simp add: pool_inv_def)
  qed
  with f show ?thesis by simp
qed

lemma thread_pool_fifo_witness:
  "concat (map pool_accepted [Enqueue 7 True, Start 1 (7 :: nat), StopPool]) = [7]"
proof -
  have "run pool_step (ThreadPool_new 2) [Enqueue 7 True, Start 1 (7 :: nat), StopPool]
     \<lparr>tasks = [], pool_stop = True, workers = [Waiting, Running 7]\<rparr>"
  proof (rule run.intros)
    show "pool_step (ThreadPool_new 2) (Enqueue 7 True) (pool_enqueue (7 :: nat) (ThreadPool_new 2))"
      using pool_step.pool_enqueue [of "ThreadPool_new 2" "7 :: nat"] by (simp add: ThreadPool_new_def)
    show "run pool_step (pool_enqueue (7 :: nat) (ThreadPool_new 2)) [Start 1 7, StopPool]
        \<lparr>tasks = [], pool_stop = True, workers = [Waiting, Running 7]\<rparr>"
    proof (rule run.intros)
      show "pool_step (pool_enqueue (7 :: nat) (ThreadPool_new 2)) (Start 1 7)
          \<lparr>tasks = [], pool_stop = False, workers = [Waiting, Running 7]\<rparr>"
        by (rule pool_step.pool_start) (simp_all add: ThreadPool_new_def pool_enqueue_def worker_take_def numeral_2_eq_2)
      show "run pool_step \<lparr>tasks = [], pool_stop = False, workers = [Waiting, Running (7 :: nat)]\<rparr> [StopPool]
          \<lparr>tasks = [], pool_stop = True, workers = [Waiting, Running 7]\<rparr>"
        using pool_step.pool_stop [of "\<lparr>tasks = [], pool_stop = False, workers = [Waiting, Running (7 :: nat)]\<rparr>"]
        by (simp add: run_Cons_iff pool_set_stop_def)
    qed
  qed
  from thread_pool_fifo [OF this] show ?thesis by (simp add: pool_started_def)
qed

text \<open>The destructor of a thread pool ends: once the pool is stopped the workers make at most as many
  steps as \<open>pool_weight\<close> says, whatever callers do meanwhile, and as long as a worker has not returned one of
  them can make a step.\<close>

theorem thread_pool_shutdown:
  assumes "pool_stop p" "run pool_step p ls p'"
  shows "length (filter by_worker ls) \<le> pool_weight p \<and>
    (pool_joined p' \<or> (\<exists>l p''. pool_step p' l p'' \<and> by_worker l))"
  using pool_stop_bound [OF assms(2,1)] pool_progress [OF pool_stop_stays [OF assms(2,1)]] by auto

lemma thread_pool_shutdown_witness:
  "length (filter by_worker [] :: nat pool_label list) \<le> pool_weight \<lparr>tasks = [7 :: nat], pool_stop = True, workers = [Waiting]\<rparr>"
  by (rule thread_pool_shutdown [of "\<lparr>tasks = [7 :: nat], pool_stop = True, workers = [Waiting]\<rparr>", THEN conjunct1]) simp_all

end
