(* ===== verification/Async_Worker.thy ===== *)
theory Async_Worker
  imports Task_Fifo
begin

text \<open>
  Model of \<^verbatim>\<open>src/src/async_worker.cpp\<close> and \<^verbatim>\<open>src/include/ashe/async_worker.h\<close>: one thread that runs
  tasks from a queue, with start, stop and clearing from other threads. The sections under the mutex are
  functions.
\<close>

section \<open>The code\<close>

text \<open>The future \<open>thread_\<close> together with what its thread does: it is not valid, the thread has begun but not
  entered the loop, it waits or looks at the queue, it runs a task, or it has returned.\<close>

datatype 't thread = Not_valid | Begun | Looping | Busy 't | Returned

record 't AsyncWorker =
  exit_flag :: bool
  work_queue :: "'t list"
  worker_running :: bool
  thread :: "'t thread"

definition AsyncWorker_new :: "'t AsyncWorker" where
  "AsyncWorker_new = \<lparr>exit_flag = False, work_queue = [], worker_running = False, thread = Not_valid\<rparr>"

text \<open>\<open>start\<close> leaves a thread alone that has not returned.\<close>

definition aw_start :: "'t AsyncWorker \<Rightarrow> bool \<times> 't AsyncWorker" where
  "aw_start w =
     (case thread w of
        Not_valid \<Rightarrow> (True, w\<lparr>thread := Begun\<rparr>)
      | Returned \<Rightarrow> (True, w\<lparr>thread := Begun\<rparr>)
      | _ \<Rightarrow> (True, w))"

definition aw_stop_section :: "'t AsyncWorker \<Rightarrow> 't AsyncWorker" where
  "aw_stop_section w = w\<lparr>work_queue := [], exit_flag := True\<rparr>"

text \<open>The wait at the end of \<open>stop\<close> is over.\<close>

definition aw_stopped :: "'t AsyncWorker \<Rightarrow> bool" where
  "aw_stopped w \<longleftrightarrow> (case thread w of Not_valid \<Rightarrow> True | Returned \<Rightarrow> True | _ \<Rightarrow> False)"

definition isRunning :: "'t AsyncWorker \<Rightarrow> bool" where
  "isRunning w = worker_running w"

definition aw_begin :: "'t AsyncWorker \<Rightarrow> 't AsyncWorker" where
  "aw_begin w = w\<lparr>worker_running := True, thread := Looping\<rparr>"

text \<open>The locked section of \<open>run\<close>; \<open>None\<close> as long as the predicate of the wait does not hold.\<close>

definition aw_take :: "'t AsyncWorker \<Rightarrow> 't AsyncWorker option" where
  "aw_take w =
     (if exit_flag w \<or> work_queue w \<noteq> []
      then if exit_flag w then Some (w\<lparr>worker_running := False, thread := Returned\<rparr>)
           else Some (w\<lparr>work_queue := tl (work_queue w), thread := Busy (hd (work_queue w))\<rparr>)
      else None)"

definition aw_task_done :: "'t AsyncWorker \<Rightarrow> 't AsyncWorker" where
  "aw_task_done w = w\<lparr>thread := Looping\<rparr>"

definition clearTasks :: "'t AsyncWorker \<Rightarrow> 't AsyncWorker" where
  "clearTasks w = w\<lparr>work_queue := []\<rparr>"

definition tasksCount :: "'t AsyncWorker \<Rightarrow> nat" where
  "tasksCount w = length (work_queue w)"

definition aw_invoke :: "'t \<Rightarrow> 't AsyncWorker \<Rightarrow> 't AsyncWorker" where
  "aw_invoke task w = w\<lparr>work_queue := work_queue w @ [task]\<rparr>"

datatype 't aw_label = Invoke 't | Clear | StartCall bool | StopCall | Begin | Take 't | Leave | TaskDone

inductive aw_step :: "'t AsyncWorker \<Rightarrow> 't aw_label \<Rightarrow> 't AsyncWorker \<Rightarrow> bool" where
  aw_invoke: "aw_step w (Invoke t) (aw_invoke t w)"
| aw_clear: "aw_step w Clear (clearTasks w)"
| aw_start: "aw_start w = (b, w') \<Longrightarrow> aw_step w (StartCall b) w'"
| aw_stop: "aw_step w StopCall (aw_stop_section w)"
| aw_begin: "thread w = Begun \<Longrightarrow> aw_step w Begin (aw_begin w)"
| aw_take: "thread w = Looping \<Longrightarrow> aw_take w = Some w' \<Longrightarrow> thread w' = Busy t \<Longrightarrow> aw_step w (Take t) w'"
| aw_leave: "thread w = Looping \<Longrightarrow> aw_take w = Some w' \<Longrightarrow> thread w' = Returned \<Longrightarrow> aw_step w Leave w'"
| aw_done: "thread w = Busy t \<Longrightarrow> aw_step w TaskDone (aw_task_done w)"

inductive_cases aw_stepE: "aw_step w l w'"

lemmas aw_defs = aw_invoke_def clearTasks_def aw_start_def aw_stop_section_def aw_begin_def aw_take_def aw_task_done_def

section \<open>Order and stop\<close>

text \<open>The flag \<open>running_\<close> is set exactly while the thread is in the loop.\<close>

definition aw_inv :: "'t AsyncWorker \<Rightarrow> bool" where
  "aw_inv w \<longleftrightarrow> worker_running w = (case thread w of Looping \<Rightarrow> True | Busy t \<Rightarrow> True | _ \<Rightarrow> False)"

definition aw_accepted :: "'t aw_label \<Rightarrow> 't list" where
  "aw_accepted l = (case l of Invoke t \<Rightarrow> [t] | _ \<Rightarrow> [])"

definition aw_started :: "'t aw_label \<Rightarrow> 't list" where
  "aw_started l = (case l of Take t \<Rightarrow> [t] | _ \<Rightarrow> [])"

definition aw_drops :: "'t aw_label \<Rightarrow> bool" where
  "aw_drops l \<longleftrightarrow> (case l of Clear \<Rightarrow> True | StopCall \<Rightarrow> True | _ \<Rightarrow> False)"

interpretation aw: task_fifo "\<lambda>w. w = AsyncWorker_new" aw_step aw_inv aw_accepted aw_started work_queue aw_drops
proof unfold_locales
  show "aw_inv w" if "w = AsyncWorker_new" for w :: "'a AsyncWorker"
    using that by (simp add: aw_inv_def AsyncWorker_new_def)
  show "aw_inv w'" if "aw_inv w" "aw_step w l w'" for w l and w' :: "'a AsyncWorker"
    using that(2,1) by (elim aw_stepE) (auto simp: aw_inv_def aw_defs split: thread.splits if_splits)
  show "work_queue w @ aw_accepted l = aw_started l @ work_queue w'"
    if "aw_step w l w'" "\<not> aw_drops l" for w l and w' :: "'a AsyncWorker"
    using that
    by (elim aw_stepE) (auto simp: aw_accepted_def aw_started_def aw_drops_def aw_defs split: thread.splits if_splits)
qed

lemmas aw_run = run.run_Cons [where step = aw_step]

lemma aw_exit_stays: "aw_step w l w' \<Longrightarrow> exit_flag w \<Longrightarrow> exit_flag w' \<and> aw_started l = []"
  by (elim aw_stepE) (auto simp: aw_started_def aw_defs split: thread.splits if_splits)

section \<open>Properties\<close>

text \<open>The worker starts the tasks in the order in which they were invoked, as long as neither
  \<open>stop\<close> nor \<open>clearTasks\<close> is called, and \<open>isRunning\<close> tells whether its thread is in the loop.\<close>

theorem async_worker_fifo:
  assumes "run aw_step AsyncWorker_new ls w" "\<forall>l \<in> set ls. \<not> aw_drops l"
  shows "concat (map aw_accepted ls) = concat (map aw_started ls) @ work_queue w \<and>
    isRunning w = (case thread w of Looping \<Rightarrow> True | Busy t \<Rightarrow> True | _ \<Rightarrow> False)"
proof -
  have I: "aw_inv AsyncWorker_new" by (rule aw.inv_init) simp
  have "concat (map aw_accepted ls) = concat (map aw_started ls) @ work_queue w"
    using aw.fifo_run [OF assms(1) I assms(2)] by (simp add: AsyncWorker_new_def)
  moreover have "aw_inv w" using aw.inv_run [OF assms(1) I] .
  ultimately show ?thesis by (simp add: aw_inv_def isRunning_def)
qed

lemma async_worker_fifo_witness:
  "concat (map aw_accepted [Invoke (3 :: nat), Invoke 4]) = [3, 4]"
proof -
  have "run aw_step AsyncWorker_new [Invoke (3 :: nat), Invoke 4] (aw_invoke 4 (aw_invoke 3 AsyncWorker_new))"
    by (rule aw_run [OF aw_step.aw_invoke aw_run [OF aw_step.aw_invoke run.run_Nil]])
  from async_worker_fifo [OF this] show ?thesis
    by (simp add: aw_drops_def aw_started_def aw_invoke_def AsyncWorker_new_def)
qed

text \<open>Once \<open>stop\<close> has been called no task is started any more, in any interleaving, also after the
  worker has been started again: \<open>start\<close> still answers true, and what is invoked afterwards only piles up.\<close>

theorem async_worker_stop_is_final:
  assumes "run aw_step (aw_stop_section w) ls w'"
  shows "concat (map aw_started ls) = [] \<and> fst (aw_start w')"
proof -
  have stays: "exit_flag u \<Longrightarrow> run aw_step u ls v \<Longrightarrow> \<forall>l \<in> set ls. aw_started l = []" for u v :: "'a AsyncWorker" and ls
    by (rotate_tac, induction rule: run.induct) (auto dest: aw_exit_stays)
  have "\<forall>l \<in> set ls. aw_started l = []" by (rule stays [OF _ assms]) (simp add: aw_stop_section_def)
  moreover have "fst (aw_start w')" by (simp add: aw_start_def split: thread.splits)
  ultimately show ?thesis by simp
qed

lemma async_worker_stop_is_final_witness:
  "concat (map aw_started [StartCall True, Begin, Invoke (3 :: nat)]) = []"
proof -
  let ?w0 = "aw_stop_section (AsyncWorker_new :: nat AsyncWorker)"
  have "run aw_step ?w0 [StartCall True, Begin, Invoke (3 :: nat)] (aw_invoke 3 (aw_begin (snd (aw_start ?w0))))"
  proof (rule aw_run [OF aw_step.aw_start aw_run [OF aw_step.aw_begin aw_run [OF aw_step.aw_invoke run.run_Nil]]])
    show "aw_start ?w0 = (True, snd (aw_start ?w0))" "thread (snd (aw_start ?w0)) = Begun"
      by (simp_all add: aw_stop_section_def aw_start_def AsyncWorker_new_def)
  qed
  from async_worker_stop_is_final [OF this] show ?thesis by (rule conjunct1)
qed

end
