(* ===== verification/Spec2Isabelle.thy ===== *)
theory Spec2Isabelle
  imports Sha256 Sha1 Md5 Sha512 Crc32 Aes_Modes Rsa_Roundtrip Base64 Ip_Address Hex_Url Buffer_Queue Timer_Manager Str_Util Version Cmd_Line Configor_Tree Make_Path Env_Var Icon_Laws Registry_Keys Std_File Sha2_Constants Loop_Thread Sync_Util Process_Laws Process_Read Shellink_Format Memory_Pool Thread_Pool Async_Worker Message_Loop
begin

text \<open>
  A verification library for the portable core of \<^verbatim>\<open>ashe\<close>, a C++ library of utilities. The program is a
  collection of components that call each other in a few places: RSA uses Base64 and the string
  functions, the address classes use the byte order functions, the digests of files share one reading
  loop. Every theory below models one component as it is written, proves what makes it right, and
  leaves to its neighbours only named lemmas.

  \<^bold>\<open>Conventions.\<close> Bytes, \<^verbatim>\<open>uint32_t\<close> and \<^verbatim>\<open>uint64_t\<close> are words of that width, so that they wrap around; \<^verbatim>\<open>int\<close>
  and \<^verbatim>\<open>long long\<close> are \<open>int\<close> with the wrap-around written out where the code relies on it; \<^verbatim>\<open>size_t\<close> positions
  that are bounded by the length of a container are \<open>nat\<close>. Strings and vectors are lists. A byte-order
  dependent function takes a flag \<open>big\<close> for the host. Errors are values of an option or a sum type. A loop
  that may not end is a \<open>partial_function (option)\<close>, for which \<open>None\<close> is \<open>does not return\<close>; theorems state
  that the result is \<open>Some\<close>, or that it is not. A function that ends has its measure. Only the
  parser of the configuration file and the deletion of registry keys have fuel: one more than the number of the tokens, and the
  size of the tree (twice that for \<open>DeleteSubKeys\<close>), are enough.

  \<^bold>\<open>Foundations.\<close>
  \<^item> \<open>Prelude\<close>: words and byte lists, \<^verbatim>\<open>memcpy\<close> and \<^verbatim>\<open>memset\<close>, hexadecimal output, lists cut into pieces.
  \<^item> \<open>Stream_Digest\<close>: the locales \<open>block_stream\<close> and \<open>block_digest\<close> for digests that take their input in parts:
    from the laws of one step follows that the result does not depend on how the input is cut. Every
    digest theory interprets it on its own functions.
  \<^item> \<open>Std_String\<close>: the string operations that components share, and the locale \<open>codec\<close> (a decoder undoes its
    encoder), interpreted by Base64, the hexadecimal and URL texts and the numbers of RSA.
  \<^item> \<open>Transition\<close>: executions of step relations and the locale \<open>state_machine\<close> of an invariant that every
    step keeps, interpreted by the components with threads.

  \<^bold>\<open>Components.\<close>
  \<^item> \<open>Sha256\<close>, \<open>Sha1\<close>, \<open>Md5\<close>, \<open>Sha512\<close>, \<open>Crc32\<close> (\<^verbatim>\<open>src/src/sha256.cpp\<close>, \<^verbatim>\<open>sha1.cpp\<close>, \<^verbatim>\<open>md5.cpp\<close>, \<^verbatim>\<open>sha512.cpp\<close>,
    \<^verbatim>\<open>crc32.cpp\<close>): contexts as records, the unrolled rounds as they stand, update, padding and final, and
    the functions on data and files. The theorems identify each with its standard (FIPS 180-4, RFC 1321, the bit-wise
    CRC), for every input, on hosts of both byte orders, and for every way in which a file is read. \<open>Sha2_Constants\<close>: the
    constants of SHA-2 are the bits of the roots of primes from which the standard takes them.
  \<^item> \<open>Aes\<close>, \<open>Aes_Modes\<close> (\<^verbatim>\<open>aes.cpp\<close>): the tables, the cipher on a state of 16 bytes, ECB, CBC and CTR on buffers,
    PKCS7. The inverse cipher undoes the cipher; the modes decrypt what they encrypt; the counter is a
    128-bit number; whole blocks are not padded.
  \<^item> \<open>Rsa_Primes\<close>, \<open>Little_Fermat\<close>, \<open>Rsa\<close>, \<open>Rsa_Text\<close>, \<open>Rsa_Roundtrip\<close> (\<^verbatim>\<open>rsa.cpp\<close>): the table of primes,
    arithmetic on \<^verbatim>\<open>long long\<close> with the overflow test, key generation from the results of \<^verbatim>\<open>rand()\<close>, and
    the text formats. Decryption undoes encryption for all keys made from two primes.
  \<^item> \<open>Base64\<close>, \<open>Hex_Url\<close> (\<^verbatim>\<open>base64.cpp\<close>, \<^verbatim>\<open>hex_encode.cpp\<close>, \<^verbatim>\<open>url_encode.cpp\<close>): encoders and decoders with
    their buffers; equivalence with RFC 4648, round trips, rejected inputs, stores inside of the buffers.
  \<^item> \<open>Byte_Order\<close>, \<open>Ip_Address\<close> (\<^verbatim>\<open>byteorder.h\<close>, \<^verbatim>\<open>byteorder.cpp\<close>, \<^verbatim>\<open>ipaddress.cpp\<close>): accessors of sized integers,
    and addresses of both families with their prefixes, masks, order and classes. \<^verbatim>\<open>inet_ntop\<close> and
    \<^verbatim>\<open>inet_pton\<close> are parameters.
  \<^item> \<open>Str_Util\<close> (\<^verbatim>\<open>string_util.cpp\<close>): the functions on strings of both character types.
  \<^item> \<open>Buffer_Queue\<close> (\<^verbatim>\<open>buffer_queue.cpp\<close>): a doubly linked list in an explicit heap, refined to a list of
    buffers; the locale \<open>byte_fifo\<close> states that what is written is read in order.
  \<^item> \<open>Timer_Manager\<close> (\<^verbatim>\<open>timer_manager.cpp\<close>): each locked section, and the call of the handler outside of them, as a function,
    worker and callers as a step relation with an invariant on the identifiers; what a removed timer may still do.
  \<^item> \<open>Decimal\<close>, \<open>Version\<close> (\<^verbatim>\<open>version.cpp\<close>): numbers as decimal text; versions are read back and compared as lists.
  \<^item> \<open>Cmd_Line\<close> (\<^verbatim>\<open>cmd_line_parser.cpp\<close>): the parser loop over the rest of the line, the table, the queries.
  \<^item> \<open>Configor\<close>, \<open>Configor_Text\<close>, \<open>Configor_Roundtrip\<close>, \<open>Configor_Tree\<close> (\<^verbatim>\<open>configor.cpp\<close>): preprocessor, tokenizer,
    recursive parser and writer of configuration files, the tree of elements and its accessors. What is saved is
    read back; what is set is read and is in the file; an unclosed bracket is parsed forever. The locale \<open>place\<close>
    (what is read after a write) is interpreted on the elements at a path.
  \<^item> \<open>Path_Util\<close>, \<open>Path_Laws\<close>, \<open>Make_Path\<close> (\<^verbatim>\<open>path.cpp\<close>, \<^verbatim>\<open>path_util.cpp\<close>): the lexical functions and their variants on
    buffers; the creation of a path, with \<^verbatim>\<open>stat\<close> and \<^verbatim>\<open>mkdir\<close> as parameters. The locale \<open>file_tree\<close> states what these
    calls do, and is interpreted on a tree as a map.
  \<^item> \<open>Env_Var\<close> (\<^verbatim>\<open>win/env_variable.cpp\<close>): environment variables on a registry that is a map; the list in \<^verbatim>\<open>Path\<close> is
    changed entry by entry.
  \<^item> \<open>Icon_File\<close>, \<open>Icon_Laws\<close> (\<^verbatim>\<open>win/icon_util.cpp\<close>): the writer of icon files, whose directory leads to every image
    unless the padding is undefined, and the choice of the icon with the closest size.
  \<^item> \<open>Registry_Values\<close>, \<open>Registry_Keys\<close> (\<^verbatim>\<open>win/registry.cpp\<close>): typed values of a key as bytes, read back as they were
    written; keys as a tree that is seen in two views, its enumeration, and the two ways to delete a part of it.
  \<^item> \<open>Std_File\<close> (\<^verbatim>\<open>file.cpp\<close>): the file class over a model of the streams of the C library.
  \<^item> \<open>Sub_Process\<close>, \<open>Process_Laws\<close>, \<open>Process_Read\<close> (\<^verbatim>\<open>process.cpp\<close>): the table of descriptors of the parent and the child
    through all ways out of a start, exit status and signals, and the thread that polls the output.
  \<^item> \<open>Shellink\<close>, \<open>Shellink_Text\<close>, \<open>Shellink_Info\<close>, \<open>Shellink_Format\<close> (\<^verbatim>\<open>win/shellink_parser.cpp\<close>): the reader of
    the binary format of shell links as a list of statements on an object and the rest of the file, with error codes
    and undefined behaviour as outcomes; the format as functions to bytes; what is written is read back.
  \<^item> \<open>Task_Fifo\<close>: the locale \<open>task_fifo\<close> of components that accept tasks and start them in order, an
    extension of \<open>state_machine\<close>; its interpretations give the order over whole runs.
  \<^item> \<open>Thread_Pool\<close>, \<open>Async_Worker\<close> (\<^verbatim>\<open>thread_pool.h\<close>, \<^verbatim>\<open>thread_pool.cpp\<close>, \<^verbatim>\<open>async_worker.h\<close>, \<^verbatim>\<open>async_worker.cpp\<close>):
    locked sections as functions, any number of workers and callers as steps. Order, shutdown and what stop means.
  \<^item> \<open>Message_Loop\<close> (\<^verbatim>\<open>message_loop.cpp\<close>, \<^verbatim>\<open>pending_task.cpp\<close>, \<^verbatim>\<open>message_pump_default.cpp\<close>): the four queues, the
    pump with its program positions and its condition variable, posts from any thread. Completeness, order, wake-ups, delayed tasks.
  \<^item> \<open>Loop_Thread\<close> (\<^verbatim>\<open>thread.cpp\<close>): the owner and its thread with a message loop as one machine; stop leaves the object as
    new and calls return when the loop ends on demand, and what goes wrong when it ends by itself.
  \<^item> \<open>Sync_Util\<close> (\<^verbatim>\<open>event.cpp\<close>, \<^verbatim>\<open>at_exit.cpp\<close>, \<^verbatim>\<open>thread_checker.cpp\<close>, \<^verbatim>\<open>message_loop_task_runner.cpp\<close>, \<^verbatim>\<open>task_runner.cpp\<close>,
    \<^verbatim>\<open>singleton_process.cpp\<close>): small classes around threads.
  \<^item> \<open>Memory_Pool\<close> (\<^verbatim>\<open>memory_pool.h\<close>): two doubly linked lists of blocks on a heap, refined to two lists; what the
    user holds is the state of a \<open>state_machine\<close>.

  \<^bold>\<open>Bounds.\<close> Theorems that need one name it: Base64 counts positions in 32 bits (inputs below 4 GiB), SHA-512
    takes lengths below \<open>2 ^ 29\<close> bytes, modular arithmetic moduli up to \<open>2 ^ 62\<close>, a text for RSA \<open>2 ^ 28\<close> bytes, whose cipher
    fits into what Base64 can encode. Times of the timer manager are unbounded.

  \<^bold>\<open>Not modelled.\<close> Third-party headers (\<^verbatim>\<open>optional.hpp\<close>, \<^verbatim>\<open>ghc/filesystem.hpp\<close>, \<^verbatim>\<open>xorstr.hpp\<close>), everything else under
  \<^verbatim>\<open>win/\<close>, and the wrappers of logging, time, encodings and the operating system: what
  they do is decided by the calls they make. Allocation does not fail. Nested message loops and the effect of tasks on the loop that deletes them are not modelled either.
\<close>

end
